(* ===== verification/Prelude.thy ===== *)
theory Prelude
  imports Main "HOL-Library.Sublist" "HOL-Library.Product_Lexorder"
begin

text \<open>
  What the components share: the database as the code uses it (a table is a list of rows, an SQL
  UPDATE, DELETE or SELECT is a function on it), the JSON values of the jsonb columns, decimal
  text, and the JavaScript string operations the code calls. Strings are lists of \<open>char\<close>; one
  \<open>char\<close> stands for one UTF-16 code unit, so lengths are JavaScript's lengths on the
  strings the code compares (codes, addresses and error texts, which are Latin).
  Times are integers, in milliseconds.
\<close>

named_theorems table_simps \<open>how the table operations act on a lookup by key\<close>

type_synonym time_ms = int

section \<open>Tables\<close>

text \<open>\<open>UPDATE t SET f WHERE p\<close>, its \<open>RETURNING *\<close>, \<open>DELETE FROM t WHERE p\<close> and the lookup by a key.\<close>

definition sql_update :: "('r \<Rightarrow> bool) \<Rightarrow> ('r \<Rightarrow> 'r) \<Rightarrow> 'r list \<Rightarrow> 'r list" where
  "sql_update p f t = map (\<lambda>r. if p r then f r else r) t"

definition sql_returning :: "('r \<Rightarrow> bool) \<Rightarrow> ('r \<Rightarrow> 'r) \<Rightarrow> 'r list \<Rightarrow> 'r list" where
  "sql_returning p f t = map f (filter p t)"

definition sql_delete :: "('r \<Rightarrow> bool) \<Rightarrow> 'r list \<Rightarrow> 'r list" where
  "sql_delete p t = filter (\<lambda>r. \<not> p r) t"

definition row_by :: "('r \<Rightarrow> 'k) \<Rightarrow> 'k \<Rightarrow> 'r list \<Rightarrow> 'r option" where
  "row_by key k t = find (\<lambda>r. key r = k) t"

definition first_row :: "'r list \<Rightarrow> 'r option" where
  "first_row rs = (case rs of [] \<Rightarrow> None | r # _ \<Rightarrow> Some r)"

lemma row_by_Nil [table_simps]: "row_by key k [] = None"
  by (simp add: row_by_def)

lemma row_by_Cons [table_simps]:
  "row_by key k (r # rs) = (if key r = k then Some r else row_by key k rs)"
  by (simp add: row_by_def)

lemma row_by_append:
  "row_by key k (xs @ ys) = (case row_by key k xs of None \<Rightarrow> row_by key k ys | Some r \<Rightarrow> Some r)"
  by (induction xs) (auto simp: table_simps)

lemma row_by_None_iff: "row_by key k t = None \<longleftrightarrow> k \<notin> key ` set t"
  by (induction t) (auto simp: table_simps)

lemma row_by_SomeD: "row_by key k t = Some r \<Longrightarrow> r \<in> set t \<and> key r = k"
  by (induction t) (auto simp: table_simps split: if_splits)

lemma row_by_key: "row_by key k t = Some r \<Longrightarrow> key r = k"
  by (drule row_by_SomeD) simp

lemma row_by_in: "distinct (map key t) \<Longrightarrow> r \<in> set t \<Longrightarrow> row_by key (key r) t = Some r"
proof (induction t)
  case Nil
  then show ?case by simp
next
  case (Cons a t)
  show ?case
  proof (cases "r = a")
    case True
    then show ?thesis by (simp add: row_by_Cons)
  next
    case False
    with Cons.prems have "r \<in> set t" and "key a \<noteq> key r" by auto
    with Cons show ?thesis by (simp add: row_by_Cons)
  qed
qed

lemma row_by_update [table_simps]:
  assumes "\<And>r. key (f r) = key r"
  shows "row_by key k (sql_update p f t) = map_option (\<lambda>r. if p r then f r else r) (row_by key k t)"
proof (induction t)
  case Nil
  show ?case by (simp add: sql_update_def row_by_Nil)
next
  case (Cons r t)
  have "sql_update p f (r # t) = (if p r then f r else r) # sql_update p f t"
    by (simp add: sql_update_def)
  then show ?case
    using Cons.IH by (simp add: row_by_Cons assms)
qed

lemma row_by_delete [table_simps]:
  assumes "distinct (map key t)"
  shows "row_by key k (sql_delete p t) =
    (case row_by key k t of None \<Rightarrow> None | Some r \<Rightarrow> if p r then None else Some r)"
  using assms
proof (induction t)
  case Nil
  then show ?case by (simp add: sql_delete_def table_simps)
next
  case (Cons r t)
  have "key r = k \<Longrightarrow> row_by key k t = None"
    using Cons.prems by (auto simp: row_by_None_iff)
  with Cons show ?case by (auto simp: sql_delete_def table_simps)
qed

lemma map_key_update:
  "(\<And>r. key (f r) = key r) \<Longrightarrow> map key (sql_update p f t) = map key t"
  by (simp add: sql_update_def)

lemma distinct_update:
  "(\<And>r. key (f r) = key r) \<Longrightarrow> distinct (map key (sql_update p f t)) = distinct (map key t)"
  by (simp add: map_key_update)

lemma distinct_delete: "distinct (map key t) \<Longrightarrow> distinct (map key (sql_delete p t))"
  by (simp add: sql_delete_def distinct_map_filter)

lemma set_sql_delete: "set (sql_delete p t) \<subseteq> set t"
  by (auto simp: sql_delete_def)

lemma keys_update:
  "(\<And>r. key (f r) = key r) \<Longrightarrow> key ` set (sql_update p f t) = key ` set t"
  by (metis list.set_map map_key_update)

lemma first_row_returning:
  assumes "distinct (map key t)"
  shows "first_row (sql_returning (\<lambda>r. key r = k \<and> q r) f t) =
    (case row_by key k t of None \<Rightarrow> None | Some r \<Rightarrow> if q r then Some (f r) else None)"
  using assms
proof (induction t)
  case Nil
  then show ?case by (simp add: first_row_def sql_returning_def table_simps)
next
  case (Cons r t)
  have "filter (\<lambda>r. key r = k \<and> q r) t = []" if "key r = k"
  proof (rule filter_False, intro ballI notI)
    fix x
    assume "x \<in> set t" and "key x = k \<and> q x"
    with that have "key r \<in> set (map key t)" by (auto intro: rev_image_eqI)
    with Cons.prems show False by simp
  qed
  with Cons show ?case by (auto simp: first_row_def sql_returning_def table_simps)
qed

section \<open>Text\<close>

definition digit_char :: "nat \<Rightarrow> char" where
  "digit_char d = char_of (48 + d)"

fun nat_text :: "nat \<Rightarrow> string" where
  "nat_text n = (if n < 10 then [digit_char n] else nat_text (n div 10) @ [digit_char (n mod 10)])"

declare nat_text.simps [simp del]

definition int_text :: "int \<Rightarrow> string" where
  "int_text i = (if i < 0 then ''-'' @ nat_text (nat (- i)) else nat_text (nat i))"

text \<open>\<open>a || b\<close> of strings.\<close>

fun or_else :: "string \<Rightarrow> string \<Rightarrow> string" where
  "or_else a b = (if a = '''' then b else a)"

text \<open>\<open>text.includes(part)\<close> of JavaScript.\<close>

definition js_includes :: "string \<Rightarrow> string \<Rightarrow> bool" where
  "js_includes txt part = sublist part txt"

section \<open>JSON values of a jsonb column\<close>

text \<open>Job payloads hold ids, times and lists of addresses. \<open>json_text\<close> is \<open>payload->>'key'\<close>.\<close>

datatype json = JNull | JBool bool | JNum int | JStr string | JStrs "string list"

definition json_escape :: "char \<Rightarrow> string" where
  "json_escape c = (if c = CHR 0x22 then [CHR 0x5C, CHR 0x22]
     else if c = CHR 0x5C then [CHR 0x5C, CHR 0x5C] else [c])"

definition json_quote :: "string \<Rightarrow> string" where
  "json_quote s = [CHR 0x22] @ concat (map json_escape s) @ [CHR 0x22]"

fun json_strs :: "string list \<Rightarrow> string" where
  "json_strs [] = ''''"
| "json_strs [s] = json_quote s"
| "json_strs (s # ss) = json_quote s @ '', '' @ json_strs ss"

fun json_text :: "json \<Rightarrow> string option" where
  "json_text JNull = None"
| "json_text (JBool b) = Some (if b then ''true'' else ''false'')"
| "json_text (JNum n) = Some (int_text n)"
| "json_text (JStr s) = Some s"
| "json_text (JStrs ss) = Some (''['' @ json_strs ss @ '']'')"

type_synonym payload = "string \<rightharpoonup> json"


text \<open>A statement over a list of ids hits at most one row per id.\<close>

lemma length_filter_ids:
  assumes "distinct (map f xs)" and "\<And>x. x \<in> set xs \<Longrightarrow> p x \<Longrightarrow> f x \<in> set ids"
  shows "length (filter p xs) \<le> length ids"
proof -
  have "distinct (map f (filter p xs))" using assms(1) by (simp add: distinct_map_filter)
  then have "length (filter p xs) = card (set (map f (filter p xs)))" using distinct_card by fastforce
  also have "\<dots> \<le> card (set ids)" using assms(2) by (intro card_mono) auto
  also have "\<dots> \<le> length ids" by (rule card_length)
  finally show ?thesis .
qed

section \<open>JavaScript values\<close>

text \<open>A string that is neither null nor empty, and a \<open>Set\<close> made of a list, in insertion order.\<close>

definition text_given :: "string option \<Rightarrow> bool" where
  "text_given v \<longleftrightarrow> (case v of Some s \<Rightarrow> s \<noteq> [] | None \<Rightarrow> False)"

definition js_set :: "'a list \<Rightarrow> 'a list" where
  "js_set xs = rev (remdups (rev xs))"

lemma set_js_set [simp]: "set (js_set xs) = set xs"
  by (simp add: js_set_def)

lemma distinct_js_set [simp]: "distinct (js_set xs)"
  by (simp add: js_set_def)

end
