(* ===== verification/Rex.thy ===== *)
theory Rex
  imports Prelude
begin

text \<open>
  JavaScript string operations and regular expressions the code uses. \<open>rex\<close> is the
  regular part of the language (no look-around, no captures: a function that captures is written
  out where it is used); \<open>rex_found\<close> is \<open>re.test(text)\<close>, by derivatives.
  \<open>rex_lang\<close> is what an expression means, and \<open>rex_found_iff\<close> says the matcher
  finds exactly the texts that contain a word of it.
\<close>

section \<open>Characters\<close>

definition js_digit :: "char \<Rightarrow> bool" where
  "js_digit c \<longleftrightarrow> c \<in> set ''0123456789''"

text \<open>A lower-case hexadecimal digit, and decimal and hexadecimal numbers.\<close>

definition hex_digit :: "char \<Rightarrow> bool" where
  "hex_digit c \<longleftrightarrow> js_digit c \<or> c \<in> set ''abcdef''"

fun digits_value :: "nat \<Rightarrow> string \<Rightarrow> nat" where
  "digits_value n [] = n"
| "digits_value n (c # cs) = digits_value (10 * n + (of_char c - 48)) cs"

definition hex_value :: "char \<Rightarrow> nat" where
  "hex_value c = (if js_digit c then of_char c - 48 else of_char c - 87)"

fun hex_number :: "nat \<Rightarrow> string \<Rightarrow> nat" where
  "hex_number n [] = n"
| "hex_number n (c # cs) = hex_number (16 * n + hex_value c) cs"

text \<open>\<open>\s\<close> and what \<open>trim\<close> removes, among the code units up to 255.\<close>

definition js_space :: "char \<Rightarrow> bool" where
  "js_space c \<longleftrightarrow> c \<in> {CHR 0x09, CHR 0x0A, CHR 0x0B, CHR 0x0C, CHR 0x0D, CHR '' '', CHR 0xA0}"

text \<open>\<open>toLowerCase\<close> on the code units up to 255.\<close>

definition lower_code :: "nat \<Rightarrow> nat" where
  "lower_code n = (if (65 \<le> n \<and> n \<le> 90) \<or> (192 \<le> n \<and> n \<le> 222 \<and> n \<noteq> 215) then n + 32 else n)"

definition js_lower_char :: "char \<Rightarrow> char" where
  "js_lower_char c = char_of (lower_code (of_char c))"

definition js_lower :: "string \<Rightarrow> string" where
  "js_lower s = map js_lower_char s"

text \<open>The same function on the bits of a character, for evaluation.\<close>

lemma char_nat: "(of_char (Char b0 b1 b2 b3 b4 b5 b6 b7) :: nat) = of_bool b0 + 2 * of_bool b1 + 4 * of_bool b2 + 8 * of_bool b3
    + 16 * of_bool b4 + 32 * of_bool b5 + 64 * of_bool b6 + 128 * of_bool b7"
  by (simp add: of_char_def algebra_simps)

lemma js_lower_char_code [code]:
  "js_lower_char (Char b0 b1 b2 b3 b4 b5 b6 b7) = (if b6 \<and> \<not> b5 \<and> (if b7 then \<not> (b0 \<and> b1 \<and> b2 \<and> b4)
       else (b0 \<or> b1 \<or> b2 \<or> b3 \<or> b4) \<and> \<not> (b4 \<and> b3 \<and> (b2 \<or> (b1 \<and> b0))))
     then Char b0 b1 b2 b3 b4 True b6 b7 else Char b0 b1 b2 b3 b4 b5 b6 b7)"
    (is "_ = (if ?high then ?u else ?c)")
proof -
  have "lower_code (of_char ?c) = (if ?high then of_char ?c + 32 else of_char ?c)"
    unfolding lower_code_def char_nat by (cases b7; cases b6; cases b5; cases b4; cases b3; cases b2; cases b1; cases b0; simp)
  also have "\<dots> = of_char (if ?high then ?u else ?c)" by (simp add: char_nat)
  finally show ?thesis unfolding js_lower_char_def by (simp only: char_of_char)
qed
lemma lower_code_lower: "n < 256 \<Longrightarrow> lower_code (lower_code n) = lower_code n"
  by (auto simp: lower_code_def)

lemma lower_code_less: "n < 256 \<Longrightarrow> lower_code n < 256"
  by (auto simp: lower_code_def)

lemma of_char_less: "(of_char (c :: char) :: nat) < 256"
  by (cases c) (simp add: of_char_def horner_sum_simps split: if_splits, (auto simp: of_bool_def)?)

lemma js_lower_char_idem [simp]: "js_lower_char (js_lower_char c) = js_lower_char c"
  by (simp add: js_lower_char_def lower_code_less of_char_less lower_code_lower)

lemma js_lower_idem [simp]: "js_lower (js_lower s) = js_lower s"
  by (simp add: js_lower_def)

lemma length_js_lower [simp]: "length (js_lower s) = length s"
  by (simp add: js_lower_def)

definition js_trim_start :: "string \<Rightarrow> string" where
  "js_trim_start s = dropWhile js_space s"

definition js_trim :: "string \<Rightarrow> string" where
  "js_trim s = rev (dropWhile js_space (rev (dropWhile js_space s)))"

lemma js_trim_Nil [simp]: "js_trim '''' = ''''"
  by (simp add: js_trim_def)

lemma dropWhile_rev_hd:
  "xs = rev (dropWhile p (rev ys)) \<Longrightarrow> ys \<noteq> [] \<Longrightarrow> \<not> p (hd ys) \<Longrightarrow> xs \<noteq> [] \<and> hd xs = hd ys"
proof -
  assume a: "xs = rev (dropWhile p (rev ys))" and ne: "ys \<noteq> []" and h: "\<not> p (hd ys)"
  obtain z zs where ys: "ys = z # zs" using ne by (cases ys) auto
  have "dropWhile p (rev zs @ [z]) = dropWhile p (rev zs) @ [z]"
    using h ys by (metis dropWhile_append3 dropWhile_eq_Nil_conv dropWhile_append2 dropWhile_append1
        dropWhile.simps list.sel(1) append_Nil)
  then show ?thesis using a ys by simp
qed

text \<open>A trimmed text has no space at either end.\<close>

lemma js_trim_ends:
  assumes "js_trim s \<noteq> ''''"
  shows "\<not> js_space (hd (js_trim s)) \<and> \<not> js_space (last (js_trim s))"
proof -
  let ?d = "dropWhile js_space s"
  have ne: "?d \<noteq> []"
  proof
    assume "?d = []"
    then have "js_trim s = ''''" by (simp only: js_trim_def rev.simps dropWhile.simps)
    then show False using assms by simp
  qed
  then have h: "\<not> js_space (hd ?d)" by (rule hd_dropWhile)
  have "hd (js_trim s) = hd ?d"
    using dropWhile_rev_hd [OF refl ne, where p = js_space] h by (simp add: js_trim_def)
  moreover have "last (js_trim s) = hd (dropWhile js_space (rev ?d))"
    using assms by (simp add: js_trim_def last_rev)
  moreover have "dropWhile js_space (rev ?d) \<noteq> []"
    using assms unfolding js_trim_def by (metis rev.simps(1))
  ultimately show ?thesis using h hd_dropWhile by metis
qed

text \<open>\<open>text.replace(/\s+/g, ' ')\<close>.\<close>

fun fold_spaces :: "string \<Rightarrow> string" where
  "fold_spaces [] = []"
| "fold_spaces (c # cs) = (if js_space c
     then (if cs \<noteq> [] \<and> js_space (hd cs) then fold_spaces cs else CHR '' '' # fold_spaces cs)
     else c # fold_spaces cs)"

text \<open>\<open>split(sep)\<close> of one character, \<open>lastIndexOf\<close> of one character.\<close>

fun split_on :: "char \<Rightarrow> string \<Rightarrow> string list" where
  "split_on d [] = [[]]"
| "split_on d (c # cs) = (if c = d then [] # split_on d cs
     else (case split_on d cs of [] \<Rightarrow> [[c]] | w # ws \<Rightarrow> (c # w) # ws))"

lemma split_on_join: "d \<notin> set w \<Longrightarrow> split_on d (w @ d # rest) = w # split_on d rest"
  by (induction w) auto

lemma split_on_last: "d \<notin> set w \<Longrightarrow> split_on d w = [w]"
  by (induction w) auto

fun index_from :: "nat \<Rightarrow> char \<Rightarrow> string \<Rightarrow> nat option" where
  "index_from n d [] = None"
| "index_from n d (c # cs) = (if c = d then Some n else index_from (Suc n) d cs)"

definition last_index :: "char \<Rightarrow> string \<Rightarrow> nat option" where
  "last_index d s = (case index_from 0 d (rev s) of None \<Rightarrow> None | Some k \<Rightarrow> Some (length s - Suc k))"

definition js_join :: "string \<Rightarrow> string list \<Rightarrow> string" where
  "js_join sep ws = (case ws of [] \<Rightarrow> '''' | w # ws' \<Rightarrow> w @ concat (map (\<lambda>x. sep @ x) ws'))"

section \<open>Regular expressions\<close>

datatype rex =
    RNone
  | REmpty
  | RSet "char \<Rightarrow> bool"
  | RSeq rex rex
  | RAlt rex rex
  | RStar rex

primrec nullable :: "rex \<Rightarrow> bool" where
  "nullable RNone = False"
| "nullable REmpty = True"
| "nullable (RSet p) = False"
| "nullable (RSeq r s) = (nullable r \<and> nullable s)"
| "nullable (RAlt r s) = (nullable r \<or> nullable s)"
| "nullable (RStar r) = True"

definition seq :: "rex \<Rightarrow> rex \<Rightarrow> rex" where
  "seq r s = (case r of RNone \<Rightarrow> RNone | REmpty \<Rightarrow> s | _ \<Rightarrow> RSeq r s)"

definition alt :: "rex \<Rightarrow> rex \<Rightarrow> rex" where
  "alt r s = (case r of RNone \<Rightarrow> s | _ \<Rightarrow> (case s of RNone \<Rightarrow> r | _ \<Rightarrow> RAlt r s))"

primrec deriv :: "char \<Rightarrow> rex \<Rightarrow> rex" where
  "deriv c RNone = RNone"
| "deriv c REmpty = RNone"
| "deriv c (RSet p) = (if p c then REmpty else RNone)"
| "deriv c (RSeq r s) = (if nullable r then alt (seq (deriv c r) s) (deriv c s) else seq (deriv c r) s)"
| "deriv c (RAlt r s) = alt (deriv c r) (deriv c s)"
| "deriv c (RStar r) = seq (deriv c r) (RStar r)"

fun rex_match :: "rex \<Rightarrow> string \<Rightarrow> bool" where
  "rex_match r [] = nullable r"
| "rex_match r (c # cs) = rex_match (deriv c r) cs"

fun rex_prefix :: "rex \<Rightarrow> string \<Rightarrow> bool" where
  "rex_prefix r [] = nullable r"
| "rex_prefix r (c # cs) = (nullable r \<or> rex_prefix (deriv c r) cs)"

fun rex_found :: "rex \<Rightarrow> string \<Rightarrow> bool" where
  "rex_found r [] = rex_prefix r []"
| "rex_found r (c # cs) = (rex_prefix r (c # cs) \<or> rex_found r cs)"

text \<open>Literals, with and without the flag \<open>i\<close>; \<open>.\<close> leaves out the line ends.\<close>

definition ascii_lower :: "char \<Rightarrow> char" where
  "ascii_lower c = (let n = of_char c :: nat in if 65 \<le> n \<and> n \<le> 90 then char_of (n + 32) else c)"

definition rlit :: "string \<Rightarrow> rex" where
  "rlit s = foldr (\<lambda>c r. RSeq (RSet (\<lambda>d. d = c)) r) s REmpty"

definition rilit :: "string \<Rightarrow> rex" where
  "rilit s = foldr (\<lambda>c r. RSeq (RSet (\<lambda>d. ascii_lower d = ascii_lower c)) r) s REmpty"

definition rdot :: rex where
  "rdot = RSet (\<lambda>c. c \<noteq> CHR 0x0A \<and> c \<noteq> CHR 0x0D)"

definition ropt :: "rex \<Rightarrow> rex" where
  "ropt r = RAlt r REmpty"

definition rplus :: "rex \<Rightarrow> rex" where
  "rplus r = RSeq r (RStar r)"

definition ralts :: "rex list \<Rightarrow> rex" where
  "ralts rs = foldr RAlt rs RNone"

definition rseqs :: "rex list \<Rightarrow> rex" where
  "rseqs rs = foldr RSeq rs REmpty"

fun rrep :: "nat \<Rightarrow> rex \<Rightarrow> rex" where
  "rrep 0 r = REmpty"
| "rrep (Suc n) r = RSeq r (rrep n r)"

section \<open>What an expression means\<close>

inductive_set star :: "string set \<Rightarrow> string set" for A :: "string set" where
  star_Nil: "[] \<in> star A"
| star_step: "a \<in> A \<Longrightarrow> b \<in> star A \<Longrightarrow> a @ b \<in> star A"

primrec rex_lang :: "rex \<Rightarrow> string set" where
  "rex_lang RNone = {}"
| "rex_lang REmpty = {[]}"
| "rex_lang (RSet p) = {[c] | c. p c}"
| "rex_lang (RSeq r s) = {a @ b | a b. a \<in> rex_lang r \<and> b \<in> rex_lang s}"
| "rex_lang (RAlt r s) = rex_lang r \<union> rex_lang s"
| "rex_lang (RStar r) = star (rex_lang r)"

lemma nullable_iff: "nullable r \<longleftrightarrow> [] \<in> rex_lang r"
  by (induction r) (auto intro: star_Nil)

lemma rex_lang_seq [simp]: "rex_lang (seq r s) = rex_lang (RSeq r s)"
  by (auto simp: seq_def split: rex.splits)

lemma rex_lang_alt [simp]: "rex_lang (alt r s) = rex_lang (RAlt r s)"
  by (auto simp: alt_def split: rex.splits)

lemma star_Cons:
  assumes "c # w \<in> star A"
  shows "\<exists>a b. c # a \<in> A \<and> b \<in> star A \<and> w = a @ b"
proof -
  have "x \<in> star A \<Longrightarrow> x = c # w \<Longrightarrow> ?thesis" for x
    by (induction rule: star.induct) (auto simp: append_eq_Cons_conv)
  then show ?thesis using assms by blast
qed

lemma deriv_iff: "w \<in> rex_lang (deriv c r) \<longleftrightarrow> c # w \<in> rex_lang r"
proof (induction r arbitrary: w)
  case (RSeq r s)
  show ?case
    by (auto simp: RSeq nullable_iff Cons_eq_append_conv)
next
  case (RStar r)
  show ?case
  proof
    assume "w \<in> rex_lang (deriv c (RStar r))"
    then obtain a b where "w = a @ b" "c # a \<in> rex_lang r" "b \<in> star (rex_lang r)"
      using RStar by auto
    then show "c # w \<in> rex_lang (RStar r)"
      using star_step [of "c # a" "rex_lang r" b] by simp
  next
    assume "c # w \<in> rex_lang (RStar r)"
    then show "w \<in> rex_lang (deriv c (RStar r))"
      using star_Cons [of c w "rex_lang r"] RStar by auto
  qed
qed auto

lemma rex_match_iff: "rex_match r s \<longleftrightarrow> s \<in> rex_lang r"
  by (induction r s rule: rex_match.induct) (simp_all add: nullable_iff deriv_iff)

lemma rex_prefix_iff: "rex_prefix r s \<longleftrightarrow> (\<exists>a b. s = a @ b \<and> a \<in> rex_lang r)"
proof (induction r s rule: rex_prefix.induct)
  case (1 r)
  then show ?case by (simp add: nullable_iff)
next
  case (2 r c cs)
  then show ?case
    by (auto simp: nullable_iff deriv_iff Cons_eq_append_conv)
qed

text \<open>\<open>re.test(text)\<close>.\<close>

lemma rex_found_iff: "rex_found r s \<longleftrightarrow> (\<exists>a b c. s = a @ b @ c \<and> b \<in> rex_lang r)"
proof (induction r s rule: rex_found.induct)
  case (1 r)
  then show ?case by (simp add: nullable_iff)
next
  case (2 r c cs)
  show ?case
  proof
    assume "rex_found r (c # cs)"
    then consider "rex_prefix r (c # cs)" | "rex_found r cs" by auto
    then show "\<exists>a b d. c # cs = a @ b @ d \<and> b \<in> rex_lang r"
    proof cases
      case 1
      then show ?thesis unfolding rex_prefix_iff by (metis append_Nil)
    next
      case 2
      then show ?thesis using "2.IH" by (metis append_Cons)
    qed
  next
    assume "\<exists>a b d. c # cs = a @ b @ d \<and> b \<in> rex_lang r"
    then obtain a b d where *: "c # cs = a @ b @ d" "b \<in> rex_lang r" by blast
    then show "rex_found r (c # cs)"
    proof (cases a)
      case Nil
      then have "rex_prefix r (c # cs)" unfolding rex_prefix_iff using * by auto
      then show ?thesis by simp
    next
      case (Cons x xs)
      then have "rex_found r cs" using * "2.IH" by auto
      then show ?thesis by simp
    qed
  qed
qed

section \<open>Lower case and spaces\<close>

lemma of_char_lower: "(of_char (js_lower_char c) :: nat) = lower_code (of_char c)"
  using lower_code_less [OF of_char_less, of c] by (simp add: js_lower_char_def)

lemma js_lower_char_is:
  assumes "(of_char d :: nat) < 65 \<or> (90 < (of_char d :: nat) \<and> (of_char d :: nat) < 97)"
  shows "js_lower_char c = d \<longleftrightarrow> c = d"
proof -
  have "js_lower_char c = d \<longleftrightarrow> lower_code (of_char c) = of_char d"
    by (metis of_char_eq_iff of_char_lower)
  also have "\<dots> \<longleftrightarrow> (of_char c :: nat) = of_char d"
    using assms of_char_less [of c] by (auto simp: lower_code_def)
  finally show ?thesis by (simp only: of_char_eq_iff)
qed

lemma js_space_lower [simp]: "js_space (js_lower_char c) = js_space c"
proof -
  have "js_lower_char c = CHR 0xA0 \<longleftrightarrow> c = CHR 0xA0"
  proof -
    have "js_lower_char c = CHR 0xA0 \<longleftrightarrow> lower_code (of_char c) = of_char (CHR 0xA0)"
      by (metis of_char_eq_iff of_char_lower)
    also have "\<dots> \<longleftrightarrow> (of_char c :: nat) = of_char (CHR 0xA0)"
      using of_char_less [of c] by (auto simp: lower_code_def)
    finally show ?thesis by (simp only: of_char_eq_iff)
  qed
  then show ?thesis by (simp add: js_space_def js_lower_char_is)
qed

lemma js_trim_lower [simp]: "js_trim (js_lower s) = js_lower (js_trim s)"
  by (simp add: js_trim_def js_lower_def dropWhile_map comp_def rev_map)

lemma js_trim_idem [simp]: "js_trim (js_trim s) = js_trim s"
proof (cases "js_trim s = ''''")
  case False
  have keep: "dropWhile p xs = xs" if "xs \<noteq> []" "\<not> p (hd xs)" for p and xs :: string
    using that by (cases xs) auto
  have "dropWhile js_space (js_trim s) = js_trim s"
    using keep False js_trim_ends [OF False] by blast
  moreover have "dropWhile js_space (rev (js_trim s)) = rev (js_trim s)"
    using keep False js_trim_ends [OF False] by (simp add: hd_rev)
  ultimately show ?thesis unfolding js_trim_def [of "js_trim s"] by simp
qed simp

section \<open>The address at the end of a header\<close>

text \<open>\<open>/<([^<>]*)>\s*$/\<close>: the text between the last angle brackets, when they end the text.\<close>

definition angle_part :: "string \<Rightarrow> string option" where
  "angle_part s = (case dropWhile js_space (rev s) of
       [] \<Rightarrow> None
     | c # rest \<Rightarrow>
         if c \<noteq> CHR ''>'' then None
         else (case dropWhile (\<lambda>d. d \<noteq> CHR ''<'' \<and> d \<noteq> CHR ''>'') rest of
             [] \<Rightarrow> None
           | d # _ \<Rightarrow> if d = CHR ''<''
                     then Some (rev (takeWhile (\<lambda>d. d \<noteq> CHR ''<'' \<and> d \<noteq> CHR ''>'') rest)) else None))"

lemma angle_part_lower: "angle_part (js_lower s) = map_option js_lower (angle_part s)"
proof -
  let ?in = "\<lambda>d. d \<noteq> CHR ''<'' \<and> d \<noteq> CHR ''>''"
  have inner: "?in \<circ> js_lower_char = ?in" by (auto simp: js_lower_char_is)
  have spaces: "js_space \<circ> js_lower_char = js_space" by auto
  have out: "dropWhile js_space (rev (js_lower s)) = map js_lower_char (dropWhile js_space (rev s))"
    by (simp only: js_lower_def rev_map dropWhile_map spaces)
  show ?thesis
  proof (cases "dropWhile js_space (rev s)")
    case Nil
    then have "dropWhile js_space (rev (js_lower s)) = []" unfolding out by simp
    then show ?thesis unfolding angle_part_def using Nil by (simp only: list.case option.map)
  next
    case (Cons c rest)
    have l: "dropWhile js_space (rev (js_lower s)) = js_lower_char c # map js_lower_char rest"
      unfolding out by (simp only: Cons list.map)
    have d: "dropWhile ?in (map js_lower_char rest) = map js_lower_char (dropWhile ?in rest)"
      by (simp only: dropWhile_map inner)
    have t: "takeWhile ?in (map js_lower_char rest) = map js_lower_char (takeWhile ?in rest)"
      by (simp only: takeWhile_map inner)
    show ?thesis
      unfolding angle_part_def l Cons
      by (cases "dropWhile ?in rest")
        (simp_all only: list.case d t list.map if_distrib [of "map_option js_lower"] option.map
          js_lower_def rev_map js_lower_char_is, auto simp: js_lower_char_is)
  qed
qed

lemma angle_part_needs: "CHR ''>'' \<notin> set s \<Longrightarrow> angle_part s = None"
proof -
  assume a: "CHR ''>'' \<notin> set s"
  have "c \<in> set s" if "dropWhile js_space (rev s) = c # rest" for c rest
    using that by (metis list.set_intros(1) set_dropWhileD set_rev)
  then show ?thesis using a by (auto simp: angle_part_def split: list.splits)
qed

lemma angle_part_inner: "angle_part s = Some t \<Longrightarrow> CHR ''>'' \<notin> set t \<and> CHR ''<'' \<notin> set t"
  by (auto simp: angle_part_def split: list.splits if_splits dest: set_takeWhileD)

end
