(* ===== verification/SendLetter.thy ===== *)
theory SendLetter
  imports Rex
begin

text \<open>
  The letter of a send job as \<open>backend/src/services/sendQueue.js\<close> stores it in
  \<open>outgoing_messages\<close> (\<open>serializeMail\<close>, \<open>deserializeMail\<close>,
  \<open>composeSummary\<close>, \<open>restoredCompose\<close>, \<open>pickComposeContext\<close>) and the
  addresses of \<open>utils/senderNames.js\<close>. A byte is a \<open>char\<close>. JSON.stringify and
  JSON.parse are inverse on the values stored, so a stored letter is its JSON value, with every
  attachment's content as base64 text. The domain's ASCII form (\<open>domainToASCII\<close> of
  \<open>node:url\<close>) is the parameter \<open>d2a\<close>.
\<close>

section \<open>Base64\<close>

definition b64_char :: "nat \<Rightarrow> char" where
  "b64_char n = (if n < 26 then char_of (65 + n) else if n < 52 then char_of (71 + n)
     else if n < 62 then char_of (n - 4) else if n = 62 then CHR ''+'' else CHR ''/'')"

definition b64_value :: "char \<Rightarrow> nat option" where
  "b64_value c = (let n = of_char c :: nat in
     if 65 \<le> n \<and> n \<le> 90 then Some (n - 65) else if 97 \<le> n \<and> n \<le> 122 then Some (n - 71)
     else if 48 \<le> n \<and> n \<le> 57 then Some (n + 4) else if n = 43 \<or> n = 45 then Some 62
     else if n = 47 \<or> n = 95 then Some 63 else None)"

fun sextets :: "nat list \<Rightarrow> nat list" where
  "sextets [] = []"
| "sextets [x] = [x div 4, (x mod 4) * 16]"
| "sextets [x, y] = [x div 4, (x mod 4) * 16 + y div 16, (y mod 16) * 4]"
| "sextets (x # y # z # r) =
     (x div 4) # ((x mod 4) * 16 + y div 16) # ((y mod 16) * 4 + z div 64) # (z mod 64) # sextets r"

fun octets :: "nat list \<Rightarrow> nat list" where
  "octets [] = []"
| "octets [a] = []"
| "octets [a, b] = [a * 4 + b div 16]"
| "octets [a, b, c] = [a * 4 + b div 16, (b mod 16) * 16 + c div 4]"
| "octets (a # b # c # d # r) =
     (a * 4 + b div 16) # ((b mod 16) * 16 + c div 4) # ((c mod 4) * 64 + d) # octets r"

definition b64_padding :: "string \<Rightarrow> string" where
  "b64_padding bs = (if length bs mod 3 = 1 then ''=='' else if length bs mod 3 = 2 then ''='' else '''')"

definition base64_encode :: "string \<Rightarrow> string" where
  "base64_encode bs = map b64_char (sextets (map of_char bs)) @ b64_padding bs"

definition base64_decode :: "string \<Rightarrow> string" where
  "base64_decode s = map char_of (octets (List.map_filter b64_value s))"

lemma low_bits: "a < k \<Longrightarrow> (h * k + a) div (k :: nat) = h" "a < k \<Longrightarrow> (h * k + a) mod (k :: nat) = a"
  by simp_all

lemma byte_parts:
  assumes "x < (256 :: nat)"
  shows "x div 4 < 64" "x div 16 < 16" "x div 64 < 4" "x mod 4 < 4" "x mod 16 < 16" "x mod 64 < 64"
  using assms by (simp_all add: less_mult_imp_div_less)

lemma six_bits: "h < 4 \<Longrightarrow> a < 16 \<Longrightarrow> h * 16 + a < (64 :: nat)" "h < 16 \<Longrightarrow> a < 4 \<Longrightarrow> h * 4 + a < (64 :: nat)"
  by simp_all

lemma octets_sextets: "list_all (\<lambda>x. x < 256) xs \<Longrightarrow> octets (sextets xs) = xs"
proof (induction xs rule: sextets.induct)
  case (2 x)
  then show ?case by simp
next
  case (3 x y)
  then have "y < 256" by simp
  note p = byte_parts [OF this]
  show ?case by (simp add: low_bits p)
next
  case (4 x y z r)
  then have "y < 256" "z < 256" by simp_all
  note p = byte_parts [OF this(1)] byte_parts [OF this(2)]
  show ?case using 4 by (simp add: low_bits p)
qed simp

lemma sextets_less: "list_all (\<lambda>x. x < 256) xs \<Longrightarrow> list_all (\<lambda>x. x < 64) (sextets xs)"
proof (induction xs rule: sextets.induct)
  case (2 x)
  then have "x < 256" by simp
  with byte_parts [OF this] show ?case by simp
next
  case (3 x y)
  then have x: "x < 256" and y: "y < 256" by simp_all
  with byte_parts [OF x] byte_parts [OF y] show ?case by simp
next
  case (4 x y z r)
  then have x: "x < 256" and y: "y < 256" and z: "z < 256" by simp_all
  have "x mod 4 * 16 + y div 16 < 64" by (rule six_bits(1)) (use byte_parts [OF y] in simp_all)
  moreover have "y mod 16 * 4 + z div 64 < 64" by (rule six_bits(2)) (use byte_parts [OF z] in simp_all)
  ultimately show ?case using byte_parts [OF x] 4 by simp
qed simp

lemma b64_value_char: "n < 64 \<Longrightarrow> b64_value (b64_char n) = Some n"
  by (auto simp: b64_value_def b64_char_def Let_def)

lemma map_filter_inverse: "list_all (\<lambda>x. f (g x) = Some x) xs \<Longrightarrow> List.map_filter f (map g xs) = xs"
  by (induction xs) (simp_all add: List.map_filter_def)

lemma map_filter_append: "List.map_filter f (xs @ ys) = List.map_filter f xs @ List.map_filter f ys"
  by (simp add: List.map_filter_def)

lemma no_padding_value: "List.map_filter b64_value (b64_padding bs) = []"
  by (simp add: b64_padding_def b64_value_def List.map_filter_def Let_def)

lemma base64_roundtrip: "base64_decode (base64_encode bs) = bs"
proof -
  let ?xs = "map of_char bs :: nat list"
  have small: "list_all (\<lambda>x. x < 256) ?xs" by (simp add: list_all_iff of_char_less)
  have "List.map_filter b64_value (map b64_char (sextets ?xs)) = sextets ?xs"
    using sextets_less [OF small] by (intro map_filter_inverse) (auto simp: list_all_iff b64_value_char)
  then have "base64_decode (base64_encode bs) = map char_of (octets (sextets ?xs))"
    by (simp add: base64_decode_def base64_encode_def map_filter_append no_padding_value)
  then show ?thesis by (simp add: octets_sextets [OF small] comp_def)
qed

section \<open>Dates as ISO text\<close>

text \<open>
  \<open>new Date(t).toISOString()\<close>: the civil date of a day number (proleptic Gregorian), the
  time of day, milliseconds, and \<open>Z\<close>; a year outside 0..9999 has a sign and six digits.
\<close>

definition civil_of_days :: "int \<Rightarrow> int \<times> int \<times> int" where
  "civil_of_days z0 =
     (let z = z0 + 719468;
          era = z div 146097;
          doe = z - era * 146097;
          yoe = (doe - doe div 1460 + doe div 36524 - doe div 146096) div 365;
          doy = doe - (365 * yoe + yoe div 4 - yoe div 100);
          mp = (5 * doy + 2) div 153;
          d = doy - (153 * mp + 2) div 5 + 1;
          m = (if mp < 10 then mp + 3 else mp - 9)
      in (yoe + era * 400 + (if m \<le> 2 then 1 else 0), m, d))"

definition padded :: "nat \<Rightarrow> int \<Rightarrow> string" where
  "padded w n = (let s = nat_text (nat n) in replicate (w - length s) CHR ''0'' @ s)"

definition iso_year :: "int \<Rightarrow> string" where
  "iso_year y = (if y < 0 then ''-'' @ padded 6 (- y) else if y > 9999 then ''+'' @ padded 6 y else padded 4 y)"

definition iso_text :: "time_ms \<Rightarrow> string" where
  "iso_text t =
     (let day = t div 86400000; r = t mod 86400000; (y, m, d) = civil_of_days day
      in iso_year y @ ''-'' @ padded 2 m @ ''-'' @ padded 2 d @ ''T'' @ padded 2 (r div 3600000) @ '':''
         @ padded 2 (r div 60000 mod 60) @ '':'' @ padded 2 (r div 1000 mod 60) @ ''.'' @ padded 3 (r mod 1000) @ ''Z'')"

section \<open>The letter\<close>

text \<open>
  An attachment of nodemailer's options: its content is a Buffer, a value that is turned into text,
  or missing. \<open>size\<close> is not part of it: the composer's list carries sizes.
\<close>

datatype content = CBuffer string | CText string | CMissing

record 'c attachment =
  at_filename :: string
  at_type :: string
  at_cid :: "string option"
  at_content :: 'c

record 'c mail_options =
  mo_message_id :: string
  mo_from :: string
  mo_in_reply_to :: "string option"
  mo_headers :: "(string \<times> string) list"
  mo_attachments :: "'c attachment list option"

text \<open>\<open>forwarded\<close> of a stored letter is missing (\<open>None\<close>) when it was stored before it was kept.\<close>

record mail_meta =
  mm_to :: "string list"
  mm_cc :: "string list"
  mm_bcc :: "string list"

record 'c mail =
  ml_options :: "'c mail_options"
  ml_meta :: mail_meta
  ml_uploads :: "nat list"
  ml_forwarded :: "nat list option"

definition map_content :: "('c \<Rightarrow> 'd) \<Rightarrow> 'c attachment \<Rightarrow> 'd attachment" where
  "map_content f a = \<lparr>at_filename = at_filename a, at_type = at_type a, at_cid = at_cid a,
     at_content = f (at_content a)\<rparr>"

definition with_attachments :: "'d attachment list option \<Rightarrow> 'c mail_options \<Rightarrow> 'd mail_options" where
  "with_attachments ats o1 = \<lparr>mo_message_id = mo_message_id o1, mo_from = mo_from o1,
     mo_in_reply_to = mo_in_reply_to o1, mo_headers = mo_headers o1, mo_attachments = ats\<rparr>"

text \<open>\<open>Buffer.from(text)\<close>: UTF-8 of code units up to 255.\<close>

definition utf8_char :: "char \<Rightarrow> string" where
  "utf8_char c = (let n = of_char c :: nat in
     if n < 128 then [c] else [char_of (192 + n div 64), char_of (128 + n mod 64)])"

fun content_bytes :: "content \<Rightarrow> string" where
  "content_bytes (CBuffer bs) = bs"
| "content_bytes (CText s) = concat (map utf8_char s)"
| "content_bytes CMissing = ''''"

text \<open>
  Options without attachments keep the key as it was, so \<open>None\<close> stays \<open>None\<close> and the
  empty list stays empty; \<open>map\<close> is both.
\<close>

definition serializeMail :: "content mail \<Rightarrow> string mail" where
  "serializeMail m = \<lparr>
     ml_options = with_attachments
       (map_option (map (map_content (\<lambda>c. base64_encode (content_bytes c)))) (mo_attachments (ml_options m)))
       (ml_options m),
     ml_meta = ml_meta m, ml_uploads = ml_uploads m,
     ml_forwarded = Some (case ml_forwarded m of Some f \<Rightarrow> f | None \<Rightarrow> [])\<rparr>"

definition deserializeMail :: "string mail \<Rightarrow> content mail" where
  "deserializeMail s = \<lparr>
     ml_options = with_attachments
       (map_option (map (map_content (\<lambda>c. CBuffer (base64_decode c)))) (mo_attachments (ml_options s)))
       (ml_options s),
     ml_meta = ml_meta s, ml_uploads = ml_uploads s, ml_forwarded = ml_forwarded s\<rparr>"

definition buffered :: "content mail \<Rightarrow> bool" where
  "buffered m \<longleftrightarrow> list_all (\<lambda>a. \<exists>bs. at_content a = CBuffer bs) (case mo_attachments (ml_options m) of
     Some ats \<Rightarrow> ats | None \<Rightarrow> [])"

lemma deserialize_serialize:
  assumes "buffered m"
  shows "deserializeMail (serializeMail m)
    = m\<lparr>ml_forwarded := Some (case ml_forwarded m of Some f \<Rightarrow> f | None \<Rightarrow> [])\<rparr>"
proof -
  have one: "map_content (\<lambda>c. CBuffer (base64_decode c)) (map_content (\<lambda>c. base64_encode (content_bytes c)) a) = a"
    if "\<exists>bs. at_content a = CBuffer bs" for a
    using that by (cases a) (auto simp: map_content_def base64_roundtrip)
  have all: "map (map_content (\<lambda>c. CBuffer (base64_decode c)))
      (map (map_content (\<lambda>c. base64_encode (content_bytes c))) ats) = ats"
    if "list_all (\<lambda>a. \<exists>bs. at_content a = CBuffer bs) ats" for ats
    using that by (induction ats) (simp_all add: one)
  have "map_option (map (map_content (\<lambda>c. CBuffer (base64_decode c))))
      (map_option (map (map_content (\<lambda>c. base64_encode (content_bytes c)))) (mo_attachments (ml_options m)))
    = mo_attachments (ml_options m)"
    using assms all by (cases "mo_attachments (ml_options m)") (simp_all add: buffered_def)
  then show ?thesis
    by (simp add: deserializeMail_def serializeMail_def with_attachments_def)
qed

section \<open>What the composer keeps and gets back\<close>

text \<open>
  The composer's fields that the queue reads. An attachment entry is its name, type and size; one
  restored carries its content in base64. A context is the client's object, a map of keys.
\<close>

record compose_attachment =
  ca_filename :: string
  ca_type :: string
  ca_size :: nat
  ca_content :: "string option"

type_synonym compose_context = "string \<rightharpoonup> json"

record compose =
  cp_subject :: "string option"
  cp_to :: "string list option"
  cp_cc :: "string list option"
  cp_bcc :: "string list option"
  cp_body :: string
  cp_attachments :: "compose_attachment list option"
  cp_forwarded :: "(string \<times> string) list option"
  cp_context :: "compose_context option"

text \<open>What a client sends as its context: nothing, an object, an array or another value.\<close>

datatype client_value = VNothing | VObject compose_context | VArray "json list" | VOther json

definition COMPOSE_CONTEXT_KEYS :: "string list" where
  "COMPOSE_CONTEXT_KEYS = [''isReply'', ''isReplyAll'', ''isForward'', ''threadId'', ''originalFrom'',
     ''quoteMeta'', ''quoteLang'', ''quoteExtra'', ''allRecipients'', ''forwardedAttachments'']"

fun pickComposeContext :: "client_value \<Rightarrow> compose_context option" where
  "pickComposeContext (VObject m) = Some (m |` set COMPOSE_CONTEXT_KEYS)"
| "pickComposeContext _ = None"

record summary =
  su_subject :: string
  su_to :: "string list"
  su_cc :: "string list"
  su_bcc :: "string list"
  su_attachments :: nat

definition or_empty :: "'a list option \<Rightarrow> 'a list" where
  "or_empty v = (case v of Some xs \<Rightarrow> xs | None \<Rightarrow> [])"

definition composeSummary :: "compose \<Rightarrow> summary" where
  "composeSummary c = \<lparr>su_subject = (case cp_subject c of Some s \<Rightarrow> s | None \<Rightarrow> ''''),
     su_to = or_empty (cp_to c), su_cc = or_empty (cp_cc c), su_bcc = or_empty (cp_bcc c),
     su_attachments = length (or_empty (cp_attachments c)) + length (or_empty (cp_forwarded c))\<rparr>"

record letter =
  lt_compose :: compose
  lt_summary :: summary
  lt_mail :: "string mail"

definition make_letter :: "compose \<Rightarrow> content mail \<Rightarrow> letter" where
  "make_letter c m = \<lparr>lt_compose = c, lt_summary = composeSummary c, lt_mail = serializeMail m\<rparr>"

text \<open>\<open>all[index]\<close> with \<open>filter(Boolean)\<close>: an index out of range gives nothing.\<close>

definition pick_at :: "'a list \<Rightarrow> nat list \<Rightarrow> 'a list" where
  "pick_at xs ixs = List.map_filter (\<lambda>i. if i < length xs then Some (xs ! i) else None) ixs"

definition forwarded_indexes :: "content mail \<Rightarrow> nat list" where
  "forwarded_indexes stored = (case ml_forwarded stored of
       Some f \<Rightarrow> f
     | None \<Rightarrow> (let all = or_empty (mo_attachments (ml_options stored)) in
         filter (\<lambda>i. i \<notin> set (ml_uploads stored)
                    \<and> (case at_cid (all ! i) of None \<Rightarrow> True | Some c \<Rightarrow> c = '''')) [0..<length all]))"

definition restored_attachment :: "content attachment \<Rightarrow> compose_attachment" where
  "restored_attachment a = \<lparr>ca_filename = at_filename a, ca_type = at_type a,
     ca_size = length (content_bytes (at_content a)),
     ca_content = Some (base64_encode (content_bytes (at_content a)))\<rparr>"

definition restoredCompose :: "letter \<Rightarrow> compose" where
  "restoredCompose l =
     (let stored = deserializeMail (lt_mail l);
          all = or_empty (mo_attachments (ml_options stored));
          attachments = map restored_attachment (pick_at all (ml_uploads stored @ forwarded_indexes stored));
          ctxt = map_option (\<lambda>m. m(''forwardedAttachments'' := None)) (cp_context (lt_compose l))
      in (lt_compose l)\<lparr>cp_attachments := Some attachments, cp_forwarded := Some [], cp_context := ctxt\<rparr>)"

section \<open>Sender addresses\<close>

definition lastIndexOf_at :: "string \<Rightarrow> nat option" where
  "lastIndexOf_at s = last_index CHR ''@'' s"

definition normalizeAddress :: "(string \<Rightarrow> string) \<Rightarrow> string option \<Rightarrow> string" where
  "normalizeAddress d2a v =
     (let email = js_lower (js_trim (case v of Some s \<Rightarrow> s | None \<Rightarrow> ''''))
      in case lastIndexOf_at email of
           None \<Rightarrow> email
         | Some i \<Rightarrow> (let domain = drop (Suc i) email in take i email @ ''@'' @ or_else (d2a domain) domain))"

definition fromHeaderAddress :: "string \<Rightarrow> string" where
  "fromHeaderAddress from = js_trim (case angle_part from of Some a \<Rightarrow> a | None \<Rightarrow> from)"

end
