(* ===== verification/JobQueue.thy ===== *)
theory JobQueue
  imports Prelude
begin

text \<open>
  The durable job queue: \<open>backend/src/services/jobQueue.js\<close> over the tables \<open>jobs\<close>
  and \<open>outgoing_messages\<close> of migration 0087. One definition per SQL statement of the module
  (each statement is atomic), the errors a handler throws and what becomes of its job. The
  workers that run handlers, and their interleaving, are in \<open>JobWorker\<close>.
\<close>

section \<open>Rows\<close>

datatype job_status = Queued | Running | Done | Failed | Cancelled | NeedsAttention

record job =
  job_id :: nat
  job_kind :: string
  job_payload :: payload
  run_at :: time_ms
  status :: job_status
  attempts :: nat
  max_attempts :: nat
  last_error :: "string option"
  error_code :: "string option"
  claim_token :: "string option"
  claimed_at :: "time_ms option"
  lease_until :: "time_ms option"
  effect_started_at :: "time_ms option"
  dedupe_key :: "string option"
  created_by :: "string option"
  account_id :: "string option"
  finished_at :: "time_ms option"
  created_at :: time_ms
  updated_at :: time_ms

text \<open>
  The database as the queue sees it: the jobs, the sequence behind their ids and the letters of
  \<open>outgoing_messages\<close> by job id (a letter is of type \<open>'m\<close>; \<open>SendQueue\<close> says
  what it holds).
\<close>

record 'm jobdb =
  jobs :: "job list"
  next_id :: nat
  letters :: "(nat \<times> 'm) list"

definition job_of :: "'m jobdb \<Rightarrow> nat \<Rightarrow> job option" where
  "job_of db i = row_by job_id i (jobs db)"

definition letter_of :: "'m jobdb \<Rightarrow> nat \<Rightarrow> 'm option" where
  "letter_of db i = map_option snd (row_by fst i (letters db))"

section \<open>Settings\<close>

definition JOB_LEASE_MS :: int where "JOB_LEASE_MS = 60 * 1000"
definition JOB_DEFAULT_MAX_ATTEMPTS :: nat where "JOB_DEFAULT_MAX_ATTEMPTS = 5"
definition JOB_RETRY_BASE_MS :: int where "JOB_RETRY_BASE_MS = 60 * 1000"
definition JOB_RETRY_MAX_MS :: int where "JOB_RETRY_MAX_MS = 30 * 60 * 1000"
definition JOB_RETENTION_MS :: int where "JOB_RETENTION_MS = 7 * 24 * 60 * 60 * 1000"
definition JOB_KEPT_FAILED_MS :: int where "JOB_KEPT_FAILED_MS = 30 * 24 * 60 * 60 * 1000"
definition ERROR_TEXT_MAX :: nat where "ERROR_TEXT_MAX = 500"
definition EFFECT_DONE_KEY :: string where "EFFECT_DONE_KEY = ''effectDoneCode''"

definition jobRetryDelayMs :: "nat \<Rightarrow> int" where
  "jobRetryDelayMs n = min JOB_RETRY_MAX_MS (JOB_RETRY_BASE_MS * 2 ^ (n - 1))"

section \<open>Job kinds\<close>

text \<open>
  A registered kind: its name, attempts, backoff and whether it has an \<open>onSettled\<close>. The
  handler is a program of \<open>JobWorker\<close>. The registry is the \<open>Map\<close> of the module.
\<close>

record kind_info =
  ki_max_attempts :: nat
  ki_retry_delay :: "nat \<Rightarrow> int"
  ki_on_settled :: bool

type_synonym registry = "(string \<times> kind_info) list"

definition registerJobKind :: "string \<Rightarrow> kind_info \<Rightarrow> registry \<Rightarrow> registry" where
  "registerJobKind k ki reg =
     (if map_of reg k = None then reg @ [(k, ki)]
      else map (\<lambda>(k', ki'). if k' = k then (k', ki) else (k', ki')) reg)"

definition unregisterJobKind :: "string \<Rightarrow> registry \<Rightarrow> registry" where
  "unregisterJobKind k reg = filter (\<lambda>(k', _). k' \<noteq> k) reg"

definition jobKind :: "registry \<Rightarrow> string \<Rightarrow> kind_info option" where
  "jobKind reg k = map_of reg k"

section \<open>Errors\<close>

text \<open>
  What a handler throws: a string, or an error with the fields the queue reads. A \<open>JobError\<close>
  has an outcome; any other error has none. \<open>err_code\<close> is the code when it is a string.
\<close>

datatype outcome = Retry | Fail | Attention

record err =
  err_message :: string
  err_code :: "string option"
  err_name :: string
  err_cause_code :: "string option"
  err_outcome :: "outcome option"
  err_delay :: "int option"

datatype thrown = ThrownText string | Thrown err

fun thrown_code :: "thrown \<Rightarrow> string option" where
  "thrown_code (ThrownText _) = None"
| "thrown_code (Thrown e) = err_code e"

fun thrown_outcome :: "thrown \<Rightarrow> outcome option" where
  "thrown_outcome (ThrownText _) = None"
| "thrown_outcome (Thrown e) = err_outcome e"

fun thrown_delay :: "thrown \<Rightarrow> int option" where
  "thrown_delay (ThrownText _) = None"
| "thrown_delay (Thrown e) = err_delay e"

definition JobError :: "string \<Rightarrow> outcome \<Rightarrow> string option \<Rightarrow> int option \<Rightarrow> thrown" where
  "JobError msg out code delay = Thrown \<lparr>err_message = msg, err_code = code, err_name = ''JobError'',
     err_cause_code = None, err_outcome = Some out, err_delay = delay\<rparr>"

fun errorText :: "thrown \<Rightarrow> string" where
  "errorText (ThrownText t) = or_else t ''Job failed''"
| "errorText (Thrown e) =
     (let txt = or_else (err_message e) (or_else (case err_code e of Some c \<Rightarrow> c | None \<Rightarrow> '''')
                 (or_else (err_name e) ''Job failed''))
      in case err_cause_code e of
           Some c \<Rightarrow> if js_includes txt c then txt else txt @ '' ('' @ c @ '')''
         | None \<Rightarrow> txt)"

text \<open>The ellipsis is one UTF-16 code unit in the source; \<open>CHR 0x85\<close> stands for it.\<close>

definition clip :: "string \<Rightarrow> string" where
  "clip v = (if length v > ERROR_TEXT_MAX then take (ERROR_TEXT_MAX - 1) v @ [CHR 0x85] else v)"

section \<open>Enqueue, read, cancel, reschedule\<close>

record enqueue_args =
  ea_kind :: string
  ea_payload :: payload
  ea_run_at :: "time_ms option"
  ea_delay :: "int option"
  ea_created_by :: "string option"
  ea_account :: "string option"
  ea_dedupe :: "string option"
  ea_max_attempts :: "nat option"

definition enqueue_max :: "registry \<Rightarrow> enqueue_args \<Rightarrow> nat" where
  "enqueue_max reg a = (case ea_max_attempts a of Some n \<Rightarrow> n
     | None \<Rightarrow> (case jobKind reg (ea_kind a) of Some ki \<Rightarrow> ki_max_attempts ki
                | None \<Rightarrow> JOB_DEFAULT_MAX_ATTEMPTS))"

definition new_job :: "registry \<Rightarrow> enqueue_args \<Rightarrow> time_ms \<Rightarrow> nat \<Rightarrow> job" where
  "new_job reg a t i = \<lparr>job_id = i, job_kind = ea_kind a, job_payload = ea_payload a,
     run_at = (case ea_run_at a of Some r \<Rightarrow> r
               | None \<Rightarrow> t + (case ea_delay a of Some d \<Rightarrow> d | None \<Rightarrow> 0)),
     status = Queued, attempts = 0, max_attempts = enqueue_max reg a, last_error = None,
     error_code = None, claim_token = None, claimed_at = None, lease_until = None,
     effect_started_at = None, dedupe_key = ea_dedupe a, created_by = ea_created_by a,
     account_id = ea_account a, finished_at = None, created_at = t, updated_at = t\<rparr>"

definition dedupe_conflict :: "string \<Rightarrow> string option \<Rightarrow> job \<Rightarrow> bool" where
  "dedupe_conflict k d j \<longleftrightarrow> d \<noteq> None \<and> job_kind j = k \<and> dedupe_key j = d"

text \<open>
  The INSERT with its ON CONFLICT DO NOTHING, then the SELECT of the job that was there. The
  sequence advances on a conflict too. \<open>Inl\<close> is the thrown error.
\<close>

definition enqueueJob ::
  "registry \<Rightarrow> enqueue_args \<Rightarrow> time_ms \<Rightarrow> 'm jobdb \<Rightarrow> (string + job option \<times> bool) \<times> 'm jobdb" where
  "enqueueJob reg a t db =
     (if ea_kind a = '''' then (Inl ''kind is required'', db)
      else let i = next_id db; db1 = db\<lparr>next_id := Suc i\<rparr>
           in case find (dedupe_conflict (ea_kind a) (ea_dedupe a)) (jobs db) of
                None \<Rightarrow> (let j = new_job reg a t i
                         in (Inr (Some j, True), db1\<lparr>jobs := jobs db @ [j]\<rparr>))
              | Some j \<Rightarrow> (Inr (Some j, False), db1))"

definition getJob :: "nat \<Rightarrow> 'm jobdb \<Rightarrow> job option" where
  "getJob i db = job_of db i"

definition due_key :: "job \<Rightarrow> time_ms \<times> nat" where
  "due_key j = (run_at j, job_id j)"

text \<open>The filters of \<open>listJobs\<close>: absent (\<open>None\<close>) means any.\<close>

record list_filter =
  lf_kind :: "string option"
  lf_kinds :: "string list option"
  lf_accounts :: "string list option"
  lf_created_by :: "string option"
  lf_statuses :: "job_status list option"

fun opt_all :: "('a \<Rightarrow> bool) \<Rightarrow> 'a option \<Rightarrow> bool" where
  "opt_all p None = True"
| "opt_all p (Some x) = p x"

definition listed :: "list_filter \<Rightarrow> job \<Rightarrow> bool" where
  "listed f j \<longleftrightarrow>
     opt_all (\<lambda>k. job_kind j = k) (lf_kind f)
   \<and> opt_all (\<lambda>as. \<exists>a\<in>set as. account_id j = Some a) (lf_accounts f)
   \<and> opt_all (\<lambda>u. created_by j = Some u) (lf_created_by f)
   \<and> opt_all (\<lambda>ss. status j \<in> set ss) (lf_statuses f)
   \<and> opt_all (\<lambda>ks. job_kind j \<in> set ks) (lf_kinds f)"

definition listJobs :: "list_filter \<Rightarrow> nat \<Rightarrow> bool \<Rightarrow> 'm jobdb \<Rightarrow> job list" where
  "listJobs f lim newestFirst db =
     (let rows = filter (listed f) (jobs db)
      in take lim (if newestFirst then rev (sort_key job_id rows) else sort_key due_key rows))"

definition cancelled_row :: "time_ms \<Rightarrow> job \<Rightarrow> job" where
  "cancelled_row t j = j\<lparr>status := Cancelled, finished_at := Some t, updated_at := t,
     claim_token := None, lease_until := None\<rparr>"

definition cancelJob ::
  "nat \<Rightarrow> job_status list \<Rightarrow> time_ms \<Rightarrow> 'm jobdb \<Rightarrow> job option \<times> 'm jobdb" where
  "cancelJob i froms t db =
     (let p = (\<lambda>j. job_id j = i \<and> status j \<in> set froms)
      in (first_row (sql_returning p (cancelled_row t) (jobs db)),
          db\<lparr>jobs := sql_update p (cancelled_row t) (jobs db)\<rparr>))"

definition rescheduled_row :: "time_ms \<Rightarrow> payload \<Rightarrow> time_ms \<Rightarrow> job \<Rightarrow> job" where
  "rescheduled_row runAt patch t j = j\<lparr>run_at := runAt, status := Queued, updated_at := t,
     job_payload := (job_payload j)(EFFECT_DONE_KEY := None) ++ patch,
     attempts := (if status j = Queued then attempts j else 0),
     last_error := (if status j = Queued then last_error j else None),
     error_code := (if status j = Queued then error_code j else None),
     effect_started_at := None, claim_token := None, lease_until := None\<rparr>"

definition reschedulable :: "nat \<Rightarrow> job_status list \<Rightarrow> string list \<Rightarrow> job \<Rightarrow> bool" where
  "reschedulable i froms exceptCodes j \<longleftrightarrow> job_id j = i \<and> status j \<in> set froms
     \<and> (case error_code j of None \<Rightarrow> True | Some c \<Rightarrow> c \<notin> set exceptCodes)"

definition rescheduleJob ::
  "nat \<Rightarrow> time_ms \<Rightarrow> job_status list \<Rightarrow> payload \<Rightarrow> string list \<Rightarrow> time_ms \<Rightarrow> 'm jobdb
     \<Rightarrow> job option \<times> 'm jobdb" where
  "rescheduleJob i runAt froms patch exceptCodes t db =
     (let p = reschedulable i froms exceptCodes; f = rescheduled_row runAt patch t
      in (first_row (sql_returning p f (jobs db)), db\<lparr>jobs := sql_update p f (jobs db)\<rparr>))"

section \<open>Claims\<close>

text \<open>
  \<open>$1 || '-' || id\<close>: the token of a claim is the claim's random UUID and the job's id. \<open>lk\<close>
  tells the rows another transaction holds locked, which SKIP LOCKED leaves out.
\<close>

definition token_for :: "string \<Rightarrow> nat \<Rightarrow> string" where
  "token_for uuid i = uuid @ ''-'' @ nat_text i"

definition due_ids :: "string list \<Rightarrow> nat \<Rightarrow> (nat \<Rightarrow> bool) \<Rightarrow> time_ms \<Rightarrow> 'm jobdb \<Rightarrow> nat list" where
  "due_ids ks lim lk t db = map job_id (take lim (sort_key due_key
     (filter (\<lambda>j. status j = Queued \<and> run_at j \<le> t \<and> job_kind j \<in> set ks \<and> \<not> lk (job_id j)) (jobs db))))"

definition claimed_row :: "string \<Rightarrow> int \<Rightarrow> time_ms \<Rightarrow> job \<Rightarrow> job" where
  "claimed_row uuid lease t j = j\<lparr>status := Running, attempts := Suc (attempts j),
     claim_token := Some (token_for uuid (job_id j)), claimed_at := Some t,
     lease_until := Some (t + lease), effect_started_at := None, updated_at := t\<rparr>"

definition claimDueJobs ::
  "registry \<Rightarrow> nat \<Rightarrow> int \<Rightarrow> string \<Rightarrow> (nat \<Rightarrow> bool) \<Rightarrow> time_ms \<Rightarrow> 'm jobdb \<Rightarrow> job list \<times> 'm jobdb" where
  "claimDueJobs reg lim lease uuid lk t db =
     (if reg = [] \<or> lim < 1 then ([], db)
      else let ids = due_ids (map fst reg) lim lk t db; p = (\<lambda>j. job_id j \<in> set ids)
           in (sql_returning p (claimed_row uuid lease t) (jobs db),
               db\<lparr>jobs := sql_update p (claimed_row uuid lease t) (jobs db)\<rparr>))"

text \<open>The guard of every write about a claim: \<open>id = $1 AND status = 'running' AND claim_token = $2\<close>.\<close>

definition holds_claim :: "nat \<Rightarrow> string \<Rightarrow> job \<Rightarrow> bool" where
  "holds_claim i tok j \<longleftrightarrow> job_id j = i \<and> status j = Running \<and> claim_token j = Some tok"

definition claim_held :: "'m jobdb \<Rightarrow> nat \<Rightarrow> string \<Rightarrow> bool" where
  "claim_held db i tok \<longleftrightarrow> list_ex (holds_claim i tok) (jobs db)"

definition renewLease :: "nat \<Rightarrow> string \<Rightarrow> int \<Rightarrow> time_ms \<Rightarrow> 'm jobdb \<Rightarrow> bool \<times> 'm jobdb" where
  "renewLease i tok lease t db = (claim_held db i tok,
     db\<lparr>jobs := sql_update (holds_claim i tok)
        (\<lambda>j. j\<lparr>lease_until := Some (t + lease), updated_at := t\<rparr>) (jobs db)\<rparr>)"

definition markEffectStarted :: "nat \<Rightarrow> string \<Rightarrow> time_ms \<Rightarrow> 'm jobdb \<Rightarrow> bool \<times> 'm jobdb" where
  "markEffectStarted i tok t db = (claim_held db i tok,
     db\<lparr>jobs := sql_update (holds_claim i tok)
        (\<lambda>j. j\<lparr>effect_started_at := Some t, updated_at := t\<rparr>) (jobs db)\<rparr>)"

definition effect_markable :: "nat \<Rightarrow> job \<Rightarrow> bool" where
  "effect_markable i j \<longleftrightarrow> job_id j = i \<and> effect_started_at j \<noteq> None
     \<and> status j \<in> {Running, NeedsAttention}"

definition markEffectDone :: "nat \<Rightarrow> string \<Rightarrow> time_ms \<Rightarrow> 'm jobdb \<Rightarrow> bool \<times> 'm jobdb" where
  "markEffectDone i code t db = (list_ex (effect_markable i) (jobs db),
     db\<lparr>jobs := sql_update (effect_markable i)
        (\<lambda>j. j\<lparr>job_payload := (job_payload j)(EFFECT_DONE_KEY \<mapsto> JStr (take 64 code)), updated_at := t\<rparr>)
        (jobs db)\<rparr>)"

definition done_row :: "time_ms \<Rightarrow> job \<Rightarrow> job" where
  "done_row t j = j\<lparr>status := Done, finished_at := Some t, claim_token := None, lease_until := None,
     last_error := None, error_code := None, updated_at := t\<rparr>"

text \<open>\<open>ctx.complete(fn)\<close>: the job's UPDATE and \<open>fn\<close> in one transaction.\<close>

definition completeJob ::
  "nat \<Rightarrow> string \<Rightarrow> (job \<Rightarrow> 'm jobdb \<Rightarrow> 'm jobdb) \<Rightarrow> time_ms \<Rightarrow> 'm jobdb \<Rightarrow> job option \<times> 'm jobdb" where
  "completeJob i tok fn t db =
     (let db1 = db\<lparr>jobs := sql_update (holds_claim i tok) (done_row t) (jobs db)\<rparr>
      in case first_row (sql_returning (holds_claim i tok) (done_row t) (jobs db)) of
           None \<Rightarrow> (None, db1)
         | Some row \<Rightarrow> (Some row, fn row db1))"

section \<open>Failures\<close>

definition outcomeOf :: "job \<Rightarrow> thrown \<Rightarrow> bool \<Rightarrow> outcome" where
  "outcomeOf j e effectStarted =
     (let out = (case thrown_outcome e of Some ob \<Rightarrow> ob
                 | None \<Rightarrow> if effectStarted then Attention else Retry)
      in if out = Retry \<and> attempts j \<ge> max_attempts j then Fail else out)"

definition retried_row :: "int \<Rightarrow> string \<Rightarrow> string option \<Rightarrow> time_ms \<Rightarrow> job \<Rightarrow> job" where
  "retried_row delay err code t j = j\<lparr>status := Queued, run_at := t + delay, last_error := Some err,
     error_code := code, claim_token := None, lease_until := None, effect_started_at := None,
     updated_at := t\<rparr>"

definition ended_row :: "job_status \<Rightarrow> string \<Rightarrow> string option \<Rightarrow> time_ms \<Rightarrow> job \<Rightarrow> job" where
  "ended_row st err code t j = j\<lparr>status := st, last_error := Some err, error_code := code,
     claim_token := None, lease_until := None, updated_at := t\<rparr>"

definition retry_delay :: "registry \<Rightarrow> job \<Rightarrow> thrown \<Rightarrow> int" where
  "retry_delay reg j e = (case thrown_delay e of Some d \<Rightarrow> d
     | None \<Rightarrow> (case jobKind reg (job_kind j) of Some ki \<Rightarrow> ki_retry_delay ki (attempts j)
                | None \<Rightarrow> jobRetryDelayMs (attempts j)))"

text \<open>The row \<open>settleFailure\<close> writes for a job whose handler threw \<open>e\<close>; \<open>j\<close> is the claimed job.\<close>

definition settled_row :: "registry \<Rightarrow> job \<Rightarrow> thrown \<Rightarrow> bool \<Rightarrow> time_ms \<Rightarrow> job \<Rightarrow> job" where
  "settled_row reg j e effectStarted t =
     (let lastError = clip (errorText e); code = map_option (take 64) (thrown_code e)
      in case outcomeOf j e effectStarted of
           Retry \<Rightarrow> retried_row (retry_delay reg j e) lastError code t
         | Fail \<Rightarrow> ended_row Failed lastError code t
         | Attention \<Rightarrow> ended_row NeedsAttention lastError code t)"

definition settleFailure ::
  "registry \<Rightarrow> job \<Rightarrow> string \<Rightarrow> thrown \<Rightarrow> bool \<Rightarrow> time_ms \<Rightarrow> 'm jobdb \<Rightarrow> job option \<times> 'm jobdb" where
  "settleFailure reg j tok e effectStarted t db =
     (let p = holds_claim (job_id j) tok; f = settled_row reg j e effectStarted t
      in (first_row (sql_returning p f (jobs db)), db\<lparr>jobs := sql_update p f (jobs db)\<rparr>))"

section \<open>The lease sweep, clean-up, deleted mailboxes, released claims\<close>

definition effect_done :: "job \<Rightarrow> bool" where
  "effect_done j \<longleftrightarrow> effect_started_at j \<noteq> None \<and> job_payload j EFFECT_DONE_KEY \<noteq> None"

definition lease_expired :: "time_ms \<Rightarrow> job \<Rightarrow> bool" where
  "lease_expired t j \<longleftrightarrow> status j = Running \<and> (case lease_until j of Some l \<Rightarrow> l < t | None \<Rightarrow> False)"

definition swept_row :: "time_ms \<Rightarrow> job \<Rightarrow> job" where
  "swept_row t j = j\<lparr>
     status := (if effect_started_at j \<noteq> None then NeedsAttention
                else if attempts j \<ge> max_attempts j then Failed else Queued),
     run_at := (if effect_started_at j = None then t else run_at j),
     last_error := Some (if effect_done j
        then ''The work was done, but the worker stopped before recording it''
        else ''The worker running the job stopped before it finished''),
     error_code := (if effect_done j then json_text (the (job_payload j EFFECT_DONE_KEY))
                    else Some ''lease_expired''),
     claim_token := None, lease_until := None, updated_at := t\<rparr>"

definition sweepExpiredLeases :: "time_ms \<Rightarrow> 'm jobdb \<Rightarrow> job list \<times> 'm jobdb" where
  "sweepExpiredLeases t db = (sql_returning (lease_expired t) (swept_row t) (jobs db),
     db\<lparr>jobs := sql_update (lease_expired t) (swept_row t) (jobs db)\<rparr>)"

text \<open>Letters of finished jobs go, then old jobs, whose letters go with them (ON DELETE CASCADE).\<close>

definition kept_too_long :: "int \<Rightarrow> int \<Rightarrow> time_ms \<Rightarrow> job \<Rightarrow> bool" where
  "kept_too_long retention keptFailed t j \<longleftrightarrow>
     (status j \<in> {Done, Cancelled} \<and> (case finished_at j of Some f \<Rightarrow> f < t - retention | None \<Rightarrow> False))
   \<or> (status j \<in> {Failed, NeedsAttention} \<and> updated_at j < t - keptFailed)"

definition cleanupFinishedJobs :: "int \<Rightarrow> int \<Rightarrow> time_ms \<Rightarrow> 'm jobdb \<Rightarrow> nat \<times> 'm jobdb" where
  "cleanupFinishedJobs retention keptFailed t db =
     (let finished = (\<lambda>l. case job_of db (fst l) of
              Some j \<Rightarrow> status j \<in> {Done, Cancelled} | None \<Rightarrow> False);
          old = kept_too_long retention keptFailed t;
          gone = map job_id (filter old (jobs db))
      in (length gone,
          db\<lparr>jobs := sql_delete old (jobs db),
             letters := sql_delete (\<lambda>l. finished l \<or> fst l \<in> set gone) (letters db)\<rparr>))"

definition failJobsOfDeletedAccount :: "string \<Rightarrow> time_ms \<Rightarrow> 'm jobdb \<Rightarrow> job list \<times> 'm jobdb" where
  "failJobsOfDeletedAccount acc t db =
     (let p = (\<lambda>j. account_id j = Some acc \<and> status j = Queued);
          f = (\<lambda>j. j\<lparr>status := Failed, error_code := Some ''account_missing'',
                 last_error := Some ''The mailbox was deleted.'', claim_token := None,
                 lease_until := None, updated_at := t\<rparr>)
      in (sql_returning p f (jobs db), db\<lparr>jobs := sql_update p f (jobs db)\<rparr>))"

definition releasable :: "string list \<Rightarrow> job \<Rightarrow> bool" where
  "releasable toks j \<longleftrightarrow> status j = Running \<and> (\<exists>tok\<in>set toks. claim_token j = Some tok)
     \<and> effect_started_at j = None"

definition released_row :: "time_ms \<Rightarrow> job \<Rightarrow> job" where
  "released_row t j = j\<lparr>status := Queued, attempts := attempts j - 1, claim_token := None,
     lease_until := None, claimed_at := None, updated_at := t\<rparr>"

definition releaseClaims :: "job list \<Rightarrow> time_ms \<Rightarrow> 'm jobdb \<Rightarrow> 'm jobdb" where
  "releaseClaims js t db =
     (if js = [] then db
      else let toks = List.map_filter claim_token js
           in db\<lparr>jobs := sql_update (releasable toks) (released_row t) (jobs db)\<rparr>)"

end
