(* ===== verification/JobWorker.thy ===== *)
theory JobWorker
  imports JobQueue
begin

text \<open>
  The workers of \<open>backend/src/services/jobQueue.js\<close> (\<open>runJob\<close>, \<open>settleWithRetry\<close>,
  \<open>runDueJobs\<close>) as an interleaving of atomic steps. A handler is a program over the context
  the queue gives it: its reads, \<open>ctx.markEffectStarted\<close>, the irreversible step (\<open>Hand\<close>),
  \<open>ctx.markEffectDone\<close>, \<open>ctx.complete\<close>, and how it ends. Every call of the database
  may fail, before or after the statement was applied (a lost acknowledgement), and a worker may
  die between any two steps. Any number of workers, the lease sweep, the clean-up, users' cancels
  and reschedules run interleaved.

  The locale \<open>at_most_once_kind\<close> is the contract a kind's handler keeps to be at most once;
  its lemmas hold for every handler that keeps it. \<open>SendQueue\<close> interprets it.
\<close>

section \<open>Handlers as programs\<close>

datatype 'a db_result = Answered 'a | DbFailed

text \<open>
  \<open>Complete\<close> is \<open>ctx.complete\<close> with what a handler does in its transaction: delete the
  job's letter, merge keys into its payload. \<open>SettleSwept\<close> is the settling of a job whose
  claim was swept while its effect happened. The type \<open>'q\<close> is what other tables and services
  answer, \<open>'x\<close> what the irreversible step answers.
\<close>

datatype ('q, 'x, 'm) prog =
    Finish
  | Throw thrown
  | ReadLetter "'m option \<Rightarrow> ('q, 'x, 'm) prog"
  | Ask "'q \<Rightarrow> ('q, 'x, 'm) prog"
  | MarkStarted "('q, 'x, 'm) prog"
  | Hand "'x \<Rightarrow> ('q, 'x, 'm) prog"
  | MarkDone string "bool \<Rightarrow> ('q, 'x, 'm) prog"
  | Complete bool payload "bool db_result \<Rightarrow> ('q, 'x, 'm) prog"
  | SettleSwept string "string list" "job option db_result \<Rightarrow> ('q, 'x, 'm) prog"

definition claim_lost_error :: thrown where
  "claim_lost_error = JobError ''The job is no longer claimed by this worker'' Fail (Some ''claim_lost'') None"

text \<open>An error of the database driver: not a \<open>JobError\<close>, so it has no outcome.\<close>

definition db_failure :: thrown where
  "db_failure = Thrown \<lparr>err_message = ''Connection terminated unexpectedly'', err_code = None,
     err_name = ''Error'', err_cause_code = None, err_outcome = None, err_delay = None\<rparr>"

section \<open>The statements handlers add\<close>

definition complete_fn :: "bool \<Rightarrow> payload \<Rightarrow> job \<Rightarrow> 'm jobdb \<Rightarrow> 'm jobdb" where
  "complete_fn dropl patch row db = db\<lparr>
     letters := (if dropl then sql_delete (\<lambda>l. fst l = job_id row) (letters db) else letters db),
     jobs := sql_update (\<lambda>j. job_id j = job_id row)
       (\<lambda>j. j\<lparr>job_payload := job_payload j ++ patch\<rparr>) (jobs db)\<rparr>"

text \<open>\<open>settleSweptDelivery\<close> of \<open>backend/src/services/sendQueue.js\<close>; \<open>code\<close> is the code of a delivered, unrecorded letter.\<close>

definition swept_delivery :: "nat \<Rightarrow> string \<Rightarrow> job \<Rightarrow> bool" where
  "swept_delivery i code j \<longleftrightarrow> job_id j = i \<and> status j = NeedsAttention
     \<and> error_code j \<in> {Some ''lease_expired'', Some code}"

definition settleSweptDelivery ::
  "nat \<Rightarrow> string \<Rightarrow> string list \<Rightarrow> time_ms \<Rightarrow> 'm jobdb \<Rightarrow> job option \<times> 'm jobdb" where
  "settleSweptDelivery i code rejected t db =
     (let p = swept_delivery i code;
          f = (\<lambda>j. j\<lparr>status := Done, finished_at := Some t, error_code := None, last_error := None,
                 updated_at := t, job_payload := (if rejected = [] then job_payload j
                   else (job_payload j)(''rejected'' \<mapsto> JStrs rejected))\<rparr>);
          row = first_row (sql_returning p f (jobs db))
      in (row, db\<lparr>jobs := sql_update p f (jobs db),
                  letters := (if row = None then letters db
                              else sql_delete (\<lambda>l. fst l = i) (letters db))\<rparr>))"

section \<open>Runs\<close>

text \<open>
  A run of a claimed job: what \<open>runJob\<close> keeps (the row as claimed, \<open>effectStarted\<close>,
  whether \<open>completedRow\<close> is set, the tries of \<open>settleWithRetry\<close>) and the rest of its
  handler. \<open>r_phase\<close> and \<open>r_acc\<close> are ghost: how far the irreversible step is, and whether
  it took effect, which the handler may not know. \<open>knowledge\<close> is what an answer of the
  irreversible step tells about that; \<open>Never\<close> marks an answer that no service gives.
\<close>

datatype knowledge = Yes | No | Unknown | Never

datatype phase = Fresh | Started | Handed knowledge | Over

record ('q, 'x, 'm) run =
  r_job :: job
  r_prog :: "('q, 'x, 'm) prog"
  r_effect :: bool
  r_completed :: bool
  r_tries :: nat
  r_phase :: phase
  r_acc :: bool

definition run_id :: "('q, 'x, 'm) run \<Rightarrow> nat" where
  "run_id r = job_id (r_job r)"

definition run_token :: "('q, 'x, 'm) run \<Rightarrow> string" where
  "run_token r = (case claim_token (r_job r) of Some tok \<Rightarrow> tok | None \<Rightarrow> '''')"

definition start_run :: "(job \<Rightarrow> ('q, 'x, 'm) prog) \<Rightarrow> job \<Rightarrow> ('q, 'x, 'm) run" where
  "start_run handler j = \<lparr>r_job = j, r_prog = handler j, r_effect = False, r_completed = False,
     r_tries = 0, r_phase = Fresh, r_acc = False\<rparr>"

text \<open>\<open>SETTLE_RETRY_DELAYS_MS\<close>: eight waits.\<close>

definition SETTLE_RETRY_DELAYS_MS :: "int list" where
  "SETTLE_RETRY_DELAYS_MS = [1000, 2000, 5000, 10000, 30000, 60000, 120000, 300000]"

text \<open>
  What the environment does in one step of a run: the database answers, or fails with the
  statement applied or not; another table answers; the irreversible step answers \<open>x\<close>, having
  taken effect or not.
\<close>

datatype ('q, 'x) run_event =
    DbOk
  | DbFail (applied: bool) (worker_stopping: bool)
  | Answers 'q
  | HandAnswers 'x bool

text \<open>
  The end of \<open>runJob\<close> for a thrown error: a handler that threw after completing, or that lost
  its claim before its effect, changes nothing; else \<open>settleWithRetry\<close>.
\<close>

fun throw_step ::
  "registry \<Rightarrow> thrown \<Rightarrow> ('q, 'x) run_event \<Rightarrow> time_ms \<Rightarrow> ('q, 'x, 'm) run \<Rightarrow> 'm jobdb
     \<Rightarrow> ('q, 'x, 'm) run option \<times> 'm jobdb" where
  "throw_step reg e DbOk t r db =
     (if r_completed r \<or> thrown_code e = Some ''claim_lost'' then (None, db)
      else (None, snd (settleFailure reg (r_job r) (run_token r) e (r_effect r) t db)))"
| "throw_step reg e (DbFail ap stop) t r db =
     (if r_completed r \<or> thrown_code e = Some ''claim_lost'' then (None, db)
      else let db' = (if ap then snd (settleFailure reg (r_job r) (run_token r) e (r_effect r) t db) else db)
           in if r_effect r \<and> r_tries r < length SETTLE_RETRY_DELAYS_MS \<and> \<not> stop
              then (Some (r\<lparr>r_tries := Suc (r_tries r), r_phase := (if ap then Over else r_phase r)\<rparr>), db')
              else (None, db'))"
| "throw_step reg e _ t r db = (Some r, db)"

text \<open>One step of a run: the rest of it (\<open>None\<close> once it ended) and the database.\<close>

fun run_step ::
  "registry \<Rightarrow> ('q + 'x \<Rightarrow> knowledge) \<Rightarrow> ('q, 'x) run_event \<Rightarrow> time_ms \<Rightarrow> ('q, 'x, 'm) run \<Rightarrow> 'm jobdb
     \<Rightarrow> ('q, 'x, 'm) run option \<times> 'm jobdb" where
  "run_step reg kn ev t r db =
     (case r_prog r of
        Throw e \<Rightarrow> throw_step reg e ev t r db
      | Finish \<Rightarrow>
          (case ev of
             DbOk \<Rightarrow> (None, if r_completed r then db
                           else snd (completeJob (run_id r) (run_token r) (\<lambda>_ d. d) t db))
           | DbFail ap _ \<Rightarrow>
               if r_completed r then (None, db)
               else (Some (r\<lparr>r_prog := Throw db_failure\<rparr>),
                     if ap then snd (completeJob (run_id r) (run_token r) (\<lambda>_ d. d) t db) else db)
           | _ \<Rightarrow> (Some r, db))
      | ReadLetter k \<Rightarrow>
          (case ev of
             DbOk \<Rightarrow> (Some (r\<lparr>r_prog := k (letter_of db (run_id r))\<rparr>), db)
           | DbFail _ _ \<Rightarrow> (Some (r\<lparr>r_prog := Throw db_failure\<rparr>), db)
           | _ \<Rightarrow> (Some r, db))
      | Ask k \<Rightarrow>
          (case ev of
             Answers q \<Rightarrow> (Some (r\<lparr>r_prog := k q\<rparr>), db)
           | DbFail _ _ \<Rightarrow> (Some (r\<lparr>r_prog := Throw db_failure\<rparr>), db)
           | _ \<Rightarrow> (Some r, db))
      | MarkStarted p \<Rightarrow>
          (let (held, db') = markEffectStarted (run_id r) (run_token r) t db
           in case ev of
             DbOk \<Rightarrow> if held then (Some (r\<lparr>r_prog := p, r_effect := True, r_phase := Started\<rparr>), db')
                     else (Some (r\<lparr>r_prog := Throw claim_lost_error\<rparr>), db')
           | DbFail ap _ \<Rightarrow>
               (Some (r\<lparr>r_prog := Throw db_failure, r_phase := (if ap \<and> held then Started else r_phase r)\<rparr>),
                if ap then db' else db)
           | _ \<Rightarrow> (Some r, db))
      | Hand k \<Rightarrow>
          (case ev of
             HandAnswers x acc \<Rightarrow> (Some (r\<lparr>r_prog := k x, r_phase := Handed (kn (Inr x)), r_acc := acc\<rparr>), db)
           | _ \<Rightarrow> (Some r, db))
      | MarkDone c k \<Rightarrow>
          (case ev of
             DbOk \<Rightarrow> (let (ok, db') = markEffectDone (run_id r) c t db in (Some (r\<lparr>r_prog := k ok\<rparr>), db'))
           | DbFail ap _ \<Rightarrow> (Some (r\<lparr>r_prog := k False\<rparr>),
                             if ap then snd (markEffectDone (run_id r) c t db) else db)
           | _ \<Rightarrow> (Some r, db))
      | Complete dropl patch k \<Rightarrow>
          (let (row, db') = completeJob (run_id r) (run_token r) (complete_fn dropl patch) t db
           in case ev of
             DbOk \<Rightarrow> (Some (r\<lparr>r_prog := k (Answered (row \<noteq> None)),
                             r_completed := (r_completed r \<or> row \<noteq> None)\<rparr>), db')
           | DbFail ap _ \<Rightarrow> (Some (r\<lparr>r_prog := k DbFailed\<rparr>), if ap then db' else db)
           | _ \<Rightarrow> (Some r, db))
      | SettleSwept c rej k \<Rightarrow>
          (let (row, db') = settleSweptDelivery (run_id r) c rej t db
           in case ev of
             DbOk \<Rightarrow> (Some (r\<lparr>r_prog := k (Answered row)\<rparr>), db')
           | DbFail ap _ \<Rightarrow> (Some (r\<lparr>r_prog := k DbFailed\<rparr>), if ap then db' else db)
           | _ \<Rightarrow> (Some r, db)))"

section \<open>The system\<close>

text \<open>
  The database, its clock, the UUIDs drawn so far, the live runs of all workers, and two ghost
  counters by job id: how often the irreversible step took effect, and how often a person had a
  kept job run again.
\<close>

record ('q, 'x, 'm) sys =
  s_db :: "'m jobdb"
  s_now :: time_ms
  s_uuids :: "string list"
  s_runs :: "('q, 'x, 'm) run list"
  s_effects :: "nat \<Rightarrow> nat"
  s_resends :: "nat \<Rightarrow> nat"

datatype ('q, 'x, 'm) event =
    EvTick nat
  | EvEnqueue enqueue_args "'m option"
  | EvCancel nat "job_status list" bool
  | EvReschedule nat time_ms "job_status list" payload "string list"
  | EvClaim nat string "nat list"
  | EvRelease nat
  | EvRenew nat
  | EvSweep
  | EvCleanup
  | EvAccountGone string
  | EvRun nat "('q, 'x) run_event"
  | EvCrash nat

definition init_sys :: "('q, 'x, 'm) sys" where
  "init_sys = \<lparr>s_db = \<lparr>jobs = [], next_id = 1, letters = []\<rparr>, s_now = 0, s_uuids = [], s_runs = [],
     s_effects = (\<lambda>_. 0), s_resends = (\<lambda>_. 0)\<rparr>"

definition replace_at :: "nat \<Rightarrow> 'a option \<Rightarrow> 'a list \<Rightarrow> 'a list" where
  "replace_at n r rs = take n rs @ (case r of None \<Rightarrow> [] | Some r' \<Rightarrow> [r']) @ drop (Suc n) rs"

text \<open>The jobs INSERT and the letter's INSERT are one transaction; a letter is stored only with a new job.\<close>

definition enqueue_with_letter ::
  "registry \<Rightarrow> enqueue_args \<Rightarrow> 'm option \<Rightarrow> time_ms \<Rightarrow> 'm jobdb \<Rightarrow> 'm jobdb" where
  "enqueue_with_letter reg a l t db =
     (case enqueueJob reg a t db of
        (Inr (Some j, True), db') \<Rightarrow>
          (case l of Some m \<Rightarrow> db'\<lparr>letters := letters db' @ [(job_id j, m)]\<rparr> | None \<Rightarrow> db')
      | (_, db') \<Rightarrow> db')"

definition cancel_with_letter :: "nat \<Rightarrow> job_status list \<Rightarrow> bool \<Rightarrow> time_ms \<Rightarrow> 'm jobdb \<Rightarrow> 'm jobdb" where
  "cancel_with_letter i froms dropl t db =
     (case cancelJob i froms t db of
        (None, db') \<Rightarrow> db'
      | (Some _, db') \<Rightarrow> if dropl then db'\<lparr>letters := sql_delete (\<lambda>l. fst l = i) (letters db')\<rparr> else db')"

definition is_resend :: "nat \<Rightarrow> job_status list \<Rightarrow> string list \<Rightarrow> 'm jobdb \<Rightarrow> bool" where
  "is_resend i froms codes db \<longleftrightarrow>
     (case job_of db i of Some j \<Rightarrow> reschedulable i froms codes j \<and> status j \<noteq> Queued | None \<Rightarrow> False)"

definition run_effect :: "('q, 'x, 'm) run \<Rightarrow> ('q, 'x) run_event \<Rightarrow> bool" where
  "run_effect r ev = (case (r_prog r, ev) of (Hand _, HandAnswers _ acc) \<Rightarrow> acc | _ \<Rightarrow> False)"

fun sys_step ::
  "registry \<Rightarrow> ('q + 'x \<Rightarrow> knowledge) \<Rightarrow> (job \<Rightarrow> ('q, 'x, 'm) prog) \<Rightarrow> ('q, 'x, 'm) event
     \<Rightarrow> ('q, 'x, 'm) sys \<Rightarrow> ('q, 'x, 'm) sys" where
  "sys_step reg kn h (EvTick d) s = s\<lparr>s_now := s_now s + int d\<rparr>"
| "sys_step reg kn h (EvEnqueue a l) s = s\<lparr>s_db := enqueue_with_letter reg a l (s_now s) (s_db s)\<rparr>"
| "sys_step reg kn h (EvCancel i froms dropl) s =
     s\<lparr>s_db := cancel_with_letter i froms dropl (s_now s) (s_db s)\<rparr>"
| "sys_step reg kn h (EvReschedule i at froms patch codes) s =
     s\<lparr>s_db := snd (rescheduleJob i at froms patch codes (s_now s) (s_db s)),
       s_resends := (if is_resend i froms codes (s_db s)
                     then (s_resends s)(i := Suc (s_resends s i)) else s_resends s)\<rparr>"
| "sys_step reg kn h (EvClaim lim uuid locked) s =
     (if uuid \<in> set (s_uuids s) then s
      else let (rows, db') = claimDueJobs reg lim JOB_LEASE_MS uuid (\<lambda>i. i \<in> set locked) (s_now s) (s_db s)
           in s\<lparr>s_db := db', s_uuids := uuid # s_uuids s, s_runs := s_runs s @ map (start_run h) rows\<rparr>)"
| "sys_step reg kn h (EvRelease n) s =
     (if n < length (s_runs s) \<and> r_phase (s_runs s ! n) = Fresh
      then s\<lparr>s_db := releaseClaims [r_job (s_runs s ! n)] (s_now s) (s_db s),
             s_runs := replace_at n None (s_runs s)\<rparr>
      else s)"
| "sys_step reg kn h (EvRenew n) s =
     (if n < length (s_runs s)
      then s\<lparr>s_db := snd (renewLease (run_id (s_runs s ! n)) (run_token (s_runs s ! n)) JOB_LEASE_MS
                        (s_now s) (s_db s))\<rparr>
      else s)"
| "sys_step reg kn h EvSweep s = s\<lparr>s_db := snd (sweepExpiredLeases (s_now s) (s_db s))\<rparr>"
| "sys_step reg kn h EvCleanup s =
     s\<lparr>s_db := snd (cleanupFinishedJobs JOB_RETENTION_MS JOB_KEPT_FAILED_MS (s_now s) (s_db s))\<rparr>"
| "sys_step reg kn h (EvAccountGone acc) s =
     s\<lparr>s_db := snd (failJobsOfDeletedAccount acc (s_now s) (s_db s))\<rparr>"
| "sys_step reg kn h (EvRun n ev) s =
     (if n < length (s_runs s)
      then let r = s_runs s ! n; (r', db') = run_step reg kn ev (s_now s) r (s_db s)
           in s\<lparr>s_db := db', s_runs := replace_at n r' (s_runs s),
                s_effects := (if run_effect r ev then (s_effects s)(run_id r := Suc (s_effects s (run_id r)))
                              else s_effects s)\<rparr>
      else s)"
| "sys_step reg kn h (EvCrash n) s =
     (if n < length (s_runs s) then s\<lparr>s_runs := replace_at n None (s_runs s)\<rparr> else s)"

definition sys_run ::
  "registry \<Rightarrow> ('q + 'x \<Rightarrow> knowledge) \<Rightarrow> (job \<Rightarrow> ('q, 'x, 'm) prog) \<Rightarrow> ('q, 'x, 'm) event list
     \<Rightarrow> ('q, 'x, 'm) sys \<Rightarrow> ('q, 'x, 'm) sys" where
  "sys_run reg kn h es s = fold (sys_step reg kn h) es s"

text \<open>
  \<open>runDueJobs\<close> of one worker with \<open>n\<close> jobs running: it claims into its free slots;
  told to stop while the claim was on its way (\<open>stopping'\<close>), it gives the claimed jobs back. The
  first component is the jobs it starts.
\<close>

definition runDueJobs ::
  "registry \<Rightarrow> nat \<Rightarrow> nat \<Rightarrow> bool \<Rightarrow> bool \<Rightarrow> string \<Rightarrow> (nat \<Rightarrow> bool) \<Rightarrow> time_ms \<Rightarrow> 'm jobdb \<Rightarrow> job list \<times> 'm jobdb" where
  "runDueJobs reg concurrency n stopping stopping' uuid lk t db =
     (if stopping then ([], db)
      else let (rows, db') = claimDueJobs reg (concurrency - n) JOB_LEASE_MS uuid lk t db
           in if stopping' then ([], releaseClaims rows t db') else (rows, db'))"

end
