(* ===== verification/SendDelivery.thy ===== *)
theory SendDelivery
  imports JobWorker Rex
begin

text \<open>
  How a failed hand-over is classified: \<open>backend/src/services/smtpErrors.js\<close>, the failure
  classes of \<open>sendDelivery.js\<close>, \<open>oauth/constants.js\<close>, the delivery codes of
  \<open>mailNode/deliveryCodes.js\<close>, and the recipients a server refused. The central fact is that
  a letter is sent again automatically only after a failure that certainly delivered nothing.
\<close>

section \<open>Accounts and transport errors\<close>

text \<open>The columns of \<open>email_accounts\<close> that sending reads.\<close>

record send_account =
  sa_email :: string
  sa_oauth :: "string option"
  sa_imap_host :: "string option"
  sa_smtp_host :: "string option"
  sa_smtp_port :: "nat option"
  sa_enabled :: bool
  sa_mail_node :: bool
  sa_delete_after :: "time_ms option"
  sa_deactivated_at :: "time_ms option"
  sa_mail_provider :: "string option"
  sa_connection_mode :: "string option"

text \<open>
  An error of \<open>transport.sendMail\<close>: nodemailer's message, code and reply code, and what the
  Gmail API sender adds (\<open>definite\<close>, \<open>status\<close>).
\<close>

record transport_error =
  te_message :: string
  te_code :: "string option"
  te_response :: "int option"
  te_definite :: bool
  te_status :: "int option"

text \<open>\<open>value || fallback\<close> of a string that may be missing.\<close>

definition js_or :: "string option \<Rightarrow> string \<Rightarrow> string" where
  "js_or v d = (case v of None \<Rightarrow> d | Some s \<Rightarrow> or_else s d)"

definition truthy :: "string option \<Rightarrow> string option" where
  "truthy v = (case v of Some s \<Rightarrow> if s = '''' then None else Some s | None \<Rightarrow> None)"

definition code_in :: "string option \<Rightarrow> string list \<Rightarrow> bool" where
  "code_in c cs = (case c of None \<Rightarrow> False | Some x \<Rightarrow> x \<in> set cs)"

definition found_any :: "string list \<Rightarrow> string \<Rightarrow> bool" where
  "found_any words txt = list_ex (\<lambda>w. js_includes txt w) words"

definition ifound_any :: "string list \<Rightarrow> string \<Rightarrow> bool" where
  "ifound_any words txt = list_ex (\<lambda>w. rex_found (rilit w) txt) words"

section \<open>Which failures certainly delivered nothing\<close>

text \<open>\<open>OAUTH_SEND_FAILURES\<close>: status and message by code.\<close>

definition OAUTH_SEND_FAILURES :: "(string \<times> int \<times> string) list" where
  "OAUTH_SEND_FAILURES = [
     (''oauth_reconnect_required'', 409, ''Access to this account was revoked or has expired. Reconnect the account to send mail.''),
     (''oauth_refresh_failed'', 503, ''Could not renew access to this account. Please try again shortly.'')]"

definition oauth_failure :: "string option \<Rightarrow> (int \<times> string) option" where
  "oauth_failure c = (case c of None \<Rightarrow> None | Some x \<Rightarrow> map_of OAUTH_SEND_FAILURES x)"

definition smtpFailureIsDefinite :: "transport_error \<Rightarrow> bool" where
  "smtpFailureIsDefinite e \<longleftrightarrow>
     (case te_response e of Some n \<Rightarrow> n \<ge> 400 \<and> n < 600 | None \<Rightarrow> False)
   \<or> code_in (te_code e) [''EAUTH'', ''EDNS'', ''ETLS'']
   \<or> found_any [''ECONNREFUSED'', ''ENOTFOUND'', ''EHOSTUNREACH'', ''Connection timeout'',
       ''Greeting never received''] (te_message e)"

definition sendFailureIsDefinite :: "transport_error \<Rightarrow> bool" where
  "sendFailureIsDefinite e \<longleftrightarrow> smtpFailureIsDefinite e \<or> te_definite e
     \<or> oauth_failure (te_code e) \<noteq> None \<or> te_code e = Some ''EENVELOPE'' \<or> te_code e = Some ''EMESSAGE''"

section \<open>Connection failures\<close>

datatype connection_reason = Refused | NotFound | Unreachable | Tls | Timeout | OtherReason

definition smtpConnectionFailureReason :: "transport_error \<Rightarrow> connection_reason" where
  "smtpConnectionFailureReason e =
     (let msg = te_message e in
      if ifound_any [''ECONNREFUSED''] msg then Refused
      else if ifound_any [''ENOTFOUND''] msg then NotFound
      else if ifound_any [''EHOSTUNREACH''] msg then Unreachable
      else if te_code e = Some ''ETLS'' \<or> ifound_any [''TLS'', ''handshake''] msg then Tls
      else if te_code e = Some ''ETIMEDOUT''
           \<or> ifound_any [''timeout'', ''timed out'', ''greeting never received''] msg then Timeout
      else OtherReason)"

fun SMTP_CONNECTION_REASON_TEXT :: "connection_reason \<Rightarrow> string" where
  "SMTP_CONNECTION_REASON_TEXT Refused = ''connection refused''"
| "SMTP_CONNECTION_REASON_TEXT NotFound = ''host not found''"
| "SMTP_CONNECTION_REASON_TEXT Unreachable = ''host unreachable''"
| "SMTP_CONNECTION_REASON_TEXT Tls = ''TLS handshake failed''"
| "SMTP_CONNECTION_REASON_TEXT Timeout = ''timed out''"
| "SMTP_CONNECTION_REASON_TEXT OtherReason = ''could not connect''"

record connection_failure =
  cf_code :: string
  cf_reason :: connection_reason
  cf_host :: "string option"
  cf_port :: "nat option"
  cf_error :: string

definition smtpConnectionFailure :: "transport_error \<Rightarrow> send_account \<Rightarrow> connection_failure option" where
  "smtpConnectionFailure e a =
     (if ifound_any [''Connection closed unexpectedly'', ''Server terminates connection'', ''EHLO failed'']
           (te_message e) then None
      else if \<not> (code_in (te_code e) [''ETIMEDOUT'', ''ECONNECTION'', ''EDNS'', ''ESOCKET'', ''ETLS'']
               \<or> ifound_any [''ECONNREFUSED'', ''ENOTFOUND'', ''EHOSTUNREACH''] (te_message e)) then None
      else let reason = smtpConnectionFailureReason e;
               host = js_or (sa_smtp_host a) ''the mail server'';
               port = (case sa_smtp_port a of Some p \<Rightarrow> if p = 0 then None else Some p | None \<Rightarrow> None);
               target = (case port of Some p \<Rightarrow> host @ '':'' @ nat_text p | None \<Rightarrow> host)
           in Some \<lparr>cf_code = ''smtp_connection_failed'', cf_reason = reason,
                    cf_host = truthy (sa_smtp_host a), cf_port = port,
                    cf_error = ''Could not connect to '' @ target @ '' ('' @ SMTP_CONNECTION_REASON_TEXT reason
                      @ '').'' @ '' The server'' @ [CHR 0x27] @ ''s network may block outgoing mail ports.''\<rparr>)"

section \<open>What the author is told\<close>

definition sanitizeSmtpError :: "transport_error \<Rightarrow> string" where
  "sanitizeSmtpError e =
     (let msg = te_message e; found = (\<lambda>rs. list_ex (\<lambda>r. rex_found r msg) rs) in
      if found [rilit ''ECONNREFUSED'', rilit ''ENOTFOUND'', rilit ''ETIMEDOUT'', rilit ''ECONNRESET'',
                rilit ''EHOSTUNREACH'']
      then ''Could not connect to the mail server. Check your SMTP settings.''
      else if found [rilit ''535'', rilit ''534'', rilit ''530'',
                rseqs [rilit ''invalid'', ropt rdot, rilit ''login''],
                rseqs [rilit ''authentication'', ropt rdot, rilit ''fail''],
                rseqs [rilit ''bad'', RStar rdot, rilit ''credentials''],
                rseqs [rilit ''username'', RStar rdot, rilit ''password''],
                rseqs [rilit ''password'', RStar rdot, rilit ''username'']]
      then ''Authentication failed. Check your email account credentials.''
      else if found [rilit ''throttl'', rseqs [rilit ''rate'', ropt rdot, rilit ''limit''],
                rilit ''too many'', rilit ''4.2.'', rilit ''4.7.94'']
      then ''The mail server is rate limiting sends. Please try again shortly.''
      else if found [rilit ''550'', rseqs [rilit ''5.'', RSet (\<lambda>c. c = CHR ''1'' \<or> c = CHR ''3''), rilit ''.''],
                rilit ''reject'', rilit ''blacklist'', rilit ''spam'',
                rseqs [rilit ''not'', ropt rdot, rilit ''accept'']]
      then ''Message was rejected by the mail server.''
      else if found [rilit ''TLS'', rilit ''SSL'', rilit ''certificate'', rilit ''handshake'']
      then ''Secure connection to the mail server failed. Check your TLS settings.''
      else ''Failed to send message. Please try again.'')"

section \<open>The outcome the queue applies\<close>

text \<open>
  A transport that could not be set up (\<open>createAccountSendTransport\<close>'s
  \<open>{ status, error, code }\<close>): status, error and, for an OAuth failure, its code.
\<close>

record setup_failure =
  sf_status :: int
  sf_error :: string
  sf_code :: "string option"

definition setupFailure :: "setup_failure \<Rightarrow> thrown" where
  "setupFailure r = JobError (or_else (sf_error r) ''The mailbox could not send mail.'')
     (if sf_code r = Some ''oauth_refresh_failed'' \<or> sf_status r = 503 then Retry else Fail)
     (Some (js_or (sf_code r) ''send_setup_failed'')) None"

definition uncertain_text :: string where
  "uncertain_text = ''The connection to the mail server broke while sending. The message may have been delivered: check Sent before sending it again.''"

text \<open>The SMTP branches, once it is certain that nothing was delivered.\<close>

definition smtp_rejection :: "transport_error \<Rightarrow> send_account \<Rightarrow> thrown" where
  "smtp_rejection e a =
     (case smtpConnectionFailure e a of
        Some c \<Rightarrow> JobError (cf_error c) Retry (Some ''smtp_connection_failed'') None
      | None \<Rightarrow>
          if (case te_response e of Some n \<Rightarrow> n \<ge> 400 \<and> n < 500 | None \<Rightarrow> False)
          then JobError (sanitizeSmtpError e) Retry (Some ''smtp_temporary'') None
          else if te_code e = Some ''EAUTH''
          then JobError (sanitizeSmtpError e) Fail (Some ''smtp_auth_failed'') None
          else if smtpFailureIsDefinite e \<and> te_response e = None
          then JobError (sanitizeSmtpError e) Retry (Some ''smtp_connection_failed'') None
          else JobError (sanitizeSmtpError e) Fail (Some ''smtp_rejected'') None)"

definition deliveryFailure :: "transport_error \<Rightarrow> send_account \<Rightarrow> thrown" where
  "deliveryFailure e a =
     (case oauth_failure (te_code e) of
        Some (_, msg) \<Rightarrow>
          JobError msg (if te_code e = Some ''oauth_refresh_failed'' then Retry else Fail) (te_code e) None
      | None \<Rightarrow>
          if te_definite e \<and> te_status e \<noteq> None
          then JobError (te_message e)
                 (if te_code e = Some ''gmail_quota_exceeded'' \<or> te_status e = Some 429 then Retry else Fail)
                 (Some (js_or (te_code e) ''send_rejected'')) None
          else if \<not> sendFailureIsDefinite e
          then JobError uncertain_text Attention (Some ''send_uncertain'') None
          else smtp_rejection e a)"

lemma JobError_fields [simp]:
  "thrown_outcome (JobError m ob c d) = Some ob" "thrown_code (JobError m ob c d) = c"
  "thrown_delay (JobError m ob c d) = d"
  by (simp_all add: JobError_def)

lemma if_outcome: "thrown_outcome (if b then x else y) = (if b then thrown_outcome x else thrown_outcome y)"
  by simp

lemma smtp_rejection_outcome: "thrown_outcome (smtp_rejection e a) \<in> {Some Retry, Some Fail}"
  unfolding smtp_rejection_def
  by (cases "smtpConnectionFailure e a") (simp_all only: option.case if_outcome JobError_fields, simp_all)

lemma deliveryFailure_outcome:
  "thrown_outcome (deliveryFailure e a) = Some Attention \<longleftrightarrow> \<not> sendFailureIsDefinite e"
proof (cases "oauth_failure (te_code e)")
  case None
  have "te_definite e \<Longrightarrow> sendFailureIsDefinite e" by (simp add: sendFailureIsDefinite_def)
  then show ?thesis
    using None smtp_rejection_outcome [of e a] by (auto simp: deliveryFailure_def)
next
  case (Some r)
  then have "sendFailureIsDefinite e" by (simp add: sendFailureIsDefinite_def)
  then show ?thesis using Some by (cases r) (simp add: deliveryFailure_def)
qed

lemma deliveryFailure_is_JobError: "thrown_outcome (deliveryFailure e a) \<noteq> None"
proof (cases "oauth_failure (te_code e)")
  case None
  then show ?thesis using smtp_rejection_outcome [of e a] by (auto simp: deliveryFailure_def)
next
  case (Some r)
  then show ?thesis by (cases r) (simp add: deliveryFailure_def)
qed

text \<open>
  The codes a failed hand-over can carry: the panel's own, and what the Gmail API sender put on a
  classified rejection (or on the set-up failure of its SMTP fallback).
\<close>

definition panel_codes :: "string list" where
  "panel_codes = [''oauth_reconnect_required'', ''oauth_refresh_failed'', ''send_rejected'', ''send_uncertain'',
     ''smtp_connection_failed'', ''smtp_temporary'', ''smtp_auth_failed'', ''smtp_rejected'']"

lemma oauth_failure_code:
  assumes "oauth_failure c = Some r"
  shows "\<exists>x. c = Some x \<and> x \<in> set panel_codes"
proof -
  obtain x where x: "c = Some x" and "x \<in> fst ` set OAUTH_SEND_FAILURES"
    using assms by (cases c) (force simp: oauth_failure_def dest: map_of_SomeD)+
  then have "x = ''oauth_reconnect_required'' \<or> x = ''oauth_refresh_failed''"
    by (simp only: OAUTH_SEND_FAILURES_def list.set image_insert image_empty fst_conv insert_iff empty_iff simp_thms)
  then have "x \<in> set panel_codes"
    unfolding panel_codes_def by (elim disjE) (simp_all only: list.set insert_iff simp_thms)
  with x show ?thesis by blast
qed

lemma if_code: "thrown_code (if b then x else y) = (if b then thrown_code x else thrown_code y)"
  by simp

lemma smtp_rejection_code: "\<exists>x. thrown_code (smtp_rejection e a) = Some x \<and> x \<in> set panel_codes"
  unfolding smtp_rejection_def panel_codes_def
  by (cases "smtpConnectionFailure e a") (simp_all only: option.case if_code JobError_fields, simp_all)

lemma deliveryFailure_code:
  "\<exists>x. thrown_code (deliveryFailure e a) = Some x
     \<and> (x \<in> set panel_codes \<or> te_definite e \<and> te_code e = Some x)"
proof (cases "oauth_failure (te_code e)")
  case (Some r)
  then show ?thesis
    using oauth_failure_code [OF Some] by (cases r) (auto simp: deliveryFailure_def)
next
  case None
  have p: "''send_rejected'' \<in> set panel_codes" "''send_uncertain'' \<in> set panel_codes"
    by (simp_all only: panel_codes_def list.set insert_iff simp_thms)
  show ?thesis
  proof (cases "te_definite e \<and> te_status e \<noteq> None")
    case True
    have "js_or (te_code e) ''send_rejected'' = ''send_rejected''
        \<or> te_code e = Some (js_or (te_code e) ''send_rejected'')"
      by (simp add: js_or_def split: option.splits)
    then show ?thesis
      using True None p(1) by (auto simp: deliveryFailure_def simp del: or_else.simps)
  next
    case False
    then show ?thesis
      using None p(2) smtp_rejection_code [of e a] by (auto simp: deliveryFailure_def)
  qed
qed

section \<open>Who files the Sent copy\<close>

definition host_name :: "string option \<Rightarrow> string" where
  "host_name v = js_lower (js_trim (case v of Some s \<Rightarrow> s | None \<Rightarrow> ''''))"

definition serverSavesSentCopy :: "send_account \<Rightarrow> bool" where
  "serverSavesSentCopy a \<longleftrightarrow> truthy (sa_oauth a) \<noteq> None
     \<or> (host_name (sa_imap_host a) \<in> {''imap.gmail.com'', ''imap.googlemail.com''}
        \<and> host_name (sa_smtp_host a) \<in> {''smtp.gmail.com'', ''smtp.googlemail.com''})"

end
