(* ===== verification/DeliveryCodes.thy ===== *)
theory DeliveryCodes
  imports Rex
begin

text \<open>
  The delivery codes the panel explains (\<open>backend/src/services/mailNode/deliveryCodes.js\<close>), the
  address and diagnostic helpers of \<open>deliveryStatus.js\<close>, and the recipients an outgoing
  server refused (\<open>refusedRecipients\<close> of \<open>sendDelivery.js\<close>).
\<close>

section \<open>Status codes in a text\<close>

text \<open>
  \<open>[245]\.\d{1,3}\.\d{1,3}\<close> at the start of a text, not followed by a digit or a dot. A run of
  digits must be whole: the first is followed by a dot, the second by neither digit nor dot.
\<close>

definition short_digits :: "string \<Rightarrow> bool" where
  "short_digits ds \<longleftrightarrow> ds \<noteq> [] \<and> length ds \<le> 3 \<and> list_all js_digit ds"

fun code_at :: "string \<Rightarrow> string option" where
  "code_at (c # d # s) =
     (if c \<in> {CHR ''2'', CHR ''4'', CHR ''5''} \<and> d = CHR ''.''
      then let a = takeWhile js_digit s in
           (case dropWhile js_digit s of
              [] \<Rightarrow> None
            | e # s' \<Rightarrow>
                let b = takeWhile js_digit s'; rest = dropWhile js_digit s' in
                if short_digits a \<and> e = CHR ''.'' \<and> short_digits b
                   \<and> (rest = [] \<or> hd rest \<noteq> CHR ''.'')
                then Some (c # d # a @ e # b) else None)
      else None)"
| "code_at _ = None"

fun code_after_space :: "string \<Rightarrow> string option" where
  "code_after_space [] = None"
| "code_after_space (c # cs) =
     (if js_space c
      then (case code_at cs of Some x \<Rightarrow> Some x | None \<Rightarrow> code_after_space cs)
      else code_after_space cs)"

definition statusCodeIn :: "string option \<Rightarrow> string option" where
  "statusCodeIn t = (let s = (case t of Some x \<Rightarrow> x | None \<Rightarrow> '''') in
     case code_at s of Some x \<Rightarrow> Some x | None \<Rightarrow> code_after_space s)"

text \<open>An enhanced status code: class 2, 4 or 5, a subject and a detail of one to three digits.\<close>

definition enhanced_code :: "string \<Rightarrow> bool" where
  "enhanced_code x \<longleftrightarrow> (\<exists>c a b. c \<in> {CHR ''2'', CHR ''4'', CHR ''5''} \<and> short_digits a \<and> short_digits b
     \<and> x = c # CHR ''.'' # a @ CHR ''.'' # b)"

lemma code_at_shape: "code_at s = Some x \<Longrightarrow> enhanced_code x \<and> prefix x s"
proof (induction s rule: code_at.induct)
  case (1 c d s)
  then obtain e s' where e: "dropWhile js_digit s = e # s'"
    by (auto simp: Let_def split: if_splits list.splits)
  let ?a = "takeWhile js_digit s" and ?b = "takeWhile js_digit s'"
  have x: "x = c # d # ?a @ e # ?b" and *: "c \<in> {CHR ''2'', CHR ''4'', CHR ''5''}" "d = CHR ''.''"
      "short_digits ?a" "short_digits ?b" "e = CHR ''.''"
    using 1 e by (auto simp: Let_def split: if_splits)
  have "s = ?a @ e # ?b @ dropWhile js_digit s'"
    using e by (metis takeWhile_dropWhile_id)
  then have "c # d # s = x @ dropWhile js_digit s'" using x by (metis append_Cons append_assoc)
  then have "prefix x (c # d # s)" by (rule prefixI)
  moreover have "enhanced_code x" using * x unfolding enhanced_code_def by blast
  ultimately show ?case by blast
qed simp_all

lemma code_after_space_shape: "code_after_space s = Some x \<Longrightarrow> enhanced_code x \<and> sublist x s"
proof (induction s)
  case (Cons c cs)
  show ?case
  proof (cases "js_space c \<and> code_at cs \<noteq> None")
    case True
    then have "code_at cs = Some x" using Cons.prems by auto
    then show ?thesis using code_at_shape by (auto simp: sublist_Cons_right)
  next
    case False
    then have "code_after_space cs = Some x" using Cons.prems by (auto split: if_splits option.splits)
    then show ?thesis using Cons.IH by (auto simp: sublist_Cons_right)
  qed
qed simp

lemma statusCodeIn_shape:
  assumes "statusCodeIn (Some t) = Some x"
  shows "enhanced_code x \<and> sublist x t"
  using assms code_at_shape code_after_space_shape
  by (auto simp: statusCodeIn_def Let_def split: option.splits)

section \<open>The dictionary\<close>

text \<open>\<open>standalone(code)\<close>: the code in the text with no digit or dot right before or after it.\<close>

definition digit_or_dot :: "char \<Rightarrow> bool" where
  "digit_or_dot c \<longleftrightarrow> js_digit c \<or> c = CHR ''.''"

fun standalone_from :: "bool \<Rightarrow> string \<Rightarrow> string \<Rightarrow> bool" where
  "standalone_from free code [] = (free \<and> code = [])"
| "standalone_from free code (c # cs) =
     (free \<and> prefix code (c # cs)
        \<and> (case drop (length code) (c # cs) of [] \<Rightarrow> True | d # _ \<Rightarrow> \<not> digit_or_dot d)
      \<or> standalone_from (\<not> digit_or_dot c) code cs)"

definition standalone :: "string \<Rightarrow> string \<Rightarrow> bool" where
  "standalone code txt = standalone_from True code txt"

record delivery_code =
  dc_key :: string
  dc_codes :: "string list"
  dc_markers :: "string list"
  dc_alert :: "string option"

definition DELIVERY_CODES :: "delivery_code list" where
  "DELIVERY_CODES = [
     \<lparr>dc_key = ''tenant_attribution'', dc_codes = [''5.7.64''], dc_markers = [], dc_alert = Some ''tenant_attribution''\<rparr>,
     \<lparr>dc_key = ''connector_blocked'', dc_codes = [''5.7.711''], dc_markers = [''AS(2204)''], dc_alert = Some ''connector_blocked''\<rparr>,
     \<lparr>dc_key = ''terrl_exceeded'', dc_codes = [''5.7.233''], dc_markers = [], dc_alert = Some ''terrl_exceeded''\<rparr>,
     \<lparr>dc_key = ''terrl_trial'', dc_codes = [''5.7.232''], dc_markers = [], dc_alert = Some ''terrl_exceeded''\<rparr>,
     \<lparr>dc_key = ''recipient_not_accepted'', dc_codes = [''5.4.1''], dc_markers = [], dc_alert = None\<rparr>,
     \<lparr>dc_key = ''routing_loop'', dc_codes = [''5.4.14''], dc_markers = [], dc_alert = None\<rparr>]"

definition code_matches :: "string option \<Rightarrow> string \<Rightarrow> delivery_code \<Rightarrow> bool" where
  "code_matches code txt e \<longleftrightarrow> (case code of Some c \<Rightarrow> c \<in> set (dc_codes e) | None \<Rightarrow> False)
     \<or> list_ex (\<lambda>c. standalone c txt) (dc_codes e) \<or> list_ex (\<lambda>m. js_includes txt m) (dc_markers e)"

definition matchDeliveryCodes :: "string option \<Rightarrow> string \<Rightarrow> delivery_code list" where
  "matchDeliveryCodes code txt = filter (code_matches code txt) DELIVERY_CODES"

fun CODE_CLASSES :: "char \<Rightarrow> string option" where
  "CODE_CLASSES c = (if c = CHR ''2'' then Some ''success'' else if c = CHR ''4'' then Some ''temporary''
     else if c = CHR ''5'' then Some ''permanent'' else None)"

record explanation =
  ex_key :: "string option"
  ex_class :: "string option"
  ex_code :: "string option"

definition explainDeliveryCode :: "string option \<Rightarrow> string \<Rightarrow> explanation" where
  "explainDeliveryCode code txt =
     (let found = (case code of Some c \<Rightarrow> if c = '''' then statusCodeIn (Some txt) else Some c
                   | None \<Rightarrow> statusCodeIn (Some txt));
          klass = (case found of Some (c # _) \<Rightarrow> CODE_CLASSES c | _ \<Rightarrow> None);
          entry = (case matchDeliveryCodes found txt of [] \<Rightarrow> None | e # _ \<Rightarrow> Some e)
      in \<lparr>ex_key = (case entry of Some e \<Rightarrow> Some (dc_key e) | None \<Rightarrow> klass), ex_class = klass, ex_code = found\<rparr>)"

lemma enhanced_code_class: "enhanced_code x \<Longrightarrow> \<exists>c w. x = c # w \<and> CODE_CLASSES c \<noteq> None"
  by (auto simp: enhanced_code_def)

section \<open>Addresses and diagnostics\<close>

definition DIAGNOSTIC_MAX :: nat where "DIAGNOSTIC_MAX = 300"

definition trimDiagnostic :: "string option \<Rightarrow> string option" where
  "trimDiagnostic t = (let flat = js_trim (fold_spaces (case t of Some x \<Rightarrow> x | None \<Rightarrow> '''')) in
     if flat = '''' then None
     else if length flat > DIAGNOSTIC_MAX then Some (take (DIAGNOSTIC_MAX - 1) flat @ [CHR 0x85])
     else Some flat)"

definition addressOf :: "string option \<Rightarrow> string option" where
  "addressOf v =
     (let txt = js_trim (case v of Some x \<Rightarrow> x | None \<Rightarrow> '''');
          address = js_lower (js_trim (case angle_part txt of Some a \<Rightarrow> a | None \<Rightarrow> txt))
      in case last_index CHR ''@'' address of
           None \<Rightarrow> None
         | Some i \<Rightarrow> if 0 < i \<and> i < length address - 1 then Some address else None)"

lemma addressOf_lower: "addressOf v = Some a \<Longrightarrow> js_lower a = a \<and> js_trim a = a"
  by (auto simp: addressOf_def Let_def split: option.splits if_splits)

lemma addressOf_again:
  assumes "addressOf v = Some a"
  shows "addressOf (Some a) = Some a"
proof -
  let ?txt = "js_trim (case v of Some x \<Rightarrow> x | None \<Rightarrow> '''')"
  let ?raw = "case angle_part ?txt of Some b \<Rightarrow> b | None \<Rightarrow> ?txt"
  have a: "a = js_lower (js_trim ?raw)" and i: "\<exists>i. last_index CHR ''@'' a = Some i \<and> 0 < i \<and> i < length a - 1"
    using assms by (auto simp: addressOf_def Let_def split: option.splits if_splits)
  have "angle_part a = None"
  proof (cases "angle_part ?txt")
    case None
    then have "a = js_lower ?txt" using a by simp
    then show ?thesis using None by (simp add: angle_part_lower)
  next
    case (Some b)
    then have "CHR ''>'' \<notin> set b" using angle_part_inner by blast
    moreover have "set (js_trim b) \<subseteq> set b"
      unfolding js_trim_def by (metis set_dropWhileD set_rev subsetI)
    ultimately have "CHR ''>'' \<notin> set (js_lower (js_trim b))"
      by (auto simp: js_lower_def dest: sym [THEN js_lower_char_is [THEN iffD1, rotated]])
    then show ?thesis using a Some by (intro angle_part_needs) simp
  qed
  then show ?thesis using a i addressOf_lower [OF assms] by (auto simp: addressOf_def Let_def)
qed

section \<open>The recipients an outgoing server refused\<close>

text \<open>
  What nodemailer resolves with: \<open>info.rejected\<close>, strings or address objects, and
  \<open>info.rejectedErrors\<close>. A missing list is the empty one.
\<close>

datatype recipient_value = RText string | RObject "string option"

record rejected_error =
  re_recipient :: "string option"
  re_response :: "string option"
  re_code :: "int option"

record refused =
  rf_recipient :: string
  rf_status :: "string option"
  rf_diagnostic :: "string option"
  rf_response :: "int option"

definition recipient_text :: "recipient_value \<Rightarrow> string option" where
  "recipient_text v = (case v of RText s \<Rightarrow> Some s | RObject s \<Rightarrow> s)"

definition refused_row :: "rejected_error list \<Rightarrow> string \<Rightarrow> refused" where
  "refused_row errors r =
     (let e = find (\<lambda>e. addressOf (re_recipient e) = Some r) errors;
          reply = trimDiagnostic (case e of Some x \<Rightarrow> re_response x | None \<Rightarrow> None);
          code = (case e of Some x \<Rightarrow> re_code x | None \<Rightarrow> None)
      in \<lparr>rf_recipient = r,
          rf_status = (case statusCodeIn reply of Some x \<Rightarrow> Some x
             | None \<Rightarrow> (case code of Some n \<Rightarrow> if n = 0 then None else Some (int_text n) | None \<Rightarrow> None)),
          rf_diagnostic = reply, rf_response = code\<rparr>)"

fun refused_loop :: "rejected_error list \<Rightarrow> string list \<Rightarrow> recipient_value list \<Rightarrow> refused list" where
  "refused_loop errors seen [] = []"
| "refused_loop errors seen (v # vs) =
     (case addressOf (recipient_text v) of
        None \<Rightarrow> refused_loop errors seen vs
      | Some r \<Rightarrow> if r \<in> set seen then refused_loop errors seen vs
                  else refused_row errors r # refused_loop errors (r # seen) vs)"

definition refusedRecipients :: "recipient_value list \<Rightarrow> rejected_error list \<Rightarrow> refused list" where
  "refusedRecipients rejected errors = refused_loop errors [] rejected"

lemma refused_row_recipient [simp]: "rf_recipient (refused_row errors r) = r"
  by (simp add: refused_row_def Let_def)

lemma refused_loop_set:
  "rf_recipient ` set (refused_loop errors seen vs)
     = {r. \<exists>v\<in>set vs. addressOf (recipient_text v) = Some r} - set seen"
  by (induction vs arbitrary: seen) (auto split: option.splits)

lemma refused_loop_distinct: "distinct (map rf_recipient (refused_loop errors seen vs))"
proof (induction vs arbitrary: seen)
  case (Cons v vs)
  have "r \<notin> rf_recipient ` set (refused_loop errors (r # seen) vs)" for r
    by (simp add: refused_loop_set)
  then show ?case using Cons by (auto split: option.splits)
qed simp

end
