(* ===== verification/SendQueue.thy ===== *)
theory SendQueue
  imports SendLetter SendDelivery DeliveryCodes
begin

text \<open>
  Undo send and send later: what \<open>backend/src/services/sendQueue.js\<close> does around the job of
  a letter: enqueue, repeat of a request, listing, cancel (undo, edit, discard), reschedule and
  resend. The handler that sends is in \<open>SendHandler\<close>. A function that reads the job before it
  writes takes the database at each of its statements (\<open>db0\<close> at the read, \<open>db\<close> at the
  write, \<open>db2\<close> at a read after a refused write), since other workers run in between. What it
  records and broadcasts besides is a list of \<open>notice\<close>s.
\<close>

section \<open>Settings\<close>

definition SEND_JOB_KIND :: string where "SEND_JOB_KIND = ''send_message''"
definition SEND_UNDO_WINDOW_MS :: int where "SEND_UNDO_WINDOW_MS = 5000"
definition PROTON_MAINTENANCE_RETRY_MS :: int where "PROTON_MAINTENANCE_RETRY_MS = 60 * 1000"
definition SEND_LATER_MAX_MS :: int where "SEND_LATER_MAX_MS = 366 * 24 * 60 * 60 * 1000"
definition SEND_MAX_ATTEMPTS :: nat where "SEND_MAX_ATTEMPTS = 5"

definition LISTED_STATUSES :: "job_status list" where
  "LISTED_STATUSES = [Queued, Running, Failed, NeedsAttention]"

definition CANCELLABLE_STATUSES :: "job_status list" where
  "CANCELLABLE_STATUSES = [Queued, Failed, NeedsAttention]"

definition DELIVERED_UNRECORDED :: string where "DELIVERED_UNRECORDED = ''delivered_unrecorded''"
definition NO_RESEND_CODES :: "string list" where "NO_RESEND_CODES = [DELIVERED_UNRECORDED]"

type_synonym db = "letter jobdb"

section \<open>Truth of a JSON value\<close>

fun json_truthy :: "json \<Rightarrow> bool" where
  "json_truthy JNull = False"
| "json_truthy (JBool b) = b"
| "json_truthy (JNum n) = (n \<noteq> 0)"
| "json_truthy (JStr s) = (s \<noteq> '''')"
| "json_truthy (JStrs _) = True"

definition is_scheduled :: "job \<Rightarrow> bool" where
  "is_scheduled j = (case job_payload j ''scheduled'' of Some v \<Rightarrow> json_truthy v | None \<Rightarrow> False)"

definition payload_message_id :: "job \<Rightarrow> string option" where
  "payload_message_id j = (case job_payload j ''messageId'' of Some (JStr s) \<Rightarrow> Some s | _ \<Rightarrow> None)"

definition payload_rejected :: "job \<Rightarrow> string list" where
  "payload_rejected j = (case job_payload j ''rejected'' of Some (JStrs rs) \<Rightarrow> rs | _ \<Rightarrow> [])"

section \<open>The chosen time\<close>

text \<open>\<open>sendAt\<close> of a request: absent (undefined, null or empty), a text, or another value.\<close>

datatype send_at_value = NoTime | TimeText string | OtherTime

datatype send_at_result =
    SendAt "time_ms option"
  | SendAtError string string "time_ms option"

definition digits :: "nat \<Rightarrow> rex" where "digits n = rrep n (RSet js_digit)"

definition ISO_WITH_OFFSET_RE :: rex where
  "ISO_WITH_OFFSET_RE = rseqs [
     digits 4, rlit ''-'', digits 2, rlit ''-'', digits 2, rilit ''T'', digits 2, rlit '':'', digits 2,
     ropt (rseqs [rlit '':'', digits 2,
       ropt (rseqs [rlit ''.'', RSet js_digit, ropt (RSet js_digit), ropt (RSet js_digit)])]),
     RAlt (rilit ''Z'')
       (rseqs [RSet (\<lambda>c. c = CHR ''+'' \<or> c = CHR ''-''), digits 2, rlit '':'', digits 2])]"

text \<open>\<open>Date.parse\<close> of the engine is the parameter \<open>datep\<close>; \<open>None\<close> is NaN.\<close>

definition parseSendAt :: "(string \<Rightarrow> time_ms option) \<Rightarrow> send_at_value \<Rightarrow> time_ms \<Rightarrow> send_at_result" where
  "parseSendAt datep v now = (case v of
     NoTime \<Rightarrow> SendAt None
   | OtherTime \<Rightarrow> SendAtError ''sendAt must be an ISO date and time with a time zone offset'' ''send_at_invalid'' None
   | TimeText s \<Rightarrow>
       if s = '''' then SendAt None
       else (case (if rex_match ISO_WITH_OFFSET_RE s then datep s else None) of
           None \<Rightarrow> SendAtError ''sendAt must be an ISO date and time with a time zone offset'' ''send_at_invalid'' None
         | Some at \<Rightarrow>
             if at \<le> now then SendAtError ''The scheduled time has already passed.'' ''send_at_past'' (Some at)
             else if at - now > SEND_LATER_MAX_MS
             then SendAtError ''A letter can be scheduled at most a year ahead.'' ''send_at_too_far'' None
             else SendAt (Some at)))"

section \<open>Enqueue\<close>

record send_request =
  sr_user :: string
  sr_account :: string
  sr_dedupe :: "string option"
  sr_send_at :: "time_ms option"
  sr_compose :: compose
  sr_mail :: "content mail"

datatype notice =
    AuditQueued nat string string bool
  | AuditCancelled nat "string option" string
  | AuditRescheduled nat "string option" string bool
  | AuditFailed nat "string option" job_status "string option"
  | ScheduledChanged "string option"
  | SendDone nat "string option" "string list" string
  | SendFailed nat "string option" job_status "string option" "string option" "string option" string

definition listedChange :: "job \<Rightarrow> bool" where
  "listedChange j \<longleftrightarrow> is_scheduled j \<or> status j = Failed \<or> status j = NeedsAttention"

definition send_payload :: "send_request \<Rightarrow> payload" where
  "send_payload r = [
     ''scheduled'' \<mapsto> JBool (sr_send_at r \<noteq> None),
     ''messageId'' \<mapsto> JStr (mo_message_id (ml_options (sr_mail r))),
     ''requestedAt'' \<mapsto> (case sr_send_at r of Some t \<Rightarrow> JStr (iso_text t) | None \<Rightarrow> JNull)]"

definition send_args :: "send_request \<Rightarrow> enqueue_args" where
  "send_args r = \<lparr>ea_kind = SEND_JOB_KIND, ea_payload = send_payload r, ea_run_at = sr_send_at r,
     ea_delay = (if sr_send_at r = None then Some SEND_UNDO_WINDOW_MS else None),
     ea_created_by = Some (sr_user r), ea_account = Some (sr_account r), ea_dedupe = sr_dedupe r,
     ea_max_attempts = Some SEND_MAX_ATTEMPTS\<rparr>"

definition enqueueOutgoingSend ::
  "registry \<Rightarrow> send_request \<Rightarrow> time_ms \<Rightarrow> db \<Rightarrow> (string + job option \<times> bool) \<times> notice list \<times> db" where
  "enqueueOutgoingSend reg r t db =
     (case enqueueJob reg (send_args r) t db of
        (Inr (Some j, True), db') \<Rightarrow>
          (Inr (Some j, True),
           AuditQueued (job_id j) (mo_message_id (ml_options (sr_mail r))) (iso_text (run_at j)) (sr_send_at r \<noteq> None)
             # (if listedChange j then [ScheduledChanged (Some (sr_account r))] else []),
           db'\<lparr>letters := letters db' @ [(job_id j, make_letter (sr_compose r) (sr_mail r))]\<rparr>)
      | (res, db') \<Rightarrow> (res, [], db'))"

section \<open>The answer to a send, and a repeated one\<close>

record send_response =
  sp_job :: string
  sp_status :: job_status
  sp_send_at :: string
  sp_due_in :: int
  sp_scheduled :: bool

definition sendJobResponse :: "job \<Rightarrow> time_ms \<Rightarrow> send_response" where
  "sendJobResponse j t = \<lparr>sp_job = nat_text (job_id j), sp_status = status j,
     sp_send_at = iso_text (run_at j), sp_due_in = max 0 (run_at j - t), sp_scheduled = is_scheduled j\<rparr>"

definition existingSendJob :: "string option \<Rightarrow> db \<Rightarrow> job option" where
  "existingSendJob key db = (case key of
     None \<Rightarrow> None
   | Some k \<Rightarrow> if k = '''' then None
               else find (\<lambda>j. job_kind j = SEND_JOB_KIND \<and> dedupe_key j = Some k) (jobs db))"

record refusal =
  rl_status :: nat
  rl_error :: string
  rl_code :: string

definition requested_time :: "job \<Rightarrow> string option" where
  "requested_time j = (case job_payload j ''requestedAt'' of
       Some (JStr s) \<Rightarrow> if s = '''' then None else Some s
     | Some _ \<Rightarrow> None
     | None \<Rightarrow> if is_scheduled j then Some (iso_text (run_at j)) else None)"

definition sendRetryConflict :: "(string \<Rightarrow> time_ms option) \<Rightarrow> job \<Rightarrow> time_ms option \<Rightarrow> refusal option" where
  "sendRetryConflict datep j sendAt =
     (if status j = Cancelled
      then Some \<lparr>rl_status = 409, rl_error = ''This letter was cancelled. Send it again from the composer.'',
                 rl_code = ''send_cancelled''\<rparr>
      else let same = (case sendAt of
               Some t \<Rightarrow> (case requested_time j of Some s \<Rightarrow> datep s = Some t | None \<Rightarrow> False)
             | None \<Rightarrow> requested_time j = None)
           in if \<not> same
              then Some \<lparr>rl_status = 409, rl_error = ''This request repeats another send with a different time.'',
                         rl_code = ''idempotency_conflict''\<rparr>
              else None)"

section \<open>Listing\<close>

text \<open>Who asks, and the users as the list joins them.\<close>

record actor =
  ac_user :: string
  ac_admin :: bool

record user_row =
  us_id :: string
  us_email :: "string option"
  us_username :: string

record scheduled_view =
  sv_id :: string
  sv_account :: "string option"
  sv_status :: job_status
  sv_send_at :: string
  sv_scheduled :: bool
  sv_subject :: string
  sv_to :: "string list"
  sv_cc :: "string list"
  sv_bcc :: "string list option"
  sv_attachments :: nat
  sv_author :: "(string \<times> string option) option"
  sv_can_manage :: bool
  sv_error_code :: "string option"
  sv_rejected :: "string list option"
  sv_error :: "string option"
  sv_kept_until :: "string option"
  sv_attempts :: nat
  sv_created_at :: string

definition can_manage :: "actor \<Rightarrow> job \<Rightarrow> bool" where
  "can_manage a j \<longleftrightarrow> ac_admin a \<or> (truthy (created_by j) \<noteq> None \<and> created_by j = Some (ac_user a))"

definition author_email :: "user_row list \<Rightarrow> job \<Rightarrow> string option" where
  "author_email users j = (case created_by j of None \<Rightarrow> None
     | Some u \<Rightarrow> map_option (\<lambda>r. js_or (us_email r) (us_username r)) (find (\<lambda>r. us_id r = u) users))"

definition summary_of :: "db \<Rightarrow> job \<Rightarrow> summary" where
  "summary_of db j = (case letter_of db (job_id j) of
     Some l \<Rightarrow> lt_summary l
   | None \<Rightarrow> \<lparr>su_subject = '''', su_to = [], su_cc = [], su_bcc = [], su_attachments = 0\<rparr>)"

definition summarize :: "user_row list \<Rightarrow> db \<Rightarrow> actor \<Rightarrow> job \<Rightarrow> scheduled_view" where
  "summarize users db a j =
     (let cm = can_manage a j; s = summary_of db j; unsent = (status j = Failed \<or> status j = NeedsAttention)
      in \<lparr>sv_id = nat_text (job_id j), sv_account = account_id j, sv_status = status j,
          sv_send_at = iso_text (run_at j), sv_scheduled = is_scheduled j,
          sv_subject = su_subject s, sv_to = su_to s, sv_cc = su_cc s,
          sv_bcc = (if cm then Some (su_bcc s) else None),
          sv_attachments = su_attachments s,
          sv_author = map_option (\<lambda>u. (u, truthy (author_email users j))) (truthy (created_by j)),
          sv_can_manage = cm, sv_error_code = truthy (error_code j),
          sv_rejected = (if cm \<and> status j = Done \<and> payload_rejected j \<noteq> [] then Some (payload_rejected j) else None),
          sv_error = (if unsent \<or> status j = Queued then truthy (last_error j) else None),
          sv_kept_until = (if unsent then Some (iso_text (updated_at j + JOB_KEPT_FAILED_MS)) else None),
          sv_attempts = attempts j, sv_created_at = iso_text (created_at j)\<rparr>)"

definition listScheduled :: "user_row list \<Rightarrow> string option \<Rightarrow> actor \<Rightarrow> db \<Rightarrow> scheduled_view list" where
  "listScheduled users account a db = map (summarize users db a) (take 500 (sort_key due_key
     (filter (\<lambda>j. job_kind j = SEND_JOB_KIND \<and> status j \<in> set LISTED_STATUSES
                \<and> (account = None \<or> account_id j = account)) (jobs db))))"

definition getScheduled :: "user_row list \<Rightarrow> nat \<Rightarrow> actor \<Rightarrow> db \<Rightarrow> scheduled_view option" where
  "getScheduled users i a db =
     map_option (summarize users db a) (find (\<lambda>j. job_kind j = SEND_JOB_KIND \<and> job_id j = i) (jobs db))"

section \<open>Managing\<close>

definition not_found :: refusal where
  "not_found = \<lparr>rl_status = 404, rl_error = ''Scheduled letter not found'', rl_code = ''not_found''\<rparr>"

definition managedJob :: "nat \<Rightarrow> actor \<Rightarrow> db \<Rightarrow> refusal + job" where
  "managedJob i a db = (case getJob i db of
     None \<Rightarrow> Inl not_found
   | Some j \<Rightarrow>
       if job_kind j \<noteq> SEND_JOB_KIND then Inl not_found
       else if \<not> ac_admin a \<and> created_by j \<noteq> Some (ac_user a)
       then Inl \<lparr>rl_status = 403, rl_error = ''Only the author of this letter or an administrator can change it.'',
                 rl_code = ''not_author''\<rparr>
       else Inr j)"

definition notCancellable :: "job \<Rightarrow> refusal" where
  "notCancellable j =
     (if status j = Running
      then \<lparr>rl_status = 409, rl_error = ''The letter is being sent and can no longer be stopped.'', rl_code = ''send_started''\<rparr>
      else if status j = Done
      then \<lparr>rl_status = 409, rl_error = ''The letter has been sent already.'', rl_code = ''already_sent''\<rparr>
      else \<lparr>rl_status = 409, rl_error = ''The letter is no longer waiting to be sent.'', rl_code = ''not_cancellable''\<rparr>)"

datatype cancel_reason = Undo | Edit | Discard

fun reason_text :: "cancel_reason \<Rightarrow> string" where
  "reason_text Undo = ''undo''" | "reason_text Edit = ''edit''" | "reason_text Discard = ''discard''"

record cancel_result =
  cr_compose :: "compose option"
  cr_send_at :: "string option"

definition never_resent :: "job \<Rightarrow> bool" where
  "never_resent j \<longleftrightarrow> code_in (error_code j) NO_RESEND_CODES"

definition cancelScheduled ::
  "nat \<Rightarrow> actor \<Rightarrow> cancel_reason \<Rightarrow> time_ms \<Rightarrow> db \<Rightarrow> db \<Rightarrow> db
     \<Rightarrow> (refusal + cancel_result) \<times> notice list \<times> db" where
  "cancelScheduled i a reason t db0 db db2 =
     (case managedJob i a db0 of
        Inl e \<Rightarrow> (Inl e, [], db)
      | Inr j \<Rightarrow>
          (case cancelJob i CANCELLABLE_STATUSES t db of
             (None, db') \<Rightarrow> (Inl (notCancellable (case getJob i db2 of Some c \<Rightarrow> c | None \<Rightarrow> j)), [], db')
           | (Some cancelled, db') \<Rightarrow>
               let letter = letter_of db' i;
                   db'' = db'\<lparr>letters := sql_delete (\<lambda>l. fst l = i) (letters db')\<rparr>;
                   outcome = (if never_resent cancelled then Discard else reason);
                   ns = AuditCancelled (job_id j) (payload_message_id j) (reason_text outcome)
                        # (if listedChange j then [ScheduledChanged (account_id j)] else []);
                   keeps = (status j = Queued \<and> is_scheduled j \<and> run_at j > t)
               in (Inr (case letter of
                       Some l \<Rightarrow> if outcome = Discard then \<lparr>cr_compose = None, cr_send_at = None\<rparr>
                                 else \<lparr>cr_compose = Some (restoredCompose l),
                                       cr_send_at = (if keeps then Some (iso_text (run_at j)) else None)\<rparr>
                     | None \<Rightarrow> \<lparr>cr_compose = None, cr_send_at = None\<rparr>), ns, db'')))"

definition reschedule_from :: "bool \<Rightarrow> job_status list" where
  "reschedule_from resend = (if resend then CANCELLABLE_STATUSES else [Queued])"

definition reschedule_patch :: "bool \<Rightarrow> payload" where
  "reschedule_patch resend = (if resend then Map.empty else [''scheduled'' \<mapsto> JBool True])"

definition rescheduleScheduled ::
  "nat \<Rightarrow> actor \<Rightarrow> time_ms \<Rightarrow> bool \<Rightarrow> time_ms \<Rightarrow> db \<Rightarrow> db \<Rightarrow> db
     \<Rightarrow> (refusal + job) \<times> notice list \<times> db" where
  "rescheduleScheduled i a sendAt resend t db0 db db2 =
     (case managedJob i a db0 of
        Inl e \<Rightarrow> (Inl e, [], db)
      | Inr j \<Rightarrow>
          (case rescheduleJob i sendAt (reschedule_from resend) (reschedule_patch resend) NO_RESEND_CODES t db of
             (Some moved, db') \<Rightarrow>
               (Inr moved,
                [AuditRescheduled (job_id j) (payload_message_id j) (iso_text (run_at moved)) resend,
                 ScheduledChanged (account_id j)], db')
           | (None, db') \<Rightarrow>
               let current = (case getJob i db2 of Some c \<Rightarrow> c | None \<Rightarrow> j)
               in (Inl (if status current \<noteq> Queued \<and> never_resent current
                        then \<lparr>rl_status = 409, rl_error = ''The mail server accepted this letter already: it is not sent again.'',
                              rl_code = ''already_delivered''\<rparr>
                        else if \<not> resend \<and> (status current = Failed \<or> status current = NeedsAttention)
                        then \<lparr>rl_status = 409, rl_error = ''The letter was not sent. Confirm sending it again.'',
                              rl_code = ''resend_required''\<rparr>
                        else notCancellable current), [], db')))"

section \<open>Telling the author\<close>

text \<open>
  \<open>onSendSettled\<close>: \<open>given\<close> is the list of refused recipients the handler kept, when it
  did; the letter's subject comes from its summary.
\<close>

definition onSendSettled :: "job \<Rightarrow> string list option \<Rightarrow> db \<Rightarrow> notice list" where
  "onSendSettled j given db =
     (if listedChange j then [ScheduledChanged (account_id j)] else [])
     @ (if status j = Done
        then (case truthy (created_by j) of
            None \<Rightarrow> []
          | Some u \<Rightarrow> [SendDone (job_id j) (account_id j)
              (case given of Some rs \<Rightarrow> rs | None \<Rightarrow> payload_rejected j) u])
        else AuditFailed (job_id j) (payload_message_id j) (status j) (error_code j)
          # (case truthy (created_by j) of
              None \<Rightarrow> []
            | Some u \<Rightarrow> [SendFailed (job_id j) (account_id j) (status j) (error_code j) (last_error j)
                (map_option (\<lambda>l. su_subject (lt_summary l)) (letter_of db (job_id j))) u]))"

end
