(* ===== verification/SendLease.thy ===== *)
theory SendLease
  imports Prelude
begin

text \<open>
  The send lease of the managed Proton worker (\<open>backend/src/services/proton/maintenance.js\<close>):
  a letter is handed over only inside a lease, asked for again while a backup holds the gate, for
  at most \<open>MAINTENANCE_WAIT_MS\<close>. The worker is \<open>ans\<close>: its answer to the k-th request
  and how long that request took.
\<close>

definition MAINTENANCE_WAIT_MS :: int where "MAINTENANCE_WAIT_MS = 120000"
definition MAINTENANCE_POLL_MS :: int where "MAINTENANCE_POLL_MS = 2000"

text \<open>
  A request's answer: the lease id the worker granted (if it named one), \<open>maintenance_busy\<close>, or
  any other failure (a refusal, a timeout, an unreachable worker).
\<close>

datatype worker_answer = Lease "string option" | MaintenanceBusy | WorkerFailed

datatype maintenance_error = Busy | Unavailable

fun maintenance_message :: "maintenance_error \<Rightarrow> string" where
  "maintenance_message Busy = ''Proton maintenance (a backup) is in progress; the letter was not sent yet''"
| "maintenance_message Unavailable = ''The Proton worker is unavailable; the letter was not sent yet''"

text \<open>
  What \<open>acquire\<close> ended with: the lease or the error, whether it cancelled the lease's name with
  the worker, and how many requests it made.
\<close>

record acquired =
  aq_result :: "maintenance_error + string"
  aq_cancelled :: bool
  aq_requests :: nat

function acquire_from ::
  "(nat \<Rightarrow> worker_answer \<times> nat) \<Rightarrow> string \<Rightarrow> time_ms \<Rightarrow> nat \<Rightarrow> time_ms \<Rightarrow> acquired" where
  "acquire_from ans leaseId deadline k now =
     (let (answer, took) = ans k; t = now + int took in
      case answer of
        MaintenanceBusy \<Rightarrow>
          if t + MAINTENANCE_POLL_MS > deadline
          then \<lparr>aq_result = Inl Busy, aq_cancelled = False, aq_requests = Suc k\<rparr>
          else acquire_from ans leaseId deadline (Suc k) (t + MAINTENANCE_POLL_MS)
      | WorkerFailed \<Rightarrow> \<lparr>aq_result = Inl Unavailable, aq_cancelled = True, aq_requests = Suc k\<rparr>
      | Lease l \<Rightarrow>
          if l = Some leaseId
          then \<lparr>aq_result = Inr leaseId, aq_cancelled = False, aq_requests = Suc k\<rparr>
          else \<lparr>aq_result = Inl Unavailable, aq_cancelled = True, aq_requests = Suc k\<rparr>)"
  by pat_completeness auto
termination
  by (relation "measure (\<lambda>(ans, l, deadline, k, now). nat (deadline - now))")
    (auto simp: MAINTENANCE_POLL_MS_def)

declare acquire_from.simps [simp del]

definition acquire :: "(nat \<Rightarrow> worker_answer \<times> nat) \<Rightarrow> string \<Rightarrow> time_ms \<Rightarrow> acquired" where
  "acquire ans leaseId now = acquire_from ans leaseId (now + MAINTENANCE_WAIT_MS) 0 now"

text \<open>
  \<open>release\<close>: two tries, never an error. \<open>withProtonSendLease\<close>: \<open>fn\<close> is what the
  caller does, its result or its error; a lease that was granted is released whatever came of it.
\<close>

definition release_tries :: "bool \<Rightarrow> nat" where
  "release_tries first_failed = (if first_failed then 2 else 1)"

definition withProtonSendLease ::
  "bool \<Rightarrow> (nat \<Rightarrow> worker_answer \<times> nat) \<Rightarrow> string \<Rightarrow> time_ms \<Rightarrow> (unit \<Rightarrow> 'e + 'a)
     \<Rightarrow> (maintenance_error + 'e + 'a) \<times> bool" where
  "withProtonSendLease managed ans leaseId now fn =
     (if \<not> managed then (Inr (fn ()), False)
      else (case aq_result (acquire ans leaseId now) of
              Inl e \<Rightarrow> (Inl e, aq_cancelled (acquire ans leaseId now))
            | Inr _ \<Rightarrow> (Inr (fn ()), True)))"

lemma acquire_from_requests:
  "int (aq_requests (acquire_from ans l deadline k now)) * MAINTENANCE_POLL_MS
     \<le> (int k + 1) * MAINTENANCE_POLL_MS + max 0 (deadline - now)"
proof (induction ans l deadline k now rule: acquire_from.induct)
  case (1 ans l deadline k now)
  obtain answer took where a: "ans k = (answer, took)" by (cases "ans k")
  show ?case
  proof (cases "answer = MaintenanceBusy \<and> \<not> now + int took + MAINTENANCE_POLL_MS > deadline")
    case True
    then have IH: "int (aq_requests (acquire_from ans l deadline (Suc k) (now + int took + MAINTENANCE_POLL_MS)))
        * MAINTENANCE_POLL_MS \<le> (int (Suc k) + 1) * MAINTENANCE_POLL_MS
          + max 0 (deadline - (now + int took + MAINTENANCE_POLL_MS))"
      using "1.IH" [OF a [symmetric] refl refl] a by simp
    show ?thesis
      using True a IH by (subst acquire_from.simps) (simp add: MAINTENANCE_POLL_MS_def algebra_simps)
  next
    case False
    then have "aq_requests (acquire_from ans l deadline k now) = Suc k"
      using a by (subst acquire_from.simps) (auto simp: Let_def split: worker_answer.splits)
    then show ?thesis by (simp add: algebra_simps)
  qed
qed

text \<open>When the answer to a request comes; the polls before it took their time too.\<close>

primrec answered_at :: "(nat \<Rightarrow> worker_answer \<times> nat) \<Rightarrow> time_ms \<Rightarrow> nat \<Rightarrow> time_ms" where
  "answered_at ans now 0 = now + int (snd (ans 0))"
| "answered_at ans now (Suc k) = answered_at ans now k + MAINTENANCE_POLL_MS + int (snd (ans (Suc k)))"

text \<open>What the last answer makes of the lease, and whether its name is cancelled.\<close>

definition lease_ends :: "worker_answer \<Rightarrow> string \<Rightarrow> acquired \<Rightarrow> bool" where
  "lease_ends answer l a \<longleftrightarrow> (if answer = Lease (Some l) then aq_result a = Inr l \<and> \<not> aq_cancelled a
     else if answer = MaintenanceBusy then aq_result a = Inl Busy \<and> \<not> aq_cancelled a
     else aq_result a = Inl Unavailable \<and> aq_cancelled a)"

lemma acquire_from_ends:
  assumes "now + int (snd (ans k)) = answered_at ans start k"
  shows "\<exists>n\<ge>k. aq_requests (acquire_from ans l deadline k now) = Suc n
    \<and> (\<forall>j. k \<le> j \<and> j < n \<longrightarrow> fst (ans j) = MaintenanceBusy \<and> answered_at ans start j + MAINTENANCE_POLL_MS \<le> deadline)
    \<and> (fst (ans n) = MaintenanceBusy \<longrightarrow> deadline < answered_at ans start n + MAINTENANCE_POLL_MS)
    \<and> lease_ends (fst (ans n)) l (acquire_from ans l deadline k now)"
  using assms
proof (induction ans l deadline k now rule: acquire_from.induct)
  case (1 ans l deadline k now)
  obtain answer took where a: "ans k = (answer, took)" by (cases "ans k")
  then have t: "answered_at ans start k = now + int took" using "1.prems" by simp
  show ?case
  proof (cases "answer = MaintenanceBusy \<and> \<not> now + int took + MAINTENANCE_POLL_MS > deadline")
    case True
    let ?now = "now + int took + MAINTENANCE_POLL_MS"
    have e: "acquire_from ans l deadline k now = acquire_from ans l deadline (Suc k) ?now"
      using a True by (subst acquire_from.simps) simp
    obtain n where n: "Suc k \<le> n" "aq_requests (acquire_from ans l deadline (Suc k) ?now) = Suc n"
        "\<forall>j. Suc k \<le> j \<and> j < n \<longrightarrow> fst (ans j) = MaintenanceBusy \<and> answered_at ans start j + MAINTENANCE_POLL_MS \<le> deadline"
        "fst (ans n) = MaintenanceBusy \<longrightarrow> deadline < answered_at ans start n + MAINTENANCE_POLL_MS"
        "lease_ends (fst (ans n)) l (acquire_from ans l deadline (Suc k) ?now)"
      using "1.IH" [OF a [symmetric] refl refl] True a t by auto
    have "fst (ans j) = MaintenanceBusy \<and> answered_at ans start j + MAINTENANCE_POLL_MS \<le> deadline" if "k \<le> j" "j < n" for j
      using n(3) that True a t by (cases "j = k") auto
    then show ?thesis unfolding e using n(1,2,4,5) by (intro exI [of _ n]) simp
  next
    case False
    then show ?thesis
      using a t by (intro exI [of _ k], subst (1 2) acquire_from.simps) (cases answer, auto simp: lease_ends_def)
  qed
qed

end
