(* ===== verification/AtMostOnce.thy ===== *)
theory AtMostOnce
  imports JobWorker
begin

text \<open>
  The contract of an at-most-once job kind and what the queue guarantees for a handler that keeps
  it, whatever the workers, the sweep, crashes and users do in between. \<open>disciplined\<close> is the
  contract of \<open>docs/architecture/job-queue.md\<close>: mark the start right before the irreversible
  step, hand over once, never ask for a retry or give up unless the step certainly had no effect,
  and mark it done only when it certainly had one. \<open>sys_inv\<close> is the invariant behind the
  guarantees: a budget per job (effects so far, runs that may still have one, the row's permission
  to run) never exceeds one more than the times a person had the job run again.
\<close>

section \<open>The contract\<close>

definition may_throw :: "string \<Rightarrow> bool \<Rightarrow> phase \<Rightarrow> thrown \<Rightarrow> bool" where
  "may_throw unrec strict ph e \<longleftrightarrow>
     (case ph of Handed k \<Rightarrow> k = No \<or> thrown_outcome e = None \<or> thrown_outcome e = Some Attention
               | _ \<Rightarrow> True)
   \<and> (strict \<and> map_option (take 64) (thrown_code e) = Some unrec \<longrightarrow> ph = Handed Yes)"

primrec disciplined :: "('q, 'x, 'm) prog \<Rightarrow> ('q + 'x \<Rightarrow> knowledge) \<Rightarrow> string \<Rightarrow> bool \<Rightarrow> phase \<Rightarrow> bool" where
  "disciplined Finish kn unrec strict ph = (strict \<longrightarrow> ph = Handed Yes)"
| "disciplined (Throw e) kn unrec strict ph = may_throw unrec strict ph e"
| "disciplined (ReadLetter k) kn unrec strict ph = (\<forall>l. disciplined (k l) kn unrec strict ph)"
| "disciplined (Ask k) kn unrec strict ph = (\<forall>q. kn (Inl q) \<noteq> Never \<longrightarrow> disciplined (k q) kn unrec strict ph)"
| "disciplined (MarkStarted p) kn unrec strict ph =
     ((ph = Fresh \<or> ph = Started) \<and> disciplined p kn unrec strict Started)"
| "disciplined (Hand k) kn unrec strict ph =
     (ph = Started
      \<and> (\<forall>x. kn (Inr x) \<noteq> Never \<longrightarrow> disciplined (k x) kn unrec strict (Handed (kn (Inr x)))))"
| "disciplined (MarkDone c k) kn unrec strict ph =
     (ph = Handed Yes \<and> (\<forall>b. disciplined (k b) kn unrec strict ph))"
| "disciplined (Complete dropl patch k) kn unrec strict ph =
     ((strict \<longrightarrow> ph = Handed Yes) \<and> patch EFFECT_DONE_KEY = None
      \<and> (\<forall>b. disciplined (k b) kn unrec strict ph))"
| "disciplined (SettleSwept c rej k) kn unrec strict ph =
     (ph = Handed Yes \<and> (\<forall>b. disciplined (k b) kn unrec strict ph))"

lemma may_throw_db_failure [simp]: "may_throw unrec strict ph db_failure"
  by (simp add: may_throw_def db_failure_def split: phase.splits)

lemma disciplined_claim_lost:
  "unrec \<noteq> ''claim_lost'' \<Longrightarrow> ph = Fresh \<or> ph = Started \<Longrightarrow> disciplined (Throw claim_lost_error) kn unrec strict ph"
  by (auto simp: may_throw_def claim_lost_error_def JobError_def)

section \<open>The invariant\<close>

definition w_row :: "job \<Rightarrow> nat" where
  "w_row j = (if status j \<in> {Queued, Failed} \<or> (status j = Running \<and> effect_started_at j = None) then 1 else 0)"

definition w_rows :: "'m jobdb \<Rightarrow> nat \<Rightarrow> nat" where
  "w_rows db i = (case job_of db i of Some j \<Rightarrow> w_row j | None \<Rightarrow> 0)"

definition w_run :: "('q, 'x, 'm) run \<Rightarrow> nat" where
  "w_run r = (case r_phase r of Started \<Rightarrow> 1 | Handed _ \<Rightarrow> if r_acc r then 0 else 1 | _ \<Rightarrow> 0)"

definition w_runs :: "('q, 'x, 'm) run list \<Rightarrow> nat \<Rightarrow> nat" where
  "w_runs rs i = sum_list (map (\<lambda>r. if run_id r = i then w_run r else 0) rs)"

definition token_ok :: "string list \<Rightarrow> job \<Rightarrow> bool" where
  "token_ok uuids j \<longleftrightarrow>
     (case claim_token j of None \<Rightarrow> status j \<noteq> Running
      | Some tok \<Rightarrow> status j = Running \<and> (\<exists>u\<in>set uuids. tok = token_for u (job_id j)))"

definition row_ok :: "string \<Rightarrow> string \<Rightarrow> (nat \<Rightarrow> nat) \<Rightarrow> job \<Rightarrow> bool" where
  "row_ok K unrec effects j \<longleftrightarrow> (job_kind j = K \<longrightarrow>
     (status j = Done \<or> job_payload j EFFECT_DONE_KEY \<noteq> None \<or> error_code j = Some unrec
        \<longrightarrow> effects (job_id j) \<ge> 1))"

definition run_holds :: "('q, 'x, 'm) run \<Rightarrow> job \<Rightarrow> bool" where
  "run_holds r j = holds_claim (run_id r) (run_token r) j"

definition phase_ok :: "job list \<Rightarrow> ('q, 'x, 'm) run \<Rightarrow> bool" where
  "phase_ok js r \<longleftrightarrow> (case r_phase r of
       Fresh \<Rightarrow> \<not> r_effect r \<and> (\<forall>j\<in>set js. run_holds r j \<longrightarrow> effect_started_at j = None)
     | Started \<Rightarrow> r_effect r \<or> (\<exists>e. r_prog r = Throw e)
     | Handed k \<Rightarrow> r_effect r \<and> (k = Yes \<longrightarrow> r_acc r) \<and> (k = No \<longrightarrow> \<not> r_acc r)
     | Over \<Rightarrow> (\<exists>e. r_prog r = Throw e) \<and> (\<forall>j\<in>set js. \<not> run_holds r j))"

definition run_ok ::
  "('q + 'x \<Rightarrow> knowledge) \<Rightarrow> string \<Rightarrow> string \<Rightarrow> ('q, 'x, 'm) sys \<Rightarrow> ('q, 'x, 'm) run \<Rightarrow> bool" where
  "run_ok kn K unrec s r \<longleftrightarrow>
     run_id r < next_id (s_db s)
   \<and> (\<exists>u\<in>set (s_uuids s). claim_token (r_job r) = Some (token_for u (run_id r)))
   \<and> (\<forall>j\<in>set (jobs (s_db s)). job_id j = run_id r \<longrightarrow> job_kind j = job_kind (r_job r))
   \<and> (r_acc r \<longrightarrow> s_effects s (run_id r) \<ge> 1)
   \<and> phase_ok (jobs (s_db s)) r
   \<and> (r_phase r \<noteq> Over \<longrightarrow> disciplined (r_prog r) kn unrec (job_kind (r_job r) = K) (r_phase r))"

lemma run_ok_cong:
  assumes "s_db s = s_db s'" and "s_uuids s = s_uuids s'" and "s_effects s = s_effects s'"
  shows "run_ok kn K unrec s r = run_ok kn K unrec s' r"
  using assms by (simp add: run_ok_def)

definition budget_ok :: "('q, 'x, 'm) sys \<Rightarrow> nat \<Rightarrow> bool" where
  "budget_ok s i \<longleftrightarrow>
     s_effects s i + w_runs (s_runs s) i + w_rows (s_db s) i \<le> 1 + s_resends s i"

definition sys_inv :: "('q + 'x \<Rightarrow> knowledge) \<Rightarrow> string \<Rightarrow> string \<Rightarrow> ('q, 'x, 'm) sys \<Rightarrow> bool" where
  "sys_inv kn K unrec s \<longleftrightarrow>
     distinct (map job_id (jobs (s_db s)))
   \<and> (\<forall>j\<in>set (jobs (s_db s)). job_id j < next_id (s_db s) \<and> token_ok (s_uuids s) j
        \<and> row_ok K unrec (s_effects s) j)
   \<and> (\<forall>r\<in>set (s_runs s). run_ok kn K unrec s r)
   \<and> distinct (map (\<lambda>r. (run_id r, run_token r)) (s_runs s))
   \<and> (\<forall>i. budget_ok s i)
   \<and> (\<forall>i\<ge>next_id (s_db s). s_effects s i = 0 \<and> s_resends s i = 0)"

lemma sys_invD:
  assumes "sys_inv kn K unrec s"
  shows "distinct (map job_id (jobs (s_db s)))"
    and "\<And>j. j \<in> set (jobs (s_db s)) \<Longrightarrow> job_id j < next_id (s_db s)"
    and "\<And>j. j \<in> set (jobs (s_db s)) \<Longrightarrow> token_ok (s_uuids s) j"
    and "\<And>j. j \<in> set (jobs (s_db s)) \<Longrightarrow> row_ok K unrec (s_effects s) j"
    and "\<And>r. r \<in> set (s_runs s) \<Longrightarrow> run_ok kn K unrec s r"
    and "distinct (map (\<lambda>r. (run_id r, run_token r)) (s_runs s))"
    and "\<And>i. budget_ok s i"
    and "\<And>i. i \<ge> next_id (s_db s) \<Longrightarrow> s_effects s i = 0 \<and> s_resends s i = 0"
  using assms by (auto simp: sys_inv_def)

lemma sys_inv_init: "sys_inv kn K unrec init_sys"
  by (simp add: sys_inv_def init_sys_def budget_ok_def w_runs_def w_rows_def job_of_def row_by_Nil)

lemma w_runs_append [simp]: "w_runs (xs @ ys) i = w_runs xs i + w_runs ys i"
  by (simp add: w_runs_def)

lemma w_runs_Nil [simp]: "w_runs [] i = 0"
  by (simp add: w_runs_def)

lemma w_runs_Cons [simp]: "w_runs (r # rs) i = (if run_id r = i then w_run r else 0) + w_runs rs i"
  by (simp add: w_runs_def)

lemma job_of_in:
  "distinct (map job_id (jobs db)) \<Longrightarrow> j \<in> set (jobs db) \<Longrightarrow> job_of db (job_id j) = Some j"
  by (simp add: job_of_def row_by_in)

lemma job_of_SomeD: "job_of db i = Some j \<Longrightarrow> j \<in> set (jobs db) \<and> job_id j = i"
  unfolding job_of_def by (rule row_by_SomeD)

lemma w_rows_in: "distinct (map job_id (jobs db)) \<Longrightarrow> j \<in> set (jobs db) \<Longrightarrow> w_rows db (job_id j) = w_row j"
  by (simp add: w_rows_def job_of_in)

lemma job_of_update:
  assumes "\<And>j. job_id (f j) = job_id j" and "jobs db' = sql_update p f (jobs db)"
  shows "job_of db' i = map_option (\<lambda>j. if p j then f j else j) (job_of db i)"
  using assms by (simp add: job_of_def row_by_update)

lemma w_rows_update_le:
  assumes "\<And>j. job_id (f j) = job_id j" and "jobs db' = sql_update p f (jobs db)"
    and "\<And>j. j \<in> set (jobs db) \<Longrightarrow> p j \<Longrightarrow> job_id j = i \<Longrightarrow> w_row (f j) \<le> w_row j"
  shows "w_rows db' i \<le> w_rows db i"
proof (cases "job_of db i")
  case None
  then show ?thesis by (simp add: w_rows_def job_of_update [OF assms(1,2)])
next
  case (Some j)
  then have "j \<in> set (jobs db)" and "job_id j = i"
    by (auto simp: job_of_def dest: row_by_SomeD)
  with Some assms(3) show ?thesis by (simp add: w_rows_def job_of_update [OF assms(1,2)])
qed

lemma in_sql_updateE:
  assumes "x \<in> set (sql_update p f t)"
  obtains j where "j \<in> set t" and "p j" and "x = f j" | "x \<in> set t" and "\<not> p x"
  using assms by (auto simp: sql_update_def split: if_splits)

lemma w_rows_le1: "w_rows db i \<le> 1"
  by (simp add: w_rows_def w_row_def split: option.splits)

lemma phase_ok_mono:
  assumes "phase_ok js r" and "\<And>j. j \<in> set js' \<Longrightarrow> run_holds r j \<Longrightarrow> j \<in> set js"
  shows "phase_ok js' r"
proof (cases "r_phase r")
  case Fresh
  with assms show ?thesis by (auto simp: phase_ok_def)
next
  case Over
  with assms show ?thesis by (auto simp: phase_ok_def)
qed (use assms(1) in \<open>simp_all add: phase_ok_def\<close>)

lemma phase_ok_update:
  assumes "phase_ok js r"
    and "\<And>j. j \<in> set js' \<Longrightarrow> run_holds r j \<Longrightarrow>
      \<exists>j0\<in>set js. run_holds r j0 \<and> effect_started_at j = effect_started_at j0"
  shows "phase_ok js' r"
  using assms by (cases "r_phase r") (simp_all add: phase_ok_def, metis, metis)

lemma held_before:
  fixes r :: "('q, 'x, 'm) run"
  assumes "j \<in> set (sql_update p f js)" and "run_holds r j"
    and "\<And>j. j \<in> set js \<Longrightarrow> p j \<Longrightarrow> run_holds r (f j) \<Longrightarrow>
      run_holds r j \<and> effect_started_at (f j) = effect_started_at j"
  shows "\<exists>j0\<in>set js. run_holds r j0 \<and> effect_started_at j = effect_started_at j0"
  using assms(1)
proof (cases rule: in_sql_updateE)
  case (1 j0)
  then show ?thesis using assms(2,3) by blast
next
  case 2
  then show ?thesis using assms(2) by blast
qed

section \<open>One step of a run, in general\<close>

text \<open>
  Every step of a run updates rows of its own job and goes on as \<open>r'\<close> or ends. What has to be
  checked of it: the rows it writes, its own budget, and that no other run gains a claim.
\<close>

lemma inv_run_step:
  fixes s :: "('q, 'x, 'm) sys"
  defines "db \<equiv> s_db s"
  assumes inv: "sys_inv kn K unrec s"
    and runs: "s_runs s = xs @ r # ys"
    and jobs: "jobs db' = sql_update p f (jobs db)" and nxt: "next_id db' = next_id db"
    and fid: "\<And>j. job_id (f j) = job_id j" and fkind: "\<And>j. job_kind (f j) = job_kind j"
    and pid: "\<And>j. j \<in> set (jobs db) \<Longrightarrow> p j \<Longrightarrow> job_id j = run_id r"
    and tok: "\<And>j. j \<in> set (jobs db) \<Longrightarrow> p j \<Longrightarrow> token_ok (s_uuids s) (f j)"
    and others: "\<And>j r1. j \<in> set (jobs db) \<Longrightarrow> p j \<Longrightarrow> r1 \<in> set xs \<union> set ys \<Longrightarrow> run_holds r1 (f j) \<Longrightarrow>
      run_holds r1 j \<and> effect_started_at (f j) = effect_started_at j"
    and eff: "eff' = (s_effects s)(run_id r := e')" and ge: "e' \<ge> s_effects s (run_id r)"
    and rows: "\<And>j. j \<in> set (jobs db) \<Longrightarrow> p j \<Longrightarrow> row_ok K unrec eff' (f j)"
    and budget: "e' + (case r' of Some r1 \<Rightarrow> w_run r1 | None \<Rightarrow> 0) + w_rows db' (run_id r)
        \<le> s_effects s (run_id r) + w_run r + w_rows db (run_id r)"
    and ok: "\<And>r1. r' = Some r1 \<Longrightarrow> r_job r1 = r_job r
        \<and> run_ok kn K unrec (s\<lparr>s_db := db', s_effects := eff'\<rparr>) r1"
  shows "sys_inv kn K unrec (s\<lparr>s_db := db',
     s_runs := xs @ (case r' of None \<Rightarrow> [] | Some r1 \<Rightarrow> [r1]) @ ys, s_effects := eff'\<rparr>)"
    (is "sys_inv _ _ _ ?s'")
proof -
  note D = sys_invD [OF inv]
  have ids: "map job_id (jobs db') = map job_id (jobs db)"
    unfolding jobs by (rule map_key_update) (rule fid)
  have effge: "eff' i \<ge> s_effects s i" for i
    using eff ge by simp
  have r_id: "run_id r1 = run_id r \<and> run_token r1 = run_token r" if "r' = Some r1" for r1
    using ok [OF that] by (simp add: run_id_def run_token_def)
  have rin: "r \<in> set (s_runs s)" using runs by simp
  have rlt: "run_id r < next_id db"
    using D(5) [OF rin] by (simp add: run_ok_def db_def)
  have row_new: "job_id j < next_id db' \<and> token_ok (s_uuids s) j \<and> row_ok K unrec eff' j"
    if "j \<in> set (jobs db')" for j
    using that unfolding jobs
  proof (cases rule: in_sql_updateE)
    case (1 j0)
    then show ?thesis using D(2) nxt fid tok rows by (simp add: db_def)
  next
    case 2
    then have "row_ok K unrec (s_effects s) j" using D(4) by (simp add: db_def)
    then have "row_ok K unrec eff' j"
      using effge [of "job_id j"] by (auto simp: row_ok_def)
    then show ?thesis using 2 D(2,3) nxt by (simp add: db_def)
  qed
  have kind_old: "\<exists>j0\<in>set (jobs db). job_id j0 = job_id j \<and> job_kind j0 = job_kind j" if "j \<in> set (jobs db')" for j
    using that unfolding jobs by (cases rule: in_sql_updateE) (auto simp: fid fkind)
  have other_ok: "run_ok kn K unrec ?s' r1" if "r1 \<in> set xs \<union> set ys" for r1
  proof -
    have old: "run_ok kn K unrec s r1" using D(5) runs that by auto
    have "phase_ok (jobs db) r1" using old by (simp add: run_ok_def db_def)
    then have "phase_ok (jobs db') r1"
      unfolding jobs by (rule phase_ok_update) (erule (1) held_before, rule others [OF _ _ that])
    moreover have "r_acc r1 \<longrightarrow> eff' (run_id r1) \<ge> 1"
      using old effge [of "run_id r1"] by (auto simp: run_ok_def)
    moreover have "\<forall>j\<in>set (jobs db'). job_id j = run_id r1 \<longrightarrow> job_kind j = job_kind (r_job r1)"
      using old kind_old by (fastforce simp: run_ok_def db_def)
    ultimately show ?thesis using old nxt by (simp add: run_ok_def db_def)
  qed
  have own_ok: "run_ok kn K unrec ?s' r1" if "r' = Some r1" for r1
  proof -
    have "run_ok kn K unrec (s\<lparr>s_db := db', s_effects := eff'\<rparr>) r1" using ok [OF that] by simp
    then show ?thesis by (simp add: run_ok_def)
  qed
  have w_other: "w_rows db' i \<le> w_rows db i" if "i \<noteq> run_id r" for i
    using that pid by (intro w_rows_update_le [OF fid jobs]) auto
  have bud: "budget_ok ?s' i" for i
  proof (cases "i = run_id r")
    case True
    have "budget_ok s i" by (rule D(7))
    with True budget r_id runs eff show ?thesis
      by (auto simp: budget_ok_def db_def split: option.splits)
  next
    case False
    have "budget_ok s i" by (rule D(7))
    with False w_other [OF False] r_id runs eff show ?thesis
      by (auto simp: budget_ok_def db_def split: option.splits)
  qed
  have dist: "distinct (map (\<lambda>r. (run_id r, run_token r)) (s_runs ?s'))"
    using D(6) runs r_id by (cases r') auto
  have zero: "eff' i = 0 \<and> s_resends s i = 0" if "i \<ge> next_id db" for i
    using D(8) that rlt eff by (simp add: db_def)
  show ?thesis
    unfolding sys_inv_def
    using D(1) ids row_new other_ok own_ok bud dist zero nxt
    by (auto simp: db_def split: option.splits)
qed

section \<open>Steps that are not a run's\<close>

lemma run_ok_rows:
  assumes "run_ok kn K unrec s r"
    and "next_id (s_db s') \<ge> next_id (s_db s)" and "set (s_uuids s) \<subseteq> set (s_uuids s')"
    and "s_effects s' = s_effects s"
    and "\<And>j. j \<in> set (jobs (s_db s')) \<Longrightarrow> job_id j = run_id r \<Longrightarrow>
      \<exists>j0\<in>set (jobs (s_db s)). job_id j0 = job_id j \<and> job_kind j0 = job_kind j"
    and "phase_ok (jobs (s_db s')) r"
  shows "run_ok kn K unrec s' r"
  using assms by (fastforce simp: run_ok_def)

lemma inv_update:
  fixes s :: "('q, 'x, 'm) sys"
  defines "db \<equiv> s_db s"
  assumes inv: "sys_inv kn K unrec s"
    and jobs: "jobs db' = sql_update p f (jobs db)" and nxt: "next_id db' = next_id db"
    and fid: "\<And>j. job_id (f j) = job_id j" and fkind: "\<And>j. job_kind (f j) = job_kind j"
    and tok: "\<And>j. j \<in> set (jobs db) \<Longrightarrow> p j \<Longrightarrow> token_ok (s_uuids s) (f j)"
    and holds: "\<And>j (r :: ('q, 'x, 'm) run). r \<in> set (s_runs s) \<Longrightarrow> j \<in> set (jobs db) \<Longrightarrow> p j \<Longrightarrow> run_holds r (f j) \<Longrightarrow>
      run_holds r j \<and> effect_started_at (f j) = effect_started_at j"
    and rows: "\<And>j. j \<in> set (jobs db) \<Longrightarrow> p j \<Longrightarrow> row_ok K unrec (s_effects s) (f j)"
    and res: "\<And>i. w_rows db' i + s_resends s i \<le> w_rows db i + res' i"
    and zero: "\<And>i. i \<ge> next_id db \<Longrightarrow> res' i = 0"
  shows "sys_inv kn K unrec (s\<lparr>s_db := db', s_resends := res'\<rparr>)"
    (is "sys_inv _ _ _ ?s'")
proof -
  note D = sys_invD [OF inv]
  have ids: "map job_id (jobs db') = map job_id (jobs db)"
    unfolding jobs by (rule map_key_update) (rule fid)
  have row_new: "job_id j < next_id db' \<and> token_ok (s_uuids s) j \<and> row_ok K unrec (s_effects s) j"
    if "j \<in> set (jobs db')" for j
    using that unfolding jobs
    by (cases rule: in_sql_updateE) (use D(2-4) nxt fid tok rows in \<open>simp_all add: db_def\<close>)
  have kind_old: "\<exists>j0\<in>set (jobs db). job_id j0 = job_id j \<and> job_kind j0 = job_kind j" if "j \<in> set (jobs db')" for j
    using that unfolding jobs by (cases rule: in_sql_updateE) (auto simp: fid fkind)
  have phase: "phase_ok (jobs db') r" if rin: "r \<in> set (s_runs s)" for r
  proof -
    have old: "phase_ok (jobs db) r" using D(5) [OF rin] by (simp add: run_ok_def db_def)
    then show ?thesis
      unfolding jobs by (rule phase_ok_update) (erule (1) held_before, rule holds [OF rin])
  qed
  have runs_new: "run_ok kn K unrec ?s' r" if "r \<in> set (s_runs s)" for r
  proof (rule run_ok_rows [OF D(5) [OF that]])
    show "\<exists>j0\<in>set (jobs (s_db s)). job_id j0 = job_id j \<and> job_kind j0 = job_kind j"
      if "j \<in> set (jobs (s_db ?s'))" for j
      using kind_old that by (simp add: db_def)
  qed (use nxt phase [OF that] in \<open>simp_all add: db_def\<close>)
  have bud: "budget_ok ?s' i" for i
    using D(7) [of i] res [of i] by (simp add: budget_ok_def db_def)
  show ?thesis
    unfolding sys_inv_def
    using D(1,6,8) ids row_new runs_new bud zero nxt by (auto simp: db_def)
qed

lemma inv_update_same:
  fixes s :: "('q, 'x, 'm) sys"
  defines "db \<equiv> s_db s"
  assumes inv: "sys_inv kn K unrec s"
    and jobs: "jobs db' = sql_update p f (jobs db)" and nxt: "next_id db' = next_id db"
    and fid: "\<And>j. job_id (f j) = job_id j" and fkind: "\<And>j. job_kind (f j) = job_kind j"
    and tok: "\<And>j. j \<in> set (jobs db) \<Longrightarrow> p j \<Longrightarrow> token_ok (s_uuids s) (f j)"
    and holds: "\<And>j (r :: ('q, 'x, 'm) run). r \<in> set (s_runs s) \<Longrightarrow> j \<in> set (jobs db) \<Longrightarrow> p j \<Longrightarrow> run_holds r (f j) \<Longrightarrow>
      run_holds r j \<and> effect_started_at (f j) = effect_started_at j"
    and rows: "\<And>j. j \<in> set (jobs db) \<Longrightarrow> p j \<Longrightarrow> row_ok K unrec (s_effects s) (f j)"
    and weight: "\<And>j. j \<in> set (jobs db) \<Longrightarrow> p j \<Longrightarrow> w_row (f j) \<le> w_row j"
  shows "sys_inv kn K unrec (s\<lparr>s_db := db'\<rparr>)"
proof -
  have "sys_inv kn K unrec (s\<lparr>s_db := db', s_resends := s_resends s\<rparr>)"
  proof (rule inv_update [OF inv jobs [unfolded db_def] nxt [unfolded db_def] fid fkind])
    show "w_rows db' i + s_resends s i \<le> w_rows (s_db s) i + s_resends s i" for i
      using w_rows_update_le [OF fid jobs [unfolded db_def]] weight by (simp add: db_def)
    show "s_resends s i = 0" if "i \<ge> next_id (s_db s)" for i
      using sys_invD(8) [OF inv that] by simp
  qed (use tok holds rows in \<open>simp_all add: db_def\<close>)
  then show ?thesis by simp
qed

lemma inv_remove_run:
  assumes inv: "sys_inv kn K unrec s" and runs: "s_runs s = xs @ r # ys"
  shows "sys_inv kn K unrec (s\<lparr>s_runs := xs @ ys\<rparr>)"
proof -
  note D = sys_invD [OF inv]
  have "run_ok kn K unrec (s\<lparr>s_runs := xs @ ys\<rparr>) r1" if "r1 \<in> set (xs @ ys)" for r1
    using D(5) [of r1] that runs by (auto simp: run_ok_def)
  moreover have "budget_ok (s\<lparr>s_runs := xs @ ys\<rparr>) i" for i
    using D(7) [of i] runs by (simp add: budget_ok_def split: if_splits)
  ultimately show ?thesis
    unfolding sys_inv_def using D(1-4,6,8) runs by auto
qed

lemma inv_next_id:
  assumes inv: "sys_inv kn K unrec s"
    and "jobs db' = jobs (s_db s)" and "next_id db' \<ge> next_id (s_db s)"
  shows "sys_inv kn K unrec (s\<lparr>s_db := db'\<rparr>)"
proof -
  note D = sys_invD [OF inv]
  have "run_ok kn K unrec (s\<lparr>s_db := db'\<rparr>) r" if "r \<in> set (s_runs s)" for r
    using D(5) [OF that] assms(2,3) by (auto simp: run_ok_def)
  moreover have "budget_ok (s\<lparr>s_db := db'\<rparr>) i" for i
    using D(7) [of i] assms(2) by (simp add: budget_ok_def w_rows_def job_of_def)
  moreover have "job_id j < next_id db'" if "j \<in> set (jobs db')" for j
    using D(2) [of j] that assms(2,3) by simp
  ultimately show ?thesis
    unfolding sys_inv_def using D(1,3,4,6,8) assms(2,3) by auto
qed

lemma inv_new_job:
  assumes inv: "sys_inv kn K unrec s"
    and jobs: "jobs db' = jobs (s_db s) @ [j]" and nxt: "next_id db' = Suc (next_id (s_db s))"
    and j: "job_id j = next_id (s_db s)" "status j = Queued" "claim_token j = None" "error_code j = None"
    and pay: "job_kind j = K \<longrightarrow> job_payload j EFFECT_DONE_KEY = None"
  shows "sys_inv kn K unrec (s\<lparr>s_db := db'\<rparr>)"
proof -
  note D = sys_invD [OF inv]
  have new: "job_id j \<notin> job_id ` set (jobs (s_db s))"
    using D(2) j(1) by force
  have run: "run_ok kn K unrec (s\<lparr>s_db := db'\<rparr>) r" if "r \<in> set (s_runs s)" for r
  proof (rule run_ok_rows [OF D(5) [OF that]])
    have rid: "run_id r < next_id (s_db s)" using D(5) [OF that] by (simp add: run_ok_def)
    show "\<exists>j0\<in>set (jobs (s_db s)). job_id j0 = job_id j1 \<and> job_kind j0 = job_kind j1"
      if "j1 \<in> set (jobs (s_db (s\<lparr>s_db := db'\<rparr>)))" and "job_id j1 = run_id r" for j1
      using that jobs rid j(1) by auto
    have "phase_ok (jobs (s_db s)) r" using D(5) [OF that] by (simp add: run_ok_def)
    then show "phase_ok (jobs (s_db (s\<lparr>s_db := db'\<rparr>))) r"
      by (rule phase_ok_mono) (use jobs j in \<open>auto simp: run_holds_def holds_claim_def\<close>)
  qed (use nxt in simp_all)
  have roww: "w_rows db' i \<le> (if i = job_id j then 1 else w_rows (s_db s) i)" for i
  proof (cases "i = job_id j")
    case True
    then show ?thesis using w_rows_le1 [of db' i] by simp
  next
    case False
    then have "job_of db' i = job_of (s_db s) i"
      by (simp add: jobs job_of_def row_by_append row_by_Cons row_by_Nil split: option.splits)
    then show ?thesis using False by (simp add: w_rows_def)
  qed
  have noruns: "w_runs (s_runs s) (job_id j) = 0"
    using D(5) j(1) by (force simp: w_runs_def run_ok_def sum_list_eq_0_iff)
  have bud: "budget_ok (s\<lparr>s_db := db'\<rparr>) i" for i
  proof (cases "i = job_id j")
    case True
    then show ?thesis using roww [of i] noruns D(8) [of i] j(1) by (simp add: budget_ok_def)
  next
    case False
    then show ?thesis using roww [of i] D(7) [of i] by (simp add: budget_ok_def)
  qed
  have "token_ok (s_uuids s) j" and "row_ok K unrec (s_effects s) j"
    using j pay by (simp_all add: token_ok_def row_ok_def)
  moreover have "job_id j1 < Suc (next_id (s_db s))" if "j1 \<in> set (jobs (s_db s))" for j1
    using D(2) [OF that] by simp
  ultimately show ?thesis
    unfolding sys_inv_def using D(1,3,4,6,8) new run bud jobs nxt j(1) by auto
qed

lemma inv_delete_jobs:
  assumes inv: "sys_inv kn K unrec s"
    and jobs: "jobs db' = sql_delete p (jobs (s_db s))" and nxt: "next_id db' = next_id (s_db s)"
  shows "sys_inv kn K unrec (s\<lparr>s_db := db'\<rparr>)"
proof -
  note D = sys_invD [OF inv]
  have sub: "set (jobs db') \<subseteq> set (jobs (s_db s))" by (simp add: jobs set_sql_delete)
  have run: "run_ok kn K unrec (s\<lparr>s_db := db'\<rparr>) r" if "r \<in> set (s_runs s)" for r
  proof (rule run_ok_rows [OF D(5) [OF that]])
    have "phase_ok (jobs (s_db s)) r" using D(5) [OF that] by (simp add: run_ok_def)
    then show "phase_ok (jobs (s_db (s\<lparr>s_db := db'\<rparr>))) r"
      by (rule phase_ok_mono) (use sub in auto)
  qed (use nxt sub in auto)
  have "w_rows db' i \<le> w_rows (s_db s) i" for i
    using D(1) by (auto simp: w_rows_def job_of_def jobs row_by_delete split: option.splits)
  then have bud: "budget_ok (s\<lparr>s_db := db'\<rparr>) i" for i
    using D(7) [of i] by (simp add: budget_ok_def) (meson add_left_mono le_trans)
  show ?thesis
    unfolding sys_inv_def
    using distinct_delete [OF D(1)] D(2,3,4,6,8) sub run bud jobs nxt by auto
qed

section \<open>Claims, and every step that is not a run's\<close>

lemma holds_token_used:
  assumes "run_ok kn K unrec s r" and "run_holds r j" and "claim_token j = Some (token_for uuid (job_id j))"
  shows "uuid \<in> set (s_uuids s)"
proof -
  obtain u where "u \<in> set (s_uuids s)" and "claim_token (r_job r) = Some (token_for u (run_id r))"
    using assms(1) by (auto simp: run_ok_def)
  moreover from this(2) have "run_token r = token_for u (run_id r)" by (simp add: run_token_def)
  ultimately show ?thesis
    using assms(2,3) by (auto simp: run_holds_def holds_claim_def token_for_def)
qed

lemma inv_add_runs:
  assumes inv: "sys_inv kn K unrec s"
    and ok: "\<And>r. r \<in> set new \<Longrightarrow> run_ok kn K unrec s r" and w: "\<And>r. r \<in> set new \<Longrightarrow> w_run r = 0"
    and dist: "distinct (map (\<lambda>r. (run_id r, run_token r)) (s_runs s @ new))"
  shows "sys_inv kn K unrec (s\<lparr>s_runs := s_runs s @ new\<rparr>)"
proof -
  note D = sys_invD [OF inv]
  have "run_ok kn K unrec (s\<lparr>s_runs := s_runs s @ new\<rparr>) r" if "r \<in> set (s_runs s @ new)" for r
    using D(5) [of r] ok [of r] that by (auto simp: run_ok_def)
  moreover have "w_runs new i = 0" for i
    using w by (auto simp: w_runs_def sum_list_eq_0_iff)
  then have "budget_ok (s\<lparr>s_runs := s_runs s @ new\<rparr>) i" for i
    using D(7) [of i] by (simp add: budget_ok_def)
  ultimately show ?thesis unfolding sys_inv_def using D(1-4,8) dist by auto
qed

lemma inv_add_uuid:
  assumes inv: "sys_inv kn K unrec s"
  shows "sys_inv kn K unrec (s\<lparr>s_uuids := uuid # s_uuids s\<rparr>)"
proof -
  note D = sys_invD [OF inv]
  have "token_ok (uuid # s_uuids s) j" if "j \<in> set (jobs (s_db s))" for j
    using D(3) [OF that] by (auto simp: token_ok_def split: option.splits)
  moreover have "run_ok kn K unrec (s\<lparr>s_uuids := uuid # s_uuids s\<rparr>) r" if "r \<in> set (s_runs s)" for r
    using D(5) [OF that] by (auto simp: run_ok_def)
  moreover have "budget_ok (s\<lparr>s_uuids := uuid # s_uuids s\<rparr>) i" for i
    using D(7) [of i] by (simp add: budget_ok_def)
  ultimately show ?thesis unfolding sys_inv_def using D(1,2,4,6,8) by auto
qed

lemma claimed_row_simps [simp]:
  "job_id (claimed_row uuid lease t j) = job_id j"
  "job_kind (claimed_row uuid lease t j) = job_kind j"
  "status (claimed_row uuid lease t j) = Running"
  "claim_token (claimed_row uuid lease t j) = Some (token_for uuid (job_id j))"
  "effect_started_at (claimed_row uuid lease t j) = None"
  "job_payload (claimed_row uuid lease t j) = job_payload j"
  "error_code (claimed_row uuid lease t j) = error_code j"
  by (simp_all add: claimed_row_def)

lemma due_ids_queued:
  assumes "distinct (map job_id (jobs db))" and "j \<in> set (jobs db)" and "job_id j \<in> set (due_ids ks lim lk t db)"
  shows "status j = Queued"
proof -
  obtain j' where j': "j' \<in> set (jobs db)" "status j' = Queued" "job_id j' = job_id j"
    using assms(3) by (auto simp: due_ids_def dest!: in_set_takeD)
  have "j' = j" using assms(1,2) j'(1,3) by (metis job_of_in option.inject)
  with j' show ?thesis by simp
qed

lemma start_run_simps [simp]:
  "r_job (start_run h j) = j" "run_id (start_run h j) = job_id j" "r_phase (start_run h j) = Fresh"
  "r_acc (start_run h j) = False" "r_prog (start_run h j) = h j" "r_effect (start_run h j) = False"
  "w_run (start_run h j) = 0"
  by (simp_all add: start_run_def run_id_def w_run_def)

lemma inv_claim:
  fixes s :: "('q, 'x, 'm) sys" and h :: "job \<Rightarrow> ('q, 'x, 'm) prog"
  assumes inv: "sys_inv kn K unrec s"
    and h: "\<And>j. disciplined (h j) kn unrec (job_kind j = K) Fresh"
  shows "sys_inv kn K unrec (sys_step reg kn h (EvClaim lim uuid locked) s)"
proof (cases "uuid \<in> set (s_uuids s) \<or> reg = [] \<or> lim < 1")
  case True
  then show ?thesis using inv inv_add_uuid [OF inv, of uuid] by (auto simp: claimDueJobs_def)
next
  case False
  note D = sys_invD [OF inv]
  let ?ids = "due_ids (map fst reg) lim (\<lambda>i. i \<in> set locked) (s_now s) (s_db s)"
  let ?p = "\<lambda>j. job_id j \<in> set ?ids"
  let ?f = "claimed_row uuid JOB_LEASE_MS (s_now s)"
  let ?db = "(s_db s)\<lparr>jobs := sql_update ?p ?f (jobs (s_db s))\<rparr>"
  let ?new = "map (start_run h) (sql_returning ?p ?f (jobs (s_db s)))"
  let ?s1 = "s\<lparr>s_uuids := uuid # s_uuids s\<rparr>"
  have step: "sys_step reg kn h (EvClaim lim uuid locked) s =
      (?s1\<lparr>s_db := ?db\<rparr>)\<lparr>s_runs := s_runs s @ ?new\<rparr>"
    using False by (simp add: claimDueJobs_def Let_def)
  have queued: "status j = Queued" if "j \<in> set (jobs (s_db s))" and "?p j" for j
    using due_ids_queued [OF D(1) that] .
  have nohold: "\<not> run_holds r (?f j)" if "r \<in> set (s_runs s)" for r j
    using holds_token_used [OF D(5) [OF that], of "?f j" uuid] False by auto
  have inv2: "sys_inv kn K unrec (?s1\<lparr>s_db := ?db\<rparr>)"
  proof (rule inv_update_same [OF inv_add_uuid [OF inv]])
    show "row_ok K unrec (s_effects ?s1) (?f j)" if "j \<in> set (jobs (s_db ?s1))" "?p j" for j
      using D(4) [of j] that by (simp add: row_ok_def)
    show "w_row (?f j) \<le> w_row j" if "j \<in> set (jobs (s_db ?s1))" "?p j" for j
      using queued that by (simp add: w_row_def)
  qed (use nohold in \<open>auto simp: token_ok_def\<close>)
  have new_ok: "run_ok kn K unrec (?s1\<lparr>s_db := ?db\<rparr>) r" if r: "r \<in> set ?new" for r
  proof -
    obtain j where j: "j \<in> set (jobs (s_db s))" "?p j" "r = start_run h (?f j)"
      using r by (auto simp: sql_returning_def)
    have in_db: "?f j \<in> set (jobs ?db)" using j by (auto simp: sql_update_def)
    have dist: "distinct (map job_id (jobs ?db))"
      using sys_invD(1) [OF inv2] by simp
    have same: "effect_started_at j1 = None \<and> job_kind j1 = job_kind j"
      if "j1 \<in> set (jobs ?db)" "job_id j1 = job_id j" for j1
    proof -
      have "j1 = ?f j" using that in_db dist by (metis claimed_row_simps(1) job_of_in option.inject)
      then show ?thesis by simp
    qed
    show ?thesis
      using D(2) [OF j(1)] same j(3) h [of "?f j"] by (auto simp: run_ok_def phase_ok_def run_holds_def holds_claim_def)
  qed
  have "distinct (map (\<lambda>r. (run_id r, run_token r)) ?new)"
  proof -
    have "map run_id ?new = map job_id (filter ?p (jobs (s_db s)))"
      by (simp add: sql_returning_def)
    then have "distinct (map run_id ?new)" using D(1) by (simp add: distinct_map_filter)
    then have "distinct (map fst (map (\<lambda>r. (run_id r, run_token r)) ?new))" by (simp add: comp_def)
    then show ?thesis
      using distinct_map [of fst "map (\<lambda>r. (run_id r, run_token r)) ?new"] by blast
  qed
  moreover have "run_token r \<noteq> run_token r'" if rr: "r \<in> set (s_runs s)" "r' \<in> set ?new" "run_id r = run_id r'" for r r'
  proof
    assume eq: "run_token r = run_token r'"
    obtain j where j: "r' = start_run h (?f j)" using rr(2) by (auto simp: sql_returning_def)
    then have "run_holds r (?f j)"
      using eq rr(3) by (simp add: run_holds_def holds_claim_def run_token_def)
    then show False using nohold [OF rr(1)] by simp
  qed
  ultimately have dist: "distinct (map (\<lambda>r. (run_id r, run_token r)) (s_runs s @ ?new))"
    using D(6) by auto
  show ?thesis
    unfolding step using inv_add_runs [OF inv2, of ?new] new_ok dist by fastforce
qed

lemma run_holds_not_running: "status j \<noteq> Running \<Longrightarrow> \<not> run_holds r j"
  by (simp add: run_holds_def holds_claim_def)

lemma inv_clock: "sys_inv kn K unrec s \<Longrightarrow> sys_inv kn K unrec (s\<lparr>s_now := t\<rparr>)"
  by (auto simp: sys_inv_def run_ok_def budget_ok_def)

lemma inv_letters:
  "sys_inv kn K unrec (s\<lparr>s_db := db\<rparr>) \<Longrightarrow> sys_inv kn K unrec (s\<lparr>s_db := db\<lparr>letters := l\<rparr>\<rparr>)"
  by (auto simp: sys_inv_def run_ok_def budget_ok_def w_rows_def job_of_def)

lemma inv_enqueue:
  assumes inv: "sys_inv kn K unrec s"
    and pay: "ea_kind a = K \<longrightarrow> ea_payload a EFFECT_DONE_KEY = None"
  shows "sys_inv kn K unrec (sys_step reg kn h (EvEnqueue a l) s)"
proof -
  let ?db = "s_db s" and ?i = "next_id (s_db s)"
  let ?j = "new_job reg a (s_now s) ?i"

  have bump: "sys_inv kn K unrec (s\<lparr>s_db := ?db\<lparr>next_id := Suc ?i\<rparr>\<rparr>)"
    by (rule inv_next_id [OF inv]) simp_all
  have ins: "sys_inv kn K unrec (s\<lparr>s_db := ?db\<lparr>next_id := Suc ?i, jobs := jobs ?db @ [?j]\<rparr>\<rparr>)"
    by (rule inv_new_job [OF inv, of _ ?j]) (use pay in \<open>simp_all add: new_job_def\<close>)
  show ?thesis
    using inv bump ins inv_letters [OF ins]
    by (auto simp: enqueue_with_letter_def enqueueJob_def Let_def split: option.splits)
qed

lemma inv_cancel:
  assumes inv: "sys_inv kn K unrec s"
  shows "sys_inv kn K unrec (sys_step reg kn h (EvCancel i froms dropl) s)"
proof -
  let ?db = "snd (cancelJob i froms (s_now s) (s_db s))"
  note D = sys_invD [OF inv]
  have "sys_inv kn K unrec (s\<lparr>s_db := ?db\<rparr>)"
  proof (rule inv_update_same [OF inv, of _ "\<lambda>j. job_id j = i \<and> status j \<in> set froms" "cancelled_row (s_now s)"])
    show "row_ok K unrec (s_effects s) (cancelled_row (s_now s) j)" if "j \<in> set (jobs (s_db s))" for j
      using D(4) [OF that] by (auto simp: row_ok_def cancelled_row_def)
  qed (auto simp: cancelJob_def Let_def cancelled_row_def token_ok_def w_row_def run_holds_def holds_claim_def)
  then show ?thesis
    using inv_letters by (fastforce simp: cancel_with_letter_def split: option.splits prod.splits)
qed

lemma inv_reschedule:
  assumes inv: "sys_inv kn K unrec s" and patch: "patch EFFECT_DONE_KEY = None"
  shows "sys_inv kn K unrec (sys_step reg kn h (EvReschedule i at froms patch codes) s)"
proof -
  let ?p = "reschedulable i froms codes" and ?f = "rescheduled_row at patch (s_now s)"
  let ?db = "snd (rescheduleJob i at froms patch codes (s_now s) (s_db s))"
  let ?res = "if is_resend i froms codes (s_db s)
                then (s_resends s)(i := Suc (s_resends s i)) else s_resends s"
  note D = sys_invD [OF inv]
  have jobs: "jobs ?db = sql_update ?p ?f (jobs (s_db s))" and nxt: "next_id ?db = next_id (s_db s)"
    by (simp_all add: rescheduleJob_def Let_def)
  have fid: "job_id (?f j) = job_id j" for j by (simp add: rescheduled_row_def)
  have "sys_inv kn K unrec (s\<lparr>s_db := ?db, s_resends := ?res\<rparr>)"
  proof (rule inv_update [OF inv jobs nxt fid])
    show "row_ok K unrec (s_effects s) (?f j)" if "j \<in> set (jobs (s_db s))" for j
      using D(4) [OF that] patch by (auto simp: row_ok_def rescheduled_row_def)
    show "w_rows ?db i' + s_resends s i' \<le> w_rows (s_db s) i' + ?res i'" for i'
    proof (cases "job_of (s_db s) i'")
      case None
      then show ?thesis by (simp add: w_rows_def job_of_update [OF fid jobs])
    next
      case (Some j)
      have "job_id j = i'" using job_of_SomeD [OF Some] by simp
      then have pj: "?p j \<and> status j \<noteq> Queued \<longleftrightarrow> i' = i \<and> is_resend i froms codes (s_db s)"
        using Some by (auto simp: is_resend_def reschedulable_def)
      have w: "w_rows ?db i' = w_row (if ?p j then ?f j else j)" "w_rows (s_db s) i' = w_row j"
        by (simp_all add: w_rows_def job_of_update [OF fid jobs] Some)
      have q: "w_row (?f j) = 1" by (simp add: w_row_def rescheduled_row_def)
      show ?thesis
      proof (cases "?p j \<and> status j = Queued")
        case True
        then have "w_row j = 1" by (simp add: w_row_def)
        then show ?thesis unfolding w using True q by auto
      next
        case False
        then show ?thesis unfolding w using pj q by auto
      qed
    qed
    show "?res i' = 0" if "i' \<ge> next_id (s_db s)" for i'
    proof -
      have "\<not> is_resend i' froms codes (s_db s)"
        using that D(2) by (force simp: is_resend_def job_of_def dest: row_by_SomeD split: option.splits)
      then show ?thesis using D(8) [OF that] by auto
    qed
  qed (auto simp: rescheduled_row_def token_ok_def run_holds_def holds_claim_def)
  then show ?thesis by simp
qed

lemma inv_sweep:
  assumes inv: "sys_inv kn K unrec s" and unrec: "unrec \<noteq> ''lease_expired''"
  shows "sys_inv kn K unrec (sys_step reg kn h EvSweep s)"
proof -
  let ?db = "snd (sweepExpiredLeases (s_now s) (s_db s))"
  note D = sys_invD [OF inv]
  have "sys_inv kn K unrec (s\<lparr>s_db := ?db\<rparr>)"
  proof (rule inv_update_same [OF inv, of _ "lease_expired (s_now s)" "swept_row (s_now s)"])
    show "row_ok K unrec (s_effects s) (swept_row (s_now s) j)" if "j \<in> set (jobs (s_db s))" for j
      using D(4) [OF that] unrec by (auto simp: row_ok_def swept_row_def effect_done_def split: if_splits)
    show "w_row (swept_row (s_now s) j) \<le> w_row j" if "lease_expired (s_now s) j" for j
      using that by (auto simp: w_row_def swept_row_def lease_expired_def)
  qed (auto simp: sweepExpiredLeases_def swept_row_def token_ok_def run_holds_def holds_claim_def split: if_splits)
  then show ?thesis by simp
qed

lemma inv_cleanup:
  assumes inv: "sys_inv kn K unrec s"
  shows "sys_inv kn K unrec (sys_step reg kn h EvCleanup s)"
  unfolding sys_step.simps
  by (rule inv_delete_jobs [OF inv]) (simp_all add: cleanupFinishedJobs_def Let_def)

lemma inv_account_gone:
  assumes inv: "sys_inv kn K unrec s" and unrec: "unrec \<noteq> ''account_missing''"
  shows "sys_inv kn K unrec (sys_step reg kn h (EvAccountGone acc) s)"
proof -
  note D = sys_invD [OF inv]
  let ?f = "\<lambda>j. j\<lparr>status := Failed, error_code := Some ''account_missing'',
                 last_error := Some ''The mailbox was deleted.'', claim_token := None,
                 lease_until := None, updated_at := s_now s\<rparr>"
  show ?thesis
    unfolding sys_step.simps
  proof (rule inv_update_same [OF inv, of _ "\<lambda>j. account_id j = Some acc \<and> status j = Queued" ?f])
    show "row_ok K unrec (s_effects s) (?f j)" if "j \<in> set (jobs (s_db s))" for j
      using D(4) [OF that] unrec by (auto simp: row_ok_def)
  qed (auto simp: failJobsOfDeletedAccount_def Let_def token_ok_def w_row_def run_holds_def holds_claim_def)
qed

lemma inv_renew:
  assumes inv: "sys_inv kn K unrec s"
  shows "sys_inv kn K unrec (sys_step reg kn h (EvRenew n) s)"
proof -
  note D = sys_invD [OF inv]
  let ?r = "s_runs s ! n"
  let ?f = "\<lambda>j. j\<lparr>lease_until := Some (s_now s + JOB_LEASE_MS), updated_at := s_now s\<rparr>"
  let ?db = "snd (renewLease (run_id ?r) (run_token ?r) JOB_LEASE_MS (s_now s) (s_db s))"
  have "sys_inv kn K unrec (s\<lparr>s_db := ?db\<rparr>)"
  proof (rule inv_update_same [OF inv, of _ "holds_claim (run_id ?r) (run_token ?r)" ?f])
    show "row_ok K unrec (s_effects s) (?f j)" if "j \<in> set (jobs (s_db s))" for j
      using D(4) [OF that] by (auto simp: row_ok_def)
    show "token_ok (s_uuids s) (?f j)" if "j \<in> set (jobs (s_db s))" for j
      using D(3) [OF that] by (auto simp: token_ok_def split: option.splits)
  qed (auto simp: renewLease_def w_row_def run_holds_def holds_claim_def)
  then show ?thesis using inv by auto
qed

lemma runs_split: "n < length rs \<Longrightarrow> rs = take n rs @ rs ! n # drop (Suc n) rs"
  by (rule id_take_nth_drop)

lemma inv_crash:
  assumes inv: "sys_inv kn K unrec s"
  shows "sys_inv kn K unrec (sys_step reg kn h (EvCrash n) s)"
  using inv inv_remove_run [OF inv runs_split] by (auto simp: replace_at_def)

lemma inv_release:
  assumes inv: "sys_inv kn K unrec s"
  shows "sys_inv kn K unrec (sys_step reg kn h (EvRelease n) s)"
proof (cases "n < length (s_runs s) \<and> r_phase (s_runs s ! n) = Fresh")
  case False
  then show ?thesis using inv by auto
next
  case True
  note D = sys_invD [OF inv]
  let ?js = "[r_job (s_runs s ! n)]"
  let ?db = "releaseClaims ?js (s_now s) (s_db s)"
  have "sys_inv kn K unrec (s\<lparr>s_db := ?db\<rparr>)"
  proof (rule inv_update_same [OF inv, of _ "releasable (List.map_filter claim_token ?js)" "released_row (s_now s)"])
    show "row_ok K unrec (s_effects s) (released_row (s_now s) j)" if "j \<in> set (jobs (s_db s))" for j
      using D(4) [OF that] by (auto simp: row_ok_def released_row_def)
    show "w_row (released_row (s_now s) j) \<le> w_row j" if "releasable (List.map_filter claim_token ?js) j" for j
      using that by (auto simp: w_row_def released_row_def releasable_def)
  qed (auto simp: releaseClaims_def Let_def released_row_def token_ok_def run_holds_def holds_claim_def)
  from inv_remove_run [OF this, of "take n (s_runs s)" "s_runs s ! n" "drop (Suc n) (s_runs s)"] True
  show ?thesis by (simp add: replace_at_def runs_split [symmetric])
qed

section \<open>The steps of a run\<close>

text \<open>A run that goes on without a write: \<open>inv_run_step\<close> with no row changed.\<close>

lemma inv_run_prog:
  fixes s :: "('q, 'x, 'm) sys"
  assumes inv: "sys_inv kn K unrec s" and runs: "s_runs s = xs @ r # ys"
    and job: "r_job r1 = r_job r" and ok: "run_ok kn K unrec s r1" and w: "w_run r1 \<le> w_run r"
  shows "sys_inv kn K unrec (s\<lparr>s_runs := xs @ [r1] @ ys\<rparr>)"
proof -
  have "sys_inv kn K unrec (s\<lparr>s_db := s_db s,
      s_runs := xs @ (case Some r1 of None \<Rightarrow> [] | Some r1 \<Rightarrow> [r1]) @ ys, s_effects := s_effects s\<rparr>)"
    by (rule inv_run_step [OF inv runs, where p = "\<lambda>_. False" and f = id and e' = "s_effects s (run_id r)"])
      (use job ok w in \<open>simp_all add: sql_update_def\<close>)
  then show ?thesis by simp
qed

lemma other_run_not_held:
  assumes "distinct (map (\<lambda>r. (run_id r, run_token r)) (xs @ r # ys))"
    and "r1 \<in> set xs \<union> set ys" and "run_holds r j"
  shows "\<not> run_holds r1 j"
  using assms by (auto simp: run_holds_def holds_claim_def image_iff)

text \<open>
  A step that writes through the run's claim (\<open>holds_claim\<close>), the row then ended or still held.
\<close>

lemma inv_claimed_write:
  fixes s :: "('q, 'x, 'm) sys"
  defines "db \<equiv> s_db s"
  assumes inv: "sys_inv kn K unrec s" and runs: "s_runs s = xs @ r # ys"
    and jobs: "jobs db' = sql_update (run_holds r) f (jobs db)" and nxt: "next_id db' = next_id db"
    and fid: "\<And>j. job_id (f j) = job_id j" and fkind: "\<And>j. job_kind (f j) = job_kind j"
    and ftok: "\<And>j. claim_token (f j) = claim_token j \<and> status (f j) = status j
        \<or> claim_token (f j) = None \<and> status (f j) \<noteq> Running"
    and rows: "\<And>j. j \<in> set (jobs db) \<Longrightarrow> run_holds r j \<Longrightarrow> row_ok K unrec (s_effects s) (f j)"
    and weight: "\<And>j. j \<in> set (jobs db) \<Longrightarrow> run_holds r j \<Longrightarrow>
        (case r' of Some r1 \<Rightarrow> w_run r1 | None \<Rightarrow> 0) + w_row (f j) \<le> w_run r + w_row j"
    and weight0: "(\<forall>j\<in>set (jobs db). \<not> run_holds r j) \<Longrightarrow>
        (case r' of Some r1 \<Rightarrow> w_run r1 | None \<Rightarrow> 0) \<le> w_run r"
    and ok: "\<And>r1. r' = Some r1 \<Longrightarrow> r_job r1 = r_job r \<and> run_ok kn K unrec (s\<lparr>s_db := db'\<rparr>) r1"
  shows "sys_inv kn K unrec (s\<lparr>s_db := db', s_runs := xs @ (case r' of None \<Rightarrow> [] | Some r1 \<Rightarrow> [r1]) @ ys\<rparr>)"
proof -
  note D = sys_invD [OF inv]
  have dist: "distinct (map job_id (jobs db))" using D(1) by (simp add: db_def)
  have "sys_inv kn K unrec (s\<lparr>s_db := db', s_runs := xs @ (case r' of None \<Rightarrow> [] | Some r1 \<Rightarrow> [r1]) @ ys,
      s_effects := s_effects s\<rparr>)"
  proof (rule inv_run_step [OF inv runs jobs [unfolded db_def] nxt [unfolded db_def] fid fkind,
        where e' = "s_effects s (run_id r)"])
    show "job_id j = run_id r" if "run_holds r j" for j
      using that by (simp add: run_holds_def holds_claim_def)
    show "token_ok (s_uuids s) (f j)" if "j \<in> set (jobs (s_db s))" for j
      using D(3) [OF that] ftok [of j] fid [of j] by (auto simp: token_ok_def split: option.splits)
    show "run_holds r1 j \<and> effect_started_at (f j) = effect_started_at j"
      if "run_holds r j" "r1 \<in> set xs \<union> set ys" "run_holds r1 (f j)" for j and r1 :: "('q, 'x, 'm) run"
    proof -
      have "run_holds r1 j"
        using that(3) ftok [of j] fid [of j] by (auto simp: run_holds_def holds_claim_def)
      then show ?thesis
        using other_run_not_held [OF D(6) [unfolded runs] that(2,1)] by simp
    qed
    show "s_effects s (run_id r) + (case r' of Some r1 \<Rightarrow> w_run r1 | None \<Rightarrow> 0) + w_rows db' (run_id r)
        \<le> s_effects s (run_id r) + w_run r + w_rows (s_db s) (run_id r)"
    proof (cases "\<exists>j\<in>set (jobs db). run_holds r j")
      case True
      then obtain j where j: "j \<in> set (jobs db)" "run_holds r j" by blast
      then have id: "job_id j = run_id r" by (simp add: run_holds_def holds_claim_def)
      then have "job_of db (run_id r) = Some j" using job_of_in [OF dist j(1)] by simp
      then show ?thesis
        using weight [OF j] j(2) by (simp add: w_rows_def job_of_update [OF fid jobs] flip: db_def)
    next
      case False
      have "w_rows db' (run_id r) \<le> w_rows db (run_id r)"
        by (rule w_rows_update_le [OF fid jobs]) (use False in blast)
      then show ?thesis using weight0 False by (simp add: db_def)
    qed
    show "r_job r1 = r_job r \<and> run_ok kn K unrec (s\<lparr>s_db := db', s_effects := s_effects s\<rparr>) r1" if "r' = Some r1" for r1
      using ok [OF that] by (subst run_ok_cong [where s' = "s\<lparr>s_db := db'\<rparr>"]) simp_all
  qed (use rows in \<open>simp_all add: db_def\<close>)
  then show ?thesis by simp
qed

lemma run_okD:
  assumes "run_ok kn K unrec s r"
  shows "run_id r < next_id (s_db s)"
    and "\<exists>u\<in>set (s_uuids s). claim_token (r_job r) = Some (token_for u (run_id r))"
    and "\<And>j. j \<in> set (jobs (s_db s)) \<Longrightarrow> job_id j = run_id r \<Longrightarrow> job_kind j = job_kind (r_job r)"
    and "r_acc r \<Longrightarrow> s_effects s (run_id r) \<ge> 1"
    and "phase_ok (jobs (s_db s)) r"
    and "r_phase r \<noteq> Over \<Longrightarrow> disciplined (r_prog r) kn unrec (job_kind (r_job r) = K) (r_phase r)"
  using assms by (auto simp: run_ok_def)

text \<open>A run that goes on with a new program after its write.\<close>

lemma run_ok_next:
  assumes "run_ok kn K unrec s r" and "r_job r1 = r_job r" and "next_id (s_db s') = next_id (s_db s)"
    and "s_uuids s' = s_uuids s" and "s_effects s' = s_effects s" and "r_acc r1 = r_acc r"
    and "\<And>j. j \<in> set (jobs (s_db s')) \<Longrightarrow>
      \<exists>j0\<in>set (jobs (s_db s)). job_id j0 = job_id j \<and> job_kind j0 = job_kind j"
    and "phase_ok (jobs (s_db s')) r1"
    and "r_phase r1 \<noteq> Over \<Longrightarrow> disciplined (r_prog r1) kn unrec (job_kind (r_job r) = K) (r_phase r1)"
  shows "run_ok kn K unrec s' r1"
proof -
  have "run_id r1 = run_id r" using assms(2) by (simp add: run_id_def)
  then show ?thesis using assms by (fastforce simp: run_ok_def)
qed

lemma update_kinds:
  assumes "\<And>j. job_id (f j) = job_id j" and "\<And>j. job_kind (f j) = job_kind j"
    and "j \<in> set (sql_update p f js)"
  shows "\<exists>j0\<in>set js. job_id j0 = job_id j \<and> job_kind j0 = job_kind j"
  using assms(3) by (cases rule: in_sql_updateE) (auto simp: assms(1,2))

text \<open>\<open>phase_ok\<close> of a run whose program alone changed, and of one whose claim just ended.\<close>

lemma phase_ok_prog:
  assumes "phase_ok js r" and "r_phase r \<noteq> Over"
    and "r_phase r = Started \<Longrightarrow> r_effect r \<or> (\<exists>e. p = Throw e)"
  shows "phase_ok js (r\<lparr>r_prog := p\<rparr>)"
  using assms by (cases "r_phase r") (auto simp: phase_ok_def run_holds_def run_id_def run_token_def)

lemma phase_ok_ended:
  fixes r :: "('q, 'x, 'm) run"
  assumes "phase_ok js r" and "\<And>j. claim_token (f j) = None"
  shows "phase_ok (sql_update (run_holds r) f js) r"
  by (rule phase_ok_mono [OF assms(1)])
    (auto elim!: in_sql_updateE simp: run_holds_def holds_claim_def assms(2))

lemma settled_row_simps [simp]:
  "job_id (settled_row reg j0 e ef t j) = job_id j"
  "job_kind (settled_row reg j0 e ef t j) = job_kind j"
  "claim_token (settled_row reg j0 e ef t j) = None"
  "job_payload (settled_row reg j0 e ef t j) = job_payload j"
  "error_code (settled_row reg j0 e ef t j) = map_option (take 64) (thrown_code e)"
  "status (settled_row reg j0 e ef t j) = (case outcomeOf j0 e ef of Retry \<Rightarrow> Queued | Fail \<Rightarrow> Failed | Attention \<Rightarrow> NeedsAttention)"
  by (simp_all add: settled_row_def Let_def retried_row_def ended_row_def split: outcome.splits)

lemma outcomeOf_attention:
  "thrown_outcome e = None \<and> ef \<or> thrown_outcome e = Some Attention \<Longrightarrow> outcomeOf j e ef = Attention"
  by (auto simp: outcomeOf_def Let_def)

text \<open>
  Settling the failure of a run: the row regains its permission to run only if the run had it, or
  certainly had no effect.
\<close>

lemma settled_weight:
  assumes ok: "run_ok kn K unrec s r" and prog: "r_prog r = Throw e" and "r_phase r \<noteq> Over"
    and held: "run_holds r j" "j \<in> set (jobs (s_db s))"
  shows "w_row (settled_row reg j0 e (r_effect r) t j) \<le> w_run r + w_row j"
proof -
  have le1: "w_row j' \<le> 1" for j' by (simp add: w_row_def)
  have disc: "may_throw unrec (job_kind (r_job r) = K) (r_phase r) e"
    using run_okD(6) [OF ok] assms(3) prog by simp
  have phase: "phase_ok (jobs (s_db s)) r" by (rule run_okD(5) [OF ok])
  show ?thesis
  proof (cases "r_phase r")
    case Fresh
    then have "effect_started_at j = None" using phase held by (simp add: phase_ok_def)
    then have "w_row j = 1" using held(1) by (simp add: w_row_def run_holds_def holds_claim_def)
    then show ?thesis using le1 [of "settled_row reg j0 e (r_effect r) t j"] by simp
  next
    case Started
    then show ?thesis using le1 [of "settled_row reg j0 e (r_effect r) t j"] by (simp add: w_run_def)
  next
    case (Handed k)
    show ?thesis
    proof (cases "k = No")
      case True
      then have "\<not> r_acc r" using phase Handed by (simp add: phase_ok_def)
      then show ?thesis
        using Handed le1 [of "settled_row reg j0 e (r_effect r) t j"] by (simp add: w_run_def)
    next
      case False
      then have "outcomeOf j0 e (r_effect r) = Attention"
        using disc phase Handed by (intro outcomeOf_attention) (auto simp: may_throw_def phase_ok_def)
      then show ?thesis by (simp add: w_row_def)
    qed
  next
    case Over
    then show ?thesis using assms(3) by simp
  qed
qed

lemma run_holds_eq: "run_holds r = holds_claim (run_id r) (run_token r)"
  by (simp add: run_holds_def fun_eq_iff)

lemma settle_jobs:
  "jobs (snd (settleFailure reg (r_job r) (run_token r) e ef t db)) =
     sql_update (run_holds r) (settled_row reg (r_job r) e ef t) (jobs db)"
  "next_id (snd (settleFailure reg (r_job r) (run_token r) e ef t db)) = next_id db"
  by (simp_all add: settleFailure_def Let_def run_holds_eq run_id_def)

lemma settled_row_ok:
  assumes inv: "sys_inv kn K unrec s" and r: "run_ok kn K unrec s r" and prog: "r_prog r = Throw e"
    and ph: "r_phase r \<noteq> Over" and j: "j \<in> set (jobs (s_db s))" "run_holds r j"
  shows "row_ok K unrec (s_effects s) (settled_row reg (r_job r) e (r_effect r) t j)"
proof -
  have id: "job_id j = run_id r" using j(2) by (simp add: run_holds_def holds_claim_def)
  have kind: "job_kind j = job_kind (r_job r)" using run_okD(3) [OF r j(1) id] .
  have "s_effects s (run_id r) \<ge> 1"
    if "job_kind (r_job r) = K" and "map_option (take 64) (thrown_code e) = Some unrec"
  proof -
    have "r_phase r = Handed Yes"
      using run_okD(6) [OF r ph] prog that by (simp add: may_throw_def)
    then have "r_acc r" using run_okD(5) [OF r] by (simp add: phase_ok_def)
    then show ?thesis by (rule run_okD(4) [OF r])
  qed
  then show ?thesis
    using sys_invD(4) [OF inv j(1)] id kind by (auto simp: row_ok_def split: outcome.splits)
qed

lemma inv_settle_end:
  assumes inv: "sys_inv kn K unrec s" and runs: "s_runs s = xs @ r # ys" and prog: "r_prog r = Throw e"
  shows "sys_inv kn K unrec (s\<lparr>s_db := snd (settleFailure reg (r_job r) (run_token r) e (r_effect r) t (s_db s)),
      s_runs := xs @ ys\<rparr>)"
proof -
  have rin: "r \<in> set (s_runs s)" using runs by simp
  note ok = sys_invD(5) [OF inv rin]
  have over: "\<not> run_holds r j" if "r_phase r = Over" "j \<in> set (jobs (s_db s))" for j
    using run_okD(5) [OF ok] that by (simp add: phase_ok_def)
  have "sys_inv kn K unrec (s\<lparr>s_db := snd (settleFailure reg (r_job r) (run_token r) e (r_effect r) t (s_db s)),
      s_runs := xs @ (case None of None \<Rightarrow> [] | Some r1 \<Rightarrow> [r1]) @ ys\<rparr>)"
  proof (rule inv_claimed_write [OF inv runs settle_jobs])
    show "row_ok K unrec (s_effects s) (settled_row reg (r_job r) e (r_effect r) t j)"
      if "j \<in> set (jobs (s_db s))" "run_holds r j" for j
      using settled_row_ok [OF inv ok prog _ that] over that by blast
    show "(case None of None \<Rightarrow> 0 | Some r1 \<Rightarrow> w_run r1) + w_row (settled_row reg (r_job r) e (r_effect r) t j)
        \<le> w_run r + w_row j"
      if "j \<in> set (jobs (s_db s))" "run_holds r j" for j
      using settled_weight [OF ok prog _ that(2,1)] over that by auto
  qed (auto split: outcome.splits)
  then show ?thesis by simp
qed

lemma inv_settle_again:
  fixes r :: "('q, 'x, 'm) run"
  assumes inv: "sys_inv kn K unrec s" and runs: "s_runs s = xs @ r # ys" and prog: "r_prog r = Throw e"
  shows "sys_inv kn K unrec (s\<lparr>s_db := snd (settleFailure reg (r_job r) (run_token r) e (r_effect r) t (s_db s)),
      s_runs := xs @ [r\<lparr>r_tries := n, r_phase := Over\<rparr>] @ ys\<rparr>)"
    (is "sys_inv _ _ _ (s\<lparr>s_db := ?db, s_runs := xs @ [?r] @ ys\<rparr>)")
proof -
  have rin: "r \<in> set (s_runs s)" using runs by simp
  note ok = sys_invD(5) [OF inv rin]
  have over: "\<not> run_holds r j" if "r_phase r = Over" "j \<in> set (jobs (s_db s))" for j
    using run_okD(5) [OF ok] that by (simp add: phase_ok_def)
  have "sys_inv kn K unrec (s\<lparr>s_db := ?db,
      s_runs := xs @ (case Some ?r of None \<Rightarrow> [] | Some r1 \<Rightarrow> [r1]) @ ys\<rparr>)"
  proof (rule inv_claimed_write [OF inv runs settle_jobs])
    show "row_ok K unrec (s_effects s) (settled_row reg (r_job r) e (r_effect r) t j)"
      if "j \<in> set (jobs (s_db s))" "run_holds r j" for j
      using settled_row_ok [OF inv ok prog _ that] over that by blast
    show "(case Some ?r of None \<Rightarrow> 0 | Some r1 \<Rightarrow> w_run r1) + w_row (settled_row reg (r_job r) e (r_effect r) t j)
        \<le> w_run r + w_row j"
      if "j \<in> set (jobs (s_db s))" "run_holds r j" for j
    proof -
      have "w_run ?r = 0" by (simp add: w_run_def)
      then show ?thesis using settled_weight [OF ok prog _ that(2,1)] over that by auto
    qed
    have held: "run_holds ?r = run_holds r"
      by (simp add: fun_eq_iff run_holds_def run_id_def run_token_def)
    have "\<not> run_holds r j" if "j \<in> set (jobs ?db)" for j
      using that unfolding settle_jobs
      by (auto elim!: in_sql_updateE simp: run_holds_def [of r] holds_claim_def)
    then have "phase_ok (jobs ?db) ?r" using prog by (simp add: phase_ok_def held)
    then show "r_job r1 = r_job r \<and> run_ok kn K unrec (s\<lparr>s_db := ?db\<rparr>) r1" if "Some ?r = Some r1" for r1
      using that update_kinds [of "settled_row reg (r_job r) e (r_effect r) t"]
      by (auto simp: settle_jobs intro!: run_ok_next [OF ok])
  qed (auto split: outcome.splits simp: w_run_def)
  then show ?thesis by simp
qed

lemma inv_throw:
  assumes inv: "sys_inv kn K unrec s" and runs: "s_runs s = xs @ r # ys" and prog: "r_prog r = Throw e"
  shows "sys_inv kn K unrec (s\<lparr>s_db := snd (throw_step reg e ev t r (s_db s)),
      s_runs := xs @ (case fst (throw_step reg e ev t r (s_db s)) of None \<Rightarrow> [] | Some r1 \<Rightarrow> [r1]) @ ys\<rparr>)"
proof -
  have rin: "r \<in> set (s_runs s)" using runs by simp
  note ok = sys_invD(5) [OF inv rin]
  have gone: "sys_inv kn K unrec (s\<lparr>s_db := s_db s, s_runs := xs @ ys\<rparr>)"
    using inv_remove_run [OF inv runs] by simp
  have stay: "sys_inv kn K unrec (s\<lparr>s_db := s_db s, s_runs := xs @ [r] @ ys\<rparr>)"
  proof -
    have "s\<lparr>s_db := s_db s, s_runs := xs @ [r] @ ys\<rparr> = s" using runs by simp
    then show ?thesis using inv by simp
  qed
  have again: "sys_inv kn K unrec (s\<lparr>s_db := s_db s, s_runs := xs @ [r\<lparr>r_tries := n\<rparr>] @ ys\<rparr>)" for n
  proof -
    let ?r = "r\<lparr>r_tries := n\<rparr>"
    have held: "run_holds ?r = run_holds r" and "run_id ?r = run_id r"
      by (simp_all add: fun_eq_iff run_holds_def run_id_def run_token_def)
    moreover have "phase_ok js ?r = phase_ok js r" for js
      by (simp add: phase_ok_def held split: phase.splits)
    ultimately have "run_ok kn K unrec s ?r" using ok by (simp add: run_ok_def)
    then show ?thesis using inv_run_prog [OF inv runs, of ?r] by (simp add: w_run_def)
  qed
  show ?thesis
    using gone stay again [of "Suc (r_tries r)"] inv_settle_end [OF inv runs prog]
      inv_settle_again [OF inv runs prog, where n = "Suc (r_tries r)"]
    by (cases ev; cases "r_effect r") (simp_all add: Let_def)
qed

lemma done_row_simps [simp]:
  "job_id (done_row t j) = job_id j" "job_kind (done_row t j) = job_kind j"
  "claim_token (done_row t j) = None" "status (done_row t j) = Done"
  "job_payload (done_row t j) = job_payload j" "error_code (done_row t j) = None"
  by (simp_all add: done_row_def)

text \<open>\<open>completeJob\<close> as one write through the claim, whatever its transaction adds to the payload.\<close>

definition completed_row :: "payload \<Rightarrow> time_ms \<Rightarrow> job \<Rightarrow> job" where
  "completed_row patch t j = (done_row t j)\<lparr>job_payload := job_payload j ++ patch\<rparr>"

lemma completed_row_simps [simp]:
  "job_id (completed_row patch t j) = job_id j" "job_kind (completed_row patch t j) = job_kind j"
  "claim_token (completed_row patch t j) = None" "status (completed_row patch t j) = Done"
  "job_payload (completed_row patch t j) = job_payload j ++ patch" "error_code (completed_row patch t j) = None"
  by (simp_all add: completed_row_def)

lemma completed_row_empty: "completed_row Map.empty t = done_row t"
  by (rule ext) (simp add: completed_row_def done_row_def)

lemma first_row_None_iff: "first_row (sql_returning p f js) = None \<longleftrightarrow> (\<forall>j\<in>set js. \<not> p j)"
  by (cases "filter p js") (auto simp: first_row_def sql_returning_def filter_empty_conv simp flip: ex_in_conv
      dest: filter_eq_ConsD)

lemma first_row_SomeD: "first_row (sql_returning p f js) = Some x \<Longrightarrow> \<exists>j\<in>set js. p j \<and> x = f j"
  by (auto simp: first_row_def sql_returning_def split: list.splits dest!: filter_eq_ConsD)

lemma complete_jobs:
  assumes dist: "distinct (map job_id (jobs db))"
  shows "jobs (snd (completeJob i tok (complete_fn dropl patch) t db)) =
      sql_update (holds_claim i tok) (completed_row patch t) (jobs db)"
    and "next_id (snd (completeJob i tok (complete_fn dropl patch) t db)) = next_id db"
    and "jobs (snd (completeJob i tok (\<lambda>_ d. d) t db)) = sql_update (holds_claim i tok) (done_row t) (jobs db)"
    and "next_id (snd (completeJob i tok (\<lambda>_ d. d) t db)) = next_id db"
proof -
  let ?h = "holds_claim i tok"
  show "jobs (snd (completeJob i tok (complete_fn dropl patch) t db)) =
      sql_update ?h (completed_row patch t) (jobs db)"
  proof (cases "first_row (sql_returning ?h (done_row t) (jobs db))")
    case None
    then have "\<forall>j\<in>set (jobs db). \<not> ?h j" by (simp add: first_row_None_iff)
    then have "sql_update ?h f (jobs db) = jobs db" for f by (simp add: sql_update_def map_idI)
    then show ?thesis using None by (simp add: completeJob_def Let_def)
  next
    case (Some row)
    then obtain j where j: "j \<in> set (jobs db)" "?h j" "row = done_row t j"
      by (blast dest: first_row_SomeD)
    have only: "?h j1" if "j1 \<in> set (jobs db)" "job_id j1 = job_id row" for j1
      using that j dist by (metis done_row_simps(1) job_of_in option.inject)
    have "sql_update (\<lambda>j. job_id j = job_id row) (\<lambda>j. j\<lparr>job_payload := job_payload j ++ patch\<rparr>)
        (sql_update ?h (done_row t) (jobs db)) = sql_update ?h (completed_row patch t) (jobs db)"
      unfolding sql_update_def map_map
    proof (rule map_cong [OF refl])
      fix j1 assume "j1 \<in> set (jobs db)"
      moreover have "job_id row = i" using j(2,3) by (simp add: holds_claim_def)
      moreover have "job_id j1 = i" if "?h j1" using that by (simp add: holds_claim_def)
      ultimately show "((\<lambda>r. if job_id r = job_id row then r\<lparr>job_payload := job_payload r ++ patch\<rparr> else r) \<circ>
          (\<lambda>r. if ?h r then done_row t r else r)) j1 = (if ?h j1 then completed_row patch t j1 else j1)"
        using only [of j1] by (cases "?h j1") (auto simp: completed_row_def)
    qed
    then show ?thesis using Some by (simp add: completeJob_def Let_def complete_fn_def)
  qed
qed (simp_all add: completeJob_def Let_def complete_fn_def split: option.splits)

lemma handed_yes_effect:
  assumes ok: "run_ok kn K unrec s r" and "r_phase r = Handed Yes"
  shows "s_effects s (run_id r) \<ge> 1"
  using run_okD(4,5) [OF ok] assms(2) by (simp add: phase_ok_def)

text \<open>A run that completes its job, as its end or on the way.\<close>

lemma inv_complete:
  fixes r :: "('q, 'x, 'm) run"
  assumes inv: "sys_inv kn K unrec s" and runs: "s_runs s = xs @ r # ys" and ph: "r_phase r \<noteq> Over"
    and strict: "job_kind (r_job r) = K \<Longrightarrow> r_phase r = Handed Yes"
    and jobs: "jobs db' = sql_update (run_holds r) (completed_row patch t) (jobs (s_db s))"
    and nxt: "next_id db' = next_id (s_db s)" and patch: "patch EFFECT_DONE_KEY = None"
    and r': "\<And>r1. r' = Some r1 \<Longrightarrow> \<exists>p c. r1 = r\<lparr>r_prog := p, r_completed := c\<rparr>
        \<and> disciplined p kn unrec (job_kind (r_job r) = K) (r_phase r)
        \<and> (r_phase r = Started \<longrightarrow> r_effect r \<or> (\<exists>e. p = Throw e))"
  shows "sys_inv kn K unrec (s\<lparr>s_db := db', s_runs := xs @ (case r' of None \<Rightarrow> [] | Some r1 \<Rightarrow> [r1]) @ ys\<rparr>)"
proof (rule inv_claimed_write [OF inv runs jobs nxt])
  have rin: "r \<in> set (s_runs s)" using runs by simp
  note ok = sys_invD(5) [OF inv rin]
  show "row_ok K unrec (s_effects s) (completed_row patch t j)"
    if j: "j \<in> set (jobs (s_db s))" "run_holds r j" for j
  proof -
    have id: "job_id j = run_id r" using j(2) by (simp add: run_holds_def holds_claim_def)
    then have "job_kind j = job_kind (r_job r)" using run_okD(3) [OF ok j(1)] by simp
    then show ?thesis
      using strict handed_yes_effect [OF ok] id by (auto simp: row_ok_def)
  qed
  have w: "(case r' of None \<Rightarrow> 0 | Some r1 \<Rightarrow> w_run r1) \<le> w_run r"
    using r' by (cases r') (auto simp: w_run_def)
  then show "(case r' of None \<Rightarrow> 0 | Some r1 \<Rightarrow> w_run r1) + w_row (completed_row patch t j) \<le> w_run r + w_row j" for j
    by (simp add: w_row_def)
  show "(case r' of None \<Rightarrow> 0 | Some r1 \<Rightarrow> w_run r1) \<le> w_run r" by (rule w)
  have base: "phase_ok (jobs db') r"
    unfolding jobs by (rule phase_ok_ended [OF run_okD(5) [OF ok]]) simp
  show "r_job r1 = r_job r \<and> run_ok kn K unrec (s\<lparr>s_db := db'\<rparr>) r1" if eq: "r' = Some r1" for r1
  proof -
    obtain p c where r1: "r1 = (r\<lparr>r_prog := p\<rparr>)\<lparr>r_completed := c\<rparr>"
      and p: "disciplined p kn unrec (job_kind (r_job r) = K) (r_phase r)"
        "r_phase r = Started \<longrightarrow> r_effect r \<or> (\<exists>e. p = Throw e)"
      using r' [OF eq] by auto
    have "phase_ok (jobs db') (r\<lparr>r_prog := p\<rparr>)" using phase_ok_prog [OF base ph] p(2) by blast
    then have "phase_ok (jobs db') r1"
      by (cases "r_phase r") (auto simp: r1 phase_ok_def run_holds_def run_id_def run_token_def)
    then show ?thesis
      using p(1) update_kinds [of "completed_row patch t"] nxt
      by (auto simp: r1 jobs intro!: run_ok_next [OF ok])
  qed
qed auto

text \<open>\<open>ctx.markEffectStarted\<close>: the row's permission to run passes to the run.\<close>

lemma inv_mark_started:
  fixes r :: "('q, 'x, 'm) run"
  assumes inv: "sys_inv kn K unrec s" and runs: "s_runs s = xs @ r # ys"
    and ph: "r_phase r = Fresh \<or> r_phase r = Started" and some: "\<exists>j\<in>set (jobs (s_db s)). run_holds r j"
    and r1: "r1 = r\<lparr>r_prog := p, r_effect := ef, r_phase := Started\<rparr>"
    and p: "disciplined p kn unrec (job_kind (r_job r) = K) Started" "ef \<or> (\<exists>e. p = Throw e)"
  shows "sys_inv kn K unrec (s\<lparr>s_db := snd (markEffectStarted (run_id r) (run_token r) t (s_db s)),
      s_runs := xs @ [r1] @ ys\<rparr>)"
proof -
  let ?f = "\<lambda>j. j\<lparr>effect_started_at := Some t, updated_at := t\<rparr>"
  let ?db = "snd (markEffectStarted (run_id r) (run_token r) t (s_db s))"
  have rin: "r \<in> set (s_runs s)" using runs by simp
  note ok = sys_invD(5) [OF inv rin]
  have jobs: "jobs ?db = sql_update (run_holds r) ?f (jobs (s_db s))" and nxt: "next_id ?db = next_id (s_db s)"
    by (simp_all add: markEffectStarted_def run_holds_eq)
  have "sys_inv kn K unrec (s\<lparr>s_db := ?db,
      s_runs := xs @ (case Some r1 of None \<Rightarrow> [] | Some r1 \<Rightarrow> [r1]) @ ys\<rparr>)"
  proof (rule inv_claimed_write [OF inv runs jobs nxt])
    show "row_ok K unrec (s_effects s) (?f j)" if "j \<in> set (jobs (s_db s))" for j
      using sys_invD(4) [OF inv that] by (simp add: row_ok_def)
    show "(case Some r1 of None \<Rightarrow> 0 | Some r1 \<Rightarrow> w_run r1) + w_row (?f j) \<le> w_run r + w_row j"
      if j: "j \<in> set (jobs (s_db s))" "run_holds r j" for j
    proof -
      have st: "status j = Running" using j(2) by (simp add: run_holds_def holds_claim_def)
      have "w_run r + w_row j \<ge> 1"
        using ph
      proof
        assume "r_phase r = Fresh"
        then have "effect_started_at j = None" using run_okD(5) [OF ok] j by (simp add: phase_ok_def)
        then show ?thesis using st by (simp add: w_row_def)
      qed (simp add: w_run_def)
      then show ?thesis using st by (simp add: r1 w_run_def w_row_def)
    qed
    show "r_job r2 = r_job r \<and> run_ok kn K unrec (s\<lparr>s_db := ?db\<rparr>) r2" if "Some r1 = Some r2" for r2
      using that p update_kinds [of ?f]
      by (auto simp: r1 jobs nxt phase_ok_def intro!: run_ok_next [OF ok])
    show "(case Some r1 of None \<Rightarrow> 0 | Some r1 \<Rightarrow> w_run r1) \<le> w_run r"
      if "\<forall>j\<in>set (jobs (s_db s)). \<not> run_holds r j"
      using some that by blast
  qed auto
  then show ?thesis by simp
qed

lemma mark_started_none:
  "\<not> claim_held (s_db s) (run_id r) (run_token r) \<Longrightarrow>
     snd (markEffectStarted (run_id r) (run_token r) t (s_db s)) = s_db s"
  by (auto simp: markEffectStarted_def claim_held_def list_ex_iff sql_update_def map_idI)

lemma claim_held_iff: "claim_held db (run_id r) (run_token r) \<longleftrightarrow> (\<exists>j\<in>set (jobs db). run_holds r j)"
  by (auto simp: claim_held_def list_ex_iff run_holds_eq)

text \<open>
  Writes of a run whose effect certainly happened: \<open>markEffectDone\<close> and the settling of a
  swept job. They check the job's id only.
\<close>

lemma inv_effect_write:
  fixes r :: "('q, 'x, 'm) run"
  assumes inv: "sys_inv kn K unrec s" and runs: "s_runs s = xs @ r # ys" and ph: "r_phase r = Handed Yes"
    and jobs: "jobs db' = sql_update q f (jobs (s_db s))" and nxt: "next_id db' = next_id (s_db s)"
    and qid: "\<And>j. q j \<Longrightarrow> job_id j = run_id r"
    and fid: "\<And>j. job_id (f j) = job_id j" and fkind: "\<And>j. job_kind (f j) = job_kind j"
    and ftok: "\<And>j. claim_token (f j) = claim_token j \<and> effect_started_at (f j) = effect_started_at j"
    and fst: "\<And>j. q j \<Longrightarrow> status (f j) = status j \<or> status j = NeedsAttention \<and> status (f j) = Done"
    and p: "disciplined p kn unrec (job_kind (r_job r) = K) (Handed Yes)"
  shows "sys_inv kn K unrec (s\<lparr>s_db := db', s_runs := xs @ [r\<lparr>r_prog := p\<rparr>] @ ys\<rparr>)"
proof -
  have rin: "r \<in> set (s_runs s)" using runs by simp
  note ok = sys_invD(5) [OF inv rin]
  have effect: "s_effects s (run_id r) \<ge> 1" by (rule handed_yes_effect [OF ok ph])
  have weight: "w_row (f j) \<le> w_row j" if "q j" for j
    using fst [OF that] ftok [of j] by (auto simp: w_row_def)
  have held: "run_holds r1 j" if "q j" "run_holds r1 (f j)" for j and r1 :: "('q, 'x, 'm) run"
    using that fst [of j] ftok [of j] fid [of j] by (auto simp: run_holds_def holds_claim_def)
  have "sys_inv kn K unrec (s\<lparr>s_db := db',
      s_runs := xs @ (case Some (r\<lparr>r_prog := p\<rparr>) of None \<Rightarrow> [] | Some r1 \<Rightarrow> [r1]) @ ys, s_effects := s_effects s\<rparr>)"
  proof (rule inv_run_step [OF inv runs jobs nxt fid fkind, where e' = "s_effects s (run_id r)"])
    show "token_ok (s_uuids s) (f j)" if "j \<in> set (jobs (s_db s))" "q j" for j
      using sys_invD(3) [OF inv that(1)] fst [OF that(2)] ftok [of j] fid [of j]
      by (auto simp: token_ok_def split: option.splits)
    show "row_ok K unrec (s_effects s) (f j)" if "q j" for j
      using qid [OF that] effect fid by (simp add: row_ok_def)
    have w: "w_rows db' (run_id r) \<le> w_rows (s_db s) (run_id r)"
      by (rule w_rows_update_le [OF fid jobs]) (rule weight)
    then show "s_effects s (run_id r) + (case Some (r\<lparr>r_prog := p\<rparr>) of None \<Rightarrow> 0 | Some r1 \<Rightarrow> w_run r1)
        + w_rows db' (run_id r) \<le> s_effects s (run_id r) + w_run r + w_rows (s_db s) (run_id r)"
      by (simp add: w_run_def)
    have "phase_ok (jobs db') (r\<lparr>r_prog := p\<rparr>)"
      using run_okD(5) [OF ok] ph by (simp add: phase_ok_def)
    then have "run_ok kn K unrec (s\<lparr>s_db := db'\<rparr>) (r\<lparr>r_prog := p\<rparr>)"
      using p ph update_kinds [of f, OF fid fkind]
      by (auto simp: jobs nxt intro!: run_ok_next [OF ok])
    then show "r_job r1 = r_job r \<and> run_ok kn K unrec (s\<lparr>s_db := db', s_effects := s_effects s\<rparr>) r1"
      if "Some (r\<lparr>r_prog := p\<rparr>) = Some r1" for r1
      using that by (subst run_ok_cong [where s' = "s\<lparr>s_db := db'\<rparr>"]) auto
  qed (use qid held ftok in auto)
  then show ?thesis by simp
qed

text \<open>The irreversible step itself.\<close>

lemma inv_hand:
  fixes r :: "('q, 'x, 'm) run"
  assumes inv: "sys_inv kn K unrec s" and runs: "s_runs s = xs @ r # ys" and prog: "r_prog r = Hand k"
    and sure: "kn (Inr x) = Yes \<Longrightarrow> acc" "kn (Inr x) = No \<Longrightarrow> \<not> acc" "kn (Inr x) \<noteq> Never"
  shows "sys_inv kn K unrec (s\<lparr>s_runs := xs @ [r\<lparr>r_prog := k x, r_phase := Handed (kn (Inr x)), r_acc := acc\<rparr>] @ ys,
      s_effects := (if acc then (s_effects s)(run_id r := Suc (s_effects s (run_id r))) else s_effects s)\<rparr>)"
    (is "sys_inv _ _ _ (s\<lparr>s_runs := xs @ [?r] @ ys, s_effects := ?eff\<rparr>)")
proof -
  have rin: "r \<in> set (s_runs s)" using runs by simp
  note ok = sys_invD(5) [OF inv rin]
  have over: "r_phase r \<noteq> Over" using run_okD(5) [OF ok] prog by (auto simp: phase_ok_def)
  have disc: "r_phase r = Started" "disciplined (k x) kn unrec (job_kind (r_job r) = K) (Handed (kn (Inr x)))"
    using run_okD(6) [OF ok over] prog sure(3) by simp_all
  have effect: "r_effect r" using run_okD(5) [OF ok] disc(1) prog by (auto simp: phase_ok_def)
  have "sys_inv kn K unrec (s\<lparr>s_db := s_db s,
      s_runs := xs @ (case Some ?r of None \<Rightarrow> [] | Some r1 \<Rightarrow> [r1]) @ ys, s_effects := ?eff\<rparr>)"
  proof (rule inv_run_step [OF inv runs, where p = "\<lambda>_. False" and f = id
        and e' = "if acc then Suc (s_effects s (run_id r)) else s_effects s (run_id r)"])
    show "s_effects s (run_id r) + w_run r + w_rows (s_db s) (run_id r) \<ge>
      (if acc then Suc (s_effects s (run_id r)) else s_effects s (run_id r))
        + (case Some ?r of None \<Rightarrow> 0 | Some r1 \<Rightarrow> w_run r1) + w_rows (s_db s) (run_id r)"
      using disc(1) by (simp add: w_run_def)
    have "run_id ?r = run_id r" by (simp add: run_id_def)
    then show "r_job r1 = r_job r \<and> run_ok kn K unrec (s\<lparr>s_db := s_db s, s_effects := ?eff\<rparr>) r1"
      if "Some ?r = Some r1" for r1
      using that run_okD(1-3) [OF ok] disc(2) effect sure by (auto simp: run_ok_def phase_ok_def)
  qed (simp_all add: sql_update_def)
  then show ?thesis by simp
qed

definition event_ok :: "('q + 'x \<Rightarrow> knowledge) \<Rightarrow> string \<Rightarrow> ('q, 'x, 'm) event \<Rightarrow> bool" where
  "event_ok kn K ev = (case ev of
     EvEnqueue a _ \<Rightarrow> ea_kind a = K \<longrightarrow> ea_payload a EFFECT_DONE_KEY = None
   | EvReschedule _ _ _ patch _ \<Rightarrow> patch EFFECT_DONE_KEY = None
   | EvRun _ (Answers q) \<Rightarrow> kn (Inl q) \<noteq> Never
   | EvRun _ (HandAnswers x acc) \<Rightarrow>
       kn (Inr x) \<noteq> Never \<and> (kn (Inr x) = Yes \<longrightarrow> acc) \<and> (kn (Inr x) = No \<longrightarrow> \<not> acc)
   | _ \<Rightarrow> True)"

lemma inv_same_prog:
  fixes r :: "('q, 'x, 'm) run"
  assumes inv: "sys_inv kn K unrec s" and runs: "s_runs s = xs @ r # ys" and ph: "r_phase r \<noteq> Over"
    and p: "disciplined p kn unrec (job_kind (r_job r) = K) (r_phase r)"
    and started: "r_phase r = Started \<Longrightarrow> r_effect r \<or> (\<exists>e. p = Throw e)"
  shows "sys_inv kn K unrec (s\<lparr>s_runs := xs @ r\<lparr>r_prog := p\<rparr> # ys\<rparr>)"
proof -
  have rin: "r \<in> set (s_runs s)" using runs by simp
  note ok = sys_invD(5) [OF inv rin]
  have "run_ok kn K unrec s (r\<lparr>r_prog := p\<rparr>)"
    using phase_ok_prog [OF run_okD(5) [OF ok] ph started] p by (auto intro!: run_ok_next [OF ok])
  then show ?thesis using inv_run_prog [OF inv runs, of "r\<lparr>r_prog := p\<rparr>"] by (simp add: w_run_def)
qed

definition with_run ::
  "('q, 'x, 'm) sys \<Rightarrow> ('q, 'x, 'm) run list \<Rightarrow> ('q, 'x, 'm) run option \<times> 'm jobdb
     \<Rightarrow> ('q, 'x, 'm) run list \<Rightarrow> ('q, 'x, 'm) sys" where
  "with_run s xs res ys = s\<lparr>s_db := snd res,
     s_runs := xs @ (case fst res of None \<Rightarrow> [] | Some r1 \<Rightarrow> [r1]) @ ys\<rparr>"

text \<open>What holds of a run whose program is not a throw.\<close>

lemma running_prog:
  assumes "run_ok kn K unrec s r" and "\<nexists>e. r_prog r = Throw e"
  shows "disciplined (r_prog r) kn unrec (job_kind (r_job r) = K) (r_phase r)"
    and "r_phase r \<noteq> Over" and "r_phase r = Started \<longrightarrow> r_effect r"
  using assms(2) run_okD(5,6) [OF assms(1)] by (auto simp: phase_ok_def split: phase.splits)

lemma inv_db_failure:
  assumes "sys_inv kn K unrec s" and "s_runs s = xs @ r # ys" and "r_phase r \<noteq> Over"
  shows "sys_inv kn K unrec (s\<lparr>s_runs := xs @ r\<lparr>r_prog := Throw db_failure\<rparr> # ys\<rparr>)"
  using inv_same_prog [OF assms, of "Throw db_failure"] by simp

lemma inv_stay: "sys_inv kn K unrec s \<Longrightarrow> s_runs s = xs @ r # ys \<Longrightarrow> sys_inv kn K unrec (s\<lparr>s_runs := xs @ r # ys\<rparr>)"
  by (metis (no_types) sys.surjective sys.update_convs(4))

lemma finish_writes:
  fixes r :: "('q, 'x, 'm) run"
  assumes inv: "sys_inv kn K unrec s" and runs: "s_runs s = xs @ r # ys" and prog: "r_prog r = Finish"
  shows "sys_inv kn K unrec (with_run s xs (run_step reg kn ev t r (s_db s)) ys)"
proof -
  have ok: "run_ok kn K unrec s r" using sys_invD(5) [OF inv] runs by simp
  note dist = sys_invD(1) [OF inv]
  let ?db = "snd (completeJob (run_id r) (run_token r) (\<lambda>_ d. d) t (s_db s))"
  have ph: "r_phase r \<noteq> Over" and d: "job_kind (r_job r) = K \<longrightarrow> r_phase r = Handed Yes"
    using running_prog [OF ok] prog by auto
  have jobs: "jobs ?db = sql_update (run_holds r) (completed_row Map.empty t) (jobs (s_db s))"
    by (simp add: complete_jobs(3) [OF dist] run_holds_eq completed_row_empty)
  note c = inv_complete [OF inv runs ph _ jobs complete_jobs(4) [OF dist]]
  have ended: "sys_inv kn K unrec (s\<lparr>s_db := ?db, s_runs := xs @ ys\<rparr>)" using c [of None] d by simp
  have "\<exists>p c. r\<lparr>r_prog := Throw db_failure\<rparr> = r\<lparr>r_prog := p, r_completed := c\<rparr>
      \<and> disciplined p kn unrec (job_kind (r_job r) = K) (r_phase r)
      \<and> (r_phase r = Started \<longrightarrow> r_effect r \<or> (\<exists>e. p = Throw e))"
    by (rule exI [of _ "Throw db_failure"], rule exI [of _ "r_completed r"]) simp
  then have failed: "sys_inv kn K unrec (s\<lparr>s_db := ?db, s_runs := xs @ r\<lparr>r_prog := Throw db_failure\<rparr> # ys\<rparr>)"
    using c [of "Some (r\<lparr>r_prog := Throw db_failure\<rparr>)"] d by simp
  show ?thesis
    using prog inv_remove_run [OF inv runs] inv_stay [OF inv runs] inv_db_failure [OF inv runs ph] ended failed
    by (cases ev) (simp_all add: with_run_def)
qed

lemma mark_started_writes:
  fixes r :: "('q, 'x, 'm) run"
  assumes inv: "sys_inv kn K unrec s" and runs: "s_runs s = xs @ r # ys" and prog: "r_prog r = MarkStarted p"
    and unrec: "unrec \<noteq> ''claim_lost''"
  shows "sys_inv kn K unrec (with_run s xs (run_step reg kn ev t r (s_db s)) ys)"
proof -
  have ok: "run_ok kn K unrec s r" using sys_invD(5) [OF inv] runs by simp
  have ph: "r_phase r \<noteq> Over" and fs: "r_phase r = Fresh \<or> r_phase r = Started"
    and p: "disciplined p kn unrec (job_kind (r_job r) = K) Started"
    using running_prog [OF ok] prog by auto
  note stay = inv_stay [OF inv runs] inv_db_failure [OF inv runs ph]
  have held: "fst (markEffectStarted (run_id r) (run_token r) t (s_db s)) = claim_held (s_db s) (run_id r) (run_token r)"
    by (simp add: markEffectStarted_def)
  show ?thesis
  proof (cases "claim_held (s_db s) (run_id r) (run_token r)")
    case True
    note m = inv_mark_started [OF inv runs fs True [unfolded claim_held_iff] refl]
    show ?thesis
      using prog stay held True m [OF p, of True] m [of "Throw db_failure" "r_effect r"]
      by (cases ev) (simp_all add: with_run_def Let_def split_beta)
  next
    case False
    have "sys_inv kn K unrec (s\<lparr>s_runs := xs @ r\<lparr>r_prog := Throw claim_lost_error\<rparr> # ys\<rparr>)"
      using inv_same_prog [OF inv runs ph, of "Throw claim_lost_error"] disciplined_claim_lost [OF unrec fs] by simp
    then show ?thesis
      using prog stay held False mark_started_none [OF False]
      by (cases ev) (simp_all add: with_run_def Let_def split_beta)
  qed
qed

lemma complete_writes:
  fixes r :: "('q, 'x, 'm) run"
  assumes inv: "sys_inv kn K unrec s" and runs: "s_runs s = xs @ r # ys" and prog: "r_prog r = Complete dropl patch k"
  shows "sys_inv kn K unrec (with_run s xs (run_step reg kn ev t r (s_db s)) ys)"
proof -
  have ok: "run_ok kn K unrec s r" using sys_invD(5) [OF inv] runs by simp
  note dist = sys_invD(1) [OF inv]
  let ?db = "snd (completeJob (run_id r) (run_token r) (complete_fn dropl patch) t (s_db s))"
  have ph: "r_phase r \<noteq> Over" and d: "job_kind (r_job r) = K \<Longrightarrow> r_phase r = Handed Yes"
    and patch: "patch EFFECT_DONE_KEY = None" and e: "r_phase r = Started \<Longrightarrow> r_effect r"
    and k: "\<And>a. disciplined (k a) kn unrec (job_kind (r_job r) = K) (r_phase r)"
    using running_prog [OF ok] prog by auto
  have jobs: "jobs ?db = sql_update (run_holds r) (completed_row patch t) (jobs (s_db s))"
    by (simp add: complete_jobs(1) [OF dist] run_holds_eq)
  note c = inv_complete [OF inv runs ph d jobs complete_jobs(2) [OF dist] patch]
  have goes_on: "sys_inv kn K unrec (s\<lparr>s_db := ?db, s_runs := xs @ r\<lparr>r_prog := k a, r_completed := cc\<rparr> # ys\<rparr>)"
    for a cc
    using c [where r' = "Some (r\<lparr>r_prog := k a, r_completed := cc\<rparr>)"] k e by fastforce
  have failed: "sys_inv kn K unrec (s\<lparr>s_db := ?db, s_runs := xs @ r\<lparr>r_prog := k a\<rparr> # ys\<rparr>)" for a
    using goes_on [where a = a and cc = "r_completed r"] by simp
  have unwritten: "sys_inv kn K unrec (s\<lparr>s_runs := xs @ r\<lparr>r_prog := k a\<rparr> # ys\<rparr>)" for a
    using inv_same_prog [OF inv runs ph k] e by blast
  show ?thesis
    using prog inv_stay [OF inv runs] goes_on failed unwritten
    by (cases ev) (simp_all add: with_run_def Let_def split_beta)
qed

lemma effect_writes:
  fixes r :: "('q, 'x, 'm) run"
  assumes inv: "sys_inv kn K unrec s" and runs: "s_runs s = xs @ r # ys"
    and prog: "(\<exists>c k. r_prog r = MarkDone c k) \<or> (\<exists>c rej k. r_prog r = SettleSwept c rej k)"
  shows "sys_inv kn K unrec (with_run s xs (run_step reg kn ev t r (s_db s)) ys)"
  using prog
proof (elim disjE exE)
  have ok: "run_ok kn K unrec s r" using sys_invD(5) [OF inv] runs by simp
  fix c k
  assume c: "r_prog r = MarkDone c k"
  then have ph: "r_phase r \<noteq> Over" and yes: "r_phase r = Handed Yes"
    and k: "\<And>b. disciplined (k b) kn unrec (job_kind (r_job r) = K) (Handed Yes)"
    using running_prog [OF ok] by auto
  have "sys_inv kn K unrec (s\<lparr>s_db := snd (markEffectDone (run_id r) c t (s_db s)),
      s_runs := xs @ [r\<lparr>r_prog := k b\<rparr>] @ ys\<rparr>)" for b
    by (rule inv_effect_write [OF inv runs yes, where q = "effect_markable (run_id r)"
          and f = "\<lambda>j. j\<lparr>job_payload := (job_payload j)(EFFECT_DONE_KEY \<mapsto> JStr (take 64 c)), updated_at := t\<rparr>"])
      (use k in \<open>auto simp: markEffectDone_def effect_markable_def\<close>)
  then show ?thesis
    using c inv_stay [OF inv runs] inv_same_prog [OF inv runs ph, of "k False"] k [of False] yes
    by (cases ev) (simp_all add: with_run_def split_beta)
next
  have ok: "run_ok kn K unrec s r" using sys_invD(5) [OF inv] runs by simp
  fix c rej k
  assume c: "r_prog r = SettleSwept c rej k"
  then have ph: "r_phase r \<noteq> Over" and yes: "r_phase r = Handed Yes"
    and k: "\<And>b. disciplined (k b) kn unrec (job_kind (r_job r) = K) (Handed Yes)"
    using running_prog [OF ok] by auto
  have "sys_inv kn K unrec (s\<lparr>s_db := snd (settleSweptDelivery (run_id r) c rej t (s_db s)),
      s_runs := xs @ [r\<lparr>r_prog := k b\<rparr>] @ ys\<rparr>)" for b
    by (rule inv_effect_write [OF inv runs yes, where q = "swept_delivery (run_id r) c"
          and f = "\<lambda>j. j\<lparr>status := Done, finished_at := Some t, error_code := None, last_error := None,
               updated_at := t, job_payload := (if rej = [] then job_payload j
                 else (job_payload j)(''rejected'' \<mapsto> JStrs rej))\<rparr>"])
      (use k in \<open>auto simp: settleSweptDelivery_def Let_def swept_delivery_def\<close>)
  then show ?thesis
    using c inv_stay [OF inv runs] inv_same_prog [OF inv runs ph, of "k DbFailed"] k [of DbFailed] yes
    by (cases ev) (simp_all add: with_run_def Let_def split_beta)
qed

text \<open>Every step of a run but the irreversible one, which changes the ghost counter.\<close>

lemma inv_run_writes:
  fixes r :: "('q, 'x, 'm) run"
  assumes inv: "sys_inv kn K unrec s" and runs: "s_runs s = xs @ r # ys"
    and nohand: "\<nexists>k. r_prog r = Hand k" and unrec: "unrec \<noteq> ''claim_lost''"
    and given: "event_ok kn K (EvRun n ev)"
  shows "sys_inv kn K unrec (with_run s xs (run_step reg kn ev t r (s_db s)) ys)"
proof -
  have ok: "run_ok kn K unrec s r" using sys_invD(5) [OF inv] runs by simp
  note stay = inv_stay [OF inv runs]
  show ?thesis
  proof (cases "r_prog r")
    case (Throw e)
    then show ?thesis using inv_throw [OF inv runs Throw] by (simp add: with_run_def)
  next
    case (Hand k)
    then show ?thesis using nohand by blast
  next
    case Finish
    then show ?thesis by (rule finish_writes [OF inv runs])
  next
    case (ReadLetter k)
    then have "disciplined (k l) kn unrec (job_kind (r_job r) = K) (r_phase r)" and ph: "r_phase r \<noteq> Over"
      and "r_phase r = Started \<Longrightarrow> r_effect r" for l
      using running_prog [OF ok] by auto
    then show ?thesis
      using ReadLetter stay inv_db_failure [OF inv runs ph] inv_same_prog [OF inv runs ph]
      by (cases ev) (simp_all add: with_run_def)
  next
    case (Ask k)
    then have "kn (Inl q) \<noteq> Never \<Longrightarrow> disciplined (k q) kn unrec (job_kind (r_job r) = K) (r_phase r)"
      and ph: "r_phase r \<noteq> Over"
      and "r_phase r = Started \<Longrightarrow> r_effect r" for q
      using running_prog [OF ok] by auto
    then show ?thesis
      using Ask stay inv_db_failure [OF inv runs ph] inv_same_prog [OF inv runs ph] given
      by (cases ev) (simp_all add: with_run_def event_ok_def)
  next
    case (MarkStarted p)
    then show ?thesis by (rule mark_started_writes [OF inv runs _ unrec])
  next
    case (MarkDone c k)
    then show ?thesis using effect_writes [OF inv runs] by blast
  next
    case (Complete dropl patch k)
    then show ?thesis by (rule complete_writes [OF inv runs])
  next
    case (SettleSwept c rej k)
    then show ?thesis using effect_writes [OF inv runs] by blast
  qed
qed

lemma run_effect_hand: "run_effect r ev = (\<exists>k x. r_prog r = Hand k \<and> ev = HandAnswers x True)"
  by (auto simp: run_effect_def split: prog.splits run_event.splits)

lemma inv_run:
  assumes inv: "sys_inv kn K unrec s" and ev: "event_ok kn K (EvRun n ev)" and unrec: "unrec \<noteq> ''claim_lost''"
  shows "sys_inv kn K unrec (sys_step reg kn h (EvRun n ev) s)"
proof (cases "n < length (s_runs s)")
  case False
  then show ?thesis using inv by simp
next
  case True
  let ?r = "s_runs s ! n"
  note runs = runs_split [OF True]
  show ?thesis
  proof (cases "\<exists>k. r_prog ?r = Hand k")
    case False
    have "\<not> run_effect ?r ev" using False by (auto simp: run_effect_hand)
    then show ?thesis
      using inv_run_writes [OF inv runs False unrec ev, of reg "s_now s"] True
      by (simp add: with_run_def replace_at_def Let_def split_beta)
  next
    case hand: True
    then obtain k where k: "r_prog ?r = Hand k" by blast
    show ?thesis
    proof (cases ev)
      case (HandAnswers x acc)
      then show ?thesis
        using inv_hand [OF inv runs k, of x acc] ev True k
        by (simp add: event_ok_def replace_at_def Let_def run_effect_def)
    qed (use inv True k runs in \<open>simp_all add: replace_at_def Let_def run_effect_def flip: runs\<close>)
  qed
qed

section \<open>A spent budget\<close>

text \<open>
  The counters are ghost: counting one more effect in advance changes no step. So once the effects,
  runs and row of a job leave no room for another one, none follows.
\<close>

definition bump :: "nat \<Rightarrow> ('q, 'x, 'm) sys \<Rightarrow> ('q, 'x, 'm) sys" where
  "bump i s = s\<lparr>s_effects := (s_effects s)(i := Suc (s_effects s i))\<rparr>"

lemma bump_fields [simp]:
  "s_db (bump i s) = s_db s" "s_now (bump i s) = s_now s" "s_uuids (bump i s) = s_uuids s"
  "s_runs (bump i s) = s_runs s" "s_resends (bump i s) = s_resends s"
  "s_effects (bump i s) = (s_effects s)(i := Suc (s_effects s i))"
  by (simp_all add: bump_def)

lemma sys_step_bump: "sys_step reg kn h ev (bump i s) = bump i (sys_step reg kn h ev s)"
  by (cases ev) (auto simp: bump_def Let_def split_beta fun_upd_twist)

lemma sys_run_bump: "sys_run reg kn h es (bump i s) = bump i (sys_run reg kn h es s)"
  by (induction es arbitrary: s) (simp_all add: sys_run_def sys_step_bump del: sys_step.simps)

lemma sys_inv_bump:
  assumes inv: "sys_inv kn K unrec s" and i: "i < next_id (s_db s)"
    and spent: "s_effects s i + w_runs (s_runs s) i + w_rows (s_db s) i \<le> s_resends s i"
  shows "sys_inv kn K unrec (bump i s)"
proof -
  note D = sys_invD [OF inv]
  have "run_ok kn K unrec (bump i s) r" if "r \<in> set (s_runs s)" for r
    using D(5) [OF that] by (auto simp: run_ok_def)
  moreover have "row_ok K unrec (s_effects (bump i s)) j" if "j \<in> set (jobs (s_db s))" for j
    using D(4) [OF that] by (auto simp: row_ok_def)
  moreover have "budget_ok (bump i s) k" for k
    using D(7) [of k] spent by (simp add: budget_ok_def)
  ultimately show ?thesis
    using D i by (simp add: sys_inv_def)
qed

section \<open>The guarantees\<close>

text \<open>
  An at-most-once kind \<open>K\<close>: its handler keeps the strict contract, the handlers of every
  other kind the lax one. \<open>unrec\<close> is the code that says the effect happened and only its
  record is missing; the queue itself never writes it as the code of something else.
\<close>

locale at_most_once_kind =
  fixes reg :: registry
    and kn :: "'q + 'x \<Rightarrow> knowledge"
    and handler :: "job \<Rightarrow> ('q, 'x, 'm) prog"
    and K :: string
    and unrec :: string
  assumes contract: "disciplined (handler j) kn unrec (job_kind j = K) Fresh"
    and code: "unrec \<notin> {''claim_lost'', ''lease_expired'', ''account_missing''}"
begin

lemma step_inv:
  assumes inv: "sys_inv kn K unrec s" and ev: "event_ok kn K ev"
  shows "sys_inv kn K unrec (sys_step reg kn handler ev s)"
proof (cases ev)
  case (EvTick d)
  then show ?thesis using inv_clock [OF inv] by simp
next
  case (EvEnqueue a l)
  then show ?thesis using inv_enqueue [OF inv] ev by (simp add: event_ok_def del: sys_step.simps)
next
  case (EvCancel i froms dropl)
  then show ?thesis using inv_cancel [OF inv] by (simp del: sys_step.simps)
next
  case (EvReschedule i at froms patch codes)
  then show ?thesis using inv_reschedule [OF inv] ev by (simp add: event_ok_def del: sys_step.simps)
next
  case (EvClaim lim uuid locked)
  then show ?thesis using inv_claim [OF inv contract] by (simp del: sys_step.simps)
next
  case (EvRelease n)
  then show ?thesis using inv_release [OF inv] by (simp del: sys_step.simps)
next
  case (EvRenew n)
  then show ?thesis using inv_renew [OF inv] by (simp del: sys_step.simps)
next
  case EvSweep
  then show ?thesis using inv_sweep [OF inv] code by (simp del: sys_step.simps)
next
  case EvCleanup
  then show ?thesis using inv_cleanup [OF inv] by (simp del: sys_step.simps)
next
  case (EvAccountGone acc)
  then show ?thesis using inv_account_gone [OF inv] code by (simp del: sys_step.simps)
next
  case (EvRun n e)
  then show ?thesis using inv_run [OF inv] ev code by (simp del: sys_step.simps)
next
  case (EvCrash n)
  then show ?thesis using inv_crash [OF inv] by (simp del: sys_step.simps)
qed

lemma run_inv:
  assumes "list_all (event_ok kn K) es" and "sys_inv kn K unrec s"
  shows "sys_inv kn K unrec (sys_run reg kn handler es s)"
  using assms
proof (induction es arbitrary: s)
  case Nil
  then show ?case by (simp add: sys_run_def)
next
  case (Cons ev es)
  then show ?case using step_inv [of s ev] by (simp add: sys_run_def del: sys_step.simps)
qed

lemma reachable_inv: "list_all (event_ok kn K) es \<Longrightarrow> sys_inv kn K unrec (sys_run reg kn handler es init_sys)"
  by (rule run_inv [OF _ sys_inv_init])

lemma effects_bounded:
  assumes "list_all (event_ok kn K) es" and "s = sys_run reg kn handler es init_sys"
  shows "s_effects s i \<le> 1 + s_resends s i"
  using sys_invD(7) [OF reachable_inv [OF assms(1)], of i] assms(2) by (simp add: budget_ok_def)

lemma waiting_not_done:
  assumes "list_all (event_ok kn K) es" and "s = sys_run reg kn handler es init_sys"
    and "job_of (s_db s) i = Some j" and "status j = Queued \<or> status j = Failed" and "s_resends s i = 0"
  shows "s_effects s i = 0"
proof -
  have "w_rows (s_db s) i = 1" using assms(3,4) by (auto simp: w_rows_def w_row_def)
  then show ?thesis
    using sys_invD(7) [OF reachable_inv [OF assms(1)], of i] assms(2,5) by (simp add: budget_ok_def)
qed

lemma done_happened:
  assumes "list_all (event_ok kn K) es" and "s = sys_run reg kn handler es init_sys"
    and "job_of (s_db s) i = Some j" and "job_kind j = K"
    and "status j = Done \<or> error_code j = Some unrec"
  shows "s_effects s i \<ge> 1"
proof -
  have "j \<in> set (jobs (s_db s))" and "job_id j = i" using job_of_SomeD [OF assms(3)] by simp_all
  then show ?thesis
    using sys_invD(4) [OF reachable_inv [OF assms(1)], of j] assms(2,4,5) by (auto simp: row_ok_def)
qed

lemma spent_stays:
  assumes inv: "sys_inv kn K unrec s" and i: "i < next_id (s_db s)"
    and spent: "s_effects s i + w_runs (s_runs s) i + w_rows (s_db s) i \<le> s_resends s i"
    and es: "list_all (event_ok kn K) es" and s': "s' = sys_run reg kn handler es s"
  shows "s_effects s' i \<le> s_resends s' i"
proof -
  have "sys_inv kn K unrec (sys_run reg kn handler es (bump i s))"
    using run_inv [OF es sys_inv_bump [OF inv i spent]] .
  then have "budget_ok (bump i s') i" using sys_invD(7) s' by (metis sys_run_bump)
  then show ?thesis by (simp add: budget_ok_def)
qed

text \<open>A waiting job that was cancelled does not happen any more, unless a person has it run again.\<close>

lemma cancelled_never:
  assumes es: "list_all (event_ok kn K) es" and s: "s = sys_run reg kn handler es init_sys"
    and j: "job_of (s_db s) i = Some j" "status j = Queued \<or> status j = Failed" "status j \<in> set froms"
    and es': "list_all (event_ok kn K) es'"
    and s': "s' = sys_run reg kn handler es' (sys_step reg kn handler (EvCancel i froms d) s)"
  shows "s_effects s' i \<le> s_resends s' i"
proof -
  let ?c = "sys_step reg kn handler (EvCancel i froms d) s"
  have inv: "sys_inv kn K unrec s" using reachable_inv [OF es] s by simp
  note D = sys_invD [OF inv]
  have inj: "j \<in> set (jobs (s_db s))" and id: "job_id j = i" using job_of_SomeD [OF j(1)] by simp_all
  have invc: "sys_inv kn K unrec ?c" by (rule step_inv [OF inv]) (simp add: event_ok_def)
  have jobs: "jobs (s_db ?c) = sql_update (\<lambda>j. job_id j = i \<and> status j \<in> set froms) (cancelled_row (s_now s)) (jobs (s_db s))"
    and nxt: "next_id (s_db ?c) = next_id (s_db s)"
    by (simp_all add: cancel_with_letter_def cancelJob_def Let_def split: option.splits)
  have "job_of (s_db ?c) i = Some (cancelled_row (s_now s) j)"
    using job_of_update [OF _ jobs, of i] j id by (simp add: cancelled_row_def)
  then have "w_rows (s_db ?c) i = 0" by (simp add: w_rows_def w_row_def cancelled_row_def)
  moreover have "w_rows (s_db s) i = 1" using j by (auto simp: w_rows_def w_row_def)
  then have "s_effects s i + w_runs (s_runs s) i \<le> s_resends s i"
    using D(7) [of i] by (simp add: budget_ok_def)
  ultimately have spent: "s_effects ?c i + w_runs (s_runs ?c) i + w_rows (s_db ?c) i \<le> s_resends ?c i"
    by simp
  have "i < next_id (s_db ?c)" unfolding nxt using D(2) [OF inj] id by simp
  then show ?thesis by (rule spent_stays [OF invc _ spent es' s'])
qed

end

end
