(* ===== verification/SendHandler.thy ===== *)
theory SendHandler
  imports SendQueue SendLease AtMostOnce
begin

text \<open>
  The handler of a send job (\<open>handleSendJob\<close> of \<open>backend/src/services/sendQueue.js\<close>
  with the part of \<open>deliverOutgoingMessage\<close> up to the recorded delivery) as a program over
  the queue's context, its interpretation of the contract \<open>at_most_once_kind\<close>, and how the
  management operations of \<open>SendQueue\<close> are steps of the system.
\<close>

section \<open>What the handler reads\<close>

text \<open>
  One read answers one question; a record holds an answer to each. The author's row holds
  \<open>disabled_at\<close>. A transport is set up, refused with a result, or its set-up throws. Building
  what the Sent copy needs (the reply's thread, the raw message) may throw as well.
\<close>

datatype transport_setup = SetupOk | SetupFailed setup_failure | SetupThrew thrown

record send_read =
  rd_author :: "time_ms option option"
  rd_account :: "send_account option"
  rd_lease :: "maintenance_error option"
  rd_setup :: transport_setup
  rd_built :: "thrown option"

text \<open>
  The answer of \<open>transport.sendMail\<close>: accepted, with the recipients refused at RCPT, or an
  error.
\<close>

datatype hand_answer =
    Accepted "recipient_value list" "rejected_error list"
  | NotSent transport_error

type_synonym send_prog = "(send_read, hand_answer, letter) prog"

definition isDisabledMailbox :: "send_account \<Rightarrow> bool" where
  "isDisabledMailbox a \<longleftrightarrow> \<not> sa_enabled a"

definition isReadOnlyNodeMailbox :: "send_account \<Rightarrow> bool" where
  "isReadOnlyNodeMailbox a \<longleftrightarrow> sa_mail_node a \<and> (sa_delete_after a \<noteq> None \<or> sa_deactivated_at a \<noteq> None)"

definition isForeignNodeAliasAddress :: "(string \<Rightarrow> string) \<Rightarrow> send_account \<Rightarrow> string \<Rightarrow> bool" where
  "isForeignNodeAliasAddress d2a a email \<longleftrightarrow> sa_mail_node a
     \<and> normalizeAddress d2a (Some email) \<noteq> normalizeAddress d2a (Some (sa_email a))"

definition isManagedProtonAccount :: "send_account \<Rightarrow> bool" where
  "isManagedProtonAccount a \<longleftrightarrow> sa_mail_provider a = Some ''proton'' \<and> sa_connection_mode a = Some ''managed''"

section \<open>The handler\<close>

definition fail_with :: "string \<Rightarrow> string \<Rightarrow> thrown" where
  "fail_with code msg = JobError msg Fail (Some code) None"

definition unrecorded_error :: thrown where
  "unrecorded_error = JobError ''The mail server accepted the letter, but recording it as sent failed. Do not send it again.''
     Attention (Some DELIVERED_UNRECORDED) None"

definition rejected_patch :: "string list \<Rightarrow> payload" where
  "rejected_patch rejected = (if rejected = [] then Map.empty else [''rejected'' \<mapsto> JStrs rejected])"

text \<open>The second try at recording a delivery, after \<open>onDelivered\<close> did not record it.\<close>

definition record_again :: "string list \<Rightarrow> send_prog" where
  "record_again rejected = Complete True (rejected_patch rejected) (\<lambda>r. case r of
       Answered True \<Rightarrow> Finish
     | Answered False \<Rightarrow> SettleSwept DELIVERED_UNRECORDED rejected (\<lambda>s. case s of
           Answered _ \<Rightarrow> Finish
         | DbFailed \<Rightarrow> Throw unrecorded_error)
     | DbFailed \<Rightarrow> Throw unrecorded_error)"

text \<open>\<open>onDelivered\<close>: its failure never turns a delivered letter into a failed send.\<close>

definition delivered :: "string list \<Rightarrow> send_prog" where
  "delivered rejected = MarkDone DELIVERED_UNRECORDED (\<lambda>_.
     Complete True (rejected_patch rejected) (\<lambda>r. case r of
       Answered True \<Rightarrow> Finish
     | Answered False \<Rightarrow> SettleSwept DELIVERED_UNRECORDED rejected (\<lambda>s. case s of
           Answered (Some _) \<Rightarrow> Finish
         | _ \<Rightarrow> record_again rejected)
     | DbFailed \<Rightarrow> record_again rejected))"

definition hand_over :: "send_account \<Rightarrow> send_prog" where
  "hand_over a = MarkStarted (Hand (\<lambda>x. case x of
     Accepted vs es \<Rightarrow> delivered (map rf_recipient (refusedRecipients vs es))
   | NotSent e \<Rightarrow> Throw (deliveryFailure e a)))"

definition deliver :: "send_account \<Rightarrow> send_prog" where
  "deliver a = Ask (\<lambda>q. case rd_setup q of
     SetupFailed f \<Rightarrow> Throw (setupFailure f)
   | SetupThrew e \<Rightarrow> Throw e
   | SetupOk \<Rightarrow> Ask (\<lambda>q. case rd_built q of Some e \<Rightarrow> Throw e | None \<Rightarrow> hand_over a))"

definition with_lease :: "send_account \<Rightarrow> send_prog \<Rightarrow> send_prog" where
  "with_lease a p = (if \<not> isManagedProtonAccount a then p
     else Ask (\<lambda>q. case rd_lease q of
         Some e \<Rightarrow> Throw (JobError (maintenance_message e) Retry (Some ''proton_maintenance'')
                          (Some PROTON_MAINTENANCE_RETRY_MS))
       | None \<Rightarrow> p))"

definition check_account :: "(string \<Rightarrow> string) \<Rightarrow> letter \<Rightarrow> send_account option \<Rightarrow> send_prog" where
  "check_account d2a l acc = (case acc of
     None \<Rightarrow> Throw (fail_with ''account_missing'' ''The mailbox of this letter was deleted.'')
   | Some a \<Rightarrow>
       if isDisabledMailbox a
       then Throw (fail_with ''mailbox_disabled'' ''This mailbox is disabled: it cannot send.'')
       else if isReadOnlyNodeMailbox a
       then Throw (fail_with ''mailbox_read_only''
              ''This mailbox is read-only (deactivated or pending deletion): it cannot send.'')
       else if isForeignNodeAliasAddress d2a a
                 (fromHeaderAddress (mo_from (ml_options (deserializeMail (lt_mail l)))))
       then Throw (fail_with ''node_alias_stale''
              ''This sender address is not a mailbox: choose another From. An administrator can make it a separate mailbox.'')
       else with_lease a (deliver a))"

definition handleSendJob :: "(string \<Rightarrow> string) \<Rightarrow> job \<Rightarrow> send_prog" where
  "handleSendJob d2a j = ReadLetter (\<lambda>content. case content of
     None \<Rightarrow> Throw (fail_with ''letter_missing'' ''The letter of this job is gone.'')
   | Some l \<Rightarrow>
       (let author_gone = Throw (fail_with ''author_disabled'' ''The author of this letter can no longer send mail.'');
            account = (if truthy (account_id j) = None then check_account d2a l None
                       else Ask (\<lambda>q. check_account d2a l (rd_account q)))
        in if truthy (created_by j) = None then author_gone
           else Ask (\<lambda>q. case rd_author q of
               None \<Rightarrow> author_gone
             | Some (Some _) \<Rightarrow> author_gone
             | Some None \<Rightarrow> account)))"

section \<open>The handlers of every kind\<close>

text \<open>
  The handlers of the other kinds: they read, write their own tables inside a completion, and
  throw; none of them hands over anything irreversible through the queue's context.
\<close>

datatype plain =
    PFinish
  | PThrow thrown
  | PAsk "send_read \<Rightarrow> plain"
  | PComplete payload "bool db_result \<Rightarrow> plain"

primrec embed :: "plain \<Rightarrow> send_prog" where
  "embed PFinish = Finish"
| "embed (PThrow e) = Throw e"
| "embed (PAsk k) = Ask (\<lambda>q. embed (k q))"
| "embed (PComplete patch k) = Complete False (patch(EFFECT_DONE_KEY := None)) (\<lambda>r. embed (k r))"

definition panel_handler :: "(string \<Rightarrow> string) \<Rightarrow> (job \<Rightarrow> plain) \<Rightarrow> job \<Rightarrow> send_prog" where
  "panel_handler d2a other j =
     (if job_kind j = SEND_JOB_KIND then handleSendJob d2a j else embed (other j))"

text \<open>\<open>registerSendJobKind\<close>: the kind with its attempts, backoff and \<open>onSettled\<close>.\<close>

definition registerSendJobKind :: "registry \<Rightarrow> registry" where
  "registerSendJobKind reg = registerJobKind SEND_JOB_KIND
     \<lparr>ki_max_attempts = SEND_MAX_ATTEMPTS, ki_retry_delay = jobRetryDelayMs, ki_on_settled = True\<rparr> reg"

section \<open>What an answer tells\<close>

text \<open>
  An accepted letter was delivered; an error that is definite (a reply of 400 to 599, a refused
  login, a connection that never came up, an OAuth failure, a classified Gmail rejection, a
  message that was never sent) was not; after any other error it may have been. No transport, no
  driver and no OAuth result carries the panel's own code \<open>delivered_unrecorded\<close>.
\<close>

definition foreign_code :: "thrown \<Rightarrow> bool" where
  "foreign_code e \<longleftrightarrow> map_option (take 64) (thrown_code e) \<noteq> Some DELIVERED_UNRECORDED"

definition read_possible :: "send_read \<Rightarrow> bool" where
  "read_possible q \<longleftrightarrow>
     (case rd_setup q of SetupOk \<Rightarrow> True | SetupFailed f \<Rightarrow> foreign_code (setupFailure f) | SetupThrew e \<Rightarrow> foreign_code e)
   \<and> (case rd_built q of None \<Rightarrow> True | Some e \<Rightarrow> foreign_code e)"

definition send_knowledge :: "send_read + hand_answer \<Rightarrow> knowledge" where
  "send_knowledge a = (case a of
     Inl q \<Rightarrow> if read_possible q then Unknown else Never
   | Inr (Accepted _ _) \<Rightarrow> Yes
   | Inr (NotSent e) \<Rightarrow>
       if te_definite e \<and> map_option (take 64) (te_code e) = Some DELIVERED_UNRECORDED then Never
       else if sendFailureIsDefinite e then No else Unknown)"

lemma panel_codes_foreign: "x \<in> set panel_codes \<Longrightarrow> take 64 x \<noteq> DELIVERED_UNRECORDED"
  unfolding panel_codes_def DELIVERED_UNRECORDED_def by auto

lemma deliveryFailure_foreign:
  assumes "\<not> (te_definite e \<and> map_option (take 64) (te_code e) = Some DELIVERED_UNRECORDED)"
  shows "map_option (take 64) (thrown_code (deliveryFailure e a)) \<noteq> Some DELIVERED_UNRECORDED"
  using deliveryFailure_code [of e a] assms panel_codes_foreign by auto

abbreviation send_disciplined :: "bool \<Rightarrow> phase \<Rightarrow> send_prog \<Rightarrow> bool" where
  "send_disciplined strict ph p \<equiv> disciplined p send_knowledge DELIVERED_UNRECORDED strict ph"

lemma rejected_patch_key: "rejected_patch rs EFFECT_DONE_KEY = None"
  by (simp add: rejected_patch_def EFFECT_DONE_KEY_def)

lemma record_again_ok: "send_disciplined strict (Handed Yes) (record_again rs)"
  by (auto simp: record_again_def rejected_patch_key may_throw_def unrecorded_error_def
      split: db_result.splits bool.splits)

lemma delivered_ok: "send_disciplined strict (Handed Yes) (delivered rs)"
  by (auto simp: delivered_def rejected_patch_key record_again_ok
      split: db_result.splits bool.splits option.splits)

lemma hand_over_ok: "send_disciplined strict Fresh (hand_over a)"
proof -
  have "send_disciplined strict (Handed (send_knowledge (Inr x)))
      (case x of Accepted vs es \<Rightarrow> delivered (map rf_recipient (refusedRecipients vs es))
       | NotSent e \<Rightarrow> Throw (deliveryFailure e a))"
    if "send_knowledge (Inr x) \<noteq> Never" for x
  proof (cases x)
    case (Accepted vs es)
    then show ?thesis using delivered_ok by (simp add: send_knowledge_def)
  next
    case (NotSent e)
    then have foreign: "\<not> (te_definite e \<and> map_option (take 64) (te_code e) = Some DELIVERED_UNRECORDED)"
      using that by (auto simp: send_knowledge_def)
    moreover have "sendFailureIsDefinite e \<or> thrown_outcome (deliveryFailure e a) = Some Attention"
      using deliveryFailure_outcome by blast
    ultimately show ?thesis
      using NotSent deliveryFailure_foreign [OF foreign]
      by (auto simp: send_knowledge_def may_throw_def)
  qed
  then show ?thesis by (simp add: hand_over_def)
qed

lemma fresh_throw: "foreign_code e \<Longrightarrow> send_disciplined strict Fresh (Throw e)"
  by (simp add: may_throw_def foreign_code_def)

lemma fail_with_foreign:
  "take 64 c \<noteq> DELIVERED_UNRECORDED \<Longrightarrow> send_disciplined strict Fresh (Throw (fail_with c m))"
  by (rule fresh_throw) (simp add: foreign_code_def fail_with_def)

lemma refusals_ok:
  "send_disciplined strict Fresh (Throw (fail_with ''account_missing'' m))"
  "send_disciplined strict Fresh (Throw (fail_with ''mailbox_disabled'' m))"
  "send_disciplined strict Fresh (Throw (fail_with ''mailbox_read_only'' m))"
  "send_disciplined strict Fresh (Throw (fail_with ''node_alias_stale'' m))"
  "send_disciplined strict Fresh (Throw (fail_with ''author_disabled'' m))"
  "send_disciplined strict Fresh (Throw (fail_with ''letter_missing'' m))"
  by (rule fail_with_foreign, simp add: DELIVERED_UNRECORDED_def)+

lemma asked_ok:
  assumes "\<And>q. read_possible q \<Longrightarrow> send_disciplined strict ph (k q)"
  shows "send_disciplined strict ph (Ask k)"
  using assms by (simp add: send_knowledge_def)

lemma chosen_ok:
  "send_disciplined strict ph (if b then p1 else p2)
     = (if b then send_disciplined strict ph p1 else send_disciplined strict ph p2)"
  by (rule if_distrib)

lemma deliver_ok: "send_disciplined strict Fresh (deliver a)"
  unfolding deliver_def
proof (rule asked_ok)
  fix q
  assume q: "read_possible q"
  have "send_disciplined strict Fresh (Ask (\<lambda>q. case rd_built q of Some e \<Rightarrow> Throw e | None \<Rightarrow> hand_over a))"
    by (rule asked_ok) (auto simp: read_possible_def hand_over_ok fresh_throw simp del: disciplined.simps split: option.splits)
  then show "send_disciplined strict Fresh (case rd_setup q of SetupFailed f \<Rightarrow> Throw (setupFailure f)
      | SetupThrew e \<Rightarrow> Throw e
      | SetupOk \<Rightarrow> Ask (\<lambda>q. case rd_built q of Some e \<Rightarrow> Throw e | None \<Rightarrow> hand_over a))"
    using q by (cases "rd_setup q") (auto simp: read_possible_def fresh_throw simp del: disciplined.simps)
qed

lemma with_lease_ok:
  assumes "send_disciplined strict Fresh p"
  shows "send_disciplined strict Fresh (with_lease a p)"
proof -
  have "foreign_code (JobError m Retry (Some ''proton_maintenance'') d)" for m d
    by (simp add: foreign_code_def DELIVERED_UNRECORDED_def)
  then have "send_disciplined strict Fresh (case rd_lease q of
      Some e \<Rightarrow> Throw (JobError (maintenance_message e) Retry (Some ''proton_maintenance'') (Some PROTON_MAINTENANCE_RETRY_MS))
    | None \<Rightarrow> p)" for q
    using assms fresh_throw by (auto simp del: disciplined.simps split: option.splits)
  then show ?thesis
    unfolding with_lease_def chosen_ok using assms by (auto intro: asked_ok simp del: disciplined.simps)
qed

lemma check_account_ok: "send_disciplined strict Fresh (check_account d2a l acc)"
  unfolding check_account_def
  by (cases acc) (simp_all only: option.case refusals_ok with_lease_ok deliver_ok chosen_ok if_cancel)

lemma handleSendJob_ok: "send_disciplined strict Fresh (handleSendJob d2a j)"
proof -
  let ?gone = "Throw (fail_with ''author_disabled'' ''The author of this letter can no longer send mail.'')"
  have gone: "send_disciplined strict Fresh ?gone" by (rule refusals_ok)
  have account: "send_disciplined strict Fresh (if truthy (account_id j) = None then check_account d2a l None
      else Ask (\<lambda>q. check_account d2a l (rd_account q)))" for l
    unfolding chosen_ok using check_account_ok by (auto intro: asked_ok simp del: disciplined.simps)
  have "send_disciplined strict Fresh (case rd_author q of None \<Rightarrow> ?gone | Some (Some _) \<Rightarrow> ?gone
      | Some None \<Rightarrow> (if truthy (account_id j) = None then check_account d2a l None
          else Ask (\<lambda>q. check_account d2a l (rd_account q))))" for l q
    using gone account by (auto simp del: disciplined.simps split: option.splits)
  then have "send_disciplined strict Fresh (Ask (\<lambda>q. case rd_author q of None \<Rightarrow> ?gone | Some (Some _) \<Rightarrow> ?gone
      | Some None \<Rightarrow> (if truthy (account_id j) = None then check_account d2a l None
          else Ask (\<lambda>q. check_account d2a l (rd_account q)))))" for l
    by (rule asked_ok)
  then show ?thesis
    using gone refusals_ok(6)
    by (simp add: handleSendJob_def Let_def del: disciplined.simps(2,4) split: option.splits)
qed

lemma embed_ok: "disciplined (embed p) kn unrec False Fresh"
  by (induction p) (auto simp: may_throw_def)

interpretation send: at_most_once_kind reg send_knowledge "panel_handler d2a other" SEND_JOB_KIND DELIVERED_UNRECORDED
  for reg d2a other
proof
  show "disciplined (panel_handler d2a other j) send_knowledge DELIVERED_UNRECORDED (job_kind j = SEND_JOB_KIND) Fresh"
    for j by (simp add: panel_handler_def handleSendJob_ok embed_ok)
  show "DELIVERED_UNRECORDED \<notin> {''claim_lost'', ''lease_expired'', ''account_missing''}"
    by (simp add: DELIVERED_UNRECORDED_def)
qed


section \<open>The management operations as steps\<close>

text \<open>
  Whatever the reads before it saw, \<open>cancelScheduled\<close> and \<open>rescheduleScheduled\<close> change the
  database as one step of the system or not at all, and \<open>enqueueOutgoingSend\<close> is one step.
\<close>

lemma sys_db_same: "s\<lparr>s_db := s_db s\<rparr> = s"
  by simp

lemma cancel_refines:
  assumes "cancelScheduled i a reason (s_now s) db0 (s_db s) db2 = (res, ns, db')"
  shows "s\<lparr>s_db := db'\<rparr> = sys_step reg kn h (EvCancel i CANCELLABLE_STATUSES True) s
    \<or> db' = s_db s \<and> (\<exists>e. res = Inl e)"
proof (cases "managedJob i a db0")
  case (Inl e)
  then show ?thesis using assms by (auto simp: cancelScheduled_def)
next
  case (Inr j)
  obtain c db1 where c: "cancelJob i CANCELLABLE_STATUSES (s_now s) (s_db s) = (c, db1)"
    by (cases "cancelJob i CANCELLABLE_STATUSES (s_now s) (s_db s)")
  show ?thesis
    using assms Inr c by (cases c) (auto simp: cancelScheduled_def cancel_with_letter_def Let_def)
qed

lemma cancel_done_step:
  assumes "cancelScheduled i a reason (s_now s) db0 (s_db s) db2 = (Inr r, ns, db')"
  shows "s\<lparr>s_db := db'\<rparr> = sys_step reg kn h (EvCancel i CANCELLABLE_STATUSES True) s"
  using cancel_refines [OF assms] by auto

lemma enqueue_refines:
  assumes "enqueueOutgoingSend reg r (s_now s) (s_db s) = (res, ns, db')"
  shows "s\<lparr>s_db := db'\<rparr>
    = sys_step reg kn h (EvEnqueue (send_args r) (Some (make_letter (sr_compose r) (sr_mail r)))) s"
  using assms by (auto simp: enqueueOutgoingSend_def enqueue_with_letter_def
      split: prod.splits sum.splits option.splits bool.splits)

lemma enqueue_event_ok: "event_ok send_knowledge SEND_JOB_KIND (EvEnqueue (send_args r) l)"
  by (simp add: event_ok_def send_args_def send_payload_def EFFECT_DONE_KEY_def)

lemma reschedule_event_ok:
  "event_ok send_knowledge SEND_JOB_KIND (EvReschedule i at (reschedule_from b) (reschedule_patch b) codes)"
  by (simp add: event_ok_def reschedule_patch_def EFFECT_DONE_KEY_def)

lemma reschedule_refines:
  assumes "rescheduleScheduled i a at resend (s_now s) db0 (s_db s) db2 = (res, ns, db')"
  shows "s_db (sys_step reg kn h
      (EvReschedule i at (reschedule_from resend) (reschedule_patch resend) NO_RESEND_CODES) s) = db'
    \<or> db' = s_db s \<and> (\<exists>e. res = Inl e)"
proof (cases "managedJob i a db0")
  case (Inl e)
  then have "res = Inl e \<and> db' = s_db s" using assms by (simp add: rescheduleScheduled_def)
  then show ?thesis by blast
next
  case (Inr j)
  then show ?thesis
    using assms by (auto simp: rescheduleScheduled_def Let_def split: prod.splits option.splits)
qed

lemma reschedule_none:
  assumes "\<And>j. j \<in> set (jobs db) \<Longrightarrow> \<not> reschedulable i froms codes j"
  shows "rescheduleJob i at froms patch codes t db = (None, db)"
proof -
  have "filter (reschedulable i froms codes) (jobs db) = []" using assms by (simp add: filter_empty_conv)
  moreover have "sql_update (reschedulable i froms codes) f (jobs db) = jobs db" for f
    using assms by (simp add: sql_update_def map_idI)
  ultimately show ?thesis
    by (simp add: rescheduleJob_def sql_returning_def first_row_def)
qed


section \<open>What cancel and the letter's storage do\<close>

text \<open>
  Well-formed rows: ids are unique and below the sequence, letters too. The letter of a new job is
  the one stored with it.
\<close>

definition db_wf :: "db \<Rightarrow> bool" where
  "db_wf db \<longleftrightarrow> distinct (map job_id (jobs db)) \<and> (\<forall>j\<in>set (jobs db). job_id j < next_id db)
     \<and> (\<forall>l\<in>set (letters db). fst l < next_id db)"

lemma enqueue_created:
  assumes "enqueueOutgoingSend reg r t db = (Inr (Some j, True), ns, db')"
  shows "j = new_job reg (send_args r) t (next_id db) \<and> jobs db' = jobs db @ [j] \<and> next_id db' = Suc (next_id db)
    \<and> letters db' = letters db @ [(next_id db, make_letter (sr_compose r) (sr_mail r))]"
proof (cases "find (dedupe_conflict (ea_kind (send_args r)) (ea_dedupe (send_args r))) (jobs db)")
  case None
  have "ea_kind (send_args r) \<noteq> ''''" by (simp add: send_args_def SEND_JOB_KIND_def)
  moreover have "job_id (new_job reg a t i) = i" for a i by (simp add: new_job_def)
  ultimately show ?thesis
    using assms None by (auto simp: enqueueOutgoingSend_def enqueueJob_def Let_def)
next
  case (Some j)
  have "ea_kind (send_args r) \<noteq> ''''" by (simp add: send_args_def SEND_JOB_KIND_def)
  then show ?thesis
    using assms Some by (auto simp: enqueueOutgoingSend_def enqueueJob_def Let_def)
qed

lemma new_send_job [simp]:
  "job_id (new_job reg (send_args r) t i) = i" "job_kind (new_job reg (send_args r) t i) = SEND_JOB_KIND"
  "status (new_job reg (send_args r) t i) = Queued" "created_by (new_job reg (send_args r) t i) = Some (sr_user r)"
  "job_payload (new_job reg (send_args r) t i) = send_payload r" "error_code (new_job reg (send_args r) t i) = None"
  "dedupe_key (new_job reg (send_args r) t i) = sr_dedupe r"
  by (simp_all add: new_job_def send_args_def)

lemma db_wf_enqueue:
  assumes "db_wf db" and "enqueueOutgoingSend reg r t db = (Inr (Some j, True), ns, db')"
  shows "db_wf db'" "job_of db' (job_id j) = Some j"
    "letter_of db' (job_id j) = Some (make_letter (sr_compose r) (sr_mail r))"
proof -
  note e = enqueue_created [OF assms(2)]
  have fresh: "next_id db \<notin> job_id ` set (jobs db)" "next_id db \<notin> fst ` set (letters db)"
    using assms(1) by (force simp: db_wf_def)+
  then show "db_wf db'"
    using e assms(1) by (auto simp: db_wf_def less_Suc_eq)
  show "job_of db' (job_id j) = Some j"
    using e fresh(1) by (simp add: job_of_def row_by_append row_by_None_iff [THEN iffD2] table_simps)
  show "letter_of db' (job_id j) = Some (make_letter (sr_compose r) (sr_mail r))"
    using e fresh(2) by (simp add: letter_of_def row_by_append row_by_None_iff [THEN iffD2] table_simps)
qed

lemma cancelJob_of:
  assumes "distinct (map job_id (jobs db))" and "job_of db i = Some j"
  shows "cancelJob i froms t db = (if status j \<in> set froms then Some (cancelled_row t j) else None,
    db\<lparr>jobs := sql_update (\<lambda>j. job_id j = i \<and> status j \<in> set froms) (cancelled_row t) (jobs db)\<rparr>)"
  using assms first_row_returning [OF assms(1), of i "\<lambda>j. status j \<in> set froms" "cancelled_row t"]
  by (simp add: cancelJob_def job_of_def)

lemma letter_of_deleted: "letter_of (db\<lparr>letters := sql_delete (\<lambda>l. fst l = i) ls\<rparr>) i = None"
  by (auto simp: letter_of_def row_by_None_iff sql_delete_def)

lemma serialize_options [simp]:
  "ml_uploads (deserializeMail (serializeMail m)) = ml_uploads m"
  "ml_forwarded (deserializeMail (serializeMail m)) = Some (case ml_forwarded m of Some f \<Rightarrow> f | None \<Rightarrow> [])"
  by (simp_all add: deserializeMail_def serializeMail_def)

lemma restored_of_made:
  assumes "buffered m"
  shows "restoredCompose (make_letter c m) = c\<lparr>
     cp_attachments := Some (map restored_attachment (pick_at (or_empty (mo_attachments (ml_options m)))
       (ml_uploads m @ or_empty (ml_forwarded m)))),
     cp_forwarded := Some [],
     cp_context := map_option (\<lambda>m. m(''forwardedAttachments'' := None)) (cp_context c)\<rparr>"
  using assms
  by (simp add: restoredCompose_def make_letter_def deserialize_serialize forwarded_indexes_def or_empty_def Let_def)

lemma find_append_None: "find p xs = None \<Longrightarrow> find p (xs @ ys) = find p ys"
  by (induction xs) (auto split: if_splits)

lemma iso_text_nonempty [simp]: "iso_text t \<noteq> ''''"
  by (simp add: iso_text_def Let_def split_beta)

end
