(* ===== verification/SendProperties.thy ===== *)
theory SendProperties
  imports SendHandler
begin

text \<open>
  The promises of undo send and send later: at most once, what a status says about the delivery,
  undo and cancel, resend, repeated requests, who may do what, and how a failed hand-over is
  classified. The first ones hold of every interleaving of any number of workers, crashes, lost
  database answers, lease sweeps, clean-ups and users' operations (the events of
  \<open>JobWorker\<close>); they are the interpretation \<open>send\<close> of \<open>at_most_once_kind\<close>.
\<close>

abbreviation panel_run where
  "panel_run reg d2a other es s \<equiv> sys_run reg send_knowledge (panel_handler d2a other) es s"

abbreviation send_event_ok where
  "send_event_ok \<equiv> event_ok send_knowledge SEND_JOB_KIND"

section \<open>A run of the system\<close>

text \<open>
  A letter with its undo window, claimed, accepted and recorded; \<open>ex_broken\<close> is the same letter
  with the connection broken after the letter was handed over, and \<open>ex_unrecorded\<close> one that was
  accepted while the database did not answer any more.
\<close>

definition ex_account :: send_account where
  "ex_account = \<lparr>sa_email = ''a@x'', sa_oauth = None, sa_imap_host = None, sa_smtp_host = Some ''h'',
     sa_smtp_port = None, sa_enabled = True, sa_mail_node = False, sa_delete_after = None,
     sa_deactivated_at = None, sa_mail_provider = None, sa_connection_mode = None\<rparr>"

definition ex_read :: send_read where
  "ex_read = \<lparr>rd_author = Some None, rd_account = Some ex_account, rd_lease = None, rd_setup = SetupOk,
     rd_built = None\<rparr>"

definition ex_compose :: compose where
  "ex_compose = \<lparr>cp_subject = Some ''s'', cp_to = Some [''b@y''], cp_cc = None, cp_bcc = None, cp_body = '''',
     cp_attachments = None, cp_forwarded = None, cp_context = None\<rparr>"

definition ex_mail :: "content mail" where
  "ex_mail = \<lparr>ml_options = \<lparr>mo_message_id = ''m'', mo_from = ''a@x'', mo_in_reply_to = None, mo_headers = [],
       mo_attachments = Some [\<lparr>at_filename = ''f'', at_type = ''t'', at_cid = None, at_content = CBuffer ''abc''\<rparr>]\<rparr>,
     ml_meta = \<lparr>mm_to = [], mm_cc = [], mm_bcc = []\<rparr>, ml_uploads = [0], ml_forwarded = None\<rparr>"

definition ex_request :: send_request where
  "ex_request = \<lparr>sr_user = ''u'', sr_account = ''acc'', sr_dedupe = Some ''k'', sr_send_at = None,
     sr_compose = ex_compose, sr_mail = ex_mail\<rparr>"

definition ex_reg :: registry where
  "ex_reg = registerSendJobKind []"

definition ex_queued :: "(send_read, hand_answer, letter) event list" where
  "ex_queued = [EvEnqueue (send_args ex_request) (Some (make_letter ex_compose ex_mail)), EvTick 5000]"

definition ex_handed :: "(send_read, hand_answer, letter) event list" where
  "ex_handed = ex_queued @ [EvClaim 4 ''t'' [], EvRun 0 DbOk, EvRun 0 (Answers ex_read),
     EvRun 0 (Answers ex_read), EvRun 0 (Answers ex_read), EvRun 0 (Answers ex_read), EvRun 0 DbOk]"

definition ex_sent :: "(send_read, hand_answer, letter) event list" where
  "ex_sent = ex_handed @ [EvRun 0 (HandAnswers (Accepted [] []) True), EvRun 0 DbOk, EvRun 0 DbOk, EvRun 0 DbOk]"

definition ex_unrecorded :: "(send_read, hand_answer, letter) event list" where
  "ex_unrecorded = ex_handed @ [EvRun 0 (HandAnswers (Accepted [] []) True), EvRun 0 DbOk,
     EvRun 0 (DbFail False False), EvRun 0 (DbFail False False), EvRun 0 DbOk]"

definition ex_run :: "(send_read, hand_answer, letter) event list \<Rightarrow> (send_read, hand_answer, letter) sys" where
  "ex_run es = panel_run ex_reg (\<lambda>d. d) (\<lambda>_. PFinish) es init_sys"

lemma ex_ok:
  "list_all send_event_ok ex_sent" "list_all send_event_ok ex_unrecorded" "list_all send_event_ok ex_queued"
  by code_simp+

definition ex_job :: "(send_read, hand_answer, letter) event list \<Rightarrow> job" where
  "ex_job es = the (job_of (s_db (ex_run es)) 1)"

lemma ex_job_of:
  assumes "\<not> Option.is_none (job_of (s_db (ex_run es)) 1)"
  shows "job_of (s_db (ex_run es)) 1 = Some (ex_job es)"
  using assms by (auto simp: ex_job_def Option.is_none_def)

lemma ex_jobs:
  "job_of (s_db (ex_run ex_sent)) 1 = Some (ex_job ex_sent)"
  "job_of (s_db (ex_run ex_unrecorded)) 1 = Some (ex_job ex_unrecorded)"
  "job_of (s_db (ex_run ex_queued)) 1 = Some (ex_job ex_queued)"
  by (rule ex_job_of, code_simp)+

lemma ex_sent_state:
  "status (ex_job ex_sent) = Done" "job_kind (ex_job ex_sent) = SEND_JOB_KIND" "s_resends (ex_run ex_sent) 1 = 0"
  by code_simp+

lemma ex_unrecorded_state:
  "error_code (ex_job ex_unrecorded) = Some DELIVERED_UNRECORDED"
  by code_simp

lemma ex_queued_state:
  "status (ex_job ex_queued) = Queued" "s_resends (ex_run ex_queued) 1 = 0"
  by code_simp+

section \<open>At most once\<close>

text \<open>C1: A letter is handed to the mail server at most once more often than a person had it sent again,
  in every interleaving of workers, crashes, sweeps, clean-ups and users' operations.\<close>

theorem send_at_most_once:
  assumes "list_all send_event_ok es"
  shows "s_effects (panel_run reg d2a other es init_sys) i \<le> 1 + s_resends (panel_run reg d2a other es init_sys) i"
  by (rule send.effects_bounded [OF assms refl])

theorem send_at_most_once_witness:
  "s_effects (ex_run ex_sent) 1 \<le> 1 \<and> s_effects (ex_run ex_sent) 1 = 1"
proof -
  have "s_effects (ex_run ex_sent) 1 = 1" by code_simp
  then show ?thesis
    using send_at_most_once [OF ex_ok(1), of ex_reg "\<lambda>d. d" "\<lambda>_. PFinish" 1] ex_sent_state(3)
    by (simp add: ex_run_def)
qed

text \<open>A letter that waits (queued again after a retry included) or failed was not delivered, unless a
  person had it sent again.\<close>

theorem waiting_letter_not_delivered:
  assumes "list_all send_event_ok es" and "s = panel_run reg d2a other es init_sys"
    and "job_of (s_db s) i = Some j" and "status j \<in> {Queued, Failed}" and "s_resends s i = 0"
  shows "s_effects s i = 0"
  using send.waiting_not_done [OF assms(1,2,3) _ assms(5)] assms(4) by simp

theorem waiting_letter_not_delivered_witness:
  "status (ex_job ex_queued) = Queued \<and> s_effects (ex_run ex_queued) 1 = 0"
  using waiting_letter_not_delivered [OF ex_ok(3) ex_run_def ex_jobs(3) _ ex_queued_state(2)]
    ex_queued_state(1) by simp

text \<open>C15: A letter whose job is done, or marked \<open>delivered_unrecorded\<close>, was delivered, and exactly once
  when nobody had it sent again.\<close>

theorem done_letter_delivered:
  assumes "list_all send_event_ok es" and "s = panel_run reg d2a other es init_sys"
    and "job_of (s_db s) i = Some j" and "job_kind j = SEND_JOB_KIND"
    and "status j = Done \<or> error_code j = Some DELIVERED_UNRECORDED"
  shows "s_effects s i \<ge> 1 \<and> (s_resends s i = 0 \<longrightarrow> s_effects s i = 1)"
  using send.done_happened [OF assms] send.effects_bounded [OF assms(1,2), of i] by simp

theorem done_letter_delivered_witness: "s_effects (ex_run ex_sent) 1 = 1"
  using done_letter_delivered [OF ex_ok(1) ex_run_def ex_jobs(1) ex_sent_state(2)] ex_sent_state(1,3) by simp

text \<open>C3: Undo is final: once a waiting letter was cancelled it is not delivered, whatever the workers do
  afterwards (its claim, a sweep and a retry included), unless a person has it sent again.\<close>

theorem cancelled_letter_never_sent:
  assumes "list_all send_event_ok es" and "s = panel_run reg d2a other es init_sys"
    and "job_of (s_db s) i = Some j" and "status j = Queued"
    and "cancelScheduled i a reason (s_now s) db0 (s_db s) db2 = (Inr r, ns, db')"
    and "list_all send_event_ok es'" and "s' = panel_run reg d2a other es' (s\<lparr>s_db := db'\<rparr>)"
  shows "s_effects s' i \<le> s_resends s' i"
proof (rule send.cancelled_never [OF assms(1,2,3) _ _ assms(6)])
  show "status j = Queued \<or> status j = Failed" using assms(4) by simp
  show "status j \<in> set CANCELLABLE_STATUSES" using assms(4) by (simp add: CANCELLABLE_STATUSES_def)
  show "s' = panel_run reg d2a other es'
      (sys_step reg send_knowledge (panel_handler d2a other) (EvCancel i CANCELLABLE_STATUSES True) s)"
    using assms(7) cancel_done_step [OF assms(5)] by simp
qed

definition ex_author :: actor where
  "ex_author = \<lparr>ac_user = ''u'', ac_admin = False\<rparr>"

definition ex_cancel :: "(refusal + cancel_result) \<times> notice list \<times> db" where
  "ex_cancel = (let s = ex_run ex_queued in cancelScheduled 1 ex_author Undo (s_now s) (s_db s) (s_db s) (s_db s))"

lemma ex_cancel_done: "\<exists>r. fst ex_cancel = Inr r"
proof -
  have "(case fst ex_cancel of Inr _ \<Rightarrow> True | Inl _ \<Rightarrow> False)" by code_simp
  then show ?thesis by (cases "fst ex_cancel") auto
qed

theorem cancelled_letter_never_sent_witness:
  "\<exists>s'. s' = panel_run ex_reg (\<lambda>d. d) (\<lambda>_. PFinish) [EvTick 1, EvClaim 4 ''t'' []]
      ((ex_run ex_queued)\<lparr>s_db := snd (snd ex_cancel)\<rparr>) \<and> s_effects s' 1 \<le> s_resends s' 1"
proof -
  obtain r ns db' where r: "ex_cancel = (Inr r, ns, db')"
    using ex_cancel_done by (metis prod.collapse)
  have c: "cancelScheduled 1 ex_author Undo (s_now (ex_run ex_queued)) (s_db (ex_run ex_queued))
      (s_db (ex_run ex_queued)) (s_db (ex_run ex_queued)) = (Inr r, ns, db')"
    using r by (simp add: ex_cancel_def Let_def)
  have e: "snd (snd ex_cancel) = db'" unfolding r by simp
  have ok: "list_all send_event_ok [EvTick 1, EvClaim 4 ''t'' []]" by (simp add: event_ok_def)
  show ?thesis
    unfolding e using cancelled_letter_never_sent [OF ex_ok(3) ex_run_def ex_jobs(3) ex_queued_state(1) c ok refl]
    by blast
qed

text \<open>A letter the mail server accepted is never sent again: to move it or send it again is refused,
  nothing is written, and cancelling it gives its content back to nobody.\<close>

theorem delivered_letter_not_resent:
  assumes "list_all send_event_ok es" and "s = panel_run reg d2a other es init_sys"
    and "job_of (s_db s) i = Some j" and "error_code j = Some DELIVERED_UNRECORDED"
  shows "(\<exists>e. rescheduleScheduled i a at resend (s_now s) db0 (s_db s) db2 = (Inl e, [], s_db s))
    \<and> (\<forall>reason r ns db'. cancelScheduled i a reason (s_now s) db0 (s_db s) db2 = (Inr r, ns, db')
         \<longrightarrow> cr_compose r = None)"
proof -
  have dist: "distinct (map job_id (jobs (s_db s)))"
    using sys_invD(1) [OF send.reachable_inv [OF assms(1)]] assms(2) by simp
  have "\<not> reschedulable i froms NO_RESEND_CODES x" if "x \<in> set (jobs (s_db s))" for x froms
    using job_of_in [OF dist that] assms(3,4) by (auto simp: reschedulable_def NO_RESEND_CODES_def)
  then have "rescheduleJob i at froms patch NO_RESEND_CODES t (s_db s) = (None, s_db s)" for froms patch t
    by (intro reschedule_none) blast
  then have "\<exists>e. rescheduleScheduled i a at resend (s_now s) db0 (s_db s) db2 = (Inl e, [], s_db s)"
    by (cases "managedJob i a db0") (simp_all add: rescheduleScheduled_def Let_def)
  moreover have "never_resent (cancelled_row t j)" for t
    using assms(4) by (simp add: never_resent_def cancelled_row_def code_in_def NO_RESEND_CODES_def)
  then have "cr_compose r = None"
    if "cancelScheduled i a reason (s_now s) db0 (s_db s) db2 = (Inr r, ns, db')" for reason r ns db'
    using that cancelJob_of [OF dist assms(3), of CANCELLABLE_STATUSES "s_now s"]
    by (auto simp: cancelScheduled_def Let_def split: sum.splits if_splits option.splits)
  ultimately show ?thesis by blast
qed

theorem delivered_letter_not_resent_witness:
  "\<exists>e. rescheduleScheduled 1 ex_author 9000 True (s_now (ex_run ex_unrecorded)) (s_db (ex_run ex_unrecorded))
     (s_db (ex_run ex_unrecorded)) (s_db (ex_run ex_unrecorded)) = (Inl e, [], s_db (ex_run ex_unrecorded))"
  using delivered_letter_not_resent [OF ex_ok(2) ex_run_def ex_jobs(2) ex_unrecorded_state] by blast

section \<open>Undo gives the letter back\<close>

text \<open>Undoing a letter just queued succeeds for its author, cancels its job, deletes its stored content
  and gives back what was composed, every uploaded and forwarded attachment with its bytes.\<close>

theorem undo_gives_the_letter_back:
  assumes "db_wf db" and "enqueueOutgoingSend reg r t db = (Inr (Some j, True), ns, db1)"
    and "buffered (sr_mail r)"
    and "cancelScheduled (job_id j) \<lparr>ac_user = sr_user r, ac_admin = b\<rparr> Undo t' db1 db1 db2 = (res, ns', db')"
  shows "(\<exists>x. res = Inr x \<and> cr_compose x = Some ((sr_compose r)\<lparr>
        cp_attachments := Some (map restored_attachment (pick_at (or_empty (mo_attachments (ml_options (sr_mail r))))
          (ml_uploads (sr_mail r) @ or_empty (ml_forwarded (sr_mail r))))),
        cp_forwarded := Some [],
        cp_context := map_option (\<lambda>m. m(''forwardedAttachments'' := None)) (cp_context (sr_compose r))\<rparr>))
    \<and> job_of db' (job_id j) = Some (cancelled_row t' j) \<and> letter_of db' (job_id j) = None"
proof -
  note wf = db_wf_enqueue [OF assms(1,2)]
  have j: "j = new_job reg (send_args r) t (next_id db)" using enqueue_created [OF assms(2)] by simp
  have dist: "distinct (map job_id (jobs db1))" using wf(1) by (simp add: db_wf_def)
  have managed: "managedJob (job_id j) \<lparr>ac_user = sr_user r, ac_admin = b\<rparr> db1 = Inr j"
    using wf(2) by (simp add: managedJob_def getJob_def j)
  have "status j = Queued" by (simp add: j)
  then have can: "status j \<in> set CANCELLABLE_STATUSES" by (simp add: CANCELLABLE_STATUSES_def)
  let ?db = "db1\<lparr>jobs := sql_update (\<lambda>x. job_id x = job_id j \<and> status x \<in> set CANCELLABLE_STATUSES)
      (cancelled_row t') (jobs db1)\<rparr>"
  have c: "cancelJob (job_id j) CANCELLABLE_STATUSES t' db1 = (Some (cancelled_row t' j), ?db)"
    using cancelJob_of [OF dist wf(2), of CANCELLABLE_STATUSES t'] can by simp
  have "job_of ?db (job_id j) = Some (cancelled_row t' j)"
    using job_of_update [of "cancelled_row t'" ?db _ db1 "job_id j"] wf(2) can by (simp add: cancelled_row_def)
  moreover have "letter_of ?db (job_id j) = Some (make_letter (sr_compose r) (sr_mail r))"
    using wf(3) by (simp add: letter_of_def)
  moreover have "\<not> never_resent (cancelled_row t' j)"
    by (simp add: never_resent_def cancelled_row_def code_in_def j)
  ultimately show ?thesis
    using assms(4) managed c restored_of_made [OF assms(3)]
    by (auto simp: cancelScheduled_def Let_def job_of_def letter_of_deleted)
qed

definition ex_db :: db where
  "ex_db = \<lparr>jobs = [], next_id = 1, letters = []\<rparr>"

definition ex_enqueued :: "(string + job option \<times> bool) \<times> notice list \<times> db" where
  "ex_enqueued = enqueueOutgoingSend ex_reg ex_request 0 ex_db"

definition ex_new :: job where
  "ex_new = new_job ex_reg (send_args ex_request) 0 1"

lemma ex_enqueued_eq: "enqueueOutgoingSend ex_reg ex_request 0 ex_db = (Inr (Some ex_new, True), fst (snd ex_enqueued), snd (snd ex_enqueued))"
  by (simp add: ex_enqueued_def enqueueOutgoingSend_def enqueueJob_def ex_db_def ex_new_def Let_def
      send_args_def SEND_JOB_KIND_def)

lemma ex_db_wf: "db_wf ex_db"
  by (simp add: db_wf_def ex_db_def)

theorem undo_gives_the_letter_back_witness:
  "\<exists>x ns' db'. cancelScheduled 1 ex_author Undo 100 (snd (snd ex_enqueued)) (snd (snd ex_enqueued)) ex_db
      = (Inr x, ns', db') \<and> letter_of db' 1 = None"
proof -
  have i: "job_id ex_new = 1" and u: "\<lparr>ac_user = sr_user ex_request, ac_admin = False\<rparr> = ex_author"
    by (simp_all add: ex_new_def ex_request_def ex_author_def)
  have b: "buffered (sr_mail ex_request)" by (simp add: ex_request_def ex_mail_def buffered_def)
  obtain res ns' db' where c: "cancelScheduled 1 ex_author Undo 100 (snd (snd ex_enqueued)) (snd (snd ex_enqueued)) ex_db
      = (res, ns', db')" by (metis prod.collapse)
  show ?thesis
    using undo_gives_the_letter_back [OF ex_db_wf ex_enqueued_eq b c [folded u i, unfolded i [symmetric]]] c i by auto
qed

section \<open>Repeated requests\<close>

text \<open>A request repeated with the same idempotency key finds the job of the first one: nothing is
  written, announced or sent again.\<close>

theorem repeated_send_finds_the_first:
  assumes "sr_dedupe r1 = Some k" and "sr_dedupe r2 = Some k"
    and "enqueueOutgoingSend reg r1 t1 db = (Inr (Some j, b), ns1, db1)"
    and "enqueueOutgoingSend reg r2 t2 db1 = (res, ns2, db2)"
  shows "res = Inr (Some j, False) \<and> ns2 = [] \<and> jobs db2 = jobs db1 \<and> letters db2 = letters db1"
proof -
  have key: "dedupe_conflict (ea_kind (send_args r1)) (ea_dedupe (send_args r1))
      = dedupe_conflict (ea_kind (send_args r2)) (ea_dedupe (send_args r2))"
    using assms(1,2) by (simp add: send_args_def)
  have kind: "ea_kind (send_args r) \<noteq> ''''" for r by (simp add: send_args_def SEND_JOB_KIND_def)
  have "find (dedupe_conflict (ea_kind (send_args r1)) (ea_dedupe (send_args r1))) (jobs db1) = Some j"
  proof (cases "find (dedupe_conflict (ea_kind (send_args r1)) (ea_dedupe (send_args r1))) (jobs db)")
    case None
    have hit: "dedupe_conflict (ea_kind (send_args r1)) (ea_dedupe (send_args r1)) (new_job reg (send_args r1) t1 i)" for i
      using assms(1) by (simp add: dedupe_conflict_def send_args_def new_job_def)
    show ?thesis
      using assms(3) None kind hit
      by (auto simp: enqueueOutgoingSend_def enqueueJob_def Let_def find_append_None [OF None])
  next
    case (Some j0)
    then show ?thesis
      using assms(3) kind by (auto simp: enqueueOutgoingSend_def enqueueJob_def Let_def)
  qed
  then show ?thesis
    using assms(4) kind unfolding key by (auto simp: enqueueOutgoingSend_def enqueueJob_def Let_def)
qed

theorem repeated_send_finds_the_first_witness:
  "fst (enqueueOutgoingSend ex_reg ex_request 7 (snd (snd ex_enqueued))) = Inr (Some ex_new, False)"
proof -
  have k: "sr_dedupe ex_request = Some ''k''" by (simp add: ex_request_def)
  obtain res ns2 db2 where c: "enqueueOutgoingSend ex_reg ex_request 7 (snd (snd ex_enqueued)) = (res, ns2, db2)"
    by (rule prod_cases3)
  show ?thesis
    using repeated_send_finds_the_first [OF k k ex_enqueued_eq c] c by simp
qed

text \<open>A repeated request is the same send as the job it found exactly when it asks for the same time,
  also after the job was moved to another time or retried.\<close>

theorem repeated_send_same_time:
  assumes "status j \<noteq> Cancelled" and "job_payload j ''requestedAt'' = send_payload r ''requestedAt''"
    and "\<And>t. sr_send_at r = Some t \<Longrightarrow> datep (iso_text t) = Some t"
  shows "sendRetryConflict datep j sendAt = None \<longleftrightarrow> sendAt = sr_send_at r"
proof (cases "sr_send_at r")
  case None
  then have "requested_time j = None" using assms(2) by (simp add: requested_time_def send_payload_def)
  then show ?thesis using assms(1) None by (simp add: sendRetryConflict_def Let_def split: option.splits)
next
  case (Some t)
  then have "requested_time j = Some (iso_text t)"
    using assms(2) by (simp add: requested_time_def send_payload_def)
  then show ?thesis
    using assms(1,3) Some by (auto simp: sendRetryConflict_def Let_def split: option.splits)
qed

theorem repeated_send_same_time_witness:
  "sendRetryConflict (\<lambda>_. None) ex_new None = None \<and> sendRetryConflict (\<lambda>_. None) ex_new (Some 5) \<noteq> None"
  using repeated_send_same_time [of ex_new ex_request "\<lambda>_. None"]
  by (simp add: ex_new_def ex_request_def)

section \<open>Who may do what, and when\<close>

text \<open>C17: Someone who is neither the author nor an administrator changes nothing and sees neither the Bcc
  nor the refused recipients of a letter.\<close>

theorem strangers_change_nothing:
  assumes "\<not> ac_admin a" and "job_of db0 i = Some j" and "created_by j \<noteq> Some (ac_user a)"
  shows "(\<exists>e. cancelScheduled i a reason t db0 db db2 = (Inl e, [], db))
    \<and> (\<exists>e. rescheduleScheduled i a at resend t db0 db db2 = (Inl e, [], db))
    \<and> sv_bcc (summarize users db0 a j) = None \<and> sv_rejected (summarize users db0 a j) = None"
proof -
  have "\<exists>e. managedJob i a db0 = Inl e" using assms by (simp add: managedJob_def getJob_def)
  moreover have "\<not> can_manage a j" using assms by (simp add: can_manage_def)
  ultimately show ?thesis
    by (auto simp: cancelScheduled_def rescheduleScheduled_def summarize_def Let_def)
qed

definition ex_stranger :: actor where
  "ex_stranger = \<lparr>ac_user = ''v'', ac_admin = False\<rparr>"

theorem strangers_change_nothing_witness:
  "(\<exists>e. cancelScheduled 1 ex_stranger Undo 0 (snd (snd ex_enqueued)) ex_db ex_db = (Inl e, [], ex_db))
    \<and> sv_bcc (summarize [] (snd (snd ex_enqueued)) ex_stranger ex_new) = None"
proof -
  have "job_of (snd (snd ex_enqueued)) 1 = Some ex_new"
    using db_wf_enqueue(2) [OF ex_db_wf ex_enqueued_eq] by (simp add: ex_new_def)
  then show ?thesis
    using strangers_change_nothing [of ex_stranger "snd (snd ex_enqueued)" 1 ex_new]
    by (simp add: ex_stranger_def ex_new_def ex_request_def)
qed

text \<open>A chosen time is taken only when the text is an ISO time with an offset that lies in the future
  and at most a year and a day ahead.\<close>

theorem parse_send_at_bounds:
  assumes "parseSendAt datep v now = SendAt (Some at)"
  shows "now < at \<and> at \<le> now + SEND_LATER_MAX_MS
    \<and> (\<exists>s. v = TimeText s \<and> s \<in> rex_lang ISO_WITH_OFFSET_RE \<and> datep s = Some at)"
  using assms
  by (auto simp: parseSendAt_def rex_match_iff split: send_at_value.splits if_splits option.splits)

theorem parse_send_at_bounds_witness:
  "''2030-01-01T10:00Z'' \<in> rex_lang ISO_WITH_OFFSET_RE"
proof -
  have "rex_match ISO_WITH_OFFSET_RE ''2030-01-01T10:00Z''" by code_simp
  then have "parseSendAt (\<lambda>_. Some 1000) (TimeText ''2030-01-01T10:00Z'') 0 = SendAt (Some 1000)"
    by (simp add: parseSendAt_def SEND_LATER_MAX_MS_def)
  from parse_send_at_bounds [OF this] show ?thesis by auto
qed

section \<open>What a failed hand-over becomes\<close>

text \<open>A failed hand-over is left to its author (needs attention) exactly when it is not certain that
  nothing was delivered; only after a certain failure is the letter retried or failed.\<close>

theorem delivery_failure_classified:
  "outcomeOf j (deliveryFailure e acc) started = Attention \<longleftrightarrow> \<not> sendFailureIsDefinite e"
proof -
  obtain ob where o: "thrown_outcome (deliveryFailure e acc) = Some ob" using deliveryFailure_is_JobError by blast
  then have "outcomeOf j (deliveryFailure e acc) started = Attention \<longleftrightarrow> ob = Attention"
    by (simp add: outcomeOf_def)
  then show ?thesis using deliveryFailure_outcome [of e acc] o by simp
qed

text \<open>C18: Asking for the send lease of a Proton mailbox ends after at most 61 requests. Every answer before the last
  one is that a backup runs, with time left to ask again; and the last one decides: the lease is granted
  exactly when it names the lease that was asked for; when a backup still runs and the two minutes are over, the letter
  waits; every other answer (another name, none, a failure) is a refusal, and then alone the name is
  cancelled with the worker.\<close>

theorem send_lease_acquired:
  "\<exists>n < 61. aq_requests (acquire ans l now) = Suc n
    \<and> (\<forall>j < n. fst (ans j) = MaintenanceBusy \<and> answered_at ans now j + MAINTENANCE_POLL_MS \<le> now + MAINTENANCE_WAIT_MS)
    \<and> (aq_result (acquire ans l now) = Inr x \<longleftrightarrow> fst (ans n) = Lease (Some l) \<and> x = l)
    \<and> (aq_result (acquire ans l now) = Inl Busy \<longleftrightarrow> fst (ans n) = MaintenanceBusy)
    \<and> (fst (ans n) = MaintenanceBusy \<longrightarrow> now + MAINTENANCE_WAIT_MS < answered_at ans now n + MAINTENANCE_POLL_MS)
    \<and> (aq_result (acquire ans l now) = Inl Unavailable \<longleftrightarrow> aq_cancelled (acquire ans l now))"
proof -
  obtain n where n: "aq_requests (acquire ans l now) = Suc n"
      "\<forall>j. j < n \<longrightarrow> fst (ans j) = MaintenanceBusy \<and> answered_at ans now j + MAINTENANCE_POLL_MS \<le> now + MAINTENANCE_WAIT_MS"
      "fst (ans n) = MaintenanceBusy \<longrightarrow> now + MAINTENANCE_WAIT_MS < answered_at ans now n + MAINTENANCE_POLL_MS"
      "lease_ends (fst (ans n)) l (acquire ans l now)"
    using acquire_from_ends [of now ans 0 now l "now + MAINTENANCE_WAIT_MS"] by (auto simp: acquire_def)
  have "int (aq_requests (acquire ans l now)) * 2000 \<le> 2000 + 120000"
    using acquire_from_requests [of ans l "now + MAINTENANCE_WAIT_MS" 0 now]
    by (simp add: acquire_def MAINTENANCE_POLL_MS_def MAINTENANCE_WAIT_MS_def)
  then have "n < 61" using n(1) by simp
  then show ?thesis
    using n by (intro exI [of _ n]) (auto simp: lease_ends_def split: if_splits)
qed

theorem send_lease_acquired_witness:
  "aq_result (acquire (\<lambda>k. if k < 2 then (MaintenanceBusy, 5) else (Lease (Some ''l''), 5)) ''l'' 0) = Inr ''l''
   \<and> aq_result (acquire (\<lambda>k. if k < 2 then (MaintenanceBusy, 5) else (Lease (Some ''other''), 5)) ''l'' 0) \<noteq> Inr ''l''"
proof -
  let ?a = "\<lambda>l k. if k < (2 :: nat) then (MaintenanceBusy, 5) else (Lease (Some l), 5 :: nat)"
  have r: "aq_requests (acquire (?a l) ''l'' 0) = 3" for l
    by (simp add: acquire_def acquire_from.simps MAINTENANCE_POLL_MS_def MAINTENANCE_WAIT_MS_def)
  show ?thesis
    using send_lease_acquired [of "?a ''l''" "''l''" 0 "''l''"] send_lease_acquired [of "?a ''other''" "''l''" 0 "''l''"]
    by (auto simp: r)
qed

text \<open>The refused recipients of a sent letter are listed once each, as the addresses the server named.\<close>

theorem refused_recipients_once:
  "distinct (map rf_recipient (refusedRecipients vs es))
    \<and> rf_recipient ` set (refusedRecipients vs es) = {r. \<exists>v\<in>set vs. addressOf (recipient_text v) = Some r}"
  using refused_loop_distinct refused_loop_set by (simp add: refusedRecipients_def)

theorem refused_recipients_once_witness:
  "map rf_recipient (refusedRecipients [RText ''B <b@Y>'', RObject None, RText ''b@y''] []) = [''b@y'']
    \<and> distinct (map rf_recipient (refusedRecipients [RText ''B <b@Y>'', RObject None, RText ''b@y''] []))"
proof
  show "map rf_recipient (refusedRecipients [RText ''B <b@Y>'', RObject None, RText ''b@y''] []) = [''b@y'']"
    by code_simp
qed (use refused_recipients_once in blast)

text \<open>A status code found in a server's reply is an enhanced status code that stands in the reply, and it
  is always explained by a class, whatever dictionary entry the reply matches.\<close>

theorem explained_code_in_text:
  assumes "explainDeliveryCode None txt = ex" and "ex_code ex = Some c"
  shows "enhanced_code c \<and> sublist c txt \<and> ex_class ex \<noteq> None \<and> ex_key ex \<noteq> None"
proof -
  have c: "statusCodeIn (Some txt) = Some c" using assms by (auto simp: explainDeliveryCode_def Let_def)
  then have s: "enhanced_code c \<and> sublist c txt" by (rule statusCodeIn_shape)
  then obtain d w where "c = d # w" "CODE_CLASSES d \<noteq> None" using enhanced_code_class by blast
  then show ?thesis
    using assms(1) c s by (auto simp: explainDeliveryCode_def Let_def simp del: CODE_CLASSES.simps split: list.splits)
qed

theorem explained_code_in_text_witness:
  "\<exists>ex. explainDeliveryCode None ''550 5.7.711 Access denied'' = ex \<and> ex_key ex = Some ''connector_blocked''
     \<and> enhanced_code ''5.7.711''"
proof -
  let ?e = "explainDeliveryCode None ''550 5.7.711 Access denied''"
  have "ex_code ?e = Some ''5.7.711''" and "ex_key ?e = Some ''connector_blocked''" by code_simp+
  then show ?thesis using explained_code_in_text [OF refl, of "''550 5.7.711 Access denied''" "''5.7.711''"] by blast
qed

end
