(* ===== verification/MoveQueue.thy ===== *)
theory MoveQueue
  imports Prelude
begin

text \<open>
  DB-first moves: \<open>backend/src/services/moveQueue.js\<close> over the tables \<open>messages\<close> and
  \<open>message_moves\<close> of migration 0075. One definition per SQL statement or transaction of the
  class, and its in-memory guards, expected arrivals and folder holds. What the mail server and the
  other parts of the engine answer is an argument. The invariant is in \<open>MoveInvariant\<close>, the
  worker's runs in \<open>MoveWorker\<close>.

  A table keeps its rows in the order of their ids, in which every statement of the class locks
  them.
\<close>

section \<open>Settings\<close>

definition MOVE_MAX_ATTEMPTS :: nat where "MOVE_MAX_ATTEMPTS = 8"
definition MOVE_RETRY_BASE_MS :: int where "MOVE_RETRY_BASE_MS = 15 * 1000"
definition MOVE_RETRY_MAX_MS :: int where "MOVE_RETRY_MAX_MS = 10 * 60 * 1000"
definition MOVE_CLAIM_LIMIT :: nat where "MOVE_CLAIM_LIMIT = 500"
definition MOVE_AWAITING_RETRY_MS :: int where "MOVE_AWAITING_RETRY_MS = 15 * 1000"
definition MOVE_AWAITING_UID_MAX_MS :: int where "MOVE_AWAITING_UID_MAX_MS = 10 * 60 * 1000"
definition MOVE_LEASE_MS :: int where "MOVE_LEASE_MS = 15 * 60 * 1000"

definition moveRetryDelayMs :: "nat \<Rightarrow> int" where
  "moveRetryDelayMs n = min MOVE_RETRY_MAX_MS (MOVE_RETRY_BASE_MS * 2 ^ (n - 1))"

definition placeholderUid :: "nat \<Rightarrow> int" where
  "placeholderUid i = - int i"

definition isPendingUid :: "int \<Rightarrow> bool" where
  "isPendingUid u \<longleftrightarrow> u < 0"

section \<open>Rows\<close>

type_synonym folder = string

text \<open>The columns of \<open>messages\<close> the queue reads and writes; \<open>ms_claimed\<close> is \<open>expunge_claim IS NOT NULL\<close>.\<close>

record msg =
  ms_id :: string
  ms_account :: string
  ms_folder :: folder
  ms_uid :: int
  ms_mid :: "string option"
  ms_read :: bool
  ms_claimed :: bool
  ms_provider :: "string option"
  ms_synced :: "time_ms option"
  ms_read_changed :: "time_ms option"
  ms_star_changed :: "time_ms option"

datatype move_state = MQueued | MMoving | MAwaiting

record move =
  mv_id :: nat
  mv_account :: string
  mv_row :: string
  mv_mid :: "string option"
  mv_src_folder :: folder
  mv_src_uid :: "int option"
  mv_dest :: folder
  mv_pred :: "nat option"
  mv_drop_row :: bool
  mv_by :: "string option"
  mv_seen :: "bool option"
  mv_flagged :: "bool option"
  mv_state :: move_state
  mv_attempts :: nat
  mv_next :: time_ms
  mv_claimed_at :: "time_ms option"
  mv_sent_at :: "time_ms option"
  mv_awaiting :: "time_ms option"
  mv_error :: "string option"
  mv_created :: time_ms
  mv_updated :: time_ms

record movedb =
  msgs :: "msg list"
  moves :: "move list"
  next_move :: nat

definition msg_of :: "movedb \<Rightarrow> string \<Rightarrow> msg option" where
  "msg_of db i = row_by ms_id i (msgs db)"

definition move_of :: "movedb \<Rightarrow> nat \<Rightarrow> move option" where
  "move_of db i = row_by mv_id i (moves db)"

section \<open>Enqueue\<close>

text \<open>A new queued move of a row, at the row's location, with the sequence's next id.\<close>

definition new_move :: "folder \<Rightarrow> bool \<Rightarrow> string option \<Rightarrow> time_ms \<Rightarrow> nat \<Rightarrow> msg \<Rightarrow> move" where
  "new_move dest drop_row by_user t i r = \<lparr>mv_id = i, mv_account = ms_account r, mv_row = ms_id r, mv_mid = ms_mid r,
     mv_src_folder = ms_folder r, mv_src_uid = Some (ms_uid r), mv_dest = dest, mv_pred = None,
     mv_drop_row = drop_row, mv_by = by_user, mv_seen = None, mv_flagged = None, mv_state = MQueued, mv_attempts = 0,
     mv_next = t, mv_claimed_at = None, mv_sent_at = None, mv_awaiting = None, mv_error = None,
     mv_created = t, mv_updated = t\<rparr>"

definition movable :: "string \<Rightarrow> string list \<Rightarrow> folder \<Rightarrow> msg \<Rightarrow> bool" where
  "movable account ids dest r \<longleftrightarrow> ms_id r \<in> set ids \<and> ms_account r = account \<and> ms_uid r > 0
     \<and> ms_folder r \<noteq> dest \<and> \<not> ms_claimed r"

text \<open>The moved row takes the placeholder of its move; a row without a new move stays.\<close>

definition place_row :: "move list \<Rightarrow> msg \<Rightarrow> msg" where
  "place_row ops r = (case find (\<lambda>op. mv_row op = ms_id r) ops of
     None \<Rightarrow> r | Some op \<Rightarrow> r\<lparr>ms_folder := mv_dest op, ms_uid := placeholderUid (mv_id op)\<rparr>)"

text \<open>The statement of \<open>enqueue\<close>: the moves inserted, each with its row's read state before.\<close>

definition enqueue_fresh ::
  "string \<Rightarrow> string list \<Rightarrow> folder \<Rightarrow> bool \<Rightarrow> string option \<Rightarrow> time_ms \<Rightarrow> movedb \<Rightarrow> (move \<times> bool) list \<times> movedb" where
  "enqueue_fresh account ids dest drop_row by_user t db =
     (let src = filter (movable account ids dest) (msgs db);
          ops = map (\<lambda>(k, r). new_move dest drop_row by_user t (next_move db + k) r) (List.enumerate 0 src)
      in (zip ops (map ms_read src),
          db\<lparr>msgs := map (place_row ops) (msgs db), moves := moves db @ ops,
             next_move := next_move db + length src\<rparr>))"

text \<open>The row at its placeholder and its move, as the statements of \<open>_enqueuePending\<close> join them.\<close>

definition pending_pair :: "movedb \<Rightarrow> string \<Rightarrow> string \<Rightarrow> (msg \<times> move) option" where
  "pending_pair db account rowId = (case msg_of db rowId of
     None \<Rightarrow> None
   | Some r \<Rightarrow>
       if ms_account r = account \<and> ms_uid r < 0
       then (case move_of db (nat (- ms_uid r)) of
           Some op \<Rightarrow> if mv_row op = ms_id r then Some (r, op) else None
         | None \<Rightarrow> None)
       else None)"

definition coalesce :: "'a option \<Rightarrow> 'a option \<Rightarrow> 'a option" where
  "coalesce a b = (case a of Some x \<Rightarrow> Some x | None \<Rightarrow> b)"

definition back_uid :: "move \<Rightarrow> int" where
  "back_uid op = (case mv_src_uid op of Some u \<Rightarrow> u
     | None \<Rightarrow> (case mv_pred op of Some p \<Rightarrow> placeholderUid p | None \<Rightarrow> 0))"

definition located_at :: "string \<Rightarrow> folder \<Rightarrow> int \<Rightarrow> msg \<Rightarrow> bool" where
  "located_at account f u r \<longleftrightarrow> ms_account r = account \<and> ms_folder r = f \<and> ms_uid r = u"

text \<open>
  The latest move is dropped and the row goes back. A row already at that place violates
  UNIQUE(account_id, uid, folder): the statement fails and changes nothing (\<open>Inl ()\<close>).
\<close>

definition cancel_pending ::
  "string \<Rightarrow> string \<Rightarrow> folder \<Rightarrow> movedb \<Rightarrow> (unit + (msg \<times> move) option) \<times> movedb" where
  "cancel_pending account rowId dest db = (case pending_pair db account rowId of
     None \<Rightarrow> (Inr None, db)
   | Some (r, op) \<Rightarrow>
       if \<not> (mv_state op = MQueued \<and> mv_src_folder op = dest) then (Inr None, db)
       else if list_ex (located_at (ms_account r) (mv_src_folder op) (back_uid op)) (msgs db) then (Inl (), db)
       else (Inr (Some (r, op)), db\<lparr>
          moves := sql_update (\<lambda>p. mv_pred op = Some (mv_id p))
            (\<lambda>p. p\<lparr>mv_seen := coalesce (mv_seen op) (mv_seen p), mv_flagged := coalesce (mv_flagged op) (mv_flagged p)\<rparr>)
            (sql_delete (\<lambda>m. mv_id m = mv_id op) (moves db)),
          msgs := sql_update (\<lambda>x. ms_id x = ms_id r)
            (\<lambda>x. x\<lparr>ms_folder := mv_src_folder op, ms_uid := back_uid op\<rparr>) (msgs db)\<rparr>))"

definition retarget_pending ::
  "string \<Rightarrow> string \<Rightarrow> folder \<Rightarrow> bool \<Rightarrow> string option \<Rightarrow> time_ms \<Rightarrow> movedb \<Rightarrow> (msg \<times> move) option \<times> movedb" where
  "retarget_pending account rowId dest drop_row by_user t db = (case pending_pair db account rowId of
     None \<Rightarrow> (None, db)
   | Some (r, op) \<Rightarrow>
       if ms_folder r = dest \<or> mv_state op \<noteq> MQueued then (None, db)
       else let f = (\<lambda>m. m\<lparr>mv_dest := dest, mv_drop_row := drop_row, mv_by := by_user, mv_updated := t\<rparr>)
            in (Some (r, f op), db\<lparr>
                 moves := sql_update (\<lambda>m. mv_id m = mv_id op) f (moves db),
                 msgs := sql_update (\<lambda>x. ms_id x = ms_id r) (\<lambda>x. x\<lparr>ms_folder := dest\<rparr>) (msgs db)\<rparr>))"

definition following_move :: "folder \<Rightarrow> bool \<Rightarrow> string option \<Rightarrow> time_ms \<Rightarrow> nat \<Rightarrow> move \<Rightarrow> move" where
  "following_move dest drop_row by_user t i q = \<lparr>mv_id = i, mv_account = mv_account q, mv_row = mv_row q,
     mv_mid = mv_mid q, mv_src_folder = mv_dest q, mv_src_uid = None, mv_dest = dest, mv_pred = Some (mv_id q),
     mv_drop_row = drop_row, mv_by = by_user, mv_seen = None, mv_flagged = None, mv_state = MQueued, mv_attempts = 0,
     mv_next = t, mv_claimed_at = None, mv_sent_at = None, mv_awaiting = None, mv_error = None,
     mv_created = t, mv_updated = t\<rparr>"

definition follow_pending ::
  "string \<Rightarrow> string \<Rightarrow> folder \<Rightarrow> bool \<Rightarrow> string option \<Rightarrow> time_ms \<Rightarrow> movedb \<Rightarrow> (msg \<times> move) option \<times> movedb" where
  "follow_pending account rowId dest drop_row by_user t db = (case pending_pair db account rowId of
     None \<Rightarrow> (None, db)
   | Some (r, op) \<Rightarrow>
       if ms_folder r = dest \<or> mv_state op = MQueued then (None, db)
       else let i = next_move db; new = following_move dest drop_row by_user t i op
            in (Some (r, new), db\<lparr>
                 moves := moves db @ [new], next_move := Suc i,
                 msgs := sql_update (\<lambda>x. ms_id x = ms_id r)
                   (\<lambda>x. x\<lparr>ms_folder := dest, ms_uid := placeholderUid i\<rparr>) (msgs db)\<rparr>))"

section \<open>Flags deferred onto a move\<close>

datatype flag = Seen | Flagged

fun flag_of :: "flag \<Rightarrow> move \<Rightarrow> bool option" where
  "flag_of Seen m = mv_seen m"
| "flag_of Flagged m = mv_flagged m"

fun set_flag :: "flag \<Rightarrow> bool option \<Rightarrow> move \<Rightarrow> move" where
  "set_flag Seen v m = m\<lparr>mv_seen := v\<rparr>"
| "set_flag Flagged v m = m\<lparr>mv_flagged := v\<rparr>"

definition deferrable :: "movedb \<Rightarrow> string list \<Rightarrow> move \<Rightarrow> bool" where
  "deferrable db ids m \<longleftrightarrow>
     list_ex (\<lambda>r. ms_id r \<in> set ids \<and> ms_uid r = placeholderUid (mv_id m) \<and> ms_id r = mv_row m) (msgs db)"

text \<open>
  \<open>deferFlags\<close>: the rows the route read (id and uid). \<open>deferred\<close> are the rows whose move took
  the value, \<open>located\<close> those whose move settled meanwhile, with their server location.
\<close>

definition deferFlags ::
  "(string \<times> int) list \<Rightarrow> flag \<Rightarrow> bool \<Rightarrow> movedb \<Rightarrow> (string list \<times> (string \<times> int \<times> folder) list) \<times> movedb" where
  "deferFlags rows fl v db =
     (let pending = map fst (filter (\<lambda>r. isPendingUid (snd r)) rows);
          deferred = map mv_row (filter (deferrable db pending) (moves db));
          rest = filter (\<lambda>i. i \<notin> set deferred) pending;
          located = map (\<lambda>r. (ms_id r, ms_uid r, ms_folder r))
            (filter (\<lambda>r. ms_id r \<in> set rest \<and> \<not> isPendingUid (ms_uid r)) (msgs db))
      in ((deferred, located), db\<lparr>moves := sql_update (deferrable db pending) (set_flag fl (Some v)) (moves db)\<rparr>))"

section \<open>Claims, results and returns to the queue\<close>

definition due_moves :: "string \<Rightarrow> (nat \<Rightarrow> bool) \<Rightarrow> time_ms \<Rightarrow> movedb \<Rightarrow> nat list" where
  "due_moves account lk t db = take MOVE_CLAIM_LIMIT (sort (map mv_id
     (filter (\<lambda>m. mv_account m = account \<and> mv_state m = MQueued \<and> mv_src_uid m \<noteq> None \<and> mv_next m \<le> t
                \<and> \<not> lk (mv_id m)) (moves db))))"

definition claim_moves :: "string \<Rightarrow> (nat \<Rightarrow> bool) \<Rightarrow> time_ms \<Rightarrow> movedb \<Rightarrow> move list \<times> movedb" where
  "claim_moves account lk t db =
     (let ids = due_moves account lk t db; p = (\<lambda>m. mv_id m \<in> set ids \<and> mv_state m = MQueued);
          f = (\<lambda>m. m\<lparr>mv_state := MMoving, mv_claimed_at := Some t, mv_sent_at := None, mv_updated := t\<rparr>)
      in (sql_returning p f (moves db), db\<lparr>moves := sql_update p f (moves db)\<rparr>))"

definition still_moving :: "nat list \<Rightarrow> move \<Rightarrow> bool" where
  "still_moving ids m \<longleftrightarrow> mv_id m \<in> set ids \<and> mv_state m = MMoving"

definition mark_sent :: "nat list \<Rightarrow> time_ms \<Rightarrow> movedb \<Rightarrow> movedb" where
  "mark_sent ids t db = db\<lparr>moves := sql_update (still_moving ids)
     (\<lambda>m. m\<lparr>mv_claimed_at := Some t, mv_sent_at := Some t\<rparr>) (moves db)\<rparr>"

definition release_moves :: "nat list \<Rightarrow> time_ms \<Rightarrow> movedb \<Rightarrow> movedb" where
  "release_moves ids t db = db\<lparr>moves := sql_update (still_moving ids)
     (\<lambda>m. m\<lparr>mv_state := MQueued, mv_updated := t\<rparr>) (moves db)\<rparr>"

text \<open>Back by whether the MOVE went out, as \<open>resume\<close>, \<open>sweep\<close> and \<open>_recover\<close> send a move back.\<close>

definition sent_back :: "int \<Rightarrow> time_ms \<Rightarrow> move \<Rightarrow> move" where
  "sent_back wait t m = m\<lparr>mv_state := (if mv_sent_at m = None then MQueued else MAwaiting),
     mv_awaiting := (if mv_sent_at m = None then None else Some t), mv_next := t + wait, mv_updated := t\<rparr>"

definition resume_moves :: "time_ms \<Rightarrow> movedb \<Rightarrow> movedb" where
  "resume_moves t db = db\<lparr>moves := sql_update (\<lambda>m. mv_state m = MMoving) (sent_back 0 t) (moves db)\<rparr>"

definition sweepable :: "string list \<Rightarrow> time_ms \<Rightarrow> move \<Rightarrow> bool" where
  "sweepable running t m \<longleftrightarrow> mv_state m = MMoving
     \<and> ((case mv_claimed_at m of None \<Rightarrow> True | Some c \<Rightarrow> c < t - MOVE_LEASE_MS) \<or> mv_account m \<notin> set running)"

definition sweep :: "string list \<Rightarrow> time_ms \<Rightarrow> movedb \<Rightarrow> move list \<times> movedb" where
  "sweep running t db = (sql_returning (sweepable running t) (sent_back 0 t) (moves db),
     db\<lparr>moves := sql_update (sweepable running t) (sent_back 0 t) (moves db)\<rparr>)"

definition recover :: "nat list \<Rightarrow> time_ms \<Rightarrow> movedb \<Rightarrow> move list \<times> movedb" where
  "recover ids t db = (sql_returning (still_moving ids) (sent_back MOVE_AWAITING_RETRY_MS t) (moves db),
     db\<lparr>moves := sql_update (still_moving ids) (sent_back MOVE_AWAITING_RETRY_MS t) (moves db)\<rparr>)"

definition markAwaiting :: "nat \<Rightarrow> time_ms \<Rightarrow> movedb \<Rightarrow> movedb" where
  "markAwaiting i t db = db\<lparr>moves := sql_update (still_moving [i])
     (\<lambda>m. m\<lparr>mv_state := MAwaiting, mv_awaiting := Some t, mv_next := t + MOVE_AWAITING_RETRY_MS, mv_updated := t\<rparr>)
     (moves db)\<rparr>"

definition lookAgainLater :: "nat \<Rightarrow> time_ms \<Rightarrow> movedb \<Rightarrow> movedb" where
  "lookAgainLater i t db = db\<lparr>moves := sql_update (\<lambda>m. mv_id m = i)
     (\<lambda>m. m\<lparr>mv_next := t + MOVE_AWAITING_RETRY_MS\<rparr>) (moves db)\<rparr>"

definition requeue_awaiting :: "move \<Rightarrow> time_ms \<Rightarrow> movedb \<Rightarrow> movedb" where
  "requeue_awaiting op t db = db\<lparr>moves := sql_update (\<lambda>m. mv_id m = mv_id op \<and> mv_state m = MAwaiting)
     (\<lambda>m. m\<lparr>mv_state := MQueued, mv_sent_at := None, mv_updated := t,
            mv_next := t + (if mv_attempts op > 0 then moveRetryDelayMs (mv_attempts op) else 0)\<rparr>) (moves db)\<rparr>"

definition retry_row :: "nat \<Rightarrow> string \<Rightarrow> bool \<Rightarrow> time_ms \<Rightarrow> move \<Rightarrow> move" where
  "retry_row attempts err unclear t m = m\<lparr>mv_state := (if unclear then MAwaiting else MQueued), mv_attempts := attempts,
     mv_error := Some (take 500 err), mv_awaiting := (if unclear then Some t else None),
     mv_next := t + moveRetryDelayMs attempts, mv_updated := t\<rparr>"

definition retry_move :: "move \<Rightarrow> string \<Rightarrow> bool \<Rightarrow> time_ms \<Rightarrow> movedb \<Rightarrow> movedb" where
  "retry_move op err unclear t db = db\<lparr>moves := sql_update (still_moving [mv_id op])
     (retry_row (Suc (mv_attempts op)) err unclear t) (moves db)\<rparr>"

section \<open>Settle, revert, drop\<close>

text \<open>
  What a transaction found: the move as it was, the move that follows it (now standing on its own),
  the row that took the place (as it was before), where, and whether its provider ids are missing.
\<close>

record settled =
  st_op :: move
  st_next :: "move option"
  st_row :: "msg option"
  st_uid :: int
  st_folder :: folder
  st_needs_ids :: bool

definition follows :: "nat \<Rightarrow> move \<Rightarrow> bool" where
  "follows i m \<longleftrightarrow> mv_pred m = Some i"

definition remove_move :: "nat \<Rightarrow> movedb \<Rightarrow> movedb" where
  "remove_move i db = db\<lparr>moves := sql_delete (\<lambda>m. mv_id m = i) (moves db)\<rparr>"

definition take_over :: "move \<Rightarrow> int \<Rightarrow> folder \<Rightarrow> time_ms \<Rightarrow> move \<Rightarrow> move" where
  "take_over cur u at t m = m\<lparr>mv_src_folder := at, mv_src_uid := Some u, mv_pred := None,
     mv_seen := coalesce (mv_seen m) (mv_seen cur), mv_flagged := coalesce (mv_flagged m) (mv_flagged cur),
     mv_updated := t\<rparr>"

definition settle_row :: "move \<Rightarrow> int \<Rightarrow> folder \<Rightarrow> time_ms \<Rightarrow> msg \<Rightarrow> msg" where
  "settle_row cur u at t r = r\<lparr>ms_uid := u, ms_folder := at, ms_synced := Some t,
     ms_read_changed := (if mv_seen cur = None then ms_read_changed r else Some t),
     ms_star_changed := (if mv_flagged cur = None then ms_star_changed r else Some t)\<rparr>"

text \<open>The row at a place that is not the moved row goes; the moved row keeps its id.\<close>

definition displaced :: "string \<Rightarrow> folder \<Rightarrow> int \<Rightarrow> string \<Rightarrow> msg \<Rightarrow> bool" where
  "displaced account f u rowId r \<longleftrightarrow> located_at account f u r \<and> ms_id r \<noteq> rowId"

definition settle :: "move \<Rightarrow> int \<Rightarrow> folder option \<Rightarrow> time_ms \<Rightarrow> movedb \<Rightarrow> settled option \<times> movedb" where
  "settle op newUid place t db = (case move_of db (mv_id op) of
     None \<Rightarrow> (None, db)
   | Some cur \<Rightarrow>
       let row = msg_of db (mv_row op); at = (case place of Some f \<Rightarrow> f | None \<Rightarrow> mv_dest cur);
           db1 = remove_move (mv_id cur) db;
           nothing = \<lparr>st_op = cur, st_next = None, st_row = None, st_uid = newUid, st_folder = at, st_needs_ids = False\<rparr>
       in (case find (follows (mv_id cur)) (moves db1) of
             Some m \<Rightarrow>
               (Some (nothing\<lparr>st_next := Some (take_over cur newUid at t m)\<rparr>),
                db1\<lparr>moves := sql_update (follows (mv_id cur)) (take_over cur newUid at t) (moves db1)\<rparr>)
           | None \<Rightarrow>
               (case row of
                  None \<Rightarrow> (Some nothing, db1)
                | Some r \<Rightarrow>
                    if ms_uid r \<noteq> placeholderUid (mv_id cur) then (Some nothing, db1)
                    else if mv_drop_row cur \<and> at = mv_dest cur
                    then (Some nothing, db1\<lparr>msgs := sql_delete (\<lambda>x. ms_id x = ms_id r) (msgs db1)\<rparr>)
                    else (Some (nothing\<lparr>st_row := Some r, st_needs_ids := (ms_provider r = None)\<rparr>),
                          db1\<lparr>msgs := sql_update (\<lambda>x. ms_id x = ms_id r) (settle_row cur newUid at t)
                            (sql_delete (displaced (mv_account cur) at newUid (ms_id r)) (msgs db1))\<rparr>))))"

definition revert :: "move \<Rightarrow> time_ms \<Rightarrow> movedb \<Rightarrow> settled option \<times> movedb" where
  "revert op t db = (case move_of db (mv_id op) of
     None \<Rightarrow> (None, db)
   | Some cur \<Rightarrow>
       let row = msg_of db (mv_row op); db1 = remove_move (mv_id cur) db;
           back = (\<lambda>m. m\<lparr>mv_src_folder := mv_src_folder cur, mv_src_uid := mv_src_uid cur, mv_pred := mv_pred cur,
                          mv_updated := t\<rparr>);
           nothing = \<lparr>st_op = cur, st_next = None, st_row = None, st_uid = back_uid cur,
                      st_folder = mv_src_folder cur, st_needs_ids = False\<rparr>
       in (case find (follows (mv_id cur)) (moves db1) of
             Some m \<Rightarrow> (Some (nothing\<lparr>st_next := Some (back m)\<rparr>),
                        db1\<lparr>moves := sql_update (follows (mv_id cur)) back (moves db1)\<rparr>)
           | None \<Rightarrow>
               (case row of
                  None \<Rightarrow> (Some nothing, db1)
                | Some r \<Rightarrow>
                    if ms_uid r \<noteq> placeholderUid (mv_id cur) then (Some nothing, db1)
                    else (Some (nothing\<lparr>st_row := Some r\<rparr>),
                          db1\<lparr>msgs := sql_update (\<lambda>x. ms_id x = ms_id r)
                            (\<lambda>x. x\<lparr>ms_folder := mv_src_folder cur, ms_uid := back_uid cur, ms_synced := Some t\<rparr>)
                            (sql_delete (displaced (mv_account cur) (mv_src_folder cur) (back_uid cur) (ms_id r))
                               (msgs db1))\<rparr>))))"

text \<open>Resolves the moves that followed and went too.\<close>

definition drop_move :: "move \<Rightarrow> movedb \<Rightarrow> move list option \<times> movedb" where
  "drop_move op db = (case move_of db (mv_id op) of
     None \<Rightarrow> (None, db)
   | Some _ \<Rightarrow>
       let next = filter (follows (mv_id op)) (sql_delete (\<lambda>m. mv_id m = mv_id op) (moves db));
           ids = mv_id op # map mv_id next;
           at_placeholder = (\<lambda>r. ms_id r = mv_row op \<and> list_ex (\<lambda>i. ms_uid r = placeholderUid i) ids)
       in (Some next, db\<lparr>
            moves := sql_delete (follows (mv_id op)) (sql_delete (\<lambda>m. mv_id m = mv_id op) (moves db)),
            msgs := sql_delete at_placeholder (msgs db)\<rparr>))"

section \<open>The rename of a folder\<close>

text \<open>
  The rename route (\<open>routes/mail.js\<close>): every path of the renamed tree, of the letters (one whose new place
  is taken goes) and then of the moves.
\<close>

definition in_tree :: "folder \<Rightarrow> string \<Rightarrow> folder \<Rightarrow> bool" where
  "in_tree old delim f \<longleftrightarrow> f = old \<or> take (length (old @ delim)) f = old @ delim"

definition renamed :: "folder \<Rightarrow> string \<Rightarrow> folder \<Rightarrow> folder \<Rightarrow> folder" where
  "renamed old delim new f = (if in_tree old delim f then new @ drop (length old) f else f)"

definition rename_messages :: "string \<Rightarrow> folder \<Rightarrow> string \<Rightarrow> folder \<Rightarrow> movedb \<Rightarrow> movedb" where
  "rename_messages account old delim new db = (let inside = (\<lambda>r. ms_account r = account \<and> in_tree old delim (ms_folder r)) in
     db\<lparr>msgs := sql_update inside (\<lambda>r. r\<lparr>ms_folder := renamed old delim new (ms_folder r)\<rparr>)
       (sql_delete (\<lambda>r. inside r \<and> list_ex (located_at account (renamed old delim new (ms_folder r)) (ms_uid r)) (msgs db)) (msgs db))\<rparr>)"

definition rename_moves :: "string \<Rightarrow> folder \<Rightarrow> string \<Rightarrow> folder \<Rightarrow> time_ms \<Rightarrow> movedb \<Rightarrow> movedb" where
  "rename_moves account old delim new t db = db\<lparr>moves :=
     sql_update (\<lambda>m. mv_account m = account \<and> (in_tree old delim (mv_src_folder m) \<or> in_tree old delim (mv_dest m)))
       (\<lambda>m. m\<lparr>mv_src_folder := renamed old delim new (mv_src_folder m), mv_dest := renamed old delim new (mv_dest m), mv_updated := t\<rparr>) (moves db)\<rparr>"

definition renameFolder :: "string \<Rightarrow> folder \<Rightarrow> string \<Rightarrow> folder \<Rightarrow> time_ms \<Rightarrow> movedb \<Rightarrow> movedb" where
  "renameFolder account old delim new t db = rename_moves account old delim new t (rename_messages account old delim new db)"

end
