(* ===== verification/MoveInvariant.thy ===== *)
theory MoveInvariant
  imports MoveQueue "HOL-Library.Multiset"
begin

text \<open>
  The invariant of the move queue and the steps of everything that touches its tables: the routes,
  the worker, the syncs that insert letters, whatever deletes rows. A row on a placeholder always
  has its move; a move always knows where its letter is on the server, or follows one that does; no
  two rows claim the same place.
\<close>

section \<open>The invariant\<close>

definition place :: "msg \<Rightarrow> string \<times> folder \<times> int" where
  "place r = (ms_account r, ms_folder r, ms_uid r)"

definition held_by_move :: "move list \<Rightarrow> msg \<Rightarrow> bool" where
  "held_by_move ops r \<longleftrightarrow> (\<exists>op\<in>set ops. ms_uid r = placeholderUid (mv_id op) \<and> mv_row op = ms_id r
     \<and> mv_account op = ms_account r \<and> mv_dest op = ms_folder r)"

text \<open>A move knows its source, or follows a move of the same letter that brings it there.\<close>

definition source_known :: "move list \<Rightarrow> move \<Rightarrow> bool" where
  "source_known ops m \<longleftrightarrow> (case mv_src_uid m of
     Some u \<Rightarrow> u > 0 \<and> mv_pred m = None
   | None \<Rightarrow> mv_state m = MQueued \<and> (\<exists>q\<in>set ops. mv_pred m = Some (mv_id q) \<and> mv_id q < mv_id m
       \<and> mv_row q = mv_row m \<and> mv_account q = mv_account m \<and> mv_dest q = mv_src_folder m))"

definition mq_inv :: "movedb \<Rightarrow> bool" where
  "mq_inv db \<longleftrightarrow>
     distinct (map ms_id (msgs db)) \<and> distinct (map mv_id (moves db)) \<and> distinct (map place (msgs db))
   \<and> (\<forall>m\<in>set (moves db). 0 < mv_id m \<and> mv_id m < next_move db \<and> source_known (moves db) m)
   \<and> (\<forall>a\<in>set (moves db). \<forall>b\<in>set (moves db). mv_row a = mv_row b \<and> mv_id a < mv_id b \<longrightarrow> mv_pred b = Some (mv_id a))
   \<and> (\<forall>r\<in>set (msgs db). ms_uid r \<noteq> 0 \<and> (ms_uid r < 0 \<longrightarrow> held_by_move (moves db) r))
   \<and> (\<forall>m\<in>set (moves db). \<forall>r\<in>set (msgs db). ms_id r = mv_row m \<longrightarrow> ms_uid r \<le> placeholderUid (mv_id m))
   \<and> next_move db > 0"

lemma mq_invD:
  assumes "mq_inv db"
  shows "distinct (map ms_id (msgs db))" "distinct (map mv_id (moves db))" "distinct (map place (msgs db))"
    and "\<And>m. m \<in> set (moves db) \<Longrightarrow> 0 < mv_id m" "\<And>m. m \<in> set (moves db) \<Longrightarrow> mv_id m < next_move db"
    and "\<And>m. m \<in> set (moves db) \<Longrightarrow> source_known (moves db) m"
    and "\<And>a b. a \<in> set (moves db) \<Longrightarrow> b \<in> set (moves db) \<Longrightarrow> mv_row a = mv_row b \<Longrightarrow> mv_id a < mv_id b
           \<Longrightarrow> mv_pred b = Some (mv_id a)"
    and "\<And>r. r \<in> set (msgs db) \<Longrightarrow> ms_uid r < 0 \<Longrightarrow> held_by_move (moves db) r"
    and "\<And>r. r \<in> set (msgs db) \<Longrightarrow> ms_uid r \<noteq> 0"
    and "\<And>m r. m \<in> set (moves db) \<Longrightarrow> r \<in> set (msgs db) \<Longrightarrow> ms_id r = mv_row m \<Longrightarrow> ms_uid r \<le> placeholderUid (mv_id m)"
    and "next_move db > 0"
  using assms by (auto simp: mq_inv_def)

lemma placeholder_inj [simp]: "placeholderUid a = placeholderUid b \<longleftrightarrow> a = b"
  by (simp add: placeholderUid_def)

lemma move_eq: "distinct (map mv_id ms) \<Longrightarrow> a \<in> set ms \<Longrightarrow> b \<in> set ms \<Longrightarrow> mv_id a = mv_id b \<Longrightarrow> a = b"
  by (auto simp: distinct_map dest: inj_onD)

lemma msg_eq: "distinct (map ms_id rs) \<Longrightarrow> a \<in> set rs \<Longrightarrow> b \<in> set rs \<Longrightarrow> ms_id a = ms_id b \<Longrightarrow> a = b"
  by (auto simp: distinct_map dest: inj_onD)

lemma place_eq: "distinct (map place rs) \<Longrightarrow> a \<in> set rs \<Longrightarrow> b \<in> set rs \<Longrightarrow> place a = place b \<Longrightarrow> a = b"
  by (auto simp: distinct_map dest: inj_onD)

lemma row_placed:
  assumes "mq_inv db" and "r \<in> set (msgs db)" and "ms_uid r > 0" and "m \<in> set (moves db)"
  shows "mv_row m \<noteq> ms_id r"
  using mq_invD(10) [OF assms(1,4,2)] mq_invD(4) [OF assms(1,4)] assms(3) by (auto simp: placeholderUid_def)

section \<open>Steps that only change how a move stands\<close>

text \<open>A change of moves that keeps what the invariant reads of them.\<close>

definition keeps_route :: "(move \<Rightarrow> move) \<Rightarrow> bool" where
  "keeps_route f \<longleftrightarrow> (\<forall>m. mv_id (f m) = mv_id m \<and> mv_row (f m) = mv_row m \<and> mv_account (f m) = mv_account m
     \<and> mv_src_folder (f m) = mv_src_folder m \<and> mv_src_uid (f m) = mv_src_uid m \<and> mv_dest (f m) = mv_dest m
     \<and> mv_pred (f m) = mv_pred m)"

lemma in_updateE:
  assumes "x \<in> set (sql_update p f t)"
  obtains y where "y \<in> set t" and "x = (if p y then f y else y)"
  using assms by (auto simp: sql_update_def)

lemma in_updateI: "y \<in> set t \<Longrightarrow> (if p y then f y else y) \<in> set (sql_update p f t)"
  by (auto simp: sql_update_def)

lemma inv_states:
  assumes inv: "mq_inv db" and f: "keeps_route f"
    and st: "\<And>m. m \<in> set (moves db) \<Longrightarrow> p m \<Longrightarrow> mv_src_uid m = None \<Longrightarrow> mv_state (f m) = MQueued"
  shows "mq_inv (db\<lparr>moves := sql_update p f (moves db)\<rparr>)"
proof -
  let ?g = "\<lambda>m. if p m then f m else m"
  let ?ms = "sql_update p f (moves db)"
  note D = mq_invD [OF inv]
  have g: "mv_id (?g m) = mv_id m" "mv_row (?g m) = mv_row m" "mv_account (?g m) = mv_account m"
    "mv_src_folder (?g m) = mv_src_folder m" "mv_src_uid (?g m) = mv_src_uid m" "mv_dest (?g m) = mv_dest m"
    "mv_pred (?g m) = mv_pred m" for m
    using f by (simp_all add: keeps_route_def)
  have ids: "map mv_id ?ms = map mv_id (moves db)" by (simp add: sql_update_def g comp_def)
  have src: "source_known ?ms (?g m)" if m: "m \<in> set (moves db)" for m
  proof (cases "mv_src_uid m")
    case None
    then have st': "mv_state (?g m) = MQueued" using D(6) [OF m] st [OF m] by (simp add: source_known_def)
    obtain q where q: "q \<in> set (moves db)" "mv_pred m = Some (mv_id q)" "mv_id q < mv_id m"
        "mv_row q = mv_row m" "mv_account q = mv_account m" "mv_dest q = mv_src_folder m"
      using D(6) [OF m] None by (auto simp: source_known_def)
    show ?thesis
      using None st' q in_updateI [OF q(1), of p f]
      by (auto simp: source_known_def g intro!: bexI [of _ "?g q"])
  next
    case (Some u)
    then show ?thesis using D(6) [OF m] by (simp add: source_known_def g)
  qed
  have held: "held_by_move ?ms r" if h: "held_by_move (moves db) r" for r
  proof -
    obtain op where op: "op \<in> set (moves db)" "ms_uid r = placeholderUid (mv_id op)" "mv_row op = ms_id r"
        "mv_account op = ms_account r" "mv_dest op = ms_folder r"
      using h unfolding held_by_move_def by blast
    show ?thesis
      unfolding held_by_move_def by (rule bexI [of _ "?g op"]) (use op in_updateI [OF op(1)] in \<open>simp_all add: g\<close>)
  qed
  show ?thesis
    unfolding mq_inv_def
  proof (intro conjI ballI impI)
    show "distinct (map mv_id (moves (db\<lparr>moves := ?ms\<rparr>)))" using D(2) ids by simp
    fix m assume m: "m \<in> set (moves (db\<lparr>moves := ?ms\<rparr>))"
    then obtain m0 where m0: "m0 \<in> set (moves db)" "m = ?g m0" by (auto elim: in_updateE)
    show "0 < mv_id m" "mv_id m < next_move (db\<lparr>moves := ?ms\<rparr>)"
      using D(4,5) [OF m0(1)] m0(2) g by simp_all
    show "source_known (moves (db\<lparr>moves := ?ms\<rparr>)) m" using src [OF m0(1)] m0(2) by simp
    fix b assume "b \<in> set (moves (db\<lparr>moves := ?ms\<rparr>))" and c: "mv_row m = mv_row b \<and> mv_id m < mv_id b"
    then obtain b0 where "b0 \<in> set (moves db)" "b = ?g b0" by (auto elim: in_updateE)
    then show "mv_pred b = Some (mv_id m)" using D(7) [OF m0(1), of b0] c m0(2) g by simp
  next
    fix m r assume "m \<in> set (moves (db\<lparr>moves := ?ms\<rparr>))" and r: "r \<in> set (msgs (db\<lparr>moves := ?ms\<rparr>))" "ms_id r = mv_row m"
    then obtain m0 where "m0 \<in> set (moves db)" "m = ?g m0" by (auto elim: in_updateE)
    then show "ms_uid r \<le> placeholderUid (mv_id m)" using D(10) [of m0 r] r g by simp
  qed (use D held in auto)
qed

lemma state_steps:
  assumes "mq_inv db"
  shows "mq_inv (snd (deferFlags rows fl v db))" "mq_inv (snd (claim_moves account lk t db))"
    "mq_inv (mark_sent ids t db)" "mq_inv (release_moves ids t db)" "mq_inv (resume_moves t db)"
    "mq_inv (snd (sweep running t db))" "mq_inv (snd (recover ids t db))" "mq_inv (markAwaiting i t db)"
    "mq_inv (lookAgainLater i t db)" "mq_inv (requeue_awaiting op t db)" "mq_inv (retry_move op err unclear t db)"
proof -
  note S = mq_invD(6) [OF assms]
  have moving: "mv_src_uid m \<noteq> None" if "m \<in> set (moves db)" "mv_state m \<noteq> MQueued" for m
    using S [OF that(1)] that(2) by (auto simp: source_known_def split: option.splits)
  have waits: "mv_state m = MQueued" if "m \<in> set (moves db)" "mv_src_uid m = None" for m
    using moving that by blast
  show "mq_inv (snd (deferFlags rows fl v db))"
    unfolding deferFlags_def Let_def snd_conv
  proof (rule inv_states [OF assms])
    show "keeps_route (set_flag fl (Some v))" by (cases fl) (simp_all add: keeps_route_def)
    show "mv_state (set_flag fl (Some v) m) = MQueued" if "m \<in> set (moves db)" "mv_src_uid m = None" for m
      using moving [OF that(1)] that(2) by (cases fl) auto
  qed
  show "mq_inv (snd (claim_moves account lk t db))"
    unfolding claim_moves_def Let_def snd_conv
  proof (rule inv_states [OF assms])
    fix m assume m: "m \<in> set (moves db)" "mv_id m \<in> set (due_moves account lk t db) \<and> mv_state m = MQueued" "mv_src_uid m = None"
    have "mv_id m \<in> mv_id ` {x \<in> set (moves db). mv_src_uid x \<noteq> None}"
      using m(2) by (auto simp: due_moves_def dest!: in_set_takeD)
    then obtain x where x: "x \<in> set (moves db)" "mv_id x = mv_id m" "mv_src_uid x \<noteq> None" by auto
    then have "x = m" using move_eq [OF mq_invD(2) [OF assms] x(1) m(1) x(2)] by blast
    then show "mv_state (m\<lparr>mv_state := MMoving, mv_claimed_at := Some t, mv_sent_at := None, mv_updated := t\<rparr>) = MQueued"
      using x(3) m(3) by simp
  qed (simp add: keeps_route_def)
  show "mq_inv (mark_sent ids t db)" unfolding mark_sent_def
    by (rule inv_states [OF assms]) (auto simp: keeps_route_def still_moving_def dest: moving)
  show "mq_inv (release_moves ids t db)" unfolding release_moves_def
    by (rule inv_states [OF assms]) (auto simp: keeps_route_def)
  show "mq_inv (resume_moves t db)" unfolding resume_moves_def
    by (rule inv_states [OF assms]) (auto simp: keeps_route_def sent_back_def dest: moving)
  show "mq_inv (snd (sweep running t db))" unfolding sweep_def snd_conv
    by (rule inv_states [OF assms]) (auto simp: keeps_route_def sent_back_def sweepable_def dest: moving)
  show "mq_inv (snd (recover ids t db))" unfolding recover_def snd_conv
    by (rule inv_states [OF assms]) (auto simp: keeps_route_def sent_back_def still_moving_def dest: moving)
  show "mq_inv (markAwaiting i t db)" unfolding markAwaiting_def
    by (rule inv_states [OF assms]) (auto simp: keeps_route_def still_moving_def dest: moving)
  show "mq_inv (lookAgainLater i t db)" unfolding lookAgainLater_def
    by (rule inv_states [OF assms]) (use waits in \<open>simp_all add: keeps_route_def\<close>)
  show "mq_inv (requeue_awaiting op t db)" unfolding requeue_awaiting_def
    by (rule inv_states [OF assms]) (auto simp: keeps_route_def)
  show "mq_inv (retry_move op err unclear t db)" unfolding retry_move_def
    by (rule inv_states [OF assms]) (auto simp: keeps_route_def retry_row_def still_moving_def dest: moving)
qed

section \<open>The row at its placeholder\<close>

lemma pending_pairD:
  assumes "mq_inv db" and "pending_pair db account rowId = Some (r, op)"
  shows "r \<in> set (msgs db)" "op \<in> set (moves db)" "ms_id r = rowId" "mv_row op = ms_id r"
    "ms_uid r = placeholderUid (mv_id op)" "ms_account r = account" "mv_account op = account" "mv_dest op = ms_folder r"
    and "\<And>m. m \<in> set (moves db) \<Longrightarrow> mv_pred m \<noteq> Some (mv_id op)"
    and "\<And>m. m \<in> set (moves db) \<Longrightarrow> mv_row m = mv_row op \<Longrightarrow> m \<noteq> op \<Longrightarrow> mv_pred op = Some (mv_id m) \<and> mv_id m < mv_id op"
proof -
  note D = mq_invD [OF assms(1)]
  have *: "msg_of db rowId = Some r \<and> ms_account r = account \<and> ms_uid r < 0
      \<and> move_of db (nat (- ms_uid r)) = Some op \<and> mv_row op = ms_id r"
    using assms(2) by (auto simp: pending_pair_def split: option.splits if_splits)
  show r: "r \<in> set (msgs db)" and "ms_id r = rowId" using * by (auto simp: msg_of_def dest: row_by_SomeD)
  show op: "op \<in> set (moves db)" and row: "mv_row op = ms_id r" and "ms_account r = account"
    using * by (auto simp: move_of_def dest: row_by_SomeD)
  have "mv_id op = nat (- ms_uid r)" using * by (auto simp: move_of_def dest: row_by_SomeD)
  then show uid: "ms_uid r = placeholderUid (mv_id op)" using * by (simp add: placeholderUid_def)
  have "held_by_move (moves db) r" using D(8) [OF r] * by blast
  then obtain op' where o': "op' \<in> set (moves db)" "ms_uid r = placeholderUid (mv_id op')"
      "mv_account op' = ms_account r" "mv_dest op' = ms_folder r"
    by (auto simp: held_by_move_def)
  have "placeholderUid (mv_id op') = placeholderUid (mv_id op)" by (rule trans [OF o'(2) [symmetric] uid])
  then have "op' = op" by (intro move_eq [OF D(2) o'(1) op]) (simp only: placeholder_inj)
  then show "mv_account op = account" "mv_dest op = ms_folder r" using o' * by auto
  show later: "mv_pred m \<noteq> Some (mv_id op)" if m: "m \<in> set (moves db)" for m
  proof
    assume p: "mv_pred m = Some (mv_id op)"
    have "mv_src_uid m = None" using D(6) [OF m] p by (auto simp: source_known_def split: option.splits)
    then obtain q where q: "q \<in> set (moves db)" "mv_id q = mv_id op" "mv_id q < mv_id m" "mv_row q = mv_row m"
      using D(6) [OF m] p by (auto simp: source_known_def)
    have "q = op" by (rule move_eq [OF D(2) q(1) op q(2)])
    then have "ms_id r = mv_row m" "mv_id op < mv_id m" using q row by simp_all
    then show False using D(10) [OF m r] uid by (simp add: placeholderUid_def)
  qed
  fix m assume m: "m \<in> set (moves db)" and mr: "mv_row m = mv_row op" and ne: "m \<noteq> op"
  have "mv_id m \<noteq> mv_id op" using move_eq [OF D(2) m op] ne by blast
  moreover have "\<not> mv_id op < mv_id m"
  proof
    assume "mv_id op < mv_id m"
    then have "mv_pred m = Some (mv_id op)" using D(7) [OF op m] mr by simp
    then show False using later [OF m] by blast
  qed
  ultimately have lt: "mv_id m < mv_id op" by simp
  then show "mv_pred op = Some (mv_id m) \<and> mv_id m < mv_id op" using D(7) [OF m op mr] by simp
qed

section \<open>A row changes its place\<close>

text \<open>One row takes another place that no other row has.\<close>

lemma places_update:
  assumes "distinct (map ms_id rs)" and "distinct (map place rs)" and "r \<in> set rs"
    and "\<And>x. ms_id (f x) = ms_id x"
    and "\<And>x. x \<in> set rs \<Longrightarrow> ms_id x \<noteq> ms_id r \<Longrightarrow> place x \<noteq> place (f r)"
  shows "distinct (map place (sql_update (\<lambda>x. ms_id x = ms_id r) f rs))"
proof -
  let ?g = "\<lambda>x. if ms_id x = ms_id r then f x else x"
  have "inj_on (\<lambda>x. place (?g x)) (set rs)"
  proof (rule inj_onI)
    fix x y assume x: "x \<in> set rs" and y: "y \<in> set rs" and e: "place (?g x) = place (?g y)"
    have "x = r" if "ms_id x = ms_id r" "x \<in> set rs" for x using msg_eq [OF assms(1) that(2) assms(3) that(1)] .
    then show "x = y"
      using x y e assms(5) place_eq [OF assms(2) x y] by (cases "ms_id x = ms_id r"; cases "ms_id y = ms_id r") fastforce+
  qed
  moreover have "distinct rs" using assms(1) by (simp add: distinct_map)
  ultimately have "distinct (map (\<lambda>x. place (?g x)) rs)" by (simp add: distinct_map)
  then show ?thesis by (simp add: sql_update_def comp_def)
qed

lemma free_placeholder:
  assumes "mq_inv db" and "x \<in> set (msgs db)" and "ms_uid x = placeholderUid i" and "\<And>m. m \<in> set (moves db) \<Longrightarrow> mv_id m \<noteq> i"
    and "i > 0"
  shows False
proof -
  have "ms_uid x < 0" using assms(3,5) by (simp add: placeholderUid_def)
  then show False using mq_invD(8) [OF assms(1,2)] assms(3,4) by (auto simp: held_by_move_def)
qed

lemma inv_retarget: 
  assumes inv: "mq_inv db"
  shows "mq_inv (snd (retarget_pending account rowId dest drop_row by_user t db))"
proof (cases "pending_pair db account rowId")
  case None
  then show ?thesis using inv by (simp add: retarget_pending_def)
next
  case (Some x)
  obtain r op where x: "x = (r, op)" by (cases x)
  show ?thesis
  proof (cases "ms_folder r = dest \<or> mv_state op \<noteq> MQueued")
    case True
    then show ?thesis using inv Some x by (auto simp: retarget_pending_def)
  next
    case False
    note D = mq_invD [OF inv] and P = pending_pairD [OF inv Some [unfolded x]]
    let ?f = "\<lambda>m. m\<lparr>mv_dest := dest, mv_drop_row := drop_row, mv_by := by_user, mv_updated := t\<rparr>"
    let ?ms = "sql_update (\<lambda>m. mv_id m = mv_id op) ?f (moves db)"
    let ?h = "\<lambda>x. x\<lparr>ms_folder := dest\<rparr>"
    let ?rs = "sql_update (\<lambda>x. ms_id x = ms_id r) ?h (msgs db)"
    let ?g = "\<lambda>m. if mv_id m = mv_id op then ?f m else m"
    have res: "snd (retarget_pending account rowId dest drop_row by_user t db) = db\<lparr>moves := ?ms, msgs := ?rs\<rparr>"
      using Some x False by (simp add: retarget_pending_def Let_def)
    have places: "distinct (map place ?rs)"
    proof (rule places_update [OF D(1,3) P(1)])
      fix y assume y: "y \<in> set (msgs db)" "ms_id y \<noteq> ms_id r"
      show "place y \<noteq> place (?h r)"
      proof
        assume "place y = place (?h r)"
        then have u: "ms_uid y = placeholderUid (mv_id op)" using P(5) by (simp add: place_def)
        then have "ms_uid y < 0" using D(4) [OF P(2)] by (simp add: placeholderUid_def)
        then obtain o' where "o' \<in> set (moves db)" "mv_id o' = mv_id op" "mv_row o' = ms_id y"
          using D(8) [OF y(1)] u by (auto simp: held_by_move_def)
        then show False using move_eq [OF D(2) _ P(2)] P(4) y(2) by metis
      qed
    qed simp
    have src: "source_known ?ms (?g m)" if m: "m \<in> set (moves db)" for m
    proof (cases "mv_src_uid m")
      case None
      then obtain q where q: "q \<in> set (moves db)" "mv_pred m = Some (mv_id q)" "mv_id q < mv_id m"
          "mv_row q = mv_row m" "mv_account q = mv_account m" "mv_dest q = mv_src_folder m"
        using D(6) [OF m] by (auto simp: source_known_def)
      then have "mv_id q \<noteq> mv_id op" using P(9) [OF m] by auto
      then have "q \<in> set ?ms" using in_updateI [OF q(1), of "\<lambda>m. mv_id m = mv_id op" ?f] by simp
      then show ?thesis using None D(6) [OF m] q by (auto simp: source_known_def intro!: bexI [of _ q])
    next
      case (Some u)
      then show ?thesis using D(6) [OF m] by (auto simp: source_known_def)
    qed
    have held: "held_by_move ?ms y'" if y: "y \<in> set (msgs db)" "ms_uid y < 0"
        and y': "y' = (if ms_id y = ms_id r then ?h y else y)" for y y'
    proof (cases "ms_id y = ms_id r")
      case True
      then have "y = r" using msg_eq [OF D(1) y(1) P(1)] by blast
      then show ?thesis
        unfolding held_by_move_def using P y' in_updateI [OF P(2), of "\<lambda>m. mv_id m = mv_id op" ?f]
        by (intro bexI [of _ "?f op"]) auto
    next
      case False
      obtain o' where o': "o' \<in> set (moves db)" "ms_uid y = placeholderUid (mv_id o')" "mv_row o' = ms_id y"
          "mv_account o' = ms_account y" "mv_dest o' = ms_folder y"
        using D(8) [OF y] by (auto simp: held_by_move_def)
      then have "mv_id o' \<noteq> mv_id op" using move_eq [OF D(2) o'(1) P(2)] P(4) False by metis
      then show ?thesis
        unfolding held_by_move_def using False y' o' in_updateI [OF o'(1), of "\<lambda>m. mv_id m = mv_id op" ?f]
        by (intro bexI [of _ o']) auto
    qed
    show ?thesis
      unfolding res mq_inv_def
    proof (intro conjI ballI impI)
      show "distinct (map ms_id (msgs (db\<lparr>moves := ?ms, msgs := ?rs\<rparr>)))"
        using D(1) by (simp add: sql_update_def comp_def if_distrib cong: if_cong)
      show "distinct (map mv_id (moves (db\<lparr>moves := ?ms, msgs := ?rs\<rparr>)))"
        using D(2) by (simp add: sql_update_def comp_def if_distrib cong: if_cong)
      show "distinct (map place (msgs (db\<lparr>moves := ?ms, msgs := ?rs\<rparr>)))" using places by simp
      fix m assume "m \<in> set (moves (db\<lparr>moves := ?ms, msgs := ?rs\<rparr>))"
      then obtain m0 where m0: "m0 \<in> set (moves db)" "m = ?g m0" by (auto elim: in_updateE)
      show "0 < mv_id m" "mv_id m < next_move (db\<lparr>moves := ?ms, msgs := ?rs\<rparr>)" using D(4,5) [OF m0(1)] m0(2) by simp_all
      show "source_known (moves (db\<lparr>moves := ?ms, msgs := ?rs\<rparr>)) m" using src [OF m0(1)] m0(2) by simp
      fix b assume "b \<in> set (moves (db\<lparr>moves := ?ms, msgs := ?rs\<rparr>))" and c: "mv_row m = mv_row b \<and> mv_id m < mv_id b"
      then obtain b0 where "b0 \<in> set (moves db)" "b = ?g b0" by (auto elim: in_updateE)
      then show "mv_pred b = Some (mv_id m)" using D(7) [OF m0(1), of b0] c m0(2) by (auto split: if_splits)
    next
      fix m y assume m: "m \<in> set (moves (db\<lparr>moves := ?ms, msgs := ?rs\<rparr>))" and y: "y \<in> set (msgs (db\<lparr>moves := ?ms, msgs := ?rs\<rparr>))"
        and e: "ms_id y = mv_row m"
      obtain m0 where m0: "m0 \<in> set (moves db)" "m = ?g m0" using m by (auto elim: in_updateE)
      obtain y0 where y0: "y0 \<in> set (msgs db)" "y = (if ms_id y0 = ms_id r then ?h y0 else y0)" using y by (auto elim: in_updateE)
      show "ms_uid y \<le> placeholderUid (mv_id m)"
        using D(10) [OF m0(1) y0(1)] e m0(2) y0(2) by (simp split: if_splits)
    next
      fix y assume "y \<in> set (msgs (db\<lparr>moves := ?ms, msgs := ?rs\<rparr>))"
      then obtain y0 where y0: "y0 \<in> set (msgs db)" "y = (if ms_id y0 = ms_id r then ?h y0 else y0)" by (auto elim: in_updateE)
      show "ms_uid y \<noteq> 0" using D(9) [OF y0(1)] y0(2) by simp
      show "held_by_move (moves (db\<lparr>moves := ?ms, msgs := ?rs\<rparr>)) y" if "ms_uid y < 0"
        using held [OF y0(1) _ y0(2)] that y0(2) by (simp split: if_splits)
    qed (use D(11) in simp)
  qed
qed

section \<open>Removing and adding\<close>

text \<open>The order of the rows does not matter to the invariant.\<close>

lemma inv_perm:
  assumes "mq_inv (db\<lparr>moves := ms, msgs := rs\<rparr>)" and "mset rs' = mset rs"
  shows "mq_inv (db\<lparr>moves := ms, msgs := rs'\<rparr>)"
proof -
  have "set rs' = set rs" using assms(2) by (rule mset_eq_setD)
  moreover have "distinct (map ms_id rs') = distinct (map ms_id rs)" "distinct (map place rs') = distinct (map place rs)"
    using assms(2) by (intro mset_eq_imp_distinct_iff, simp)+
  ultimately show ?thesis using assms(1) unfolding mq_inv_def by simp
qed

lemma update_one:
  assumes "distinct (map ms_id rs)" and "r \<in> set rs"
  shows "mset (sql_update (\<lambda>x. ms_id x = ms_id r) f rs) = mset (f r # sql_delete (\<lambda>x. ms_id x = ms_id r) rs)"
  using assms
proof (induction rs)
  case (Cons a rs)
  show ?case
  proof (cases "ms_id a = ms_id r")
    case True
    then have "a = r" using msg_eq [OF Cons.prems(1) _ Cons.prems(2) True] by simp
    moreover have "ms_id r \<notin> ms_id ` set rs" using Cons.prems(1) True by simp
    then have "\<And>x. x \<in> set rs \<Longrightarrow> ms_id x \<noteq> ms_id r" by (metis imageI)
    then have "sql_update (\<lambda>x. ms_id x = ms_id r) f rs = rs" "sql_delete (\<lambda>x. ms_id x = ms_id r) rs = rs"
      by (auto simp: sql_update_def sql_delete_def intro!: map_idI filter_True)
    ultimately show ?thesis by (simp add: sql_update_def sql_delete_def)
  next
    case False
    then have "r \<in> set rs" using Cons.prems(2) by auto
    then show ?thesis using Cons False by (simp add: sql_update_def sql_delete_def)
  qed
qed simp

lemma in_deleteD: "x \<in> set (sql_delete p t) \<longleftrightarrow> x \<in> set t \<and> \<not> p x"
  by (auto simp: sql_delete_def)

lemma inv_remove:
  assumes inv: "mq_inv db"
    and closed: "\<And>m q. m \<in> set (moves db) \<Longrightarrow> q \<in> set (moves db) \<Longrightarrow> mv_pred m = Some (mv_id q) \<Longrightarrow> p q \<Longrightarrow> p m"
    and gone: "\<And>r op. r \<in> set (msgs db) \<Longrightarrow> \<not> q r \<Longrightarrow> op \<in> set (moves db) \<Longrightarrow> p op
      \<Longrightarrow> ms_uid r = placeholderUid (mv_id op) \<Longrightarrow> mv_row op = ms_id r \<Longrightarrow> False"
  shows "mq_inv (db\<lparr>moves := sql_delete p (moves db), msgs := sql_delete q (msgs db)\<rparr>)"
    (is "mq_inv ?db")
proof -
  note D = mq_invD [OF inv]
  have src: "source_known (moves ?db) m" if m: "m \<in> set (moves ?db)" for m
  proof (cases "mv_src_uid m")
    case None
    have mm: "m \<in> set (moves db)" "\<not> p m" using m by (simp_all add: in_deleteD)
    obtain x where x: "x \<in> set (moves db)" "mv_pred m = Some (mv_id x)" "mv_id x < mv_id m"
        "mv_row x = mv_row m" "mv_account x = mv_account m" "mv_dest x = mv_src_folder m" and "mv_state m = MQueued"
      using D(6) [OF mm(1)] None by (auto simp: source_known_def)
    moreover have "\<not> p x" using closed [OF mm(1) x(1,2)] mm(2) by blast
    ultimately show ?thesis using None by (auto simp: source_known_def in_deleteD intro!: bexI [of _ x])
  next
    case (Some u)
    then show ?thesis using D(6) [of m] m by (simp add: source_known_def in_deleteD)
  qed
  have held: "held_by_move (moves ?db) r" if r: "r \<in> set (msgs ?db)" "ms_uid r < 0" for r
  proof -
    have rr: "r \<in> set (msgs db)" "\<not> q r" using r(1) by (simp_all add: in_deleteD)
    obtain op where op: "op \<in> set (moves db)" "ms_uid r = placeholderUid (mv_id op)" "mv_row op = ms_id r"
        "mv_account op = ms_account r" "mv_dest op = ms_folder r"
      using D(8) [OF rr(1) r(2)] unfolding held_by_move_def by blast
    have "\<not> p op" using gone [OF rr op(1) _ op(2,3)] by blast
    then show ?thesis unfolding held_by_move_def using op by (intro bexI [of _ op]) (simp_all add: in_deleteD)
  qed
  show ?thesis
    unfolding mq_inv_def
  proof (intro conjI ballI impI)
    show "distinct (map ms_id (msgs ?db))" using D(1) by (simp add: distinct_delete)
    show "distinct (map mv_id (moves ?db))" using D(2) by (simp add: distinct_delete)
    show "distinct (map place (msgs ?db))" using D(3) by (simp add: distinct_delete)
  next
    fix a b assume "a \<in> set (moves ?db)" "b \<in> set (moves ?db)" "mv_row a = mv_row b \<and> mv_id a < mv_id b"
    then show "mv_pred b = Some (mv_id a)" using D(7) [of a b] by (simp add: in_deleteD)
  next
    fix m r assume "m \<in> set (moves ?db)" "r \<in> set (msgs ?db)" "ms_id r = mv_row m"
    then show "ms_uid r \<le> placeholderUid (mv_id m)" using D(10) [of m r] by (simp add: in_deleteD)
  qed (use src held D(4,5,9,11) in \<open>auto simp: in_deleteD\<close>)
qed

lemma inv_add_row:
  assumes inv: "mq_inv db" and id: "ms_id r \<notin> ms_id ` set (msgs db)" and pl: "place r \<notin> place ` set (msgs db)"
    and at: "ms_uid r > 0 \<and> (\<forall>m\<in>set (moves db). mv_row m \<noteq> ms_id r)
      \<or> ms_uid r < 0 \<and> held_by_move (moves db) r \<and> (\<forall>m\<in>set (moves db). mv_row m = ms_id r \<longrightarrow> ms_uid r \<le> placeholderUid (mv_id m))"
  shows "mq_inv (db\<lparr>moves := moves db, msgs := r # msgs db\<rparr>)"
proof -
  note D = mq_invD [OF inv]
  have "ms_uid x \<le> placeholderUid (mv_id m)"
    if "m \<in> set (moves db)" "x \<in> set (r # msgs db)" "ms_id x = mv_row m" for m x
    using that D(10) [of m x] at by auto
  then show ?thesis
    using inv id pl at unfolding mq_inv_def by auto
qed

lemma inv_add_move:
  assumes inv: "mq_inv db" and id: "mv_id op = next_move db"
    and src: "source_known (moves db) op"
    and only: "\<And>m. m \<in> set (moves db) \<Longrightarrow> mv_row m = mv_row op \<Longrightarrow> mv_pred op = Some (mv_id m)"
    and row: "\<And>r. r \<in> set (msgs db) \<Longrightarrow> ms_id r \<noteq> mv_row op"
  shows "mq_inv (db\<lparr>moves := moves db @ [op], next_move := Suc (next_move db)\<rparr>)"
    (is "mq_inv ?db")
proof -
  note D = mq_invD [OF inv]
  have more: "source_known (moves db @ [op]) m" if "source_known (moves db) m" for m
    using that by (auto simp: source_known_def split: option.splits)
  have held: "held_by_move (moves db @ [op]) r" if "held_by_move (moves db) r" for r
    using that by (auto simp: held_by_move_def)
  have fresh: "mv_id op \<notin> mv_id ` set (moves db)" using D(5) id by force
  have pairs: "mv_pred b = Some (mv_id a)"
    if a: "a \<in> set (moves ?db)" and b: "b \<in> set (moves ?db)" and e: "mv_row a = mv_row b \<and> mv_id a < mv_id b" for a b
  proof -
    have "b = op \<or> b \<in> set (moves db)" using b by auto
    moreover have "a \<in> set (moves db)"
    proof (rule ccontr)
      assume "a \<notin> set (moves db)"
      then have "a = op" using a by auto
      then have "b \<noteq> op" using e by auto
      then have "mv_id b < next_move db" using b D(5) [of b] by simp
      then show False using \<open>a = op\<close> e id by simp
    qed
    ultimately show ?thesis using only [of a] D(7) [of a b] e by blast
  qed
  have known: "0 < mv_id m \<and> mv_id m < next_move ?db \<and> source_known (moves ?db) m" if "m \<in> set (moves ?db)" for m
  proof (cases "m = op")
    case True
    then show ?thesis using id D(11) more [OF src] by simp
  next
    case False
    then have "m \<in> set (moves db)" using that by simp
    then show ?thesis using D(4,5) [of m] more [OF D(6), of m] by simp
  qed
  have rows: "ms_uid r \<noteq> 0 \<and> (ms_uid r < 0 \<longrightarrow> held_by_move (moves ?db) r)" if "r \<in> set (msgs ?db)" for r
    using that D(8,9) [of r] held [of r] by simp
  have below: "ms_uid r \<le> placeholderUid (mv_id m)"
    if m: "m \<in> set (moves ?db)" and r: "r \<in> set (msgs ?db)" and e: "ms_id r = mv_row m" for m r
  proof -
    have "r \<in> set (msgs db)" using r by simp
    then have "m \<noteq> op" using row e by blast
    then show ?thesis using D(10) [of m r] m r e by simp
  qed
  show ?thesis
    unfolding mq_inv_def
  proof (intro conjI)
    show "distinct (map mv_id (moves ?db))" using D(2) fresh by simp
    show "\<forall>m\<in>set (moves ?db). 0 < mv_id m \<and> mv_id m < next_move ?db \<and> source_known (moves ?db) m" using known by blast
    show "\<forall>a\<in>set (moves ?db). \<forall>b\<in>set (moves ?db). mv_row a = mv_row b \<and> mv_id a < mv_id b \<longrightarrow> mv_pred b = Some (mv_id a)"
      using pairs by blast
    show "\<forall>r\<in>set (msgs ?db). ms_uid r \<noteq> 0 \<and> (ms_uid r < 0 \<longrightarrow> held_by_move (moves ?db) r)" using rows by blast
    show "\<forall>m\<in>set (moves ?db). \<forall>r\<in>set (msgs ?db). ms_id r = mv_row m \<longrightarrow> ms_uid r \<le> placeholderUid (mv_id m)"
      using below by blast
  qed (use D(1,3) in simp_all)
qed

section \<open>The steps\<close>

lemma pending_pairI:
  assumes inv: "mq_inv db" and r: "r \<in> set (msgs db)" and op: "op \<in> set (moves db)"
    and uid: "ms_uid r = placeholderUid (mv_id op)" and row: "mv_row op = ms_id r"
  shows "pending_pair db (ms_account r) (ms_id r) = Some (r, op)"
proof -
  note D = mq_invD [OF inv]
  have "msg_of db (ms_id r) = Some r" unfolding msg_of_def by (rule row_by_in [OF D(1) r])
  moreover have "ms_uid r < 0" using uid D(4) [OF op] by (simp add: placeholderUid_def)
  moreover have "nat (- ms_uid r) = mv_id op" using uid by (simp add: placeholderUid_def)
  moreover have "move_of db (mv_id op) = Some op" unfolding move_of_def by (rule row_by_in [OF D(2) op])
  ultimately show ?thesis using row by (simp add: pending_pair_def)
qed

text \<open>A move ends and its row takes a place, displacing whoever a sync put there.\<close>

lemma inv_place_row:
  assumes inv: "mq_inv db" and r: "r \<in> set (msgs db)" and op: "op \<in> set (moves db)"
    and uid: "ms_uid r = placeholderUid (mv_id op)" and row: "mv_row op = ms_id r"
    and f: "\<And>x. ms_id (f x) = ms_id x" "ms_account (f r) = ms_account r"
    and at: "ms_uid (f r) > 0 \<and> mv_pred op = None
      \<or> mv_src_uid op = None \<and> ms_uid (f r) = back_uid op \<and> ms_folder (f r) = mv_src_folder op"
  shows "mq_inv (db\<lparr>moves := sql_delete (\<lambda>m. mv_id m = mv_id op) (moves db),
     msgs := sql_update (\<lambda>x. ms_id x = ms_id r) f
       (sql_delete (displaced (ms_account r) (ms_folder (f r)) (ms_uid (f r)) (ms_id r)) (msgs db))\<rparr>)"
proof -
  note D = mq_invD [OF inv] and P = pending_pairD [OF inv pending_pairI [OF inv r op uid row]]
  let ?q = "\<lambda>x. ms_id x = ms_id r \<or> displaced (ms_account r) (ms_folder (f r)) (ms_uid (f r)) (ms_id r) x"
  let ?ms = "sql_delete (\<lambda>m. mv_id m = mv_id op) (moves db)"
  let ?kept = "sql_delete (displaced (ms_account r) (ms_folder (f r)) (ms_uid (f r)) (ms_id r)) (msgs db)"
  let ?db1 = "db\<lparr>moves := ?ms, msgs := sql_delete ?q (msgs db)\<rparr>"
  have inv1: "mq_inv ?db1"
  proof (rule inv_remove [OF inv])
    fix m q assume m: "m \<in> set (moves db)" and "mv_pred m = Some (mv_id q)" and "mv_id q = mv_id op"
    then show "mv_id m = mv_id op" using P(9) [OF m] by simp
  next
    fix x o' assume x: "x \<in> set (msgs db)" "\<not> ?q x" and o': "o' \<in> set (moves db)" "mv_id o' = mv_id op" "mv_row o' = ms_id x"
    have "o' = op" by (rule move_eq [OF D(2) o'(1) op o'(2)])
    then show False using x(2) o'(3) row by simp
  qed
  have same: "mv_pred op = Some (mv_id m) \<and> mv_id m < mv_id op" if "m \<in> set ?ms" "mv_row m = ms_id r" for m
    using P(10) [of m] that row by (auto simp: in_deleteD)
  have "mq_inv (?db1\<lparr>moves := moves ?db1, msgs := f r # msgs ?db1\<rparr>)"
  proof (rule inv_add_row [OF inv1])
    show "ms_id (f r) \<notin> ms_id ` set (msgs ?db1)" using f by (auto simp: in_deleteD)
    show "place (f r) \<notin> place ` set (msgs ?db1)"
      using f by (auto simp: in_deleteD place_def displaced_def located_at_def)
    show "ms_uid (f r) > 0 \<and> (\<forall>m\<in>set (moves ?db1). mv_row m \<noteq> ms_id (f r))
      \<or> ms_uid (f r) < 0 \<and> held_by_move (moves ?db1) (f r)
        \<and> (\<forall>m\<in>set (moves ?db1). mv_row m = ms_id (f r) \<longrightarrow> ms_uid (f r) \<le> placeholderUid (mv_id m))"
      using at
    proof
      assume a: "ms_uid (f r) > 0 \<and> mv_pred op = None"
      then show ?thesis using same f by auto
    next
      assume b: "mv_src_uid op = None \<and> ms_uid (f r) = back_uid op \<and> ms_folder (f r) = mv_src_folder op"
      then obtain q where q: "q \<in> set (moves db)" "mv_pred op = Some (mv_id q)" "mv_id q < mv_id op"
          "mv_row q = mv_row op" "mv_account q = mv_account op" "mv_dest q = mv_src_folder op"
        using D(6) [OF op] by (auto simp: source_known_def)
      have u: "ms_uid (f r) = placeholderUid (mv_id q)" using b q(2) by (simp add: back_uid_def)
      have "held_by_move ?ms (f r)"
        unfolding held_by_move_def using q u b f P(6,7) row
        by (intro bexI [of _ q]) (simp_all add: in_deleteD)
      moreover have "ms_uid (f r) < 0" using u D(4) [OF q(1)] by (simp add: placeholderUid_def)
      moreover have "ms_uid (f r) \<le> placeholderUid (mv_id m)" if m: "m \<in> set ?ms" "mv_row m = ms_id r" for m
      proof -
        have "mv_id m = mv_id q" using same [OF m] q(2) by simp
        then show ?thesis using u by simp
      qed
      ultimately show ?thesis using f by simp
    qed
  qed
  then have "mq_inv (db\<lparr>moves := ?ms, msgs := f r # sql_delete ?q (msgs db)\<rparr>)" by simp
  moreover have "r \<in> set ?kept" using r by (simp add: in_deleteD displaced_def)
  then have "mset (sql_update (\<lambda>x. ms_id x = ms_id r) f ?kept) = mset (f r # sql_delete (\<lambda>x. ms_id x = ms_id r) ?kept)"
    using D(1) by (intro update_one) (simp_all add: distinct_delete)
  moreover have "sql_delete (\<lambda>x. ms_id x = ms_id r) ?kept = sql_delete ?q (msgs db)"
    by (auto simp: sql_delete_def intro: filter_cong)
  ultimately show ?thesis using inv_perm by metis
qed

text \<open>A move ends and the move that follows it starts from where the letter is.\<close>

lemma inv_pass_on:
  assumes inv: "mq_inv db" and op: "op \<in> set (moves db)" and m0: "m0 \<in> set (moves db)" "mv_pred m0 = Some (mv_id op)"
    and f: "\<And>m. mv_id (f m) = mv_id m \<and> mv_row (f m) = mv_row m \<and> mv_account (f m) = mv_account m \<and> mv_dest (f m) = mv_dest m"
    and src: "\<And>m. \<exists>u>0. mv_src_uid (f m) = Some u \<and> mv_pred (f m) = None"
  shows "mq_inv (db\<lparr>moves := sql_update (follows (mv_id op)) f (sql_delete (\<lambda>m. mv_id m = mv_id op) (moves db))\<rparr>)"
    (is "mq_inv (db\<lparr>moves := ?ms\<rparr>)")
proof -
  note D = mq_invD [OF inv]
  let ?g = "\<lambda>m. if follows (mv_id op) m then f m else m"
  have follower: "mv_row m = mv_row op \<and> mv_id op < mv_id m" if m: "m \<in> set (moves db)" "mv_pred m = Some (mv_id op)" for m
  proof -
    have "mv_src_uid m = None" using D(6) [OF m(1)] m(2) by (auto simp: source_known_def split: option.splits)
    then obtain q where q: "q \<in> set (moves db)" "mv_id q = mv_id op" "mv_id q < mv_id m" "mv_row q = mv_row m"
      using D(6) [OF m(1)] m(2) by (auto simp: source_known_def)
    have "q = op" by (rule move_eq [OF D(2) q(1) op q(2)])
    then show ?thesis using q by simp
  qed
  have ids: "map mv_id ?ms = map mv_id (sql_delete (\<lambda>m. mv_id m = mv_id op) (moves db))"
    using f by (simp add: map_key_update)
  have from_old: "\<exists>m0. m0 \<in> set (moves db) \<and> mv_id m0 \<noteq> mv_id op \<and> m = ?g m0" if "m \<in> set ?ms" for m
    using that by (auto elim!: in_updateE simp: in_deleteD)
  have gf: "mv_id (?g m) = mv_id m \<and> mv_row (?g m) = mv_row m \<and> mv_account (?g m) = mv_account m \<and> mv_dest (?g m) = mv_dest m" for m
    using f by simp
  have to_new: "?g m \<in> set ?ms" if "m \<in> set (moves db)" "mv_id m \<noteq> mv_id op" for m
    using in_updateI [of m _ "follows (mv_id op)" f] that by (simp add: in_deleteD)
  have known: "source_known ?ms (?g m)" if m: "m \<in> set (moves db)" "mv_id m \<noteq> mv_id op" for m
  proof (cases "follows (mv_id op) m")
    case True
    then show ?thesis using src [of m] by (auto simp: source_known_def)
  next
    case False
    show ?thesis
    proof (cases "mv_src_uid m")
      case None
      obtain q where q: "q \<in> set (moves db)" "mv_pred m = Some (mv_id q)" "mv_id q < mv_id m"
          "mv_row q = mv_row m" "mv_account q = mv_account m" "mv_dest q = mv_src_folder m" "mv_state m = MQueued"
        using D(6) [OF m(1)] None by (auto simp: source_known_def)
      have ne: "mv_id q \<noteq> mv_id op" using False q(2) by (simp add: follows_def)
      have "source_known ?ms m"
        unfolding source_known_def using None q gf [of q] to_new [OF q(1) ne]
        by (auto intro!: bexI [of _ "?g q"])
      then show ?thesis using False by simp
    next
      case (Some u)
      then show ?thesis using False D(6) [OF m(1)] by (simp add: source_known_def)
    qed
  qed
  have pairs: "mv_pred b = Some (mv_id a)" if a: "a \<in> set ?ms" and b: "b \<in> set ?ms" and e: "mv_row a = mv_row b \<and> mv_id a < mv_id b" for a b
  proof -
    obtain a0 b0 where a0: "a0 \<in> set (moves db)" "mv_id a0 \<noteq> mv_id op" "a = ?g a0"
      and b0: "b0 \<in> set (moves db)" "mv_id b0 \<noteq> mv_id op" "b = ?g b0"
      using from_old [OF a] from_old [OF b] by blast
    have p: "mv_pred b0 = Some (mv_id a0)" using D(7) [OF a0(1) b0(1)] e gf a0(3) b0(3) by simp
    then have "\<not> follows (mv_id op) b0" using a0(2) by (simp add: follows_def)
    then show ?thesis using p a0(3) b0(3) gf [of a0] by simp
  qed
  have held: "held_by_move ?ms r" if r: "r \<in> set (msgs db)" "ms_uid r < 0" for r
  proof -
    obtain o' where o': "o' \<in> set (moves db)" "ms_uid r = placeholderUid (mv_id o')" "mv_row o' = ms_id r"
        "mv_account o' = ms_account r" "mv_dest o' = ms_folder r"
      using D(8) [OF r] unfolding held_by_move_def by blast
    have "mv_id o' \<noteq> mv_id op"
    proof
      assume "mv_id o' = mv_id op"
      then have "o' = op" by (rule move_eq [OF D(2) o'(1) op])
      then have "ms_uid r \<le> placeholderUid (mv_id m0)" using D(10) [OF m0(1) r(1)] follower [OF m0] o'(3) by simp
      then show False using o'(2) \<open>o' = op\<close> follower [OF m0] by (simp add: placeholderUid_def)
    qed
    then show ?thesis
      unfolding held_by_move_def using o' gf [of o'] to_new [OF o'(1)] by (intro bexI [of _ "?g o'"]) simp_all
  qed
  have below: "ms_uid r \<le> placeholderUid (mv_id m)" if m: "m \<in> set ?ms" and r: "r \<in> set (msgs db)" and e: "ms_id r = mv_row m" for m r
  proof -
    obtain m1 where m1: "m1 \<in> set (moves db)" "m = ?g m1" using from_old [OF m] by blast
    then show ?thesis using D(10) [OF m1(1) r] e gf [of m1] by simp
  qed
  have bounds: "0 < mv_id m \<and> mv_id m < next_move db \<and> source_known ?ms m" if m: "m \<in> set ?ms" for m
  proof -
    obtain m1 where m1: "m1 \<in> set (moves db)" "mv_id m1 \<noteq> mv_id op" "m = ?g m1" using from_old [OF m] by blast
    then show ?thesis using D(4,5) [OF m1(1)] known [OF m1(1,2)] gf [of m1] by simp
  qed
  show ?thesis
    unfolding mq_inv_def
  proof (intro conjI)
    show "distinct (map mv_id (moves (db\<lparr>moves := ?ms\<rparr>)))" using ids D(2) by (simp add: distinct_delete)
    show "\<forall>m\<in>set (moves (db\<lparr>moves := ?ms\<rparr>)). 0 < mv_id m \<and> mv_id m < next_move (db\<lparr>moves := ?ms\<rparr>)
        \<and> source_known (moves (db\<lparr>moves := ?ms\<rparr>)) m" using bounds by simp
    show "\<forall>a\<in>set (moves (db\<lparr>moves := ?ms\<rparr>)). \<forall>b\<in>set (moves (db\<lparr>moves := ?ms\<rparr>)).
        mv_row a = mv_row b \<and> mv_id a < mv_id b \<longrightarrow> mv_pred b = Some (mv_id a)" using pairs by simp
    show "\<forall>r\<in>set (msgs (db\<lparr>moves := ?ms\<rparr>)). ms_uid r \<noteq> 0 \<and> (ms_uid r < 0 \<longrightarrow> held_by_move (moves (db\<lparr>moves := ?ms\<rparr>)) r)"
      using held D(9) by simp
    show "\<forall>m\<in>set (moves (db\<lparr>moves := ?ms\<rparr>)). \<forall>r\<in>set (msgs (db\<lparr>moves := ?ms\<rparr>)).
        ms_id r = mv_row m \<longrightarrow> ms_uid r \<le> placeholderUid (mv_id m)" using below by simp
  qed (use D(1,3,11) in simp_all)
qed

lemma source_uid:
  assumes "mq_inv db" and "op \<in> set (moves db)"
  shows "mv_src_uid op = None \<or> back_uid op > 0 \<and> mv_pred op = None"
  using mq_invD(6) [OF assms] by (auto simp: source_known_def back_uid_def split: option.splits)

lemma moves_first: "db\<lparr>msgs := rs, moves := ms\<rparr> = db\<lparr>moves := ms, msgs := rs\<rparr>"
  by simp

lemma moves_before_next: "db\<lparr>next_move := n, moves := ms\<rparr> = db\<lparr>moves := ms, next_move := n\<rparr>"
  by simp

lemma unsourced_queued: "mq_inv db \<Longrightarrow> m \<in> set (moves db) \<Longrightarrow> mv_src_uid m = None \<Longrightarrow> mv_state m = MQueued"
  using mq_invD(6) [of db m] by (simp add: source_known_def)

lemma mq_inv_cancel:
  assumes inv: "mq_inv db"
  shows "mq_inv (snd (cancel_pending account rowId dest db))"
proof (cases "pending_pair db account rowId")
  case None
  then show ?thesis using inv by (simp add: cancel_pending_def)
next
  case (Some x)
  obtain r op where x: "x = (r, op)" by (cases x)
  note P = pending_pairD [OF inv Some [unfolded x]]
  let ?f = "\<lambda>x. x\<lparr>ms_folder := mv_src_folder op, ms_uid := back_uid op\<rparr>"
  let ?g = "\<lambda>p. p\<lparr>mv_seen := coalesce (mv_seen op) (mv_seen p), mv_flagged := coalesce (mv_flagged op) (mv_flagged p)\<rparr>"
  show ?thesis
  proof (cases "mv_state op = MQueued \<and> mv_src_folder op = dest
      \<and> \<not> list_ex (located_at (ms_account r) (mv_src_folder op) (back_uid op)) (msgs db)")
    case False
    then show ?thesis using inv Some x by (auto simp: cancel_pending_def)
  next
    case True
    have at: "ms_uid (?f r) > 0 \<and> mv_pred op = None
      \<or> mv_src_uid op = None \<and> ms_uid (?f r) = back_uid op \<and> ms_folder (?f r) = mv_src_folder op"
      using source_uid [OF inv P(2)] by auto
    have "sql_delete (displaced (ms_account r) (ms_folder (?f r)) (ms_uid (?f r)) (ms_id r)) (msgs db) = msgs db"
      using True by (auto simp: sql_delete_def displaced_def list_ex_iff intro!: filter_True)
    then have inv1: "mq_inv (db\<lparr>moves := sql_delete (\<lambda>m. mv_id m = mv_id op) (moves db),
        msgs := sql_update (\<lambda>x. ms_id x = ms_id r) ?f (msgs db)\<rparr>)" (is "mq_inv ?db1")
      using inv_place_row [OF inv P(1,2,5,4), of ?f] at by simp
    have "mq_inv (?db1\<lparr>moves := sql_update (\<lambda>p. mv_pred op = Some (mv_id p)) ?g (moves ?db1)\<rparr>)"
    proof (rule inv_states [OF inv1])
      show "keeps_route ?g" by (simp add: keeps_route_def)
      show "mv_state (?g m) = MQueued" if "m \<in> set (moves ?db1)" "mv_src_uid m = None" for m
        using unsourced_queued [OF inv1 that] by simp
    qed
    then have "mq_inv (db\<lparr>moves := sql_update (\<lambda>p. mv_pred op = Some (mv_id p)) ?g (moves ?db1), msgs := msgs ?db1\<rparr>)"
      by (simp add: moves_first)
    then show ?thesis using inv Some x True by (simp add: cancel_pending_def)
  qed
qed

lemma inv_follow:
  assumes inv: "mq_inv db"
  shows "mq_inv (snd (follow_pending account rowId dest drop_row by_user t db))"
proof (cases "pending_pair db account rowId")
  case None
  then show ?thesis using inv by (simp add: follow_pending_def)
next
  case (Some x)
  obtain r op where x: "x = (r, op)" by (cases x)
  note D = mq_invD [OF inv] and P = pending_pairD [OF inv Some [unfolded x]]
  show ?thesis
  proof (cases "ms_folder r = dest \<or> mv_state op = MQueued")
    case True
    then show ?thesis using inv Some x by (auto simp: follow_pending_def)
  next
    case False
    let ?new = "following_move dest drop_row by_user t (next_move db) op"
    let ?f = "\<lambda>x. x\<lparr>ms_folder := dest, ms_uid := placeholderUid (next_move db)\<rparr>"
    let ?rest = "sql_delete (\<lambda>x. ms_id x = ms_id r) (msgs db)"
    let ?db1 = "db\<lparr>moves := sql_delete (\<lambda>_. False) (moves db), msgs := ?rest\<rparr>"
    let ?db2 = "?db1\<lparr>moves := moves ?db1 @ [?new], next_move := Suc (next_move ?db1)\<rparr>"
    have all: "sql_delete (\<lambda>_. False) (moves db) = moves db" by (simp add: sql_delete_def)
    have inv1: "mq_inv ?db1" by (rule inv_remove [OF inv]) auto
    have "mv_src_uid op \<noteq> None" using unsourced_queued [OF inv P(2)] False by blast
    then have "mv_pred op = None" using disjE [OF source_uid [OF inv P(2)]] by metis
    then have alone: "m = op" if "m \<in> set (moves db)" "mv_row m = mv_row op" for m using P(10) [OF that] by auto
    have "mv_id op < next_move db" by (rule D(5) [OF P(2)])
    then have inv2: "mq_inv ?db2"
    proof (intro inv_add_move [OF inv1])
      show "source_known (moves ?db1) ?new" if "mv_id op < next_move db"
        using that P(2) unfolding source_known_def
        by (auto simp: following_move_def all intro!: bexI [of _ op])
    qed (use P(4) alone all in \<open>auto simp: following_move_def in_deleteD\<close>)
    have "mq_inv (?db2\<lparr>moves := moves ?db2, msgs := ?f r # msgs ?db2\<rparr>)"
    proof (rule inv_add_row [OF inv2])
      show "ms_id (?f r) \<notin> ms_id ` set (msgs ?db2)" by (auto simp: in_deleteD)
      show "place (?f r) \<notin> place ` set (msgs ?db2)"
      proof
        assume "place (?f r) \<in> place ` set (msgs ?db2)"
        then obtain y where y: "y \<in> set (msgs db)" "ms_uid y = placeholderUid (next_move db)"
          by (auto simp: place_def in_deleteD)
        have "mv_id m \<noteq> next_move db" if "m \<in> set (moves db)" for m using D(5) [OF that] by simp
        then show False using free_placeholder [OF inv y _ D(11)] by blast
      qed
      have "held_by_move (moves ?db2) (?f r)"
        unfolding held_by_move_def using P(4,6,7) by (intro bexI [of _ ?new]) (simp_all add: following_move_def)
      moreover have "ms_uid (?f r) \<le> placeholderUid (mv_id m)" if "m \<in> set (moves ?db2)" for m
        using that D(5) [of m] by (auto simp: all placeholderUid_def following_move_def)
      ultimately show "ms_uid (?f r) > 0 \<and> (\<forall>m\<in>set (moves ?db2). mv_row m \<noteq> ms_id (?f r))
        \<or> ms_uid (?f r) < 0 \<and> held_by_move (moves ?db2) (?f r)
          \<and> (\<forall>m\<in>set (moves ?db2). mv_row m = ms_id (?f r) \<longrightarrow> ms_uid (?f r) \<le> placeholderUid (mv_id m))"
        using D(11) by (auto simp: placeholderUid_def)
    qed
    then have "mq_inv ((db\<lparr>next_move := Suc (next_move db)\<rparr>)\<lparr>moves := moves db @ [?new], msgs := ?f r # ?rest\<rparr>)"
      by (simp add: all)
    then have "mq_inv ((db\<lparr>next_move := Suc (next_move db)\<rparr>)\<lparr>moves := moves db @ [?new],
        msgs := sql_update (\<lambda>x. ms_id x = ms_id r) ?f (msgs db)\<rparr>)"
      by (rule inv_perm) (rule update_one [OF D(1) P(1)])
    then show ?thesis using Some x False by (simp add: follow_pending_def Let_def moves_before_next)
  qed
qed

text \<open>A move ends without its row: the row is gone, or goes too.\<close>

lemma inv_without_row:
  assumes inv: "mq_inv db" and op: "op \<in> set (moves db)"
    and none: "\<And>m. m \<in> set (moves db) \<Longrightarrow> mv_pred m \<noteq> Some (mv_id op)"
    and gone: "\<And>r. r \<in> set (msgs db) \<Longrightarrow> \<not> q r \<Longrightarrow> ms_id r = mv_row op \<Longrightarrow> ms_uid r \<noteq> placeholderUid (mv_id op)"
  shows "mq_inv (db\<lparr>moves := sql_delete (\<lambda>m. mv_id m = mv_id op) (moves db), msgs := sql_delete q (msgs db)\<rparr>)"
proof (rule inv_remove [OF inv])
  fix m x assume "m \<in> set (moves db)" "mv_pred m = Some (mv_id x)" "mv_id x = mv_id op"
  then show "mv_id m = mv_id op" using none by simp
next
  fix r o' assume r: "r \<in> set (msgs db)" "\<not> q r" and o': "o' \<in> set (moves db)" "mv_id o' = mv_id op"
    and u: "ms_uid r = placeholderUid (mv_id o')" and row: "mv_row o' = ms_id r"
  have "o' = op" by (rule move_eq [OF mq_invD(2) [OF inv] o'(1) op o'(2)])
  then show False using gone [OF r] u row by simp
qed

lemma delete_none: "sql_delete (\<lambda>_. False) t = t"
  by (simp add: sql_delete_def)

lemma no_follower:
  assumes "mq_inv db" and "find (follows i) (sql_delete (\<lambda>m. mv_id m = i) (moves db)) = None" and "m \<in> set (moves db)"
  shows "mv_pred m \<noteq> Some i"
proof
  assume p: "mv_pred m = Some i"
  have "mv_src_uid m = None" using source_uid [OF assms(1,3)] p by auto
  then have "mv_id m \<noteq> i" using mq_invD(6) [OF assms(1,3)] p by (auto simp: source_known_def)
  then show False using assms(2,3) p by (auto simp: find_None_iff in_deleteD follows_def)
qed

lemma msg_of_SomeD: "msg_of db i = Some r \<Longrightarrow> r \<in> set (msgs db) \<and> ms_id r = i"
  unfolding msg_of_def by (rule row_by_SomeD)

lemma msg_of_NoneD: "msg_of db i = None \<Longrightarrow> r \<in> set (msgs db) \<Longrightarrow> ms_id r \<noteq> i"
  unfolding msg_of_def row_by_None_iff by blast

lemma move_of_SomeD: "move_of db i = Some m \<Longrightarrow> m \<in> set (moves db) \<and> mv_id m = i"
  unfolding move_of_def by (rule row_by_SomeD)

lemma find_SomeD: "find p xs = Some x \<Longrightarrow> x \<in> set xs \<and> p x"
  by (induction xs) (auto split: if_splits)

text \<open>
  What the worker knows of a move it read earlier, if the move is still there: its row, and that
  the letter's place on the server is known (only such moves are claimed).
\<close>

definition same_letter :: "move \<Rightarrow> movedb \<Rightarrow> bool" where
  "same_letter op db \<longleftrightarrow>
     (\<forall>cur. move_of db (mv_id op) = Some cur \<longrightarrow> mv_row cur = mv_row op \<and> mv_src_uid cur \<noteq> None)"

lemma row_of_move:
  assumes inv: "mq_inv db" and cur: "move_of db (mv_id op) = Some cur" and same: "same_letter op db"
    and r: "msg_of db (mv_row op) = Some r" and u: "ms_uid r = placeholderUid (mv_id cur)"
  shows "r \<in> set (msgs db)" "cur \<in> set (moves db)" "mv_row cur = ms_id r" "ms_account r = mv_account cur"
proof -
  show rin: "r \<in> set (msgs db)" and cin: "cur \<in> set (moves db)" and row: "mv_row cur = ms_id r"
    using msg_of_SomeD [OF r] move_of_SomeD [OF cur] same cur by (auto simp: same_letter_def)
  show "ms_account r = mv_account cur"
    using pending_pairD(7) [OF inv pending_pairI [OF inv rin cin u row]] by simp
qed

lemma inv_settle:
  assumes inv: "mq_inv db" and same: "same_letter op db" and pos: "newUid > 0"
  shows "mq_inv (snd (settle op newUid at t db))"
proof (cases "move_of db (mv_id op)")
  case None
  then show ?thesis using inv by (simp add: settle_def)
next
  case (Some cur)
  note D = mq_invD [OF inv]
  have cin: "cur \<in> set (moves db)" and cid: "mv_id cur = mv_id op" using move_of_SomeD [OF Some] by simp_all
  let ?at = "case at of Some f \<Rightarrow> f | None \<Rightarrow> mv_dest cur"
  let ?ms = "sql_delete (\<lambda>m. mv_id m = mv_id cur) (moves db)"
  show ?thesis
  proof (cases "find (follows (mv_id cur)) ?ms")
    case (Some m)
    have m: "m \<in> set (moves db)" "mv_pred m = Some (mv_id cur)"
      using find_SomeD [OF Some] by (simp_all add: in_deleteD follows_def)
    have "mq_inv (db\<lparr>moves := sql_update (follows (mv_id cur)) (take_over cur newUid ?at t) ?ms\<rparr>)"
      by (rule inv_pass_on [OF inv cin m]) (use pos in \<open>simp_all add: take_over_def\<close>)
    then show ?thesis
      using \<open>move_of db (mv_id op) = Some cur\<close> Some by (simp add: settle_def Let_def remove_move_def)
  next
    case None
    note alone = no_follower [OF inv None]
    show ?thesis
    proof (cases "msg_of db (mv_row op)")
      case None
      have "mq_inv (db\<lparr>moves := ?ms, msgs := sql_delete (\<lambda>_. False) (msgs db)\<rparr>)"
        by (rule inv_without_row [OF inv cin alone]) (use msg_of_NoneD [OF None] same Some in \<open>auto simp: same_letter_def\<close>)
      then show ?thesis
        using \<open>move_of db (mv_id op) = Some cur\<close> None \<open>find (follows (mv_id cur)) ?ms = None\<close>
        by (simp add: settle_def Let_def remove_move_def delete_none)
    next
      case row: (Some r)
      have rin: "r \<in> set (msgs db)" "ms_id r = mv_row cur"
        using msg_of_SomeD [OF row] same Some by (simp_all add: same_letter_def)
      show ?thesis
      proof (cases "ms_uid r = placeholderUid (mv_id cur)")
        case False
        have "mq_inv (db\<lparr>moves := ?ms, msgs := sql_delete (\<lambda>_. False) (msgs db)\<rparr>)"
        proof (rule inv_without_row [OF inv cin alone])
          fix x assume "x \<in> set (msgs db)" "ms_id x = mv_row cur"
          then have "x = r" using msg_eq [OF D(1) _ rin(1)] rin(2) by simp
          then show "ms_uid x \<noteq> placeholderUid (mv_id cur)" using False by simp
        qed
        then show ?thesis
          using Some row False None by (simp add: settle_def Let_def remove_move_def delete_none)
      next
        case True
        note R = row_of_move [OF inv Some same row True]
        show ?thesis
        proof (cases "mv_drop_row cur \<and> ?at = mv_dest cur")
          case drop: True
          have "mq_inv (db\<lparr>moves := ?ms, msgs := sql_delete (\<lambda>x. ms_id x = ms_id r) (msgs db)\<rparr>)"
            by (rule inv_without_row [OF inv cin alone]) (use rin in auto)
          then show ?thesis
            using Some row None True drop by (simp add: settle_def Let_def remove_move_def)
        next
          case keep: False
          let ?f = "settle_row cur newUid ?at t"
          have src: "mv_src_uid cur \<noteq> None" using same \<open>move_of db (mv_id op) = Some cur\<close> by (simp add: same_letter_def)
          have "mv_pred cur = None" using src source_uid [OF inv cin] by (elim disjE) simp_all
          have "mq_inv (db\<lparr>moves := ?ms,
              msgs := sql_update (\<lambda>x. ms_id x = ms_id r) ?f
                (sql_delete (displaced (ms_account r) (ms_folder (?f r)) (ms_uid (?f r)) (ms_id r)) (msgs db))\<rparr>)"
            by (rule inv_place_row [OF inv R(1,2) True R(3)])
              (use pos \<open>mv_pred cur = None\<close> in \<open>simp_all add: settle_row_def\<close>)
          then show ?thesis
            using \<open>move_of db (mv_id op) = Some cur\<close> row \<open>find (follows (mv_id cur)) ?ms = None\<close> True keep R(4)
            by (auto simp add: settle_def Let_def remove_move_def settle_row_def)
        qed
      qed
    qed
  qed
qed

end
