(* ===== verification/MoveSteps.thy ===== *)
theory MoveSteps
  imports MoveInvariant
begin

text \<open>
  The remaining steps over the move tables (revert, drop, enqueue, the rows the syncs insert and
  delete), the relation of all of them, and its reachable states: rule induction over the lemmas of
  this theory and of \<open>MoveInvariant\<close>.
\<close>

section \<open>Revert and drop\<close>

lemma same_letterD:
  assumes "mq_inv db" and "same_letter op db" and "move_of db (mv_id op) = Some cur"
  shows "cur \<in> set (moves db)" "mv_id cur = mv_id op" "mv_row cur = mv_row op"
    "mv_pred cur = None" "\<exists>u>0. mv_src_uid cur = Some u \<and> back_uid cur = u"
proof -
  show c: "cur \<in> set (moves db)" "mv_id cur = mv_id op" using move_of_SomeD [OF assms(3)] by simp_all
  show "mv_row cur = mv_row op" using assms(2,3) by (simp add: same_letter_def)
  have src: "mv_src_uid cur \<noteq> None" using assms(2,3) by (simp add: same_letter_def)
  show "mv_pred cur = None" "\<exists>u>0. mv_src_uid cur = Some u \<and> back_uid cur = u"
    using mq_invD(6) [OF assms(1) c(1)] src by (auto simp: source_known_def back_uid_def)
qed

lemma inv_end_without_row:
  assumes inv: "mq_inv db" and same: "same_letter op db" and cur: "move_of db (mv_id op) = Some cur"
    and alone: "find (follows (mv_id cur)) (sql_delete (\<lambda>m. mv_id m = mv_id cur) (moves db)) = None"
    and off: "\<And>r. msg_of db (mv_row op) = Some r \<Longrightarrow> ms_uid r \<noteq> placeholderUid (mv_id cur)"
  shows "mq_inv (db\<lparr>moves := sql_delete (\<lambda>m. mv_id m = mv_id cur) (moves db)\<rparr>)"
proof -
  note S = same_letterD [OF inv same cur]
  have "mq_inv (db\<lparr>moves := sql_delete (\<lambda>m. mv_id m = mv_id cur) (moves db), msgs := sql_delete (\<lambda>_. False) (msgs db)\<rparr>)"
  proof (rule inv_without_row [OF inv S(1) no_follower [OF inv alone]])
    fix r assume r: "r \<in> set (msgs db)" "ms_id r = mv_row cur"
    have "msg_of db (ms_id r) = Some r" unfolding msg_of_def by (rule row_by_in [OF mq_invD(1) [OF inv] r(1)])
    then show "ms_uid r \<noteq> placeholderUid (mv_id cur)" using off r(2) S(3) by simp
  qed
  then show ?thesis by (simp add: delete_none)
qed

lemma inv_revert:
  assumes inv: "mq_inv db" and same: "same_letter op db"
  shows "mq_inv (snd (revert op t db))"
proof (cases "move_of db (mv_id op)")
  case None
  then show ?thesis using inv by (simp add: revert_def)
next
  case cur: (Some cur)
  note S = same_letterD [OF inv same cur]
  let ?ms = "sql_delete (\<lambda>m. mv_id m = mv_id cur) (moves db)"
  let ?prior = "\<lambda>m. m\<lparr>mv_src_folder := mv_src_folder cur, mv_src_uid := mv_src_uid cur, mv_pred := mv_pred cur, mv_updated := t\<rparr>"
  show ?thesis
  proof (cases "find (follows (mv_id cur)) ?ms")
    case next_move: (Some m)
    have m: "m \<in> set (moves db)" "mv_pred m = Some (mv_id cur)"
      using find_SomeD [OF next_move] by (simp_all add: in_deleteD follows_def)
    have "mq_inv (db\<lparr>moves := sql_update (follows (mv_id cur)) ?prior ?ms\<rparr>)"
      by (rule inv_pass_on [OF inv S(1) m]) (use S(4,5) in auto)
    then show ?thesis using cur next_move by (simp add: revert_def Let_def remove_move_def)
  next
    case alone: None
    show ?thesis
    proof (cases "\<exists>r. msg_of db (mv_row op) = Some r \<and> ms_uid r = placeholderUid (mv_id cur)")
      case False
      then have "mq_inv (db\<lparr>moves := ?ms\<rparr>)" by (intro inv_end_without_row [OF inv same cur alone]) blast
      then show ?thesis
        using cur alone False by (auto simp: revert_def Let_def remove_move_def split: option.splits)
    next
      case True
      then obtain r where row: "msg_of db (mv_row op) = Some r" and u: "ms_uid r = placeholderUid (mv_id cur)" by blast
      note R = row_of_move [OF inv cur same row u]
      let ?f = "\<lambda>x. x\<lparr>ms_folder := mv_src_folder cur, ms_uid := back_uid cur, ms_synced := Some t\<rparr>"
      have "mq_inv (db\<lparr>moves := ?ms, msgs := sql_update (\<lambda>x. ms_id x = ms_id r) ?f
          (sql_delete (displaced (ms_account r) (ms_folder (?f r)) (ms_uid (?f r)) (ms_id r)) (msgs db))\<rparr>)"
        by (rule inv_place_row [OF inv R(1,2) u R(3)]) (use S(4,5) in auto)
      then show ?thesis using cur alone row u R(4) by (simp add: revert_def Let_def remove_move_def)
    qed
  qed
qed

lemma follower:
  assumes inv: "mq_inv db" and m: "m \<in> set (moves db)" "mv_pred m = Some i"
  shows "mv_src_uid m = None" "\<exists>q\<in>set (moves db). mv_id q = i \<and> mv_id q < mv_id m \<and> mv_row q = mv_row m"
proof -
  show "mv_src_uid m = None"
    using mq_invD(6) [OF inv m(1)] m(2) by (auto simp: source_known_def split: option.splits)
  then show "\<exists>q\<in>set (moves db). mv_id q = i \<and> mv_id q < mv_id m \<and> mv_row q = mv_row m"
    using mq_invD(6) [OF inv m(1)] m(2) by (auto simp: source_known_def)
qed

lemma no_third:
  assumes inv: "mq_inv db" and m: "m \<in> set (moves db)" "mv_pred m = Some (mv_id q)" and q: "q \<in> set (moves db)"
  shows "mv_pred q = None"
proof (cases "mv_pred q")
  case (Some i)
  obtain q' where q': "q' \<in> set (moves db)" "mv_id q' = mv_id q" "mv_id q' < mv_id m" "mv_row q' = mv_row m"
    using follower(2) [OF inv m] by blast
  have "q' = q" by (rule move_eq [OF mq_invD(2) [OF inv] q'(1) q q'(2)])
  moreover obtain p where p: "p \<in> set (moves db)" "mv_id p < mv_id q" "mv_row p = mv_row q"
    using follower(2) [OF inv q Some] by blast
  ultimately have "mv_pred m = Some (mv_id p)"
    using mq_invD(7) [OF inv p(1) m(1)] q' by simp
  then show ?thesis using m(2) p(2) by simp
qed

lemma inv_drop:
  assumes inv: "mq_inv db" and same: "same_letter op db"
  shows "mq_inv (snd (drop_move op db))"
proof (cases "move_of db (mv_id op)")
  case None
  then show ?thesis using inv by (simp add: drop_move_def)
next
  case cur: (Some cur)
  note S = same_letterD [OF inv same cur]
  let ?p = "\<lambda>m. mv_id m = mv_id op \<or> follows (mv_id op) m"
  let ?ids = "mv_id op # map mv_id (filter (follows (mv_id op)) (sql_delete (\<lambda>m. mv_id m = mv_id op) (moves db)))"
  let ?q = "\<lambda>r. ms_id r = mv_row op \<and> list_ex (\<lambda>i. ms_uid r = placeholderUid i) ?ids"
  have "mq_inv (db\<lparr>moves := sql_delete ?p (moves db), msgs := sql_delete ?q (msgs db)\<rparr>)"
  proof (rule inv_remove [OF inv])
    fix m q assume m: "m \<in> set (moves db)" "q \<in> set (moves db)" "mv_pred m = Some (mv_id q)" and p: "?p q"
    show "?p m"
    proof (cases "mv_id q = mv_id op")
      case False
      then show ?thesis using p no_third [OF inv m(1,3,2)] by (simp add: follows_def)
    qed (use m in \<open>simp add: follows_def\<close>)
  next
    fix r o' assume r: "r \<in> set (msgs db)" "\<not> ?q r" and o': "o' \<in> set (moves db)" "?p o'"
      and at: "ms_uid r = placeholderUid (mv_id o')" "mv_row o' = ms_id r"
    have "mv_row o' = mv_row op"
    proof (cases "mv_id o' = mv_id op")
      case True
      have "o' = cur" by (rule move_eq [OF mq_invD(2) [OF inv] o'(1) S(1)]) (use True S(2) in simp)
      then show ?thesis using S(3) by simp
    next
      case False
      then obtain q where "q \<in> set (moves db)" "mv_id q = mv_id op" "mv_row q = mv_row o'"
        using follower(2) [OF inv o'(1)] o'(2) by (auto simp: follows_def)
      moreover from this have "q = cur" by (intro move_eq [OF mq_invD(2) [OF inv] _ S(1)]) (use S(2) in simp_all)
      ultimately show ?thesis using S(3) by simp
    qed
    moreover have "mv_id o' \<in> set ?ids" using o' by (auto simp: in_deleteD)
    ultimately show False using r(2) at by (auto simp: list_ex_iff)
  qed
  moreover have "sql_delete (follows (mv_id op)) (sql_delete (\<lambda>m. mv_id m = mv_id op) (moves db)) = sql_delete ?p (moves db)"
    by (auto simp: sql_delete_def intro: filter_cong)
  ultimately show ?thesis using cur by (simp add: drop_move_def Let_def)
qed

section \<open>Enqueue, insert, delete\<close>

text \<open>One row of \<open>enqueue\<close>'s statement; the statement is these one after another.\<close>

definition enqueue_row :: "folder \<Rightarrow> bool \<Rightarrow> string option \<Rightarrow> time_ms \<Rightarrow> msg \<Rightarrow> movedb \<Rightarrow> movedb" where
  "enqueue_row dest drop_row by_user t r db =
     db\<lparr>msgs := sql_update (\<lambda>x. ms_id x = ms_id r)
          (\<lambda>x. x\<lparr>ms_folder := dest, ms_uid := placeholderUid (next_move db)\<rparr>) (msgs db),
        moves := moves db @ [new_move dest drop_row by_user t (next_move db) r],
        next_move := Suc (next_move db)\<rparr>"

lemma update_order: "db\<lparr>msgs := a, moves := b, next_move := c\<rparr> = db\<lparr>next_move := c, moves := b, msgs := a\<rparr>"
  by simp

lemma inv_enqueue_row:
  assumes inv: "mq_inv db" and r: "r \<in> set (msgs db)" "ms_uid r > 0"
  shows "mq_inv (enqueue_row dest drop_row by_user t r db)"
proof -
  note D = mq_invD [OF inv]
  let ?new = "new_move dest drop_row by_user t (next_move db) r"
  let ?f = "\<lambda>x. x\<lparr>ms_folder := dest, ms_uid := placeholderUid (next_move db)\<rparr>"
  let ?rest = "sql_delete (\<lambda>x. ms_id x = ms_id r) (msgs db)"
  let ?db1 = "db\<lparr>moves := sql_delete (\<lambda>_. False) (moves db), msgs := ?rest\<rparr>"
  let ?db2 = "?db1\<lparr>moves := moves ?db1 @ [?new], next_move := Suc (next_move ?db1)\<rparr>"
  have none: "mv_row m \<noteq> ms_id r" if "m \<in> set (moves db)" for m by (rule row_placed [OF inv r that])
  have inv1: "mq_inv ?db1" by (rule inv_remove [OF inv]) auto
  have inv2: "mq_inv ?db2"
    by (rule inv_add_move [OF inv1])
      (use r(2) none in \<open>auto simp: delete_none new_move_def source_known_def in_deleteD\<close>)
  have "mq_inv (?db2\<lparr>moves := moves ?db2, msgs := ?f r # msgs ?db2\<rparr>)"
  proof (rule inv_add_row [OF inv2])
    show "ms_id (?f r) \<notin> ms_id ` set (msgs ?db2)" by (auto simp: in_deleteD)
    show "place (?f r) \<notin> place ` set (msgs ?db2)"
    proof
      assume "place (?f r) \<in> place ` set (msgs ?db2)"
      then obtain y where y: "y \<in> set (msgs db)" "ms_uid y = placeholderUid (next_move db)"
        by (auto simp: place_def in_deleteD)
      have "mv_id m \<noteq> next_move db" if "m \<in> set (moves db)" for m using D(5) [OF that] by simp
      then show False using free_placeholder [OF inv y _ D(11)] by blast
    qed
    have "held_by_move (moves ?db2) (?f r)"
      unfolding held_by_move_def by (intro bexI [of _ ?new]) (simp_all add: new_move_def)
    moreover have "ms_uid (?f r) \<le> placeholderUid (mv_id m)" if "m \<in> set (moves ?db2)" for m
      using that D(5) [of m] by (auto simp: delete_none placeholderUid_def new_move_def)
    ultimately show "ms_uid (?f r) > 0 \<and> (\<forall>m\<in>set (moves ?db2). mv_row m \<noteq> ms_id (?f r))
      \<or> ms_uid (?f r) < 0 \<and> held_by_move (moves ?db2) (?f r)
        \<and> (\<forall>m\<in>set (moves ?db2). mv_row m = ms_id (?f r) \<longrightarrow> ms_uid (?f r) \<le> placeholderUid (mv_id m))"
      using D(11) by (auto simp: placeholderUid_def)
  qed
  then have "mq_inv ((db\<lparr>next_move := Suc (next_move db)\<rparr>)\<lparr>moves := moves db @ [?new], msgs := ?f r # ?rest\<rparr>)"
    by (simp add: delete_none)
  then have "mq_inv ((db\<lparr>next_move := Suc (next_move db)\<rparr>)\<lparr>moves := moves db @ [?new],
      msgs := sql_update (\<lambda>x. ms_id x = ms_id r) ?f (msgs db)\<rparr>)"
    by (rule inv_perm) (rule update_one [OF D(1) r(1)])
  then show ?thesis by (simp add: enqueue_row_def update_order)
qed

text \<open>The rows of the statement in the order of its ids.\<close>

definition new_moves :: "folder \<Rightarrow> bool \<Rightarrow> string option \<Rightarrow> time_ms \<Rightarrow> nat \<Rightarrow> msg list \<Rightarrow> move list" where
  "new_moves dest drop_row by_user t i rs =
     map (\<lambda>(k, r). new_move dest drop_row by_user t (i + k) r) (List.enumerate 0 rs)"

lemma new_moves_snoc: "new_moves dest d b t i (rs @ [r]) = new_moves dest d b t i rs @ [new_move dest d b t (i + length rs) r]"
  by (simp add: new_moves_def enumerate_append_eq)

lemma new_moves_rows: "m \<in> set (new_moves dest d b t i rs) \<Longrightarrow> mv_row m \<in> ms_id ` set rs"
  by (auto simp: new_moves_def new_move_def dest!: in_set_enumerate_eq [THEN iffD1])

lemma place_row_other: "(\<And>m. m \<in> set ops \<Longrightarrow> mv_row m \<noteq> ms_id r) \<Longrightarrow> place_row ops r = r"
  using find_None_iff [of "\<lambda>op. mv_row op = ms_id r" ops] by (auto simp: place_row_def)

lemma place_row_id [simp]: "ms_id (place_row ops r) = ms_id r"
  by (simp add: place_row_def split: option.splits)

lemma find_snoc: "find p (xs @ [x]) = (case find p xs of Some y \<Rightarrow> Some y | None \<Rightarrow> if p x then Some x else None)"
  by (induction xs) auto

lemma place_row_snoc:
  assumes "\<And>m. m \<in> set ops \<Longrightarrow> mv_row m \<noteq> mv_row op"
  shows "place_row (ops @ [op]) r = (if ms_id r = mv_row op
    then r\<lparr>ms_folder := mv_dest op, ms_uid := placeholderUid (mv_id op)\<rparr> else place_row ops r)"
proof (cases "ms_id r = mv_row op")
  case True
  then have "find (\<lambda>op. mv_row op = ms_id r) ops = None" using assms by (simp add: find_None_iff)
  then show ?thesis using True by (simp add: place_row_def find_snoc)
qed (auto simp: place_row_def find_snoc split: option.splits)

definition enqueue_rows :: "folder \<Rightarrow> bool \<Rightarrow> string option \<Rightarrow> time_ms \<Rightarrow> msg list \<Rightarrow> movedb \<Rightarrow> movedb" where
  "enqueue_rows dest drop_row by_user t rs db =
     (let ops = new_moves dest drop_row by_user t (next_move db) rs
      in db\<lparr>msgs := map (place_row ops) (msgs db), moves := moves db @ ops, next_move := next_move db + length rs\<rparr>)"

lemma enqueue_rows_snoc:
  assumes "distinct (map ms_id (rs @ [r]))"
  shows "enqueue_rows dest d b t (rs @ [r]) db = enqueue_row dest d b t r (enqueue_rows dest d b t rs db)"
proof -
  let ?ops = "new_moves dest d b t (next_move db) rs" and ?op = "new_move dest d b t (next_move db + length rs) r"
  have fresh: "mv_row m \<noteq> mv_row ?op" if "m \<in> set ?ops" for m
    using new_moves_rows [OF that] assms by (auto simp: new_move_def)
  have "map (place_row (?ops @ [?op])) (msgs db) = sql_update (\<lambda>x. ms_id x = ms_id r)
      (\<lambda>x. x\<lparr>ms_folder := dest, ms_uid := placeholderUid (next_move db + length rs)\<rparr>) (map (place_row ?ops) (msgs db))"
  proof (unfold sql_update_def map_map, rule map_cong [OF refl])
    fix x
    have "place_row ?ops x = x" if "ms_id x = ms_id r"
      by (rule place_row_other) (use fresh that in \<open>simp add: new_move_def\<close>)
    then show "place_row (?ops @ [?op]) x = ((\<lambda>x. if ms_id x = ms_id r
        then x\<lparr>ms_folder := dest, ms_uid := placeholderUid (next_move db + length rs)\<rparr> else x) \<circ> place_row ?ops) x"
      by (simp add: place_row_snoc [OF fresh]) (simp add: new_move_def)
  qed
  then show ?thesis by (simp add: enqueue_rows_def enqueue_row_def new_moves_snoc Let_def)
qed

lemma inv_enqueue_rows:
  assumes inv: "mq_inv db"
  shows "distinct (map ms_id rs) \<Longrightarrow> (\<And>r. r \<in> set rs \<Longrightarrow> r \<in> set (msgs db) \<and> ms_uid r > 0)
    \<Longrightarrow> mq_inv (enqueue_rows dest d b t rs db)"
proof (induction rs rule: rev_induct)
  case Nil
  then show ?case using inv by (simp add: enqueue_rows_def new_moves_def place_row_def map_idI)
next
  case (snoc r rs)
  let ?db = "enqueue_rows dest d b t rs db"
  have "place_row (new_moves dest d b t (next_move db) rs) r = r"
  proof (rule place_row_other)
    fix m assume "m \<in> set (new_moves dest d b t (next_move db) rs)"
    then have "mv_row m \<in> ms_id ` set rs" by (rule new_moves_rows)
    then show "mv_row m \<noteq> ms_id r" using snoc.prems(1) by auto
  qed
  moreover have "r \<in> set (msgs db)" "ms_uid r > 0" using snoc.prems(2) by simp_all
  ultimately have "r \<in> set (msgs ?db)" by (simp add: enqueue_rows_def Let_def) (metis imageI)
  then have "mq_inv (enqueue_row dest d b t r ?db)"
    by (intro inv_enqueue_row snoc.IH) (use snoc.prems \<open>ms_uid r > 0\<close> in auto)
  then show ?case by (simp add: enqueue_rows_snoc [OF snoc.prems(1)])
qed

lemma mq_inv_enqueue:
  assumes inv: "mq_inv db"
  shows "mq_inv (snd (enqueue_fresh account ids dest drop_row by_user t db))"
proof -
  have "mq_inv (enqueue_rows dest drop_row by_user t (filter (movable account ids dest) (msgs db)) db)"
    by (rule inv_enqueue_rows [OF inv])
      (use mq_invD(1) [OF inv] in \<open>auto simp: movable_def distinct_map_filter\<close>)
  then show ?thesis by (simp add: enqueue_fresh_def enqueue_rows_def new_moves_def Let_def)
qed

text \<open>
  A letter a sync found: a row with a fresh id at a free place of the server. Rows that are
  deleted (by a sync, an account that goes) leave their moves behind.
\<close>

definition free_place :: "msg \<Rightarrow> movedb \<Rightarrow> bool" where
  "free_place r db \<longleftrightarrow> ms_uid r > 0 \<and> \<not> list_ex (located_at (ms_account r) (ms_folder r) (ms_uid r)) (msgs db)
     \<and> \<not> list_ex (\<lambda>x. ms_id x = ms_id r) (msgs db) \<and> \<not> list_ex (\<lambda>m. mv_row m = ms_id r) (moves db)"

lemma inv_insert:
  assumes inv: "mq_inv db" and free: "free_place r db"
  shows "mq_inv (db\<lparr>msgs := r # msgs db\<rparr>)"
proof -
  have "mq_inv (db\<lparr>moves := moves db, msgs := r # msgs db\<rparr>)"
    by (rule inv_add_row [OF inv])
      (use free in \<open>auto simp: free_place_def list_ex_iff located_at_def place_def\<close>)
  then show ?thesis by simp
qed

lemma inv_delete_rows:
  assumes inv: "mq_inv db"
  shows "mq_inv (db\<lparr>msgs := sql_delete p (msgs db)\<rparr>)"
proof -
  have "mq_inv (db\<lparr>moves := sql_delete (\<lambda>_. False) (moves db), msgs := sql_delete p (msgs db)\<rparr>)"
    by (rule inv_remove [OF inv]) auto
  then show ?thesis by (simp add: delete_none)
qed

section \<open>What a step leaves of the moves\<close>

text \<open>Ids are not reused, a move keeps its row, and a known source stays known.\<close>

definition evolves :: "movedb \<Rightarrow> movedb \<Rightarrow> bool" where
  "evolves db db' \<longleftrightarrow> next_move db \<le> next_move db' \<and> (\<forall>m'\<in>set (moves db'). mv_id m' < next_move db \<longrightarrow>
     (\<exists>m\<in>set (moves db). mv_id m = mv_id m' \<and> mv_row m = mv_row m' \<and> (mv_src_uid m \<noteq> None \<longrightarrow> mv_src_uid m' \<noteq> None)))"

definition keeps_source :: "(move \<Rightarrow> move) \<Rightarrow> bool" where
  "keeps_source f \<longleftrightarrow> (\<forall>m. mv_id (f m) = mv_id m \<and> mv_row (f m) = mv_row m \<and> (mv_src_uid m \<noteq> None \<longrightarrow> mv_src_uid (f m) \<noteq> None))"

lemma evolvesI:
  assumes "next_move db \<le> next_move db'"
    and "\<And>m'. m' \<in> set (moves db') \<Longrightarrow> mv_id m' < next_move db
      \<Longrightarrow> \<exists>m\<in>set (moves db). mv_id m = mv_id m' \<and> mv_row m = mv_row m' \<and> (mv_src_uid m \<noteq> None \<longrightarrow> mv_src_uid m' \<noteq> None)"
  shows "evolves db db'"
  using assms by (auto simp: evolves_def)

lemma evolves_refl: "moves db' = moves db \<Longrightarrow> next_move db' = next_move db \<Longrightarrow> evolves db db'"
  by (rule evolvesI) auto

lemma evolves_update:
  assumes "keeps_source f" and "set ms \<subseteq> set (moves db)" and "moves db' = sql_update p f ms" and "next_move db' = next_move db"
  shows "evolves db db'"
proof (rule evolvesI)
  fix m' assume "m' \<in> set (moves db')"
  then obtain m where "m \<in> set ms" "m' = (if p m then f m else m)" using assms(3) by (auto simp: sql_update_def)
  then show "\<exists>m\<in>set (moves db). mv_id m = mv_id m' \<and> mv_row m = mv_row m' \<and> (mv_src_uid m \<noteq> None \<longrightarrow> mv_src_uid m' \<noteq> None)"
    using assms(1,2) by (intro bexI [of _ m]) (auto simp: keeps_source_def)
qed (use assms(4) in simp)

lemma evolves_subset: "set (moves db') \<subseteq> set (moves db) \<Longrightarrow> next_move db' = next_move db \<Longrightarrow> evolves db db'"
  by (rule evolvesI) auto

lemma evolves_new:
  assumes "moves db' = moves db @ ops" and "\<And>m. m \<in> set ops \<Longrightarrow> next_move db \<le> mv_id m" and "next_move db \<le> next_move db'"
  shows "evolves db db'"
proof (rule evolvesI)
  fix m' assume "m' \<in> set (moves db')" "mv_id m' < next_move db"
  then have "m' \<in> set (moves db)" using assms(1) assms(2) [of m'] by auto
  then show "\<exists>m\<in>set (moves db). mv_id m = mv_id m' \<and> mv_row m = mv_row m' \<and> (mv_src_uid m \<noteq> None \<longrightarrow> mv_src_uid m' \<noteq> None)"
    by blast
qed (rule assms(3))

lemma set_flag_same [simp]: "mv_id (set_flag fl v m) = mv_id m" "mv_row (set_flag fl v m) = mv_row m"
  "mv_src_uid (set_flag fl v m) = mv_src_uid m"
  by (cases fl; simp)+

lemma delete_subset: "set (sql_delete p t) \<subseteq> set t"
  by (auto simp: sql_delete_def)

lemma evolves_states:
  "evolves db (snd (deferFlags rows fl v db))" "evolves db (snd (claim_moves account lk t db))"
  "evolves db (mark_sent ids t db)" "evolves db (release_moves ids t db)" "evolves db (resume_moves t db)"
  "evolves db (snd (sweep running t db))" "evolves db (snd (recover ids t db))" "evolves db (markAwaiting i t db)"
  "evolves db (lookAgainLater i t db)" "evolves db (requeue_awaiting op t db)" "evolves db (retry_move op err unclear t db)"
  unfolding deferFlags_def claim_moves_def mark_sent_def release_moves_def resume_moves_def sweep_def recover_def
    markAwaiting_def lookAgainLater_def requeue_awaiting_def retry_move_def Let_def snd_conv
  by ((rule evolves_update [of _ "moves db"]; simp add: keeps_source_def sent_back_def retry_row_def)[1])+

lemma evolves_pending:
  "evolves db (snd (cancel_pending account rowId dest db))"
  "evolves db (snd (retarget_pending account rowId dest drop_row by_user t db))"
  "evolves db (snd (follow_pending account rowId dest drop_row by_user t db))"
proof -
  show "evolves db (snd (cancel_pending account rowId dest db))"
  proof (cases "\<exists>r op. pending_pair db account rowId = Some (r, op) \<and> mv_state op = MQueued \<and> mv_src_folder op = dest
      \<and> \<not> list_ex (located_at (ms_account r) (mv_src_folder op) (back_uid op)) (msgs db)")
    case True
    then obtain r op where "pending_pair db account rowId = Some (r, op)" "mv_state op = MQueued" "mv_src_folder op = dest"
        "\<not> list_ex (located_at (ms_account r) (mv_src_folder op) (back_uid op)) (msgs db)" by blast
    then show ?thesis
      by (intro evolves_update [of _ "sql_delete (\<lambda>m. mv_id m = mv_id op) (moves db)"])
        (simp_all add: cancel_pending_def keeps_source_def delete_subset)
  qed (auto simp: cancel_pending_def split: option.splits intro!: evolves_refl)
  show "evolves db (snd (retarget_pending account rowId dest drop_row by_user t db))"
  proof (cases "\<exists>r op. pending_pair db account rowId = Some (r, op) \<and> \<not> (ms_folder r = dest \<or> mv_state op \<noteq> MQueued)")
    case True
    then obtain r op where "pending_pair db account rowId = Some (r, op)" "ms_folder r \<noteq> dest" "mv_state op = MQueued" by blast
    then show ?thesis
      by (intro evolves_update [of _ "moves db"]) (simp_all add: retarget_pending_def Let_def keeps_source_def)
  qed (auto simp: retarget_pending_def split: option.splits intro!: evolves_refl)
  show "evolves db (snd (follow_pending account rowId dest drop_row by_user t db))"
    unfolding follow_pending_def
    by (auto split: option.splits simp: Let_def following_move_def intro: evolves_refl evolves_new)
qed

lemma evolves_enqueue: "evolves db (snd (enqueue_fresh account ids dest drop_row by_user t db))"
  unfolding enqueue_fresh_def Let_def snd_conv
  by (rule evolves_new) (auto simp: new_move_def in_set_enumerate_eq)

lemma update_nobody: "find p t = None \<Longrightarrow> sql_update p f t = t"
  by (auto simp: sql_update_def find_None_iff intro!: map_idI)

lemma settle_moves:
  assumes "move_of db (mv_id op) = Some cur"
  shows "moves (snd (settle op u at t db)) = sql_update (follows (mv_id cur))
      (take_over cur u (case at of Some f \<Rightarrow> f | None \<Rightarrow> mv_dest cur) t) (sql_delete (\<lambda>m. mv_id m = mv_id cur) (moves db))"
    and "next_move (snd (settle op u at t db)) = next_move db"
  using assms by (simp_all add: settle_def remove_move_def Let_def update_nobody split: option.split)

lemma revert_moves:
  assumes "move_of db (mv_id op) = Some cur"
  shows "moves (snd (revert op t db)) = sql_update (follows (mv_id cur))
      (\<lambda>m. m\<lparr>mv_src_folder := mv_src_folder cur, mv_src_uid := mv_src_uid cur, mv_pred := mv_pred cur, mv_updated := t\<rparr>)
      (sql_delete (\<lambda>m. mv_id m = mv_id cur) (moves db))"
    and "next_move (snd (revert op t db)) = next_move db"
  using assms by (simp_all add: revert_def remove_move_def Let_def update_nobody split: option.split)

lemma evolves_ends:
  assumes inv: "mq_inv db" and same: "same_letter op db"
  shows "evolves db (snd (settle op u at t db))" "evolves db (snd (revert op t db))" "evolves db (snd (drop_move op db))"
proof -
  show "evolves db (snd (settle op u at t db))"
  proof (cases "move_of db (mv_id op)")
    case (Some cur)
    show ?thesis
      by (rule evolves_update [OF _ _ settle_moves [OF Some]]) (simp_all add: keeps_source_def take_over_def delete_subset)
  qed (simp add: settle_def evolves_refl)
  show "evolves db (snd (revert op t db))"
  proof (cases "move_of db (mv_id op)")
    case (Some cur)
    have "mv_src_uid cur \<noteq> None" using same_letterD(5) [OF inv same Some] by auto
    then show ?thesis
      by (intro evolves_update [OF _ _ revert_moves [OF Some]]) (simp_all add: keeps_source_def delete_subset)
  qed (simp add: revert_def evolves_refl)
  show "evolves db (snd (drop_move op db))"
    unfolding drop_move_def Let_def
    by (auto split: option.splits simp: sql_delete_def intro!: evolves_refl evolves_subset)
qed

text \<open>A copy of a move that was read stays true of the move.\<close>

definition read_of :: "movedb \<Rightarrow> move \<Rightarrow> bool" where
  "read_of db op \<longleftrightarrow> mv_id op < next_move db \<and> same_letter op db"

lemma read_of_stays:
  assumes inv: "mq_inv db" and ev: "evolves db db'" and op: "read_of db op"
  shows "read_of db' op"
proof -
  have "mv_id op < next_move db'" using op ev by (auto simp: read_of_def evolves_def)
  moreover have "mv_row c = mv_row op \<and> mv_src_uid c \<noteq> None" if c: "move_of db' (mv_id op) = Some c" for c
  proof -
    have "c \<in> set (moves db')" "mv_id c = mv_id op" using move_of_SomeD [OF c] by simp_all
    then obtain m where m: "m \<in> set (moves db)" "mv_id m = mv_id c" "mv_row m = mv_row c"
        "mv_src_uid m \<noteq> None \<longrightarrow> mv_src_uid c \<noteq> None"
      using ev op by (auto simp: evolves_def read_of_def)
    have "move_of db (mv_id op) = Some m"
      using row_by_in [OF mq_invD(2) [OF inv] m(1)] m(2) \<open>mv_id c = mv_id op\<close> by (simp add: move_of_def)
    then show ?thesis using op m(3,4) by (simp add: read_of_def same_letter_def)
  qed
  ultimately show ?thesis by (simp add: read_of_def same_letter_def)
qed

section \<open>Renamed folders and other writes of rows\<close>

lemma distinct_mapI: "distinct (map f xs) \<Longrightarrow> distinct xs"
  by (simp add: distinct_map)

text \<open>Rows and moves whose paths change alike, account by account, with no two rows at one place after it.\<close>

lemma inv_paths:
  assumes inv: "mq_inv db"
    and G: "\<And>r. ms_id (G r) = ms_id r \<and> ms_account (G r) = ms_account r \<and> ms_uid (G r) = ms_uid r \<and> ms_folder (G r) = h (ms_account r) (ms_folder r)"
    and F: "\<And>m. mv_id (F m) = mv_id m \<and> mv_row (F m) = mv_row m \<and> mv_account (F m) = mv_account m \<and> mv_src_uid (F m) = mv_src_uid m
      \<and> mv_pred (F m) = mv_pred m \<and> mv_state (F m) = mv_state m
      \<and> mv_src_folder (F m) = h (mv_account m) (mv_src_folder m) \<and> mv_dest (F m) = h (mv_account m) (mv_dest m)"
    and apart: "\<And>a b. a \<in> set (msgs db) \<Longrightarrow> b \<in> set (msgs db) \<Longrightarrow> place (G a) = place (G b) \<Longrightarrow> a = b"
  shows "mq_inv (db\<lparr>msgs := map G (msgs db), moves := map F (moves db)\<rparr>)"
proof -
  note D = mq_invD [OF inv]
  have ids: "map ms_id (map G (msgs db)) = map ms_id (msgs db)" "map mv_id (map F (moves db)) = map mv_id (moves db)"
    using G F by simp_all
  have "distinct (msgs db)" using D(1) by (rule distinct_mapI)
  then have places: "distinct (map place (map G (msgs db)))"
    using apart by (simp add: distinct_map inj_on_def comp_def) 
  have src: "source_known (map F (moves db)) (F m)" if m: "m \<in> set (moves db)" for m
    using D(6) [OF m] F by (fastforce simp: source_known_def split: option.splits)
  have held: "held_by_move (map F (moves db)) (G r)" if r: "held_by_move (moves db) r" for r
    using r F G by (fastforce simp: held_by_move_def)
  show ?thesis
    unfolding mq_inv_def using ids places src held D(1,2,4,5,7-11) F G by (auto simp del: map_map)
qed

lemma in_tree_split: "in_tree old delim f \<Longrightarrow> f = old @ drop (length old) f"
proof (cases "f = old")
  case False
  assume "in_tree old delim f"
  then have "f = (old @ delim) @ drop (length (old @ delim)) f"
    using False append_take_drop_id [of "length (old @ delim)" f] by (simp add: in_tree_def)
  then obtain g where "f = old @ g" by (metis append.assoc)
  then show ?thesis by simp
qed simp

lemma renamed_same:
  assumes "in_tree old delim f" and "in_tree old delim f'" and "renamed old delim new f = renamed old delim new f'"
  shows "f = f'"
proof -
  have "drop (length old) f = drop (length old) f'" using assms by (simp add: renamed_def)
  then show ?thesis using in_tree_split [OF assms(1)] in_tree_split [OF assms(2)] by simp
qed

lemma inv_rename:
  assumes inv: "mq_inv db"
  shows "mq_inv (renameFolder account old delim new t db)"
proof -
  let ?in = "\<lambda>r. ms_account r = account \<and> in_tree old delim (ms_folder r)"
  let ?p = "\<lambda>r. ?in r \<and> list_ex (located_at account (renamed old delim new (ms_folder r)) (ms_uid r)) (msgs db)"
  let ?db = "db\<lparr>msgs := sql_delete ?p (msgs db)\<rparr>"
  let ?h = "\<lambda>a f. if a = account then renamed old delim new f else f"
  let ?G = "\<lambda>r. if ?in r then r\<lparr>ms_folder := renamed old delim new (ms_folder r)\<rparr> else r"
  let ?F = "\<lambda>m. if mv_account m = account \<and> (in_tree old delim (mv_src_folder m) \<or> in_tree old delim (mv_dest m))
    then m\<lparr>mv_src_folder := renamed old delim new (mv_src_folder m), mv_dest := renamed old delim new (mv_dest m), mv_updated := t\<rparr> else m"
  have inv1: "mq_inv ?db" by (rule inv_delete_rows [OF inv])
  have "mq_inv (?db\<lparr>msgs := map ?G (msgs ?db), moves := map ?F (moves ?db)\<rparr>)"
  proof (rule inv_paths [OF inv1, where h = ?h])
    fix a b assume a: "a \<in> set (msgs ?db)" and b: "b \<in> set (msgs ?db)" and same: "place (?G a) = place (?G b)"
    have all: "a \<in> set (msgs db)" "b \<in> set (msgs db)" "\<not> ?p a" "\<not> ?p b" using a b by (auto simp: sql_delete_def)
    have no: "\<not> (?in x \<and> \<not> ?in y \<and> place (?G x) = place (?G y))" if "\<not> ?p x" "y \<in> set (msgs db)" for x y
      using that by (auto simp: place_def list_ex_iff located_at_def)
    show "a = b"
    proof (cases "?in a = ?in b")
      case True
      have "place a = place b" using True same renamed_same [of old delim "ms_folder a" "ms_folder b" new] by (auto simp: place_def split: if_splits)
      then show ?thesis by (rule place_eq [OF mq_invD(3) [OF inv] all(1,2)])
    next
      case False
      then show ?thesis using no [OF all(3,2)] no [OF all(4,1)] same by metis
    qed
  qed (auto simp: renamed_def)
  then show ?thesis
    by (simp add: renameFolder_def rename_moves_def rename_messages_def sql_update_def Let_def)
qed

lemma evolves_rename: "evolves db (renameFolder account old delim new t db)"
  unfolding renameFolder_def rename_moves_def rename_messages_def Let_def
  by (rule evolves_update [of _ "moves db"]) (simp_all add: keeps_source_def)

text \<open>Writes of other columns of rows keep every row's id and place.\<close>

lemma inv_touched:
  assumes inv: "mq_inv db" and f: "\<And>r. ms_id (f r) = ms_id r \<and> place (f r) = place r"
  shows "mq_inv (db\<lparr>msgs := sql_update p f (msgs db)\<rparr>)"
proof -
  have "mq_inv (db\<lparr>msgs := map (\<lambda>r. if p r then f r else r) (msgs db), moves := map (\<lambda>m. m) (moves db)\<rparr>)"
  proof (rule inv_paths [OF inv, where h = "\<lambda>_ f. f"])
    fix a b assume "a \<in> set (msgs db)" "b \<in> set (msgs db)" "place (if p a then f a else a) = place (if p b then f b else b)"
    then show "a = b" using place_eq [OF mq_invD(3) [OF inv]] f by (auto split: if_splits)
  qed (use f in \<open>auto simp: place_def\<close>)
  then show ?thesis by (simp add: sql_update_def)
qed

text \<open>A letter moved at once, as rules, snoozes and archives do, which stands on no placeholder then.\<close>

definition relocatable :: "msg \<Rightarrow> folder \<Rightarrow> int \<Rightarrow> movedb \<Rightarrow> bool" where
  "relocatable r f u db \<longleftrightarrow> r \<in> set (msgs db) \<and> ms_uid r > 0 \<and> u > 0 \<and> \<not> list_ex (located_at (ms_account r) f u) (msgs db)"

lemma inv_relocate:
  assumes inv: "mq_inv db" and ok: "relocatable r f u db"
  shows "mq_inv (db\<lparr>msgs := sql_update (\<lambda>x. ms_id x = ms_id r) (\<lambda>x. x\<lparr>ms_folder := f, ms_uid := u\<rparr>) (msgs db)\<rparr>)"
proof -
  have r: "r \<in> set (msgs db)" "ms_uid r > 0" using ok by (simp_all add: relocatable_def)
  let ?rest = "sql_delete (\<lambda>x. ms_id x = ms_id r) (msgs db)" and ?r = "r\<lparr>ms_folder := f, ms_uid := u\<rparr>"
  have "mq_inv (db\<lparr>msgs := ?rest\<rparr>)" by (rule inv_delete_rows [OF inv])
  then have "mq_inv ((db\<lparr>msgs := ?rest\<rparr>)\<lparr>moves := moves (db\<lparr>msgs := ?rest\<rparr>), msgs := ?r # msgs (db\<lparr>msgs := ?rest\<rparr>)\<rparr>)"
    by (rule inv_add_row)
      (use ok row_placed [OF inv r] in \<open>auto simp: relocatable_def list_ex_iff located_at_def place_def in_deleteD\<close>)
  then have "mq_inv (db\<lparr>moves := moves db, msgs := ?r # ?rest\<rparr>)" by simp
  then have "mq_inv (db\<lparr>moves := moves db, msgs := sql_update (\<lambda>x. ms_id x = ms_id r) (\<lambda>x. x\<lparr>ms_folder := f, ms_uid := u\<rparr>) (msgs db)\<rparr>)"
    by (rule inv_perm) (rule update_one [OF mq_invD(1) [OF inv] r(1)])
  then show ?thesis by simp
qed

section \<open>The relation of all steps\<close>

text \<open>
  The steps of the two tables: every statement and transaction of the move queue, with any arguments and in any
  order (when the worker makes which is in \<open>MoveWorker\<close>), the letters the syncs insert, the rows anyone
  deletes, writes of other columns, the rename of a folder, taken as one step, and the letters that rules, the block
  list, snoozes and the archive of the inbox move at once. Those write the folder of a row by its id and do
  not ask whether it stands on a placeholder; the steps are the writes that find it on none.

  \<open>mq_read\<close> holds the copies of moves that a worker run, a lookup or an arriving letter took from
  the table and may settle, revert or drop at any later moment, whatever happened to the tables in
  between.
\<close>

record mq_sys =
  mq_db :: movedb
  mq_read :: "move list"

inductive mq_step :: "mq_sys \<Rightarrow> mq_sys \<Rightarrow> bool" where
  enqueue: "mq_step s (s\<lparr>mq_db := snd (enqueue_fresh account ids dest drop_row by_user t (mq_db s))\<rparr>)"
| cancel: "mq_step s (s\<lparr>mq_db := snd (cancel_pending account rowId dest (mq_db s))\<rparr>)"
| retarget: "mq_step s (s\<lparr>mq_db := snd (retarget_pending account rowId dest drop_row by_user t (mq_db s))\<rparr>)"
| follow: "mq_step s (s\<lparr>mq_db := snd (follow_pending account rowId dest drop_row by_user t (mq_db s))\<rparr>)"
| defer_flags: "mq_step s (s\<lparr>mq_db := snd (deferFlags rows fl v (mq_db s))\<rparr>)"
| claim: "claim_moves account lk t (mq_db s) = (ops, db) \<Longrightarrow> mq_step s (s\<lparr>mq_db := db, mq_read := ops @ mq_read s\<rparr>)"
| look_up: "op \<in> set (moves (mq_db s)) \<Longrightarrow> mv_state op \<noteq> MQueued \<Longrightarrow> mq_step s (s\<lparr>mq_read := op # mq_read s\<rparr>)"
| sent: "mq_step s (s\<lparr>mq_db := mark_sent nums t (mq_db s)\<rparr>)"
| release: "mq_step s (s\<lparr>mq_db := release_moves nums t (mq_db s)\<rparr>)"
| resumed: "mq_step s (s\<lparr>mq_db := resume_moves t (mq_db s)\<rparr>)"
| swept: "mq_step s (s\<lparr>mq_db := snd (sweep running t (mq_db s))\<rparr>)"
| recovered: "mq_step s (s\<lparr>mq_db := snd (recover nums t (mq_db s))\<rparr>)"
| awaiting: "mq_step s (s\<lparr>mq_db := markAwaiting i t (mq_db s)\<rparr>)"
| look_later: "mq_step s (s\<lparr>mq_db := lookAgainLater i t (mq_db s)\<rparr>)"
| requeue: "mq_step s (s\<lparr>mq_db := requeue_awaiting op t (mq_db s)\<rparr>)"
| retry: "mq_step s (s\<lparr>mq_db := retry_move op err unclear t (mq_db s)\<rparr>)"
| settled: "op \<in> set (mq_read s) \<Longrightarrow> u > 0 \<Longrightarrow> mq_step s (s\<lparr>mq_db := snd (settle op u at t (mq_db s))\<rparr>)"
| reverted: "op \<in> set (mq_read s) \<Longrightarrow> mq_step s (s\<lparr>mq_db := snd (revert op t (mq_db s))\<rparr>)"
| dropped: "op \<in> set (mq_read s) \<Longrightarrow> mq_step s (s\<lparr>mq_db := snd (drop_move op (mq_db s))\<rparr>)"
| letter: "free_place r (mq_db s) \<Longrightarrow> mq_step s (s\<lparr>mq_db := (mq_db s)\<lparr>msgs := r # msgs (mq_db s)\<rparr>\<rparr>)"
| expunged: "mq_step s (s\<lparr>mq_db := (mq_db s)\<lparr>msgs := sql_delete p (msgs (mq_db s))\<rparr>\<rparr>)"
| folder_renamed: "mq_step s (s\<lparr>mq_db := renameFolder account old delim new t (mq_db s)\<rparr>)"
| touched: "(\<And>r. ms_id (f r) = ms_id r \<and> place (f r) = place r) \<Longrightarrow> mq_step s (s\<lparr>mq_db := (mq_db s)\<lparr>msgs := sql_update p f (msgs (mq_db s))\<rparr>\<rparr>)"
| relocated: "relocatable r f u (mq_db s) \<Longrightarrow> mq_step s (s\<lparr>mq_db := (mq_db s)\<lparr>msgs :=
    sql_update (\<lambda>x. ms_id x = ms_id r) (\<lambda>x. x\<lparr>ms_folder := f, ms_uid := u\<rparr>) (msgs (mq_db s))\<rparr>\<rparr>)"

inductive_cases mq_stepE: "mq_step s s'"

definition mq_ok :: "mq_sys \<Rightarrow> bool" where
  "mq_ok s \<longleftrightarrow> mq_inv (mq_db s) \<and> (\<forall>op\<in>set (mq_read s). read_of (mq_db s) op)"

lemma mq_ok_db:
  assumes "mq_ok s" and "mq_inv db" and "evolves (mq_db s) db"
  shows "mq_ok (s\<lparr>mq_db := db\<rparr>)"
  using assms read_of_stays unfolding mq_ok_def by (simp add: Ball_def) metis

lemma mq_ok_read:
  assumes "mq_ok s" and "op \<in> set (moves (mq_db s))" and "mv_src_uid op \<noteq> None"
  shows "read_of (mq_db s) op"
proof -
  have inv: "mq_inv (mq_db s)" using assms(1) by (simp add: mq_ok_def)
  have "move_of (mq_db s) (mv_id op) = Some op"
    unfolding move_of_def by (rule row_by_in [OF mq_invD(2) [OF inv] assms(2)])
  then show ?thesis using assms(3) mq_invD(5) [OF inv assms(2)] by (simp add: read_of_def same_letter_def)
qed

lemma claimed_known:
  assumes inv: "mq_inv db" and op: "op \<in> set (fst (claim_moves account lk t db))"
  shows "op \<in> set (moves (snd (claim_moves account lk t db))) \<and> mv_src_uid op \<noteq> None"
proof -
  let ?ids = "due_moves account lk t db"
  let ?p = "\<lambda>m. mv_id m \<in> set ?ids \<and> mv_state m = MQueued"
  let ?f = "\<lambda>m. m\<lparr>mv_state := MMoving, mv_claimed_at := Some t, mv_sent_at := None, mv_updated := t\<rparr>"
  obtain m where m: "m \<in> set (moves db)" "?p m" "op = ?f m"
    using op by (auto simp: claim_moves_def Let_def sql_returning_def)
  have "mv_id m \<in> mv_id ` {x \<in> set (moves db). mv_src_uid x \<noteq> None}"
    using m(2) by (auto simp: due_moves_def dest!: in_set_takeD)
  then obtain x where x: "x \<in> set (moves db)" "mv_id x = mv_id m" "mv_src_uid x \<noteq> None" by auto
  have "x = m" by (rule move_eq [OF mq_invD(2) [OF inv] x(1) m(1) x(2)])
  moreover have "?f m \<in> set (sql_update ?p ?f (moves db))" using in_updateI [OF m(1), of ?p ?f] m(2) by simp
  ultimately show ?thesis using m(3) x(3) by (simp add: claim_moves_def Let_def)
qed

theorem mq_step_ok:
  assumes "mq_step s s'" and ok: "mq_ok s"
  shows "mq_ok s'"
proof -
  have inv: "mq_inv (mq_db s)" and known: "\<And>op. op \<in> set (mq_read s) \<Longrightarrow> read_of (mq_db s) op"
    using ok by (simp_all add: mq_ok_def)
  note S = state_steps [OF inv] and E = evolves_states [of "mq_db s"]
  have same: "same_letter op (mq_db s)" if "op \<in> set (mq_read s)" for op
    using known [OF that] by (simp add: read_of_def)
  from assms(1) show ?thesis
  proof cases
    case (claim account lk t ops db)
    have db: "db = snd (claim_moves account lk t (mq_db s))" using claim(2) by simp
    have ok': "mq_ok (s\<lparr>mq_db := db\<rparr>)" unfolding db by (rule mq_ok_db [OF ok S(2) E(2)])
    have "read_of db op" if "op \<in> set ops" for op
    proof -
      have "op \<in> set (moves db) \<and> mv_src_uid op \<noteq> None"
        using claimed_known [OF inv, of op account lk t] claim(2) that by simp
      then show ?thesis using mq_ok_read [OF ok', of op] by simp
    qed
    then show ?thesis using ok' unfolding claim(1) mq_ok_def by auto
  next
    case (look_up op)
    have "mv_src_uid op \<noteq> None" using unsourced_queued [OF inv look_up(2)] look_up(3) by blast
    then have "read_of (mq_db s) op" by (rule mq_ok_read [OF ok look_up(2)])
    then show ?thesis using ok unfolding look_up(1) mq_ok_def by simp
  next
    case (letter r)
    then show ?thesis using mq_ok_db [OF ok inv_insert [OF inv letter(2)]] by (simp add: evolves_refl)
  next
    case (expunged p)
    then show ?thesis using mq_ok_db [OF ok inv_delete_rows [OF inv]] by (simp add: evolves_refl)
  next
    case (folder_renamed account old delim new t)
    then show ?thesis using mq_ok_db [OF ok inv_rename [OF inv] evolves_rename] by simp
  next
    case (touched f p)
    then show ?thesis using mq_ok_db [OF ok inv_touched [OF inv touched(2)]] by (simp add: evolves_refl)
  next
    case (relocated r f u)
    then show ?thesis using mq_ok_db [OF ok inv_relocate [OF inv relocated(2)]] by (simp add: evolves_refl)
  qed (auto intro!: mq_ok_db [OF ok] S E mq_inv_enqueue [OF inv] mq_inv_cancel [OF inv] inv_retarget [OF inv] inv_follow [OF inv]
      inv_settle [OF inv] inv_revert [OF inv] inv_drop [OF inv] evolves_pending evolves_enqueue evolves_ends [OF inv] same)
qed

inductive mq_reachable :: "movedb \<Rightarrow> mq_sys \<Rightarrow> bool" for start :: movedb where
  fresh: "moves start = [] \<Longrightarrow> next_move start > 0 \<Longrightarrow> distinct (map ms_id (msgs start)) \<Longrightarrow> distinct (map place (msgs start))
    \<Longrightarrow> list_all (\<lambda>r. ms_uid r > 0) (msgs start) \<Longrightarrow> mq_reachable start \<lparr>mq_db = start, mq_read = []\<rparr>"
| further: "mq_reachable start s \<Longrightarrow> mq_step s s' \<Longrightarrow> mq_reachable start s'"

lemma reachable_ok: "mq_reachable start s \<Longrightarrow> mq_ok s"
proof (induction rule: mq_reachable.induct)
  case fresh
  then show ?case by (auto simp: mq_ok_def mq_inv_def list_all_iff)
next
  case (further s s')
  then show ?case by (simp add: mq_step_ok)
qed

end
