(* ===== verification/Claims.thy ===== *)
theory Claims
  imports Prelude
begin

text \<open>
  The contract of a queue whose workers claim rows: a claim hands out rows that were free and leaves
  them taken, and no claim frees a row. \<open>claim_run\<close> runs claims (\<open>Inl\<close>) and any other operations of
  the queue (\<open>Inr\<close>) and counts, of one row, how often it was handed out and how often another
  operation freed it. The provers of the contract are the job queue, the moves of a mailbox and the
  claims of permanent deletes, each in its own theory.
\<close>

fun claim_run :: "('s \<Rightarrow> 'k \<Rightarrow> bool) \<Rightarrow> ('c \<Rightarrow> 's \<Rightarrow> 'k list \<times> 's) \<Rightarrow> ('r \<Rightarrow> 's \<Rightarrow> 's) \<Rightarrow> 'k \<Rightarrow> ('c + 'r) list \<Rightarrow> 's \<Rightarrow> nat \<times> nat \<times> 's" where
  "claim_run free claim other k [] s = (0, 0, s)"
| "claim_run free claim other k (Inl c # ops) s = (case claim c s of (ks, s1) \<Rightarrow>
     case claim_run free claim other k ops s1 of (h, f, s2) \<Rightarrow> (h + count_list ks k, f, s2))"
| "claim_run free claim other k (Inr r # ops) s = (let s1 = other r s in
     case claim_run free claim other k ops s1 of (h, f, s2) \<Rightarrow> (h, f + of_bool (free s1 k \<and> \<not> free s k), s2))"

lemma count_list_distinct: "distinct xs \<Longrightarrow> count_list xs x = of_bool (x \<in> set xs)"
  by (induction xs) auto

locale claims =
  fixes good :: "'s \<Rightarrow> bool" and free :: "'s \<Rightarrow> 'k \<Rightarrow> bool"
    and claim :: "'c \<Rightarrow> 's \<Rightarrow> 'k list \<times> 's" and other :: "'r \<Rightarrow> 's \<Rightarrow> 's"
  assumes good_claim: "good s \<Longrightarrow> good (snd (claim c s))"
    and good_other: "good s \<Longrightarrow> good (other r s)"
    and handed_once: "good s \<Longrightarrow> distinct (fst (claim c s))"
    and handed_was_free: "good s \<Longrightarrow> k \<in> set (fst (claim c s)) \<Longrightarrow> free s k"
    and handed_is_taken: "good s \<Longrightarrow> k \<in> set (fst (claim c s)) \<Longrightarrow> \<not> free (snd (claim c s)) k"
    and claim_frees_none: "good s \<Longrightarrow> free (snd (claim c s)) k \<Longrightarrow> free s k"
begin

lemma count_handed: "good s \<Longrightarrow> count_list (fst (claim c s)) k = of_bool (k \<in> set (fst (claim c s)))"
  using handed_once by (rule count_list_distinct)

lemma handed_balance:
  "good s \<Longrightarrow> claim_run free claim other k ops s = (h, f, s') \<Longrightarrow> good s' \<and> h + of_bool (free s' k) \<le> f + of_bool (free s k)"
proof (induction ops arbitrary: s h f)
  case (Cons op ops)
  show ?case
  proof (cases op)
    case (Inl c)
    obtain ks s1 where c: "claim c s = (ks, s1)" by fastforce
    obtain h1 f1 where r: "claim_run free claim other k ops s1 = (h1, f1, s')" "h = h1 + count_list ks k" "f = f1"
      using Cons.prems(2) by (auto simp: Inl c split: prod.splits)
    have "good s'" "h1 + of_bool (free s' k) \<le> f1 + of_bool (free s1 k)"
      using Cons.IH [OF _ r(1)] good_claim [OF Cons.prems(1), of c] by (simp_all add: c)
    moreover have "count_list ks k + of_bool (free s1 k) \<le> of_bool (free s k)"
      using count_handed [OF Cons.prems(1), of c k] handed_was_free [OF Cons.prems(1), of k c]
        handed_is_taken [OF Cons.prems(1), of k c] claim_frees_none [OF Cons.prems(1), of c k] by (auto simp: c)
    ultimately show ?thesis by (simp add: r(2,3))
  next
    case (Inr r)
    obtain h1 f1 where i: "claim_run free claim other k ops (other r s) = (h1, f1, s')" "h = h1"
        "f = f1 + of_bool (free (other r s) k \<and> \<not> free s k)"
      using Cons.prems(2) by (auto simp: Inr Let_def split: prod.splits)
    have "good s'" "h1 + of_bool (free s' k) \<le> f1 + of_bool (free (other r s) k)"
      using Cons.IH [OF _ i(1)] good_other [OF Cons.prems(1), of r] by simp_all
    then show ?thesis by (auto simp: i(2,3) of_bool_def split: if_splits)
  qed
qed simp

lemma handed_at_most_once_per_release:
  "good s \<Longrightarrow> claim_run free claim other k ops s = (h, f, s') \<Longrightarrow> h \<le> Suc f"
  using handed_balance [of s k ops h f s'] by (auto simp: of_bool_def split: if_splits)

lemma taken_stays_with_its_claim:
  "good s \<Longrightarrow> claim_run free claim other k ops s = (h, 0, s') \<Longrightarrow> \<not> free s k \<Longrightarrow> h = 0"
  using handed_balance [of s k ops h 0 s'] by simp

end

end
