(* ===== verification/MoveClaims.thy ===== *)
theory MoveClaims
  imports MoveInvariant Claims
begin

text \<open>
  The moves of the mailboxes as a queue of claims (\<open>services/moveQueue.js\<close>): the contract of
  \<open>Claims\<close> for \<open>claim_moves\<close>, beside every other statement that writes the state of a claimed move.
\<close>

datatype move_op = MarkSent "nat list" time_ms | GiveBack "nat list" time_ms | Restart time_ms | Lease "string list" time_ms
  | FailedGroup "nat list" time_ms | AwaitUid nat time_ms | LookAgain nat time_ms | QueueAgain move time_ms
  | TryAgain move string bool time_ms

fun move_other :: "move_op \<Rightarrow> movedb \<Rightarrow> movedb" where
  "move_other (MarkSent ids t) db = mark_sent ids t db"
| "move_other (GiveBack ids t) db = release_moves ids t db"
| "move_other (Restart t) db = resume_moves t db"
| "move_other (Lease running t) db = snd (sweep running t db)"
| "move_other (FailedGroup ids t) db = snd (recover ids t db)"
| "move_other (AwaitUid i t) db = markAwaiting i t db"
| "move_other (LookAgain i t) db = lookAgainLater i t db"
| "move_other (QueueAgain op t) db = requeue_awaiting op t db"
| "move_other (TryAgain op err unclear t) db = retry_move op err unclear t db"

type_synonym move_claim = "string \<times> (nat \<Rightarrow> bool) \<times> time_ms"

definition move_claim :: "move_claim \<Rightarrow> movedb \<Rightarrow> nat list \<times> movedb" where
  "move_claim c db = (case c of (account, lk, t) \<Rightarrow> (map mv_id (fst (claim_moves account lk t db)), snd (claim_moves account lk t db)))"

definition queued_move :: "movedb \<Rightarrow> nat \<Rightarrow> bool" where
  "queued_move db i \<longleftrightarrow> (\<exists>m\<in>set (moves db). mv_id m = i \<and> mv_state m = MQueued)"

lemma claimed_moves: "fst (move_claim (account, lk, t) db)
    = map mv_id (filter (\<lambda>m. mv_id m \<in> set (due_moves account lk t db) \<and> mv_state m = MQueued) (moves db))"
  by (simp add: move_claim_def claim_moves_def Let_def sql_returning_def)

lemma moves_after_claim: "moves (snd (move_claim (account, lk, t) db))
    = map (\<lambda>m. if mv_id m \<in> set (due_moves account lk t db) \<and> mv_state m = MQueued
        then m\<lparr>mv_state := MMoving, mv_claimed_at := Some t, mv_sent_at := None, mv_updated := t\<rparr> else m) (moves db)"
  by (simp add: move_claim_def claim_moves_def Let_def sql_update_def)

interpretation mover: claims mq_inv queued_move move_claim move_other
proof
  fix db :: movedb and c :: move_claim and i and r :: move_op
  obtain account lk t where c: "c = (account, lk, t)" by (cases c)
  assume inv: "mq_inv db"
  show "mq_inv (snd (move_claim c db))" using state_steps(2) [OF inv] by (simp add: c move_claim_def)
  show "mq_inv (move_other r db)" using state_steps [OF inv] by (cases r) simp_all
  show "distinct (fst (move_claim c db))" using mq_invD(2) [OF inv] by (simp add: c claimed_moves distinct_map_filter)
  show "i \<in> set (fst (move_claim c db)) \<Longrightarrow> queued_move db i" by (auto simp: c claimed_moves queued_move_def)
  show "queued_move (snd (move_claim c db)) i \<Longrightarrow> queued_move db i"
    by (auto simp: c moves_after_claim queued_move_def split: if_splits)
  show "i \<in> set (fst (move_claim c db)) \<Longrightarrow> \<not> queued_move (snd (move_claim c db)) i"
    using move_eq [OF mq_invD(2) [OF inv]] by (fastforce simp: c claimed_moves moves_after_claim queued_move_def split: if_splits)
qed

text \<open>Two claims one after the other share no move.\<close>

lemma two_claims_disjoint:
  assumes "mq_inv db"
  shows "set (fst (move_claim c db)) \<inter> set (fst (move_claim c' (snd (move_claim c db)))) = {}"
  using mover.handed_is_taken [OF assms, of _ c] mover.handed_was_free [OF mover.good_claim [OF assms], of _ c' c] by blast

end
