(* ===== verification/MoveProperties.thy ===== *)
theory MoveProperties
  imports MoveSteps MoveClaims
begin

text \<open>
  What the move queue promises: a letter on a placeholder is never stranded and no two letters share
  a place, at every moment of every interleaving of the routes, the worker, the syncs and the
  deletes; claims are exclusive; a move
  there and back leaves no trace; a settle counts once.
\<close>

section \<open>Every reachable state\<close>

definition ex_row :: msg where
  "ex_row = \<lparr>ms_id = ''r'', ms_account = ''a'', ms_folder = ''INBOX'', ms_uid = 7, ms_mid = Some ''<m>'', ms_read = False,
     ms_claimed = False, ms_provider = None, ms_synced = None, ms_read_changed = None, ms_star_changed = None\<rparr>"

definition ex_start :: movedb where
  "ex_start = \<lparr>msgs = [ex_row], moves = [], next_move = 1\<rparr>"

definition ex_moved :: movedb where
  "ex_moved = snd (enqueue_fresh ''a'' [''r''] ''Work'' False None 5 ex_start)"

definition ex_claimed :: movedb where
  "ex_claimed = mark_sent [1] 7 (snd (claim_moves ''a'' (\<lambda>_. False) 6 ex_moved))"

definition ex_following :: movedb where
  "ex_following = snd (follow_pending ''a'' ''r'' ''Archive'' False None 8 ex_claimed)"

lemmas ex_defs = ex_row_def ex_start_def ex_moved_def ex_claimed_def ex_following_def

lemma ex_start_reachable: "mq_reachable ex_start \<lparr>mq_db = ex_start, mq_read = []\<rparr>"
  by (rule mq_reachable.fresh) (simp_all add: ex_start_def ex_row_def)

lemma ex_moved_reachable: "mq_reachable ex_start \<lparr>mq_db = ex_moved, mq_read = []\<rparr>"
  using mq_reachable.further [OF ex_start_reachable mq_step.enqueue [of _ "''a''" "[''r'']" "''Work''" False None 5]]
  by (simp add: ex_moved_def)

text \<open>C2: at every moment of every interleaving of the steps of \<open>mq_step\<close> (every statement of the move queue: enqueues,
  undos, further moves, flag changes, claims, sends, lost answers, crashes, settles, reverts, drops; arriving letters, deletes,
  flag writes, folder renames, each taken as one step; and the letters that rules, snoozes and archives move
  at once, where they find them on no placeholder), a row
  that shows in a folder without a server uid has its move in the table: the move of that row, into
  the folder the row shows in.\<close>

theorem pending_row_has_its_move:
  assumes "mq_reachable start s" and "msg_of (mq_db s) rowId = Some r" and "isPendingUid (ms_uid r)"
  shows "\<exists>op. pending_pair (mq_db s) (ms_account r) rowId = Some (r, op) \<and> placeholderUid (mv_id op) = ms_uid r
    \<and> mv_row op = rowId \<and> mv_account op = ms_account r \<and> mv_dest op = ms_folder r"
proof -
  have inv: "mq_inv (mq_db s)" using reachable_ok [OF assms(1)] by (simp add: mq_ok_def)
  have r: "r \<in> set (msgs (mq_db s))" "ms_id r = rowId" using msg_of_SomeD [OF assms(2)] by simp_all
  obtain op where op: "op \<in> set (moves (mq_db s))" "ms_uid r = placeholderUid (mv_id op)" "mv_row op = ms_id r"
      "mv_account op = ms_account r" "mv_dest op = ms_folder r"
    using mq_invD(8) [OF inv r(1)] assms(3) by (auto simp: isPendingUid_def held_by_move_def)
  then show ?thesis using pending_pairI [OF inv r(1) op(1,2,3)] r(2) by auto
qed

theorem pending_row_has_its_move_witness:
  "\<exists>op. pending_pair ex_moved ''a'' ''r'' = Some (ex_row\<lparr>ms_folder := ''Work'', ms_uid := -1\<rparr>, op)
    \<and> placeholderUid (mv_id op) = -1 \<and> mv_row op = ''r'' \<and> mv_account op = ''a'' \<and> mv_dest op = ''Work''"
  using pending_row_has_its_move [OF ex_moved_reachable, of "''r''" "ex_row\<lparr>ms_folder := ''Work'', ms_uid := -1\<rparr>"]
  by (simp add: ex_defs enqueue_fresh_def movable_def msg_of_def row_by_def place_row_def new_move_def placeholderUid_def isPendingUid_def)

text \<open>C4: at every moment no two rows claim the same place (account, folder, uid), so the unique key
  of the table never rejects a settle, and every move knows where its letter is on the server or waits,
  queued, for the move of the same letter that brings it there; that one does not wait itself.\<close>

theorem places_and_sources:
  assumes "mq_reachable start s"
  shows "distinct (map place (msgs (mq_db s))) \<and> (\<forall>m\<in>set (moves (mq_db s)).
      (\<exists>u>0. mv_src_uid m = Some u \<and> mv_pred m = None)
      \<or> mv_state m = MQueued \<and> (\<exists>q\<in>set (moves (mq_db s)). mv_pred m = Some (mv_id q) \<and> mv_row q = mv_row m
          \<and> mv_dest q = mv_src_folder m \<and> mv_src_uid q \<noteq> None))"
proof (intro conjI ballI)
  have inv: "mq_inv (mq_db s)" using reachable_ok [OF assms] by (simp add: mq_ok_def)
  show "distinct (map place (msgs (mq_db s)))" by (rule mq_invD(3) [OF inv])
  fix m assume m: "m \<in> set (moves (mq_db s))"
  show "(\<exists>u>0. mv_src_uid m = Some u \<and> mv_pred m = None)
      \<or> mv_state m = MQueued \<and> (\<exists>q\<in>set (moves (mq_db s)). mv_pred m = Some (mv_id q) \<and> mv_row q = mv_row m
          \<and> mv_dest q = mv_src_folder m \<and> mv_src_uid q \<noteq> None)"
  proof (cases "mv_src_uid m")
    case None
    then obtain q where q: "q \<in> set (moves (mq_db s))" "mv_pred m = Some (mv_id q)" "mv_row q = mv_row m"
        "mv_dest q = mv_src_folder m" "mv_state m = MQueued"
      using mq_invD(6) [OF inv m] by (auto simp: source_known_def)
    have "mv_pred q = None" by (rule no_third [OF inv m q(2,1)])
    then have "mv_src_uid q \<noteq> None" using mq_invD(6) [OF inv q(1)] by (simp add: source_known_def split: option.splits)
    then show ?thesis using q by blast
  next
    case (Some u)
    then show ?thesis using mq_invD(6) [OF inv m] by (simp add: source_known_def)
  qed
qed

theorem places_and_sources_witness:
  "distinct (map place (msgs ex_moved))
    \<and> (\<exists>u>0. mv_src_uid (hd (moves ex_moved)) = Some u \<and> mv_pred (hd (moves ex_moved)) = None)"
proof -
  have "hd (moves ex_moved) \<in> set (moves ex_moved)" "mv_pred (hd (moves ex_moved)) = None"
    by (simp_all add: ex_defs enqueue_fresh_def movable_def new_move_def Let_def)
  then show ?thesis using places_and_sources [OF ex_moved_reachable] by auto
qed

section \<open>Sent once\<close>

text \<open>The moves of an id stay out of the queue.\<close>

definition stays_out :: "nat \<Rightarrow> movedb \<Rightarrow> bool" where
  "stays_out i db \<longleftrightarrow> (\<forall>m\<in>set (moves db). mv_id m = i \<longrightarrow> mv_state m \<noteq> MQueued)"

lemma stays_update:
  assumes "stays_out i db" and "set ms \<subseteq> set (moves db)" and "moves db' = sql_update p f ms"
    and "\<And>x. x \<in> set ms \<Longrightarrow> p x \<Longrightarrow> mv_id (f x) = mv_id x"
    and "\<And>x. x \<in> set ms \<Longrightarrow> p x \<Longrightarrow> mv_id x = i \<Longrightarrow> mv_state x \<noteq> MQueued \<Longrightarrow> mv_state (f x) \<noteq> MQueued"
  shows "stays_out i db'"
  unfolding stays_out_def
proof (intro ballI impI)
  fix m' assume "m' \<in> set (moves db')" "mv_id m' = i"
  then obtain x where x: "x \<in> set ms" "m' = (if p x then f x else x)" using assms(3) by (auto simp: sql_update_def)
  then have "mv_id x = i" using \<open>mv_id m' = i\<close> assms(4) by (auto split: if_splits)
  then show "mv_state m' \<noteq> MQueued" using x assms(1,2,5) by (auto simp: stays_out_def)
qed

lemma stays_subset: "stays_out i db \<Longrightarrow> set (moves db') \<subseteq> set (moves db) \<Longrightarrow> stays_out i db'"
  by (auto simp: stays_out_def)

lemma stays_new: "stays_out i db \<Longrightarrow> moves db' = moves db @ ops \<Longrightarrow> (\<And>m. m \<in> set ops \<Longrightarrow> mv_id m \<noteq> i) \<Longrightarrow> stays_out i db'"
  by (auto simp: stays_out_def)

lemma set_flag_state [simp]: "mv_state (set_flag fl v m) = mv_state m"
  by (cases fl) simp_all

lemma stays_pending:
  assumes "stays_out i db" and "i < next_move db"
  shows "stays_out i (snd (cancel_pending account rowId dest db))"
    "stays_out i (snd (retarget_pending account rowId dest drop_row by_user t db))"
    "stays_out i (snd (follow_pending account rowId dest drop_row by_user t db))"
    "stays_out i (snd (enqueue_fresh account nums dest drop_row by_user t db))"
proof -
  show "stays_out i (snd (cancel_pending account rowId dest db))"
    using assms(1) unfolding cancel_pending_def
    by (auto simp: stays_out_def in_deleteD elim!: in_updateE split: option.split if_splits)
  show "stays_out i (snd (retarget_pending account rowId dest drop_row by_user t db))"
    using assms(1) unfolding retarget_pending_def
    by (auto simp: stays_out_def Let_def elim!: in_updateE split: option.split if_splits)
  show "stays_out i (snd (follow_pending account rowId dest drop_row by_user t db))"
    using assms unfolding follow_pending_def
    by (auto simp: stays_out_def Let_def following_move_def split: option.split)
  show "stays_out i (snd (enqueue_fresh account nums dest drop_row by_user t db))"
    using assms unfolding enqueue_fresh_def
    by (auto simp: stays_out_def Let_def new_move_def in_set_enumerate_eq)
qed

lemma stays_states:
  assumes "stays_out i db"
  shows "stays_out i (snd (deferFlags rows fl v db))" "stays_out i (snd (claim_moves account lk t db))"
    "stays_out i (mark_sent ids t db)" "stays_out i (markAwaiting k t db)" "stays_out i (lookAgainLater k t db)"
    "stays_out i (retry_move op err True t db)"
  using assms
  unfolding stays_out_def deferFlags_def claim_moves_def mark_sent_def markAwaiting_def lookAgainLater_def retry_move_def
    retry_row_def Let_def snd_conv movedb.simps movedb.update_convs
  by (auto elim!: in_updateE split: if_splits)

lemma stays_sent_back:
  assumes "\<And>m. m \<in> set (moves db) \<Longrightarrow> mv_id m = i \<Longrightarrow> mv_state m \<noteq> MQueued \<and> mv_sent_at m \<noteq> None"
    and "moves db' = sql_update p (sent_back w t) (moves db)"
  shows "stays_out i db'"
  unfolding stays_out_def assms(2)
proof (intro ballI impI)
  fix m assume m: "m \<in> set (sql_update p (sent_back w t) (moves db))" and i: "mv_id m = i"
  obtain y where y: "y \<in> set (moves db)" "m = (if p y then sent_back w t y else y)" by (rule in_updateE [OF m])
  then have "mv_id y = i" using i by (simp add: sent_back_def split: if_splits)
  then have "mv_state y \<noteq> MQueued \<and> mv_sent_at y \<noteq> None" by (rule assms(1) [OF y(1)])
  then show "mv_state m \<noteq> MQueued" using y(2) by (cases "p y") (simp_all add: sent_back_def)
qed

lemma stays_ends:
  assumes "stays_out i db"
  shows "stays_out i (snd (settle op u at t db))" "stays_out i (snd (revert op t db))" "stays_out i (snd (drop_move op db))"
proof -
  show "stays_out i (snd (settle op u at t db))"
  proof (cases "move_of db (mv_id op)")
    case (Some cur)
    then show ?thesis by (intro stays_update [OF assms delete_subset settle_moves(1)]) (simp_all add: take_over_def)
  qed (simp add: settle_def assms)
  show "stays_out i (snd (revert op t db))"
  proof (cases "move_of db (mv_id op)")
    case (Some cur)
    then show ?thesis by (intro stays_update [OF assms delete_subset revert_moves(1)]) simp_all
  qed (simp add: revert_def assms)
  show "stays_out i (snd (drop_move op db))"
    using assms by (auto simp: drop_move_def Let_def stays_out_def in_deleteD split: option.split)
qed

lemma stays_requeue:
  assumes only: "\<And>x. x \<in> set (moves db) \<Longrightarrow> mv_id x = i \<Longrightarrow> mv_state x = MMoving"
  shows "stays_out i (requeue_awaiting op t db)"
  unfolding stays_out_def
proof (intro ballI impI)
  fix x assume x: "x \<in> set (moves (requeue_awaiting op t db))" and i: "mv_id x = i"
  let ?f = "\<lambda>x. x\<lparr>mv_state := MQueued, mv_sent_at := None, mv_updated := t,
        mv_next := t + (if mv_attempts op > 0 then moveRetryDelayMs (mv_attempts op) else 0)\<rparr>"
  have "x \<in> set (sql_update (\<lambda>m. mv_id m = mv_id op \<and> mv_state m = MAwaiting) ?f (moves db))"
    using x unfolding requeue_awaiting_def by simp
  then obtain y where y: "y \<in> set (moves db)" and e: "x = (if mv_id y = mv_id op \<and> mv_state y = MAwaiting then ?f y else y)"
    by (elim in_updateE)
  have "mv_id y = i" using e i by (simp split: if_splits)
  then have "mv_state y = MMoving" by (rule only [OF y])
  then show "mv_state x \<noteq> MQueued" using e by simp
qed

text \<open>The statements that put moves back by whether they were sent.\<close>

lemma stays_sent:
  assumes "\<And>m. m \<in> set (moves db) \<Longrightarrow> mv_id m = i \<Longrightarrow> mv_state m \<noteq> MQueued \<and> mv_sent_at m \<noteq> None"
  shows "stays_out i (resume_moves t db)" "stays_out i (snd (sweep running t db))" "stays_out i (snd (recover nums t db))"
  by (rule stays_sent_back [OF assms]; simp add: resume_moves_def sweep_def recover_def)+

lemma ex_claimed_inv: "mq_inv ex_claimed"
proof -
  have "mq_inv ex_moved" using reachable_ok [OF ex_moved_reachable] by (simp add: mq_ok_def)
  then show ?thesis unfolding ex_claimed_def by (intro state_steps)
qed

lemmas ex_eval = ex_defs enqueue_fresh_def movable_def place_row_def new_move_def claim_moves_def due_moves_def
  mark_sent_def still_moving_def release_moves_def sql_update_def MOVE_CLAIM_LIMIT_def

text \<open>Two claims, of whatever runs, one after the other without a step between them that puts a
  move back, never hand out the same move; a claim hands out at most 500 moves of the mailbox, each
  due and with a known place on the server, and marks them as moving and not yet sent.\<close>

theorem claims_are_exclusive:
  assumes inv: "mq_inv db"
  shows "set (map mv_id (fst (claim_moves account lk t db)))
      \<inter> set (map mv_id (fst (claim_moves account' lk' t' (snd (claim_moves account lk t db))))) = {}
    \<and> length (fst (claim_moves account lk t db)) \<le> MOVE_CLAIM_LIMIT
    \<and> (\<forall>op\<in>set (fst (claim_moves account lk t db)).
      mv_account op = account \<and> mv_next op \<le> t \<and> mv_src_uid op \<noteq> None \<and> mv_state op = MMoving \<and> mv_sent_at op = None)"
proof -
  let ?ids = "due_moves account lk t db"
  let ?p = "\<lambda>m. mv_id m \<in> set ?ids \<and> mv_state m = MQueued"
  let ?f = "\<lambda>m. m\<lparr>mv_state := MMoving, mv_claimed_at := Some t, mv_sent_at := None, mv_updated := t\<rparr>"
  let ?q = "\<lambda>m. mv_account m = account \<and> mv_state m = MQueued \<and> mv_src_uid m \<noteq> None \<and> mv_next m \<le> t \<and> \<not> lk (mv_id m)"
  have fst: "fst (claim_moves account lk t db) = map ?f (filter ?p (moves db))"
    by (simp add: claim_moves_def Let_def sql_returning_def)
  have due: "?q m" if m: "m \<in> set (moves db)" "mv_id m \<in> set ?ids" for m
  proof -
    have "mv_id m \<in> mv_id ` {x \<in> set (moves db). ?q x}"
      using m(2) by (auto simp: due_moves_def dest!: in_set_takeD)
    then obtain x where x: "x \<in> set (moves db)" "mv_id x = mv_id m" "?q x" by auto
    have "x = m" by (rule move_eq [OF mq_invD(2) [OF inv] x(1) m(1) x(2)])
    then show ?thesis using x(3) by simp
  qed
  have c: "mv_account op = account \<and> mv_next op \<le> t \<and> mv_src_uid op \<noteq> None \<and> mv_state op = MMoving \<and> mv_sent_at op = None"
    if "op \<in> set (fst (claim_moves account lk t db))" for op
    using that due by (auto simp: fst)
  have b: "length (fst (claim_moves account lk t db)) \<le> MOVE_CLAIM_LIMIT"
  proof -
    have "length (filter ?p (moves db)) \<le> length ?ids" by (rule length_filter_ids [OF mq_invD(2) [OF inv]]) simp
    also have "\<dots> \<le> MOVE_CLAIM_LIMIT" by (simp add: due_moves_def)
    finally show ?thesis by (simp add: fst)
  qed
  have a: "set (map mv_id (fst (claim_moves account lk t db)))
      \<inter> set (map mv_id (fst (claim_moves account' lk' t' (snd (claim_moves account lk t db))))) = {}"
    using two_claims_disjoint [OF inv, of "(account, lk, t)" "(account', lk', t')"] by (simp add: move_claim_def)
  show ?thesis using a b c by blast
qed

theorem claims_are_exclusive_witness:
  "set (map mv_id (fst (claim_moves ''a'' (\<lambda>_. False) 6 ex_moved)))
      \<inter> set (map mv_id (fst (claim_moves ''a'' (\<lambda>_. False) 7 (snd (claim_moves ''a'' (\<lambda>_. False) 6 ex_moved))))) = {}"
  using claims_are_exclusive [of ex_moved "''a''" "\<lambda>_. False" 6] reachable_ok [OF ex_moved_reachable] by (simp add: mq_ok_def)

section \<open>There and back, once\<close>

lemma filter_one:
  assumes "distinct (map ms_id rs)" and "r \<in> set rs" and "movable account [ms_id r] dest r"
  shows "filter (movable account [ms_id r] dest) rs = [r]"
  using assms
proof (induction rs)
  case (Cons x rs)
  show ?case
  proof (cases "x = r")
    case True
    have "ms_id y \<noteq> ms_id r" if "y \<in> set rs" for y
      using Cons.prems(1) imageI [OF that, of ms_id] True by (metis distinct.simps(2) list.simps(9) list.set_map)
    then have "filter (movable account [ms_id r] dest) rs = []" by (simp add: filter_empty_conv movable_def)
    then show ?thesis using True Cons.prems(3) by simp
  next
    case False
    then have "r \<in> set rs" using Cons.prems(2) by simp
    then have "ms_id x \<noteq> ms_id r" using Cons.prems(1) by force
    then have "\<not> movable account [ms_id r] dest x" by (simp add: movable_def)
    then show ?thesis using Cons \<open>r \<in> set rs\<close> by simp
  qed
qed simp

lemma enqueue_single:
  assumes inv: "mq_inv db" and "r \<in> set (msgs db)" and "movable account [ms_id r] dest r"
  shows "snd (enqueue_fresh account [ms_id r] dest drop_row by_user t db) = enqueue_row dest drop_row by_user t r db"
proof -
  have "snd (enqueue_fresh account [ms_id r] dest drop_row by_user t db) = enqueue_rows dest drop_row by_user t [r] db"
    by (simp add: enqueue_fresh_def filter_one [OF mq_invD(1) [OF inv] assms(2,3)] enqueue_rows_def new_moves_def Let_def)
  also have "\<dots> = enqueue_row dest drop_row by_user t r (enqueue_rows dest drop_row by_user t [] db)"
    using enqueue_rows_snoc [of "[]" r dest drop_row by_user t db] by simp
  finally show ?thesis by (simp add: enqueue_rows_def new_moves_def place_row_def map_idI)
qed

lemma update_back:
  assumes "distinct (map ms_id rs)" and "r \<in> set rs" and "\<And>x. ms_id (f x) = ms_id x" and "g (f r) = r"
  shows "sql_update (\<lambda>x. ms_id x = ms_id r) g (sql_update (\<lambda>x. ms_id x = ms_id r) f rs) = rs"
proof -
  have "g (f x) = x" if "x \<in> set rs" "ms_id x = ms_id r" for x
    using msg_eq [OF assms(1) that(1) assms(2) that(2)] assms(4) by simp
  then show ?thesis using assms(3) by (auto simp: sql_update_def comp_def intro!: map_idI)
qed

text \<open>C16: a letter moved and moved back before its MOVE ran leaves the tables of letters and moves as
  they were, whatever else is in them: no MOVE reaches the server.\<close>

theorem move_there_and_back:
  assumes inv: "mq_inv db" and r: "r \<in> set (msgs db)" and ok: "movable account [ms_id r] dest r"
    and cancel: "cancel_pending account (ms_id r) (ms_folder r)
      (snd (enqueue_fresh account [ms_id r] dest drop_row by_user t db)) = (res, db')"
  shows "msgs db' = msgs db \<and> moves db' = moves db \<and> (\<exists>x. res = Inr (Some x))"
proof -
  note D = mq_invD [OF inv]
  let ?f = "\<lambda>x. x\<lparr>ms_folder := dest, ms_uid := placeholderUid (next_move db)\<rparr>"
  let ?op = "new_move dest drop_row by_user t (next_move db) r" and ?db1 = "enqueue_row dest drop_row by_user t r db"
  have m: "ms_account r = account" "ms_uid r > 0" "ms_folder r \<noteq> dest" using ok by (simp_all add: movable_def)
  have inv1: "mq_inv ?db1" by (rule inv_enqueue_row [OF inv r m(2)])
  have r1: "?f r \<in> set (msgs ?db1)" using in_updateI [OF r, of "\<lambda>x. ms_id x = ms_id r" ?f] by (simp add: enqueue_row_def)
  have pair: "pending_pair ?db1 account (ms_id r) = Some (?f r, ?op)"
    using pending_pairI [OF inv1 r1, of ?op] m(1) by (simp add: enqueue_row_def new_move_def)
  have free: "\<not> list_ex (located_at (ms_account r) (ms_folder r) (ms_uid r)) (msgs ?db1)"
  proof
    assume "list_ex (located_at (ms_account r) (ms_folder r) (ms_uid r)) (msgs ?db1)"
    then obtain y where y: "y \<in> set (msgs db)" and
      at: "located_at (ms_account r) (ms_folder r) (ms_uid r) (if ms_id y = ms_id r then ?f y else y)"
      by (auto simp: list_ex_iff enqueue_row_def elim!: in_updateE)
    show False
    proof (cases "ms_id y = ms_id r")
      case True
      then show ?thesis using at m(3) by (simp add: located_at_def)
    next
      case False
      then have "place y = place r" using at by (simp add: located_at_def place_def)
      then show ?thesis using place_eq [OF D(3) y r] False by simp
    qed
  qed
  have old: "sql_delete (\<lambda>x. mv_id x = next_move db) (moves db) = moves db"
    unfolding sql_delete_def by (rule filter_True) (use D(5) in fastforce)
  have op: "mv_state ?op = MQueued" "mv_src_folder ?op = ms_folder r" "back_uid ?op = ms_uid r" "mv_pred ?op = None" "mv_id ?op = next_move db"
    by (simp_all add: new_move_def back_uid_def)
  have "moves db' = sql_delete (\<lambda>x. mv_id x = next_move db) (moves ?db1)"
    "msgs db' = sql_update (\<lambda>x. ms_id x = ms_id r) (\<lambda>x. x\<lparr>ms_folder := ms_folder r, ms_uid := ms_uid r\<rparr>) (msgs ?db1)"
    "\<exists>x. res = Inr (Some x)"
    using cancel pair free op unfolding enqueue_single [OF inv r ok]
    by (auto simp: cancel_pending_def sql_update_def)
  then show ?thesis
    using update_back [OF D(1) r, of ?f "\<lambda>x. x\<lparr>ms_folder := ms_folder r, ms_uid := ms_uid r\<rparr>"] old op(5)
    by (simp_all add: enqueue_row_def sql_delete_def)
qed

theorem move_there_and_back_witness:
  "msgs (snd (cancel_pending ''a'' ''r'' ''INBOX'' (snd (enqueue_fresh ''a'' [''r''] ''Work'' False None 5 ex_start)))) = msgs ex_start"
proof -
  have "mq_inv ex_start" using reachable_ok [OF ex_start_reachable] by (simp add: mq_ok_def)
  then show ?thesis
    using move_there_and_back [of ex_start ex_row "''a''" "''Work''" False None 5]
    by (simp add: ex_start_def ex_row_def movable_def prod_eq_iff)
qed

text \<open>A move is settled once: a second settle of the same move, from whatever copy of it and
  with whatever answer, finds nothing and changes nothing; so does a revert or a drop after it.\<close>

theorem settled_once:
  assumes inv: "mq_inv db" and "mv_id op' = mv_id op"
  shows "settle op' u' at' t' (snd (settle op u at t db)) = (None, snd (settle op u at t db))
    \<and> revert op' t' (snd (settle op u at t db)) = (None, snd (settle op u at t db))
    \<and> drop_move op' (snd (settle op u at t db)) = (None, snd (settle op u at t db))"
proof -
  have gone: "move_of (snd (settle op u at t db)) (mv_id op) = None"
  proof (cases "move_of db (mv_id op)")
    case None
    then show ?thesis by (simp add: settle_def)
  next
    case (Some cur)
    then have "mv_id cur = mv_id op" using move_of_SomeD by blast
    then show ?thesis
      unfolding move_of_def settle_moves(1) [OF Some]
      by (auto simp: row_by_None_iff in_deleteD take_over_def elim!: in_updateE split: if_splits)
  qed
  then show ?thesis
    using assms(2) by (simp_all add: settle_def revert_def drop_move_def)
qed

theorem settled_once_witness:
  "settle (hd (moves ex_claimed)) 9 None 8 (snd (settle (hd (moves ex_claimed)) 3 None 8 ex_claimed))
    = (None, snd (settle (hd (moves ex_claimed)) 3 None 8 ex_claimed))"
  using settled_once [OF ex_claimed_inv refl] by blast

end
