(* ===== verification/MoveWorker.thy ===== *)
theory MoveWorker
  imports MoveQueue
begin

text \<open>
  The worker and the in-memory part of \<open>backend/src/services/moveQueue.js\<close>: guards,
  expected arrivals and folder holds, the routes' enqueue, one run of a mailbox with its groups, and
  the lookup of moves whose answer was lost. A run is a function of the state and of what the
  mailbox answers (\<open>mailbox\<close>, the methods of the IMAP manager it calls); what other
  requests do between its statements is in the step relation of \<open>MoveSteps\<close>. A failing
  database is not in the functions: the steps of that relation may end a run anywhere.
\<close>

section \<open>State and outside answers\<close>

text \<open>What a run does outside its tables, in order.\<close>

datatype effect =
    SendMove folder folder "int list"
  | StoreFlags folder "int list" flag bool
  | Counts string folder int int
  | FolderUpdated string folder
  | MoveReverted string "string option" folder string "string list"
  | JournalReverted "string option" string
  | SyncFolder folder
  | BackfillIds
  | Kick string

text \<open>A folder being emptied (\<open>hl_empty\<close>), renamed or deleted; with a delimiter, its subtree.\<close>

record hold =
  hl_account :: string
  hl_path :: folder
  hl_prefix :: "folder option"
  hl_empty :: bool

text \<open>
  \<open>w_pending\<close> is the reference-counted set of guarded places of the IMAP manager, an
  occurrence per reference; \<open>w_linger\<close> the source guards whose release is on a timer;
  \<open>w_pushes\<close> its queue of flag stores by row and flag.
\<close>

record mw =
  w_db :: movedb
  w_guards :: "(nat \<times> string \<times> (folder \<times> int) list) list"
  w_pending :: "(string \<times> folder \<times> int) list"
  w_linger :: "(string \<times> folder \<times> int) list"
  w_arrivals :: "(string \<times> folder \<times> string \<times> nat) list"
  w_holds :: "hold list"
  w_pushes :: "((string \<times> flag) \<times> bool) list"
  w_reverted :: "(move \<times> string \<times> string) list"
  w_log :: "effect list"

datatype 'a answer = Answer 'a | Busy | Broken string

record move_outcome =
  oc_succeeded :: "int list"
  oc_failed :: "int list"
  oc_uids :: "int \<Rightarrow> int option"
  oc_retained :: "int list"

text \<open>
  The searches of one run, by the move they are for; \<open>mb_folders\<close> the account's folders with
  their special use, in the order of their paths.
\<close>

record mailbox =
  mb_move :: "folder \<Rightarrow> folder \<Rightarrow> int list \<Rightarrow> move_outcome answer"
  mb_present :: "folder \<Rightarrow> int list \<Rightarrow> int list answer"
  mb_find :: "nat \<Rightarrow> folder list \<Rightarrow> string \<Rightarrow> (folder \<times> int list) list answer"
  mb_store :: "folder \<Rightarrow> int list \<Rightarrow> flag \<Rightarrow> bool \<Rightarrow> bool"
  mb_folders :: "(folder \<times> string) list"

definition logged :: "effect list \<Rightarrow> mw \<Rightarrow> mw" where
  "logged es s = s\<lparr>w_log := w_log s @ es\<rparr>"

section \<open>Guards, expected arrivals, holds\<close>

definition guard_places :: "move \<Rightarrow> (folder \<times> int) list" where
  "guard_places op = (mv_dest op, placeholderUid (mv_id op))
     # (case mv_src_uid op of Some u \<Rightarrow> [(mv_src_folder op, u)] | None \<Rightarrow> [])"

definition release_place :: "bool \<Rightarrow> string \<Rightarrow> folder \<times> int \<Rightarrow> mw \<Rightarrow> mw" where
  "release_place linger account g s =
     (if linger \<and> snd g > 0 then s\<lparr>w_linger := (account, g) # w_linger s\<rparr>
      else s\<lparr>w_pending := remove1 (account, g) (w_pending s)\<rparr>)"

definition unguard :: "nat \<Rightarrow> bool \<Rightarrow> mw \<Rightarrow> mw" where
  "unguard i linger s = (case map_of (w_guards s) i of
     None \<Rightarrow> s
   | Some (account, gs) \<Rightarrow> fold (release_place linger account) gs (s\<lparr>w_guards := filter (\<lambda>e. fst e \<noteq> i) (w_guards s)\<rparr>))"

definition guard :: "move \<Rightarrow> mw \<Rightarrow> mw" where
  "guard op s = (let s1 = unguard (mv_id op) False s
     in s1\<lparr>w_pending := map (\<lambda>g. (mv_account op, g)) (guard_places op) @ w_pending s1,
           w_guards := (mv_id op, mv_account op, guard_places op) # w_guards s1\<rparr>)"

text \<open>The timer of a lingering source guard runs out.\<close>

definition linger_over :: "string \<times> folder \<times> int \<Rightarrow> mw \<Rightarrow> mw" where
  "linger_over g s = (if g \<in> set (w_linger s)
     then s\<lparr>w_linger := remove1 g (w_linger s), w_pending := remove1 g (w_pending s)\<rparr> else s)"

definition header_of :: "move \<Rightarrow> string option" where
  "header_of op = (case mv_mid op of Some m \<Rightarrow> if m = '''' then None else Some m | None \<Rightarrow> None)"

definition expect :: "move \<Rightarrow> mw \<Rightarrow> mw" where
  "expect op s = (case header_of op of None \<Rightarrow> s
     | Some mid \<Rightarrow> s\<lparr>w_arrivals := List.insert (mv_account op, mv_dest op, mid, mv_id op) (w_arrivals s)\<rparr>)"

definition unexpect :: "move \<Rightarrow> mw \<Rightarrow> mw" where
  "unexpect op s = (case header_of op of None \<Rightarrow> s
     | Some mid \<Rightarrow> s\<lparr>w_arrivals := removeAll (mv_account op, mv_dest op, mid, mv_id op) (w_arrivals s)\<rparr>)"

definition expectsArrival :: "string \<Rightarrow> folder \<Rightarrow> string \<Rightarrow> mw \<Rightarrow> bool" where
  "expectsArrival account f mid s \<longleftrightarrow> mid \<noteq> ''''
     \<and> list_ex (\<lambda>(a, d, m, i). a = account \<and> d = f \<and> m = mid) (w_arrivals s)"

definition starts_with :: "string \<Rightarrow> string \<Rightarrow> bool" where
  "starts_with p t \<longleftrightarrow> take (length p) t = p"

definition heldBy :: "string \<Rightarrow> folder \<Rightarrow> mw \<Rightarrow> hold option" where
  "heldBy account f s = find (\<lambda>h. hl_account h = account
     \<and> (f = hl_path h \<or> (case hl_prefix h of Some p \<Rightarrow> starts_with p f | None \<Rightarrow> False))) (w_holds s)"

definition opHeld :: "mw \<Rightarrow> move \<Rightarrow> bool" where
  "opHeld s op \<longleftrightarrow> heldBy (mv_account op) (mv_src_folder op) s \<noteq> None \<or> heldBy (mv_account op) (mv_dest op) s \<noteq> None"

definition holdFolder :: "string \<Rightarrow> folder \<Rightarrow> bool \<Rightarrow> string option \<Rightarrow> mw \<Rightarrow> hold \<times> mw" where
  "holdFolder account path emptying delim s =
     (let h = \<lparr>hl_account = account, hl_path = path, hl_prefix = (case delim of Some d \<Rightarrow> if d = [] then None else Some (path @ d) | None \<Rightarrow> None), hl_empty = emptying\<rparr>
      in (h, s\<lparr>w_holds := w_holds s @ [h]\<rparr>))"

definition releaseHold :: "hold \<Rightarrow> mw \<Rightarrow> mw" where
  "releaseHold h s = (if h \<in> set (w_holds s)
     then logged [Kick (hl_account h)] (s\<lparr>w_holds := remove1 h (w_holds s)\<rparr>) else s)"

text \<open>Guards and expected arrivals of an account are rebuilt from its moves.\<close>

definition reguardAccount :: "string \<Rightarrow> mw \<Rightarrow> mw" where
  "reguardAccount account s =
     (let s1 = fold (\<lambda>e. if fst (snd e) = account then unguard (fst e) False else id) (w_guards s) s;
          s2 = s1\<lparr>w_arrivals := filter (\<lambda>x. fst x \<noteq> account) (w_arrivals s1)\<rparr>
      in fold (\<lambda>op s. if mv_state op \<noteq> MQueued then expect op (guard op s) else guard op s)
           (sort_key mv_id (filter (\<lambda>m. mv_account m = account) (moves (w_db s2)))) s2)"

section \<open>Flag stores\<close>

definition push_flag :: "string \<Rightarrow> flag \<Rightarrow> bool \<Rightarrow> mw \<Rightarrow> mw" where
  "push_flag i fl v s = s\<lparr>w_pushes := ((i, fl), v) # filter (\<lambda>p. fst p \<noteq> (i, fl)) (w_pushes s)\<rparr>"

definition resolve_push :: "string \<Rightarrow> flag \<Rightarrow> mw \<Rightarrow> mw" where
  "resolve_push i fl s = s\<lparr>w_pushes := filter (\<lambda>p. fst p \<noteq> (i, fl)) (w_pushes s)\<rparr>"

definition push_option :: "string \<Rightarrow> flag \<Rightarrow> bool option \<Rightarrow> mw \<Rightarrow> mw" where
  "push_option i fl v s = (case v of Some b \<Rightarrow> push_flag i fl b s | None \<Rightarrow> s)"

definition flag_values :: "(flag \<times> bool) list" where
  "flag_values = [(Seen, True), (Seen, False), (Flagged, True), (Flagged, False)]"

definition absorb_one :: "string list \<Rightarrow> flag \<times> bool \<Rightarrow> mw \<Rightarrow> mw" where
  "absorb_one rowIds fv s = (case fv of (fl, v) \<Rightarrow>
     let ids = filter (\<lambda>i. map_of (w_pushes s) (i, fl) = Some v) rowIds
     in if ids = [] then s
        else case deferFlags (map (\<lambda>i. (i, -1)) ids) fl v (w_db s) of
          ((deferred, _), db) \<Rightarrow> fold (\<lambda>i. resolve_push i fl) deferred (s\<lparr>w_db := db\<rparr>))"

definition absorbFlagPushes :: "string list \<Rightarrow> mw \<Rightarrow> mw" where
  "absorbFlagPushes rowIds s = fold (absorb_one rowIds) flag_values s"

text \<open>A \<open>Map\<close> of arrays: the groups in the order of their first element.\<close>

fun add_to_group :: "'k \<Rightarrow> 'a \<Rightarrow> ('k \<times> 'a list) list \<Rightarrow> ('k \<times> 'a list) list" where
  "add_to_group k x [] = [(k, [x])]"
| "add_to_group k x ((k', xs) # gs) = (if k = k' then (k', xs @ [x]) # gs else (k', xs) # add_to_group k x gs)"

definition group_by :: "('a \<Rightarrow> 'k) \<Rightarrow> 'a list \<Rightarrow> ('k \<times> 'a list) list" where
  "group_by key xs = fold (\<lambda>x. add_to_group (key x) x) xs []"

text \<open>One \<open>setFlags\<close> of letters now in a folder; a failed one goes to the push queue.\<close>

definition store_group :: "mailbox \<Rightarrow> flag \<Rightarrow> bool \<Rightarrow> folder \<times> (settled \<times> msg) list \<Rightarrow> mw \<Rightarrow> mw" where
  "store_group mb fl v g s = (case g of (f, xs) \<Rightarrow>
     let uids = map (\<lambda>x. st_uid (fst x)) xs; s1 = logged [StoreFlags f uids fl v] s
     in if mb_store mb f uids fl v then fold (\<lambda>x. resolve_push (ms_id (snd x)) fl) xs s1
        else fold (\<lambda>x. push_flag (ms_id (snd x)) fl v) xs s1)"

definition with_rows :: "settled list \<Rightarrow> (settled \<times> msg) list" where
  "with_rows xs = List.map_filter (\<lambda>x. map_option (\<lambda>r. (x, r)) (st_row x)) xs"

definition store_value :: "mailbox \<Rightarrow> settled list \<Rightarrow> flag \<times> bool \<Rightarrow> mw \<Rightarrow> mw" where
  "store_value mb xs fv s = (case fv of (fl, v) \<Rightarrow>
     fold (store_group mb fl v)
       (group_by (\<lambda>x. st_folder (fst x)) (filter (\<lambda>x. flag_of fl (st_op (fst x)) = Some v) (with_rows xs))) s)"

definition storeSettledFlags :: "mailbox \<Rightarrow> settled list \<Rightarrow> mw \<Rightarrow> mw" where
  "storeSettledFlags mb xs s = fold (store_value mb xs) flag_values s"

section \<open>A move ends\<close>

definition unread :: "msg \<Rightarrow> int" where
  "unread r = (if ms_read r then 0 else 1)"

text \<open>The counts and the clients follow a letter from the folder it showed in to another.\<close>

definition counts_follow :: "move \<Rightarrow> msg \<Rightarrow> folder \<Rightarrow> effect list" where
  "counts_follow cur r f =
     (if mv_drop_row cur then [] else [Counts (mv_account cur) (mv_dest cur) (-1) (- unread r)])
     @ [Counts (mv_account cur) f 1 (unread r)]"

definition settle_move :: "move \<Rightarrow> int \<Rightarrow> folder option \<Rightarrow> time_ms \<Rightarrow> mw \<Rightarrow> settled option \<times> mw" where
  "settle_move op u at t s = (case settle op u at t (w_db s) of
     (None, db) \<Rightarrow> (None, s\<lparr>w_db := db\<rparr>)
   | (Some x, db) \<Rightarrow>
       let cur = st_op x;
           s1 = unexpect cur (unguard (mv_id cur) True (s\<lparr>w_db := db\<rparr>));
           s2 = (case st_next x of Some m \<Rightarrow> logged [Kick (mv_account m)] (guard m s1) | None \<Rightarrow> s1);
           s3 = (case st_row x of
               Some r \<Rightarrow> if st_folder x = mv_dest cur then s2
                 else logged (counts_follow cur r (st_folder x)
                   @ map (FolderUpdated (mv_account cur)) [mv_dest cur, st_folder x]) s2
             | None \<Rightarrow> s2)
       in (Some x, s3))"

definition revert_move :: "move \<Rightarrow> string \<Rightarrow> time_ms \<Rightarrow> mw \<Rightarrow> settled option \<times> mw" where
  "revert_move op reason t s = (case revert op t (w_db s) of
     (None, db) \<Rightarrow> (None, s\<lparr>w_db := db\<rparr>)
   | (Some x, db) \<Rightarrow>
       let cur = st_op x; s1 = unexpect cur (unguard (mv_id cur) False (s\<lparr>w_db := db\<rparr>))
       in (case st_next x of
             Some m \<Rightarrow> (Some x, logged [Kick (mv_account m)] (guard m s1))
           | None \<Rightarrow> (case st_row x of
               None \<Rightarrow> (Some x, s1)
             | Some r \<Rightarrow> (Some x, logged (counts_follow cur r (mv_src_folder cur) @ [JournalReverted (mv_by cur) reason])
                 (push_option (ms_id r) Flagged (mv_flagged cur) (push_option (ms_id r) Seen (mv_seen cur) s1))))))"

definition revert_into :: "move \<Rightarrow> string \<Rightarrow> time_ms \<Rightarrow> mw \<Rightarrow> mw" where
  "revert_into op reason t s = (case revert_move op reason t s of
     (Some x, s1) \<Rightarrow> (case st_row x of
         Some r \<Rightarrow> s1\<lparr>w_reverted := w_reverted s1 @ [(st_op x, ms_id r, reason)]\<rparr>
       | None \<Rightarrow> s1)
   | (None, s1) \<Rightarrow> s1)"

definition drop_op :: "move \<Rightarrow> mw \<Rightarrow> mw" where
  "drop_op op s = (case drop_move op (w_db s) of
     (None, db) \<Rightarrow> s\<lparr>w_db := db\<rparr>
   | (Some ms, db) \<Rightarrow> fold (\<lambda>m. unguard (mv_id m) False) ms
       (unexpect op (unguard (mv_id op) False (s\<lparr>w_db := db\<rparr>))))"

definition release_ops :: "move list \<Rightarrow> time_ms \<Rightarrow> mw \<Rightarrow> mw" where
  "release_ops ops t s = (if ops = [] then s
     else fold unexpect ops (s\<lparr>w_db := release_moves (map mv_id ops) t (w_db s)\<rparr>))"

definition recover_ops :: "move list \<Rightarrow> time_ms \<Rightarrow> mw \<Rightarrow> mw" where
  "recover_ops ops t s = (case recover (map mv_id ops) t (w_db s) of
     (rows, db) \<Rightarrow> fold unexpect (filter (\<lambda>m. mv_state m = MQueued) rows) (s\<lparr>w_db := db\<rparr>))"

definition retryLater :: "move \<Rightarrow> string \<Rightarrow> bool \<Rightarrow> time_ms \<Rightarrow> mw \<Rightarrow> mw" where
  "retryLater op err unclear t s =
     (if \<not> unclear \<and> Suc (mv_attempts op) \<ge> MOVE_MAX_ATTEMPTS then revert_into op ''gave_up'' t s
      else let s1 = s\<lparr>w_db := retry_move op err unclear t (w_db s)\<rparr>
           in if unclear then s1 else unexpect op s1)"

section \<open>Where a letter went\<close>

definition VIRTUAL_FOLDER_USES :: "string list" where
  "VIRTUAL_FOLDER_USES = [CHR 0x5C # ''All'', CHR 0x5C # ''Flagged'', CHR 0x5C # ''Important'']"

fun maximum :: "int list \<Rightarrow> int" where
  "maximum [] = 0"
| "maximum (x # xs) = fold max xs x"

text \<open>A place a search found, in a folder: a uid no row has, or one whose row came after the move was queued.\<close>

definition pick_in :: "string \<Rightarrow> move \<Rightarrow> movedb \<Rightarrow> folder \<Rightarrow> int list \<Rightarrow> int option" where
  "pick_in account op db f uids =
     (let rows = filter (\<lambda>r. ms_account r = account \<and> ms_folder r = f \<and> ms_uid r \<in> set uids) (msgs db);
          free = filter (\<lambda>u. u \<notin> ms_uid ` set rows) uids;
          newer = filter (\<lambda>r. ms_id r \<noteq> mv_row op \<and> (case ms_synced r of Some t \<Rightarrow> t \<ge> mv_created op | None \<Rightarrow> False)) rows
      in if free \<noteq> [] then Some (maximum free)
         else if newer \<noteq> [] then Some (maximum (map ms_uid newer)) else None)"

fun pickLocated :: "string \<Rightarrow> move \<Rightarrow> (folder \<times> int list) list \<Rightarrow> folder list \<Rightarrow> movedb \<Rightarrow> (folder \<times> int) option" where
  "pickLocated account op found [] db = None"
| "pickLocated account op found (f # fs) db =
     (case map_of (rev found) f of
        Some uids \<Rightarrow> (case (if uids = [] then None else pick_in account op db f uids) of
            Some u \<Rightarrow> Some (f, u) | None \<Rightarrow> pickLocated account op found fs db)
      | None \<Rightarrow> pickLocated account op found fs db)"

definition other_folders :: "mailbox \<Rightarrow> move \<Rightarrow> folder list" where
  "other_folders mb op = map fst (filter (\<lambda>x. fst x \<noteq> mv_src_folder op \<and> fst x \<noteq> mv_dest op
     \<and> snd x \<notin> set VIRTUAL_FOLDER_USES) (mb_folders mb))"

definition locate :: "mailbox \<Rightarrow> string \<Rightarrow> move \<Rightarrow> movedb \<Rightarrow> (folder \<times> int) option answer" where
  "locate mb account op db = (case header_of op of
     None \<Rightarrow> Answer None
   | Some mid \<Rightarrow> (case mb_find mb (mv_id op) [mv_dest op] mid of
       Busy \<Rightarrow> Busy | Broken e \<Rightarrow> Broken e
     | Answer found \<Rightarrow> (case pickLocated account op found [mv_dest op] db of
         Some p \<Rightarrow> Answer (Some p)
       | None \<Rightarrow> if other_folders mb op = [] then Answer None
           else (case mb_find mb (mv_id op) (other_folders mb op) mid of
               Busy \<Rightarrow> Busy | Broken e \<Rightarrow> Broken e
             | Answer found \<Rightarrow> Answer (pickLocated account op found (other_folders mb op) db)))))"

definition goneFromSource :: "mailbox \<Rightarrow> string \<Rightarrow> move \<Rightarrow> time_ms \<Rightarrow> mw \<Rightarrow> settled option answer \<times> mw" where
  "goneFromSource mb account op t s = (case locate mb account op (w_db s) of
     Busy \<Rightarrow> (Busy, s) | Broken e \<Rightarrow> (Broken e, s)
   | Answer (Some (f, u)) \<Rightarrow> (case settle_move op u (Some f) t s of (x, s1) \<Rightarrow> (Answer x, s1))
   | Answer None \<Rightarrow>
       if mv_drop_row op \<or> header_of op = None then (Answer None, logged [SyncFolder (mv_dest op)] (drop_op op s))
       else (Answer None, revert_into op ''gone'' t s))"

section \<open>One group\<close>

definition by_uid :: "move list \<Rightarrow> int \<Rightarrow> move option" where
  "by_uid ops u = find (\<lambda>op. mv_src_uid op = Some u) (rev ops)"

definition source_uids :: "move list \<Rightarrow> int list" where
  "source_uids ops = List.map_filter mv_src_uid ops"

text \<open>A uid the server moved: what was settled, and whether a letter waits for its uid.\<close>

definition moved_one :: "move list \<Rightarrow> move_outcome \<Rightarrow> time_ms \<Rightarrow> int \<Rightarrow> settled list \<times> bool \<times> mw \<Rightarrow> settled list \<times> bool \<times> mw" where
  "moved_one ops oc t u acc = (case acc of (xs, awaiting, s) \<Rightarrow> (case by_uid ops u of
     None \<Rightarrow> acc
   | Some op \<Rightarrow> (case oc_uids oc u of
       Some v \<Rightarrow> if v = 0 then
           (if header_of op = None \<or> u \<in> set (oc_retained oc) then (xs, True, drop_op op s)
            else (xs, True, s\<lparr>w_db := markAwaiting (mv_id op) t (w_db s)\<rparr>))
         else (case settle_move op v None t s of
           (Some x, s1) \<Rightarrow> (if st_row x = None then xs else xs @ [x], awaiting, s1)
         | (None, s1) \<Rightarrow> (xs, awaiting, s1))
     | None \<Rightarrow> if header_of op = None \<or> u \<in> set (oc_retained oc) then (xs, True, drop_op op s)
         else (xs, True, s\<lparr>w_db := markAwaiting (mv_id op) t (w_db s)\<rparr>))))"

text \<open>A uid the server did not move; \<open>present\<close> is what the source check found.\<close>

definition failed_one ::
  "mailbox \<Rightarrow> string \<Rightarrow> move list \<Rightarrow> int list option \<Rightarrow> bool \<Rightarrow> time_ms \<Rightarrow> int \<Rightarrow> settled list \<times> bool \<times> mw
     \<Rightarrow> settled list \<times> bool \<times> mw" where
  "failed_one mb account ops present destKnown t u acc = (case acc of (xs, busy, s) \<Rightarrow> (case by_uid ops u of
     None \<Rightarrow> acc
   | Some op \<Rightarrow>
       if busy then (xs, busy, release_ops [op] t s)
       else (case present of
         None \<Rightarrow> (xs, busy, retryLater op ''source check failed'' True t s)
       | Some there \<Rightarrow>
           if u \<notin> set there then
             (case goneFromSource mb account op t s of
                (Answer (Some x), s1) \<Rightarrow> (if st_row x = None then xs else xs @ [x], busy, s1)
              | (Answer None, s1) \<Rightarrow> (xs, busy, s1)
              | (Busy, s1) \<Rightarrow> (xs, True, release_ops [op] t s1)
              | (Broken e, s1) \<Rightarrow> (xs, busy, retryLater op (''looking for the letter failed: '' @ e) True t s1))
           else if \<not> destKnown then (xs, busy, revert_into op ''destination_gone'' t s)
           else (xs, busy, retryLater op ''the server did not move the letter'' False t s))))"

definition ops_of :: "move list \<Rightarrow> int list \<Rightarrow> move list" where
  "ops_of ops uids = List.map_filter (by_uid ops) uids"

definition any_needs_ids :: "settled list \<Rightarrow> effect list" where
  "any_needs_ids xs = (if list_ex st_needs_ids xs then [BackfillIds] else [])"

text \<open>The end of a group: the flags of what settled are stored, and the syncs it needs are started.\<close>

definition finishGroup :: "mailbox \<Rightarrow> folder \<Rightarrow> folder \<Rightarrow> move_outcome \<Rightarrow> bool \<Rightarrow> settled list \<times> bool \<times> mw \<Rightarrow> bool \<times> mw" where
  "finishGroup mb src dest oc awaiting acc =
     (fst (snd acc), logged (any_needs_ids (fst acc)
        @ (if awaiting then [SyncFolder dest] else [])
        @ (if oc_retained oc \<noteq> [] then [SyncFolder src] else [])) (storeSettledFlags mb (fst acc) (snd (snd acc))))"

text \<open>The result: whether the mailbox gave no session.\<close>

definition runGroup :: "mailbox \<Rightarrow> string \<Rightarrow> time_ms \<Rightarrow> move list \<Rightarrow> mw \<Rightarrow> bool \<times> mw" where
  "runGroup mb account t ops s =
     (let src = mv_src_folder (hd ops); dest = mv_dest (hd ops); uids = source_uids ops;
          s1 = logged [SendMove src dest uids] (s\<lparr>w_db := mark_sent (map mv_id ops) t (w_db s)\<rparr>)
      in case mb_move mb src dest uids of
           Busy \<Rightarrow> (True, release_ops ops t s1)
         | Broken e \<Rightarrow> (False, fold (\<lambda>op. retryLater op e True t) ops s1)
         | Answer oc \<Rightarrow>
             (case fold (moved_one ops oc t) (oc_succeeded oc) ([], False, s1) of (xs, awaiting, s2) \<Rightarrow>
               let rest = (\<lambda>present. fold (failed_one mb account ops present (dest \<in> fst ` set (mb_folders mb)) t)
                      (oc_failed oc) (xs, False, s2))
               in if oc_failed oc = [] then finishGroup mb src dest oc awaiting (xs, False, s2)
                  else (case mb_present mb src (oc_failed oc) of
                      Busy \<Rightarrow> (True, release_ops (ops_of ops (oc_failed oc)) t s2)
                    | Broken _ \<Rightarrow> finishGroup mb src dest oc awaiting (rest None)
                    | Answer there \<Rightarrow> finishGroup mb src dest oc awaiting (rest (Some there)))))"

section \<open>Moves whose answer was lost\<close>

definition since :: "move \<Rightarrow> time_ms" where
  "since op = (case mv_awaiting op of Some t \<Rightarrow> t | None \<Rightarrow> mv_updated op)"

definition lookup_failed :: "move \<Rightarrow> time_ms \<Rightarrow> mw \<Rightarrow> mw" where
  "lookup_failed op t s = (if t - since op > MOVE_AWAITING_UID_MAX_MS then drop_op op s
     else s\<lparr>w_db := lookAgainLater (mv_id op) t (w_db s)\<rparr>)"

text \<open>The moves due for a lookup, one after another; \<open>True\<close>: the mailbox gave no session.\<close>

fun resolve_loop :: "mailbox \<Rightarrow> string \<Rightarrow> time_ms \<Rightarrow> move list \<Rightarrow> settled list \<Rightarrow> mw \<Rightarrow> bool \<times> settled list \<times> mw" where
  "resolve_loop mb account t [] xs s = (False, xs, s)"
| "resolve_loop mb account t (op # ops) xs s =
     (if opHeld s op then resolve_loop mb account t ops xs s
      else let s1 = expect op s
           in case mb_present mb (mv_src_folder op) (source_uids [op]) of
             Busy \<Rightarrow> (True, xs, s1)
           | Broken _ \<Rightarrow> resolve_loop mb account t ops xs (lookup_failed op t s1)
           | Answer there \<Rightarrow>
               if there \<noteq> [] \<and> mv_attempts op \<ge> MOVE_MAX_ATTEMPTS
               then resolve_loop mb account t ops xs (revert_into op ''gave_up'' t s1)
               else if there \<noteq> []
               then resolve_loop mb account t ops xs (unexpect op (s1\<lparr>w_db := requeue_awaiting op t (w_db s1)\<rparr>))
               else (case goneFromSource mb account op t s1 of
                   (Busy, s2) \<Rightarrow> (True, xs, s2)
                 | (Broken _, s2) \<Rightarrow> resolve_loop mb account t ops xs (lookup_failed op t s2)
                 | (Answer (Some x), s2) \<Rightarrow> resolve_loop mb account t ops (if st_row x = None then xs else xs @ [x]) s2
                 | (Answer None, s2) \<Rightarrow> resolve_loop mb account t ops xs s2))"

definition awaiting_due :: "string \<Rightarrow> time_ms \<Rightarrow> movedb \<Rightarrow> move list" where
  "awaiting_due account t db = take MOVE_CLAIM_LIMIT (sort_key mv_id
     (filter (\<lambda>m. mv_account m = account \<and> mv_state m = MAwaiting \<and> mv_next m \<le> t) (moves db)))"

definition resolveAwaiting :: "mailbox \<Rightarrow> string \<Rightarrow> time_ms \<Rightarrow> mw \<Rightarrow> bool \<times> mw" where
  "resolveAwaiting mb account t s =
     (case resolve_loop mb account t (awaiting_due account t (w_db s)) [] s of
        (busy, xs, s1) \<Rightarrow> (busy, logged (any_needs_ids xs) (storeSettledFlags mb xs s1)))"

section \<open>One run of a mailbox\<close>

text \<open>The notices of what went back, per user, source folder and reason, then every touched folder once.\<close>

definition notifyReverted :: "string \<Rightarrow> mw \<Rightarrow> mw" where
  "notifyReverted account s = logged
     (map (\<lambda>(k, xs). case k of (user, f, reason) \<Rightarrow> MoveReverted account user f reason (map (\<lambda>x. fst (snd x)) xs))
        (group_by (\<lambda>(op, i, reason). (mv_by op, mv_src_folder op, reason)) (w_reverted s))
      @ map (FolderUpdated account)
        (map fst (group_by id (concat (map (\<lambda>(op, i, reason). [mv_src_folder op, mv_dest op]) (w_reverted s))))))
     (s\<lparr>w_reverted := []\<rparr>)"

text \<open>The groups of a run: once stopped, or with the gate closed, the remaining ones are given back.\<close>

fun run_groups :: "mailbox \<Rightarrow> string \<Rightarrow> time_ms \<Rightarrow> bool list \<Rightarrow> move list list \<Rightarrow> bool \<Rightarrow> mw \<Rightarrow> mw" where
  "run_groups mb account t gates [] stopped s = s"
| "run_groups mb account t gates (ops # groups) stopped s =
     (let open_gate = (case gates of g # _ \<Rightarrow> g | [] \<Rightarrow> False)
      in if stopped \<or> \<not> open_gate then run_groups mb account t (tl gates) groups True (release_ops ops t s)
         else case runGroup mb account t ops s of (busy, s1) \<Rightarrow> run_groups mb account t (tl gates) groups busy s1)"

text \<open>
  \<open>gates\<close>: whether logins of the mailbox are let through at the start and before each group;
  \<open>lk\<close>: the rows other transactions have locked.
\<close>

definition runClaimed :: "mailbox \<Rightarrow> string \<Rightarrow> bool list \<Rightarrow> time_ms \<Rightarrow> move list \<Rightarrow> mw \<Rightarrow> mw" where
  "runClaimed mb account gates t claimed s =
     (let held = filter (opHeld s) claimed;
          s1 = release_ops held t s;
          ops = sort_key mv_id (filter (\<lambda>op. \<not> opHeld s1 op) claimed);
          s2 = fold expect ops s1
      in run_groups mb account t gates (map snd (group_by (\<lambda>op. (mv_src_folder op, mv_dest op)) ops)) False s2)"

definition runAccountOnce :: "mailbox \<Rightarrow> string \<Rightarrow> bool list \<Rightarrow> (nat \<Rightarrow> bool) \<Rightarrow> time_ms \<Rightarrow> mw \<Rightarrow> mw" where
  "runAccountOnce mb account gates lk t s =
     (if gates = [] \<or> \<not> hd gates then s
      else case resolveAwaiting mb account t s of (busy, s1) \<Rightarrow>
        if busy then notifyReverted account s1
        else case claim_moves account lk t (w_db s1) of (claimed, db) \<Rightarrow>
          notifyReverted account (runClaimed mb account (tl gates) t claimed (s1\<lparr>w_db := db\<rparr>)))"

section \<open>Routes\<close>

record moved =
  md_id :: string
  md_from :: folder
  md_read :: bool

definition moved_row :: "folder \<Rightarrow> msg \<Rightarrow> moved" where
  "moved_row f r = \<lparr>md_id = ms_id r, md_from = f, md_read = ms_read r\<rparr>"

text \<open>\<open>moved.set(id, value)\<close>: a \<open>Map\<close> in the order of the first insertions.\<close>

fun put_moved :: "moved \<Rightarrow> moved list \<Rightarrow> moved list" where
  "put_moved x [] = [x]"
| "put_moved x (y # ys) = (if md_id y = md_id x then x # ys else y # put_moved x ys)"

text \<open>
  A pending row is moved again; \<open>again\<close> is \<open>enqueue\<close> itself, for a row whose move
  settled meanwhile. The results: the thrown error, or what moved, and the move queued or changed.
\<close>

definition enqueuePending ::
  "((string \<times> int \<times> folder) list \<Rightarrow> mw \<Rightarrow> (unit + moved list) \<times> mw) \<Rightarrow> string \<Rightarrow> string \<Rightarrow> folder \<Rightarrow> bool \<Rightarrow> string option
     \<Rightarrow> time_ms \<Rightarrow> mw \<Rightarrow> (unit + moved option \<times> move option) \<times> mw" where
  "enqueuePending again account rowId dest drop_row by_user t s =
     (case cancel_pending account rowId dest (w_db s) of
        (Inl (), db) \<Rightarrow> (Inl (), s)
      | (Inr (Some (r, op)), db) \<Rightarrow>
          let s1 = unguard (mv_id op) False (s\<lparr>w_db := db\<rparr>);
              s2 = (if mv_src_uid op = None then s1
                    else push_option rowId Flagged (mv_flagged op) (push_option rowId Seen (mv_seen op) s1))
          in (Inr (Some (moved_row (ms_folder r) r), None), s2)
      | (Inr None, _) \<Rightarrow> (case retarget_pending account rowId dest drop_row by_user t (w_db s) of
          (Some (r, op), db) \<Rightarrow> (Inr (Some (moved_row (ms_folder r) r), Some op), s\<lparr>w_db := db\<rparr>)
        | (None, _) \<Rightarrow> (case follow_pending account rowId dest drop_row by_user t (w_db s) of
            (Some (r, op), db) \<Rightarrow> (Inr (Some (moved_row (ms_folder r) r), Some op), s\<lparr>w_db := db\<rparr>)
          | (None, _) \<Rightarrow> (case msg_of (w_db s) rowId of
              None \<Rightarrow> (Inr (None, None), s)
            | Some r \<Rightarrow>
                if ms_account r \<noteq> account then (Inr (None, None), s)
                else if ms_folder r = dest then (Inr (Some (moved_row dest r), None), s)
                else if isPendingUid (ms_uid r) \<or> ms_claimed r then (Inr (None, None), s)
                else (case again [(ms_id r, ms_uid r, ms_folder r)] s of
                    (Inl (), s1) \<Rightarrow> (Inl (), s1)
                  | (Inr xs, s1) \<Rightarrow> (Inr (case xs of x # _ \<Rightarrow> Some x | [] \<Rightarrow> None, None), s1))))))"

fun enqueue_rest ::
  "(string \<Rightarrow> mw \<Rightarrow> (unit + moved option \<times> move option) \<times> mw) \<Rightarrow> string list \<Rightarrow> mw
     \<Rightarrow> (unit + moved list \<times> move list) \<times> mw" where
  "enqueue_rest one [] s = (Inr ([], []), s)"
| "enqueue_rest one (i # rest) s = (case one i s of
     (Inl (), s1) \<Rightarrow> (Inl (), s1)
   | (Inr (x, op), s1) \<Rightarrow> (case enqueue_rest one rest s1 of
       (Inl (), s2) \<Rightarrow> (Inl (), s2)
     | (Inr (xs, ops), s2) \<Rightarrow>
         (Inr ((case x of Some x \<Rightarrow> [x] | None \<Rightarrow> []) @ xs, (case op of Some op \<Rightarrow> [op] | None \<Rightarrow> []) @ ops), s2)))"

text \<open>
  \<open>enqueue\<close> of the rows as the route read them (id, uid, folder), with the depth of its
  recursion; \<open>MoveWorkerProperties\<close> shows that two are enough.
\<close>

fun enqueue :: "nat \<Rightarrow> string \<Rightarrow> (string \<times> int \<times> folder) list \<Rightarrow> folder \<Rightarrow> bool \<Rightarrow> string option \<Rightarrow> time_ms \<Rightarrow> mw
     \<Rightarrow> (unit + moved list) \<times> mw" where
  "enqueue 0 account rows dest drop_row by_user t s = (Inr [], s)"
| "enqueue (Suc n) account rows dest drop_row by_user t s =
     (if (case heldBy account dest s of Some h \<Rightarrow> \<not> hl_empty h | None \<Rightarrow> False) then (Inr [], s)
      else let rows = filter (\<lambda>(_, _, f). heldBy account f s = None) rows;
               fresh = map fst (filter (\<lambda>(_, u, _). \<not> isPendingUid u) rows);
               pending = map fst (filter (\<lambda>(_, u, _). isPendingUid u) rows)
           in case (if fresh = [] then ([], w_db s) else enqueue_fresh account fresh dest drop_row by_user t (w_db s)) of
             (created, db) \<Rightarrow>
               let done = map (\<lambda>(op, rd). \<lparr>md_id = mv_row op, md_from = mv_src_folder op, md_read = rd\<rparr>) created;
                   left = filter (\<lambda>i. i \<notin> md_id ` set done) fresh
               in (case enqueue_rest (\<lambda>i. enqueuePending (\<lambda>rs. enqueue n account rs dest drop_row by_user t)
                       account i dest drop_row by_user t) (pending @ left) (s\<lparr>w_db := db\<rparr>) of
                     (Inl (), s1) \<Rightarrow> (Inl (), s1)
                   | (Inr (xs, ops), s1) \<Rightarrow>
                       let all = map fst created @ ops; s2 = fold guard all s1; moved = fold put_moved (done @ xs) []
                       in (Inr moved, if all = [] then s2
                             else logged [Kick account] (absorbFlagPushes (map md_id moved) s2))))"

text \<open>A sync asks before it inserts a letter it found; \<open>True\<close>: the letter is the moved one.\<close>

definition claimArrival :: "mailbox \<Rightarrow> string \<Rightarrow> folder \<Rightarrow> string \<Rightarrow> int \<Rightarrow> time_ms \<Rightarrow> mw \<Rightarrow> bool \<times> mw" where
  "claimArrival mb account f mid u t s =
     (if \<not> expectsArrival account f mid s then (False, s)
      else if list_ex (located_at account f u) (msgs (w_db s)) then (False, s)
      else (case find (\<lambda>m. mv_account m = account \<and> mv_dest m = f \<and> mv_mid m = Some mid \<and> mv_state m \<noteq> MQueued)
               (sort_key mv_id (moves (w_db s))) of
          None \<Rightarrow> (False, s)
        | Some op \<Rightarrow> (case settle_move op u None t s of
            (None, s1) \<Rightarrow> (False, s1)
          | (Some x, s1) \<Rightarrow>
              if st_row x = None \<and> st_next x = None then (False, s1)
              else if st_row x = None then (True, s1)
              else (True, logged (any_needs_ids [x]) (storeSettledFlags mb [x] s1)))))"

text \<open>Where the letter of a row is on the server, for a route that reads it.\<close>

definition serverLocation :: "mailbox option \<Rightarrow> msg \<Rightarrow> movedb \<Rightarrow> (folder \<times> int) option answer" where
  "serverLocation asked row db =
     (if \<not> isPendingUid (ms_uid row) then Answer (Some (ms_folder row, ms_uid row))
      else case (case move_of db (nat (- ms_uid row)) of Some op \<Rightarrow> if mv_row op = ms_id row then Some op else None | None \<Rightarrow> None) of
        None \<Rightarrow> Answer (case msg_of db (ms_id row) of
            Some r \<Rightarrow> if isPendingUid (ms_uid r) then None else Some (ms_folder r, ms_uid r) | None \<Rightarrow> None)
      | Some op \<Rightarrow> (case mv_src_uid op of
          None \<Rightarrow> Answer None
        | Some u \<Rightarrow>
            if mv_state op = MQueued \<or> (mv_state op = MMoving \<and> mv_sent_at op = None) then Answer (Some (mv_src_folder op, u))
            else (case asked of
                None \<Rightarrow> Answer None
              | Some mb \<Rightarrow> (case mb_present mb (mv_src_folder op) [u] of
                  Busy \<Rightarrow> Busy | Broken e \<Rightarrow> Broken e
                | Answer there \<Rightarrow>
                    if there \<noteq> [] then Answer (Some (mv_src_folder op, u))
                    else (case header_of op of
                        None \<Rightarrow> Answer None
                      | Some mid \<Rightarrow> (case mb_find mb (mv_id op) [mv_dest op] mid of
                          Busy \<Rightarrow> Busy | Broken e \<Rightarrow> Broken e
                        | Answer found \<Rightarrow> Answer (case found of
                            (_, us) # _ \<Rightarrow> if us = [] then None else Some (mv_dest op, maximum us)
                          | [] \<Rightarrow> None)))))))"

end
