(* ===== verification/MoveRuns.thy ===== *)
theory MoveRuns
  imports MoveWorker MoveSteps
begin

text \<open>
  What the worker's functions change: most keep the tables or the holds, each ends or puts back the
  move it is for, and none starts a MOVE by itself. The properties are in
  \<open>MoveWorkerProperties\<close>.
\<close>

section \<open>Parts of the state a function leaves alone\<close>

fun is_send :: "effect \<Rightarrow> bool" where
  "is_send (SendMove _ _ _) = True"
| "is_send _ = False"

definition sends :: "mw \<Rightarrow> effect list" where
  "sends s = filter is_send (w_log s)"

text \<open>The database, the holds and the MOVEs sent so far.\<close>

definition same_core :: "mw \<Rightarrow> mw \<Rightarrow> bool" where
  "same_core s s' \<longleftrightarrow> w_db s' = w_db s \<and> w_holds s' = w_holds s \<and> sends s' = sends s"

lemma same_core_refl [simp]: "same_core s s"
  by (simp add: same_core_def)

lemma same_core_trans: "same_core a b \<Longrightarrow> same_core b c \<Longrightarrow> same_core a c"
  by (simp add: same_core_def)

lemma same_core_fold: "(\<And>x s. same_core s (f x s)) \<Longrightarrow> same_core s (fold f xs s)"
proof (induction xs arbitrary: s)
  case (Cons x xs)
  have "same_core (f x s) (fold f xs (f x s))" by (rule Cons.IH) (rule Cons.prems)
  then show ?case using same_core_trans [OF Cons.prems [of s x]] by simp
qed simp

named_theorems core_intros

lemma core_release_place [core_intros]: "same_core s (release_place linger account g s)"
  by (simp add: release_place_def same_core_def sends_def)

lemma core_unguard [core_intros]: "same_core s (unguard i linger s)"
proof (cases "map_of (w_guards s) i")
  case (Some e)
  obtain account gs where e: "e = (account, gs)" by (cases e)
  let ?s = "s\<lparr>w_guards := filter (\<lambda>e. fst e \<noteq> i) (w_guards s)\<rparr>"
  have "same_core ?s (fold (release_place linger account) gs ?s)"
    by (rule same_core_fold) (rule core_release_place)
  then show ?thesis using Some e by (simp add: unguard_def same_core_def sends_def)
qed (simp add: unguard_def)

lemma core_guard [core_intros]: "same_core s (guard op s)"
  using core_unguard [of s "mv_id op" False] by (simp add: guard_def Let_def same_core_def sends_def)

lemma core_expect [core_intros]: "same_core s (expect op s)"
  by (simp add: expect_def same_core_def sends_def split: option.splits)

lemma core_unexpect [core_intros]: "same_core s (unexpect op s)"
  by (simp add: unexpect_def same_core_def sends_def split: option.splits)

lemma core_push_flag [core_intros]: "same_core s (push_flag i fl v s)"
  by (simp add: push_flag_def same_core_def sends_def)

lemma core_resolve_push [core_intros]: "same_core s (resolve_push i fl s)"
  by (simp add: resolve_push_def same_core_def sends_def)

lemma core_push_option [core_intros]: "same_core s (push_option i fl v s)"
  by (simp add: push_option_def core_push_flag split: option.splits)

lemma core_logged: "list_all (\<lambda>e. \<not> is_send e) es \<Longrightarrow> same_core s (logged es s)"
  by (simp add: logged_def same_core_def sends_def filter_empty_conv list_all_iff)

lemma counts_follow_quiet [simp]: "list_all (\<lambda>e. \<not> is_send e) (counts_follow cur r f)"
  by (simp add: counts_follow_def)

lemma core_store_group [core_intros]: "same_core s (store_group mb fl v g s)"
proof (cases g)
  case (Pair f xs)
  let ?uids = "map (\<lambda>x. st_uid (fst x)) xs" and ?s = "logged [StoreFlags f (map (\<lambda>x. st_uid (fst x)) xs) fl v] s"
  have "same_core s ?s" by (rule core_logged) simp
  moreover have "same_core ?s (fold (\<lambda>x. resolve_push (ms_id (snd x)) fl) xs ?s)"
    by (rule same_core_fold) (rule core_resolve_push)
  moreover have "same_core ?s (fold (\<lambda>x. push_flag (ms_id (snd x)) fl v) xs ?s)"
    by (rule same_core_fold) (rule core_push_flag)
  ultimately show ?thesis
    using same_core_trans Pair by (auto simp: store_group_def Let_def)
qed

lemma core_storeSettledFlags [core_intros]: "same_core s (storeSettledFlags mb xs s)"
  unfolding storeSettledFlags_def
proof (rule same_core_fold)
  fix fv s
  show "same_core s (store_value mb xs fv s)"
    by (cases fv) (auto simp: store_value_def intro!: same_core_fold core_store_group)
qed

text \<open>Follows the database: the rest of the state as it was.\<close>

lemma core_db: "same_core (s\<lparr>w_db := db\<rparr>) s' \<Longrightarrow> w_db s' = db \<and> w_holds s' = w_holds s \<and> sends s' = sends s"
  by (simp add: same_core_def sends_def)

definition only_db :: "mw \<Rightarrow> movedb \<Rightarrow> mw \<Rightarrow> bool" where
  "only_db s db s' \<longleftrightarrow> w_db s' = db \<and> w_holds s' = w_holds s \<and> sends s' = sends s"

lemma only_dbI: "same_core (s\<lparr>w_db := db\<rparr>) s' \<Longrightarrow> only_db s db s'"
  by (simp add: only_db_def same_core_def sends_def)

lemma settle_move_db: "only_db s (snd (settle op u at t (w_db s))) (snd (settle_move op u at t s))"
    "fst (settle_move op u at t s) = fst (settle op u at t (w_db s))"
proof -
  obtain x db where x: "settle op u at t (w_db s) = (x, db)" by (rule prod.exhaust)
  show "fst (settle_move op u at t s) = fst (settle op u at t (w_db s))"
    by (simp add: settle_move_def Let_def x split: option.splits)
  show "only_db s (snd (settle op u at t (w_db s))) (snd (settle_move op u at t s))"
  proof (cases x)
    case None
    then show ?thesis by (simp add: settle_move_def x only_db_def sends_def)
  next
    case (Some y)
    let ?s1 = "unexpect (st_op y) (unguard (mv_id (st_op y)) True (s\<lparr>w_db := db\<rparr>))"
    let ?s2 = "case st_next y of Some m \<Rightarrow> logged [Kick (mv_account m)] (guard m ?s1) | None \<Rightarrow> ?s1"
    have 1: "same_core (s\<lparr>w_db := db\<rparr>) ?s1" by (rule same_core_trans [OF core_unguard core_unexpect])
    have "same_core s' (logged [Kick (mv_account m)] (guard m s'))" for s' m
      by (rule same_core_trans [OF core_guard core_logged]) simp
    then have 2: "same_core (s\<lparr>w_db := db\<rparr>) ?s2" using 1 same_core_trans [OF 1] by (cases "st_next y") auto
    have "snd (settle_move op u at t s) = (case st_row y of
        Some r \<Rightarrow> if st_folder y = mv_dest (st_op y) then ?s2
          else logged (counts_follow (st_op y) r (st_folder y)
            @ map (FolderUpdated (mv_account (st_op y))) [mv_dest (st_op y), st_folder y]) ?s2
      | None \<Rightarrow> ?s2)"
      by (simp only: settle_move_def x Some Let_def prod.case option.case snd_conv)
    then have "same_core (s\<lparr>w_db := db\<rparr>) (snd (settle_move op u at t s))"
      using 2 by (cases "st_row y") (simp_all add: same_core_trans [OF 2 core_logged])
    then show ?thesis using only_dbI x by simp
  qed
qed

lemma revert_move_db: "only_db s (snd (revert op t (w_db s))) (snd (revert_move op reason t s))"
proof -
  obtain x db where x: "revert op t (w_db s) = (x, db)" by (rule prod.exhaust)
  show ?thesis
  proof (cases x)
    case None
    then show ?thesis by (simp add: revert_move_def x only_db_def sends_def)
  next
    case (Some y)
    let ?s1 = "unexpect (st_op y) (unguard (mv_id (st_op y)) False (s\<lparr>w_db := db\<rparr>))"
    have 1: "same_core (s\<lparr>w_db := db\<rparr>) ?s1" by (rule same_core_trans [OF core_unguard core_unexpect])
    have 2: "same_core s' (logged [Kick (mv_account m)] (guard m s'))" for s' m
      by (rule same_core_trans [OF core_guard core_logged]) simp
    have 3: "same_core s' (logged (counts_follow cur r f @ [JournalReverted b reason])
        (push_option i Flagged v (push_option i Seen v' s')))" for s' cur r f b i v v'
      by (rule same_core_trans [OF same_core_trans [OF core_push_option core_push_option] core_logged]) simp
    have "snd (revert_move op reason t s) = (case st_next y of
        Some m \<Rightarrow> logged [Kick (mv_account m)] (guard m ?s1)
      | None \<Rightarrow> (case st_row y of None \<Rightarrow> ?s1
        | Some r \<Rightarrow> logged (counts_follow (st_op y) r (mv_src_folder (st_op y)) @ [JournalReverted (mv_by (st_op y)) reason])
            (push_option (ms_id r) Flagged (mv_flagged (st_op y)) (push_option (ms_id r) Seen (mv_seen (st_op y)) ?s1))))"
      by (simp add: revert_move_def x Some Let_def split: option.splits)
    then have "same_core (s\<lparr>w_db := db\<rparr>) (snd (revert_move op reason t s))"
      using 1 same_core_trans [OF 1 2] same_core_trans [OF 1 3] by (cases "st_next y"; cases "st_row y") simp_all
    then show ?thesis using only_dbI x by simp
  qed
qed

lemma revert_into_db: "only_db s (snd (revert op t (w_db s))) (revert_into op reason t s)"
proof -
  obtain x s' where "revert_move op reason t s = (x, s')" by (rule prod.exhaust)
  then show ?thesis
    using revert_move_db [of s op t reason] by (auto simp: revert_into_def only_db_def sends_def split: option.splits)
qed

lemma drop_op_db: "only_db s (snd (drop_move op (w_db s))) (drop_op op s)"
proof -
  obtain x db where x: "drop_move op (w_db s) = (x, db)" by (rule prod.exhaust)
  have "same_core (s\<lparr>w_db := db\<rparr>) (fold (\<lambda>m. unguard (mv_id m) False) ms
      (unexpect op (unguard (mv_id op) False (s\<lparr>w_db := db\<rparr>))))" for ms
    by (rule same_core_trans [OF same_core_trans [OF core_unguard core_unexpect] same_core_fold]) (rule core_unguard)
  then show ?thesis
    using only_dbI x by (auto simp: drop_op_def only_db_def sends_def split: option.splits)
qed

lemma release_ops_db: "only_db s (release_moves (map mv_id ops) t (w_db s)) (release_ops ops t s)"
proof (cases "ops = []")
  case True
  then show ?thesis by (simp add: release_ops_def only_db_def release_moves_def still_moving_def sql_update_def)
next
  case False
  have "same_core s' (fold unexpect ops s')" for s' by (rule same_core_fold) (rule core_unexpect)
  then show ?thesis using False by (intro only_dbI) (simp add: release_ops_def)
qed

lemma retryLater_db:
  "only_db s (if \<not> unclear \<and> Suc (mv_attempts op) \<ge> MOVE_MAX_ATTEMPTS then snd (revert op t (w_db s))
     else retry_move op err unclear t (w_db s)) (retryLater op err unclear t s)"
proof (cases "\<not> unclear \<and> Suc (mv_attempts op) \<ge> MOVE_MAX_ATTEMPTS")
  case True
  then show ?thesis using revert_into_db by (simp add: retryLater_def)
next
  case False
  have "same_core (s\<lparr>w_db := db\<rparr>) (unexpect op (s\<lparr>w_db := db\<rparr>))" for db by (rule core_unexpect)
  then show ?thesis using False by (auto simp: retryLater_def Let_def intro!: only_dbI)
qed

end
