(* ===== verification/MoveEnds.thy ===== *)
theory MoveEnds
  imports MoveRuns
begin

text \<open>
  What the worker's functions end: each step of a run takes the moves it is for out of the state
  \<open>moving\<close> and claims no other, and what a whole group ends is the union of that.
\<close>

section \<open>What is still claimed\<close>

definition moving :: "movedb \<Rightarrow> nat set" where
  "moving db = mv_id ` {m \<in> set (moves db). mv_state m = MMoving}"

lemma moving_update:
  assumes "moves db' = sql_update p f ms" and "set ms \<subseteq> set (moves db)"
    and "\<And>m. m \<in> set ms \<Longrightarrow> mv_id (f m) = mv_id m"
    and "\<And>m. m \<in> set ms \<Longrightarrow> mv_id m \<in> gone \<Longrightarrow> mv_state (if p m then f m else m) \<noteq> MMoving"
    and "\<And>m. m \<in> set ms \<Longrightarrow> p m \<Longrightarrow> mv_state (f m) = MMoving \<Longrightarrow> mv_state m = MMoving"
  shows "moving db' \<subseteq> moving db - gone"
proof
  fix i assume "i \<in> moving db'"
  then obtain m' where m': "m' \<in> set (moves db')" "mv_state m' = MMoving" "i = mv_id m'" by (auto simp: moving_def)
  then obtain m where m: "m \<in> set ms" "m' = (if p m then f m else m)" using assms(1) by (auto simp: sql_update_def)
  have i: "i = mv_id m" using m m'(3) assms(3) by simp
  have "i \<notin> gone" using assms(4) [OF m(1)] m(2) m'(2) i by auto
  moreover have "mv_state m = MMoving" using assms(5) [OF m(1)] m(2) m'(2) by (cases "p m") auto
  ultimately show "i \<in> moving db - gone" using assms(2) m(1) i by (auto simp: moving_def)
qed

lemma moving_none: "move_of db i = None \<Longrightarrow> moving db \<subseteq> moving db - {i}"
  by (auto simp: move_of_def row_by_None_iff moving_def)

lemma moving_ends:
  "moving (snd (settle op u at t db)) \<subseteq> moving db - {mv_id op}"
  "moving (snd (revert op t db)) \<subseteq> moving db - {mv_id op}"
  "moving (snd (drop_move op db)) \<subseteq> moving db - {mv_id op}"
proof -
  note deleted = sql_delete_def
  show "moving (snd (settle op u at t db)) \<subseteq> moving db - {mv_id op}"
  proof (cases "move_of db (mv_id op)")
    case (Some cur)
    then have "mv_id cur = mv_id op" using move_of_SomeD by blast
    then show ?thesis
      by (intro moving_update [OF settle_moves(1) [OF Some] delete_subset]) (auto simp: take_over_def deleted)
  qed (simp add: settle_def moving_none)
  show "moving (snd (revert op t db)) \<subseteq> moving db - {mv_id op}"
  proof (cases "move_of db (mv_id op)")
    case (Some cur)
    then have "mv_id cur = mv_id op" using move_of_SomeD by blast
    then show ?thesis
      by (intro moving_update [OF revert_moves(1) [OF Some] delete_subset]) (auto simp: deleted)
  qed (simp add: revert_def moving_none)
  show "moving (snd (drop_move op db)) \<subseteq> moving db - {mv_id op}"
  proof (cases "move_of db (mv_id op)")
    case (Some cur)
    then show ?thesis by (auto simp: drop_move_def Let_def moving_def deleted)
  qed (simp add: drop_move_def moving_none)
qed

lemma moving_states:
  "moving (release_moves ids t db) \<subseteq> moving db - set ids"
  "moving (retry_move op err unclear t db) \<subseteq> moving db - {mv_id op}"
  "moving (markAwaiting i t db) \<subseteq> moving db - {i}"
  "moving (mark_sent ids t db) \<subseteq> moving db"
proof -
  show "moving (release_moves ids t db) \<subseteq> moving db - set ids"
    by (rule moving_update [where ms = "moves db" and p = "still_moving ids" and f = "\<lambda>m. m\<lparr>mv_state := MQueued, mv_updated := t\<rparr>"])
      (simp_all add: release_moves_def still_moving_def)
  show "moving (retry_move op err unclear t db) \<subseteq> moving db - {mv_id op}"
    by (rule moving_update [where ms = "moves db" and p = "still_moving [mv_id op]"
        and f = "retry_row (Suc (mv_attempts op)) err unclear t"])
      (simp_all add: retry_move_def still_moving_def retry_row_def)
  show "moving (markAwaiting i t db) \<subseteq> moving db - {i}"
    by (rule moving_update [where ms = "moves db" and p = "still_moving [i]" and f = "\<lambda>m. m\<lparr>mv_state := MAwaiting,
        mv_awaiting := Some t, mv_next := t + MOVE_AWAITING_RETRY_MS, mv_updated := t\<rparr>"])
      (simp_all add: markAwaiting_def still_moving_def)
  have "moving (mark_sent ids t db) \<subseteq> moving db - {}"
    by (rule moving_update [where ms = "moves db" and p = "still_moving ids" and f = "\<lambda>m. m\<lparr>mv_claimed_at := Some t, mv_sent_at := Some t\<rparr>"])
      (simp_all add: mark_sent_def still_moving_def)
  then show "moving (mark_sent ids t db) \<subseteq> moving db" by simp
qed

text \<open>The same of the state: what a function ends, and nothing starts.\<close>

definition ends :: "mw \<Rightarrow> nat set \<Rightarrow> mw \<Rightarrow> bool" where
  "ends s gone s' \<longleftrightarrow> moving (w_db s') \<subseteq> moving (w_db s) - gone \<and> w_holds s' = w_holds s \<and> sends s' = sends s"

lemma ends_refl: "ends s {} s"
  by (simp add: ends_def)

lemma ends_trans: "ends a gone b \<Longrightarrow> ends b js c \<Longrightarrow> ends a (gone \<union> js) c"
  by (auto simp: ends_def)

lemma ends_less: "ends s gone s' \<Longrightarrow> js \<subseteq> gone \<Longrightarrow> ends s js s'"
  by (auto simp: ends_def)

lemma ends_core: "ends a gone b \<Longrightarrow> same_core b c \<Longrightarrow> ends a gone c"
  by (simp add: ends_def same_core_def)

lemma only_db_ends: "only_db s db s' \<Longrightarrow> moving db \<subseteq> moving (w_db s) - gone \<Longrightarrow> ends s gone s'"
  by (simp add: only_db_def ends_def)

lemma fold_ends:
  assumes "\<And>x s. x \<in> set xs \<Longrightarrow> ends s {g x} (f x s)"
  shows "ends s (g ` set xs) (fold f xs s)"
  using assms
proof (induction xs arbitrary: s)
  case (Cons x xs)
  have "ends (f x s) (g ` set xs) (fold f xs (f x s))" by (rule Cons.IH) (rule Cons.prems, simp)
  then show ?case using ends_trans [OF Cons.prems [of x s]] by simp
qed (simp add: ends_refl)

lemma op_ends:
  "ends s {mv_id op} (snd (settle_move op u at t s))"
  "ends s {mv_id op} (revert_into op reason t s)"
  "ends s {mv_id op} (drop_op op s)"
  "ends s (mv_id ` set ops) (release_ops ops t s)"
  "ends s {mv_id op} (retryLater op err unclear t s)"
proof -
  show "ends s {mv_id op} (snd (settle_move op u at t s))" by (rule only_db_ends [OF settle_move_db(1) moving_ends(1)])
  show "ends s {mv_id op} (revert_into op reason t s)" by (rule only_db_ends [OF revert_into_db moving_ends(2)])
  show "ends s {mv_id op} (drop_op op s)" by (rule only_db_ends [OF drop_op_db moving_ends(3)])
  show "ends s (mv_id ` set ops) (release_ops ops t s)"
    using only_db_ends [OF release_ops_db moving_states(1)] by simp
  show "ends s {mv_id op} (retryLater op err unclear t s)"
    by (rule only_db_ends [OF retryLater_db]) (simp add: moving_ends(2) moving_states(2))
qed

lemma mark_ends: "ends s {i} (s\<lparr>w_db := markAwaiting i t (w_db s)\<rparr>)"
  using moving_states(3) by (simp add: ends_def sends_def)

lemma gone_ends:
  "(\<exists>x. fst (goneFromSource mb account op t s) = Answer x) \<and> ends s {mv_id op} (snd (goneFromSource mb account op t s))
   \<or> (\<nexists>x. fst (goneFromSource mb account op t s) = Answer x) \<and> snd (goneFromSource mb account op t s) = s"
proof (cases "locate mb account op (w_db s)")
  case (Answer p)
  show ?thesis
  proof (cases p)
    case (Some fu)
    obtain x s1 where x: "settle_move op (snd fu) (Some (fst fu)) t s = (x, s1)" by (rule prod.exhaust)
    then have "ends s {mv_id op} s1" using op_ends(1) [of s op "snd fu" "Some (fst fu)" t] by simp
    then show ?thesis using Answer Some x by (cases fu) (simp add: goneFromSource_def)
  next
    case None
    have "same_core s' (logged [SyncFolder f] s')" for f s' by (rule core_logged) simp
    then have "ends s {mv_id op} (logged [SyncFolder f] (drop_op op s))" for f
      using ends_core [OF op_ends(3)] by blast
    then show ?thesis using Answer None op_ends(2) by (simp add: goneFromSource_def)
  qed
qed (simp_all add: goneFromSource_def)

section \<open>A group leaves nothing claimed\<close>

lemma fold_ends_in:
  assumes "\<And>x a. ends (p a) (g x) (p (f x a))"
  shows "ends (p a) (\<Union>x\<in>set xs. g x) (p (fold f xs a))"
proof (induction xs arbitrary: a)
  case (Cons x xs)
  show ?case using ends_trans [OF assms [of a x] Cons [of "f x a"]] by simp
qed (simp add: ends_refl)

definition touched :: "move list \<Rightarrow> int \<Rightarrow> nat set" where
  "touched ops u = (case by_uid ops u of Some op \<Rightarrow> {mv_id op} | None \<Rightarrow> {})"

lemma moved_one_ends: "ends (snd (snd a)) (touched ops u) (snd (snd (moved_one ops oc t u a)))"
proof -
  obtain xs w s where a: "a = (xs, w, s)" by (rule prod_cases3)
  show ?thesis
  proof (cases "by_uid ops u")
    case None
    then show ?thesis by (simp add: a moved_one_def touched_def ends_refl)
  next
    case (Some op)
    have settled: "ends s {mv_id op} s1" if "settle_move op v None t s = (x, s1)" for v x s1
      using op_ends(1) [of s op v None t] that by simp
    show ?thesis
      using Some settled op_ends(3) mark_ends
      by (auto simp: a moved_one_def touched_def split: option.splits prod.splits)
  qed
qed

lemma failed_one_ends: "ends (snd (snd a)) (touched ops u) (snd (snd (failed_one mb account ops present dk t u a)))"
proof -
  obtain xs w s where a: "a = (xs, w, s)" by (rule prod_cases3)
  show ?thesis
  proof (cases "by_uid ops u")
    case None
    then show ?thesis by (simp add: a failed_one_def touched_def ends_refl)
  next
    case op: (Some op)
    have rel: "ends s' {mv_id op} (release_ops [op] t s')" for s' using op_ends(4) [of s' "[op]"] by simp
    have ret: "ends s' {mv_id op} (retryLater op err b t s')" for s' err b by (rule op_ends(5))
    have rev: "ends s' {mv_id op} (revert_into op r t s')" for s' r by (rule op_ends(2))
    obtain g s1 where g: "goneFromSource mb account op t s = (g, s1)" by (rule prod.exhaust)
    have gone: "ends s {mv_id op} s1" if "g = Answer x" for x
      using gone_ends [of mb account op t s] g that by auto
    have stays: "s1 = s" if "g = Busy \<or> g = Broken e" for e
      using gone_ends [of mb account op t s] g that by auto
    show ?thesis
    proof (cases g)
      case (Answer x)
      then show ?thesis
        using op rel ret rev gone [OF Answer]
        by (cases x) (auto simp: a g failed_one_def touched_def split: option.splits)
    next
      case Busy
      then show ?thesis
        using op rel ret rev stays by (auto simp: a g failed_one_def touched_def split: option.splits)
    next
      case (Broken e)
      then show ?thesis
        using op rel ret rev stays by (auto simp: a g failed_one_def touched_def split: option.splits)
    qed
  qed
qed

lemma touched_own:
  assumes "distinct (source_uids ops)" and "op \<in> set ops" and "mv_src_uid op = Some u"
  shows "mv_id op \<in> touched ops u"
proof -
  have "by_uid ops u = Some op"
    using assms
  proof (induction ops rule: rev_induct)
    case (snoc x ops)
    show ?case
    proof (cases "x = op")
      case True
      then show ?thesis using snoc.prems(3) by (simp add: by_uid_def)
    next
      case False
      then have op: "op \<in> set ops" using snoc.prems(2) by simp
      then have "u \<in> set (source_uids ops)" using snoc.prems(3) by (force simp: source_uids_def List.map_filter_def)
      moreover have "source_uids (ops @ [x]) = source_uids ops @ [u]" if "mv_src_uid x = Some u"
        using that by (simp add: source_uids_def List.map_filter_def)
      ultimately have "mv_src_uid x \<noteq> Some u" using snoc.prems(1) by auto
      moreover have "distinct (source_uids ops)" using snoc.prems(1) by (simp add: source_uids_def List.map_filter_def)
      ultimately show ?thesis using snoc.IH [OF _ op snoc.prems(3)] by (simp add: by_uid_def)
    qed
  qed simp
  then show ?thesis by (simp add: touched_def)
qed

lemma ops_of_touched: "mv_id ` set (ops_of ops us) = (\<Union>u\<in>set us. touched ops u)"
  by (induction us) (auto simp: ops_of_def List.map_filter_def touched_def split: option.splits)

text \<open>The sent MOVE, with the state right after it.\<close>

definition sent_state :: "move list \<Rightarrow> time_ms \<Rightarrow> mw \<Rightarrow> mw" where
  "sent_state ops t s = logged [SendMove (mv_src_folder (hd ops)) (mv_dest (hd ops)) (source_uids ops)]
     (s\<lparr>w_db := mark_sent (map mv_id ops) t (w_db s)\<rparr>)"

lemma logged_quiet_ends: "ends a gone b \<Longrightarrow> list_all (\<lambda>e. \<not> is_send e) es \<Longrightarrow> ends a gone (logged es b)"
  using ends_core core_logged by blast

text \<open>The server says of every uid it was asked to move whether it moved.\<close>

definition all_reported :: "mailbox \<Rightarrow> move list \<Rightarrow> bool" where
  "all_reported mb ops \<longleftrightarrow> distinct (source_uids ops) \<and> (\<forall>op\<in>set ops. mv_src_uid op \<noteq> None)
     \<and> (case mb_move mb (mv_src_folder (hd ops)) (mv_dest (hd ops)) (source_uids ops) of
          Answer oc \<Rightarrow> set (source_uids ops) \<subseteq> set (oc_succeeded oc) \<union> set (oc_failed oc)
        | _ \<Rightarrow> True)"

lemma reported_touched:
  assumes "all_reported mb ops"
    and "mb_move mb (mv_src_folder (hd ops)) (mv_dest (hd ops)) (source_uids ops) = Answer oc"
  shows "mv_id ` set ops \<subseteq> (\<Union>u\<in>set (oc_succeeded oc). touched ops u) \<union> (\<Union>u\<in>set (oc_failed oc). touched ops u)"
proof
  note A = assms(1) [unfolded all_reported_def assms(2) answer.case]
  fix i assume "i \<in> mv_id ` set ops"
  then obtain op where op: "op \<in> set ops" "i = mv_id op" by blast
  then obtain u where u: "mv_src_uid op = Some u" using A by blast
  then have "u \<in> set (source_uids ops)" using op(1) by (force simp: source_uids_def List.map_filter_def)
  then show "i \<in> (\<Union>u\<in>set (oc_succeeded oc). touched ops u) \<union> (\<Union>u\<in>set (oc_failed oc). touched ops u)"
    using A touched_own [OF _ op(1) u] op(2) by blast
qed

text \<open>A group ends what it touched, every move of it when all are reported.\<close>

lemma runGroup_ends:
  "\<exists>gone. ends (sent_state ops t s) gone (snd (runGroup mb account t ops s)) \<and> (all_reported mb ops \<longrightarrow> mv_id ` set ops \<subseteq> gone)"
proof -
  let ?src = "mv_src_folder (hd ops)" and ?dest = "mv_dest (hd ops)" and ?s1 = "sent_state ops t s"
  show ?thesis
  proof (cases "mb_move mb ?src ?dest (source_uids ops)")
    case Busy
    then show ?thesis using op_ends(4) by (auto simp: runGroup_def Let_def sent_state_def)
  next
    case (Broken e)
    have "ends ?s1 (mv_id ` set ops) (fold (\<lambda>op. retryLater op e True t) ops ?s1)"
      by (rule fold_ends) (rule op_ends(5))
    then show ?thesis using Broken by (auto simp: runGroup_def Let_def sent_state_def)
  next
    case (Answer oc)
    let ?ok = "\<Union>u\<in>set (oc_succeeded oc). touched ops u" and ?no = "\<Union>u\<in>set (oc_failed oc). touched ops u"
    obtain xs w s2 where m: "fold (moved_one ops oc t) (oc_succeeded oc) ([], False, ?s1) = (xs, w, s2)" by (rule prod_cases3)
    have moved: "ends ?s1 ?ok s2"
      using fold_ends_in [of "\<lambda>a. snd (snd a)" "touched ops" "moved_one ops oc t", OF moved_one_ends] m by (metis snd_conv)
    have finish: "ends ?s1 (?ok \<union> ?no) (snd (finishGroup mb ?src ?dest oc w a))" if "ends s2 ?no (snd (snd a))" for a
      using ends_trans [OF moved that] unfolding finishGroup_def snd_conv
      by (intro logged_quiet_ends ends_core [OF _ core_storeSettledFlags]) (simp_all add: any_needs_ids_def)
    have failed: "ends s2 ?no (snd (snd (fold (failed_one mb account ops present dk t) (oc_failed oc) (xs, False, s2))))" for present dk
      using fold_ends_in [of "\<lambda>a. snd (snd a)" "touched ops" "failed_one mb account ops present dk t", OF failed_one_ends]
      by (metis snd_conv)
    have busy: "ends ?s1 (?ok \<union> ?no) (release_ops (ops_of ops (oc_failed oc)) t s2)"
      using ends_trans [OF moved op_ends(4)] ops_of_touched [of ops "oc_failed oc"] by metis
    have "ends ?s1 (?ok \<union> ?no) (snd (runGroup mb account t ops s))"
    proof (cases "oc_failed oc = []")
      case True
      have "ends ?s1 (?ok \<union> ?no) (snd (finishGroup mb ?src ?dest oc w (xs, False, s2)))"
        by (rule finish) (use True in \<open>simp add: ends_refl\<close>)
      then show ?thesis using Answer m True by (simp add: runGroup_def Let_def sent_state_def)
    next
      case False
      then show ?thesis
        using Answer m finish [OF failed] busy
        by (cases "mb_present mb ?src (oc_failed oc)") (simp_all add: runGroup_def Let_def sent_state_def)
    qed
    then show ?thesis using reported_touched [OF _ Answer] by blast
  qed
qed

text \<open>What a group of \<open>group_by\<close> holds.\<close>

lemma add_to_group_in: "(k, ys) \<in> set (add_to_group k0 x gs) \<Longrightarrow> (k, ys) \<in> set gs \<or> (k = k0 \<and> (ys = [x] \<or> (\<exists>zs. (k, zs) \<in> set gs \<and> ys = zs @ [x])))"
  by (induction k0 x gs rule: add_to_group.induct) (auto split: if_splits)

lemma group_by_in:
  assumes "(k, ys) \<in> set (group_by key xs)"
  shows "ys \<noteq> [] \<and> set ys \<subseteq> set xs \<and> (\<forall>y\<in>set ys. key y = k)"
proof -
  have "ys \<noteq> [] \<and> set ys \<subseteq> set xs \<and> (\<forall>y\<in>set ys. key y = k)"
    if "(k, ys) \<in> set (fold (\<lambda>x. add_to_group (key x) x) xs [])" for k ys
    using that
  proof (induction xs arbitrary: k ys rule: rev_induct)
    case (snoc x xs)
    then have "(k, ys) \<in> set (fold (\<lambda>x. add_to_group (key x) x) xs []) \<or> (k = key x \<and> (ys = [x] \<or>
        (\<exists>zs. (k, zs) \<in> set (fold (\<lambda>x. add_to_group (key x) x) xs []) \<and> ys = zs @ [x])))"
      using add_to_group_in by fastforce
    then show ?case using snoc.IH by fastforce
  qed simp
  then show ?thesis using assms by (simp add: group_by_def)
qed

text \<open>One group of a run is run or given back.\<close>

lemma run_groups_Cons:
  assumes "runGroup mb account t ops s = (b, s1)"
  shows "run_groups mb account t gates (ops # groups) stopped s = run_groups mb account t (tl gates) groups b s1
    \<or> run_groups mb account t gates (ops # groups) stopped s = run_groups mb account t (tl gates) groups True (release_ops ops t s)"
  by (cases gates) (simp_all add: assms)

lemma add_to_group_keys: "fst ` set (add_to_group k x gs) = insert k (fst ` set gs)"
  by (induction k x gs rule: add_to_group.induct) auto

lemma add_to_group_distinct: "distinct (map fst gs) \<Longrightarrow> distinct (map fst (add_to_group k x gs))"
proof (induction k x gs rule: add_to_group.induct)
  case (2 k x k' xs gs)
  then show ?case using add_to_group_keys [of k x gs] by (auto simp flip: set_map)
qed simp

lemma group_by_distinct: "distinct (map fst (group_by key xs))"
proof -
  have "distinct (map fst gs) \<Longrightarrow> distinct (map fst (fold (\<lambda>x. add_to_group (key x) x) xs gs))" for gs
    by (induction xs arbitrary: gs) (simp_all add: add_to_group_distinct)
  then show ?thesis by (simp add: group_by_def)
qed

lemma add_to_group_new: "\<exists>ys. (k, ys) \<in> set (add_to_group k x gs) \<and> x \<in> set ys"
  by (induction k x gs rule: add_to_group.induct) auto

lemma add_to_group_old: "(k', ys) \<in> set gs \<Longrightarrow> y \<in> set ys \<Longrightarrow> \<exists>zs. (k', zs) \<in> set (add_to_group k x gs) \<and> y \<in> set zs"
  by (induction k x gs rule: add_to_group.induct) (auto; blast)+

lemma group_by_has:
  assumes "x \<in> set xs"
  shows "\<exists>ys. (key x, ys) \<in> set (group_by key xs) \<and> x \<in> set ys"
proof -
  have "\<exists>ys. (key x, ys) \<in> set (fold (\<lambda>x. add_to_group (key x) x) xs []) \<and> x \<in> set ys" if "x \<in> set xs" for xs
    using that
  proof (induction xs rule: rev_induct)
    case (snoc z xs)
    show ?case
    proof (cases "x = z")
      case True
      then show ?thesis using add_to_group_new [of "key z" z] by simp
    next
      case False
      then show ?thesis using snoc add_to_group_old by fastforce
    qed
  qed simp
  then show ?thesis using assms by (simp add: group_by_def)
qed

end
