(* ===== verification/MoveRefinement.thy ===== *)
theory MoveRefinement
  imports MoveEnds
begin

text \<open>
  The worker's functions refine the step relation of \<open>MoveSteps\<close>: whatever the mailbox
  answers, what a group, a lookup, a run, an arrival or a route does to the tables is a sequence of
  steps of that relation, each taken from copies of moves it has read.
\<close>

section \<open>Sequences of steps\<close>

definition runs_as :: "move list \<Rightarrow> movedb \<Rightarrow> movedb \<Rightarrow> bool" where
  "runs_as ops db db' \<longleftrightarrow> (\<forall>R. set ops \<subseteq> set R \<longrightarrow>
     mq_step\<^sup>*\<^sup>* \<lparr>mq_db = db, mq_read = R\<rparr> \<lparr>mq_db = db', mq_read = R\<rparr>)"

definition goes :: "move list \<Rightarrow> mw \<Rightarrow> mw \<Rightarrow> bool" where
  "goes ops s s' \<longleftrightarrow> runs_as ops (w_db s) (w_db s') \<and> w_holds s' = w_holds s"

lemma runs_as_refl [simp]: "runs_as ops db db"
  by (simp add: runs_as_def)

lemma runs_as_trans: "runs_as ops a b \<Longrightarrow> runs_as ops b c \<Longrightarrow> runs_as ops a c"
  unfolding runs_as_def by (meson rtranclp_trans)

lemma runs_as_step:
  assumes "\<And>R. set ops \<subseteq> set R \<Longrightarrow> mq_step \<lparr>mq_db = db, mq_read = R\<rparr> \<lparr>mq_db = db', mq_read = R\<rparr>"
  shows "runs_as ops db db'"
  unfolding runs_as_def using assms by blast

lemma goes_refl [simp]: "goes ops s s"
  by (simp add: goes_def)

lemma goes_trans: "goes ops a b \<Longrightarrow> goes ops b c \<Longrightarrow> goes ops a c"
  using runs_as_trans by (auto simp: goes_def)

lemma goes_core: "same_core a b \<Longrightarrow> goes ops a b"
  by (simp add: goes_def same_core_def)

lemma goes_db: "only_db s db s' \<Longrightarrow> runs_as ops (w_db s) db \<Longrightarrow> goes ops s s'"
  by (simp add: goes_def only_db_def)

lemma goes_fold:
  assumes "\<And>x a. x \<in> set xs \<Longrightarrow> goes ops (p a) (p (f x a))"
  shows "goes ops (p a) (p (fold f xs a))"
  using assms
proof (induction xs arbitrary: a)
  case (Cons x xs)
  have "goes ops (p (f x a)) (p (fold f xs (f x a)))" by (rule Cons.IH) (rule Cons.prems, simp)
  then show ?case using goes_trans [OF Cons.prems [of x a]] by simp
qed simp

section \<open>The statements\<close>

lemma runs_states:
  "runs_as ops db (mark_sent nums t db)"
  "runs_as ops db (release_moves nums t db)"
  "runs_as ops db (markAwaiting i t db)"
  "runs_as ops db (lookAgainLater i t db)"
  "runs_as ops db (requeue_awaiting op t db)"
  "runs_as ops db (retry_move op err unclear t db)"
  "runs_as ops db (snd (recover nums t db))"
  "runs_as ops db (snd (deferFlags rows fl v db))"
proof -
  let ?s = "\<lambda>R. \<lparr>mq_db = db, mq_read = R\<rparr>"
  show "runs_as ops db (mark_sent nums t db)" by (rule runs_as_step) (use mq_step.sent [of "?s R" nums t for R] in simp)
  show "runs_as ops db (release_moves nums t db)" by (rule runs_as_step) (use mq_step.release [of "?s R" nums t for R] in simp)
  show "runs_as ops db (markAwaiting i t db)" by (rule runs_as_step) (use mq_step.awaiting [of "?s R" i t for R] in simp)
  show "runs_as ops db (lookAgainLater i t db)" by (rule runs_as_step) (use mq_step.look_later [of "?s R" i t for R] in simp)
  show "runs_as ops db (requeue_awaiting op t db)" by (rule runs_as_step) (use mq_step.requeue [of "?s R" op t for R] in simp)
  show "runs_as ops db (retry_move op err unclear t db)" by (rule runs_as_step) (use mq_step.retry [of "?s R" op err unclear t for R] in simp)
  show "runs_as ops db (snd (recover nums t db))" by (rule runs_as_step) (use mq_step.recovered [of "?s R" nums t for R] in simp)
  show "runs_as ops db (snd (deferFlags rows fl v db))" by (rule runs_as_step) (use mq_step.defer_flags [of "?s R" rows fl v for R] in simp)
qed

lemma runs_ends:
  assumes "op \<in> set ops"
  shows "u > 0 \<Longrightarrow> runs_as ops db (snd (settle op u at t db))"
    and "runs_as ops db (snd (revert op t db))"
    and "runs_as ops db (snd (drop_move op db))"
proof -
  let ?s = "\<lambda>R. \<lparr>mq_db = db, mq_read = R\<rparr>"
  have op: "op \<in> set (mq_read (?s R))" if "set ops \<subseteq> set R" for R using assms that by auto
  show "runs_as ops db (snd (settle op u at t db))" if "u > 0"
    by (rule runs_as_step) (use mq_step.settled [OF op that, of _ at t] in simp)
  show "runs_as ops db (snd (revert op t db))" by (rule runs_as_step) (use mq_step.reverted [OF op, of _ t] in simp)
  show "runs_as ops db (snd (drop_move op db))" by (rule runs_as_step) (use mq_step.dropped [OF op] in simp)
qed

lemma op_goes:
  assumes "op \<in> set ops"
  shows "u > 0 \<Longrightarrow> goes ops s (snd (settle_move op u at t s))"
    and "goes ops s (revert_into op reason t s)"
    and "goes ops s (drop_op op s)"
    and "goes ops s (release_ops os t s)"
    and "goes ops s (retryLater op err unclear t s)"
    and "goes ops s (lookup_failed op t s)"
proof -
  note R = runs_ends [OF assms]
  show "u > 0 \<Longrightarrow> goes ops s (snd (settle_move op u at t s))" by (rule goes_db [OF settle_move_db(1) R(1)])
  show "goes ops s (revert_into op reason t s)" by (rule goes_db [OF revert_into_db R(2)])
  show d: "goes ops s (drop_op op s)" by (rule goes_db [OF drop_op_db R(3)])
  show "goes ops s (release_ops os t s)" by (rule goes_db [OF release_ops_db runs_states(2)])
  show "goes ops s (retryLater op err unclear t s)"
    by (rule goes_db [OF retryLater_db]) (simp add: R(2) runs_states(6))
  show "goes ops s (lookup_failed op t s)"
    using d runs_states(4) by (simp add: lookup_failed_def goes_def)
qed

lemma goes_logged [simp]: "goes ops s (logged es s)"
  by (simp add: goes_def logged_def)

section \<open>What the mailbox may answer\<close>

text \<open>IMAP uids are positive; no new uid (or zero) stands for a letter moved without one.\<close>

definition imap_uids :: "mailbox \<Rightarrow> bool" where
  "imap_uids mb \<longleftrightarrow>
     (\<forall>f d us oc u v. mb_move mb f d us = Answer oc \<longrightarrow> oc_uids oc u = Some v \<longrightarrow> v \<ge> 0)
   \<and> (\<forall>i fs m found f us u. mb_find mb i fs m = Answer found \<longrightarrow> (f, us) \<in> set found \<longrightarrow> u \<in> set us \<longrightarrow> u > 0)"

lemma maximum_in: "xs \<noteq> [] \<Longrightarrow> maximum xs \<in> set xs"
proof (cases xs)
  case (Cons x ys)
  have "fold max ys y \<in> set (y # ys)" for y
    by (induction ys arbitrary: y) (auto simp: max_def split: if_splits)
  then show ?thesis by (simp add: Cons)
qed simp

lemma pick_in_found:
  assumes "pick_in account op db f uids = Some u"
  shows "u \<in> set uids"
proof -
  let ?rows = "filter (\<lambda>r. ms_account r = account \<and> ms_folder r = f \<and> ms_uid r \<in> set uids) (msgs db)"
  let ?free = "filter (\<lambda>u. u \<notin> ms_uid ` set ?rows) uids"
  let ?newer = "filter (\<lambda>r. ms_id r \<noteq> mv_row op \<and> (case ms_synced r of Some t \<Rightarrow> t \<ge> mv_created op | None \<Rightarrow> False)) ?rows"
  show ?thesis
  proof (cases "?free = []")
    case True
    then have "map ms_uid ?newer \<noteq> []" "u = maximum (map ms_uid ?newer)"
      using assms unfolding pick_in_def Let_def by (auto split: if_splits)
    then have "u \<in> set (map ms_uid ?newer)" using maximum_in by blast
    then show ?thesis by auto
  next
    case False
    then have "u = maximum ?free" using assms unfolding pick_in_def Let_def by (auto split: if_splits)
    then have "u \<in> set ?free" using maximum_in [OF False] by simp
    then show ?thesis by simp
  qed
qed

lemma pickLocated_found:
  "pickLocated account op found fs db = Some (f, u) \<Longrightarrow> \<exists>us. (f, us) \<in> set found \<and> u \<in> set us"
proof (induction account op found fs db rule: pickLocated.induct)
  case (2 account op found g fs db)
  show ?case
  proof (cases "map_of (rev found) g")
    case (Some us)
    then have found: "(g, us) \<in> set found" using map_of_SomeD by fastforce
    show ?thesis
    proof (cases "if us = [] then None else pick_in account op db g us")
      case None
      then show ?thesis using 2 Some by simp
    next
      case (Some v)
      then have "v \<in> set us" using pick_in_found by (auto split: if_splits)
      then show ?thesis using 2 Some \<open>map_of (rev found) g = Some us\<close> found by auto
    qed
  qed (use 2 in simp)
qed simp

lemma locate_positive:
  assumes "imap_uids mb" and "locate mb account op db = Answer (Some (f, u))"
  shows "u > 0"
proof -
  obtain i fs m found where "mb_find mb i fs m = Answer found" "pickLocated account op found fs db = Some (f, u)"
    using assms(2) unfolding locate_def by (auto split: option.splits answer.splits if_splits)
  then show ?thesis using assms(1) pickLocated_found unfolding imap_uids_def by metis
qed


section \<open>Groups and lookups\<close>

lemma gone_goes:
  assumes "imap_uids mb" and "op \<in> set ops"
  shows "goes ops s (snd (goneFromSource mb account op t s))"
proof (cases "locate mb account op (w_db s)")
  case (Answer p)
  note G = op_goes [OF assms(2)]
  show ?thesis
  proof (cases p)
    case (Some fu)
    then have "snd fu > 0" using locate_positive [OF assms(1)] Answer by (metis prod.collapse)
    then have "goes ops s (snd (settle_move op (snd fu) (Some (fst fu)) t s))" by (rule G(1))
    then show ?thesis using Answer Some by (cases fu) (auto simp add: goneFromSource_def split: prod.splits)
  next
    case None
    have "goes ops s (logged es (drop_op op s))" for es using goes_trans [OF G(3) goes_logged] .
    then show ?thesis using Answer None G(2) by (simp add: goneFromSource_def)
  qed
qed (simp_all add: goneFromSource_def)

lemma by_uid_in: "by_uid ops u = Some op \<Longrightarrow> op \<in> set ops"
  unfolding by_uid_def using find_SomeD by fastforce

lemma goes_mark: "goes ops s (s\<lparr>w_db := markAwaiting i t (w_db s)\<rparr>)"
  by (simp add: goes_def runs_states(3))

lemma moved_one_goes:
  assumes "\<And>u v. oc_uids oc u = Some v \<Longrightarrow> v \<ge> 0"
  shows "goes ops (snd (snd a)) (snd (snd (moved_one ops oc t u a)))"
proof -
  obtain xs w s where a: "a = (xs, w, s)" by (rule prod_cases3)
  show ?thesis
  proof (cases "by_uid ops u")
    case None
    then show ?thesis by (simp add: a moved_one_def)
  next
    case (Some op)
    note G = op_goes [OF by_uid_in [OF Some]]
    have settled: "goes ops s s1" if "settle_move op v None t s = (x, s1)" "v > 0" for v x s1
      using G(1) [OF that(2), of s None t] that(1) by simp
    show ?thesis
    proof (cases "oc_uids oc u")
      case None
      then show ?thesis using Some G(3) goes_mark by (simp add: a moved_one_def)
    next
      case v: (Some v)
      then show ?thesis using assms [OF v] Some G(3) goes_mark settled [of v]
        by (cases "v = 0") (auto simp: a moved_one_def split: option.splits prod.splits)
    qed
  qed
qed

lemma failed_one_goes:
  assumes "imap_uids mb"
  shows "goes ops (snd (snd a)) (snd (snd (failed_one mb account ops present dk t u a)))"
proof -
  obtain xs w s where a: "a = (xs, w, s)" by (rule prod_cases3)
  show ?thesis
  proof (cases "by_uid ops u")
    case None
    then show ?thesis by (simp add: a failed_one_def)
  next
    case (Some op)
    note op = by_uid_in [OF Some]
    note G = op_goes [OF op]
    obtain g s1 where g: "goneFromSource mb account op t s = (g, s1)" by (rule prod.exhaust)
    have gone: "goes ops s s1" using gone_goes [OF assms op, of s account t] g by simp
    have "goes ops s (release_ops [op] t s1)" "goes ops s (retryLater op err b t s1)" for err b
      using goes_trans [OF gone G(4)] goes_trans [OF gone G(5)] by blast+
    then show ?thesis
      using Some G(2,4,5) gone by (cases g) (auto simp: a g failed_one_def split: option.splits)
  qed
qed

lemma goes_finish: "goes ops (snd (snd a)) (snd (finishGroup mb src dest oc w a))"
  unfolding finishGroup_def snd_conv using goes_trans [OF goes_core [OF core_storeSettledFlags] goes_logged] .

lemma goes_sent: "goes ops s (sent_state os t s)"
  by (simp add: goes_def sent_state_def logged_def runs_states(1))

lemma goes_fold_state:
  assumes "\<And>x a. x \<in> set xs \<Longrightarrow> goes ops (snd (snd a)) (snd (snd (f x a)))" and "fold f xs a = b" and "goes ops s (snd (snd a))"
  shows "goes ops s (snd (snd b))"
  using goes_trans [OF assms(3) goes_fold [of xs ops "\<lambda>a. snd (snd a)" f a]] assms(1,2) by blast

lemma runGroup_goes:
  assumes mb: "imap_uids mb" and "ops \<noteq> []"
  shows "goes ops s (snd (runGroup mb account t ops s))"
proof -
  let ?src = "mv_src_folder (hd ops)" and ?dest = "mv_dest (hd ops)" and ?s1 = "sent_state ops t s"
  have hd: "hd ops \<in> set ops" using assms(2) by simp
  have release: "goes ops s (release_ops os t s')" if "goes ops s s'" for os s'
    using goes_trans [OF that op_goes(4) [OF hd]] .
  show ?thesis
  proof (cases "mb_move mb ?src ?dest (source_uids ops)")
    case Busy
    then show ?thesis using release [OF goes_sent] by (simp add: runGroup_def Let_def sent_state_def)
  next
    case (Broken e)
    have "goes ops ?s1 (fold (\<lambda>op. retryLater op e True t) ops ?s1)"
      using goes_fold [of ops ops "\<lambda>s. s" "\<lambda>op. retryLater op e True t" ?s1] op_goes(5) by blast
    then have "goes ops s (fold (\<lambda>op. retryLater op e True t) ops ?s1)" by (rule goes_trans [OF goes_sent])
    then show ?thesis using Broken by (simp add: runGroup_def Let_def sent_state_def)
  next
    case (Answer oc)
    have uids: "v \<ge> 0" if "oc_uids oc u = Some v" for u v using mb Answer that unfolding imap_uids_def by blast
    obtain xs w s2 where m: "fold (moved_one ops oc t) (oc_succeeded oc) ([], False, ?s1) = (xs, w, s2)" by (rule prod_cases3)
    have s2: "goes ops s s2"
      using goes_fold_state [OF moved_one_goes m, where s = s] uids goes_sent by simp
    have finish: "goes ops s (snd (finishGroup mb ?src ?dest oc w a))" if "goes ops s (snd (snd a))" for a
      by (rule goes_trans [OF that goes_finish])
    have failed: "goes ops s (snd (snd (fold (failed_one mb account ops present dk t) (oc_failed oc) (xs, False, s2))))" for present dk
      by (rule goes_fold_state [OF failed_one_goes [OF mb] refl]) (simp add: s2)
    show ?thesis
      using Answer m finish [OF failed] release [OF s2] finish [of "(xs, False, s2)"] s2
      by (cases "oc_failed oc = []"; cases "mb_present mb ?src (oc_failed oc)") (simp_all add: runGroup_def Let_def sent_state_def)
  qed
qed

lemma resolve_goes:
  assumes mb: "imap_uids mb"
  shows "set ops \<subseteq> set all \<Longrightarrow> goes all s (snd (snd (resolve_loop mb account t ops xs s)))"
proof (induction ops arbitrary: xs s)
  case (Cons op ops)
  have op: "op \<in> set all" and sub: "set ops \<subseteq> set all" using Cons.prems by auto
  note G = op_goes [OF op] and IH = Cons.IH [OF sub]
  have exp: "goes all s (expect op s)" by (rule goes_core) (rule core_expect)
  note nx = goes_trans [OF goes_trans [OF exp] IH]
  have req: "goes all (expect op s) (unexpect op ((expect op s)\<lparr>w_db := requeue_awaiting op t (w_db (expect op s))\<rparr>))"
    using core_unexpect [of "(expect op s)\<lparr>w_db := requeue_awaiting op t (w_db (expect op s))\<rparr>" op] runs_states(5)
    by (simp add: goes_def same_core_def)
  obtain g s2 where g: "goneFromSource mb account op t (expect op s) = (g, s2)" by (rule prod.exhaust)
  have s2: "goes all (expect op s) s2" using gone_goes [OF mb op, of "expect op s" account t] g by simp
  have gone: "goes all s (snd (snd (case (g, s2) of
      (Busy, s2) \<Rightarrow> (True, xs, s2)
    | (Broken _, s2) \<Rightarrow> resolve_loop mb account t ops xs (lookup_failed op t s2)
    | (Answer (Some x), s2) \<Rightarrow> resolve_loop mb account t ops (if st_row x = None then xs else xs @ [x]) s2
    | (Answer None, s2) \<Rightarrow> resolve_loop mb account t ops xs s2)))"
    using goes_trans [OF exp s2] nx [OF s2] nx [OF goes_trans [OF s2 G(6)]]
    by (cases g) (simp_all split: option.splits)
  show ?case
  proof (cases "opHeld s op")
    case True
    then show ?thesis using IH by simp
  next
    case False
    then show ?thesis
      using exp nx [OF G(6)] nx [OF G(2)] nx [OF req] gone [folded g]
      by (cases "mb_present mb (mv_src_folder op) (source_uids [op])") (simp_all add: Let_def)
  qed
qed simp


section \<open>Runs, arrivals and routes\<close>

text \<open>Some sequence of steps, which may read moves on its way.\<close>

definition some_path :: "mw \<Rightarrow> mw \<Rightarrow> bool" where
  "some_path s s' \<longleftrightarrow> (\<forall>R. mq_ok \<lparr>mq_db = w_db s, mq_read = R\<rparr> \<longrightarrow>
     (\<exists>R'. mq_step\<^sup>*\<^sup>* \<lparr>mq_db = w_db s, mq_read = R\<rparr> \<lparr>mq_db = w_db s', mq_read = R'\<rparr>))"

lemma steps_ok: "mq_step\<^sup>*\<^sup>* X Y \<Longrightarrow> mq_ok X \<Longrightarrow> mq_ok Y"
  by (induction rule: rtranclp_induct) (auto intro: mq_step_ok)

lemma some_path_refl [simp]: "some_path s s"
  unfolding some_path_def by blast

lemma some_path_trans: "some_path a b \<Longrightarrow> some_path b c \<Longrightarrow> some_path a c"
  unfolding some_path_def by (meson rtranclp_trans steps_ok)

lemma some_path_db: "w_db s' = w_db s \<Longrightarrow> some_path s s'"
  unfolding some_path_def by auto

lemma some_path_core: "same_core s s' \<Longrightarrow> some_path s s'"
  by (simp add: some_path_db same_core_def)

text \<open>Moves in the table that are not queued can be read, and then worked on.\<close>

lemma read_all:
  "set ops \<subseteq> {m \<in> set (moves db). mv_state m \<noteq> MQueued}
    \<Longrightarrow> mq_step\<^sup>*\<^sup>* \<lparr>mq_db = db, mq_read = R\<rparr> \<lparr>mq_db = db, mq_read = rev ops @ R\<rparr>"
proof (induction ops arbitrary: R)
  case (Cons op ops)
  have "mq_step \<lparr>mq_db = db, mq_read = R\<rparr> \<lparr>mq_db = db, mq_read = op # R\<rparr>"
    using mq_step.look_up [of op "\<lparr>mq_db = db, mq_read = R\<rparr>"] Cons.prems by simp
  then show ?case using Cons.IH [of "op # R"] Cons.prems by (simp add: converse_rtranclp_into_rtranclp)
qed simp

lemma read_then_go:
  assumes "set ops \<subseteq> {m \<in> set (moves (w_db s)). mv_state m \<noteq> MQueued}" and "goes ops s s'"
  shows "some_path s s'"
  unfolding some_path_def
proof (intro allI impI)
  fix R
  have "mq_step\<^sup>*\<^sup>* \<lparr>mq_db = w_db s, mq_read = R\<rparr> \<lparr>mq_db = w_db s, mq_read = rev ops @ R\<rparr>"
    by (rule read_all) (rule assms(1))
  moreover have "mq_step\<^sup>*\<^sup>* \<lparr>mq_db = w_db s, mq_read = rev ops @ R\<rparr> \<lparr>mq_db = w_db s', mq_read = rev ops @ R\<rparr>"
    using assms(2) by (simp add: goes_def runs_as_def)
  ultimately show "\<exists>R'. mq_step\<^sup>*\<^sup>* \<lparr>mq_db = w_db s, mq_read = R\<rparr> \<lparr>mq_db = w_db s', mq_read = R'\<rparr>"
    using rtranclp_trans by fast
qed

lemma claim_then_go:
  assumes "claim_moves account lk t (w_db s) = (ops, db)" and "goes ops (s\<lparr>w_db := db\<rparr>) s'"
  shows "some_path s s'"
  unfolding some_path_def
proof (intro allI impI)
  fix R
  have "mq_step \<lparr>mq_db = w_db s, mq_read = R\<rparr> \<lparr>mq_db = db, mq_read = ops @ R\<rparr>"
    using mq_step.claim [of account lk t "\<lparr>mq_db = w_db s, mq_read = R\<rparr>" ops db] assms(1) by simp
  moreover have "mq_step\<^sup>*\<^sup>* \<lparr>mq_db = db, mq_read = ops @ R\<rparr> \<lparr>mq_db = w_db s', mq_read = ops @ R\<rparr>"
    using assms(2) by (simp add: goes_def runs_as_def)
  ultimately show "\<exists>R'. mq_step\<^sup>*\<^sup>* \<lparr>mq_db = w_db s, mq_read = R\<rparr> \<lparr>mq_db = w_db s', mq_read = R'\<rparr>"
    by (meson converse_rtranclp_into_rtranclp)
qed

lemma resolve_path:
  assumes "imap_uids mb"
  shows "some_path s (snd (resolveAwaiting mb account t s))"
proof -
  let ?due = "awaiting_due account t (w_db s)"
  obtain b xs s1 where r: "resolve_loop mb account t ?due [] s = (b, xs, s1)" by (rule prod_cases3)
  have due: "set ?due \<subseteq> {m \<in> set (moves (w_db s)). mv_state m \<noteq> MQueued}"
    by (auto simp: awaiting_due_def dest!: in_set_takeD)
  have "goes ?due s s1" using resolve_goes [OF assms subset_refl, where account = account and t = t and xs = "[]"] r by (metis snd_conv)
  then have "goes ?due s (logged (any_needs_ids xs) (storeSettledFlags mb xs s1))"
    using goes_trans [OF _ goes_trans [OF goes_core [OF core_storeSettledFlags] goes_logged]] by blast
  then show ?thesis using read_then_go [OF due] r by (simp add: resolveAwaiting_def)
qed

lemma run_groups_goes:
  assumes mb: "imap_uids mb" and "all \<noteq> []" and "\<And>ops. ops \<in> set groups \<Longrightarrow> ops \<noteq> [] \<and> set ops \<subseteq> set all"
  shows "goes all s (run_groups mb account t gates groups stopped s)"
  using assms(3)
proof (induction groups arbitrary: gates stopped s)
  case (Cons ops groups)
  have IH: "goes all s' (run_groups mb account t (tl gates) groups b s')" for b s' by (rule Cons.IH) (simp add: Cons.prems)
  obtain b s1 where g: "runGroup mb account t ops s = (b, s1)" by (rule prod.exhaust)
  have ops: "ops \<noteq> []" "set ops \<subseteq> set all" using Cons.prems by simp_all
  have "goes ops s s1" using runGroup_goes [OF mb ops(1), of s account t] g by simp
  then have 1: "goes all s s1" using ops(2) by (auto simp: goes_def runs_as_def)
  have 2: "goes all s (release_ops ops t s)" using op_goes(4) [of "hd all" all] assms(2) by simp
  show ?case
    using run_groups_Cons [OF g] goes_trans [OF 1 IH [of s1 b]] goes_trans [OF 2 IH [of "release_ops ops t s" True]] by metis
qed simp

lemma notify_core: "w_db (notifyReverted account s) = w_db s \<and> w_holds (notifyReverted account s) = w_holds s"
  by (simp add: notifyReverted_def logged_def)



lemma nothing_claimed [simp]: "release_ops [] t s = s" "group_by key [] = []"
  by (simp_all add: release_ops_def group_by_def)

text \<open>The claimed moves of a run, from the claim to its end.\<close>

lemma runClaimed_goes:
  assumes mb: "imap_uids mb"
  shows "goes claimed s (runClaimed mb account gates t claimed s)"
proof (cases "claimed = []")
  case True
  then show ?thesis by (simp add: runClaimed_def)
next
  case False
  let ?s1 = "release_ops (filter (opHeld s) claimed) t s"
  let ?ops = "sort_key mv_id (filter (\<lambda>op. \<not> opHeld ?s1 op) claimed)"
  let ?groups = "map snd (group_by (\<lambda>op. (mv_src_folder op, mv_dest op)) ?ops)"
  let ?s3 = "run_groups mb account t gates ?groups False (fold expect ?ops ?s1)"
  have sub: "ops \<noteq> [] \<and> set ops \<subseteq> set claimed" if group: "ops \<in> set ?groups" for ops
  proof -
    obtain k where "(k, ops) \<in> set (group_by (\<lambda>op. (mv_src_folder op, mv_dest op)) ?ops)" using group by auto
    from group_by_in [OF this] show ?thesis by auto
  qed
  have hd: "hd claimed \<in> set claimed" using False by simp
  have "same_core ?s1 (fold expect ?ops ?s1)" by (rule same_core_fold) (rule core_expect)
  then have "goes claimed s (fold expect ?ops ?s1)" by (rule goes_trans [OF op_goes(4) [OF hd] goes_core])
  then have "goes claimed s ?s3" by (rule goes_trans) (rule run_groups_goes [OF mb False sub])
  then show ?thesis by (simp add: runClaimed_def Let_def)
qed

lemma run_path:
  assumes mb: "imap_uids mb"
  shows "some_path s (runAccountOnce mb account gates lk t s)"
proof (cases "gates = [] \<or> \<not> hd gates")
  case True
  then show ?thesis by (simp add: runAccountOnce_def)
next
  case False
  obtain busy s1 where r: "resolveAwaiting mb account t s = (busy, s1)" by (rule prod.exhaust)
  obtain claimed db where c: "claim_moves account lk t (w_db s1) = (claimed, db)" by (rule prod.exhaust)
  let ?last = "runClaimed mb account (tl gates) t claimed (s1\<lparr>w_db := db\<rparr>)"
  have "goes claimed (s1\<lparr>w_db := db\<rparr>) (notifyReverted account ?last)"
    using runClaimed_goes [OF mb, of claimed "s1\<lparr>w_db := db\<rparr>" account "tl gates" t] notify_core by (simp add: goes_def)
  then have "some_path s1 (notifyReverted account ?last)" by (rule claim_then_go [OF c])
  moreover have "some_path s1 (notifyReverted account s1)" by (simp add: some_path_db notify_core)
  moreover have "some_path s s1" using resolve_path [OF mb, of s account t] r by simp
  ultimately have "some_path s (notifyReverted account ?last)" "some_path s (notifyReverted account s1)"
    using some_path_trans by blast+
  then show ?thesis using False by (simp add: runAccountOnce_def r c)
qed

lemma arrival_path:
  assumes "u > 0"
  shows "some_path s (snd (claimArrival mb account f mid u t s))"
proof (cases "find (\<lambda>m. mv_account m = account \<and> mv_dest m = f \<and> mv_mid m = Some mid \<and> mv_state m \<noteq> MQueued)
    (sort_key mv_id (moves (w_db s)))")
  case None
  then show ?thesis by (simp add: claimArrival_def)
next
  case (Some op)
  then have op: "set [op] \<subseteq> {m \<in> set (moves (w_db s)). mv_state m \<noteq> MQueued}" using find_SomeD [OF Some] by simp
  obtain x s1 where x: "settle_move op u None t s = (x, s1)" by (rule prod.exhaust)
  have s1: "goes [op] s s1" using op_goes(1) [of op "[op]" u s None t] assms x by simp
  have "goes [op] s (logged es (storeSettledFlags mb xs s1))" for es xs
    using goes_trans [OF s1 goes_trans [OF goes_core [OF core_storeSettledFlags] goes_logged]] .
  then have "some_path s (logged es (storeSettledFlags mb xs s1))" "some_path s s1" for es xs
    using read_then_go [OF op] s1 by blast+
  then show ?thesis by (simp add: claimArrival_def Some x split: option.splits)
qed

section \<open>Routes\<close>

lemma path_step:
  assumes "\<And>R. mq_step \<lparr>mq_db = w_db s, mq_read = R\<rparr> \<lparr>mq_db = w_db s', mq_read = R\<rparr>"
  shows "some_path s s'"
  unfolding some_path_def using assms by blast

lemma some_path_fold:
  assumes "\<And>x a. some_path (p a) (p (f x a))"
  shows "some_path (p a) (p (fold f xs a))"
proof (induction xs arbitrary: a)
  case (Cons x xs)
  show ?case using some_path_trans [OF assms [of a x] Cons] by simp
qed simp

lemma absorb_path: "some_path s (absorbFlagPushes rowIds s)"
  unfolding absorbFlagPushes_def
proof (rule some_path_fold [of "\<lambda>s. s", simplified])
  fix fv :: "flag \<times> bool" and s :: mw
  obtain fl v where fv: "fv = (fl, v)" by (rule prod.exhaust)
  let ?rows = "map (\<lambda>i. (i, -1)) (filter (\<lambda>i. map_of (w_pushes s) (i, fl) = Some v) rowIds)"
  obtain d i db where x: "deferFlags ?rows fl v (w_db s) = ((d, i), db)" by (metis prod.exhaust)
  have 1: "some_path s (s\<lparr>w_db := db\<rparr>)"
    by (rule path_step) (use mq_step.defer_flags [of "\<lparr>mq_db = w_db s, mq_read = R\<rparr>" ?rows fl v for R] x in simp)
  have 2: "same_core (s\<lparr>w_db := db\<rparr>) (fold (\<lambda>i. resolve_push i fl) d (s\<lparr>w_db := db\<rparr>))"
    by (rule same_core_fold) (rule core_resolve_push)
  have "some_path s (fold (\<lambda>i. resolve_push i fl) d (s\<lparr>w_db := db\<rparr>))" by (rule some_path_trans [OF 1 some_path_core [OF 2]])
  then show "some_path s (absorb_one rowIds fv s)" by (simp add: absorb_one_def fv x Let_def)
qed

lemma guard_path: "some_path s (fold guard ops s)"
  by (rule some_path_core, rule same_core_fold) (rule core_guard)

lemma pending_path:
  assumes again: "\<And>rs s. some_path s (snd (again rs s))"
  shows "some_path s (snd (enqueuePending again account rowId dest drop_row by_user t s))"
proof -
  let ?c = "cancel_pending account rowId dest (w_db s)"
  let ?r = "retarget_pending account rowId dest drop_row by_user t (w_db s)"
  let ?f = "follow_pending account rowId dest drop_row by_user t (w_db s)"
  have c: "some_path s (s\<lparr>w_db := snd ?c\<rparr>)"
    by (rule path_step) (use mq_step.cancel [of "\<lparr>mq_db = w_db s, mq_read = R\<rparr>" account rowId dest for R] in simp)
  have r: "some_path s (s\<lparr>w_db := snd ?r\<rparr>)"
    by (rule path_step) (use mq_step.retarget [of "\<lparr>mq_db = w_db s, mq_read = R\<rparr>" account rowId dest drop_row by_user t for R] in simp)
  have f: "some_path s (s\<lparr>w_db := snd ?f\<rparr>)"
    by (rule path_step) (use mq_step.follow [of "\<lparr>mq_db = w_db s, mq_read = R\<rparr>" account rowId dest drop_row by_user t for R] in simp)
  have pushed: "same_core a (push_option i Flagged v (push_option i Seen w (unguard j False a)))" for a i j v w
    by (rule same_core_trans [OF same_core_trans [OF core_unguard core_push_option] core_push_option])
  obtain rc dbc where C: "?c = (rc, dbc)" by (rule prod.exhaust)
  obtain rr dbr where R: "?r = (rr, dbr)" by (rule prod.exhaust)
  obtain rf dbf where F: "?f = (rf, dbf)" by (rule prod.exhaust)
  have canceled: "some_path s (push_option i Flagged v (push_option i Seen w (unguard j False (s\<lparr>w_db := dbc\<rparr>))))"
      "some_path s (unguard j False (s\<lparr>w_db := dbc\<rparr>))" for i j v w
    using some_path_trans [OF c some_path_core [OF pushed]] some_path_trans [OF c some_path_core [OF core_unguard]] by (simp_all add: C)
  have settled: "some_path s (snd (case msg_of (w_db s) rowId of
        None \<Rightarrow> (Inr (None, None) :: unit + moved option \<times> move option, s)
      | Some r \<Rightarrow>
          if ms_account r \<noteq> account then (Inr (None, None), s)
          else if ms_folder r = dest then (Inr (Some (moved_row dest r), None), s)
          else if isPendingUid (ms_uid r) \<or> ms_claimed r then (Inr (None, None), s)
          else (case again [(ms_id r, ms_uid r, ms_folder r)] s of
              (Inl (), s1) \<Rightarrow> (Inl (), s1)
            | (Inr xs, s1) \<Rightarrow> (Inr (case xs of x # _ \<Rightarrow> Some x | [] \<Rightarrow> None, None), s1))))"
  proof (cases "msg_of (w_db s) rowId")
    case (Some r)
    show ?thesis
      using again [of s "[(ms_id r, ms_uid r, ms_folder r)]"]
      by (cases "again [(ms_id r, ms_uid r, ms_folder r)] s") (simp add: Some split: sum.split unit.split)
  qed simp
  show ?thesis
  proof (cases rc)
    case (Inl u)
    then show ?thesis by (simp add: enqueuePending_def C split: unit.split)
  next
    case c: (Inr p)
    show ?thesis
    proof (cases p)
      case (Some q)
      then show ?thesis using canceled by (cases q) (simp add: enqueuePending_def C c Let_def)
    next
      case p: None
      show ?thesis
      proof (cases rr)
        case (Some q)
        then show ?thesis using r by (cases q) (simp add: enqueuePending_def C c p R)
      next
        case q: None
        then show ?thesis using f settled by (cases rf) (auto simp add: enqueuePending_def C c p R F)
      qed
    qed
  qed
qed

lemma rest_path:
  assumes "\<And>i s. some_path s (snd (one i s))"
  shows "some_path s (snd (enqueue_rest one is s))"
proof (induction "is" arbitrary: s)
  case (Cons i rest)
  obtain y s1 where one: "one i s = (y, s1)" by (rule prod.exhaust)
  obtain z s2 where two: "enqueue_rest one rest s1 = (z, s2)" by (rule prod.exhaust)
  have 1: "some_path s s1" using assms [of s i] one by simp
  then have 2: "some_path s s2" using Cons [of s1] some_path_trans two by fastforce
  have "snd (enqueue_rest one (i # rest) s) = s1 \<or> snd (enqueue_rest one (i # rest) s) = s2"
    by (cases y; cases z) (simp_all add: one two split: unit.splits prod.splits)
  then show ?case using 1 2 by metis
qed simp

lemma enqueue_path: "some_path s (snd (enqueue n account rows dest drop_row by_user t s))"
proof (induction n arbitrary: rows s)
  case (Suc n)
  let ?rows = "filter (\<lambda>(_, _, f). heldBy account f s = None) rows"
  let ?fresh = "map fst (filter (\<lambda>(_, u, _). \<not> isPendingUid u) ?rows)"
  let ?pending = "map fst (filter (\<lambda>(_, u, _). isPendingUid u) ?rows)"
  let ?e = "if ?fresh = [] then ([], w_db s) else enqueue_fresh account ?fresh dest drop_row by_user t (w_db s)"
  let ?one = "\<lambda>i. enqueuePending (\<lambda>rs. enqueue n account rs dest drop_row by_user t) account i dest drop_row by_user t"
  obtain created db where e: "?e = (created, db)" by (rule prod.exhaust)
  let ?done = "map (\<lambda>(op, rd). \<lparr>md_id = mv_row op, md_from = mv_src_folder op, md_read = rd\<rparr>) created"
  let ?left = "filter (\<lambda>i. i \<notin> md_id ` set ?done) ?fresh"
  obtain y s1 where r: "enqueue_rest ?one (?pending @ ?left) (s\<lparr>w_db := db\<rparr>) = (y, s1)" by (rule prod.exhaust)
  have "some_path s (s\<lparr>w_db := snd (enqueue_fresh account ?fresh dest drop_row by_user t (w_db s))\<rparr>)"
    by (rule path_step) (use mq_step.enqueue [of "\<lparr>mq_db = w_db s, mq_read = R\<rparr>" account ?fresh dest drop_row by_user t for R] in simp)
  then have 1: "some_path s (s\<lparr>w_db := db\<rparr>)" using e by (auto split: if_splits)
  have "some_path s' (snd (?one i s'))" for i s' by (rule pending_path) (rule Suc.IH)
  then have "some_path (s\<lparr>w_db := db\<rparr>) s1" using rest_path [of ?one "s\<lparr>w_db := db\<rparr>" "?pending @ ?left"] r by simp
  then have 2: "some_path s s1" by (rule some_path_trans [OF 1])
  have 3: "some_path s (logged es (absorbFlagPushes ids (fold guard ops s1)))" "some_path s (fold guard ops s1)" for es ids ops
    using some_path_trans [OF some_path_trans [OF some_path_trans [OF 2 guard_path] absorb_path] some_path_db]
      some_path_trans [OF 2 guard_path] by (simp_all add: logged_def)
  show ?case
    unfolding enqueue.simps Let_def e prod.case r using 2 3
    by (cases y) (simp_all del: fold_append map_append fold_simps split: unit.split prod.split)
qed simp


text \<open>From a state that is reachable, a path leads to one.\<close>

lemma path_reachable:
  assumes "some_path s s'" and "mq_reachable start X" and "mq_db X = w_db s"
  shows "\<exists>Y. mq_reachable start Y \<and> mq_db Y = w_db s'"
proof -
  have X: "X = \<lparr>mq_db = w_db s, mq_read = mq_read X\<rparr>" using assms(3) by simp
  then have "mq_ok \<lparr>mq_db = w_db s, mq_read = mq_read X\<rparr>" using reachable_ok [OF assms(2)] by simp
  then obtain R' where "mq_step\<^sup>*\<^sup>* X \<lparr>mq_db = w_db s', mq_read = R'\<rparr>"
    using assms(1) X unfolding some_path_def by metis
  then have "mq_reachable start \<lparr>mq_db = w_db s', mq_read = R'\<rparr>"
    using assms(2) by (induction rule: rtranclp_induct) (auto intro: mq_reachable.further)
  then show ?thesis by force
qed

lemma path_inv:
  assumes "some_path s s'" and "mq_inv (w_db s)"
  shows "mq_inv (w_db s')"
proof -
  have ok: "mq_ok \<lparr>mq_db = w_db s, mq_read = []\<rparr>" using assms(2) by (simp add: mq_ok_def)
  then obtain R' where "mq_step\<^sup>*\<^sup>* \<lparr>mq_db = w_db s, mq_read = []\<rparr> \<lparr>mq_db = w_db s', mq_read = R'\<rparr>"
    using assms(1) unfolding some_path_def by blast
  from steps_ok [OF this ok] show ?thesis by (simp add: mq_ok_def)
qed

end
