(* ===== verification/MoveWorkerProperties.thy ===== *)
theory MoveWorkerProperties
  imports MoveRefinement MoveProperties "HOL-Library.Multiset"
begin

text \<open>
  What a run of the worker promises: it leaves none of its moves claimed, it never undoes a move
  whose MOVE may have gone out, it sends nothing into or out of a held folder, no deferred flag
  change is lost (with the one path of the code where it is), and the routes' enqueue ends.
\<close>

section \<open>Groups\<close>

text \<open>One group of moves that is run leaves none of its moves claimed: when the server reports every
  uid it was asked to move as moved or not moved, then whatever it answers (a MOVE that breaks off, a
  mailbox that gives no session, uids missing or found elsewhere), no move of the group is left in the
  state \<open>moving\<close>, and exactly one MOVE went out.\<close>

theorem group_leaves_nothing_claimed:
  assumes "all_reported mb ops"
  shows "(\<forall>m\<in>set (moves (w_db (snd (runGroup mb account t ops s)))). mv_id m \<in> mv_id ` set ops \<longrightarrow> mv_state m \<noteq> MMoving)
    \<and> sends (snd (runGroup mb account t ops s))
      = sends s @ [SendMove (mv_src_folder (hd ops)) (mv_dest (hd ops)) (source_uids ops)]"
proof -
  obtain gone where "ends (sent_state ops t s) gone (snd (runGroup mb account t ops s))" "mv_id ` set ops \<subseteq> gone"
    using runGroup_ends assms by blast
  then show ?thesis by (fastforce simp: ends_def moving_def sends_def sent_state_def logged_def)
qed

text \<open>A mailbox that answers every question with nothing, and a claimed move.\<close>

definition ex_mailbox :: mailbox where
  "ex_mailbox = \<lparr>mb_move = (\<lambda>f d us. Answer \<lparr>oc_succeeded = us, oc_failed = [], oc_uids = (\<lambda>u. Some (\<bar>u\<bar> + 100)), oc_retained = []\<rparr>),
     mb_present = (\<lambda>f us. Answer us), mb_find = (\<lambda>i fs m. Answer []), mb_store = (\<lambda>f us fl v. False),
     mb_folders = [(''Archive'', ''''), (''INBOX'', '''')]\<rparr>"

definition ex_op :: move where
  "ex_op = \<lparr>mv_id = 1, mv_account = ''a'', mv_row = ''r'', mv_mid = Some ''m'', mv_src_folder = ''INBOX'', mv_src_uid = Some 5,
     mv_dest = ''Archive'', mv_pred = None, mv_drop_row = False, mv_by = None, mv_seen = Some True, mv_flagged = None,
     mv_state = MMoving, mv_attempts = 0, mv_next = 0, mv_claimed_at = Some 0, mv_sent_at = None, mv_awaiting = None,
     mv_error = None, mv_created = 0, mv_updated = 0\<rparr>"

definition ex_letter :: msg where
  "ex_letter = \<lparr>ms_id = ''r'', ms_account = ''a'', ms_folder = ''Archive'', ms_uid = -1, ms_mid = Some ''m'', ms_read = True,
     ms_claimed = False, ms_provider = None, ms_synced = None, ms_read_changed = None, ms_star_changed = None\<rparr>"

definition ex_world :: mw where
  "ex_world = \<lparr>w_db = \<lparr>msgs = [ex_letter], moves = [ex_op], next_move = 2\<rparr>, w_guards = [], w_pending = [], w_linger = [],
     w_arrivals = [], w_holds = [], w_pushes = [], w_reverted = [], w_log = []\<rparr>"

theorem group_leaves_nothing_claimed_witness:
  "sends (snd (runGroup ex_mailbox ''a'' 7 [ex_op] ex_world)) = [SendMove ''INBOX'' ''Archive'' [5]]"
  using group_leaves_nothing_claimed [of ex_mailbox "[ex_op]" "''a''" 7 ex_world]
  by (simp add: all_reported_def ex_op_def ex_mailbox_def ex_world_def source_uids_def List.map_filter_def sends_def)

lemma retry_unclear: "retryLater op e True t s = s\<lparr>w_db := retry_move op e True t (w_db s)\<rparr>"
  by (simp add: retryLater_def)

lemma fold_retry_unclear:
  "fold (\<lambda>op. retryLater op e True t) ops s = s\<lparr>w_db := fold (\<lambda>op. retry_move op e True t) ops (w_db s)\<rparr>"
  by (induction ops arbitrary: s) (simp_all add: retry_unclear)

lemma retry_msgs: "msgs (fold (\<lambda>op. retry_move op e True t) ops db) = msgs db"
  by (induction ops arbitrary: db) (simp_all add: retry_move_def)

lemma retry_other:
  "m \<in> set (moves db) \<Longrightarrow> mv_state m \<noteq> MMoving \<or> mv_id m \<notin> mv_id ` set ops
    \<Longrightarrow> m \<in> set (moves (fold (\<lambda>op. retry_move op e True t) ops db))"
proof (induction ops arbitrary: db)
  case (Cons op ops)
  have "m \<in> set (moves (retry_move op e True t db))"
    using Cons.prems by (force simp: retry_move_def still_moving_def sql_update_def)
  then show ?case using Cons.prems Cons.IH by auto
qed simp

lemma retry_own:
  assumes "m \<in> set (moves db)" and "mv_state m = MMoving" and "op \<in> set ops" and "mv_id op = mv_id m"
    and "distinct (map mv_id ops)"
  shows "retry_row (Suc (mv_attempts op)) e True t m \<in> set (moves (fold (\<lambda>op. retry_move op e True t) ops db))"
  using assms
proof (induction ops arbitrary: db)
  case (Cons x ops)
  show ?case
  proof (cases "x = op")
    case True
    have "retry_row (Suc (mv_attempts op)) e True t m \<in> set (moves (retry_move op e True t db))"
      using Cons.prems by (force simp: retry_move_def still_moving_def sql_update_def)
    then have "retry_row (Suc (mv_attempts op)) e True t m
        \<in> set (moves (fold (\<lambda>op. retry_move op e True t) ops (retry_move op e True t db)))"
      by (rule retry_other) (simp add: retry_row_def)
    then show ?thesis using True by simp
  next
    case False
    then have x: "op \<in> set ops" "mv_id x \<noteq> mv_id m" using Cons.prems by (auto simp: image_iff)
    then have "m \<in> set (moves (retry_move x e True t db))"
      using Cons.prems(1) by (force simp: retry_move_def still_moving_def sql_update_def)
    then show ?thesis using Cons.IH x(1) Cons.prems by simp
  qed
qed simp

text \<open>C20: A MOVE whose answer was lost is never taken for one that failed: when the call breaks off, no
  letter goes back, nothing is reported as reverted, and every claimed move of the group waits, marked
  as sent and with one more attempt, to be looked up at its source before anything is sent again.\<close>

theorem lost_answer_undoes_nothing:
  assumes "mb_move mb (mv_src_folder (hd ops)) (mv_dest (hd ops)) (source_uids ops) = Broken e"
    and "distinct (map mv_id ops)"
    and "m \<in> set (moves (w_db s))" and "mv_state m = MMoving" and "op \<in> set ops" and "mv_id op = mv_id m"
  shows "msgs (w_db (snd (runGroup mb account t ops s))) = msgs (w_db s)
    \<and> w_reverted (snd (runGroup mb account t ops s)) = w_reverted s
    \<and> m\<lparr>mv_claimed_at := Some t, mv_sent_at := Some t, mv_state := MAwaiting,
         mv_attempts := Suc (mv_attempts op), mv_error := Some (take 500 e), mv_awaiting := Some t,
         mv_next := t + moveRetryDelayMs (Suc (mv_attempts op)), mv_updated := t\<rparr>
       \<in> set (moves (w_db (snd (runGroup mb account t ops s))))"
proof -
  let ?m = "m\<lparr>mv_claimed_at := Some t, mv_sent_at := Some t\<rparr>"
  have run: "snd (runGroup mb account t ops s) = fold (\<lambda>op. retryLater op e True t) ops (sent_state ops t s)"
    using assms(1) by (simp add: runGroup_def Let_def sent_state_def)
  have "?m \<in> set (moves (mark_sent (map mv_id ops) t (w_db s)))"
  proof -
    have "still_moving (map mv_id ops) m" 
      unfolding still_moving_def using assms(4) imageI [OF assms(5), of mv_id] assms(6) by simp
    then show ?thesis using in_updateI [OF assms(3), of "still_moving (map mv_id ops)"] by (force simp: mark_sent_def)
  qed
  then have "retry_row (Suc (mv_attempts op)) e True t ?m
      \<in> set (moves (fold (\<lambda>op. retry_move op e True t) ops (mark_sent (map mv_id ops) t (w_db s))))"
    by (rule retry_own) (use assms in simp_all)
  then show ?thesis
    unfolding run fold_retry_unclear by (simp add: sent_state_def logged_def retry_msgs retry_row_def mark_sent_def)
qed

theorem lost_answer_undoes_nothing_witness:
  "msgs (w_db (snd (runGroup (ex_mailbox\<lparr>mb_move := (\<lambda>f d us. Broken ''timeout'')\<rparr>) ''a'' 7 [ex_op] ex_world))) = [ex_letter]"
  using lost_answer_undoes_nothing [of "ex_mailbox\<lparr>mb_move := (\<lambda>f d us. Broken ''timeout'')\<rparr>" "[ex_op]" "''timeout''" ex_op ex_world ex_op "''a''" 7]
  by (simp add: ex_op_def ex_world_def)


section \<open>Held folders\<close>

text \<open>What a step of a run adds to the MOVEs sent, with the holds as they are.\<close>

definition sends_only :: "(effect \<Rightarrow> bool) \<Rightarrow> mw \<Rightarrow> mw \<Rightarrow> bool" where
  "sends_only p s s' \<longleftrightarrow> w_holds s' = w_holds s \<and> (\<exists>es. sends s' = sends s @ es \<and> list_all p es)"

lemma sends_only_trans: "sends_only p a b \<Longrightarrow> sends_only p b c \<Longrightarrow> sends_only p a c"
  unfolding sends_only_def by (metis append.assoc list_all_append)

lemma sends_onlyI: "w_holds s' = w_holds s \<Longrightarrow> sends s' = sends s \<Longrightarrow> sends_only p s s'"
  by (simp add: sends_only_def)

lemma sends_only_ends: "ends s gone s' \<Longrightarrow> sends_only p s s'"
  by (simp add: sends_onlyI ends_def)

lemma sends_only_core: "same_core s s' \<Longrightarrow> sends_only p s s'"
  by (simp add: sends_onlyI same_core_def)

lemma sends_only_fold: "(\<And>x s. sends_only p s (f x s)) \<Longrightarrow> sends_only p s (fold f xs s)"
proof (induction xs arbitrary: s)
  case (Cons x xs)
  have "sends_only p (f x s) (fold f xs (f x s))" by (rule Cons.IH) (rule Cons.prems)
  then show ?case using sends_only_trans [OF Cons.prems [of s x]] by simp
qed (simp add: sends_onlyI)

text \<open>Nothing after the MOVE of a group sends another.\<close>

lemma runGroup_sends: "sends_only ((=) (SendMove (mv_src_folder (hd ops)) (mv_dest (hd ops)) (source_uids ops)))
    s (snd (runGroup mb account t ops s))"
proof -
  let ?e = "SendMove (mv_src_folder (hd ops)) (mv_dest (hd ops)) (source_uids ops)" and ?s1 = "sent_state ops t s"
  have "sends_only ((=) ?e) s ?s1" by (simp add: sends_only_def sent_state_def logged_def sends_def)
  then show ?thesis using runGroup_ends sends_only_trans [OF _ sends_only_ends] by blast
qed

lemma lookup_sends:
  "sends_only p s (lookup_failed op t s)"
  "sends_only p s (expect op s)"
  "sends_only p s (revert_into op r t s)"
  "sends_only p s (unexpect op (s\<lparr>w_db := db\<rparr>))"
  "sends_only p s (snd (goneFromSource mb account op t s))"
proof -
  show "sends_only p s (lookup_failed op t s)"
    using sends_only_ends [OF op_ends(3)] by (simp add: lookup_failed_def sends_onlyI sends_def)
  show "sends_only p s (expect op s)" by (rule sends_only_core) (rule core_expect)
  show "sends_only p s (revert_into op r t s)" by (rule sends_only_ends) (rule op_ends(2))
  show "sends_only p s (unexpect op (s\<lparr>w_db := db\<rparr>))"
    using core_unexpect [of "s\<lparr>w_db := db\<rparr>" op] by (simp add: sends_only_def same_core_def sends_def)
  show "sends_only p s (snd (goneFromSource mb account op t s))"
    using gone_ends [of mb account op t s] sends_only_ends by (auto simp: sends_onlyI)
qed

lemma resolve_sends: "sends_only p s (snd (snd (resolve_loop mb account t ops xs s)))"
proof (induction ops arbitrary: xs s)
  case (Cons op ops)
  note nx = sends_only_trans [OF lookup_sends(2) [of p s op]]
  note IH = sends_only_trans [OF _ Cons.IH]
  obtain g s2 where g: "goneFromSource mb account op t (expect op s) = (g, s2)" by (rule prod.exhaust)
  have s2: "sends_only p (expect op s) s2" using lookup_sends(5) [of p "expect op s"] g by (metis snd_conv)
  have ended: "sends_only p s s2" by (rule nx) (rule s2)
  have gone: "sends_only p s (snd (snd (case (g, s2) of
      (Busy, s2) \<Rightarrow> (True, xs, s2)
    | (Broken _, s2) \<Rightarrow> resolve_loop mb account t ops xs (lookup_failed op t s2)
    | (Answer (Some x), s2) \<Rightarrow> resolve_loop mb account t ops (if st_row x = None then xs else xs @ [x]) s2
    | (Answer None, s2) \<Rightarrow> resolve_loop mb account t ops xs s2)))"
    using ended IH [OF ended] IH [OF sends_only_trans [OF ended lookup_sends(1)]]
    by (cases g) (simp_all split: option.splits)
  show ?case
    using Cons.IH lookup_sends(2) IH [OF nx [OF lookup_sends(1)]] IH [OF nx [OF lookup_sends(3)]]
      IH [OF nx [OF lookup_sends(4)]] gone [folded g]
    by (auto simp: Let_def split: answer.splits)
qed (simp add: sends_onlyI)


definition unheld_send :: "string \<Rightarrow> mw \<Rightarrow> effect \<Rightarrow> bool" where
  "unheld_send account s e = (case e of
     SendMove f d us \<Rightarrow> heldBy account f s = None \<and> heldBy account d s = None | _ \<Rightarrow> False)"

lemma run_groups_sends:
  assumes "\<And>ops. ops \<in> set groups \<Longrightarrow> p (SendMove (mv_src_folder (hd ops)) (mv_dest (hd ops)) (source_uids ops))"
  shows "sends_only p s (run_groups mb account t gates groups stopped s)"
  using assms
proof (induction groups arbitrary: gates stopped s)
  case (Cons ops groups)
  let ?e = "SendMove (mv_src_folder (hd ops)) (mv_dest (hd ops)) (source_uids ops)"
  have IH: "sends_only p s' (run_groups mb account t (tl gates) groups b s')" for b s' by (rule Cons.IH) (simp add: Cons.prems)
  obtain b s1 where g: "runGroup mb account t ops s = (b, s1)" by (rule prod.exhaust)
  have "sends_only ((=) ?e) s s1" using runGroup_sends [of ops s mb account t] g by simp
  then have 1: "sends_only p s s1" using Cons.prems [of ops] by (auto simp: sends_only_def list_all_iff)
  have 2: "sends_only p s (release_ops ops t s)" by (rule sends_only_ends) (rule op_ends(4))
  show ?case
    using run_groups_Cons [OF g] sends_only_trans [OF 1 IH [of s1 b]] sends_only_trans [OF 2 IH [of "release_ops ops t s" True]] by metis
qed (simp add: sends_onlyI)

lemma notify_sends: "sends_only p s (notifyReverted account s)"
  unfolding notifyReverted_def
  by (rule sends_onlyI) (auto simp: sends_def logged_def filter_empty_conv split: prod.splits)


lemma claimed_account:
  assumes inv: "mq_inv db" and "op \<in> set (fst (claim_moves account lk t db))"
  shows "mv_account op = account"
proof -
  obtain m where m: "m \<in> set (moves db)" "mv_id m \<in> set (due_moves account lk t db)" "mv_account op = mv_account m"
    using assms(2) by (auto simp: claim_moves_def Let_def sql_returning_def)
  then obtain x where "x \<in> set (moves db)" "mv_id x = mv_id m" "mv_account x = account"
    by (auto simp: due_moves_def dest!: in_set_takeD)
  then show ?thesis using move_eq [OF mq_invD(2) [OF inv] _ m(1)] m(3) by metis
qed

lemma runClaimed_sends:
  assumes "\<And>op. op \<in> set claimed \<Longrightarrow> mv_account op = account"
  shows "sends_only (unheld_send account s) s (runClaimed mb account gates t claimed s)"
proof -
  let ?s1 = "release_ops (filter (opHeld s) claimed) t s"
  let ?ops = "sort_key mv_id (filter (\<lambda>op. \<not> opHeld ?s1 op) claimed)"
  let ?groups = "map snd (group_by (\<lambda>op. (mv_src_folder op, mv_dest op)) ?ops)"
  have 1: "sends_only (unheld_send account s) s ?s1" by (rule sends_only_ends) (rule op_ends(4))
  have "same_core ?s1 (fold expect ?ops ?s1)" by (rule same_core_fold) (rule core_expect)
  then have 2: "sends_only (unheld_send account s) s (fold expect ?ops ?s1)" by (rule sends_only_trans [OF 1 sends_only_core])
  have "sends_only (unheld_send account s) (fold expect ?ops ?s1)
      (run_groups mb account t gates ?groups False (fold expect ?ops ?s1))"
  proof (rule run_groups_sends)
    fix ops assume "ops \<in> set ?groups"
    then obtain k where "(k, ops) \<in> set (group_by (\<lambda>op. (mv_src_folder op, mv_dest op)) ?ops)" by auto
    from group_by_in [OF this] have "hd ops \<in> set ops" "set ops \<subseteq> set ?ops" by simp_all
    then have op: "hd ops \<in> set claimed" "\<not> opHeld ?s1 (hd ops)" by auto
    have "w_holds ?s1 = w_holds s" using 1 by (simp add: sends_only_def)
    then show "unheld_send account s (SendMove (mv_src_folder (hd ops)) (mv_dest (hd ops)) (source_uids ops))"
      using op assms [OF op(1)] by (simp add: unheld_send_def opHeld_def heldBy_def)
  qed
  then show ?thesis using sends_only_trans [OF 2] by (simp add: runClaimed_def Let_def)
qed

lemma unheld_send_holds: "w_holds s' = w_holds s \<Longrightarrow> unheld_send account s' = unheld_send account s"
  by (auto simp: unheld_send_def heldBy_def fun_eq_iff split: effect.split)

text \<open>A run never sends a MOVE into or out of a folder that is being emptied, renamed or deleted:
  every MOVE it adds has a source and a destination that no hold of the account covers, a held
  folder's subfolders included, and the holds themselves are as they were.\<close>

theorem held_folders_see_no_move:
  assumes "imap_uids mb" and "mq_inv (w_db s)"
  shows "w_holds (runAccountOnce mb account gates lk t s) = w_holds s
    \<and> (\<exists>es. sends (runAccountOnce mb account gates lk t s) = sends s @ es \<and> list_all (unheld_send account s) es)"
proof (cases "gates = [] \<or> \<not> hd gates")
  case True
  then show ?thesis by (simp add: runAccountOnce_def)
next
  case False
  obtain busy s1 where r: "resolveAwaiting mb account t s = (busy, s1)" by (rule prod.exhaust)
  obtain claimed db where c: "claim_moves account lk t (w_db s1) = (claimed, db)" by (rule prod.exhaust)
  let ?p = "unheld_send account s" and ?s2 = "s1\<lparr>w_db := db\<rparr>"
  have 1: "sends_only ?p s s1"
    using resolve_sends [of ?p s mb account t "awaiting_due account t (w_db s)" "[]"] r core_storeSettledFlags
    by (auto simp: resolveAwaiting_def any_needs_ids_def sends_only_def same_core_def sends_def logged_def split: prod.splits)
  have inv: "mq_inv (w_db s1)" using path_inv [OF resolve_path [OF assms(1)] assms(2), of account t] r by simp
  have own: "mv_account op = account" if "op \<in> set claimed" for op
    using claimed_account [OF inv, of op account lk t] c that by simp
  have "sends_only (unheld_send account ?s2) ?s2 (runClaimed mb account (tl gates) t claimed ?s2)"
    by (rule runClaimed_sends) (rule own)
  then have "sends_only ?p s1 (runClaimed mb account (tl gates) t claimed ?s2)"
    using unheld_send_holds [of ?s2 s account] 1 by (simp add: sends_only_def sends_def)
  then have "sends_only ?p s (notifyReverted account (if busy then s1 else runClaimed mb account (tl gates) t claimed ?s2))"
    using sends_only_trans [OF sends_only_trans [OF 1] notify_sends] sends_only_trans [OF 1 notify_sends] by simp
  then show ?thesis using False by (simp add: runAccountOnce_def r c sends_only_def split: if_splits)
qed

lemma ex_mailbox_uids: "imap_uids ex_mailbox"
  by (auto simp: imap_uids_def ex_mailbox_def)

definition ex_queued :: mw where
  "ex_queued = ex_world\<lparr>w_db := ex_moved, w_holds := [\<lparr>hl_account = ''a'', hl_path = ''Work'', hl_prefix = None, hl_empty = False\<rparr>]\<rparr>"

lemma ex_queued_inv: "mq_inv (w_db ex_queued)"
  using reachable_ok [OF ex_moved_reachable] by (simp add: mq_ok_def ex_queued_def)

theorem held_folders_see_no_move_witness:
  "\<exists>es. sends (runAccountOnce ex_mailbox ''a'' [True, True] (\<lambda>_. False) 9 ex_queued) = es
    \<and> list_all (unheld_send ''a'' ex_queued) es"
  using held_folders_see_no_move [OF ex_mailbox_uids ex_queued_inv, of "''a''" "[True, True]" "\<lambda>_. False" 9]
  by (simp add: ex_queued_def ex_world_def sends_def)

text \<open>C19: Every operation of the move queue refines the protocol of single statements: from any state
  an interleaving of statements can reach, a run of a mailbox (with any gates, locked rows and
  answers of the mailbox), a route's enqueue and a letter that arrives end in a state such an
  interleaving reaches, so what holds of every reachable state holds after each of them.\<close>

theorem worker_refines_the_protocol:
  assumes "imap_uids mb" and "u > 0" and "mq_reachable start X" and "mq_db X = w_db s"
  shows "(\<exists>Y. mq_reachable start Y \<and> mq_db Y = w_db (runAccountOnce mb account gates lk t s))
    \<and> (\<exists>Y. mq_reachable start Y \<and> mq_db Y = w_db (snd (enqueue n account rows dest drop_row by_user t s)))
    \<and> (\<exists>Y. mq_reachable start Y \<and> mq_db Y = w_db (snd (claimArrival mb account f mid u t s)))"
  using path_reachable [OF run_path [OF assms(1)] assms(3,4)] path_reachable [OF enqueue_path assms(3,4)]
    path_reachable [OF arrival_path [OF assms(2)] assms(3,4)] by blast

theorem worker_refines_the_protocol_witness:
  "\<exists>Y. mq_reachable ex_start Y \<and> mq_db Y = w_db (runAccountOnce ex_mailbox ''a'' [True, True] (\<lambda>_. False) 9 ex_queued)"
  using worker_refines_the_protocol [OF ex_mailbox_uids zero_less_one ex_moved_reachable, of ex_queued]
  by (simp add: ex_queued_def)

section \<open>Flag changes made while a letter moved\<close>


text \<open>A flag of a row reached the server, or waits in the queue of flag stores.\<close>

definition flag_kept :: "mailbox \<Rightarrow> string \<Rightarrow> folder \<Rightarrow> int \<Rightarrow> flag \<Rightarrow> bool \<Rightarrow> mw \<Rightarrow> bool" where
  "flag_kept mb i f u fl v s \<longleftrightarrow>
     list_ex (\<lambda>e. case e of StoreFlags f' us fl' v' \<Rightarrow> f' = f \<and> u \<in> set us \<and> fl' = fl \<and> v' = v \<and> mb_store mb f us fl v | _ \<Rightarrow> False) (w_log s)
     \<or> map_of (w_pushes s) (i, fl) = Some v"

lemma map_of_others: "k' \<noteq> k \<Longrightarrow> map_of (filter (\<lambda>p. fst p \<noteq> k) ps) k' = map_of ps k'"
  by (induction ps) auto

lemma fold_pushes_log:
  "w_log (fold (\<lambda>x. push_flag (g x) fl v) xs s) = w_log s"
  "w_log (fold (\<lambda>x. resolve_push (g x) fl) xs s) = w_log s"
  by (induction xs arbitrary: s) (simp_all add: push_flag_def resolve_push_def)

lemma fold_push:
  "map_of (w_pushes (fold (\<lambda>x. push_flag (g x) fl v) xs s)) (i, fl')
     = (if fl' = fl \<and> i \<in> g ` set xs then Some v else map_of (w_pushes s) (i, fl'))"
proof (induction xs arbitrary: s)
  case (Cons x xs)
  have "map_of (w_pushes (push_flag (g x) fl v s)) (i, fl') = (if (i, fl') = (g x, fl) then Some v else map_of (w_pushes s) (i, fl'))"
    by (simp add: push_flag_def map_of_others)
  then show ?case using Cons [of "push_flag (g x) fl v s"] by auto
qed simp

lemma fold_resolve:
  "fl' \<noteq> fl \<or> i \<notin> g ` set xs \<Longrightarrow>
     map_of (w_pushes (fold (\<lambda>x. resolve_push (g x) fl) xs s)) (i, fl') = map_of (w_pushes s) (i, fl')"
proof (induction xs arbitrary: s)
  case (Cons x xs)
  then have "map_of (w_pushes (resolve_push (g x) fl s)) (i, fl') = map_of (w_pushes s) (i, fl')"
    by (auto simp: resolve_push_def map_of_others)
  then show ?case using Cons.IH [of "resolve_push (g x) fl s"] Cons.prems by auto
qed simp

text \<open>A group stores what it is for, and leaves what another group is for.\<close>

lemma store_group_makes:
  assumes "(x, r) \<in> set ys"
  shows "flag_kept mb (ms_id r) f (st_uid x) fl v (store_group mb fl v (f, ys) s)"
proof -
  let ?us = "map (\<lambda>x. st_uid (fst x)) ys"
  have 1: "st_uid x \<in> set ?us" "ms_id r \<in> (\<lambda>x. ms_id (snd x)) ` set ys" using assms by force+
  show ?thesis
    using 1 by (simp add: flag_kept_def store_group_def Let_def fold_push fold_pushes_log logged_def list_ex_append)
qed

lemma store_group_keeps:
  assumes "flag_kept mb i f u fl v s" and "fl' \<noteq> fl \<or> i \<notin> (\<lambda>y. ms_id (snd y)) ` set (snd g)"
  shows "flag_kept mb i f u fl v (store_group mb fl' v' g s)"
proof -
  obtain h ys where g: "g = (h, ys)" by (rule prod.exhaust)
  have log: "w_log (store_group mb fl' v' g s) = w_log s @ [StoreFlags h (map (\<lambda>x. st_uid (fst x)) ys) fl' v']"
    by (simp add: g store_group_def Let_def fold_pushes_log logged_def)
  have "map_of (w_pushes (store_group mb fl' v' g s)) (i, fl) = map_of (w_pushes s) (i, fl)"
    using assms(2) by (auto simp: g store_group_def Let_def logged_def fold_push fold_resolve)
  then show ?thesis using assms(1) log by (auto simp: flag_kept_def list_ex_append)
qed

lemma store_groups_keep:
  assumes "flag_kept mb i f u fl v s" and "\<And>g. g \<in> set gs \<Longrightarrow> fl' \<noteq> fl \<or> i \<notin> (\<lambda>y. ms_id (snd y)) ` set (snd g)"
  shows "flag_kept mb i f u fl v (fold (store_group mb fl' v') gs s)"
  using assms
proof (induction gs arbitrary: s)
  case (Cons g gs)
  have "flag_kept mb i f u fl v (store_group mb fl' v' g s)" by (rule store_group_keeps [OF Cons.prems(1)]) (rule Cons.prems(2), simp)
  then have "flag_kept mb i f u fl v (fold (store_group mb fl' v') gs (store_group mb fl' v' g s))"
    by (rule Cons.IH) (rule Cons.prems(2), simp)
  then show ?case by simp
qed simp

lemma with_rows_in: "(x, r) \<in> set (with_rows xs) \<longleftrightarrow> x \<in> set xs \<and> st_row x = Some r"
  by (force simp: with_rows_def List.map_filter_def)

lemma store_value_makes:
  assumes one: "\<And>y q. y \<in> set xs \<Longrightarrow> st_row y = Some q \<Longrightarrow> ms_id q = ms_id r \<Longrightarrow> y = x"
    and x: "x \<in> set xs" "st_row x = Some r" "flag_of fl (st_op x) = Some v"
  shows "flag_kept mb (ms_id r) (st_folder x) (st_uid x) fl v (store_value mb xs (fl, v) s)"
proof -
  let ?key = "\<lambda>x :: settled \<times> msg. st_folder (fst x)" and ?rows = "filter (\<lambda>x. flag_of fl (st_op (fst x)) = Some v) (with_rows xs)"
  have "(x, r) \<in> set ?rows" using x by (simp add: with_rows_in)
  then obtain ys where ys: "(st_folder x, ys) \<in> set (group_by ?key ?rows)" "(x, r) \<in> set ys"
    using group_by_has [of "(x, r)" ?rows ?key] by auto
  then obtain as bs where split: "group_by ?key ?rows = as @ (st_folder x, ys) # bs" by (meson split_list)
  have "flag_kept mb (ms_id r) (st_folder x) (st_uid x) fl v
      (fold (store_group mb fl v) bs (store_group mb fl v (st_folder x, ys) (fold (store_group mb fl v) as s)))"
  proof (rule store_groups_keep [OF store_group_makes [OF ys(2)]], intro disjI2 notI)
    fix g assume g: "g \<in> set bs" "ms_id r \<in> (\<lambda>y. ms_id (snd y)) ` set (snd g)"
    then obtain y q where y: "(y, q) \<in> set (snd g)" "ms_id q = ms_id r" by force
    have "(fst g, snd g) \<in> set (group_by ?key ?rows)" using g(1) split by simp
    from group_by_in [OF this] have "(y, q) \<in> set ?rows" "st_folder y = fst g" using y(1) by (blast, force)
    then have "fst g = st_folder x" using one [of y q] y(2) by (simp add: with_rows_in)
    moreover have "st_folder x \<notin> fst ` set bs" using group_by_distinct [of ?key ?rows] split by simp
    ultimately show False using g(1) by (metis image_eqI)
  qed
  then show ?thesis by (simp add: store_value_def split)
qed

lemma store_value_keeps:
  assumes one: "\<And>y q. y \<in> set xs \<Longrightarrow> st_row y = Some q \<Longrightarrow> ms_id q = i \<Longrightarrow> y = x"
    and "flag_kept mb i f u fl v s" and "flag_of fl (st_op x) = Some v" and "fv \<noteq> (fl, v)"
  shows "flag_kept mb i f u fl v (store_value mb xs fv s)"
proof -
  obtain fl' v' where fv: "fv = (fl', v')" by (rule prod.exhaust)
  let ?key = "\<lambda>x :: settled \<times> msg. st_folder (fst x)" and ?rows = "filter (\<lambda>x. flag_of fl' (st_op (fst x)) = Some v') (with_rows xs)"
  have "flag_kept mb i f u fl v (fold (store_group mb fl' v') (group_by ?key ?rows) s)"
  proof (rule store_groups_keep [OF assms(2)])
    fix g assume g: "g \<in> set (group_by ?key ?rows)"
    show "fl' \<noteq> fl \<or> i \<notin> (\<lambda>y. ms_id (snd y)) ` set (snd g)"
    proof (intro disjCI notI)
      assume "\<not> i \<notin> (\<lambda>y. ms_id (snd y)) ` set (snd g)" and same: "fl' = fl"
      then obtain y q where y: "(y, q) \<in> set (snd g)" "ms_id q = i" by force
      have "(fst g, snd g) \<in> set (group_by ?key ?rows)" using g by simp
      from group_by_in [OF this] have "(y, q) \<in> set ?rows" using y(1) by blast
      then have "flag_of fl (st_op x) = Some v'" using one [of y q] y(2) same by (auto simp: with_rows_in)
      then show False using assms(3,4) same fv by simp
    qed
  qed
  then show ?thesis by (simp add: fv store_value_def)
qed

text \<open>C21: A read or star change made while a letter moved is not lost when a group ends by storing the changes: for
  every settled move that took a row and carries a flag, the flag was stored on the server at the
  letter's new folder and uid, or it waits for the row in the queue of flag stores.\<close>

theorem settled_flags_are_kept:
  assumes "distinct (map (\<lambda>(x, r). ms_id r) (with_rows xs))"
    and x: "x \<in> set xs" "st_row x = Some r" "flag_of fl (st_op x) = Some v"
  shows "flag_kept mb (ms_id r) (st_folder x) (st_uid x) fl v (storeSettledFlags mb xs s)"
proof -
  have one: "y = x" if y: "y \<in> set xs" "st_row y = Some q" "ms_id q = ms_id r" for y q
    using inj_onD [OF conjunct2 [OF assms(1) [unfolded distinct_map]], of "(y, q)" "(x, r)"] y x by (simp add: with_rows_in)
  have in_values: "(fl, v) \<in> set flag_values" by (cases fl; cases v) (simp_all add: flag_values_def)
  then obtain as bs where split: "flag_values = as @ (fl, v) # bs" by (meson split_list)
  have after: "(fl, v) \<notin> set bs"
  proof -
    have "distinct (as @ (fl, v) # bs)" unfolding split [symmetric] by (simp add: flag_values_def)
    then show ?thesis by simp
  qed
  have "flag_kept mb (ms_id r) f u fl v s \<Longrightarrow> (fl, v) \<notin> set gs
      \<Longrightarrow> flag_kept mb (ms_id r) f u fl v (fold (store_value mb xs) gs s)" for gs s f u
  proof (induction gs arbitrary: s)
    case (Cons fv gs)
    have "flag_kept mb (ms_id r) f u fl v (store_value mb xs fv s)"
      using store_value_keeps [of xs "ms_id r" x mb f u fl v s fv] one Cons.prems x(3) by fastforce
    then show ?case using Cons by simp
  qed simp
  then show ?thesis
    using store_value_makes [OF one x] after by (simp add: storeSettledFlags_def split)
qed


definition ex_settled :: settled where
  "ex_settled = \<lparr>st_op = ex_op, st_next = None, st_row = Some ex_letter, st_uid = 105, st_folder = ''Archive'', st_needs_ids = True\<rparr>"

theorem settled_flags_are_kept_witness:
  "flag_kept ex_mailbox ''r'' ''Archive'' 105 Seen True (storeSettledFlags ex_mailbox [ex_settled] ex_world)"
  using settled_flags_are_kept [of "[ex_settled]" ex_settled ex_letter Seen True ex_mailbox ex_world]
  by (simp add: with_rows_def List.map_filter_def ex_settled_def ex_letter_def ex_op_def)

text \<open>A second move of the group, which the server does not report as moved.\<close>

definition ex_stays :: move where
  "ex_stays = ex_op\<lparr>mv_id := 2, mv_row := ''q'', mv_src_uid := Some 6, mv_seen := None\<rparr>"

definition ex_busy_check :: mailbox where
  "ex_busy_check = ex_mailbox\<lparr>mb_move := (\<lambda>f d us. Answer \<lparr>oc_succeeded = [5], oc_failed = [6], oc_uids = (\<lambda>u. Some 105), oc_retained = []\<rparr>),
     mb_present := (\<lambda>f us. Busy)\<rparr>"

text \<open>One path of a group forgets them: when the server moved some letters of the group and not
  others, and the mailbox then gives no session for the source check, the group ends there. A letter
  already settled, here read by the user while it moved, has its move gone and its row at the new
  place, but the change is neither stored on the server nor queued.\<close>

theorem busy_source_check_forgets_flags:
  "(case runGroup ex_busy_check ''a'' 7 [ex_op, ex_stays]
       (ex_world\<lparr>w_db := \<lparr>msgs = [ex_letter], moves = [ex_op, ex_stays], next_move = 3\<rparr>\<rparr>) of (busy, s) \<Rightarrow>
     busy \<and> move_of (w_db s) 1 = None \<and> map_option ms_uid (msg_of (w_db s) ''r'') = Some 105
     \<and> mv_seen ex_op = Some True \<and> \<not> flag_kept ex_busy_check ''r'' ''Archive'' 105 Seen True s)"
  by code_simp


section \<open>The routes' enqueue ends\<close>

text \<open>A row that is where the server has it is moved at once: nothing is left for another round.\<close>

lemma enqueue_at_once:
  assumes inv: "mq_inv (w_db s)" and r: "msg_of (w_db s) i = Some r" "ms_account r = account" "ms_folder r \<noteq> dest"
    "\<not> isPendingUid (ms_uid r)" "\<not> ms_claimed r"
  shows "enqueue (Suc n) account [(ms_id r, ms_uid r, ms_folder r)] dest drop_row by_user t s
    = enqueue (Suc m) account [(ms_id r, ms_uid r, ms_folder r)] dest drop_row by_user t s"
proof -
  have in_db: "r \<in> set (msgs (w_db s))" using msg_of_SomeD [OF r(1)] by simp
  have "ms_uid r > 0" using mq_invD(9) [OF inv in_db] r(4) by (simp add: isPendingUid_def)
  then have "movable account [ms_id r] dest r" using r by (simp add: movable_def)
  from filter_one [OF mq_invD(1) [OF inv] in_db this]
  have "filter (movable account [ms_id r] dest) (msgs (w_db s)) = [r]" .
  then show ?thesis using r(4) by (simp add: enqueue_fresh_def Let_def new_move_def)
qed

lemma enqueuePending_same:
  assumes "mq_inv (w_db s)"
  shows "enqueuePending (\<lambda>rs. enqueue (Suc n) account rs dest drop_row by_user t) account i dest drop_row by_user t s
    = enqueuePending (\<lambda>rs. enqueue (Suc m) account rs dest drop_row by_user t) account i dest drop_row by_user t s"
proof -
  have "enqueue (Suc n) account [(ms_id r, ms_uid r, ms_folder r)] dest drop_row by_user t s
      = enqueue (Suc m) account [(ms_id r, ms_uid r, ms_folder r)] dest drop_row by_user t s"
    if "msg_of (w_db s) i = Some r" "\<not> ms_account r \<noteq> account" "ms_folder r \<noteq> dest" "\<not> (isPendingUid (ms_uid r) \<or> ms_claimed r)" for r
    using enqueue_at_once [OF assms that(1)] that by simp
  then show ?thesis
    unfolding enqueuePending_def
    by (intro prod.case_cong sum.case_cong unit.case_cong option.case_cong if_cong refl) simp_all
qed

lemma enqueue_rest_same:
  assumes "\<And>i s. mq_inv (w_db s) \<Longrightarrow> one i s = one' i s" and "\<And>i s. some_path s (snd (one i s))" and "mq_inv (w_db s)"
  shows "enqueue_rest one is s = enqueue_rest one' is s"
  using assms(3)
proof (induction "is" arbitrary: s)
  case (Cons i rest)
  obtain x s1 where one: "one i s = (x, s1)" by (rule prod.exhaust)
  have "mq_inv (w_db s1)" using path_inv [OF assms(2) Cons.prems, of i] one by simp
  then have "enqueue_rest one rest s1 = enqueue_rest one' rest s1" by (rule Cons.IH)
  moreover have "one' i s = (x, s1)" using assms(1) [OF Cons.prems, of i] one by simp
  ultimately show ?case using one by (cases x) (auto split: prod.split)
qed simp

text \<open>The routes' enqueue and its handling of a row that settled meanwhile call each other, and the
  calls end: a second round finds each row where the server has it and moves it at once, so two rounds
  give the result of any deeper recursion, from every state that keeps the tables' invariant.\<close>

theorem enqueue_takes_two_rounds:
  assumes "mq_inv (w_db s)"
  shows "enqueue (Suc (Suc n)) account rows dest drop_row by_user t s = enqueue 2 account rows dest drop_row by_user t s"
proof -
  let ?one = "\<lambda>n i. enqueuePending (\<lambda>rs. enqueue (Suc n) account rs dest drop_row by_user t) account i dest drop_row by_user t"
  have paths: "some_path s (snd (?one n i s))" for n i s by (rule pending_path) (rule enqueue_path)
  have rest: "enqueue_rest (?one n) is s' = enqueue_rest (?one 0) is s'" if "mq_inv (w_db s')" for n "is" s'
    by (rule enqueue_rest_same [OF enqueuePending_same paths that])
  let ?ids = "map fst (filter (\<lambda>(_, u, _). \<not> isPendingUid u) (filter (\<lambda>(_, _, f). heldBy account f s = None) rows))"
  obtain created db where e: "(if ?ids = [] then ([], w_db s) else enqueue_fresh account ?ids dest drop_row by_user t (w_db s)) = (created, db)"
    by (rule prod.exhaust)
  have "mq_inv db" using assms mq_inv_enqueue [OF assms, of account ?ids dest drop_row by_user t] e by (auto split: if_splits)
  then have inv: "mq_inv (w_db (s\<lparr>w_db := db\<rparr>))" by simp
  show ?thesis
    unfolding numeral_2_eq_2 enqueue.simps(2) [of "Suc n"] enqueue.simps(2) [of "Suc 0"] Let_def e prod.case rest [OF inv, of n] ..
qed

theorem enqueue_takes_two_rounds_witness:
  "enqueue 5 ''a'' [(''r'', 7, ''INBOX'')] ''Archive'' False None 9 ex_queued = enqueue 2 ''a'' [(''r'', 7, ''INBOX'')] ''Archive'' False None 9 ex_queued"
  using enqueue_takes_two_rounds [OF ex_queued_inv, of 3] by (simp add: eval_nat_numeral)


section \<open>Guards\<close>

text \<open>The places the guards stand for, an occurrence per reference.\<close>

definition guarded_by :: "(nat \<times> string \<times> (folder \<times> int) list) list \<Rightarrow> (string \<times> folder \<times> int) multiset" where
  "guarded_by gs = (\<Sum>(i, account, places) \<leftarrow> gs. mset (map (Pair account) places))"

definition guards_exact :: "mw \<Rightarrow> bool" where
  "guards_exact s \<longleftrightarrow> distinct (map fst (w_guards s))
     \<and> mset (w_pending s) = guarded_by (w_guards s) + mset (w_linger s)"

lemma release_places:
  assumes "mset (w_pending s) = G + mset (map (Pair account) gs) + mset (w_linger s)"
  shows "mset (w_pending (fold (release_place linger account) gs s)) = G + mset (w_linger (fold (release_place linger account) gs s))
    \<and> w_guards (fold (release_place linger account) gs s) = w_guards s"
  using assms
proof (induction gs arbitrary: s)
  case (Cons g gs)
  let ?s = "release_place linger account g s"
  have "mset (w_pending ?s) = G + mset (map (Pair account) gs) + mset (w_linger ?s)"
    using Cons.prems by (simp add: release_place_def)
  moreover have "w_guards ?s = w_guards s" by (simp add: release_place_def)
  ultimately show ?case using Cons.IH [of ?s] by simp
qed simp

lemma guarded_by_removed:
  assumes "distinct (map fst gs)" and "map_of gs i = Some (account, places)"
  shows "guarded_by gs = guarded_by (filter (\<lambda>e. fst e \<noteq> i) gs) + mset (map (Pair account) places)"
  using assms
proof (induction gs)
  case (Cons e gs)
  show ?case
  proof (cases "fst e = i")
    case True
    then have "i \<notin> fst ` set gs" using Cons.prems(1) by simp
    then have "filter (\<lambda>e. fst e \<noteq> i) gs = gs" unfolding filter_id_conv by blast
    then show ?thesis using True Cons.prems(2) by (auto simp: guarded_by_def split: prod.splits)
  next
    case False
    then show ?thesis using Cons by (auto simp: guarded_by_def split: prod.splits)
  qed
qed simp

lemma unguard_exact:
  assumes "guards_exact s"
  shows "guards_exact (unguard i linger s) \<and> i \<notin> fst ` set (w_guards (unguard i linger s))"
proof (cases "map_of (w_guards s) i")
  case None
  then have "i \<notin> fst ` set (w_guards s)" by (simp add: map_of_eq_None_iff)
  then show ?thesis using None assms by (simp add: unguard_def)
next
  case (Some e)
  obtain account gs where e: "e = (account, gs)" by (rule prod.exhaust)
  let ?rest = "filter (\<lambda>e. fst e \<noteq> i) (w_guards s)" and ?s = "s\<lparr>w_guards := filter (\<lambda>e. fst e \<noteq> i) (w_guards s)\<rparr>"
  have "mset (w_pending ?s) = guarded_by ?rest + mset (map (Pair account) gs) + mset (w_linger ?s)"
    using assms guarded_by_removed [of "w_guards s" i account gs] Some e by (simp add: guards_exact_def)
  from release_places [OF this, of linger] show ?thesis
    using assms by (auto simp: unguard_def Some e guards_exact_def distinct_map_filter)
qed

text \<open>The places the syncs leave alone are exactly those of the moves that are guarded and of the
  source places that linger after a MOVE: guarding a move (again), unguarding it, at once or with its
  source lingering, and the end of a lingering keep the reference counts exact, so no place stays
  guarded for ever and none is released that another move still guards.\<close>

theorem guards_stay_exact:
  assumes "guards_exact s"
  shows "guards_exact (guard op s) \<and> guards_exact (unguard i linger s) \<and> guards_exact (linger_over g s)"
proof (intro conjI)
  have un: "guards_exact (unguard (mv_id op) False s) \<and> mv_id op \<notin> fst ` set (w_guards (unguard (mv_id op) False s))"
    by (rule unguard_exact [OF assms])
  then show "guards_exact (guard op s)"
    by (auto simp: guard_def Let_def guards_exact_def guarded_by_def)
  show "guards_exact (unguard i linger s)" using unguard_exact [OF assms] by simp
  show "guards_exact (linger_over g s)" using assms by (auto simp: linger_over_def guards_exact_def)
qed

theorem guards_stay_exact_witness: "guards_exact (linger_over (''a'', ''INBOX'', 5) (unguard 1 True (guard ex_op ex_world)))"
proof -
  have "guards_exact ex_world" by (simp add: guards_exact_def guarded_by_def ex_world_def)
  then have "guards_exact (guard ex_op ex_world)" using guards_stay_exact by blast
  then have "guards_exact (unguard 1 True (guard ex_op ex_world))" using guards_stay_exact by blast
  then show ?thesis using guards_stay_exact by blast
qed

end
