(* ===== verification/MoveLookups.thy ===== *)
theory MoveLookups
  imports MoveWorkerProperties
begin

text \<open>
  A MOVE that went out is not sent again before the letter was looked up: what a group, the lookups, a restart, the
  lease and a failed group do with a move that was sent.
\<close>

lemma stays_release: "stays_out i db \<Longrightarrow> i \<notin> set ids \<Longrightarrow> stays_out i (release_moves ids t db)"
  by (auto simp: stays_out_def release_moves_def still_moving_def elim!: in_updateE split: if_splits)

lemma stays_retry: "stays_out i db \<Longrightarrow> mv_id op \<noteq> i \<Longrightarrow> stays_out i (retry_move op err unclear t db)"
  by (auto simp: stays_out_def retry_move_def still_moving_def retry_row_def elim!: in_updateE split: if_splits)

lemma stays_requeue_other: "stays_out i db \<Longrightarrow> mv_id op \<noteq> i \<Longrightarrow> stays_out i (requeue_awaiting op t db)"
  by (auto simp: stays_out_def requeue_awaiting_def elim!: in_updateE split: if_splits)

lemma stays_only_db: "only_db s db s' \<Longrightarrow> stays_out i db \<Longrightarrow> stays_out i (w_db s')"
  by (simp add: only_db_def)

lemma stays_core: "same_core s s' \<Longrightarrow> stays_out i (w_db s') = stays_out i (w_db s)"
  by (simp add: same_core_def)

lemma stays_ops:
  assumes "stays_out i (w_db s)"
  shows "stays_out i (w_db (snd (settle_move op u at t s)))" "stays_out i (w_db (revert_into op r t s))" "stays_out i (w_db (drop_op op s))"
    "i \<notin> mv_id ` set ops \<Longrightarrow> stays_out i (w_db (release_ops ops t s))"
    "unclear \<or> mv_id op \<noteq> i \<Longrightarrow> stays_out i (w_db (retryLater op err unclear t s))"
    "stays_out i (w_db (lookup_failed op t s))"
proof -
  show "stays_out i (w_db (snd (settle_move op u at t s)))" by (rule stays_only_db [OF settle_move_db(1) stays_ends(1) [OF assms]])
  show "stays_out i (w_db (revert_into op r t s))" by (rule stays_only_db [OF revert_into_db stays_ends(2) [OF assms]])
  show drop: "stays_out i (w_db (drop_op op s))" by (rule stays_only_db [OF drop_op_db stays_ends(3) [OF assms]])
  show "stays_out i (w_db (release_ops ops t s))" if "i \<notin> mv_id ` set ops"
    by (rule stays_only_db [OF release_ops_db stays_release [OF assms]]) (use that in simp)
  show "stays_out i (w_db (retryLater op err unclear t s))" if "unclear \<or> mv_id op \<noteq> i"
    using that stays_states(6) [OF assms] stays_retry [OF assms] stays_ends(2) [OF assms]
    by (intro stays_only_db [OF retryLater_db]) auto
  show "stays_out i (w_db (lookup_failed op t s))" using drop stays_states(5) [OF assms] by (simp add: lookup_failed_def)
qed

lemma stays_gone: "stays_out i (w_db s) \<Longrightarrow> stays_out i (w_db (snd (goneFromSource mb account op t s)))"
  using stays_ops(1-3)
  by (auto simp: goneFromSource_def logged_def split: answer.split option.split prod.split) (metis snd_conv)+

section \<open>Groups\<close>

lemma moved_one_stays: "stays_out i (w_db (snd (snd a))) \<Longrightarrow> stays_out i (w_db (snd (snd (moved_one ops oc t u a))))"
proof -
  obtain xs w s where a: "a = (xs, w, s)" by (rule prod_cases3)
  assume "stays_out i (w_db (snd (snd a)))"
  then have s: "stays_out i (w_db s)" by (simp add: a)
  have "stays_out i (w_db s1)" if "settle_move op v None t s = (x, s1)" for op v x s1 using stays_ops(1) [OF s, of op v None t] that by simp
  then show ?thesis
    using stays_ops(3) [OF s] stays_states(4) [OF s] s by (auto simp: a moved_one_def split: option.split prod.split)
qed

lemma fold_stays:
  assumes "\<And>x a. x \<in> set xs \<Longrightarrow> P a \<Longrightarrow> P (f x a)" and "P a"
  shows "P (fold f xs a)"
  using assms by (induction xs arbitrary: a) simp_all

text \<open>The mailbox gave no session while a letter was looked for.\<close>

definition no_session :: "mailbox \<Rightarrow> bool" where
  "no_session mb \<longleftrightarrow> (\<exists>j fs mid. mb_find mb j fs mid = Busy)"

lemma gone_busy: "fst (goneFromSource mb account op t s) = Busy \<Longrightarrow> no_session mb"
  by (auto simp: goneFromSource_def locate_def no_session_def split: answer.splits option.splits prod.splits if_splits)

text \<open>
  The server answered that it did not move the letter of a move, and the check of the source found the letter still
  there, or the mailbox gave no session to find out.
\<close>

definition not_moved :: "mailbox \<Rightarrow> move list \<Rightarrow> nat \<Rightarrow> bool" where
  "not_moved mb ops i \<longleftrightarrow> (\<exists>oc u op. mb_move mb (mv_src_folder (hd ops)) (mv_dest (hd ops)) (source_uids ops) = Answer oc
     \<and> u \<in> set (oc_failed oc) \<and> by_uid ops u = Some op \<and> mv_id op = i
     \<and> (case mb_present mb (mv_src_folder (hd ops)) (oc_failed oc) of Busy \<Rightarrow> True | Broken _ \<Rightarrow> False | Answer there \<Rightarrow> u \<in> set there \<or> no_session mb))"

lemma failed_one_stays:
  assumes "stays_out i (w_db (snd (snd a)))" and "fst (snd a) \<longrightarrow> no_session mb"
    and none: "\<And>op. by_uid ops u = Some op \<Longrightarrow> mv_id op = i \<Longrightarrow> (case present of None \<Rightarrow> True | Some there \<Rightarrow> u \<notin> set there \<and> \<not> no_session mb)"
    and busy: "present = None \<longrightarrow> \<not> fst (snd a)"
  shows "stays_out i (w_db (snd (snd (failed_one mb account ops present dk t u a)))) \<and> (fst (snd (failed_one mb account ops present dk t u a)) \<longrightarrow> no_session mb)
    \<and> (present = None \<longrightarrow> \<not> fst (snd (failed_one mb account ops present dk t u a)))"
proof -
  obtain xs w s where a: "a = (xs, w, s)" by (rule prod_cases3)
  have s: "stays_out i (w_db s)" and w: "w \<longrightarrow> no_session mb" "present = None \<longrightarrow> \<not> w" using assms(1,2,4) by (simp_all add: a)
  show ?thesis
  proof (cases "by_uid ops u")
    case None
    then show ?thesis using s w by (simp add: a failed_one_def)
  next
    case op: (Some op)
    obtain g s1 where g: "goneFromSource mb account op t s = (g, s1)" by (rule prod.exhaust)
    have s1: "stays_out i (w_db s1)" using stays_gone [OF s, of mb account op t] g by simp
    have b: "no_session mb" if "g = Busy" using gone_busy [of mb account op t s] g that by simp
    have rel: "mv_id op \<noteq> i \<Longrightarrow> stays_out i (w_db x) \<Longrightarrow> stays_out i (w_db (release_ops [op] t x))" for x
      by (rule stays_ops(4)) simp_all
    note ends = stays_ops(2) [OF s] stays_ops(5) [OF s] stays_ops(5) [OF s1] rel [OF _ s] rel [OF _ s1]
    show ?thesis
    proof (cases "mv_id op = i")
      case False
      then show ?thesis
        using s1 b w ends by (auto simp: a op g failed_one_def split: option.splits answer.splits)
    next
      case True
      then show ?thesis
        using none [OF op True] s1 b w ends by (auto simp: a op g failed_one_def split: option.splits answer.splits)
    qed
  qed
qed

lemma fold_failed_stays:
  assumes "stays_out i (w_db s)"
    and none: "\<And>u op. u \<in> set us \<Longrightarrow> by_uid ops u = Some op \<Longrightarrow> mv_id op = i \<Longrightarrow> (case present of None \<Rightarrow> True | Some there \<Rightarrow> u \<notin> set there \<and> \<not> no_session mb)"
  shows "stays_out i (w_db (snd (snd (fold (failed_one mb account ops present dk t) us (xs, False, s)))))"
proof -
  let ?P = "\<lambda>a. stays_out i (w_db (snd (snd a))) \<and> (fst (snd a) \<longrightarrow> no_session mb) \<and> (present = None \<longrightarrow> \<not> fst (snd a))"
  have "?P (fold (failed_one mb account ops present dk t) us (xs, False, s))"
  proof (rule fold_stays)
    show "?P (xs, False, s)" using assms(1) by simp
  qed (use failed_one_stays none in blast)
  then show ?thesis by simp
qed

lemma finish_stays: "stays_out i (w_db (snd (finishGroup mb src dest oc w a))) = stays_out i (w_db (snd (snd a)))"
  using core_storeSettledFlags [of "snd (snd a)" mb "fst a"] by (simp add: finishGroup_def logged_def same_core_def)

lemma group_stays:
  assumes out: "stays_out i (w_db s)" and move: "mb_move mb (mv_src_folder (hd ops)) (mv_dest (hd ops)) (source_uids ops) \<noteq> Busy" and no: "\<not> not_moved mb ops i"
  shows "stays_out i (w_db (snd (runGroup mb account t ops s)))"
proof -
  let ?src = "mv_src_folder (hd ops)" and ?dest = "mv_dest (hd ops)" and ?s1 = "sent_state ops t s"
  have s1: "stays_out i (w_db ?s1)" using stays_states(3) [OF out] by (simp add: sent_state_def logged_def)
  show ?thesis
  proof (cases "mb_move mb ?src ?dest (source_uids ops)")
    case (Broken e)
    have "stays_out i (w_db (fold (\<lambda>op. retryLater op e True t) ops ?s1))"
      by (rule fold_stays [where P = "\<lambda>s. stays_out i (w_db s)"]) (simp_all add: stays_ops(5) s1)
    then show ?thesis using Broken by (simp add: runGroup_def Let_def sent_state_def)
  next
    case (Answer oc)
    let ?mv = "fold (moved_one ops oc t) (oc_succeeded oc) ([], False, ?s1)"
    obtain xs w s2 where m: "?mv = (xs, w, s2)" by (rule prod_cases3)
    have "stays_out i (w_db (snd (snd ?mv)))"
      by (rule fold_stays [where P = "\<lambda>a. stays_out i (w_db (snd (snd a)))"]) (simp_all add: moved_one_stays s1)
    then have s2: "stays_out i (w_db s2)" by (simp add: m)
    have none: "case mb_present mb ?src (oc_failed oc) of Busy \<Rightarrow> False | Broken _ \<Rightarrow> True | Answer there \<Rightarrow> u \<notin> set there \<and> \<not> no_session mb"
      if "u \<in> set (oc_failed oc)" "by_uid ops u = Some op" "mv_id op = i" for u op
      using no Answer that unfolding not_moved_def by (auto split: answer.splits)
    have rel: "stays_out i (w_db (release_ops (ops_of ops (oc_failed oc)) t s2))" if "mb_present mb ?src (oc_failed oc) = Busy"
    proof (rule stays_ops(4) [OF s2], rule notI)
      assume "i \<in> mv_id ` set (ops_of ops (oc_failed oc))"
      then obtain u op where "u \<in> set (oc_failed oc)" "by_uid ops u = Some op" "mv_id op = i" by (auto simp: ops_of_def List.map_filter_def)
      from none [OF this] that show False by simp
    qed
    have rest: "stays_out i (w_db (snd (snd (fold (failed_one mb account ops present dk t) (oc_failed oc) (xs, False, s2)))))"
      if "present = (case mb_present mb ?src (oc_failed oc) of Answer there \<Rightarrow> Some there | _ \<Rightarrow> None)" for present dk
      by (rule fold_failed_stays [OF s2]) (use none that in \<open>auto split: answer.splits\<close>)
    show ?thesis
      using Answer m s2 rel rest
      by (auto simp: runGroup_def Let_def sent_state_def [symmetric] finish_stays split: answer.split)
  qed (use move in simp)
qed

section \<open>Lookups\<close>

definition still_there :: "mailbox \<Rightarrow> move \<Rightarrow> bool" where
  "still_there mb op \<longleftrightarrow> (\<exists>there. mb_present mb (mv_src_folder op) (source_uids [op]) = Answer there \<and> there \<noteq> [])"

lemma lookups_stay:
  assumes "stays_out i (w_db s)" and "\<And>op. op \<in> set ops \<Longrightarrow> mv_id op = i \<Longrightarrow> \<not> still_there mb op"
  shows "stays_out i (w_db (snd (snd (resolve_loop mb account t ops xs s))))"
  using assms
proof (induction ops arbitrary: xs s)
  case (Cons op ops)
  have IH: "stays_out i (w_db s') \<Longrightarrow> stays_out i (w_db (snd (snd (resolve_loop mb account t ops xs' s'))))" for s' xs'
    by (rule Cons.IH) (simp_all add: Cons.prems)
  have e: "stays_out i (w_db (expect op s))" using Cons.prems(1) stays_core [OF core_expect] by blast
  have q: "stays_out i (w_db (unexpect op (expect op s\<lparr>w_db := requeue_awaiting op t (w_db (expect op s))\<rparr>)))" if "still_there mb op"
    using that Cons.prems(2) [of op] stays_requeue_other [OF e, of op t] stays_core [OF core_unexpect] by auto
  obtain g s2 where g: "goneFromSource mb account op t (expect op s) = (g, s2)" by (rule prod.exhaust)
  have s2: "stays_out i (w_db s2)" using stays_gone [OF e, of mb account op t] g by simp
  show ?case
    using e s2 IH [OF Cons.prems(1)] IH [OF stays_ops(6) [OF e]] IH [OF stays_ops(2) [OF e]] IH [OF stays_ops(6) [OF s2]] IH [OF s2] IH [OF q]
    by (auto simp: Let_def g still_there_def split: answer.split option.split)
qed simp

lemma resolve_stays:
  assumes "stays_out i (w_db s)" and "\<And>op. op \<in> set (awaiting_due account t (w_db s)) \<Longrightarrow> mv_id op = i \<Longrightarrow> \<not> still_there mb op"
  shows "stays_out i (w_db (snd (resolveAwaiting mb account t s)))"
proof -
  obtain b xs s1 where r: "resolve_loop mb account t (awaiting_due account t (w_db s)) [] s = (b, xs, s1)" by (rule prod_cases3)
  have "stays_out i (w_db (snd (snd (resolve_loop mb account t (awaiting_due account t (w_db s)) [] s))))" by (rule lookups_stay [OF assms])
  then have "stays_out i (w_db s1)" using r by simp
  then show ?thesis using core_storeSettledFlags [of s1 mb xs] by (simp add: resolveAwaiting_def r logged_def same_core_def)
qed


text \<open>A partial MOVE: the letter of \<open>ex_stays\<close> is still at its source, so it is queued again.\<close>

definition ex_partial :: mailbox where
  "ex_partial = ex_mailbox\<lparr>mb_move := (\<lambda>f d us. Answer \<lparr>oc_succeeded = [5], oc_failed = [6], oc_uids = (\<lambda>u. Some 105), oc_retained = []\<rparr>)\<rparr>"

definition ex_pair :: mw where
  "ex_pair = ex_world\<lparr>w_db := \<lparr>msgs = [], moves = [ex_op, ex_stays], next_move = 3\<rparr>\<rparr>"


end
