(* ===== verification/QueueProperties.thy ===== *)
theory QueueProperties
  imports JobWorker Claims
begin

text \<open>
  What the job queue promises of single operations: the order and size of a claim, a worker that is
  told to stop, the backoff, the clean-up. What holds of every interleaving is in
  \<open>AtMostOnce\<close>.
\<close>

section \<open>Claims\<close>

lemma due_ids_in: "i \<in> set (due_ids ks lim lk t db) \<Longrightarrow>
    \<exists>j\<in>set (jobs db). job_id j = i \<and> status j = Queued \<and> run_at j \<le> t \<and> job_kind j \<in> set ks \<and> \<not> lk i"
  by (auto simp: due_ids_def dest!: in_set_takeD)

lemma job_eq: "distinct (map job_id js) \<Longrightarrow> a \<in> set js \<Longrightarrow> b \<in> set js \<Longrightarrow> job_id a = job_id b \<Longrightarrow> a = b"
  by (auto simp: distinct_map dest: inj_onD)

lemma claim_rows:
  assumes "reg \<noteq> []" and "lim \<ge> 1"
  shows "fst (claimDueJobs reg lim lease uuid lk t db) = map (claimed_row uuid lease t)
      (filter (\<lambda>j. job_id j \<in> set (due_ids (map fst reg) lim lk t db)) (jobs db))"
  using assms by (simp add: claimDueJobs_def Let_def sql_returning_def)

lemma take_before:
  assumes "sorted_wrt R xs" and "x \<in> set (take n xs)" and "y \<in> set xs" and "y \<notin> set (take n xs)"
  shows "R x y"
proof -
  have "y \<in> set (drop n xs)"
    using assms(3,4) append_take_drop_id [of n xs] by (metis Un_iff set_append)
  moreover have "sorted_wrt R (take n xs @ drop n xs)" using assms(1) by simp
  ultimately show ?thesis using assms(2) unfolding sorted_wrt_append by blast
qed

text \<open>a claim takes at most as many jobs as it has slots for, each due, queued, of a kind the worker
  knows; and a job it leaves although it could have taken it is due no earlier than every job it took.\<close>

theorem claim_takes_the_longest_due:
  assumes ids: "distinct (map job_id (jobs db))" and claim: "claimDueJobs reg lim lease uuid lk t db = (rows, db')"
    and row: "row \<in> set rows"
  shows "length rows \<le> lim \<and> run_at row \<le> t \<and> jobKind reg (job_kind row) \<noteq> None \<and> status row = Running
    \<and> (\<forall>k\<in>set (jobs db). status k = Queued \<and> run_at k \<le> t \<and> jobKind reg (job_kind k) \<noteq> None \<and> \<not> lk (job_id k)
          \<and> job_id k \<notin> job_id ` set rows \<longrightarrow> due_key row \<le> due_key k)"
proof -
  let ?due = "filter (\<lambda>j. status j = Queued \<and> run_at j \<le> t \<and> job_kind j \<in> set (map fst reg) \<and> \<not> lk (job_id j)) (jobs db)"
  let ?first = "take lim (sort_key due_key ?due)"
  have ok: "reg \<noteq> []" "lim \<ge> 1" using claim row by (auto simp: claimDueJobs_def split: if_splits)
  have rows: "rows = map (claimed_row uuid lease t) (filter (\<lambda>j. job_id j \<in> job_id ` set ?first) (jobs db))"
    using claim_rows [OF ok, of lease uuid lk t db] claim by (simp add: due_ids_def)
  have firsts: "x \<in> set ?due" if "x \<in> set ?first" for x using in_set_takeD [OF that] by simp
  have only: "j \<in> set ?first" if j: "j \<in> set (jobs db)" "job_id j \<in> job_id ` set ?first" for j
  proof -
    obtain x where x: "x \<in> set ?first" "job_id x = job_id j" using j(2) by auto
    then have "x = j" using firsts [OF x(1)] by (intro job_eq [OF ids _ j(1)]) auto
    then show ?thesis using x by simp
  qed
  obtain j where j: "j \<in> set (jobs db)" "j \<in> set ?first" "row = claimed_row uuid lease t j"
    using row only unfolding rows by auto
  have "length rows \<le> length (map job_id ?first)"
    unfolding rows length_map [of "claimed_row uuid lease t"] by (rule length_filter_ids [OF ids]) simp
  then have len: "length rows \<le> lim" by simp
  have "due_key row \<le> due_key k"
    if k: "k \<in> set (jobs db)" "status k = Queued" "run_at k \<le> t" "jobKind reg (job_kind k) \<noteq> None" "\<not> lk (job_id k)"
      "job_id k \<notin> job_id ` set rows" for k
  proof -
    have all: "k \<in> set (sort_key due_key ?due)"
      using k by (auto simp: jobKind_def map_of_eq_None_iff)
    have late: "k \<notin> set ?first"
    proof
      assume "k \<in> set ?first"
      then have "claimed_row uuid lease t k \<in> set rows" unfolding rows using k(1) by simp
      from imageI [OF this, of job_id] show False using k(6) by (simp add: claimed_row_def)
    qed
    have "sorted_wrt (\<lambda>a b. due_key a \<le> due_key b) (sort_key due_key ?due)"
      using sorted_sort_key [of due_key ?due] by (simp add: sorted_map)
    then have "due_key j \<le> due_key k" by (rule take_before [OF _ j(2) all late])
    then show ?thesis by (simp add: j(3) due_key_def claimed_row_def)
  qed
  moreover have "run_at row \<le> t" "jobKind reg (job_kind row) \<noteq> None" "status row = Running"
    using firsts [OF j(2)] by (auto simp: j(3) claimed_row_def jobKind_def map_of_eq_None_iff)
  ultimately show ?thesis using len by blast
qed

definition ex_info :: kind_info where
  "ex_info = \<lparr>ki_max_attempts = 5, ki_retry_delay = jobRetryDelayMs, ki_on_settled = False\<rparr>"

definition ex_args :: "int \<Rightarrow> enqueue_args" where
  "ex_args d = \<lparr>ea_kind = ''k'', ea_payload = Map.empty, ea_run_at = None, ea_delay = Some d, ea_created_by = None,
     ea_account = None, ea_dedupe = None, ea_max_attempts = None\<rparr>"

definition ex_two :: "nat jobdb" where
  "ex_two = \<lparr>jobs = [new_job [(''k'', ex_info)] (ex_args 3) 0 1, new_job [(''k'', ex_info)] (ex_args 2) 0 2], next_id = 3, letters = []\<rparr>"

lemmas ex_two_simps = ex_two_def new_job_def ex_args_def ex_info_def enqueue_max_def jobKind_def

lemma ex_two_ids: "distinct (map job_id (jobs ex_two))"
  by (simp add: ex_two_simps)

lemma ex_two_claim: "map job_id (fst (claimDueJobs [(''k'', ex_info)] 1 60000 ''u'' (\<lambda>_. False) 9 ex_two)) = [2]"
  by code_simp

theorem claim_takes_the_longest_due_witness:
  "\<exists>row. row \<in> set (fst (claimDueJobs [(''k'', ex_info)] 1 60000 ''u'' (\<lambda>_. False) 9 ex_two))
    \<and> job_id row = 2 \<and> run_at row \<le> 9 \<and> status row = Running"
proof -
  let ?c = "claimDueJobs [(''k'', ex_info)] 1 60000 ''u'' (\<lambda>_. False) 9 ex_two"
  obtain row where row: "row \<in> set (fst ?c)" "job_id row = 2" using ex_two_claim by (cases "fst ?c") auto
  then show ?thesis
    using claim_takes_the_longest_due [OF ex_two_ids, of "[(''k'', ex_info)]" 1 60000 "''u''" "\<lambda>_. False" 9 "fst ?c" "snd ?c" row]
    by auto
qed

section \<open>The contract of a claim\<close>

text \<open>Every other statement that writes the state of a job, beside the claims.\<close>

datatype job_op = Released "job list" time_ms | Expired time_ms | Settled registry job string thrown bool time_ms
  | Moved nat time_ms "job_status list" payload "string list" time_ms | Cancel nat "job_status list" time_ms | NoMailbox string time_ms
  | CleanUp int int time_ms

fun job_other :: "job_op \<Rightarrow> 'm jobdb \<Rightarrow> 'm jobdb" where
  "job_other (Released js t) db = releaseClaims js t db"
| "job_other (Expired t) db = snd (sweepExpiredLeases t db)"
| "job_other (Settled reg j tok e started t) db = snd (settleFailure reg j tok e started t db)"
| "job_other (Moved i runAt froms patch codes t) db = snd (rescheduleJob i runAt froms patch codes t db)"
| "job_other (Cancel i froms t) db = snd (cancelJob i froms t db)"
| "job_other (NoMailbox acc t) db = snd (failJobsOfDeletedAccount acc t db)"
| "job_other (CleanUp retention keptFailed t) db = snd (cleanupFinishedJobs retention keptFailed t db)"

type_synonym job_claim = "registry \<times> nat \<times> int \<times> string \<times> (nat \<Rightarrow> bool) \<times> time_ms"

definition job_claim :: "job_claim \<Rightarrow> 'm jobdb \<Rightarrow> nat list \<times> 'm jobdb" where
  "job_claim c db = (case c of (reg, lim, lease, uuid, lk, t) \<Rightarrow>
     (map job_id (fst (claimDueJobs reg lim lease uuid lk t db)), snd (claimDueJobs reg lim lease uuid lk t db)))"

definition jobs_ok :: "'m jobdb \<Rightarrow> bool" where
  "jobs_ok db \<longleftrightarrow> distinct (map job_id (jobs db))"

definition queued_job :: "'m jobdb \<Rightarrow> nat \<Rightarrow> bool" where
  "queued_job db i \<longleftrightarrow> (\<exists>j\<in>set (jobs db). job_id j = i \<and> status j = Queued)"

lemma ids_kept: "(\<And>j. job_id (f j) = job_id j) \<Longrightarrow> jobs_ok db \<Longrightarrow> jobs_ok (db\<lparr>jobs := sql_update p f (jobs db)\<rparr>)"
  by (simp add: jobs_ok_def distinct_update)

lemma settled_id: "job_id (settled_row reg j e started t k) = job_id k"
  by (simp add: settled_row_def Let_def retried_row_def ended_row_def split: outcome.split)

lemma other_keeps_ids: "jobs_ok db \<Longrightarrow> jobs_ok (job_other r db)"
proof (cases r)
  case (Released js t)
  assume "jobs_ok db"
  then show ?thesis by (simp add: Released releaseClaims_def Let_def ids_kept released_row_def)
next
  case (CleanUp retention keptFailed t)
  assume "jobs_ok db"
  then show ?thesis by (simp add: CleanUp cleanupFinishedJobs_def Let_def jobs_ok_def distinct_delete)
qed (simp_all add: sweepExpiredLeases_def settleFailure_def rescheduleJob_def cancelJob_def failJobsOfDeletedAccount_def Let_def
    ids_kept swept_row_def settled_id rescheduled_row_def cancelled_row_def)

lemma claimed_jobs: "fst (job_claim (reg, lim, lease, uuid, lk, t) db) = (if reg = [] \<or> lim < 1 then []
    else map job_id (filter (\<lambda>j. job_id j \<in> set (due_ids (map fst reg) lim lk t db)) (jobs db)))"
  by (simp add: job_claim_def claimDueJobs_def Let_def sql_returning_def claimed_row_def o_def)

lemma jobs_after_claim: "jobs (snd (job_claim (reg, lim, lease, uuid, lk, t) db)) = (if reg = [] \<or> lim < 1 then jobs db
    else map (\<lambda>j. if job_id j \<in> set (due_ids (map fst reg) lim lk t db) then claimed_row uuid lease t j else j) (jobs db))"
  by (simp add: job_claim_def claimDueJobs_def Let_def sql_update_def)

interpretation jobq: claims jobs_ok queued_job job_claim job_other
proof
  fix db :: "'m jobdb" and c :: job_claim and i and r :: job_op
  obtain reg lim lease uuid lk t where c: "c = (reg, lim, lease, uuid, lk, t)" by (cases c)
  assume ok: "jobs_ok db"
  show "jobs_ok (snd (job_claim c db))"
    using ok by (simp add: c jobs_ok_def jobs_after_claim o_def if_distrib claimed_row_def cong: if_cong)
  show "jobs_ok (job_other r db)" by (rule other_keeps_ids [OF ok])
  show "distinct (fst (job_claim c db))" using ok by (simp add: c claimed_jobs jobs_ok_def distinct_map_filter)
  show "i \<in> set (fst (job_claim c db)) \<Longrightarrow> queued_job db i"
    using due_ids_in [of i "map fst reg" lim lk t db] by (auto simp: c claimed_jobs queued_job_def split: if_splits)
  show "queued_job (snd (job_claim c db)) i \<Longrightarrow> queued_job db i"
    by (auto simp: c jobs_after_claim queued_job_def claimed_row_def split: if_splits)
  show "i \<in> set (fst (job_claim c db)) \<Longrightarrow> \<not> queued_job (snd (job_claim c db)) i"
    by (auto simp: c claimed_jobs jobs_after_claim queued_job_def claimed_row_def split: if_splits)
qed

text \<open>Whatever claims of any workers, released claims, expired leases, settled failures, changes of a
  user and clean-ups come in whatever order, a job is handed out at most once more often than one of
  them put it back into the queue; a job somebody holds is handed to nobody until it is put back.\<close>
theorem jobs_handed_out_once_per_requeue:
  assumes "distinct (map job_id (jobs db))" and "claim_run queued_job job_claim job_other i ops db = (handed, requeued, db')"
  shows "handed \<le> Suc requeued \<and> (requeued = 0 \<and> (\<forall>j\<in>set (jobs db). job_id j = i \<longrightarrow> status j \<noteq> Queued) \<longrightarrow> handed = 0)
    \<and> distinct (map job_id (jobs db'))"
proof -
  have ok: "jobs_ok db" using assms(1) by (simp add: jobs_ok_def)
  have "handed = 0" if "requeued = 0" "\<forall>j\<in>set (jobs db). job_id j = i \<longrightarrow> status j \<noteq> Queued"
    using jobq.taken_stays_with_its_claim [OF ok, of i ops handed db'] assms(2) that by (auto simp: queued_job_def)
  then show ?thesis using jobq.handed_at_most_once_per_release [OF ok assms(2)] jobq.handed_balance [OF ok assms(2)]
    by (auto simp: jobs_ok_def)
qed

theorem jobs_handed_out_once_per_requeue_witness:
  "fst (claim_run queued_job job_claim job_other 2 [Inl ([(''k'', ex_info)], 1, 60000, ''u'', \<lambda>_. False, 9), Inr (Expired 70000),
     Inl ([(''k'', ex_info)], 1, 60000, ''v'', \<lambda>_. False, 70001)] ex_two) \<le> 2"
proof -
  let ?ops = "[Inl ([(''k'', ex_info)], 1, 60000, ''u'', \<lambda>_. False, 9), Inr (Expired 70000),
     Inl ([(''k'', ex_info)], 1, 60000, ''v'', \<lambda>_. False, 70001)]"
  let ?r = "claim_run queued_job job_claim job_other 2 ?ops ex_two"
  have "?r = (fst ?r, fst (snd ?r), snd (snd ?r))" by simp
  from jobs_handed_out_once_per_requeue [OF ex_two_ids this] have "fst ?r \<le> Suc (fst (snd ?r))" by blast
  moreover have "fst (snd ?r) \<le> 1" by (simp add: case_prod_unfold Let_def)
  ultimately show ?thesis by linarith
qed

section \<open>A worker that stops\<close>

text \<open>What a claim and its release leave of a job: everything a later run of it reads.\<close>

definition waiting_part :: "job \<Rightarrow> nat \<times> string \<times> payload \<times> time_ms \<times> job_status \<times> nat \<times> nat \<times> string option" where
  "waiting_part j = (job_id j, job_kind j, job_payload j, run_at j, status j, attempts j, max_attempts j, claim_token j)"

text \<open>What a claim took, its release puts back.\<close>

lemma released_claim:
  assumes "claim_token j = None" and "status j = Queued" and "token_for uuid (job_id j) \<in> set toks"
  shows "releasable toks (claimed_row uuid lease t j)
    \<and> waiting_part (released_row t (claimed_row uuid lease t j)) = waiting_part j"
  using assms by (auto simp: releasable_def waiting_part_def released_row_def claimed_row_def)

text \<open>a worker told to stop while its claim was on its way starts nothing and leaves every job as it
  was, the attempt not counted.\<close>

theorem stopped_worker_claims_nothing:
  assumes "distinct (map job_id (jobs db))" and fresh: "\<And>j i. j \<in> set (jobs db) \<Longrightarrow> claim_token j \<noteq> Some (token_for uuid i)"
    and idle: "\<And>j. j \<in> set (jobs db) \<Longrightarrow> status j = Queued \<Longrightarrow> claim_token j = None"
    and run: "runDueJobs reg concurrency n stopping True uuid lk t db = (started, db')"
  shows "started = [] \<and> map waiting_part (jobs db') = map waiting_part (jobs db)"
proof (cases "stopping \<or> reg = [] \<or> concurrency - n < 1")
  case True
  then show ?thesis using run by (auto simp: runDueJobs_def claimDueJobs_def releaseClaims_def Let_def split: if_splits)
next
  case False
  let ?ids = "due_ids (map fst reg) (concurrency - n) lk t db"
  let ?p = "\<lambda>j. job_id j \<in> set ?ids" and ?c = "claimed_row uuid JOB_LEASE_MS t"
  let ?rows = "map ?c (filter ?p (jobs db))" and ?toks = "List.map_filter claim_token (map ?c (filter ?p (jobs db)))"
  have toks: "set ?toks = {token_for uuid (job_id j) |j. j \<in> set (jobs db) \<and> ?p j}"
    by (auto simp: List.map_filter_def claimed_row_def)
  have db': "started = []" "jobs db' = (if ?rows = [] then sql_update ?p ?c (jobs db)
      else sql_update (releasable ?toks) (released_row t) (sql_update ?p ?c (jobs db)))"
    using run False by (auto simp: runDueJobs_def claimDueJobs_def Let_def sql_returning_def releaseClaims_def)
  have queued: "status j = Queued" if j: "j \<in> set (jobs db)" "?p j" for j
  proof -
    obtain x where x: "x \<in> set (jobs db)" "job_id x = job_id j" "status x = Queued" using due_ids_in [OF j(2)] by blast
    have "x = j" by (rule job_eq [OF assms(1) x(1) j(1) x(2)])
    then show ?thesis using x(3) by simp
  qed
  have one: "waiting_part (if releasable ?toks (if ?p j then ?c j else j) then released_row t (if ?p j then ?c j else j)
      else (if ?p j then ?c j else j)) = waiting_part j" if j: "j \<in> set (jobs db)" for j
  proof (cases "?p j")
    case True
    then show ?thesis using released_claim [OF idle [OF j] queued [OF j True], of uuid ?toks] queued [OF j True] toks j by auto
  next
    case no: False
    then show ?thesis using fresh [OF j] toks by (auto simp: releasable_def)
  qed
  show ?thesis
  proof (cases "?rows = []")
    case True
    then have "\<not> ?p j" if "j \<in> set (jobs db)" for j using that by (simp add: filter_empty_conv)
    then have "sql_update ?p ?c (jobs db) = jobs db" by (simp add: sql_update_def map_idI)
    then show ?thesis using db' True by simp
  next
    case some: False
    then show ?thesis using db' one by (simp add: sql_update_def)
  qed
qed

theorem stopped_worker_claims_nothing_witness:
  "\<exists>db'. runDueJobs [(''k'', ex_info)] 4 0 False True ''u'' (\<lambda>_. False) 9 ex_two = ([], db')
    \<and> map waiting_part (jobs db') = map waiting_part (jobs ex_two)"
proof -
  obtain started db' where r: "runDueJobs [(''k'', ex_info)] 4 0 False True ''u'' (\<lambda>_. False) 9 ex_two = (started, db')"
    by (rule prod.exhaust)
  have "claim_token j = None" if "j \<in> set (jobs ex_two)" for j using that by (auto simp: ex_two_simps)
  then show ?thesis using stopped_worker_claims_nothing [OF ex_two_ids _ _ r] r by auto
qed

section \<open>Backoff and clean-up\<close>

lemma backoff_bounds:
  fixes base top :: int
  assumes "0 < base" and "base \<le> top"
  shows "base \<le> min top (base * 2 ^ k) \<and> min top (base * 2 ^ k) \<le> top \<and> (k \<le> l \<longrightarrow> min top (base * 2 ^ k) \<le> min top (base * 2 ^ l))"
proof -
  have "base * 1 \<le> base * 2 ^ k" using assms(1) by (intro mult_left_mono) auto
  moreover have "base * 2 ^ k \<le> base * 2 ^ l" if "k \<le> l" using assms(1) that by (intro mult_left_mono power_increasing) auto
  ultimately show ?thesis using assms(2) by auto
qed

text \<open>A failed attempt is retried after one to thirty minutes, and never sooner than after an
  earlier failure of the job.\<close>

theorem retry_delay_bounded:
  assumes "m \<le> n"
  shows "60000 \<le> jobRetryDelayMs m \<and> jobRetryDelayMs m \<le> jobRetryDelayMs n \<and> jobRetryDelayMs n \<le> 1800000"
  using backoff_bounds [of JOB_RETRY_BASE_MS JOB_RETRY_MAX_MS "m - 1" "n - 1"]
    backoff_bounds [of JOB_RETRY_BASE_MS JOB_RETRY_MAX_MS "n - 1" "n - 1"] assms
  by (simp add: jobRetryDelayMs_def JOB_RETRY_BASE_MS_def JOB_RETRY_MAX_MS_def diff_le_mono)

theorem retry_delay_bounded_witness: "60000 \<le> jobRetryDelayMs 2 \<and> jobRetryDelayMs 2 \<le> jobRetryDelayMs 9"
  using retry_delay_bounded [of 2 9] by simp

text \<open>The clean-up deletes no job that waits, runs or ended less than the kept time ago, and no letter
  of a job that can still be sent, retried or looked at.\<close>

theorem cleanup_keeps_live_jobs:
  assumes "cleanupFinishedJobs retention keptFailed t db = (n, db')" and "j \<in> set (jobs db)"
    and "status j \<in> {Queued, Running} \<or> (status j \<in> {Failed, NeedsAttention} \<and> t - keptFailed \<le> updated_at j)"
    and "distinct (map job_id (jobs db))"
  shows "j \<in> set (jobs db') \<and> letter_of db' (job_id j) = letter_of db (job_id j)"
proof -
  have live: "\<not> kept_too_long retention keptFailed t j" using assms(3) by (auto simp: kept_too_long_def)
  let ?old = "kept_too_long retention keptFailed t"
  let ?gone = "map job_id (filter ?old (jobs db))"
  let ?del = "\<lambda>l. (case job_of db (fst l) of Some j \<Rightarrow> status j \<in> {Done, Cancelled} | None \<Rightarrow> False) \<or> fst l \<in> set ?gone"
  have db': "jobs db' = sql_delete ?old (jobs db)" "letters db' = sql_delete ?del (letters db)"
    using assms(1) by (auto simp: cleanupFinishedJobs_def Let_def)
  have "job_of db (job_id j) = Some j" unfolding job_of_def by (rule row_by_in [OF assms(4,2)])
  moreover have "job_id j \<notin> set ?gone"
    using live job_eq [OF assms(4) _ assms(2)] by fastforce
  ultimately have keep: "\<not> ?del l" if "fst l = job_id j" for l using assms(3) that by auto
  have "letter_of db' (job_id j) = letter_of db (job_id j)"
  proof -
    have "row_by fst (job_id j) (sql_delete ?del ls) = row_by fst (job_id j) ls" for ls :: "(nat \<times> 'a) list"
    proof (induction ls)
      case (Cons l ls)
      then show ?case using keep [of l] by (simp add: sql_delete_def row_by_def)
    qed (simp add: sql_delete_def)
    then show ?thesis by (simp only: letter_of_def db'(2))
  qed
  then show ?thesis using assms(2) live by (simp add: db'(1) sql_delete_def)
qed

theorem cleanup_keeps_live_jobs_witness:
  "\<exists>n db'. cleanupFinishedJobs 1 1 99 ex_two = (n, db') \<and> hd (jobs ex_two) \<in> set (jobs db')"
proof -
  obtain n db' where c: "cleanupFinishedJobs 1 1 99 ex_two = (n, db')" by (rule prod.exhaust)
  have "hd (jobs ex_two) \<in> set (jobs ex_two)" "status (hd (jobs ex_two)) \<in> {Queued, Running}" by (simp_all add: ex_two_simps)
  then show ?thesis using cleanup_keeps_live_jobs [OF c _ _ ex_two_ids] c by blast
qed

end
