(* ===== verification/PanelUsers.thy ===== *)
theory PanelUsers
  imports Rex
begin

text \<open>
  The users of the panel: \<open>services/auth/userIdentity.js\<close>, \<open>services/auth/userStatus.js\<close> and
  \<open>services/accessSync/tombstones.js\<close>: who an address signs in as, which addresses must not come
  back on their own, and how users are turned off without leaving the panel without an administrator.
  SQL's \<open>lower\<close> and JavaScript's \<open>toLowerCase\<close> are the same function on addresses here. An
  advisory lock is not a value: a function that takes one runs as one step.
\<close>

section \<open>Data\<close>

record user =
  us_id :: nat
  us_name :: string
  us_email :: "string option"
  us_admin :: bool
  us_disabled :: "time_ms option"
  us_disabled_source :: "string option"
  us_access_source :: "string option"
  us_created :: time_ms

record tombstone =
  ts_email :: string
  ts_created :: time_ms
  ts_by :: "nat option"
  ts_by_name :: "string option"
  ts_reason :: string

text \<open>An actor of an administrator's action: a user, or a name such as \<open>cli\<close>.\<close>

record actor =
  ac_user :: "nat option"
  ac_via :: "string option"

definition email_of :: "user \<Rightarrow> string option" where
  "email_of u = map_option js_lower (us_email u)"

section \<open>Tombstones\<close>

definition TOMBSTONE_REASONS :: "string list" where
  "TOMBSTONE_REASONS = [''deleted'', ''email_changed'']"

definition addTombstone :: "string option \<Rightarrow> actor option \<Rightarrow> string \<Rightarrow> time_ms \<Rightarrow> tombstone list \<Rightarrow> tombstone list" where
  "addTombstone email actor reason t ts = (case email of None \<Rightarrow> ts
     | Some e \<Rightarrow> if e = [] then ts else
         let by = (case actor of Some a \<Rightarrow> ac_user a | None \<Rightarrow> None);
             row = \<lparr>ts_email = js_lower e, ts_created = t, ts_by = by,
                 ts_by_name = (if by \<noteq> None then None else case actor of Some a \<Rightarrow> ac_via a | None \<Rightarrow> None), ts_reason = reason\<rparr>
         in if row_by ts_email (js_lower e) ts = None then ts @ [row]
            else sql_update (\<lambda>x. ts_email x = js_lower e) (\<lambda>_. row) ts)"

definition clearTombstone :: "string \<Rightarrow> tombstone list \<Rightarrow> bool \<times> tombstone list" where
  "clearTombstone email ts = (row_by ts_email (js_lower email) ts \<noteq> None, sql_delete (\<lambda>x. ts_email x = js_lower email) ts)"

definition isTombstoned :: "string \<Rightarrow> tombstone list \<Rightarrow> bool" where
  "isTombstoned email ts \<longleftrightarrow> row_by ts_email (js_lower email) ts \<noteq> None"

definition tombstonedAmong :: "string list \<Rightarrow> tombstone list \<Rightarrow> string list" where
  "tombstonedAmong emails ts = (if emails = [] then [] else map ts_email (filter (\<lambda>x. ts_email x \<in> set emails) ts))"

section \<open>Active administrators\<close>

definition countsAsActiveAdmin :: "user \<Rightarrow> bool \<Rightarrow> bool" where
  "countsAsActiveAdmin u googleMode \<longleftrightarrow> us_admin u \<and> us_disabled u = None \<and> (\<not> googleMode \<or> text_given (us_email u))"

definition otherActiveAdminExists :: "user list \<Rightarrow> nat \<Rightarrow> bool \<Rightarrow> bool" where
  "otherActiveAdminExists us i googleMode \<longleftrightarrow>
     list_ex (\<lambda>u. us_admin u \<and> us_disabled u = None \<and> us_id u \<noteq> i \<and> (googleMode \<longrightarrow> us_email u \<noteq> None)) us"

text \<open>The loop of \<open>disableUsersByEmail\<close>: the users turned off, the administrators kept.\<close>

definition ACCESS_REMOVED_SOURCE :: string where
  "ACCESS_REMOVED_SOURCE = ''cloudflare_access''"

definition disable_one :: "bool \<Rightarrow> string list \<Rightarrow> time_ms \<Rightarrow> string \<Rightarrow> user list \<times> string list \<times> user list
    \<Rightarrow> user list \<times> string list \<times> user list" where
  "disable_one googleMode bootstrap t email acc = (case acc of (off, kept, us) \<Rightarrow>
     if email \<in> set bootstrap then acc
     else (case find (\<lambda>u. email_of u = Some email \<and> us_disabled u = None) us of
       None \<Rightarrow> acc
     | Some cur \<Rightarrow>
         if countsAsActiveAdmin cur googleMode \<and> \<not> otherActiveAdminExists us (us_id cur) googleMode
         then (off, kept @ [email], us)
         else (off @ [cur], kept, sql_update (\<lambda>u. us_id u = us_id cur)
             (\<lambda>u. u\<lparr>us_disabled := Some t, us_disabled_source := Some ACCESS_REMOVED_SOURCE\<rparr>) us)))"

definition disableUsersByEmail :: "string list \<Rightarrow> bool \<Rightarrow> string list \<Rightarrow> time_ms \<Rightarrow> user list \<Rightarrow> user list \<times> string list \<times> user list" where
  "disableUsersByEmail emails googleMode bootstrap t us = fold (disable_one googleMode bootstrap t) emails ([], [], us)"

section \<open>Who an address is\<close>

text \<open>\<open>EMAIL_PATTERN\<close>: one at sign, 1 to 64 characters before and 1 to 255 after it, no white space.\<close>

definition EMAIL_PATTERN :: "string \<Rightarrow> bool" where
  "EMAIL_PATTERN e \<longleftrightarrow> (let a = takeWhile (\<lambda>c. c \<noteq> CHR ''@'') e; b = drop (Suc (length a)) e
     in length a < length e \<and> 1 \<le> length a \<and> length a \<le> 64 \<and> 1 \<le> length b \<and> length b \<le> 255
        \<and> list_all (\<lambda>c. \<not> js_space c) (a @ b) \<and> CHR ''@'' \<notin> set b)"

definition normalizeEmail :: "string \<Rightarrow> string option" where
  "normalizeEmail v = (let e = js_lower (js_trim v) in if length e \<le> 254 \<and> EMAIL_PATTERN e then Some e else None)"

definition findUserByEmail :: "string \<Rightarrow> user list \<Rightarrow> user option" where
  "findUserByEmail email us = find (\<lambda>u. email_of u = Some email) us"

text \<open>The first of the smallest keys, as \<open>ORDER BY key LIMIT 1\<close>.\<close>

fun first_by :: "('a \<Rightarrow> time_ms) \<Rightarrow> 'a list \<Rightarrow> 'a option" where
  "first_by k [] = None"
| "first_by k (x # xs) = (case first_by k xs of None \<Rightarrow> Some x | Some y \<Rightarrow> if k y < k x then Some y else Some x)"

datatype claim = UsernameTaken | Known user | Claimed user | Created user

text \<open>The table, its next id, and the row the address is approved under.\<close>

definition claimOrCreateUserByEmail :: "string \<Rightarrow> bool \<Rightarrow> time_ms \<Rightarrow> nat \<times> user list \<Rightarrow> claim \<times> nat \<times> user list" where
  "claimOrCreateUserByEmail email isAdmin t st = (case st of (next_id, us) \<Rightarrow>
     (case findUserByEmail email us of
        Some u \<Rightarrow> (Known u, st)
      | None \<Rightarrow> (case first_by us_created (filter (\<lambda>u. us_email u = None \<and> js_lower (us_name u) = email) us) of
          Some u \<Rightarrow> (Claimed (u\<lparr>us_email := Some email\<rparr>),
              next_id, sql_update (\<lambda>x. us_id x = us_id u) (\<lambda>x. x\<lparr>us_email := Some email\<rparr>) us)
        | None \<Rightarrow>
            if list_ex (\<lambda>u. us_name u = email) us then (UsernameTaken, st)
            else let u = \<lparr>us_id = next_id, us_name = email, us_email = Some email, us_admin = isAdmin, us_disabled = None,
                    us_disabled_source = None, us_access_source = None, us_created = t\<rparr>
                 in (Created u, Suc next_id, us @ [u]))))"

section \<open>Sign-in\<close>

datatype sign_in = Refused string | SignedIn user

definition ACCESS_LOGIN_SOURCE :: string where
  "ACCESS_LOGIN_SOURCE = ''login''"

definition set_user :: "nat \<Rightarrow> (user \<Rightarrow> user) \<Rightarrow> user list \<Rightarrow> user list" where
  "set_user i f us = sql_update (\<lambda>u. us_id u = i) f us"

text \<open>
  \<open>imported\<close>: the address of the journal entry \<open>access.user_imported\<close>, if one is made;
  \<open>policyEmails\<close>: the addresses the policy listed after the last successful run of the sync.
\<close>

definition resolveVerifiedUser ::
  "string \<Rightarrow> string \<Rightarrow> string list \<Rightarrow> string list \<Rightarrow> tombstone list \<Rightarrow> time_ms \<Rightarrow> nat \<times> user list
     \<Rightarrow> sign_in \<times> string option \<times> nat \<times> user list" where
  "resolveVerifiedUser email source admins policyEmails tombs t st = (case normalizeEmail email of
     None \<Rightarrow> (Refused ''not_allowed'', None, st)
   | Some address \<Rightarrow>
       let bootstrap = address \<in> set admins; known = findUserByEmail address (snd st)
       in (case known of
             Some u \<Rightarrow>
               if us_disabled u \<noteq> None then (Refused ''user_disabled'', None, st)
               else if \<not> bootstrap \<or> us_admin u then (SignedIn u, None, st)
               else (SignedIn (u\<lparr>us_admin := True\<rparr>), None, fst st, set_user (us_id u) (\<lambda>x. x\<lparr>us_admin := True\<rparr>) (snd st))
           | None \<Rightarrow>
               if source \<noteq> ''cloudflare'' \<and> \<not> bootstrap then (Refused ''not_allowed'', None, st)
               else if \<not> bootstrap \<and> isTombstoned address tombs then (Refused ''user_deleted'', None, st)
               else (case claimOrCreateUserByEmail address bootstrap t st of
                   (UsernameTaken, _) \<Rightarrow> (Refused ''not_allowed'', None, st)
                 | (c, st1) \<Rightarrow>
                     let u = (case c of Known u \<Rightarrow> u | Claimed u \<Rightarrow> u | Created u \<Rightarrow> u);
                         fresh = \<not> bootstrap \<and> (case c of Known _ \<Rightarrow> False | _ \<Rightarrow> True)
                     in if us_disabled u \<noteq> None then (Refused ''user_disabled'', None, st1)
                        else let ruled = fresh \<and> address \<notin> set policyEmails;
                               u1 = (if ruled then u\<lparr>us_access_source := Some ACCESS_LOGIN_SOURCE\<rparr> else u);
                               us1 = (if ruled then set_user (us_id u) (\<lambda>x. x\<lparr>us_access_source := Some ACCESS_LOGIN_SOURCE\<rparr>) (snd st1)
                                      else snd st1);
                               u2 = (if bootstrap \<and> \<not> us_admin u1 then u1\<lparr>us_admin := True\<rparr> else u1);
                               us2 = (if bootstrap \<and> \<not> us_admin u1 then set_user (us_id u) (\<lambda>x. x\<lparr>us_admin := True\<rparr>) us1 else us1)
                             in (SignedIn u2, if fresh then us_email u2 else None, fst st1, us2))))"

record session =
  se_id :: nat
  se_user :: "nat option"
  se_name :: "string option"
  se_admin :: bool
  se_method :: "string option"
  se_locked :: bool

text \<open>\<open>fresh\<close>: the id a regenerated session gets.\<close>

definition bindSessionUser :: "nat \<Rightarrow> user \<Rightarrow> string \<Rightarrow> session \<Rightarrow> session" where
  "bindSessionUser fresh u authMethod s =
     (let s1 = (if se_user s \<noteq> Some (us_id u) \<or> se_method s \<noteq> Some authMethod
          then \<lparr>se_id = fresh, se_user = None, se_name = None, se_admin = False, se_method = None,
                se_locked = (se_user s = Some (us_id u) \<and> se_locked s)\<rparr>
          else s)
      in s1\<lparr>se_user := Some (us_id u), se_name := Some (us_name u), se_admin := us_admin u, se_method := Some authMethod\<rparr>)"

end
