(* ===== verification/AccessReconcile.thy ===== *)
theory AccessReconcile
  imports PanelUsers "HOL-Library.List_Lexorder" "HOL-Library.Char_ord"
begin

text \<open>
  The three-way reconcile of a Cloudflare Access policy with the panel's users
  (\<open>services/accessSync/reconcile.js\<close>). A rule is what the code reads of it, an email or an
  email domain, and the rest of its JSON; a list that is missing is empty; a JavaScript \<open>Set\<close> is
  a list in insertion order without repeats.
\<close>

record rule =
  rl_email :: "string option"
  rl_domain :: "string option"
  rl_rest :: string

record policy =
  po_include :: "rule list"
  po_exclude :: "rule list"
  po_decision :: "string option"
  po_rest :: string

definition given :: "string list \<Rightarrow> string list" where
  "given xs = filter (\<lambda>x. x \<noteq> []) xs"

definition lower :: "string option \<Rightarrow> string" where
  "lower v = (case v of Some s \<Rightarrow> js_lower (js_trim s) | None \<Rightarrow> [])"

definition ruleEmail :: "rule \<Rightarrow> string" where
  "ruleEmail r = lower (rl_email r)"

definition ruleDomain :: "rule \<Rightarrow> string" where
  "ruleDomain r = lower (rl_domain r)"

definition isEmailRule :: "rule \<Rightarrow> bool" where
  "isEmailRule r \<longleftrightarrow> ruleEmail r \<noteq> []"

definition emails_of :: "rule list \<Rightarrow> string list" where
  "emails_of rs = given (map ruleEmail rs)"

definition domains_of :: "rule list \<Rightarrow> string list" where
  "domains_of rs = given (map ruleDomain rs)"

text \<open>\<open>email.slice(email.lastIndexOf('@') + 1)\<close>.\<close>

definition domain_part :: "string \<Rightarrow> string" where
  "domain_part e = rev (takeWhile (\<lambda>c. c \<noteq> CHR ''@'') (rev e))"

definition domainAdmits :: "policy \<Rightarrow> string \<Rightarrow> bool" where
  "domainAdmits p e \<longleftrightarrow> domain_part e \<in> set (domains_of (po_include p))
     \<and> e \<notin> set (emails_of (po_exclude p)) \<and> domain_part e \<notin> set (domains_of (po_exclude p))"

definition excluded :: "policy \<Rightarrow> string \<Rightarrow> bool" where
  "excluded p e \<longleftrightarrow> e \<in> set (emails_of (po_exclude p)) \<or> domain_part e \<in> set (domains_of (po_exclude p))"

definition removedInCloudflare :: "policy \<Rightarrow> string list \<Rightarrow> string list \<Rightarrow> string list \<Rightarrow> string list" where
  "removedInCloudflare p baseline activeEmails pinned =
     (let listed = emails_of (po_include p)
      in if listed = [] then []
         else sort (filter (\<lambda>e. e \<in> set activeEmails \<and> e \<notin> set pinned
           \<and> (excluded p e \<or> (e \<notin> set listed \<and> \<not> domainAdmits p e))) (js_set baseline)))"

definition importCandidates :: "policy \<Rightarrow> string list \<Rightarrow> string list \<Rightarrow> string list" where
  "importCandidates p baseline pinned =
     sort (filter (\<lambda>e. e \<notin> set baseline \<and> e \<notin> set pinned \<and> \<not> excluded p e) (js_set (emails_of (po_include p))))"

definition listedEmails :: "rule list \<Rightarrow> string list" where
  "listedEmails rs = sort (js_set (emails_of rs))"

definition exceedsImportLimit :: "nat \<Rightarrow> nat \<Rightarrow> bool" where
  "exceedsImportLimit count maxImports \<longleftrightarrow> count > maxImports"

definition exceedsDisableLimit :: "nat \<Rightarrow> nat \<Rightarrow> nat \<Rightarrow> bool" where
  "exceedsDisableLimit count activeCount maxDisables \<longleftrightarrow> count > 0 \<and> (count > maxDisables \<or> count * 2 > activeCount)"

definition email_rule :: "string \<Rightarrow> rule" where
  "email_rule e = \<lparr>rl_email = Some e, rl_domain = None, rl_rest = []\<rparr>"

record built =
  bu_include :: "rule list"
  bu_changed :: bool
  bu_added :: "string list"
  bu_removed :: "string list"

definition kept_rule :: "string list \<Rightarrow> string list \<Rightarrow> rule \<Rightarrow> bool" where
  "kept_rule baseline wanted r \<longleftrightarrow> \<not> isEmailRule r \<or> (ruleEmail r \<notin> set baseline \<and> ruleEmail r \<notin> set wanted)"

definition buildInclude :: "policy \<Rightarrow> string list \<Rightarrow> string list \<Rightarrow> built" where
  "buildInclude p baseline desired =
     (let wanted = sort (js_set desired); listed = js_set (emails_of (po_include p));
          added = filter (\<lambda>e. e \<notin> set listed) wanted;
          removed = sort (filter (\<lambda>e. e \<in> set baseline \<and> e \<notin> set wanted) listed)
      in \<lparr>bu_include = filter (kept_rule baseline wanted) (po_include p) @ map email_rule wanted,
          bu_changed = (added \<noteq> [] \<or> removed \<noteq> []), bu_added = added, bu_removed = removed\<rparr>)"

section \<open>What the lists hold\<close>

lemma set_emails_of: "set (emails_of rs) = {ruleEmail r |r. r \<in> set rs \<and> isEmailRule r}"
  by (auto simp: emails_of_def given_def isEmailRule_def)

lemma set_listedEmails [simp]: "set (listedEmails rs) = set (emails_of rs)"
  by (simp add: listedEmails_def)

text \<open>An address as the panel writes it: trimmed, in lower case, not empty.\<close>

definition plain :: "string \<Rightarrow> bool" where
  "plain e \<longleftrightarrow> e \<noteq> [] \<and> js_lower (js_trim e) = e"

lemma ruleEmail_email_rule: "plain e \<Longrightarrow> ruleEmail (email_rule e) = e"
  by (simp add: ruleEmail_def lower_def email_rule_def plain_def)

lemma emails_append: "emails_of (xs @ ys) = emails_of xs @ emails_of ys"
  by (simp add: emails_of_def given_def)

lemma emails_written: "list_all plain es \<Longrightarrow> set (emails_of (map email_rule es)) = set es"
proof (induction es)
  case (Cons e es)
  then have "ruleEmail (email_rule e) = e" "e \<noteq> []" by (simp_all add: ruleEmail_email_rule) (simp add: plain_def)
  then show ?case using Cons by (simp add: emails_of_def given_def)
qed (simp add: emails_of_def given_def)

lemma emails_kept: "set (emails_of (filter (kept_rule baseline wanted) rs)) = set (emails_of rs) - set baseline - set wanted"
  unfolding set_emails_of by (auto simp: kept_rule_def)

text \<open>After the write, the policy lists the addresses wanted and those the panel never wrote.\<close>

lemma built_lists:
  assumes "list_all plain desired"
  shows "set (emails_of (bu_include (buildInclude p baseline desired)))
    = set desired \<union> (set (emails_of (po_include p)) - set baseline)"
proof -
  have "list_all plain (sort (js_set desired))" using assms by (simp add: list_all_iff)
  then show ?thesis
    by (auto simp: buildInclude_def Let_def emails_append emails_written emails_kept)
qed

lemma built_more:
  "set (bu_added (buildInclude p baseline desired)) = set desired - set (emails_of (po_include p))"
  "set (bu_removed (buildInclude p baseline desired)) = (set (emails_of (po_include p)) \<inter> set baseline) - set desired"
  by (auto simp: buildInclude_def Let_def)

lemma built_changed: "bu_changed (buildInclude p baseline desired) \<longleftrightarrow>
    set desired - set (emails_of (po_include p)) \<noteq> {} \<or> (set (emails_of (po_include p)) \<inter> set baseline) - set desired \<noteq> {}"
proof -
  have "bu_changed (buildInclude p baseline desired) \<longleftrightarrow>
      set (bu_added (buildInclude p baseline desired)) \<noteq> {} \<or> set (bu_removed (buildInclude p baseline desired)) \<noteq> {}"
    unfolding set_empty by (simp add: buildInclude_def Let_def)
  then show ?thesis unfolding built_more .
qed

end
