(* ===== verification/AccessSync.thy ===== *)
theory AccessSync
  imports AccessReconcile
begin

text \<open>
  The Cloudflare Access sync: its settings and the state between runs
  (\<open>services/accessSync/settings.js\<close>), one run (\<open>runner.js\<close>), where a user stands
  (\<open>accessState.js\<close>) and the check of the settings (\<open>verify.js\<close>, \<open>cloudflareAccessClient.js\<close>).
  Cloudflare is the answers of its client; decryption and the environment are arguments. What other
  processes do while a run works is the function \<open>meanwhile\<close> on the panel's state, applied right
  before the run writes its result; a failing database is not in the functions.
\<close>

section \<open>Settings and state\<close>

record config =
  cg_enabled :: bool
  cg_account :: string
  cg_app :: string
  cg_policy :: string
  cg_token :: "string option"

record run_result =
  rr_trigger :: string
  rr_started :: time_ms
  rr_outcome :: string
  rr_added :: nat
  rr_removed :: nat
  rr_imported :: nat
  rr_disabled :: nat
  rr_would_disable :: nat
  rr_would_import :: nat
  rr_errors :: nat
  rr_error :: "string option"
  rr_retriable :: bool
  rr_retry_attempt :: nat
  rr_next_retry :: "time_ms option"

record sync_state =
  sy_baseline :: "string list"
  sy_policy_emails :: "string list"
  sy_candidates :: "string list option"
  sy_imports :: "string list option"
  sy_retry :: nat
  sy_last :: "run_result option"

text \<open>What is done outside the tables: entries of the journal, sessions ended.\<close>

datatype deed = Journal string "string list" | SignedOut nat

record panel =
  pl_users :: "user list"
  pl_next :: nat
  pl_tombs :: "tombstone list"
  pl_config :: config
  pl_sync :: sync_state
  pl_deeds :: "deed list"

definition DEFAULT_MAX_DISABLES :: nat where
  "DEFAULT_MAX_DISABLES = 10"

definition DEFAULT_MAX_IMPORTS :: nat where
  "DEFAULT_MAX_IMPORTS = 10"

definition env_limit :: "nat \<Rightarrow> string option \<Rightarrow> nat" where
  "env_limit dflt raw = (let s = js_trim (case raw of Some s \<Rightarrow> s | None \<Rightarrow> [])
     in if s \<noteq> [] \<and> list_all js_digit s then digits_value 0 s else dflt)"

definition accessSyncMaxDisables :: "string option \<Rightarrow> nat" where
  "accessSyncMaxDisables raw = env_limit DEFAULT_MAX_DISABLES raw"

definition accessSyncMaxImports :: "string option \<Rightarrow> nat" where
  "accessSyncMaxImports raw = env_limit DEFAULT_MAX_IMPORTS raw"

definition ACCOUNT_ID_RE :: "string \<Rightarrow> bool" where
  "ACCOUNT_ID_RE s \<longleftrightarrow> length s = 32 \<and> list_all hex_digit s"

definition API_TOKEN_RE :: "string \<Rightarrow> bool" where
  "API_TOKEN_RE s \<longleftrightarrow> 20 \<le> length s \<and> length s \<le> 512
     \<and> list_all (\<lambda>c. js_digit c \<or> (of_char c :: nat) \<in> {65..90} \<union> {97..122} \<or> c \<in> set ''._~+/=-'') s"

definition UUID_RE :: "string \<Rightarrow> bool" where
  "UUID_RE s \<longleftrightarrow> (let t = js_lower s in length t = 36
     \<and> list_all (\<lambda>(i, c). if i \<in> {8, 13, 18, 23} then c = CHR ''-'' else hex_digit c) (List.enumerate 0 t))"

definition loadRunConfig :: "(string \<Rightarrow> string option) \<Rightarrow> config \<Rightarrow> (config \<times> string option) option" where
  "loadRunConfig decrypt c =
     (if \<not> cg_enabled c \<or> cg_account c = [] \<or> cg_app c = [] \<or> cg_policy c = [] \<or> \<not> text_given (cg_token c) then None
      else Some (c, Option.bind (cg_token c) decrypt))"

datatype config_error = InvalidId | Incomplete

record config_input =
  ci_enabled :: bool
  ci_account :: "string option"
  ci_app :: "string option"
  ci_policy :: "string option"
  ci_token :: "string option"

definition trimmed :: "string option \<Rightarrow> string" where
  "trimmed v = (case v of Some s \<Rightarrow> js_trim s | None \<Rightarrow> [])"

definition ids_ok :: "string \<Rightarrow> string \<Rightarrow> string \<Rightarrow> bool" where
  "ids_ok account app po \<longleftrightarrow> (account = [] \<or> ACCOUNT_ID_RE account) \<and> (app = [] \<or> UUID_RE app) \<and> (po = [] \<or> UUID_RE po)"

definition same_target :: "config \<Rightarrow> config \<Rightarrow> bool" where
  "same_target a b \<longleftrightarrow> cg_account a = cg_account b \<and> cg_app a = cg_app b \<and> cg_policy a = cg_policy b"

text \<open>\<open>writeConfig\<close> in its transaction: the new settings, or the refusal.\<close>

definition writeConfig :: "(string \<Rightarrow> string) \<Rightarrow> config_input \<Rightarrow> panel \<Rightarrow> (config_error + config) \<times> panel" where
  "writeConfig encrypt i p =
     (let stored = pl_config p; token = trimmed (ci_token i);
          new = \<lparr>cg_enabled = ci_enabled i, cg_account = js_lower (trimmed (ci_account i)), cg_app = js_lower (trimmed (ci_app i)),
            cg_policy = js_lower (trimmed (ci_policy i)), cg_token = cg_token stored\<rparr>
      in if \<not> ids_ok (cg_account new) (cg_app new) (cg_policy new) then (Inl InvalidId, p)
         else if cg_enabled new \<and> \<not> (cg_account new \<noteq> [] \<and> cg_app new \<noteq> [] \<and> cg_policy new \<noteq> []
             \<and> (token \<noteq> [] \<or> text_given (cg_token new))) then (Inl Incomplete, p)
         else let saved = (if token \<noteq> [] then new\<lparr>cg_token := Some (encrypt token)\<rparr> else new);
                sync = (if same_target saved stored then pl_sync p
                  else (pl_sync p)\<lparr>sy_baseline := [], sy_policy_emails := [], sy_candidates := None, sy_imports := None, sy_retry := 0\<rparr>)
              in (Inr saved, p\<lparr>pl_sync := sync, pl_config := saved\<rparr>))"

section \<open>Cloudflare's answers\<close>

datatype cf_status = Network | Timeout | NotAttached | Http nat

record cf_error =
  ce_status :: cf_status
  ce_retry_after :: "nat option"
  ce_text :: string

definition retriable :: "cf_error \<Rightarrow> bool" where
  "retriable e \<longleftrightarrow> (case ce_status e of Network \<Rightarrow> True | Timeout \<Rightarrow> True | NotAttached \<Rightarrow> False | Http n \<Rightarrow> n = 429 \<or> n \<ge> 500)"

text \<open>
  The client of one run: the policy read, and the answer to a write of its rules. \<open>probe\<close> is the
  second call of \<open>getPolicy\<close>, on the account.
\<close>

record client =
  cl_attached :: "cf_error + policy"
  cl_probe :: "cf_error + unit"
  cl_update :: "rule list \<Rightarrow> cf_error option"

definition getPolicy :: "client \<Rightarrow> cf_error + policy" where
  "getPolicy c = (case cl_attached c of
     Inr p \<Rightarrow> Inr p
   | Inl e \<Rightarrow> if ce_status e \<noteq> Http 404 then Inl e
       else (case cl_probe c of
           Inl e' \<Rightarrow> if ce_status e' = Http 404 then Inl e else Inl e'
         | Inr _ \<Rightarrow> Inl \<lparr>ce_status = NotAttached, ce_retry_after = None, ce_text = ''not_attached''\<rparr>))"

section \<open>One run\<close>

definition RETRY_DELAYS_MS :: "int list" where
  "RETRY_DELAYS_MS = [60000, 300000, 900000]"

definition RETRY_CAP_MS :: int where
  "RETRY_CAP_MS = 3600000"

text \<open>Attempts are counted from one.\<close>

definition retryDelayMs :: "nat \<Rightarrow> nat option \<Rightarrow> int option" where
  "retryDelayMs attempt retryAfter =
     (if attempt = 0 \<or> attempt > length RETRY_DELAYS_MS then None
      else let delay = max (RETRY_DELAYS_MS ! (attempt - 1)) (case retryAfter of Some s \<Rightarrow> int s * 1000 | None \<Rightarrow> 0)
           in if delay > RETRY_CAP_MS then None else Some delay)"

record run_input =
  ri_trigger :: string
  ri_google :: bool
  ri_admins :: "string list"
  ri_max_disables :: nat
  ri_max_imports :: nat
  ri_can_retry :: bool

definition blank_run :: "run_input \<Rightarrow> time_ms \<Rightarrow> string \<Rightarrow> run_result" where
  "blank_run i t outcome = \<lparr>rr_trigger = ri_trigger i, rr_started = t, rr_outcome = outcome, rr_added = 0, rr_removed = 0,
     rr_imported = 0, rr_disabled = 0, rr_would_disable = 0, rr_would_import = 0, rr_errors = 0, rr_error = None,
     rr_retriable = False, rr_retry_attempt = 0, rr_next_retry = None\<rparr>"

text \<open>
  The run's result is written under the sync's lock: with its state changes, unless the settings
  point elsewhere by then.
\<close>

definition finish :: "config \<Rightarrow> (panel \<Rightarrow> panel) \<Rightarrow> run_result \<Rightarrow> (sync_state \<Rightarrow> sync_state) \<Rightarrow> panel \<Rightarrow> run_result \<times> panel" where
  "finish cfg meanwhile result patch p =
     (let p1 = meanwhile p; fresh = pl_sync p1;
          sync = (if same_target (pl_config p1) cfg
            then (patch fresh)\<lparr>sy_retry := rr_retry_attempt result, sy_last := Some result\<rparr>
            else fresh\<lparr>sy_last := Some result\<rparr>)
      in (result, p1\<lparr>pl_sync := sync\<rparr>))"

definition failed_run :: "config \<Rightarrow> (panel \<Rightarrow> panel) \<Rightarrow> run_input \<Rightarrow> nat \<Rightarrow> string \<Rightarrow> cf_error option \<Rightarrow> time_ms \<Rightarrow> panel
    \<Rightarrow> run_result \<times> panel" where
  "failed_run cfg meanwhile i retries err cause t p =
     (let r = (blank_run i t ''failed'')\<lparr>rr_error := Some err\<rparr>
      in case cause of
           None \<Rightarrow> finish cfg meanwhile r id p
         | Some e \<Rightarrow>
             if \<not> retriable e then finish cfg meanwhile r id p
             else let attempt = (if ri_trigger i = ''retry'' then retries + 1 else 1);
                      delay = (if ri_can_retry i then retryDelayMs attempt (ce_retry_after e) else None)
                  in finish cfg meanwhile (r\<lparr>rr_retriable := True,
                       rr_retry_attempt := (if delay = None then 0 else attempt),
                       rr_next_retry := map_option (\<lambda>d. t + d) delay\<rparr>) id p)"

text \<open>An address of the policy becomes a user: the users made, the refused addresses.\<close>

definition import_one :: "time_ms \<Rightarrow> string \<Rightarrow> user list \<times> nat \<times> panel \<Rightarrow> user list \<times> nat \<times> panel" where
  "import_one t email acc = (case acc of (made, errors, p) \<Rightarrow>
     if isTombstoned email (pl_tombs p) then acc
     else (case claimOrCreateUserByEmail email False t (pl_next p, pl_users p) of
         (UsernameTaken, _) \<Rightarrow> (made, Suc errors, p)
       | (c, n, us) \<Rightarrow>
           let p1 = p\<lparr>pl_next := n, pl_users := us\<rparr>
           in (case c of
                 Created u \<Rightarrow> (if us_disabled u = None then made @ [u] else made, errors, p1)
               | Claimed u \<Rightarrow> (if us_disabled u = None then made @ [u] else made, errors, p1)
               | _ \<Rightarrow> (made, errors, p1))))"

definition deed :: "deed \<Rightarrow> panel \<Rightarrow> panel" where
  "deed d p = p\<lparr>pl_deeds := pl_deeds p @ [d]\<rparr>"

definition importUsers :: "string list \<Rightarrow> time_ms \<Rightarrow> panel \<Rightarrow> user list \<times> nat \<times> panel" where
  "importUsers emails t p = (case fold (import_one t) emails ([], 0, p) of (made, errors, p1) \<Rightarrow>
     (made, errors, if made = [] then p1 else deed (Journal ''access.user_imported'' (map (\<lambda>u. the (us_email u)) made)) p1))"

definition known_emails :: "user list \<Rightarrow> string list" where
  "known_emails us = List.map_filter email_of us"

definition active_users :: "user list \<Rightarrow> user list" where
  "active_users us = filter (\<lambda>u. us_disabled u = None) us"

text \<open>The plan of a run, from one read of the users: what it would import and disable.\<close>

record plan =
  pn_invalid :: "string list"
  pn_import :: "string list"
  pn_disable :: "string list"
  pn_adopt :: "string list"
  pn_unpinned :: "string list"

definition plan_of :: "run_input \<Rightarrow> policy \<Rightarrow> panel \<Rightarrow> plan" where
  "plan_of i po p =
     (let active = active_users (pl_users p); listed = listedEmails (po_include po);
          byRule = known_emails (filter (\<lambda>u. us_access_source u = Some ACCESS_LOGIN_SOURCE) active);
          proposed = importCandidates po (sy_baseline (pl_sync p)) (ri_admins i);
          fresh = filter (\<lambda>e. normalizeEmail e = Some e \<and> e \<notin> set (known_emails (pl_users p))) proposed;
          tombed = tombstonedAmong fresh (pl_tombs p)
      in \<lparr>pn_invalid = filter (\<lambda>e. normalizeEmail e \<noteq> Some e) proposed,
          pn_import = filter (\<lambda>e. e \<notin> set tombed) fresh,
          pn_disable = removedInCloudflare po (sy_baseline (pl_sync p)) (known_emails active) (ri_admins i),
          pn_adopt = filter (\<lambda>e. e \<in> set listed) byRule,
          pn_unpinned = filter (\<lambda>e. e \<notin> set listed) byRule\<rparr>)"

definition stopped_run :: "config \<Rightarrow> (panel \<Rightarrow> panel) \<Rightarrow> run_input \<Rightarrow> plan \<Rightarrow> bool \<Rightarrow> bool \<Rightarrow> time_ms \<Rightarrow> panel
    \<Rightarrow> run_result \<times> panel" where
  "stopped_run cfg meanwhile i pn disables imports t p =
     (let p1 = (if disables \<and> sy_candidates (pl_sync p) \<noteq> Some (pn_disable pn)
            then deed (Journal ''access.sync_aborted'' (pn_disable pn)) p else p);
          p2 = (if imports \<and> sy_imports (pl_sync p) \<noteq> Some (pn_import pn)
            then deed (Journal ''access.import_aborted'' (pn_import pn)) p1 else p1)
      in finish cfg meanwhile
           ((blank_run i t ''aborted'')\<lparr>rr_would_disable := (if disables then length (pn_disable pn) else 0),
              rr_would_import := (if imports then length (pn_import pn) else 0)\<rparr>)
           (\<lambda>s. s\<lparr>sy_candidates := (if disables then Some (pn_disable pn) else None),
                  sy_imports := (if imports then Some (pn_import pn) else None)\<rparr>) p2)"

text \<open>
  The changes of a run to the panel: imports, adoptions, users turned off and signed out. The users
  made, the refused addresses, the users turned off.
\<close>

definition run_changes :: "run_input \<Rightarrow> plan \<Rightarrow> time_ms \<Rightarrow> panel \<Rightarrow> user list \<times> nat \<times> user list \<times> panel" where
  "run_changes i pn t p =
     (case (if pn_import pn = [] then ([], 0, p) else importUsers (pn_import pn) t p) of (made, errors, p1) \<Rightarrow>
      let p2 = p1\<lparr>pl_users := sql_update (\<lambda>u. (case email_of u of Some e \<Rightarrow> e \<in> set (pn_adopt pn) | None \<Rightarrow> False)
                 \<and> us_access_source u = Some ACCESS_LOGIN_SOURCE) (\<lambda>u. u\<lparr>us_access_source := None\<rparr>) (pl_users p1)\<rparr>
      in case disableUsersByEmail (pn_disable pn) True (ri_admins i) t (pl_users p2) of (off, _, us) \<Rightarrow>
      let p3 = p2\<lparr>pl_users := us\<rparr>;
          p4 = (if off = [] then p3 else deed (Journal ''user.disabled'' (List.map_filter us_email off)) p3)
      in (made, errors, off, fold (\<lambda>u. deed (SignedOut (us_id u))) off p4))"

definition run_desired :: "run_input \<Rightarrow> plan \<Rightarrow> string list \<Rightarrow> user list \<Rightarrow> user list \<Rightarrow> string list" where
  "run_desired i pn activeEmails made off =
     sort (js_set (filter (\<lambda>e. e \<notin> set (known_emails off) \<and> e \<notin> set (pn_unpinned pn)) activeEmails
       @ known_emails made @ ri_admins i))"

text \<open>The changes, then the policy.\<close>

definition applied_run :: "config \<Rightarrow> (panel \<Rightarrow> panel) \<Rightarrow> client \<Rightarrow> run_input \<Rightarrow> policy \<Rightarrow> plan \<Rightarrow> time_ms \<Rightarrow> panel
    \<Rightarrow> run_result \<times> panel" where
  "applied_run cfg meanwhile c i po pn t p = (case run_changes i pn t p of (made, errors, off, p5) \<Rightarrow>
      let desired = run_desired i pn (known_emails (active_users (pl_users p))) made off;
          b = buildInclude po (sy_baseline (pl_sync p)) desired;
          base = (blank_run i t ''empty'')\<lparr>rr_imported := length made, rr_disabled := length off,
                    rr_errors := errors + length (pn_invalid pn)\<rparr>
      in if bu_include b = [] then
           finish cfg meanwhile base
             (\<lambda>s. s\<lparr>sy_policy_emails := listedEmails (po_include po), sy_candidates := None, sy_imports := None\<rparr>) p5
         else (case (if bu_changed b then cl_update c (bu_include b) else None) of
             Some e \<Rightarrow> failed_run cfg meanwhile i (sy_retry (pl_sync p))
               (if ce_status e = NotAttached then ''policy_not_attached'' else ce_text e) (Some e) t p5
           | None \<Rightarrow> finish cfg meanwhile
               (base\<lparr>rr_outcome := (if bu_changed b then ''updated'' else ''unchanged''), rr_added := length (bu_added b),
                  rr_removed := length (bu_removed b)\<rparr>)
               (\<lambda>s. s\<lparr>sy_baseline := desired, sy_policy_emails := listedEmails (bu_include b), sy_candidates := None,
                  sy_imports := None\<rparr>) p5))"

text \<open>\<open>None\<close>: the run did nothing, the panel not being in google mode or the sync not set up.\<close>

definition runAccessSync ::
  "(string \<Rightarrow> string option) \<Rightarrow> (panel \<Rightarrow> panel) \<Rightarrow> client \<Rightarrow> run_input \<Rightarrow> time_ms \<Rightarrow> panel \<Rightarrow> run_result option \<times> panel" where
  "runAccessSync decrypt meanwhile c i t p =
     (if \<not> ri_google i then (None, p)
      else case loadRunConfig decrypt (pl_config p) of
        None \<Rightarrow> (None, p)
      | Some (cfg, token) \<Rightarrow> apfst Some (
          if \<not> text_given token then failed_run cfg meanwhile i (sy_retry (pl_sync p)) ''token_unreadable'' None t p
          else case getPolicy c of
            Inl e \<Rightarrow> failed_run cfg meanwhile i (sy_retry (pl_sync p))
              (if ce_status e = NotAttached then ''policy_not_attached'' else ce_text e) (Some e) t p
          | Inr po \<Rightarrow>
              if po_decision po \<noteq> Some ''allow'' then failed_run cfg meanwhile i (sy_retry (pl_sync p)) ''policy_not_allow'' None t p
              else let pn = plan_of i po p;
                       disables = exceedsDisableLimit (length (pn_disable pn)) (length (known_emails (active_users (pl_users p)))) (ri_max_disables i);
                       imports = exceedsImportLimit (length (pn_import pn)) (ri_max_imports i)
                   in if disables \<or> imports then stopped_run cfg meanwhile i pn disables imports t p
                      else applied_run cfg meanwhile c i po pn t p))"

section \<open>Where a user stands\<close>

datatype access_state = NotSynced | InAccess | Pending | AdmittedByRule | RemovedInCloudflare

definition accessStateOf :: "user \<Rightarrow> bool \<Rightarrow> sync_state \<Rightarrow> access_state option" where
  "accessStateOf u synced s =
     (if \<not> synced then Some NotSynced
      else case email_of u of
        None \<Rightarrow> None
      | Some e \<Rightarrow>
          if e = [] then None
          else if us_disabled u \<noteq> None
          then (if us_disabled_source u = Some ACCESS_REMOVED_SOURCE then Some RemovedInCloudflare else None)
          else if e \<in> set (case sy_candidates s of Some xs \<Rightarrow> xs | None \<Rightarrow> []) then Some RemovedInCloudflare
          else if e \<in> set (sy_policy_emails s) then Some InAccess
          else Some (if us_access_source u = Some ACCESS_LOGIN_SOURCE then AdmittedByRule else Pending))"

end
