(* ===== verification/AccessUsers.thy ===== *)
theory AccessUsers
  imports AccessSync
begin

text \<open>
  What the operations of a run do to the table of users, in terms of the addresses: which are known,
  which are active, which stand by a rule alone, how many rows are disabled, and whether an
  administrator is left.
\<close>

section \<open>Addresses\<close>

definition users_ok :: "user list \<Rightarrow> bool" where
  "users_ok us \<longleftrightarrow> distinct (map us_id us)
     \<and> (\<forall>a\<in>set us. \<forall>b\<in>set us. email_of a \<noteq> None \<and> email_of a = email_of b \<longrightarrow> us_id a = us_id b)"

definition active_email :: "user list \<Rightarrow> string \<Rightarrow> bool" where
  "active_email us e \<longleftrightarrow> e \<in> set (known_emails (active_users us))"

definition by_rule :: "user list \<Rightarrow> string \<Rightarrow> bool" where
  "by_rule us e \<longleftrightarrow> e \<in> set (known_emails (filter (\<lambda>u. us_access_source u = Some ACCESS_LOGIN_SOURCE) (active_users us)))"

definition disabled_count :: "user list \<Rightarrow> nat" where
  "disabled_count us = length (filter (\<lambda>u. us_disabled u \<noteq> None) us)"

definition admin_left :: "user list \<Rightarrow> bool" where
  "admin_left us \<longleftrightarrow> list_ex (\<lambda>u. us_admin u \<and> us_disabled u = None \<and> us_email u \<noteq> None) us"

lemma known_iff: "e \<in> set (known_emails us) \<longleftrightarrow> (\<exists>u\<in>set us. email_of u = Some e)"
  by (force simp: known_emails_def List.map_filter_def)

lemma active_iff: "active_email us e \<longleftrightarrow> (\<exists>u\<in>set us. email_of u = Some e \<and> us_disabled u = None)"
  unfolding active_email_def known_iff active_users_def by auto

lemma by_rule_iff: "by_rule us e \<longleftrightarrow> (\<exists>u\<in>set us. email_of u = Some e \<and> us_disabled u = None
    \<and> us_access_source u = Some ACCESS_LOGIN_SOURCE)"
  unfolding by_rule_def known_iff active_users_def by auto

lemmas email_views = known_iff active_iff by_rule_iff

lemma known_emails_append [simp]: "known_emails (a @ b) = known_emails a @ known_emails b"
  by (simp add: known_emails_def List.map_filter_def)

lemma known_emails_update: "(\<And>u. email_of (f u) = email_of u) \<Longrightarrow> known_emails (sql_update p f us) = known_emails us"
  by (induction us) (auto simp: known_emails_def sql_update_def List.map_filter_def)

lemma users_okD: "\<lbrakk>users_ok us; a \<in> set us; b \<in> set us; email_of a \<noteq> None; email_of a = email_of b\<rbrakk> \<Longrightarrow> us_id a = us_id b"
  unfolding users_ok_def by blast

lemma users_ok_update:
  assumes ok: "users_ok us" and e: "\<And>u. email_of (f u) = email_of u" and i: "\<And>u. us_id (f u) = us_id u"
  shows "users_ok (sql_update p f us)"
proof -
  have same: "us_id a = us_id b" if a: "a \<in> set (sql_update p f us)" and b: "b \<in> set (sql_update p f us)"
    and some: "email_of a \<noteq> None" and eq: "email_of a = email_of b" for a b
  proof -
    obtain u where u: "u \<in> set us" "a = (if p u then f u else u)" using a by (auto simp: sql_update_def)
    obtain v where v: "v \<in> set us" "b = (if p v then f v else v)" using b by (auto simp: sql_update_def)
    have ids: "us_id a = us_id u" "us_id b = us_id v" using u(2) v(2) i by simp_all
    have "email_of u \<noteq> None" "email_of u = email_of v" using u(2) v(2) e some eq by (auto split: if_splits)
    then show ?thesis unfolding ids by (rule users_okD [OF ok u(1) v(1)])
  qed
  have "map us_id (sql_update p f us) = map us_id us" using i by (simp add: sql_update_def)
  then have "distinct (map us_id (sql_update p f us))" using ok by (simp add: users_ok_def)
  then show ?thesis unfolding users_ok_def using same by blast
qed

lemma same_id: "\<lbrakk>users_ok us; a \<in> set us; b \<in> set us; us_id a = us_id b\<rbrakk> \<Longrightarrow> a = b"
  unfolding users_ok_def distinct_map by (blast dest: inj_onD)

lemma same_address:
  assumes "users_ok us" and "a \<in> set us" and "b \<in> set us" and "email_of a = Some e" and "email_of b = Some e"
  shows "a = b"
  using assms by (intro same_id users_okD) simp_all

lemma in_sql_updateD: "x \<in> set (sql_update p f us) \<Longrightarrow> \<exists>u\<in>set us. x = (if p u then f u else u)"
  by (auto simp: sql_update_def)

lemma sql_update_ex: "(\<exists>x\<in>set (sql_update p f us). q x) \<longleftrightarrow> (\<exists>u\<in>set us. q (if p u then f u else u))"
  by (auto simp: sql_update_def)

section \<open>Turning users off\<close>

abbreviation turned_off :: "time_ms \<Rightarrow> user \<Rightarrow> user" where
  "turned_off t \<equiv> \<lambda>u. u\<lparr>us_disabled := Some t, us_disabled_source := Some ACCESS_REMOVED_SOURCE\<rparr>"

lemma email_of_turned_off [simp]: "email_of (turned_off t u) = email_of u"
  by (simp add: email_of_def)

lemma count_turned_off:
  "distinct (map us_id us) \<Longrightarrow> disabled_count (sql_update (\<lambda>u. us_id u = i) (turned_off t) us) \<le> Suc (disabled_count us)"
proof (induction us)
  case (Cons u us)
  show ?case
  proof (cases "us_id u = i")
    case True
    then have "us_id x \<noteq> i" if "x \<in> set us" for x using Cons.prems True imageI [OF that, of us_id] by auto
    then have "sql_update (\<lambda>u. us_id u = i) (turned_off t) us = us" by (simp add: sql_update_def map_idI)
    then show ?thesis using True by (simp add: disabled_count_def sql_update_def)
  next
    case False
    then show ?thesis using Cons by (auto simp: disabled_count_def sql_update_def)
  qed
qed (simp add: disabled_count_def sql_update_def)

text \<open>What one step of the loop keeps; \<open>D\<close>: the addresses it was given.\<close>

definition off_ok :: "string list \<Rightarrow> user list \<Rightarrow> string set \<Rightarrow> user list \<times> string list \<times> user list \<Rightarrow> bool" where
  "off_ok bootstrap us0 D acc \<longleftrightarrow> (case acc of (off, kept, us) \<Rightarrow>
     users_ok us \<and> known_emails us = known_emails us0
   \<and> (\<forall>e. active_email us e \<longleftrightarrow> active_email us0 e \<and> e \<notin> set (known_emails off))
   \<and> (\<forall>e. by_rule us e \<longleftrightarrow> by_rule us0 e \<and> e \<notin> set (known_emails off))
   \<and> set (known_emails off) \<subseteq> D - set bootstrap
   \<and> length us = length us0 \<and> disabled_count us \<le> disabled_count us0 + length off
   \<and> (admin_left us0 \<longrightarrow> admin_left us))"

lemma off_step:
  assumes ok: "off_ok bootstrap us0 D acc" and "email \<noteq> []"
  shows "off_ok bootstrap us0 (insert email D) (disable_one True bootstrap t email acc)
    \<and> length (fst (disable_one True bootstrap t email acc)) \<le> Suc (length (fst acc))"
proof -
  obtain off kept us where acc: "acc = (off, kept, us)" by (rule prod_cases3)
  note O = ok [unfolded off_ok_def acc prod.case]
  show ?thesis
  proof (cases "email \<in> set bootstrap \<or> find (\<lambda>u. email_of u = Some email \<and> us_disabled u = None) us = None")
    case True
    then show ?thesis using ok by (auto simp: disable_one_def acc off_ok_def)
  next
    case False
    then obtain cur where cur: "find (\<lambda>u. email_of u = Some email \<and> us_disabled u = None) us = Some cur" and out: "email \<notin> set bootstrap"
      by auto
    then have c: "cur \<in> set us" "email_of cur = Some email" "us_disabled cur = None"
      by (auto simp: find_Some_iff in_set_conv_nth)
    show ?thesis
    proof (cases "countsAsActiveAdmin cur True \<and> \<not> otherActiveAdminExists us (us_id cur) True")
      case True
      then show ?thesis using ok out cur by (auto simp: disable_one_def acc off_ok_def)
    next
      case go: False
      let ?us = "sql_update (\<lambda>u. us_id u = us_id cur) (turned_off t) us"
      have step: "disable_one True bootstrap t email acc = (off @ [cur], kept, ?us)"
        using go out cur by (simp add: disable_one_def acc)
      have off: "known_emails (off @ [cur]) = known_emails off @ [email]" using c(2) by (simp add: known_emails_def List.map_filter_def)
      have only: "u = cur" if "u \<in> set us" "us_id u = us_id cur" for u
        using that c(1) O by (auto simp: users_ok_def distinct_map dest: inj_onD)
      have mine: "email_of u = Some email \<longleftrightarrow> u = cur" if "u \<in> set us" for u
        using same_address [of us u cur email] O c that by auto
      have others: "(\<exists>u\<in>set us. email_of (if us_id u = us_id cur then turned_off t u else u) = Some e
            \<and> us_disabled (if us_id u = us_id cur then turned_off t u else u) = None
            \<and> q (if us_id u = us_id cur then turned_off t u else u))
          \<longleftrightarrow> (\<exists>u\<in>set us. email_of u = Some e \<and> us_disabled u = None \<and> q u) \<and> e \<noteq> email" for e q
      proof -
        have "email_of (if us_id u = us_id cur then turned_off t u else u) = Some e
            \<and> us_disabled (if us_id u = us_id cur then turned_off t u else u) = None
            \<and> q (if us_id u = us_id cur then turned_off t u else u)
          \<longleftrightarrow> email_of u = Some e \<and> us_disabled u = None \<and> q u \<and> e \<noteq> email" if "u \<in> set us" for u
        proof (cases "u = cur")
          case False
          then have "us_id u \<noteq> us_id cur" "email_of u \<noteq> Some email" using only mine that by auto
          then show ?thesis by auto
        qed (use c(2) in simp)
        then show ?thesis by auto
      qed
      have active: "active_email ?us e \<longleftrightarrow> active_email us e \<and> e \<noteq> email" for e
        unfolding active_iff sql_update_ex using others [of e "\<lambda>_. True"] by simp
      have rule: "by_rule ?us e \<longleftrightarrow> by_rule us e \<and> e \<noteq> email" for e
        unfolding by_rule_iff sql_update_ex by (rule others)
      have "admin_left ?us" if "admin_left us"
      proof (cases "us_admin cur")
        case True
        then have "countsAsActiveAdmin cur True"
          using c assms(2) by (cases "us_email cur") (auto simp: countsAsActiveAdmin_def text_given_def email_of_def js_lower_def)
        then have "otherActiveAdminExists us (us_id cur) True" using go by simp
        then obtain v where v: "v \<in> set us" "us_admin v" "us_disabled v = None" "us_id v \<noteq> us_id cur" "us_email v \<noteq> None"
          by (auto simp: otherActiveAdminExists_def list_ex_iff)
        then show ?thesis unfolding admin_left_def list_ex_iff sql_update_ex by (intro bexI [of _ v]) simp_all
      next
        case False
        then show ?thesis using that only unfolding admin_left_def list_ex_iff sql_update_ex by fastforce
      qed
      moreover have "length ?us = length us" by (simp add: sql_update_def)
      moreover have "users_ok ?us" "known_emails ?us = known_emails us" using O by (simp_all add: users_ok_update known_emails_update)
      moreover have "disabled_count ?us \<le> Suc (disabled_count us)" using O by (intro count_turned_off) (simp add: users_ok_def)
      ultimately show ?thesis
        using O out unfolding step off_ok_def prod.case off by (auto simp: active rule acc)
    qed
  qed
qed

lemma off_all:
  assumes "users_ok us" and "[] \<notin> set emails"
  shows "off_ok bootstrap us (set emails) (disableUsersByEmail emails True bootstrap t us)
    \<and> length (fst (disableUsersByEmail emails True bootstrap t us)) \<le> length emails"
proof -
  have "off_ok bootstrap us (D \<union> set emails) (fold (disable_one True bootstrap t) emails acc)
      \<and> length (fst (fold (disable_one True bootstrap t) emails acc)) \<le> length (fst acc) + length emails"
    if "off_ok bootstrap us D acc" "[] \<notin> set emails" for D acc emails
    using that
  proof (induction emails arbitrary: D acc)
    case (Cons e emails)
    have "off_ok bootstrap us (insert e D) (disable_one True bootstrap t e acc)"
      "length (fst (disable_one True bootstrap t e acc)) \<le> Suc (length (fst acc))"
      using off_step [OF Cons.prems(1), of e t] Cons.prems(2) by auto
    then show ?case using Cons.IH [of "insert e D" "disable_one True bootstrap t e acc"] Cons.prems(2) by auto
  qed simp
  moreover have "off_ok bootstrap us {} ([], [], us)" using assms(1) by (simp add: off_ok_def known_emails_def List.map_filter_def)
  ultimately show ?thesis using assms(2) unfolding disableUsersByEmail_def by fastforce
qed

section \<open>Imports\<close>

lemma normalizeEmail_plain:
  assumes "normalizeEmail e = Some a"
  shows "plain a \<and> js_lower a = a"
proof -
  have a: "a = js_lower (js_trim e)" "EMAIL_PATTERN a"
    using assms by (auto simp: normalizeEmail_def Let_def split: if_splits)
  then have "a \<noteq> []" by (auto simp: EMAIL_PATTERN_def Let_def)
  moreover have "js_trim (js_trim e) = js_trim e" by simp
  ultimately show ?thesis using a(1) by (simp add: plain_def)
qed

abbreviation with_email :: "string \<Rightarrow> user \<Rightarrow> user" where
  "with_email e \<equiv> \<lambda>u. u\<lparr>us_email := Some e\<rparr>"

lemma first_by_in: "first_by k xs = Some x \<Longrightarrow> x \<in> set xs"
  by (induction xs arbitrary: x) (auto split: option.splits if_splits)

lemma email_of_with [simp]: "email_of (with_email e u) = Some (js_lower e)"
  by (simp add: email_of_def)

lemma nobody: "findUserByEmail e us = None \<longleftrightarrow> (\<forall>u\<in>set us. email_of u \<noteq> Some e)"
  by (auto simp: findUserByEmail_def find_None_iff)

lemma in_claimed:
  "x \<in> set (sql_update (\<lambda>y. us_id y = i) f us) \<longleftrightarrow> (\<exists>y\<in>set us. x = (if us_id y = i then f y else y))"
  unfolding sql_update_def set_map image_iff by simp

lemma claimed_user:
  assumes ok: "users_ok us" and u: "u \<in> set us" "us_email u = None" and no: "\<forall>x\<in>set us. email_of x \<noteq> Some e" and low: "js_lower e = e"
  defines "us' \<equiv> sql_update (\<lambda>x. us_id x = us_id u) (with_email e) us"
  shows "users_ok us'" and "\<And>a. active_email us' a \<longleftrightarrow> active_email us a \<or> (a = e \<and> us_disabled u = None)"
    and "\<And>a. a \<noteq> e \<Longrightarrow> by_rule us' a \<longleftrightarrow> by_rule us a" and "set (known_emails us') = insert e (set (known_emails us))"
    and "disabled_count us' = disabled_count us" and "admin_left us \<Longrightarrow> admin_left us'"
proof -
  have only: "us_id x = us_id u \<longleftrightarrow> x = u" if "x \<in> set us" for x using same_id [OF ok that u(1)] by blast
  have mem: "x \<in> set us' \<longleftrightarrow> x = with_email e u \<or> (x \<in> set us \<and> x \<noteq> u)" for x
  proof -
    have "x \<in> set us' \<longleftrightarrow> (\<exists>y\<in>set us. x = (if y = u then with_email e y else y))"
      unfolding us'_def in_claimed by (intro bex_cong refl) (simp only: only)
    then show ?thesis using u(1) by auto
  qed
  have none: "email_of u = None" using u(2) by (simp add: email_of_def)
  show "users_ok us'"
  proof -
    have "distinct (map us_id us')" using ok by (simp add: us'_def users_ok_def distinct_update)
    moreover have "us_id a = us_id b" if a: "a \<in> set us'" and b: "b \<in> set us'" and some: "email_of a \<noteq> None" and eq: "email_of a = email_of b" for a b
    proof -
      have new: "email_of (with_email e u) = Some e" using low by simp
      have old: "email_of x \<noteq> Some e" if "x \<in> set us" for x using no that by blast
      show ?thesis
      proof (cases "a = with_email e u \<or> b = with_email e u")
        case True
        then have "a = b" using a b eq new old unfolding mem by metis
        then show ?thesis by simp
      next
        case False
        then show ?thesis using a b users_okD [OF ok _ _ some eq] unfolding mem by blast
      qed
    qed
    ultimately show ?thesis unfolding users_ok_def by blast
  qed
  have found: "(\<exists>x\<in>set us'. email_of x = Some a \<and> q x)
      \<longleftrightarrow> (a = e \<and> q (with_email e u)) \<or> (\<exists>x\<in>set us. email_of x = Some a \<and> q x)" for a q
  proof -
    have "(\<exists>x\<in>set us'. email_of x = Some a \<and> q x)
        \<longleftrightarrow> (a = e \<and> q (with_email e u)) \<or> (\<exists>x\<in>set us. x \<noteq> u \<and> email_of x = Some a \<and> q x)"
      unfolding Bex_def mem using low by auto
    moreover have "(\<exists>x\<in>set us. x \<noteq> u \<and> email_of x = Some a \<and> q x) \<longleftrightarrow> (\<exists>x\<in>set us. email_of x = Some a \<and> q x)"
      using none by (intro bex_cong refl) auto
    ultimately show ?thesis by blast
  qed
  show "active_email us' a \<longleftrightarrow> active_email us a \<or> (a = e \<and> us_disabled u = None)" for a
    unfolding active_iff found by auto
  show "by_rule us' a \<longleftrightarrow> by_rule us a" if "a \<noteq> e" for a
    unfolding by_rule_iff found using that by blast
  show "set (known_emails us') = insert e (set (known_emails us))"
    using found [of _ "\<lambda>_. True"] by (simp add: known_iff set_eq_iff)
  show "disabled_count us' = disabled_count us"
    unfolding us'_def disabled_count_def by (induction us) (auto simp: sql_update_def)
  show "admin_left us'" if "admin_left us"
  proof -
    obtain v where "v \<in> set us" "us_admin v" "us_disabled v = None" "us_email v \<noteq> None"
      using \<open>admin_left us\<close> by (auto simp: admin_left_def list_ex_iff)
    then show ?thesis using mem [of v] u(2) by (auto simp: admin_left_def list_ex_iff)
  qed
qed

lemma created_user:
  assumes ok: "users_ok us" and no: "\<forall>x\<in>set us. email_of x \<noteq> Some e" and id: "us_id u \<notin> set (map us_id us)"
    and u: "email_of u = Some e" "us_disabled u = None"
  shows "users_ok (us @ [u])" and "\<And>a. active_email (us @ [u]) a \<longleftrightarrow> active_email us a \<or> a = e"
    and "\<And>a. a \<noteq> e \<Longrightarrow> by_rule (us @ [u]) a \<longleftrightarrow> by_rule us a" and "set (known_emails (us @ [u])) = insert e (set (known_emails us))"
    and "disabled_count (us @ [u]) = disabled_count us" and "admin_left us \<Longrightarrow> admin_left (us @ [u])"
proof -
  have "us_id a = us_id b" if "a \<in> set (us @ [u])" "b \<in> set (us @ [u])" and some: "email_of a \<noteq> None" and eq: "email_of a = email_of b" for a b
  proof (cases "a = u \<or> b = u")
    case True
    then have "a = b" using that(1,2) eq u(1) no by (metis UnE empty_iff insert_iff list.set(1) list.set(2) set_append)
    then show ?thesis by simp
  next
    case False
    then show ?thesis using that(1,2) users_okD [OF ok _ _ some eq] by simp
  qed
  moreover have "distinct (map us_id (us @ [u]))" using ok id by (auto simp: users_ok_def)
  ultimately show "users_ok (us @ [u])" unfolding users_ok_def by blast
qed (use u in \<open>auto simp: email_views disabled_count_def admin_left_def\<close>)

section \<open>A batch of imports\<close>

text \<open>What the imports keep; \<open>D\<close>: the addresses tried.\<close>

definition imported_ok :: "panel \<Rightarrow> string set \<Rightarrow> user list \<times> nat \<times> panel \<Rightarrow> bool" where
  "imported_ok p0 D acc \<longleftrightarrow> (case acc of (made, errors, p) \<Rightarrow>
     users_ok (pl_users p) \<and> (\<forall>u\<in>set (pl_users p). us_id u < pl_next p)
   \<and> pl_tombs p = pl_tombs p0 \<and> pl_sync p = pl_sync p0 \<and> pl_config p = pl_config p0
   \<and> (\<forall>e. active_email (pl_users p) e \<longleftrightarrow> active_email (pl_users p0) e \<or> e \<in> set (known_emails made))
   \<and> set (known_emails made) \<subseteq> D
   \<and> (\<forall>e. e \<notin> D \<longrightarrow> (by_rule (pl_users p) e \<longleftrightarrow> by_rule (pl_users p0) e))
   \<and> set (known_emails (pl_users p0)) \<subseteq> set (known_emails (pl_users p))
   \<and> set (known_emails (pl_users p)) \<subseteq> set (known_emails (pl_users p0)) \<union> D
   \<and> (errors = 0 \<longrightarrow> (\<forall>e\<in>D. isTombstoned e (pl_tombs p0) \<or> e \<in> set (known_emails (pl_users p))))
   \<and> disabled_count (pl_users p) = disabled_count (pl_users p0)
   \<and> (admin_left (pl_users p0) \<longrightarrow> admin_left (pl_users p)))"

lemma known_emails_one: "email_of u = Some e \<Longrightarrow> known_emails [u] = [e]"
  by (simp add: known_emails_def List.map_filter_def)

lemma created_id: "\<forall>u\<in>set us. us_id u < (n :: nat) \<Longrightarrow> n \<notin> set (map us_id us)"
  by auto

lemma imported_ok_new:
  assumes ok: "imported_ok p0 D (made, errors, p)"
    and us: "users_ok us" "\<forall>u\<in>set us. us_id u < n"
    and active: "\<And>a. active_email us a \<longleftrightarrow> active_email (pl_users p) a \<or> a \<in> set (known_emails xs)"
    and xs: "set (known_emails xs) \<subseteq> {e}"
    and rule: "\<And>a. a \<noteq> e \<Longrightarrow> by_rule us a \<longleftrightarrow> by_rule (pl_users p) a"
    and known: "set (known_emails us) = insert e (set (known_emails (pl_users p)))"
    and off: "disabled_count us = disabled_count (pl_users p)" and adm: "admin_left (pl_users p) \<Longrightarrow> admin_left us"
  shows "imported_ok p0 (insert e D) (made @ xs, errors, p\<lparr>pl_next := n, pl_users := us\<rparr>)"
proof -
  note O = ok [unfolded imported_ok_def prod.case]
  have O6: "(\<forall>a. active_email (pl_users p) a \<longleftrightarrow> active_email (pl_users p0) a \<or> a \<in> set (known_emails made)) \<and> True" using O by blast
  have O8: "a \<notin> D \<Longrightarrow> by_rule (pl_users p) a \<longleftrightarrow> by_rule (pl_users p0) a" for a using O by blast
  have O9: "set (known_emails (pl_users p0)) \<subseteq> set (known_emails (pl_users p))"
    "set (known_emails (pl_users p)) \<subseteq> set (known_emails (pl_users p0)) \<union> D"
    "errors = 0 \<longrightarrow> (\<forall>e\<in>D. isTombstoned e (pl_tombs p0) \<or> e \<in> set (known_emails (pl_users p)))" using O by blast+
  have 1: "\<forall>a. active_email us a \<longleftrightarrow> active_email (pl_users p0) a \<or> a \<in> set (known_emails (made @ xs))"
    using conjunct1 [OF O6] active by (simp add: disj_assoc)
  have 2: "set (known_emails (made @ xs)) \<subseteq> insert e D" using ok xs by (auto simp: imported_ok_def)
  have 3: "\<forall>a. a \<notin> insert e D \<longrightarrow> (by_rule us a \<longleftrightarrow> by_rule (pl_users p0) a)" using O8 rule by simp
  have 4: "set (known_emails (pl_users p0)) \<subseteq> set (known_emails us)"
    "set (known_emails us) \<subseteq> set (known_emails (pl_users p0)) \<union> insert e D" using O9(1,2) known by blast+
  have 5: "errors = 0 \<longrightarrow> (\<forall>a\<in>insert e D. isTombstoned a (pl_tombs p0) \<or> a \<in> set (known_emails us))" using O9(3) known by blast
  have 6: "disabled_count us = disabled_count (pl_users p0)" "admin_left (pl_users p0) \<longrightarrow> admin_left us" using O off adm by simp_all
  have 7: "pl_tombs p = pl_tombs p0" "pl_sync p = pl_sync p0" "pl_config p = pl_config p0" using O by simp_all
  have sel: "pl_users (p\<lparr>pl_next := n, pl_users := us\<rparr>) = us" "pl_next (p\<lparr>pl_next := n, pl_users := us\<rparr>) = n"
    "pl_tombs (p\<lparr>pl_next := n, pl_users := us\<rparr>) = pl_tombs p" "pl_sync (p\<lparr>pl_next := n, pl_users := us\<rparr>) = pl_sync p"
    "pl_config (p\<lparr>pl_next := n, pl_users := us\<rparr>) = pl_config p" by simp_all
  show ?thesis unfolding imported_ok_def prod.case sel by (intro conjI us 1 2 3 4 5 6 7)
qed

lemma imported_ok_same:
  "\<lbrakk>imported_ok p0 D (made, errors, p); isTombstoned e (pl_tombs p) \<or> e \<in> set (known_emails (pl_users p)) \<or> errors < errors'; errors \<le> errors'\<rbrakk>
     \<Longrightarrow> imported_ok p0 (insert e D) (made, errors', p)"
  by (auto simp: imported_ok_def)

lemma import_step:
  assumes ok: "imported_ok p0 D acc" and low: "js_lower e = e"
  shows "imported_ok p0 (insert e D) (import_one t e acc)"
proof -
  obtain made errors p where acc: "acc = (made, errors, p)" by (rule prod_cases3)
  note same = imported_ok_same [OF ok [unfolded acc]]
  let ?us = "pl_users p" and ?bare = "filter (\<lambda>u. us_email u = None \<and> js_lower (us_name u) = e) (pl_users p)"
  have users: "users_ok ?us" "\<forall>u\<in>set ?us. us_id u < pl_next p" using ok by (simp_all add: acc imported_ok_def)
  note step = import_one_def acc claimOrCreateUserByEmail_def
  consider (gone) "isTombstoned e (pl_tombs p)" | (known) u where "\<not> isTombstoned e (pl_tombs p)" "findUserByEmail e ?us = Some u"
    | (claim) u where "\<not> isTombstoned e (pl_tombs p)" "findUserByEmail e ?us = None" "first_by us_created ?bare = Some u"
    | (name) "\<not> isTombstoned e (pl_tombs p)" "findUserByEmail e ?us = None" "first_by us_created ?bare = None" "list_ex (\<lambda>u. us_name u = e) ?us"
    | (new) "\<not> isTombstoned e (pl_tombs p)" "findUserByEmail e ?us = None" "first_by us_created ?bare = None" "\<not> list_ex (\<lambda>u. us_name u = e) ?us"
    by (cases "isTombstoned e (pl_tombs p)"; cases "findUserByEmail e ?us"; cases "first_by us_created ?bare";
      cases "list_ex (\<lambda>u. us_name u = e) ?us") blast+
  then show ?thesis
  proof cases
    case gone
    then show ?thesis using same [of e errors] by (simp add: step)
  next
    case (known u)
    then have "e \<in> set (known_emails ?us)" unfolding known_iff using nobody [of e ?us] by auto
    then show ?thesis using same [of e errors] known by (simp add: step)
  next
    case (claim u)
    let ?xs = "if us_disabled u = None then [with_email e u] else []"
    have no: "\<forall>x\<in>set ?us. email_of x \<noteq> Some e" using claim(2) by (simp add: nobody)
    have u: "u \<in> set ?us" "us_email u = None" using first_by_in [OF claim(3)] by auto
    have xs: "set (known_emails ?xs) = (if us_disabled u = None then {e} else {})" using low by (simp add: known_emails_def List.map_filter_def)
    have "imported_ok p0 (insert e D) (made @ ?xs, errors, p\<lparr>pl_next := pl_next p,
        pl_users := sql_update (\<lambda>x. us_id x = us_id u) (with_email e) ?us\<rparr>)"
      by (rule imported_ok_new [OF ok [unfolded acc]])
        (use claimed_user [OF users(1) u no low] users(2) xs in \<open>auto simp: sql_update_def\<close>)
    then show ?thesis using claim by (cases "us_disabled u") (simp_all add: step)
  next
    case name
    then show ?thesis using same [of e "Suc errors"] by (simp add: step)
  next
    case new
    define u where "u = \<lparr>us_id = pl_next p, us_name = e, us_email = Some e, us_admin = False, us_disabled = None,
        us_disabled_source = None, us_access_source = None, us_created = t\<rparr>"
    have u: "email_of u = Some e" "us_disabled u = None" "us_id u = pl_next p" using low by (simp_all add: u_def email_of_def)
    have no: "\<forall>x\<in>set ?us. email_of x \<noteq> Some e" using new(2) by (simp add: nobody)
    have id: "us_id u \<notin> set (map us_id ?us)" unfolding u(3) using users(2) by (intro created_id)
    have "imported_ok p0 (insert e D) (made @ [u], errors, p\<lparr>pl_next := Suc (pl_next p), pl_users := ?us @ [u]\<rparr>)"
      by (rule imported_ok_new [OF ok [unfolded acc]])
        (use created_user [OF users(1) no id u(1,2)] users(2) u in \<open>auto simp: known_emails_one less_Suc_eq\<close>)
    then show ?thesis using new by (simp add: step u_def Let_def)
  qed
qed

lemma one_more_made: "length (fst (import_one t e acc)) \<le> Suc (length (fst acc))"
  by (auto simp: import_one_def split: prod.splits claim.splits if_splits)

lemma rows_added: "claimOrCreateUserByEmail e adm t (n, us) = (c, n1, us1) \<Longrightarrow> length us1 \<le> Suc (length us)"
  by (auto simp: claimOrCreateUserByEmail_def Let_def sql_update_def split: option.splits if_splits)

lemma one_more_row: "length (pl_users (snd (snd (import_one t e acc)))) \<le> Suc (length (pl_users (snd (snd acc))))"
  by (auto simp: import_one_def split: prod.splits claim.splits if_splits dest: rows_added)

lemma imports_all:
  assumes "users_ok (pl_users p)" and "\<forall>u\<in>set (pl_users p). us_id u < pl_next p" and "\<forall>e\<in>set emails. js_lower e = e"
  shows "imported_ok p (set emails) (importUsers emails t p)
    \<and> length (fst (importUsers emails t p)) \<le> length emails
    \<and> length (pl_users (snd (snd (importUsers emails t p)))) \<le> length (pl_users p) + length emails"
proof -
  have run: "imported_ok p (D \<union> set emails) (fold (import_one t) emails acc)
      \<and> length (fst (fold (import_one t) emails acc)) \<le> length (fst acc) + length emails
      \<and> length (pl_users (snd (snd (fold (import_one t) emails acc)))) \<le> length (pl_users (snd (snd acc))) + length emails"
    if "imported_ok p D acc" "\<forall>e\<in>set emails. js_lower e = e" for D acc
    using that
  proof (induction emails arbitrary: D acc)
    case (Cons e emails)
    have "imported_ok p (insert e D) (import_one t e acc)" using Cons.prems by (intro import_step) simp_all
    then show ?case
      using Cons.IH [of "insert e D" "import_one t e acc"] Cons.prems(2) one_more_made [of t e acc] one_more_row [of t e acc] by simp
  qed simp
  have start: "imported_ok p {} ([], 0, p)" using assms(1,2) by (auto simp: imported_ok_def known_emails_def List.map_filter_def)
  obtain made errors p1 where f: "fold (import_one t) emails ([], 0, p) = (made, errors, p1)" by (rule prod_cases3)
  show ?thesis
    using run [OF start assms(3)] by (auto simp: importUsers_def f imported_ok_def deed_def)
qed

end
