(* ===== verification/AccessRuns.thy ===== *)
theory AccessRuns
  imports AccessUsers
begin

text \<open>
  What a run of the Access sync changes, as sets of addresses, and what its plan holds: the facts the
  properties of the sync rest on.
\<close>

section \<open>The changes of a run\<close>

definition panel_ok :: "panel \<Rightarrow> bool" where
  "panel_ok p \<longleftrightarrow> users_ok (pl_users p) \<and> list_all (\<lambda>u. us_id u < pl_next p) (pl_users p)
     \<and> list_all plain (known_emails (pl_users p))"

lemma plain_low: "plain e \<Longrightarrow> js_lower e = e \<and> e \<noteq> []"
  unfolding plain_def by (metis js_lower_idem)

definition changes_ok :: "run_input \<Rightarrow> plan \<Rightarrow> panel \<Rightarrow> user list \<Rightarrow> nat \<Rightarrow> user list \<Rightarrow> panel \<Rightarrow> bool" where
  "changes_ok i pn p made errors off q \<longleftrightarrow>
     pl_tombs q = pl_tombs p \<and> pl_sync q = pl_sync p \<and> pl_config q = pl_config p \<and> users_ok (pl_users q)
   \<and> (\<forall>e. active_email (pl_users q) e \<longleftrightarrow> (active_email (pl_users p) e \<or> e \<in> set (known_emails made)) \<and> e \<notin> set (known_emails off))
   \<and> (\<forall>e. e \<notin> set (pn_import pn) \<longrightarrow> (by_rule (pl_users q) e
        \<longleftrightarrow> by_rule (pl_users p) e \<and> e \<notin> set (pn_adopt pn) \<and> e \<notin> set (known_emails off)))
   \<and> set (known_emails made) \<subseteq> set (pn_import pn) \<and> set (known_emails off) \<subseteq> set (pn_disable pn) - set (ri_admins i)
   \<and> set (known_emails (pl_users p)) \<subseteq> set (known_emails (pl_users q))
   \<and> set (known_emails (pl_users q)) \<subseteq> set (known_emails (pl_users p)) \<union> set (pn_import pn)
   \<and> (errors = 0 \<longrightarrow> (\<forall>e\<in>set (pn_import pn). isTombstoned e (pl_tombs p) \<or> e \<in> set (known_emails (pl_users q))))
   \<and> disabled_count (pl_users q) \<le> disabled_count (pl_users p) + length off
   \<and> length off \<le> length (pn_disable pn) \<and> length made \<le> length (pn_import pn)
   \<and> length (pl_users q) \<le> length (pl_users p) + length (pn_import pn)
   \<and> (admin_left (pl_users p) \<longrightarrow> admin_left (pl_users q))"

abbreviation adopted :: "string list \<Rightarrow> user list \<Rightarrow> user list" where
  "adopted xs us \<equiv> sql_update (\<lambda>u. (case email_of u of Some e \<Rightarrow> e \<in> set xs | None \<Rightarrow> False)
     \<and> us_access_source u = Some ACCESS_LOGIN_SOURCE) (\<lambda>u. u\<lparr>us_access_source := None\<rparr>) us"

lemma email_of_adopt [simp]: "email_of (u\<lparr>us_access_source := s\<rparr>) = email_of u"
  by (simp add: email_of_def)

lemma adopted_users:
  assumes "users_ok us"
  shows "users_ok (adopted xs us)" and "known_emails (adopted xs us) = known_emails us"
    and "active_email (adopted xs us) e \<longleftrightarrow> active_email us e"
    and "by_rule (adopted xs us) e \<longleftrightarrow> by_rule us e \<and> e \<notin> set xs"
    and "disabled_count (adopted xs us) = disabled_count us" and "length (adopted xs us) = length us"
    and "admin_left us \<Longrightarrow> admin_left (adopted xs us)"
proof -
  show "users_ok (adopted xs us)" "known_emails (adopted xs us) = known_emails us"
    using assms by (simp_all add: users_ok_update known_emails_update)
  show "active_email (adopted xs us) e \<longleftrightarrow> active_email us e"
    unfolding active_iff sql_update_ex by (intro bex_cong refl) simp
  show "by_rule (adopted xs us) e \<longleftrightarrow> by_rule us e \<and> e \<notin> set xs"
    unfolding by_rule_iff sql_update_ex bex_simps(1) [symmetric]
    by (intro bex_cong refl) (auto split: if_splits)
  show "disabled_count (adopted xs us) = disabled_count us"
    unfolding disabled_count_def by (induction us) (auto simp: sql_update_def)
  show "length (adopted xs us) = length us" by (simp add: sql_update_def)
  show "admin_left us \<Longrightarrow> admin_left (adopted xs us)"
    unfolding admin_left_def list_ex_iff sql_update_ex by auto
qed

lemma import_part:
  assumes "panel_ok p" and "\<forall>e\<in>set emails. js_lower e = e"
    and "(if emails = [] then ([], 0, p) else importUsers emails t p) = (made, errors, p1)"
  shows "imported_ok p (set emails) (made, errors, p1)" and "length made \<le> length emails"
    and "length (pl_users p1) \<le> length (pl_users p) + length emails"
proof -
  have "\<forall>u\<in>set (pl_users p). us_id u < pl_next p" "users_ok (pl_users p)" using assms(1) by (simp_all add: panel_ok_def list_all_iff)
  note I = imports_all [OF this(2,1) assms(2), of t]
  show "imported_ok p (set emails) (made, errors, p1)" "length made \<le> length emails"
    "length (pl_users p1) \<le> length (pl_users p) + length emails"
    using I assms(3) by (cases "emails = []"; auto simp: importUsers_def imported_ok_def)+
qed

lemma signed_out_panel: "pl_users (fold (\<lambda>u. deed (f u)) us p) = pl_users p" "pl_tombs (fold (\<lambda>u. deed (f u)) us p) = pl_tombs p"
  "pl_sync (fold (\<lambda>u. deed (f u)) us p) = pl_sync p" "pl_config (fold (\<lambda>u. deed (f u)) us p) = pl_config p"
  by (induction us arbitrary: p) (simp_all add: deed_def)

lemma deed_panel [simp]: "pl_users (deed d p) = pl_users p" "pl_tombs (deed d p) = pl_tombs p"
  "pl_sync (deed d p) = pl_sync p" "pl_config (deed d p) = pl_config p"
  by (simp_all add: deed_def)

lemma run_changes_ok:
  assumes ok: "panel_ok p" and ins: "\<forall>e\<in>set (pn_import pn). js_lower e = e" and disables: "[] \<notin> set (pn_disable pn)"
    and run: "run_changes i pn t p = (made, errors, off, q)"
  shows "changes_ok i pn p made errors off q"
proof -
  obtain p1 where p1: "(if pn_import pn = [] then ([], 0, p) else importUsers (pn_import pn) t p) = (made, errors, p1)"
    using run by (auto simp: run_changes_def Let_def split: prod.splits)
  let ?us = "adopted (pn_adopt pn) (pl_users p1)"
  obtain kept us where us: "disableUsersByEmail (pn_disable pn) True (ri_admins i) t ?us = (off, kept, us)"
    and q: "pl_users q = us" "pl_tombs q = pl_tombs p1" "pl_sync q = pl_sync p1" "pl_config q = pl_config p1"
    using run p1 by (auto simp: run_changes_def Let_def signed_out_panel split: prod.splits)
  note I = import_part [OF ok ins p1]
  note J = I(1) [unfolded imported_ok_def prod.case]
  have users: "users_ok (pl_users p1)" using J by blast
  note A = adopted_users [OF users]
  have "users_ok ?us" by (rule A(1))
  note D = off_all [OF this disables, of "ri_admins i" t, unfolded us fst_conv off_ok_def prod.case]
  have 1: "active_email us e \<longleftrightarrow> (active_email (pl_users p) e \<or> e \<in> set (known_emails made)) \<and> e \<notin> set (known_emails off)" for e
    using D J A(3) by simp
  have 2: "by_rule us e \<longleftrightarrow> by_rule (pl_users p) e \<and> e \<notin> set (pn_adopt pn) \<and> e \<notin> set (known_emails off)" if "e \<notin> set (pn_import pn)" for e
    using D J A(4) that by simp
  have 3: "disabled_count us \<le> disabled_count (pl_users p) + length off" using D J A(5) [of "pn_adopt pn"] by simp
  have 4: "length us \<le> length (pl_users p) + length (pn_import pn)" using D I(3) A(6) [of "pn_adopt pn"] by simp
  have 5: "admin_left (pl_users p) \<longrightarrow> admin_left us" using D J A(7) by simp
  have 6: "known_emails us = known_emails (pl_users p1)" using D A(2) by simp
  show ?thesis unfolding changes_ok_def q using 1 2 3 4 5 6 D J I(2) by simp
qed

section \<open>The plan\<close>

lemma active_known: "active_email us e \<Longrightarrow> e \<in> set (known_emails us)"
  unfolding email_views by blast

lemma set_tombstonedAmong: "set (tombstonedAmong xs ts) = ts_email ` set ts \<inter> set xs"
  by (auto simp: tombstonedAmong_def)

lemma plan_import: "e \<in> set (pn_import (plan_of i po p)) \<longleftrightarrow> e \<in> set (emails_of (po_include po)) \<and> e \<notin> set (sy_baseline (pl_sync p))
    \<and> e \<notin> set (ri_admins i) \<and> \<not> excluded po e \<and> normalizeEmail e = Some e \<and> e \<notin> set (known_emails (pl_users p))
    \<and> e \<notin> ts_email ` set (pl_tombs p)"
  by (auto simp: plan_of_def Let_def importCandidates_def set_tombstonedAmong)

lemma plan_invalid: "e \<in> set (pn_invalid (plan_of i po p)) \<longleftrightarrow> e \<in> set (emails_of (po_include po)) \<and> e \<notin> set (sy_baseline (pl_sync p))
    \<and> e \<notin> set (ri_admins i) \<and> \<not> excluded po e \<and> normalizeEmail e \<noteq> Some e"
  by (auto simp: plan_of_def Let_def importCandidates_def)

lemma plan_disable: "e \<in> set (pn_disable (plan_of i po p)) \<longleftrightarrow> emails_of (po_include po) \<noteq> [] \<and> e \<in> set (sy_baseline (pl_sync p))
    \<and> active_email (pl_users p) e \<and> e \<notin> set (ri_admins i)
    \<and> (excluded po e \<or> (e \<notin> set (emails_of (po_include po)) \<and> \<not> domainAdmits po e))"
  by (auto simp: plan_of_def Let_def removedInCloudflare_def active_email_def)

lemma plan_adopt: "e \<in> set (pn_adopt (plan_of i po p)) \<longleftrightarrow> by_rule (pl_users p) e \<and> e \<in> set (emails_of (po_include po))"
  by (auto simp: plan_of_def Let_def by_rule_def)

lemma plan_unpinned: "e \<in> set (pn_unpinned (plan_of i po p)) \<longleftrightarrow> by_rule (pl_users p) e \<and> e \<notin> set (emails_of (po_include po))"
  by (auto simp: plan_of_def Let_def by_rule_def)

lemmas plan_sets = plan_import plan_invalid plan_disable plan_adopt plan_unpinned

lemma run_changes_planned:
  assumes ok: "panel_ok p" and run: "run_changes i (plan_of i po p) t p = (made, errors, off, q)"
  shows "changes_ok i (plan_of i po p) p made errors off q"
proof (rule run_changes_ok [OF ok _ _ run])
  show "\<forall>e\<in>set (pn_import (plan_of i po p)). js_lower e = e" using normalizeEmail_plain by (auto simp: plan_import)
  have "e \<noteq> []" if "active_email (pl_users p) e" for e
    using active_known [OF that] ok by (auto simp: panel_ok_def list_all_iff plain_def)
  then show "[] \<notin> set (pn_disable (plan_of i po p))" by (auto simp: plan_disable)
qed

section \<open>The end of a run\<close>

lemma finish_users: "pl_users (snd (finish cfg mw r f p)) = pl_users (mw p)"
  by (simp add: finish_def Let_def)

lemma finish_fst: "fst (finish cfg mw r f p) = r"
  by (simp add: finish_def Let_def)

lemma failed_users: "pl_users (snd (failed_run cfg mw i n err cause t p)) = pl_users (mw p)"
  by (simp add: failed_run_def Let_def finish_users split: option.splits)

lemma failed_outcome: "rr_outcome (fst (failed_run cfg mw i n err cause t p)) = ''failed''"
  by (simp add: failed_run_def Let_def finish_fst blank_run_def split: option.splits)

lemma stopped_users: "pl_users (snd (stopped_run cfg mw i pn d m t p)) = pl_users (mw (
    let p1 = (if d \<and> sy_candidates (pl_sync p) \<noteq> Some (pn_disable pn) then deed (Journal ''access.sync_aborted'' (pn_disable pn)) p else p)
    in if m \<and> sy_imports (pl_sync p) \<noteq> Some (pn_import pn) then deed (Journal ''access.import_aborted'' (pn_import pn)) p1 else p1))"
  by (simp add: stopped_run_def Let_def finish_users)

lemma run_config_same: "loadRunConfig dec cg = Some (cfg, token) \<Longrightarrow> cfg = cg"
  by (simp add: loadRunConfig_def split: if_splits)

text \<open>The four ends of a run.\<close>

lemma run_cases:
  fixes i c t p mw
  defines "plan \<equiv> \<lambda>po. plan_of i po p"
  defines "over \<equiv> \<lambda>po. exceedsDisableLimit (length (pn_disable (plan po))) (length (known_emails (active_users (pl_users p)))) (ri_max_disables i)"
    and "many \<equiv> \<lambda>po. exceedsImportLimit (length (pn_import (plan po))) (ri_max_imports i)"
  obtains (skipped) "runAccessSync dec mw c i t p = (None, p)"
  | (failed) cfg n err cause where "runAccessSync dec mw c i t p = apfst Some (failed_run cfg mw i n err cause t p)"
  | (stopped) cfg po where "over po \<or> many po"
      "runAccessSync dec mw c i t p = apfst Some (stopped_run cfg mw i (plan po) (over po) (many po) t p)"
  | (applied) cfg po where "ri_google i" "getPolicy c = Inr po" "po_decision po = Some ''allow''" "\<not> over po" "\<not> many po"
      "runAccessSync dec mw c i t p = apfst Some (applied_run cfg mw c i po (plan po) t p)" "cfg = pl_config p"
proof (cases "ri_google i")
  case False
  then show thesis by (intro skipped) (simp add: runAccessSync_def)
next
  case g: True
  show thesis
  proof (cases "loadRunConfig dec (pl_config p)")
    case None
    then show thesis by (intro skipped) (simp add: runAccessSync_def)
  next
    case (Some ct)
    obtain cfg token where ct: "ct = (cfg, token)" by (cases ct)
    note step = runAccessSync_def Some ct prod.case option.case g
    show thesis
    proof (cases "text_given token")
      case False
      then show thesis by (intro failed) (simp add: step)
    next
      case tok: True
      show thesis
      proof (cases "getPolicy c")
        case (Inl e)
        then show thesis using tok by (intro failed) (simp add: step)
      next
        case (Inr po)
        show thesis
        proof (cases "po_decision po = Some ''allow''")
          case False
          then show thesis using tok Inr by (intro failed) (simp add: step)
        next
          case allow: True
          show thesis
          proof (cases "over po \<or> many po")
            case True
            then show thesis using tok Inr allow by (intro stopped) (simp_all add: step over_def many_def plan_def Let_def)
          next
            case False
            then show thesis using tok Inr allow g run_config_same [OF Some [unfolded ct]]
              by (intro applied) (simp_all add: step over_def many_def plan_def Let_def)
          qed
        qed
      qed
    qed
  qed
qed

text \<open>A run leaves the users as they are, or makes the changes of its plan, within its limits.\<close>

lemma applied_users: "pl_users (snd (applied_run cfg mw c i po pn t p)) = pl_users (mw (snd (snd (snd (run_changes i pn t p)))))"
  by (simp add: applied_run_def Let_def finish_users failed_users split: prod.splits option.splits)

lemma run_users:
  assumes mw: "\<And>s. pl_users (mw s) = pl_users s"
    and run: "runAccessSync dec mw c i t p = (r, q)" and other: "pl_users q \<noteq> pl_users p"
  obtains po made errors off q0 where "getPolicy c = Inr po" and "run_changes i (plan_of i po p) t p = (made, errors, off, q0)"
    and "pl_users q = pl_users q0"
    and "\<not> exceedsDisableLimit (length (pn_disable (plan_of i po p))) (length (known_emails (active_users (pl_users p)))) (ri_max_disables i)"
    and "\<not> exceedsImportLimit (length (pn_import (plan_of i po p))) (ri_max_imports i)"
proof (cases rule: run_cases [of dec mw c i t p])
  case skipped
  then show ?thesis using run other by simp
next
  case (failed cfg n err cause)
  then have "pl_users q = pl_users p" using run failed_users [of cfg mw i n err cause t p] mw by (metis snd_apfst snd_conv)
  then show ?thesis using other by simp
next
  case (stopped cfg po)
  have "q = snd (apfst Some (stopped_run cfg mw i (plan_of i po p)
      (exceedsDisableLimit (length (pn_disable (plan_of i po p))) (length (known_emails (active_users (pl_users p)))) (ri_max_disables i))
      (exceedsImportLimit (length (pn_import (plan_of i po p))) (ri_max_imports i)) t p))"
    unfolding stopped(2) [symmetric] run by simp
  then have "pl_users q = pl_users p" by (simp add: stopped_users mw Let_def)
  then show ?thesis using other by simp
next
  case (applied cfg po)
  obtain made errors off q0 where c: "run_changes i (plan_of i po p) t p = (made, errors, off, q0)" by (metis prod_cases4)
  have "pl_users q = pl_users q0"
    using applied(6) run applied_users [of cfg mw c i po "plan_of i po p" t p] mw c by (metis snd_apfst snd_conv)
  then show ?thesis using that [OF applied(2) c] applied(4,5) by blast
qed

section \<open>A run that ends well\<close>

lemma run_applies:
  assumes "ri_google i" and "loadRunConfig dec (pl_config p) = Some (cfg, token)" and "text_given token" and "getPolicy c = Inr po"
    and "po_decision po = Some ''allow''"
    and "\<not> exceedsDisableLimit (length (pn_disable (plan_of i po p))) (length (known_emails (active_users (pl_users p)))) (ri_max_disables i)"
    and "\<not> exceedsImportLimit (length (pn_import (plan_of i po p))) (ri_max_imports i)"
  shows "runAccessSync dec mw c i t p = apfst Some (applied_run cfg mw c i po (plan_of i po p) t p)"
  using assms by (simp add: runAccessSync_def Let_def)



definition run_synced :: "run_result \<Rightarrow> bool" where
  "run_synced r \<longleftrightarrow> rr_outcome r \<in> {''updated'', ''unchanged''}"

lemma run_config_here:
  assumes "runAccessSync dec mw c i t p = (Some r, q)"
  obtains cfg token where "loadRunConfig dec (pl_config p) = Some (cfg, token)"
  using assms by (cases "loadRunConfig dec (pl_config p)") (auto simp: runAccessSync_def split: if_splits)

text \<open>What a run that ends well has done, when nobody else changed the panel meanwhile.\<close>

lemma applied_synced:
  assumes run: "applied_run (pl_config p) id c i po pn t p = (r, q)" and good: "run_synced r"
    and ch: "run_changes i pn t p = (made, errors, off, q0)"
    and same: "pl_config q0 = pl_config p"
  defines "desired \<equiv> run_desired i pn (known_emails (active_users (pl_users p))) made off"
  shows "pl_users q = pl_users q0" and "pl_tombs q = pl_tombs q0" and "pl_config q = pl_config p"
    and "sy_baseline (pl_sync q) = desired" and "sy_candidates (pl_sync q) = None"
    and "sy_policy_emails (pl_sync q) = listedEmails (bu_include (buildInclude po (sy_baseline (pl_sync p)) desired))"
    and "rr_errors r = errors + length (pn_invalid pn)" and "rr_imported r = length made" and "rr_disabled r = length off"
proof -
  let ?b = "buildInclude po (sy_baseline (pl_sync p)) desired"
  have "\<not> bu_include ?b = [] \<and> (if bu_changed ?b then cl_update c (bu_include ?b) else None) = None"
  proof (rule ccontr)
    assume "\<not> (\<not> bu_include ?b = [] \<and> (if bu_changed ?b then cl_update c (bu_include ?b) else None) = None)"
    then have "rr_outcome r \<in> {''empty'', ''failed''}"
      using arg_cong [OF run, of fst] ch unfolding desired_def [symmetric]
      by (auto simp: applied_run_def Let_def finish_fst failed_outcome blank_run_def desired_def [symmetric] split: if_splits option.splits)
    then show False using good by (auto simp: run_synced_def)
  qed
  then show "pl_users q = pl_users q0" "pl_tombs q = pl_tombs q0" "pl_config q = pl_config p" "sy_baseline (pl_sync q) = desired"
    "sy_candidates (pl_sync q) = None" "sy_policy_emails (pl_sync q) = listedEmails (bu_include ?b)"
    "rr_errors r = errors + length (pn_invalid pn)" "rr_imported r = length made" "rr_disabled r = length off"
    using run ch same
    by (auto simp: applied_run_def Let_def finish_def same_target_def blank_run_def desired_def [symmetric] split: if_splits)
qed

lemma set_run_desired: "set (run_desired i pn active made off)
    = (set active - set (known_emails off) - set (pn_unpinned pn)) \<union> set (known_emails made) \<union> set (ri_admins i)"
  by (auto simp: run_desired_def)

lemma synced_run:
  assumes ok: "panel_ok p" and adm: "list_all plain (ri_admins i)"
    and run: "runAccessSync dec id c i t p = (Some r, q)" and good: "run_synced r"
  obtains po made errors off where "getPolicy c = Inr po" and "ri_google i" and "po_decision po = Some ''allow''"
    and "changes_ok i (plan_of i po p) p made errors off (q\<lparr>pl_sync := pl_sync p\<rparr>)"
    and "\<And>e. e \<in> set (sy_baseline (pl_sync q)) \<longleftrightarrow> (active_email (pl_users p) e \<and> e \<notin> set (known_emails off)
          \<and> \<not> (by_rule (pl_users p) e \<and> e \<notin> set (emails_of (po_include po)))) \<or> e \<in> set (known_emails made) \<or> e \<in> set (ri_admins i)"
    and "\<And>e. e \<in> set (sy_policy_emails (pl_sync q)) \<longleftrightarrow> e \<in> set (sy_baseline (pl_sync q))
          \<or> (e \<in> set (emails_of (po_include po)) \<and> e \<notin> set (sy_baseline (pl_sync p)))"
    and "list_all plain (sy_baseline (pl_sync q))"
    and "rr_errors r = errors + length (pn_invalid (plan_of i po p))" and "sy_candidates (pl_sync q) = None"
proof (cases rule: run_cases [of dec id c i t p])
  case skipped
  then show ?thesis using run by simp
next
  case (failed cfg n err cause)
  then have "rr_outcome r = ''failed''" using run failed_outcome [of cfg id i n err cause t p] by (metis fst_conv fst_apfst option.inject)
  then show ?thesis using good by (simp add: run_synced_def)
next
  case (stopped cfg po)
  have "Some r = fst (runAccessSync dec id c i t p)" by (simp add: run)
  then have "rr_outcome r = ''aborted''" unfolding stopped(2) by (simp add: stopped_run_def Let_def finish_fst blank_run_def)
  then show ?thesis using good by (simp add: run_synced_def)
next
  case (applied cfg po)
  let ?pn = "plan_of i po p"
  obtain made errors off q0 where ch: "run_changes i ?pn t p = (made, errors, off, q0)" by (metis prod_cases4)
  have C: "changes_ok i ?pn p made errors off q0" by (rule run_changes_planned [OF ok ch])
  then have cfg: "pl_config q0 = pl_config p" by (simp add: changes_ok_def)
  have "applied_run (pl_config p) id c i po ?pn t p = (r, q)"
    using run applied(6,7) by (cases "applied_run (pl_config p) id c i po ?pn t p") simp
  note S = applied_synced [OF this good ch cfg]
  let ?d = "run_desired i ?pn (known_emails (active_users (pl_users p))) made off"
  have made: "set (known_emails made) \<subseteq> set (pn_import ?pn)" using C by (simp add: changes_ok_def)
  have "plain e" if "e \<in> set (known_emails made)" for e
    using that made normalizeEmail_plain [of e e] by (auto simp: plan_import)
  then have "list_all plain ?d"
    using ok adm active_known by (auto simp: list_all_iff set_run_desired panel_ok_def active_email_def)
  moreover have "e \<in> set ?d \<longleftrightarrow> (active_email (pl_users p) e \<and> e \<notin> set (known_emails off)
      \<and> \<not> (by_rule (pl_users p) e \<and> e \<notin> set (emails_of (po_include po)))) \<or> e \<in> set (known_emails made) \<or> e \<in> set (ri_admins i)" for e
    by (auto simp: set_run_desired plan_unpinned active_email_def)
  moreover have "changes_ok i ?pn p made errors off (q\<lparr>pl_sync := pl_sync p\<rparr>)"
    using C S by (simp add: changes_ok_def)
  ultimately show ?thesis
    using that [OF applied(2,1,3)] S built_lists by auto
qed


lemma synced_config:
  assumes "runAccessSync dec mw c i t p = (Some r, q)" and "run_synced r"
  obtains token where "loadRunConfig dec (pl_config p) = Some (pl_config p, token)" and "text_given token"
proof -
  obtain cfg token where l: "loadRunConfig dec (pl_config p) = Some (cfg, token)" by (rule run_config_here [OF assms(1)])
  have "text_given token"
  proof (rule ccontr)
    assume "\<not> text_given token"
    then have "Some r = fst (apfst Some (failed_run cfg mw i (sy_retry (pl_sync p)) ''token_unreadable'' None t p))"
      using arg_cong [OF assms(1), of fst] l by (simp add: runAccessSync_def split: if_splits)
    then show False using assms(2) by (simp add: failed_outcome run_synced_def)
  qed
  then show thesis using that l run_config_same [OF l] by blast
qed

text \<open>
  What others do to the panel while a run works changes neither its result nor the lists it writes, when they leave the
  sync pointed where it was.
\<close>

lemma run_meanwhile:
  assumes ok: "panel_ok p" and target: "\<And>s. same_target (pl_config (mw s)) (pl_config s)"
    and run: "runAccessSync dec mw c i t p = (Some r, q)" and good: "run_synced r"
  obtains q0 where "runAccessSync dec id c i t p = (Some r, q0)"
    and "sy_candidates (pl_sync q) = sy_candidates (pl_sync q0)" and "sy_policy_emails (pl_sync q) = sy_policy_emails (pl_sync q0)"
proof (cases rule: run_cases [of dec mw c i t p])
  case skipped
  then show ?thesis using run by simp
next
  case (failed cfg n err cause)
  then have "rr_outcome r = ''failed''" using run failed_outcome [of cfg mw i n err cause t p] by (metis fst_conv fst_apfst option.inject)
  then show ?thesis using good by (simp add: run_synced_def)
next
  case (stopped cfg po)
  have "Some r = fst (runAccessSync dec mw c i t p)" by (simp add: run)
  then have "rr_outcome r = ''aborted''" unfolding stopped(2) by (simp add: stopped_run_def Let_def finish_fst blank_run_def)
  then show ?thesis using good by (simp add: run_synced_def)
next
  case (applied cfg po)
  let ?pn = "plan_of i po p"
  obtain token where "loadRunConfig dec (pl_config p) = Some (pl_config p, token)" "text_given token" by (rule synced_config [OF run good])
  from run_applies [OF applied(1) this applied(2-5), of id]
  have alone: "runAccessSync dec id c i t p = apfst Some (applied_run (pl_config p) id c i po ?pn t p)" .
  have here: "applied_run (pl_config p) mw c i po ?pn t p = (r, q)"
    using run applied(6,7) by (cases "applied_run (pl_config p) mw c i po ?pn t p") simp
  obtain made errors off p5 where ch: "run_changes i ?pn t p = (made, errors, off, p5)" by (metis prod_cases4)
  have "pl_config p5 = pl_config p" using run_changes_planned [OF ok ch] by (simp add: changes_ok_def)
  then have same: "same_target (pl_config (mw p5)) (pl_config p)" "same_target (pl_config p5) (pl_config p)"
    using target [of p5] by (simp_all add: same_target_def)
  let ?alone = "applied_run (pl_config p) id c i po ?pn t p"
  have "rr_outcome r \<noteq> ''failed''" "rr_outcome r \<noteq> ''empty''" using good by (auto simp: run_synced_def)
  then have "fst ?alone = r \<and> sy_candidates (pl_sync q) = sy_candidates (pl_sync (snd ?alone))
      \<and> sy_policy_emails (pl_sync q) = sy_policy_emails (pl_sync (snd ?alone))"
    using here ch same failed_outcome [of "pl_config p" mw i]
    by (auto simp: applied_run_def Let_def finish_def blank_run_def split: if_splits option.splits) (metis fst_conv)+
  then show ?thesis using that [of "snd ?alone"] unfolding alone by (cases ?alone) simp
qed

section \<open>The run after it\<close>

text \<open>
  The policy \<open>po'\<close> lists what the first run wrote and excludes what it excluded then: the plan of the
  second run holds nothing.
\<close>

definition settled :: "run_input \<Rightarrow> policy \<Rightarrow> policy \<Rightarrow> panel \<Rightarrow> panel \<Rightarrow> user list \<Rightarrow> user list \<Rightarrow> bool" where
  "settled i po po' p q made off \<longleftrightarrow> changes_ok i (plan_of i po p) p made 0 off (q\<lparr>pl_sync := pl_sync p\<rparr>)
   \<and> (\<forall>e. e \<in> set (sy_baseline (pl_sync q)) \<longleftrightarrow> (active_email (pl_users p) e \<and> e \<notin> set (known_emails off)
        \<and> \<not> (by_rule (pl_users p) e \<and> e \<notin> set (emails_of (po_include po)))) \<or> e \<in> set (known_emails made) \<or> e \<in> set (ri_admins i))
   \<and> (\<forall>e. e \<in> set (sy_policy_emails (pl_sync q)) \<longleftrightarrow> e \<in> set (sy_baseline (pl_sync q))
        \<or> (e \<in> set (emails_of (po_include po)) \<and> e \<notin> set (sy_baseline (pl_sync p))))
   \<and> pn_invalid (plan_of i po p) = []
   \<and> set (emails_of (po_include po')) = set (sy_policy_emails (pl_sync q)) \<and> po_exclude po' = po_exclude po
   \<and> (\<forall>e. active_email (pl_users p) e \<longrightarrow> e \<notin> set (ri_admins i) \<longrightarrow> \<not> excluded po e)"

lemma settledD:
  assumes "settled i po po' p q made off"
  shows "changes_ok i (plan_of i po p) p made 0 off (q\<lparr>pl_sync := pl_sync p\<rparr>)"
    and "\<And>e. e \<in> set (sy_baseline (pl_sync q)) \<longleftrightarrow> (active_email (pl_users p) e \<and> e \<notin> set (known_emails off)
        \<and> \<not> (by_rule (pl_users p) e \<and> e \<notin> set (emails_of (po_include po)))) \<or> e \<in> set (known_emails made) \<or> e \<in> set (ri_admins i)"
    and "\<And>e. e \<in> set (sy_policy_emails (pl_sync q)) \<longleftrightarrow> e \<in> set (sy_baseline (pl_sync q))
        \<or> (e \<in> set (emails_of (po_include po)) \<and> e \<notin> set (sy_baseline (pl_sync p)))"
    and "pn_invalid (plan_of i po p) = []"
    and "set (emails_of (po_include po')) = set (sy_policy_emails (pl_sync q))" and "po_exclude po' = po_exclude po"
    and "\<And>e. \<lbrakk>active_email (pl_users p) e; e \<notin> set (ri_admins i)\<rbrakk> \<Longrightarrow> \<not> excluded po e"
    and "\<And>e. excluded po' e = excluded po e"
  using assms unfolding settled_def excluded_def by simp_all

lemma settled_changes:
  assumes "settled i po po' p q made off"
  shows "\<And>e. active_email (pl_users q) e \<longleftrightarrow> (active_email (pl_users p) e \<or> e \<in> set (known_emails made)) \<and> e \<notin> set (known_emails off)"
    and "\<And>e. e \<notin> set (pn_import (plan_of i po p)) \<Longrightarrow> by_rule (pl_users q) e
        \<longleftrightarrow> by_rule (pl_users p) e \<and> e \<notin> set (pn_adopt (plan_of i po p)) \<and> e \<notin> set (known_emails off)"
    and "\<And>e. e \<in> set (known_emails made) \<Longrightarrow> e \<in> set (pn_import (plan_of i po p))"
    and "\<And>e. e \<in> set (known_emails off) \<Longrightarrow> e \<in> set (pn_disable (plan_of i po p))"
    and "\<And>e. e \<in> set (known_emails (pl_users p)) \<Longrightarrow> e \<in> set (known_emails (pl_users q))"
    and "\<And>e. e \<in> set (pn_import (plan_of i po p)) \<Longrightarrow> isTombstoned e (pl_tombs p) \<or> e \<in> set (known_emails (pl_users q))"
    and "pl_tombs q = pl_tombs p"
  using settledD(1) [OF assms] by (auto simp: changes_ok_def)

lemma none_imported:
  assumes S: "settled i po po' p q made off" and that: "ri_admins k = ri_admins i"
  shows "pn_import (plan_of k po' q) = []"
proof -
  note D = settledD [OF S] and C = settled_changes [OF S]
  have "e \<notin> set (pn_import (plan_of k po' q))" for e
  proof
    assume e: "e \<in> set (pn_import (plan_of k po' q))"
    then have n: "normalizeEmail e = Some e" "e \<notin> set (known_emails (pl_users q))" "e \<notin> ts_email ` set (pl_tombs p)"
      and l: "e \<in> set (emails_of (po_include po))" "e \<notin> set (sy_baseline (pl_sync p))" "\<not> excluded po e" "e \<notin> set (ri_admins i)"
      using that by (auto simp: plan_import D(3,5,8) C(7))
    have "e \<in> set (pn_import (plan_of i po p))" using n l C(5) by (auto simp: plan_import)
    then have "isTombstoned e (pl_tombs p)" using C(6) n(2) by blast
    then show False using n(3) normalizeEmail_plain [OF n(1)] by (simp add: isTombstoned_def row_by_None_iff)
  qed
  then show ?thesis by (metis list.set_sel(1) set_empty)
qed

lemma none_invalid:
  assumes S: "settled i po po' p q made off" and that: "ri_admins k = ri_admins i"
  shows "pn_invalid (plan_of k po' q) = []"
proof -
  note D = settledD [OF S] and C = settled_changes [OF S]
  have "e \<notin> set (pn_invalid (plan_of k po' q))" for e
  proof
    assume "e \<in> set (pn_invalid (plan_of k po' q))"
    then have "e \<in> set (pn_invalid (plan_of i po p))" using that by (auto simp: plan_invalid D(3,5,8))
    then show False by (simp add: D(4))
  qed
  then show ?thesis by (metis list.set_sel(1) set_empty)
qed

lemma none_disabled:
  assumes S: "settled i po po' p q made off" and that: "ri_admins k = ri_admins i"
  shows "pn_disable (plan_of k po' q) = []"
proof -
  note D = settledD [OF S] and C = settled_changes [OF S]
  have "e \<notin> set (pn_disable (plan_of k po' q))" for e
  proof
    assume "e \<in> set (pn_disable (plan_of k po' q))"
    then have "active_email (pl_users q) e" "excluded po e" "e \<notin> set (ri_admins i)"
      using that by (auto simp: plan_disable D(3,5,8))
    then show False using D(7) C(1,3) by (auto simp: plan_import)
  qed
  then show ?thesis by (metis list.set_sel(1) set_empty)
qed

lemma same_desired:
  assumes S: "settled i po po' p q made off" and that: "ri_admins k = ri_admins i"
  shows "e \<in> set (run_desired k (plan_of k po' q) (known_emails (active_users (pl_users q))) [] []) \<longleftrightarrow>
    e \<in> set (sy_baseline (pl_sync q))"
proof -
  note D = settledD [OF S] and C = settled_changes [OF S]
  show ?thesis
  proof (cases "e \<in> set (known_emails made)")
  case True
  then have "e \<in> set (pn_import (plan_of i po p))" by (rule C(3))
  then have "\<not> active_email (pl_users p) e" using active_known by (auto simp: plan_import)
  then have "e \<notin> set (known_emails off)" using C(4) by (auto simp: plan_disable)
  then have "active_email (pl_users q) e" using C(1) True by blast
  then show ?thesis using True that by (simp add: set_run_desired plan_unpinned D(2,3,5) known_emails_def [of "[]"]
      List.map_filter_def flip: active_email_def)
next
  case False
  show ?thesis
  proof (cases "active_email (pl_users p) e")
    case True
    then have "e \<notin> set (pn_import (plan_of i po p))" using active_known by (auto simp: plan_import)
    note r = C(2) [OF this]
    show ?thesis using True False that r C(1) [of e]
      by (auto simp: set_run_desired plan_unpinned plan_adopt D(2,3,5) known_emails_def [of "[]"]
          List.map_filter_def simp flip: active_email_def)
  next
    case no: False
    then have "\<not> active_email (pl_users q) e" using False C(1) by blast
    then show ?thesis using no False that
      by (simp add: set_run_desired D(2) known_emails_def [of "[]"] List.map_filter_def flip: active_email_def)
  qed
  qed
qed


lemma idle_changes:
  "\<lbrakk>pn_import pn = []; pn_disable pn = []\<rbrakk>
     \<Longrightarrow> run_changes i pn t p = ([], 0, [], p\<lparr>pl_users := adopted (pn_adopt pn) (pl_users p)\<rparr>)"
  by (simp add: run_changes_def disableUsersByEmail_def)

lemma settled_run:
  assumes S: "settled i po po' p q made off" and ok: "users_ok (pl_users q)" and k: "ri_admins k = ri_admins i" "ri_google k"
    and po': "getPolicy c = Inr po'" "po_decision po' = Some ''allow''"
    and conf: "loadRunConfig dec (pl_config q) = Some (pl_config q, token)" "text_given token"
    and some: "sy_baseline (pl_sync q) \<noteq> []"
  shows "\<exists>r s. runAccessSync dec id c k t q = (Some r, s) \<and> rr_outcome r = ''unchanged'' \<and> rr_added r = 0 \<and> rr_removed r = 0
    \<and> rr_imported r = 0 \<and> rr_disabled r = 0 \<and> rr_errors r = 0
    \<and> (\<forall>e. active_email (pl_users s) e \<longleftrightarrow> active_email (pl_users q) e)
    \<and> set (sy_baseline (pl_sync s)) = set (sy_baseline (pl_sync q))"
proof -
  let ?pn = "plan_of k po' q" and ?d = "run_desired k (plan_of k po' q) (known_emails (active_users (pl_users q))) [] []"
  let ?b = "buildInclude po' (sy_baseline (pl_sync q)) ?d"
  note N = none_imported [OF S k(1)] none_disabled [OF S k(1)] none_invalid [OF S k(1)]
  have d: "set ?d = set (sy_baseline (pl_sync q))" using same_desired [OF S k(1)] by blast
  have listed: "set (sy_baseline (pl_sync q)) \<subseteq> set (emails_of (po_include po'))" using settledD(3,5) [OF S] by blast
  have "\<not> bu_changed ?b" unfolding built_changed d using listed by auto
  moreover have "bu_added ?b = []" "bu_removed ?b = []" using calculation by (simp_all add: buildInclude_def Let_def)
  moreover have "bu_include ?b \<noteq> []"
  proof -
    have "?d \<noteq> []" using d some by (metis set_empty)
    then have "sort (js_set ?d) \<noteq> []" by (metis set_empty set_js_set set_sort)
    then show ?thesis by (simp add: buildInclude_def Let_def)
  qed
  moreover have "runAccessSync dec id c k t q = apfst Some (applied_run (pl_config q) id c k po' ?pn t q)"
    by (rule run_applies [OF k(2) conf po']) (simp_all add: N exceedsDisableLimit_def exceedsImportLimit_def)
  ultimately show ?thesis
    using adopted_users(3) [OF ok] d
    by (simp add: applied_run_def idle_changes [OF N(1,2)] N Let_def finish_def same_target_def blank_run_def)
qed

end
