(* ===== verification/AccessProperties.thy ===== *)
theory AccessProperties
  imports AccessRuns
begin

text \<open>
  The properties of the Access sync: what a run may do to the users, what it writes into the policy,
  and that a second run finds nothing left to do.
\<close>

section \<open>What a run may do\<close>

text \<open>C23: A run of the sync stays within its limits: it turns off no more users than the limit of the
  environment and no more than half of the active ones, and it makes no more users than the limit of
  imports. (Nobody else writes the users while the run works.)
\<close>
theorem run_stays_in_its_limits:
  assumes "panel_ok p" and "\<And>s. pl_users (mw s) = pl_users s" and "runAccessSync dec mw c i t p = (r, q)"
  shows "disabled_count (pl_users q) \<le> disabled_count (pl_users p) + ri_max_disables i
    \<and> 2 * disabled_count (pl_users q) \<le> 2 * disabled_count (pl_users p) + length (active_users (pl_users p))
    \<and> length (pl_users q) \<le> length (pl_users p) + ri_max_imports i"
proof (cases "pl_users q = pl_users p")
  case False
  show ?thesis
  proof (rule run_users [OF assms(2,3) False])
    fix po made errors off q0
    assume ch: "run_changes i (plan_of i po p) t p = (made, errors, off, q0)" and q: "pl_users q = pl_users q0"
      and d: "\<not> exceedsDisableLimit (length (pn_disable (plan_of i po p))) (length (known_emails (active_users (pl_users p)))) (ri_max_disables i)"
      and m: "\<not> exceedsImportLimit (length (pn_import (plan_of i po p))) (ri_max_imports i)"
    have "length (known_emails (active_users (pl_users p))) \<le> length (active_users (pl_users p))"
      by (simp add: known_emails_def List.map_filter_def)
    moreover have "disabled_count (pl_users q0) \<le> disabled_count (pl_users p) + length (pn_disable (plan_of i po p))"
      "length (pl_users q0) \<le> length (pl_users p) + length (pn_import (plan_of i po p))"
      using run_changes_planned [OF assms(1) ch] by (simp_all add: changes_ok_def)
    ultimately show ?thesis using d m by (auto simp: q exceedsDisableLimit_def exceedsImportLimit_def)
  qed
qed simp

text \<open>C24: A run never leaves the panel without an administrator who can sign in, and never turns off one
  of the administrators of the environment.
\<close>
theorem run_leaves_an_admin:
  assumes "panel_ok p" and "\<And>s. pl_users (mw s) = pl_users s" and "runAccessSync dec mw c i t p = (r, q)"
  shows "(admin_left (pl_users p) \<longrightarrow> admin_left (pl_users q))
    \<and> (\<forall>e\<in>set (ri_admins i). active_email (pl_users p) e \<longrightarrow> active_email (pl_users q) e)"
proof (cases "pl_users q = pl_users p")
  case False
  show ?thesis
  proof (rule run_users [OF assms(2,3) False])
    fix po made errors off q0
    assume ch: "run_changes i (plan_of i po p) t p = (made, errors, off, q0)" and q: "pl_users q = pl_users q0"
    show ?thesis using run_changes_planned [OF assms(1) ch] by (auto simp: q changes_ok_def)
  qed
qed simp

text \<open>C25: An address loses its access only when the panel wrote it into the policy itself and Cloudflare
  no longer lets it in: it is excluded there, or neither listed nor admitted by a domain. An address
  gains access only when the policy lists it, does not exclude it, and nobody deleted its user.
\<close>
theorem run_follows_the_policy:
  assumes "panel_ok p" and "\<And>s. pl_users (mw s) = pl_users s" and "runAccessSync dec mw c i t p = (r, q)"
  shows "(active_email (pl_users p) e \<and> \<not> active_email (pl_users q) e \<longrightarrow>
        e \<in> set (sy_baseline (pl_sync p)) \<and> e \<notin> set (ri_admins i)
      \<and> (\<exists>po. getPolicy c = Inr po \<and> (excluded po e \<or> (e \<notin> set (listedEmails (po_include po)) \<and> \<not> domainAdmits po e))))
    \<and> (\<not> active_email (pl_users p) e \<and> active_email (pl_users q) e \<longrightarrow>
        e \<notin> set (known_emails (pl_users p)) \<and> \<not> isTombstoned e (pl_tombs p)
      \<and> (\<exists>po. getPolicy c = Inr po \<and> e \<in> set (listedEmails (po_include po)) \<and> \<not> excluded po e))"
proof (cases "pl_users q = pl_users p")
  case False
  show ?thesis
  proof (rule run_users [OF assms(2,3) False])
    fix po made errors off q0
    assume po: "getPolicy c = Inr po" and ch: "run_changes i (plan_of i po p) t p = (made, errors, off, q0)"
      and q: "pl_users q = pl_users q0"
    note C = run_changes_planned [OF assms(1) ch, unfolded changes_ok_def]
    have lost: "e \<in> set (pn_disable (plan_of i po p)) \<and> e \<notin> set (ri_admins i)"
      if "active_email (pl_users p) e" "\<not> active_email (pl_users q) e" using C that unfolding q by blast
    have new: "e \<in> set (pn_import (plan_of i po p))"
      if "\<not> active_email (pl_users p) e" "active_email (pl_users q) e" using C that unfolding q by blast
    have live: "\<not> isTombstoned e (pl_tombs p)" if "e \<in> set (pn_import (plan_of i po p))"
      using that normalizeEmail_plain [of e e] by (auto simp: plan_import isTombstoned_def row_by_None_iff)
    show ?thesis using lost new live po by (auto simp: plan_disable plan_import)
  qed
qed simp

section \<open>What a run writes\<close>

text \<open>The rules written keep every rule that is not an address, in its order; they list the addresses
  wanted and those of the policy that the panel never wrote, and nothing else; and on the policy so
  written, with the addresses written as the baseline, there is nothing to change.
\<close>
theorem written_policy:
  assumes "list_all plain desired"
  shows "filter (\<lambda>r. \<not> isEmailRule r) (bu_include (buildInclude po baseline desired)) = filter (\<lambda>r. \<not> isEmailRule r) (po_include po)
    \<and> set (listedEmails (bu_include (buildInclude po baseline desired)))
        = set desired \<union> (set (listedEmails (po_include po)) - set baseline)
    \<and> \<not> bu_changed (buildInclude (po\<lparr>po_include := bu_include (buildInclude po baseline desired)\<rparr>) desired desired)"
proof -
  have "isEmailRule (email_rule e)" if "e \<in> set desired" for e
    using that assms ruleEmail_email_rule by (auto simp: list_all_iff isEmailRule_def plain_def)
  then have "filter (\<lambda>r. \<not> isEmailRule r) (map email_rule (sort (js_set desired))) = []"
    by (auto simp: filter_empty_conv)
  moreover have "filter (\<lambda>r. \<not> isEmailRule r) (filter (kept_rule b w) rs) = filter (\<lambda>r. \<not> isEmailRule r) rs" for b w rs
    by (induction rs) (auto simp: kept_rule_def)
  ultimately have "filter (\<lambda>r. \<not> isEmailRule r) (bu_include (buildInclude po baseline desired))
      = filter (\<lambda>r. \<not> isEmailRule r) (po_include po)"
    by (simp add: buildInclude_def Let_def)
  then show ?thesis using built_lists [OF assms] by (auto simp: built_changed)
qed

section \<open>After a run that ends well\<close>

lemma synced_plain:
  assumes "panel_ok p" and "changes_ok i (plan_of i po p) p made errors off q" and "u \<in> set (pl_users q)" and "email_of u = Some e"
  shows "e \<noteq> []"
proof -
  have "e \<in> set (known_emails (pl_users p)) \<or> e \<in> set (pn_import (plan_of i po p))"
  proof -
    have "e \<in> set (known_emails (pl_users q))" using assms(3,4) by (auto simp: known_iff)
    then show ?thesis using assms(2) unfolding changes_ok_def by blast
  qed
  then show ?thesis
    using assms(1) normalizeEmail_plain [of e e] by (auto simp: panel_ok_def list_all_iff plain_def plan_import)
qed

text \<open>Where the users stand after a run alone.\<close>

lemma alone_users_have_access:
  assumes "panel_ok p" and "list_all plain (ri_admins i)" and "runAccessSync dec id c i t p = (Some r, q)" and "run_synced r"
    and u: "u \<in> set (pl_users q)" "us_disabled u = None" "us_email u \<noteq> None"
  shows "accessStateOf u True (pl_sync q) \<in> {Some InAccess, Some AdmittedByRule}"
proof (rule synced_run [OF assms(1-4)])
  fix po made errors off
  assume C: "changes_ok i (plan_of i po p) p made errors off (q\<lparr>pl_sync := pl_sync p\<rparr>)"
    and base: "\<And>e. e \<in> set (sy_baseline (pl_sync q)) \<longleftrightarrow> (active_email (pl_users p) e \<and> e \<notin> set (known_emails off)
          \<and> \<not> (by_rule (pl_users p) e \<and> e \<notin> set (emails_of (po_include po)))) \<or> e \<in> set (known_emails made) \<or> e \<in> set (ri_admins i)"
    and listed: "\<And>e. e \<in> set (sy_policy_emails (pl_sync q)) \<longleftrightarrow> e \<in> set (sy_baseline (pl_sync q))
          \<or> (e \<in> set (emails_of (po_include po)) \<and> e \<notin> set (sy_baseline (pl_sync p)))"
    and cand: "sy_candidates (pl_sync q) = None"
  obtain e where e: "email_of u = Some e" using u(3) by (auto simp: email_of_def)
  have ne: "e \<noteq> []" using synced_plain [OF assms(1) C, of u e] u(1) e by simp
  note D = C [unfolded changes_ok_def, simplified]
  have act: "active_email (pl_users q) e" using u e by (auto simp: active_iff)
  have "us_access_source u = Some ACCESS_LOGIN_SOURCE" if no: "e \<notin> set (sy_policy_emails (pl_sync q))"
  proof -
    have "active_email (pl_users p) e" "e \<notin> set (known_emails off)" using D act no base listed by blast+
    moreover from this have "by_rule (pl_users p) e" "e \<notin> set (emails_of (po_include po))" using no base listed by blast+
    moreover have "e \<notin> set (pn_import (plan_of i po p))" using active_known calculation(1) by (auto simp: plan_import)
    ultimately have "by_rule (pl_users q) e" using D by (auto simp: plan_adopt)
    then obtain v where v: "v \<in> set (pl_users q)" "email_of v = Some e" "us_access_source v = Some ACCESS_LOGIN_SOURCE"
      by (auto simp: by_rule_iff)
    have "users_ok (pl_users q)" using D by blast
    then show ?thesis using same_address [OF _ v(1) u(1) v(2) e] v(3) by simp
  qed
  then show ?thesis using u(2) e ne cand by (simp add: accessStateOf_def)
qed

text \<open>C26: After a run that ends well, every active user with an address is in the policy by it or let in
  by a rule: none is left waiting, whatever the policy held before. Others may change the panel while the run works, short of pointing the
  sync elsewhere: this holds for every user whose row they left as the run would have left it alone; a user they made or changed
  waits for the next run.
\<close>
theorem synced_users_have_access:
  assumes "panel_ok p" and "list_all plain (ri_admins i)" and target: "\<And>s. same_target (pl_config (mw s)) (pl_config s)"
    and run: "runAccessSync dec mw c i t p = (Some r, q)" and good: "run_synced r"
    and u: "u \<in> set (pl_users (snd (runAccessSync dec id c i t p)))" "us_disabled u = None" "us_email u \<noteq> None"
  shows "accessStateOf u True (pl_sync q) \<in> {Some InAccess, Some AdmittedByRule}"
proof (rule run_meanwhile [OF assms(1) target run good])
  fix q0
  assume q0: "runAccessSync dec id c i t p = (Some r, q0)" and lists: "sy_candidates (pl_sync q) = sy_candidates (pl_sync q0)"
    "sy_policy_emails (pl_sync q) = sy_policy_emails (pl_sync q0)"
  have "accessStateOf u True (pl_sync q0) \<in> {Some InAccess, Some AdmittedByRule}"
    by (rule alone_users_have_access [OF assms(1,2) q0 good]) (use u q0 in simp_all)
  moreover have "accessStateOf u True (pl_sync q) = accessStateOf u True (pl_sync q0)" by (simp only: accessStateOf_def lists)
  ultimately show ?thesis by simp
qed

text \<open>C22: The sync comes to rest: when a run ends well with no refused address and no active user is
  excluded in Cloudflare, a second run that finds the policy as the first left it (the same addresses
  listed, the same ones excluded) writes nothing, makes no user, turns no user off, and keeps the
  baseline. Nobody else writes the panel's state meanwhile; the second run may come at any time and
  Cloudflare may answer its writes in any way.
\<close>
theorem sync_comes_to_rest:
  assumes "panel_ok p" and "list_all plain (ri_admins i)" and "runAccessSync dec id c i t p = (Some r, q)" and "run_synced r"
    and "rr_errors r = 0" and po: "getPolicy c = Inr po" and admitted: "\<forall>e. active_email (pl_users p) e \<longrightarrow> e \<notin> set (ri_admins i) \<longrightarrow> \<not> excluded po e"
    and po': "getPolicy c' = Inr po'" "po_exclude po' = po_exclude po" "po_decision po' = po_decision po"
      "set (listedEmails (po_include po')) = set (sy_policy_emails (pl_sync q))"
    and "sy_baseline (pl_sync q) \<noteq> []" and "ri_google k" and "ri_admins k = ri_admins i"
  shows "\<exists>r' s. runAccessSync dec id c' k t' q = (Some r', s) \<and> rr_outcome r' = ''unchanged'' \<and> rr_added r' = 0 \<and> rr_removed r' = 0
    \<and> rr_imported r' = 0 \<and> rr_disabled r' = 0 \<and> rr_errors r' = 0
    \<and> (\<forall>e. active_email (pl_users s) e \<longleftrightarrow> active_email (pl_users q) e)
    \<and> set (sy_baseline (pl_sync s)) = set (sy_baseline (pl_sync q))"
proof (rule synced_run [OF assms(1-4)], rule synced_config [OF assms(3,4)])
  fix po1 made errors off token
  assume po1: "getPolicy c = Inr po1" "po_decision po1 = Some ''allow''"
    and C: "changes_ok i (plan_of i po1 p) p made errors off (q\<lparr>pl_sync := pl_sync p\<rparr>)"
    and base: "\<And>e. e \<in> set (sy_baseline (pl_sync q)) \<longleftrightarrow> (active_email (pl_users p) e \<and> e \<notin> set (known_emails off)
          \<and> \<not> (by_rule (pl_users p) e \<and> e \<notin> set (emails_of (po_include po1)))) \<or> e \<in> set (known_emails made) \<or> e \<in> set (ri_admins i)"
    and listed: "\<And>e. e \<in> set (sy_policy_emails (pl_sync q)) \<longleftrightarrow> e \<in> set (sy_baseline (pl_sync q))
          \<or> (e \<in> set (emails_of (po_include po1)) \<and> e \<notin> set (sy_baseline (pl_sync p)))"
    and err: "rr_errors r = errors + length (pn_invalid (plan_of i po1 p))"
    and conf: "loadRunConfig dec (pl_config p) = Some (pl_config p, token)" "text_given token"
  have same: "po1 = po" "errors = 0" "pn_invalid (plan_of i po p) = []" using po po1 err assms(5) by simp_all
  have cfg: "pl_config q = pl_config p" and ok: "users_ok (pl_users q)" using C by (simp_all add: changes_ok_def)
  have S: "settled i po po' p q made off"
    unfolding settled_def using C base listed same po' admitted by (intro conjI allI) simp_all
  have "po_decision po' = Some ''allow''" using po'(3) po1(2) same(1) by simp
  then show ?thesis
    using conf assms(12) by (intro settled_run [OF S ok assms(14,13) po'(1)]) (simp_all add: cfg)
qed

section \<open>A panel and a policy\<close>

text \<open>
  An administrator, Ann in the policy since an earlier run, Bob whom somebody removed there, and an
  address somebody added there.
\<close>

definition sample_user :: "nat \<Rightarrow> string \<Rightarrow> bool \<Rightarrow> string option \<Rightarrow> user" where
  "sample_user i e adm src = \<lparr>us_id = i, us_name = e, us_email = Some e, us_admin = adm, us_disabled = None,
     us_disabled_source = None, us_access_source = src, us_created = 0\<rparr>"

definition sample_panel :: panel where
  "sample_panel = \<lparr>pl_users = [sample_user 1 ''r@x'' True None, sample_user 2 ''a@x'' False None, sample_user 3 ''b@x'' False None], pl_next = 4, pl_tombs = [],
     pl_config = \<lparr>cg_enabled = True, cg_account = ''acc'', cg_app = ''app'', cg_policy = ''pol'', cg_token = Some ''t''\<rparr>,
     pl_sync = \<lparr>sy_baseline = [''a@x'', ''b@x''], sy_policy_emails = [], sy_candidates = None, sy_imports = None,
       sy_retry = 0, sy_last = None\<rparr>, pl_deeds = []\<rparr>"

definition sample_policy :: policy where
  "sample_policy = \<lparr>po_include = [email_rule ''a@x'', email_rule ''d@x''], po_exclude = [], po_decision = Some ''allow'', po_rest = []\<rparr>"

definition sample_client :: "policy \<Rightarrow> client" where
  "sample_client po = \<lparr>cl_attached = Inr po, cl_probe = Inr (), cl_update = (\<lambda>_. None)\<rparr>"

definition sample_input :: run_input where
  "sample_input = \<lparr>ri_trigger = ''timer'', ri_google = True, ri_admins = [''r@x''], ri_max_disables = 10, ri_max_imports = 10,
     ri_can_retry = True\<rparr>"

definition sample_run :: "run_result option \<times> panel" where
  "sample_run = runAccessSync Some id (sample_client sample_policy) sample_input 7 sample_panel"

lemma sample_ran:
  "case sample_run of (r, q) \<Rightarrow> map_option rr_outcome r = Some ''updated'' \<and> map_option rr_errors r = Some 0
   \<and> map (\<lambda>u. (us_email u, us_disabled u)) (pl_users q)
      = [(Some ''r@x'', None), (Some ''a@x'', None), (Some ''b@x'', Some 7), (Some ''d@x'', None)]
   \<and> \<not> active_email (pl_users q) ''b@x''
   \<and> sy_baseline (pl_sync q) = [''a@x'', ''d@x'', ''r@x''] \<and> sy_policy_emails (pl_sync q) = [''a@x'', ''d@x'', ''r@x'']"
  by code_simp

lemma sample_facts:
  "map_option rr_outcome (fst sample_run) = Some ''updated''" "map_option rr_errors (fst sample_run) = Some 0"
  "map (\<lambda>u. (us_email u, us_disabled u)) (pl_users (snd sample_run))
      = [(Some ''r@x'', None), (Some ''a@x'', None), (Some ''b@x'', Some 7), (Some ''d@x'', None)]"
  "\<not> active_email (pl_users (snd sample_run)) ''b@x''" "sy_baseline (pl_sync (snd sample_run)) = [''a@x'', ''d@x'', ''r@x'']"
  "sy_policy_emails (pl_sync (snd sample_run)) = [''a@x'', ''d@x'', ''r@x'']"
  using sample_ran unfolding case_prod_beta by blast+

lemma sample_panel_ok: "panel_ok sample_panel \<and> list_all plain (ri_admins sample_input)"
  by code_simp

lemma sample_run_is: "runAccessSync Some id (sample_client sample_policy) sample_input 7 sample_panel = (fst sample_run, snd sample_run)"
  by (simp add: sample_run_def)

lemma sample_result_is: "runAccessSync Some id (sample_client sample_policy) sample_input 7 sample_panel = (Some (the (fst sample_run)), snd sample_run)"
  and sample_result_good: "run_synced (the (fst sample_run))" "rr_errors (the (fst sample_run)) = 0"
proof -
  obtain r where "fst sample_run = Some r" "rr_outcome r = ''updated''" "rr_errors r = 0"
    using sample_facts(1,2) by (cases "fst sample_run") simp_all
  then show "runAccessSync Some id (sample_client sample_policy) sample_input 7 sample_panel = (Some (the (fst sample_run)), snd sample_run)"
    "run_synced (the (fst sample_run))" "rr_errors (the (fst sample_run)) = 0"
    by (simp_all add: sample_run_is run_synced_def)
qed

theorem run_stays_in_its_limits_witness:
  "disabled_count (pl_users (snd sample_run)) \<le> disabled_count (pl_users sample_panel) + 10
   \<and> length (pl_users (snd sample_run)) \<le> length (pl_users sample_panel) + 10"
  using run_stays_in_its_limits [OF conjunct1 [OF sample_panel_ok] _ sample_run_is] by (simp add: sample_input_def)

theorem run_leaves_an_admin_witness: "admin_left (pl_users (snd sample_run))"
proof -
  have "admin_left (pl_users sample_panel)" by code_simp
  then show ?thesis using run_leaves_an_admin [OF conjunct1 [OF sample_panel_ok] _ sample_run_is] by simp
qed

theorem run_follows_the_policy_witness:
  "excluded sample_policy ''b@x'' \<or> ''b@x'' \<notin> set (listedEmails (po_include sample_policy)) \<and> \<not> domainAdmits sample_policy ''b@x''"
proof -
  have "active_email (pl_users sample_panel) ''b@x''" by code_simp
  moreover note sample_facts(4)
  moreover have "getPolicy (sample_client sample_policy) = Inr sample_policy" by (simp add: getPolicy_def sample_client_def)
  ultimately show ?thesis
    using run_follows_the_policy [OF conjunct1 [OF sample_panel_ok] _ sample_run_is, of "''b@x''"] by simp
qed

theorem written_policy_witness:
  "set (listedEmails (bu_include (buildInclude sample_policy [''b@x''] [''r@x'']))) = insert ''r@x'' (set (listedEmails (po_include sample_policy)) - {''b@x''})"
proof -
  have "list_all plain [''r@x'']" by code_simp
  from written_policy [OF this, of sample_policy "[''b@x'']"] show ?thesis by simp
qed

theorem synced_users_have_access_witness:
  "accessStateOf (pl_users (snd sample_run) ! 3) True (pl_sync (snd sample_run)) \<in> {Some InAccess, Some AdmittedByRule}"
proof -
  have l: "length (pl_users (snd sample_run)) = 4" using arg_cong [OF sample_facts(3), of length] by simp
  have "map (\<lambda>u. (us_email u, us_disabled u)) (pl_users (snd sample_run)) ! 3 = (Some ''d@x'', None)" unfolding sample_facts(3) by simp
  then have "us_email (pl_users (snd sample_run) ! 3) = Some ''d@x''" "us_disabled (pl_users (snd sample_run) ! 3) = None" using l by simp_all
  then show ?thesis
    using l by (intro synced_users_have_access [OF conjunct1 [OF sample_panel_ok] conjunct2 [OF sample_panel_ok] _ sample_result_is
      sample_result_good(1)]) (simp_all add: same_target_def sample_run_def [symmetric])
qed

definition written_sample :: policy where
  "written_sample = sample_policy\<lparr>po_include := map email_rule [''a@x'', ''d@x'', ''r@x'']\<rparr>"

theorem sync_comes_to_rest_witness:
  "\<exists>r s. runAccessSync Some id (sample_client written_sample) sample_input 9 (snd sample_run) = (Some r, s) \<and> rr_outcome r = ''unchanged''"
proof -
  have "set (listedEmails (po_include written_sample)) = {''a@x'', ''d@x'', ''r@x''}" by code_simp
  moreover have "po_exclude written_sample = po_exclude sample_policy" "po_decision written_sample = po_decision sample_policy"
    by (simp_all add: written_sample_def)
  moreover have "\<not> excluded sample_policy e" for e by (simp add: excluded_def sample_policy_def emails_of_def domains_of_def given_def)
  moreover have "getPolicy (sample_client po) = Inr po" for po by (simp add: getPolicy_def sample_client_def)
  moreover have "ri_google sample_input" by (simp add: sample_input_def)
  ultimately show ?thesis
    using sync_comes_to_rest [OF conjunct1 [OF sample_panel_ok] conjunct2 [OF sample_panel_ok] sample_result_is sample_result_good,
        of sample_policy "sample_client written_sample" written_sample sample_input 9]
    by (simp add: sample_facts) blast
qed

end
