(* ===== verification/Encryption.thy ===== *)
theory Encryption
  imports Rex "HOL-Library.Word"
begin

unbundle bit_operations_syntax

text \<open>
  Stored credentials (\<open>services/encryption.js\<close>). AES-256-GCM, HKDF and UTF-8 are arguments
  (\<open>crypto\<close>), and so is the random initialisation vector; \<open>crypto_ok\<close> says what the code relies on:
  the tag opens what the key sealed, and decoding gives back the text that was encoded. The parsed
  key and the derived keys the module keeps are its state.
\<close>

type_synonym bytes = "8 word list"

section \<open>Hexadecimal text\<close>

definition hex_chars :: string where
  "hex_chars = ''0123456789abcdef''"

text \<open>\<open>buffer.toString('hex')\<close>; \<open>Buffer.from(text, 'hex')\<close> stops at the first pair that is no byte.\<close>

definition byte_hex :: "8 word \<Rightarrow> string" where
  "byte_hex b = [hex_chars ! (unat b div 16), hex_chars ! (unat b mod 16)]"

definition to_hex :: "bytes \<Rightarrow> string" where
  "to_hex bs = concat (map byte_hex bs)"

fun from_hex :: "string \<Rightarrow> bytes" where
  "from_hex (a # b # cs) = (if hex_digit (js_lower_char a) \<and> hex_digit (js_lower_char b)
     then word_of_nat (16 * hex_value (js_lower_char a) + hex_value (js_lower_char b)) # from_hex cs else [])"
| "from_hex cs = []"

section \<open>Keys\<close>

record crypto =
  cr_seal :: "bytes \<Rightarrow> bytes \<Rightarrow> bytes \<Rightarrow> bytes \<times> bytes"
  cr_open :: "bytes \<Rightarrow> bytes \<Rightarrow> bytes \<Rightarrow> bytes \<Rightarrow> bytes option"
  cr_encode :: "string \<Rightarrow> bytes"
  cr_decode :: "bytes \<Rightarrow> string"
  cr_hkdf :: "bytes \<Rightarrow> string \<Rightarrow> bytes"

record key_state =
  ks_key :: "bytes option"
  ks_derived :: "string \<rightharpoonup> bytes"

definition PREFIX :: string where
  "PREFIX = ''enc:v1:''"

definition IV_BYTES :: nat where
  "IV_BYTES = 12"

definition getKey :: "string option \<Rightarrow> key_state \<Rightarrow> bytes option \<times> key_state" where
  "getKey env s = (case ks_key s of Some k \<Rightarrow> (Some k, s)
     | None \<Rightarrow> (case env of None \<Rightarrow> (None, s)
         | Some hex \<Rightarrow> if hex = [] \<or> length hex \<noteq> 64 then (None, s) else (Some (from_hex hex), s\<lparr>ks_key := Some (from_hex hex)\<rparr>)))"

definition deriveKey :: "crypto \<Rightarrow> string option \<Rightarrow> string \<Rightarrow> key_state \<Rightarrow> bytes option \<times> key_state" where
  "deriveKey cr env purpose s = (case ks_derived s purpose of Some k \<Rightarrow> (Some k, s)
     | None \<Rightarrow> (case getKey env s of
         (None, s1) \<Rightarrow> (None, s1)
       | (Some key, s1) \<Rightarrow> if length key \<noteq> 32 then (None, s1)
           else let k = cr_hkdf cr key (''mailexpert:'' @ purpose) in (Some k, s1\<lparr>ks_derived := (ks_derived s1)(purpose \<mapsto> k)\<rparr>)))"

section \<open>Values\<close>

text \<open>No key, or a key of the wrong length, which \<open>createCipheriv\<close> refuses.\<close>

datatype encrypt_error = NoKey | BadKey

definition encrypt :: "crypto \<Rightarrow> string option \<Rightarrow> bytes \<Rightarrow> string option \<Rightarrow> key_state \<Rightarrow> (encrypt_error + string option) \<times> key_state" where
  "encrypt cr env iv plaintext s = (case plaintext of
     None \<Rightarrow> (Inr None, s)
   | Some p \<Rightarrow> if p = [] then (Inr (Some []), s)
       else (case getKey env s of
         (None, s1) \<Rightarrow> (Inl NoKey, s1)
       | (Some key, s1) \<Rightarrow> if length key \<noteq> 32 then (Inl BadKey, s1)
           else let (ct, tag) = cr_seal cr key iv (cr_encode cr p)
             in (Inr (Some (PREFIX @ to_hex iv @ '':'' @ to_hex tag @ '':'' @ to_hex ct)), s1)))"

definition isEncrypted :: "string option \<Rightarrow> bool" where
  "isEncrypted value \<longleftrightarrow> (case value of Some v \<Rightarrow> take (length PREFIX) v = PREFIX | None \<Rightarrow> False)"

text \<open>A key of the wrong length and an opened tag that does not match both throw inside the \<open>try\<close>.\<close>

definition decrypt :: "crypto \<Rightarrow> string option \<Rightarrow> string option \<Rightarrow> key_state \<Rightarrow> string option \<times> key_state" where
  "decrypt cr env value s = (case value of
     None \<Rightarrow> (None, s)
   | Some v \<Rightarrow> if \<not> isEncrypted value then (Some v, s)
       else (case getKey env s of
         (None, s1) \<Rightarrow> (None, s1)
       | (Some key, s1) \<Rightarrow> (case split_on (CHR '':'') (drop (length PREFIX) v) of
           [iv, tag, ct] \<Rightarrow> if length key \<noteq> 32 then (None, s1)
             else (map_option (cr_decode cr) (cr_open cr key (from_hex iv) (from_hex tag) (from_hex ct)), s1)
         | _ \<Rightarrow> (None, s1))))"

section \<open>What comes back\<close>

definition crypto_ok :: "crypto \<Rightarrow> bool" where
  "crypto_ok cr \<longleftrightarrow> (\<forall>key iv p. length key = 32 \<and> length iv = IV_BYTES
       \<longrightarrow> cr_open cr key iv (snd (cr_seal cr key iv p)) (fst (cr_seal cr key iv p)) = Some p)
     \<and> (\<forall>p. cr_decode cr (cr_encode cr p) = p)"

lemma hex_chars_all: "list_all (\<lambda>n. hex_digit (js_lower_char (hex_chars ! n)) \<and> hex_value (js_lower_char (hex_chars ! n)) = n
    \<and> hex_chars ! n \<noteq> CHR '':'') [0..<16]"
  by code_simp

lemma hex_char_facts:
  assumes "n < 16"
  shows "hex_digit (js_lower_char (hex_chars ! n))" "hex_value (js_lower_char (hex_chars ! n)) = n" "hex_chars ! n \<noteq> CHR '':''"
  using hex_chars_all assms unfolding list_all_iff by simp_all

lemma byte_nibbles: "unat (b :: 8 word) div 16 < 16"
proof -
  have "unat b < 256" using unsigned_less [of b] by simp
  then show ?thesis by simp
qed

lemma hex_bytes [simp]: "from_hex (to_hex bs) = bs"
proof (induction bs)
  case (Cons b bs)
  have "word_of_nat (16 * (unat b div 16) + unat b mod 16) = b" by simp
  then show ?case using Cons byte_nibbles [of b] by (simp add: to_hex_def byte_hex_def hex_char_facts)
qed (simp add: to_hex_def)

lemma hex_no_colon [simp]: "CHR '':'' \<notin> set (to_hex bs)"
proof -
  have "CHR '':'' \<noteq> hex_chars ! n" if "n < 16" for n using hex_char_facts(3) [OF that] by metis
  then show ?thesis using byte_nibbles by (auto simp: to_hex_def byte_hex_def)
qed

lemma getKey_again: "getKey env s = (Some key, s1) \<Longrightarrow> ks_key s1 = Some key"
  by (auto simp: getKey_def split: option.splits if_splits)

lemma getKey_cached [simp]: "ks_key s = Some key \<Longrightarrow> getKey env s = (Some key, s)"
  by (simp add: getKey_def)

text \<open>A process that has not parsed its key yet reads the same environment.\<close>

lemma getKey_fresh: "getKey env s = (Some key, s') \<Longrightarrow> ks_key s = None
    \<Longrightarrow> getKey env \<lparr>ks_key = None, ks_derived = derived\<rparr> = (Some key, \<lparr>ks_key = Some key, ks_derived = derived\<rparr>)"
  by (auto simp: getKey_def split: option.splits if_splits)

lemma decrypt_again: "getKey env s = (Some key, s') \<Longrightarrow> isEncrypted (Some v) \<Longrightarrow> fst (decrypt cr env (Some v) s) = fst (decrypt cr env (Some v) s')"
  using getKey_cached [OF getKey_again, of env s key s' env] by (auto simp: decrypt_def split: list.split)

lemma decrypt_sealed:
  assumes "crypto_ok cr" and "ks_key s = Some key" and "length key = 32" and "length iv = IV_BYTES"
    and "cr_seal cr key iv (cr_encode cr p) = (ct, tag)"
  shows "decrypt cr env (Some (PREFIX @ to_hex iv @ '':'' @ to_hex tag @ '':'' @ to_hex ct)) s = (Some p, s)"
proof -
  have "cr_open cr key iv tag ct = Some (cr_encode cr p)" "cr_decode cr (cr_encode cr p) = p"
    using assms(1,3-5) unfolding crypto_ok_def by (metis fst_conv snd_conv)+
  then show ?thesis using assms(2,3)
    by (simp add: decrypt_def isEncrypted_def split_on_join split_on_last)
qed

text \<open>C33: A credential that was encrypted decrypts to itself, whatever the environment says by then, since
  the process keeps its key; the stored text is marked as encrypted, and encrypting never stores the
  plain text: without a key of 32 bytes it fails instead. A key for another purpose never changes that.\<close>
theorem credentials_round_trip:
  assumes "crypto_ok cr" and "length iv = IV_BYTES" and "p \<noteq> []" and enc: "encrypt cr env iv (Some p) s = (r, s1)"
  shows "(\<exists>stored. r = Inr (Some stored) \<and> isEncrypted (Some stored) \<and> decrypt cr env' (Some stored) s1 = (Some p, s1)
          \<and> fst (decrypt cr env' (Some stored) (snd (deriveKey cr env' purpose s1))) = Some p
          \<and> (ks_key s = None \<longrightarrow> fst (decrypt cr env (Some stored) \<lparr>ks_key = None, ks_derived = derived\<rparr>) = Some p))
    \<or> (\<exists>e. r = Inl e) \<and> (\<forall>key. fst (getKey env s) = Some key \<longrightarrow> length key \<noteq> 32)"
proof (cases "getKey env s")
  case (Pair k s')
  show ?thesis
  proof (cases "\<exists>key. k = Some key \<and> length key = 32")
    case True
    then obtain key where k: "k = Some key" "length key = 32" by blast
    obtain ct tag where seal: "cr_seal cr key iv (cr_encode cr p) = (ct, tag)" by fastforce
    define stored where "stored = PREFIX @ to_hex iv @ '':'' @ to_hex tag @ '':'' @ to_hex ct"
    have r: "r = Inr (Some stored)" "s1 = s'" using enc assms(3) by (simp_all add: encrypt_def Pair k seal stored_def)
    have key: "ks_key s1 = Some key" using getKey_again Pair k r(2) by blast
    have kept: "ks_key (snd (deriveKey cr env' purpose s1)) = Some key"
      using key by (simp add: deriveKey_def Let_def split: option.split)
    have same: "decrypt cr e (Some stored) t = (Some p, t)" if "ks_key t = Some key" for e t
      unfolding stored_def by (rule decrypt_sealed [OF assms(1) that k(2) assms(2) seal])
    have fresh: "fst (decrypt cr env (Some stored) \<lparr>ks_key = None, ks_derived = derived\<rparr>) = Some p" if "ks_key s = None"
    proof -
      have "getKey env \<lparr>ks_key = None, ks_derived = derived\<rparr> = (Some key, \<lparr>ks_key = Some key, ks_derived = derived\<rparr>)"
        using getKey_fresh that Pair k by blast
      from decrypt_again [OF this, of stored cr] show ?thesis using same by (simp add: isEncrypted_def stored_def)
    qed
    show ?thesis using key kept fresh r(1) same by (auto simp: isEncrypted_def stored_def)
  next
    case False
    then show ?thesis using enc assms(3) by (auto simp: encrypt_def Pair split: option.splits)
  qed
qed

text \<open>A cipher for the witness: it reverses the bytes and its tag is their number.\<close>

definition toy_crypto :: crypto where
  "toy_crypto = \<lparr>cr_seal = (\<lambda>key iv p. (rev p, [word_of_nat (length p)])), cr_open = (\<lambda>key iv tag ct. if tag = [word_of_nat (length ct)] then Some (rev ct) else None),
     cr_encode = map (\<lambda>c. word_of_nat (of_char c)), cr_decode = map (\<lambda>b. char_of (unat b)), cr_hkdf = (\<lambda>key purpose. key)\<rparr>"

lemma toy_ok: "crypto_ok toy_crypto"
proof -
  have "char_of (unat (word_of_nat (of_char c) :: 8 word)) = c" for c
  proof -
    have "(of_char c :: nat) < 256" by (rule nat_of_char_less_256)
    then have "unat (word_of_nat (of_char c) :: 8 word) = of_char c" by (simp add: unat_of_nat)
    then show ?thesis by simp
  qed
  then show ?thesis by (simp add: crypto_ok_def toy_crypto_def o_def)
qed

theorem credentials_round_trip_witness:
  "\<exists>stored s1. encrypt toy_crypto (Some (replicate 64 CHR ''a'')) (replicate 12 7) (Some ''secret'') \<lparr>ks_key = None, ks_derived = Map.empty\<rparr>
      = (Inr (Some stored), s1) \<and> decrypt toy_crypto None (Some stored) s1 = (Some ''secret'', s1)"
proof -
  let ?s = "\<lparr>ks_key = None, ks_derived = Map.empty\<rparr> :: key_state"
  let ?e = "encrypt toy_crypto (Some (replicate 64 CHR ''a'')) (replicate 12 7) (Some ''secret'') ?s"
  have key: "fst (getKey (Some (replicate 64 CHR ''a'')) ?s) = Some (from_hex (replicate 64 CHR ''a''))" by (simp add: getKey_def)
  have len: "length (from_hex (replicate 64 CHR ''a'')) = 32" by code_simp
  have "?e = (fst ?e, snd ?e)" by simp
  from credentials_round_trip [OF toy_ok _ _ this, of None "[]"] key len
  obtain stored where "fst ?e = Inr (Some stored)" "decrypt toy_crypto None (Some stored) (snd ?e) = (Some ''secret'', snd ?e)"
    by (auto simp: IV_BYTES_def)
  then show ?thesis by (metis prod.collapse)
qed

end
