(* ===== verification/AccessVerify.thy ===== *)
theory AccessVerify
  imports AccessSync Encryption
begin

text \<open>
  What an administrator does with the settings of the Cloudflare Access sync: saving them
  (\<open>services/accessSync/actions.js\<close>) and checking them against Cloudflare without writing anything
  (\<open>verify.js\<close>, and \<open>verifyToken\<close> of \<open>cloudflareAccessClient.js\<close>). Cloudflare's answers are the
  fields of \<open>verify_client\<close>.
\<close>

section \<open>Saving\<close>

definition save_build :: "config_input \<Rightarrow> config \<Rightarrow> config_input" where
  "save_build i stored = i"

record config_patch =
  pa_enabled :: "bool option"
  pa_account :: "string option"
  pa_app :: "string option"
  pa_policy :: "string option"
  pa_token :: "string option"

definition or_stored :: "'a option \<Rightarrow> 'a \<Rightarrow> 'a" where
  "or_stored v d = (case v of Some x \<Rightarrow> x | None \<Rightarrow> d)"

definition patch_build :: "config_patch \<Rightarrow> config \<Rightarrow> config_input" where
  "patch_build pa stored = \<lparr>ci_enabled = or_stored (pa_enabled pa) (cg_enabled stored), ci_account = Some (or_stored (pa_account pa) (cg_account stored)),
     ci_app = Some (or_stored (pa_app pa) (cg_app stored)), ci_policy = Some (or_stored (pa_policy pa) (cg_policy stored)), ci_token = pa_token pa\<rparr>"

definition changed_fields :: "config \<Rightarrow> config \<Rightarrow> string list" where
  "changed_fields a b = (if cg_enabled a \<noteq> cg_enabled b then [''enabled''] else []) @ (if cg_account a \<noteq> cg_account b then [''accountId''] else [])
     @ (if cg_app a \<noteq> cg_app b then [''appId''] else []) @ (if cg_policy a \<noteq> cg_policy b then [''policyId''] else [])"

datatype action_error = Refused config_error | TokenInvalid

text \<open>The journal names the fields and whether the token was replaced, never the token.\<close>

definition journal_change :: "config \<Rightarrow> config \<Rightarrow> panel \<Rightarrow> panel" where
  "journal_change before saved p =
     (let changed = changed_fields before saved; tokenChanged = cg_token before \<noteq> cg_token saved
      in if changed \<noteq> [] \<or> tokenChanged
         then deed (Journal ''access.config_changed'' (changed @ [if tokenChanged then ''true'' else ''false'', cg_account saved, cg_app saved, cg_policy saved])) p
         else p)"

text \<open>The answer: the settings saved and whether a run is asked for.\<close>

definition applyAccessSyncConfig :: "(string \<Rightarrow> string) \<Rightarrow> (config \<Rightarrow> config_input) \<Rightarrow> panel \<Rightarrow> (action_error + config \<times> bool) \<times> panel" where
  "applyAccessSyncConfig enc build p = (case writeConfig enc (build (pl_config p)) p of
     (Inl e, p1) \<Rightarrow> (Inl (Refused e), p1)
   | (Inr saved, p1) \<Rightarrow> (Inr (saved, cg_enabled saved), journal_change (pl_config p) saved p1))"

definition saveAccessSyncConfig :: "(string \<Rightarrow> string) \<Rightarrow> config_input \<Rightarrow> panel \<Rightarrow> (action_error + config \<times> bool) \<times> panel" where
  "saveAccessSyncConfig enc i p = applyAccessSyncConfig enc (save_build i) p"

definition patchAccessSyncConfig :: "(string \<Rightarrow> string) \<Rightarrow> config_patch \<Rightarrow> panel \<Rightarrow> (action_error + config \<times> bool) \<times> panel" where
  "patchAccessSyncConfig enc pa p = applyAccessSyncConfig enc (patch_build pa) p"

definition setAccessSyncToken :: "(string \<Rightarrow> string) \<Rightarrow> string option \<Rightarrow> panel \<Rightarrow> (action_error + config \<times> bool) \<times> panel" where
  "setAccessSyncToken enc token p = (let v = trimmed token in
     if \<not> API_TOKEN_RE v then (Inl TokenInvalid, p)
     else patchAccessSyncConfig enc \<lparr>pa_enabled = None, pa_account = None, pa_app = None, pa_policy = None, pa_token = Some v\<rparr> p)"

section \<open>The settings to check\<close>

datatype verify_error = VInvalidId | VTokenInvalid | VIncomplete | VUndecryptable

record verify_input =
  vi_account :: "string option"
  vi_app :: "string option"
  vi_policy :: "string option"
  vi_token :: "string option"

record verify_config =
  vg_account :: string
  vg_app :: string
  vg_policy :: string
  vg_token :: string
  vg_from_form :: bool

definition pick :: "string option \<Rightarrow> string \<Rightarrow> string" where
  "pick v stored = (case v of Some s \<Rightarrow> js_lower (js_trim s) | None \<Rightarrow> stored)"

text \<open>A thrown \<open>decrypt\<close> would be \<open>None\<close>; what it returns is the string or null inside.\<close>

definition stored_token :: "(string option \<Rightarrow> string option option) \<Rightarrow> string \<Rightarrow> config \<Rightarrow> verify_error + string option" where
  "stored_token dec typed c = (if typed = [] \<and> text_given (cg_token c)
     then (case dec (cg_token c) of None \<Rightarrow> Inl VUndecryptable | Some t \<Rightarrow> Inr t) else Inr (Some typed))"

definition resolveVerifyConfig :: "(string option \<Rightarrow> string option option) \<Rightarrow> verify_input \<Rightarrow> config \<Rightarrow> verify_error + verify_config" where
  "resolveVerifyConfig dec i c =
     (let account = pick (vi_account i) (cg_account c); app = pick (vi_app i) (cg_app c); po = pick (vi_policy i) (cg_policy c);
          typed = trimmed (vi_token i)
      in if \<not> ids_ok account app po then Inl VInvalidId
         else if typed \<noteq> [] \<and> \<not> API_TOKEN_RE typed then Inl VTokenInvalid
         else case stored_token dec typed c of Inl e \<Rightarrow> Inl e
         | Inr token \<Rightarrow> if account = [] \<or> \<not> text_given token then Inl VIncomplete
             else Inr \<lparr>vg_account = account, vg_app = app, vg_policy = po, vg_token = the token, vg_from_form = typed \<noteq> []\<rparr>)"

section \<open>The checks\<close>

record token_answer =
  ta_status :: string
  ta_expires :: "string option"
  ta_owner :: string

record access_app =
  aa_name :: "string option"
  aa_aud :: "string option"

text \<open>The bodies of the two token endpoints: \<open>status\<close> and \<open>expires_on\<close>, when they are strings.\<close>

record verify_client =
  vc_user :: "cf_error + (string option \<times> string option)"
  vc_account :: "cf_error + (string option \<times> string option)"
  vc_app :: "cf_error + access_app option"
  vc_policy :: client
  vc_reusable :: "policy \<Rightarrow> bool"

definition token_answer :: "string \<Rightarrow> string option \<times> string option \<Rightarrow> token_answer" where
  "token_answer owner r = \<lparr>ta_status = or_stored (fst r) ''unknown'', ta_expires = snd r, ta_owner = owner\<rparr>"

definition REFUSED :: "cf_status list" where
  "REFUSED = [Http 400, Http 401, Http 403]"

definition verifyToken :: "verify_client \<Rightarrow> cf_error + token_answer" where
  "verifyToken c = (case vc_user c of Inr r \<Rightarrow> Inr (token_answer ''user'' r)
     | Inl e \<Rightarrow> if ce_status e \<notin> set REFUSED then Inl e
         else (case vc_account c of Inr r \<Rightarrow> Inr (token_answer ''account'' r)
           | Inl e' \<Rightarrow> Inl (if ce_status e' = Http 400 \<or> ce_status e' = Http 401 then e else e')))"

text \<open>\<open>None\<close> is an error that is not Cloudflare's answer.\<close>

definition failureCode :: "cf_error option \<Rightarrow> string" where
  "failureCode err = (case err of None \<Rightarrow> ''unexpected'' | Some e \<Rightarrow> (case ce_status e of
     Network \<Rightarrow> ''unreachable'' | Timeout \<Rightarrow> ''unreachable'' | NotAttached \<Rightarrow> ''not_attached''
   | Http n \<Rightarrow> if n = 400 \<or> n = 401 then ''refused'' else if n = 403 then ''forbidden'' else if n = 404 then ''not_found'' else ''unavailable''))"

datatype check_status = Passed | Failed | Skipped

record check =
  ck_id :: string
  ck_status :: check_status
  ck_code :: string
  ck_note :: "string option"
  ck_owner :: "string option"
  ck_reusable :: "bool option"

definition check :: "string \<Rightarrow> check_status \<Rightarrow> string \<Rightarrow> check" where
  "check i st code = \<lparr>ck_id = i, ck_status = st, ck_code = code, ck_note = None, ck_owner = None, ck_reusable = None\<rparr>"

definition token_check :: "verify_client \<Rightarrow> check" where
  "token_check c = (case verifyToken c of
     Inr t \<Rightarrow> if ta_status t = ''active'' then (check ''token'' Passed ''active'')\<lparr>ck_note := ta_expires t, ck_owner := Some (ta_owner t)\<rparr>
       else (check ''token'' Failed (''token_'' @ ta_status t))\<lparr>ck_note := ta_expires t\<rparr>
   | Inl e \<Rightarrow> check ''token'' Failed (failureCode (Some e)))"

definition app_check :: "verify_client \<Rightarrow> verify_config \<Rightarrow> access_app option \<times> check" where
  "app_check c g = (if vg_app g = [] then (None, check ''app'' Skipped ''no_app_id'')
     else (case vc_app c of
         Inr a \<Rightarrow> (a, (check ''app'' Passed ''found'')\<lparr>ck_note := Option.bind a aa_name\<rparr>)
       | Inl e \<Rightarrow> (None, check ''app'' Failed (failureCode (Some e)))))"

definition audience_check :: "string \<Rightarrow> access_app option \<Rightarrow> check" where
  "audience_check audience app = (case app of None \<Rightarrow> check ''audience'' Skipped ''no_app''
     | Some a \<Rightarrow> if audience = [] then check ''audience'' Skipped ''not_configured''
         else if aa_aud a = Some audience then check ''audience'' Passed ''match'' else check ''audience'' Failed ''mismatch'')"

definition policy_check :: "verify_client \<Rightarrow> verify_config \<Rightarrow> check" where
  "policy_check c g = (if vg_app g = [] \<or> vg_policy g = [] then check ''policy'' Skipped (if vg_app g \<noteq> [] then ''no_policy_id'' else ''no_app_id'')
     else (case getPolicy (vc_policy c) of
         Inr po \<Rightarrow> if po_decision po = Some ''allow'' then (check ''policy'' Passed ''found'')\<lparr>ck_reusable := Some (vc_reusable c po)\<rparr>
           else check ''policy'' Failed ''not_allow''
       | Inl e \<Rightarrow> check ''policy'' Failed (failureCode (Some e))))"

definition verifyAccessSyncConfig :: "verify_client \<Rightarrow> string \<Rightarrow> verify_config \<Rightarrow> bool \<times> check list" where
  "verifyAccessSyncConfig c audience g =
     (let (app, app_result) = app_check c g; checks = [token_check c, app_result, audience_check audience app, policy_check c g]
      in (list_all (\<lambda>k. ck_status k \<noteq> Failed) checks, checks))"

definition verifyAccessSync :: "(string option \<Rightarrow> string option option) \<Rightarrow> (verify_config \<Rightarrow> verify_client) \<Rightarrow> string \<Rightarrow> verify_input \<Rightarrow> config
    \<Rightarrow> verify_error + bool \<times> check list" where
  "verifyAccessSync dec connect audience i c = (case resolveVerifyConfig dec i c of Inl e \<Rightarrow> Inl e
     | Inr g \<Rightarrow> Inr (verifyAccessSyncConfig (connect g) audience g))"


section \<open>What saving keeps\<close>

text \<open>Identifiers as a save writes them, lower case and without spaces around them.\<close>

definition normal :: "config \<Rightarrow> bool" where
  "normal c \<longleftrightarrow> (\<forall>s\<in>{cg_account c, cg_app c, cg_policy c}. js_lower (js_trim s) = s)"

lemma trimmed_again [simp]: "js_trim (trimmed v) = trimmed v"
  by (simp add: trimmed_def split: option.split)

lemma written_normal: "writeConfig enc i p = (Inr saved, p1) \<Longrightarrow> normal saved \<and> pl_config p1 = saved"
  by (auto simp: writeConfig_def Let_def normal_def split: if_splits)

lemma refused_write: "writeConfig enc i p = (Inl e, p1) \<Longrightarrow> p1 = p"
  by (auto simp: writeConfig_def Let_def split: if_splits)

lemma journal_keeps: "pl_sync (journal_change a b p) = pl_sync p \<and> pl_config (journal_change a b p) = pl_config p"
  unfolding journal_change_def Let_def deed_def by simp

lemma apply_writes: "applyAccessSyncConfig enc build p = (Inr (saved, run), p1)
    \<Longrightarrow> \<exists>p2. writeConfig enc (build (pl_config p)) p = (Inr saved, p2) \<and> pl_sync p1 = pl_sync p2 \<and> pl_config p1 = pl_config p2"
  by (auto simp: applyAccessSyncConfig_def journal_keeps split: prod.splits sum.splits)

lemma saved_is_normal: "applyAccessSyncConfig enc build p = (Inr (saved, run), p1) \<Longrightarrow> normal saved \<and> pl_config p1 = saved"
  by (drule apply_writes) (auto dest: written_normal)

lemma refused_changes_nothing: "applyAccessSyncConfig enc build p = (Inl e, p1) \<Longrightarrow> p1 = p"
  by (auto simp: applyAccessSyncConfig_def dest: refused_write split: prod.splits sum.splits)

lemma written_with_token:
  assumes "normal (pl_config p)" and "v \<noteq> []" and "js_trim v = v"
    and "writeConfig enc (patch_build \<lparr>pa_enabled = None, pa_account = None, pa_app = None, pa_policy = None, pa_token = Some v\<rparr> (pl_config p)) p
      = (Inr saved, p1)"
  shows "saved = (pl_config p)\<lparr>cg_token := Some (enc v)\<rparr> \<and> pl_sync p1 = pl_sync p"
proof -
  obtain en ac ap po tk where c: "pl_config p = \<lparr>cg_enabled = en, cg_account = ac, cg_app = ap, cg_policy = po, cg_token = tk\<rparr>"
    by (cases "pl_config p")
  have ids: "js_lower (js_trim ac) = ac" "js_lower (js_trim ap) = ap" "js_lower (js_trim po) = po"
    using assms(1) by (simp_all add: normal_def c)
  show ?thesis using assms(2-4)
    by (auto simp: writeConfig_def patch_build_def or_stored_def trimmed_def same_target_def Let_def c ids split: if_splits)
qed

lemma new_token_keeps_the_target:
  assumes "normal (pl_config p)" and set: "setAccessSyncToken enc token p = (Inr (saved, run), p1)"
  shows "saved = (pl_config p)\<lparr>cg_token := Some (enc (trimmed token))\<rparr> \<and> pl_sync p1 = pl_sync p"
proof -
  define v where "v = trimmed token"
  have v: "API_TOKEN_RE v" using set by (auto simp: setAccessSyncToken_def Let_def v_def split: if_splits)
  have "v \<noteq> []" using v by (auto simp: API_TOKEN_RE_def)
  moreover have "js_trim v = v" by (simp add: v_def)
  moreover have "applyAccessSyncConfig enc (patch_build \<lparr>pa_enabled = None, pa_account = None, pa_app = None, pa_policy = None, pa_token = Some v\<rparr>) p
      = (Inr (saved, run), p1)"
    using set v by (simp add: setAccessSyncToken_def patchAccessSyncConfig_def Let_def flip: v_def)
  ultimately show ?thesis using written_with_token [OF assms(1)] apply_writes by (metis v_def)
qed

section \<open>The verdict\<close>

lemma token_check_ok: "ck_status (token_check c) \<noteq> Failed \<longleftrightarrow> (\<exists>t. verifyToken c = Inr t \<and> ta_status t = ''active'')"
  by (auto simp: token_check_def check_def split: sum.splits)

lemma app_check_ok: "ck_status (snd (app_check c g)) \<noteq> Failed \<longleftrightarrow> vg_app g = [] \<or> (\<exists>a. vc_app c = Inr a)"
  by (auto simp: app_check_def check_def split: sum.splits)

lemma app_found: "fst (app_check c g) = Some a \<longleftrightarrow> vg_app g \<noteq> [] \<and> vc_app c = Inr (Some a)"
  by (auto simp: app_check_def split: sum.splits)

lemma audience_check_ok: "ck_status (audience_check audience app) \<noteq> Failed \<longleftrightarrow> (\<forall>a. app = Some a \<and> audience \<noteq> [] \<longrightarrow> aa_aud a = Some audience)"
  by (auto simp: audience_check_def check_def split: option.splits)

lemma policy_check_ok: "ck_status (policy_check c g) \<noteq> Failed
    \<longleftrightarrow> vg_app g = [] \<or> vg_policy g = [] \<or> (\<exists>po. getPolicy (vc_policy c) = Inr po \<and> po_decision po = Some ''allow'')"
  by (auto simp: policy_check_def check_def split: sum.splits)

text \<open>A check of the Access settings answers the token, the application, the audience and the policy,
  in this order, whatever Cloudflare said. It is ok exactly when the token is active, the application
  named can be read and carries the audience of the environment, and the policy named with it can be
  read and is an Allow policy; what is not named is not held against the settings.\<close>
theorem verification_verdict:
  "map ck_id (snd (verifyAccessSyncConfig c audience g)) = [''token'', ''app'', ''audience'', ''policy'']
   \<and> (fst (verifyAccessSyncConfig c audience g) \<longleftrightarrow>
        (\<exists>t. verifyToken c = Inr t \<and> ta_status t = ''active'')
      \<and> (vg_app g \<noteq> [] \<longrightarrow> (\<exists>a. vc_app c = Inr a \<and> (\<forall>ap. a = Some ap \<and> audience \<noteq> [] \<longrightarrow> aa_aud ap = Some audience)))
      \<and> (vg_app g \<noteq> [] \<and> vg_policy g \<noteq> [] \<longrightarrow> (\<exists>po. getPolicy (vc_policy c) = Inr po \<and> po_decision po = Some ''allow'')))"
proof -
  have checks: "snd (verifyAccessSyncConfig c audience g)
      = [token_check c, snd (app_check c g), audience_check audience (fst (app_check c g)), policy_check c g]"
    by (simp add: verifyAccessSyncConfig_def Let_def case_prod_unfold)
  have ids: "ck_id (token_check c) = ''token''" "ck_id (snd (app_check c g)) = ''app''" "ck_id (audience_check audience a) = ''audience''"
    "ck_id (policy_check c g) = ''policy''" for a
    by (auto simp: token_check_def app_check_def audience_check_def policy_check_def check_def split: sum.split option.split)
  have "fst (verifyAccessSyncConfig c audience g) \<longleftrightarrow> (\<forall>k\<in>set (snd (verifyAccessSyncConfig c audience g)). ck_status k \<noteq> Failed)"
    by (simp add: verifyAccessSyncConfig_def Let_def case_prod_unfold)
  then show ?thesis
    by (auto simp: checks ids token_check_ok app_check_ok audience_check_ok policy_check_ok app_found)
qed

text \<open>A policy, a client and settings for examples.\<close>

definition ex_verify_client :: verify_client where
  "ex_verify_client = \<lparr>vc_user = Inl \<lparr>ce_status = Http 401, ce_retry_after = None, ce_text = []\<rparr>, vc_account = Inr (Some ''active'', None),
     vc_app = Inr (Some \<lparr>aa_name = None, aa_aud = Some ''aud''\<rparr>),
     vc_policy = \<lparr>cl_attached = Inl \<lparr>ce_status = Http 404, ce_retry_after = None, ce_text = []\<rparr>, cl_probe = Inr (), cl_update = (\<lambda>_. None)\<rparr>,
     vc_reusable = (\<lambda>_. False)\<rparr>"

definition ex_verify_config :: verify_config where
  "ex_verify_config = \<lparr>vg_account = replicate 32 CHR ''a'', vg_app = ''app'', vg_policy = ''policy'', vg_token = ''t'', vg_from_form = False\<rparr>"

theorem verification_verdict_witness:
  "\<not> fst (verifyAccessSyncConfig ex_verify_client ''aud'' ex_verify_config)
   \<and> map ck_code (snd (verifyAccessSyncConfig ex_verify_client ''aud'' ex_verify_config)) = [''active'', ''found'', ''match'', ''not_attached'']"
proof -
  have "\<exists>e. getPolicy (vc_policy ex_verify_client) = Inl e" "vg_app ex_verify_config \<noteq> []" "vg_policy ex_verify_config \<noteq> []"
    by (simp_all add: getPolicy_def ex_verify_client_def ex_verify_config_def)
  then have "\<not> fst (verifyAccessSyncConfig ex_verify_client ''aud'' ex_verify_config)"
    using verification_verdict [of ex_verify_client "''aud''" ex_verify_config] by auto
  moreover have "map ck_code (snd (verifyAccessSyncConfig ex_verify_client ''aud'' ex_verify_config)) = [''active'', ''found'', ''match'', ''not_attached'']"
    by code_simp
  ultimately show ?thesis by blast
qed

section \<open>A token that no longer decrypts\<close>

text \<open>\<open>decrypt\<close> of the process, as the check calls it: it returns null, it does not throw.\<close>

definition process_decrypt :: "crypto \<Rightarrow> string option \<Rightarrow> key_state \<Rightarrow> string option \<Rightarrow> string option option" where
  "process_decrypt cr env s v = Some (fst (decrypt cr env v s))"

lemma undecryptable_reads_as_missing:
  assumes "fst (decrypt cr env (cg_token c) s) = None" and "trimmed (vi_token i) = []"
    and "ids_ok (pick (vi_account i) (cg_account c)) (pick (vi_app i) (cg_app c)) (pick (vi_policy i) (cg_policy c))"
  shows "resolveVerifyConfig (process_decrypt cr env s) i c = Inl VIncomplete"
  using assms by (simp add: resolveVerifyConfig_def stored_token_def process_decrypt_def text_given_def Let_def split: option.splits)

text \<open>The check never answers that the stored token cannot be decrypted: decrypting answers null
  instead of throwing, so a token whose key changed is reported as settings that are incomplete.\<close>
theorem undecryptable_is_never_reported:
  "resolveVerifyConfig (process_decrypt cr env s) i c \<noteq> Inl VUndecryptable
   \<and> (fst (decrypt cr env (cg_token c) s) \<noteq> None \<or> trimmed (vi_token i) \<noteq> []
      \<or> \<not> ids_ok (pick (vi_account i) (cg_account c)) (pick (vi_app i) (cg_app c)) (pick (vi_policy i) (cg_policy c))
      \<or> resolveVerifyConfig (process_decrypt cr env s) i c = Inl VIncomplete)"
proof -
  have "resolveVerifyConfig (process_decrypt cr env s) i c \<noteq> Inl VUndecryptable"
    by (simp add: resolveVerifyConfig_def stored_token_def process_decrypt_def Let_def)
  then show ?thesis using undecryptable_reads_as_missing [of cr env c s i] by blast
qed

text \<open>A stored token that another key sealed: no check of it gets further.\<close>

definition other_key_crypto :: crypto where
  "other_key_crypto = toy_crypto\<lparr>cr_open := (\<lambda>key iv tag ct. if key = replicate 32 0xaa \<and> tag = [word_of_nat (length ct)] then Some (rev ct) else None)\<rparr>"

theorem undecryptable_is_never_reported_witness:
  "resolveVerifyConfig (process_decrypt other_key_crypto (Some (replicate 64 CHR ''b'')) \<lparr>ks_key = None, ks_derived = Map.empty\<rparr>)
     \<lparr>vi_account = None, vi_app = None, vi_policy = None, vi_token = None\<rparr>
     \<lparr>cg_enabled = True, cg_account = replicate 32 CHR ''a'', cg_app = [], cg_policy = [],
      cg_token = Some (PREFIX @ ''00:01:41'')\<rparr> = Inl VIncomplete"
proof -
  let ?s = "\<lparr>ks_key = None, ks_derived = Map.empty\<rparr> :: key_state"
  let ?c = "\<lparr>cg_enabled = True, cg_account = replicate 32 CHR ''a'', cg_app = [], cg_policy = [], cg_token = Some (PREFIX @ ''00:01:41'')\<rparr>"
  let ?i = "\<lparr>vi_account = None, vi_app = None, vi_policy = None, vi_token = None\<rparr>"
  have "fst (decrypt other_key_crypto (Some (replicate 64 CHR ''b'')) (cg_token ?c) ?s) = None" by code_simp
  moreover have "trimmed (vi_token ?i) = []" by (simp add: trimmed_def)
  moreover have "ids_ok (pick (vi_account ?i) (cg_account ?c)) (pick (vi_app ?i) (cg_app ?c)) (pick (vi_policy ?i) (cg_policy ?c))" by code_simp
  ultimately show ?thesis
    using undecryptable_is_never_reported [of other_key_crypto "Some (replicate 64 CHR ''b'')" ?s ?i ?c] by blast
qed

end
