(* ===== verification/AccessScheduler.thy ===== *)
theory AccessScheduler
  imports Prelude
begin

text \<open>
  When the Access sync runs (\<open>services/accessSync/scheduler.js\<close>). A promise chain is the line of
  operations not yet ended, its head the one that runs once \<open>sc_started\<close>; a timer is an optional
  value. The event loop decides when a timer fires, when the head begins and when it ends; every
  handler of the module is one function, and \<open>sched_step\<close> is one event.
\<close>

section \<open>The state\<close>

text \<open>A run with its trigger, or another operation under the same lock (a save of the settings).\<close>

datatype queued = Run string | Other nat

record sched =
  sc_line :: "queued list"
  sc_started :: bool
  sc_queued :: bool
  sc_debounce :: "string option"
  sc_interval :: bool
  sc_retry :: "time_ms option"

definition DEBOUNCE_MS :: int where
  "DEBOUNCE_MS = 10000"

definition INTERVAL_MS :: int where
  "INTERVAL_MS = 60 * 60000"

definition idle :: sched where
  "idle = \<lparr>sc_line = [], sc_started = False, sc_queued = False, sc_debounce = None, sc_interval = False, sc_retry = None\<rparr>"

section \<open>The operations\<close>

definition exclusive :: "queued \<Rightarrow> sched \<Rightarrow> sched" where
  "exclusive op s = s\<lparr>sc_line := sc_line s @ [op]\<rparr>"

definition queueRun :: "string \<Rightarrow> sched \<Rightarrow> sched" where
  "queueRun trigger s = (if sc_queued s then s else (exclusive (Run trigger) s)\<lparr>sc_queued := True\<rparr>)"

text \<open>\<open>at\<close> is the time of \<open>nextRetryAt\<close>, when the answer has one; the timer waits no less than 0 ms.\<close>

definition scheduleRetry :: "time_ms option \<Rightarrow> time_ms \<Rightarrow> sched \<Rightarrow> sched" where
  "scheduleRetry at now s = (let s1 = s\<lparr>sc_retry := None\<rparr> in
     case at of None \<Rightarrow> s1 | Some a \<Rightarrow> if \<not> sc_interval s then s1 else s1\<lparr>sc_retry := Some (now + max 0 (a - now))\<rparr>)"

definition request :: "string \<Rightarrow> sched \<Rightarrow> sched" where
  "request trigger s = (if \<not> sc_interval s then s else s\<lparr>sc_debounce := Some trigger\<rparr>)"

definition start :: "sched \<Rightarrow> sched" where
  "start s = (if sc_interval s then s else request ''startup'' (s\<lparr>sc_interval := True\<rparr>))"

definition stop :: "sched \<Rightarrow> sched" where
  "stop s = s\<lparr>sc_interval := False, sc_debounce := None, sc_retry := None\<rparr>"

definition runNow :: "string \<Rightarrow> sched \<Rightarrow> sched" where
  "runNow trigger s = queueRun trigger (s\<lparr>sc_debounce := None\<rparr>)"

section \<open>Timers and the line\<close>

definition debounce_fires :: "string \<Rightarrow> sched \<Rightarrow> sched" where
  "debounce_fires trigger s = queueRun trigger (s\<lparr>sc_debounce := None\<rparr>)"

definition interval_fires :: "sched \<Rightarrow> sched" where
  "interval_fires s = queueRun ''schedule'' s"

definition retry_fires :: "sched \<Rightarrow> sched" where
  "retry_fires s = queueRun ''retry'' (s\<lparr>sc_retry := None\<rparr>)"

text \<open>The head begins: a run takes itself out of \<open>queuedRun\<close>. Its flag \<open>canRetry\<close> is \<open>sc_interval\<close>.\<close>

definition head_begins :: "sched \<Rightarrow> sched" where
  "head_begins s = (case sc_line s of Run _ # _ \<Rightarrow> s\<lparr>sc_started := True, sc_queued := False\<rparr> | _ \<Rightarrow> s\<lparr>sc_started := True\<rparr>)"

text \<open>The head ends: a run that answered sets the retry timer, one that threw leaves it alone.\<close>

datatype ending = Threw | Answered "time_ms option"

definition head_ends :: "ending \<Rightarrow> time_ms \<Rightarrow> sched \<Rightarrow> sched" where
  "head_ends e now s = (let s1 = s\<lparr>sc_line := tl (sc_line s), sc_started := False\<rparr>
     in case sc_line s of Run _ # _ \<Rightarrow> (case e of Threw \<Rightarrow> s1 | Answered at \<Rightarrow> scheduleRetry at now s1) | _ \<Rightarrow> s1)"

datatype event = Request string | Start | Stop | RunNow string | Exclusive nat | DebounceFires | IntervalFires | RetryFires
  | Begins | Ends ending time_ms

inductive sched_step :: "event \<Rightarrow> sched \<Rightarrow> sched \<Rightarrow> bool" where
  asked: "sched_step (Request trigger) s (request trigger s)"
| started: "sched_step Start s (start s)"
| stopped: "sched_step Stop s (stop s)"
| run_now: "sched_step (RunNow trigger) s (runNow trigger s)"
| other: "sched_step (Exclusive n) s (exclusive (Other n) s)"
| debounced: "sc_debounce s = Some trigger \<Longrightarrow> sched_step DebounceFires s (debounce_fires trigger s)"
| hour: "sc_interval s \<Longrightarrow> sched_step IntervalFires s (interval_fires s)"
| retried: "sc_retry s \<noteq> None \<Longrightarrow> sched_step RetryFires s (retry_fires s)"
| begins: "sc_line s \<noteq> [] \<Longrightarrow> \<not> sc_started s \<Longrightarrow> sched_step Begins s (head_begins s)"
| ends: "sc_started s \<Longrightarrow> sched_step (Ends e now) s (head_ends e now s)"

code_pred (modes: i \<Rightarrow> i \<Rightarrow> o \<Rightarrow> bool) sched_step .

inductive_cases step_cases: "sched_step ev s s'"

inductive sched_run :: "event list \<Rightarrow> sched \<Rightarrow> sched \<Rightarrow> bool" where
  none: "sched_run [] s s"
| step: "sched_step ev s s1 \<Longrightarrow> sched_run evs s1 s2 \<Longrightarrow> sched_run (ev # evs) s s2"

inductive_cases run_cases: "sched_run (ev # evs) s s'" "sched_run [] s s'"

section \<open>The invariant\<close>

definition is_run :: "queued \<Rightarrow> bool" where
  "is_run q \<longleftrightarrow> (case q of Run _ \<Rightarrow> True | Other _ \<Rightarrow> False)"

text \<open>What waits behind the operation that runs.\<close>

definition waiting :: "sched \<Rightarrow> queued list" where
  "waiting s = (if sc_started s then tl (sc_line s) else sc_line s)"

definition sched_ok :: "sched \<Rightarrow> bool" where
  "sched_ok s \<longleftrightarrow> length (filter is_run (waiting s)) = of_bool (sc_queued s)
     \<and> (sc_started s \<longrightarrow> sc_line s \<noteq> []) \<and> (\<not> sc_interval s \<longrightarrow> sc_debounce s = None \<and> sc_retry s = None)"

lemmas sched_defs = sched_ok_def waiting_def exclusive_def queueRun_def scheduleRetry_def request_def start_def stop_def runNow_def
  debounce_fires_def interval_fires_def retry_fires_def head_begins_def head_ends_def is_run_def Let_def

lemma queueRun_ok: "sched_ok s \<Longrightarrow> sched_ok (queueRun t s)"
  by (auto simp: sched_defs)

lemma step_ok: "sched_step ev s s' \<Longrightarrow> sched_ok s \<Longrightarrow> sched_ok s'"
proof (induction rule: sched_step.induct)
  case (begins s)
  then show ?case by (cases "sc_line s"; cases "sc_queued s") (auto simp: sched_defs split: queued.splits if_splits)
next
  case (ends s e now)
  then show ?case by (cases "sc_line s") (auto simp: sched_defs split: queued.splits ending.splits option.splits)
qed (auto simp: sched_defs)

lemma run_ok: "sched_run evs s s' \<Longrightarrow> sched_ok s \<Longrightarrow> sched_ok s'"
  by (induction rule: sched_run.induct) (auto dest: step_ok)

text \<open>However requests, timers, runs, starts and stops follow each other, at most one run waits in
  line, and exactly when the scheduler says one does, so a burst of changes is one run; at most two
  runs are in the line, one of them running; a stopped scheduler has no timer left.\<close>
theorem one_run_waits:
  assumes "sched_run evs idle s"
  shows "length (filter is_run (waiting s)) = of_bool (sc_queued s) \<and> length (filter is_run (sc_line s)) \<le> 2
    \<and> (\<not> sc_interval s \<longrightarrow> sc_debounce s = None \<and> sc_retry s = None)"
proof -
  have ok: "sched_ok s" by (rule run_ok [OF assms]) (simp add: sched_ok_def idle_def waiting_def)
  have "length (filter is_run (sc_line s)) \<le> Suc (length (filter is_run (waiting s)))"
    by (cases "sc_line s") (auto simp: waiting_def)
  then show ?thesis using ok by (cases "sc_queued s") (auto simp: sched_ok_def)
qed

text \<open>What is owed to a request until a run begins.\<close>

definition owed :: "sched \<Rightarrow> bool" where
  "owed s \<longleftrightarrow> sc_debounce s \<noteq> None \<or> sc_queued s"

lemma owed_step:
  assumes "sched_step ev s s'" and "owed s" and "ev \<noteq> Stop"
  shows "owed s' \<or> ev = Begins \<and> (\<exists>t. hd (sc_line s) = Run t)"
  using assms by (induction rule: sched_step.induct) (auto simp: owed_def sched_defs split: queued.splits ending.splits option.splits list.splits)

lemma owed_run:
  "sched_run evs s s' \<Longrightarrow> owed s \<Longrightarrow> Stop \<notin> set evs
    \<Longrightarrow> owed s' \<or> (\<exists>before after m t. evs = before @ Begins # after \<and> sched_run before s m \<and> hd (sc_line m) = Run t)"
proof (induction rule: sched_run.induct)
  case (step ev s s1 evs s2)
  show ?case
  proof (cases "owed s1")
    case True
    then consider "owed s2" | before after m t where "evs = before @ Begins # after" "sched_run before s1 m" "hd (sc_line m) = Run t"
      using step.IH step.prems by auto
    then show ?thesis
    proof cases
      case 2
      then have "ev # evs = (ev # before) @ Begins # after" "sched_run (ev # before) s m"
        using step.hyps(1) by (auto intro: sched_run.step)
      then show ?thesis using 2(3) by blast
    qed simp
  next
    case False
    then have "ev = Begins" "\<exists>t. hd (sc_line s) = Run t" using owed_step [OF step.hyps(1)] step.prems by auto
    then show ?thesis using sched_run.none [of s] by (metis append_Nil)
  qed
qed simp

text \<open>
  The line moves on: as its operations begin and end, whatever way, a run that waits in it begins, after no more
  turns than stand before it.
\<close>

fun turns :: "ending \<times> time_ms \<Rightarrow> queued list \<Rightarrow> event list" where
  "turns e [] = []"
| "turns e (Run t # ops) = []"
| "turns e (Other n # ops) = Begins # Ends (fst e) (snd e) # turns e ops"

lemma turns_bring:
  "sc_line s = ops \<Longrightarrow> \<not> sc_started s \<Longrightarrow> Run t \<in> set ops \<Longrightarrow> \<exists>m. sched_run (turns e ops) s m \<and> \<not> sc_started m \<and> (\<exists>u later. sc_line m = Run u # later)"
proof (induction e ops arbitrary: s rule: turns.induct)
  case (2 e u ops)
  then show ?case by (auto intro: sched_run.none)
next
  case (3 e n ops)
  let ?b = "head_begins s" and ?s = "head_ends (fst e) (snd e) (head_begins s)"
  have "sched_step Begins s ?b" using "3.prems" by (intro sched_step.begins) simp_all
  moreover have "sched_step (Ends (fst e) (snd e)) ?b ?s" using "3.prems" by (intro sched_step.ends) (simp add: head_begins_def)
  moreover have "\<exists>m. sched_run (turns e ops) ?s m \<and> \<not> sc_started m \<and> (\<exists>u later. sc_line m = Run u # later)"
    using "3.prems" by (intro "3.IH") (simp_all add: head_begins_def head_ends_def)
  ultimately show ?case by (auto intro: sched_run.step)
qed simp

definition turns_to :: "ending \<times> time_ms \<Rightarrow> sched \<Rightarrow> event list" where
  "turns_to e s = (if sc_started s then Ends (fst e) (snd e) # turns e (waiting s) else turns e (waiting s))"

lemma waiting_run_comes:
  assumes "Run t \<in> set (waiting s)"
  shows "\<exists>m. sched_run (turns_to e s) s m \<and> \<not> sc_started m \<and> (\<exists>u later. sc_line m = Run u # later)"
proof (cases "sc_started s")
  case True
  let ?s = "head_ends (fst e) (snd e) s"
  have "sc_line ?s = waiting s" "\<not> sc_started ?s"
    using True by (auto simp: waiting_def head_ends_def scheduleRetry_def Let_def split: list.splits queued.splits ending.splits option.splits)
  then obtain m where "sched_run (turns e (waiting s)) ?s m" "\<not> sc_started m" "\<exists>u later. sc_line m = Run u # later"
    using turns_bring [of ?s "waiting s" t e] assms by blast
  then show ?thesis using True sched_step.ends [OF True] by (auto simp: turns_to_def intro: sched_run.step)
next
  case False
  then show ?thesis using turns_bring [of s "waiting s" t e] assms by (simp add: turns_to_def waiting_def)
qed

lemma queued_waits: "sched_ok s \<Longrightarrow> sc_queued s \<Longrightarrow> \<exists>t. Run t \<in> set (waiting s)"
proof -
  assume "sched_ok s" "sc_queued s"
  then have "filter is_run (waiting s) \<noteq> []" by (auto simp: sched_ok_def)
  then obtain q where "q \<in> set (waiting s)" "is_run q" by (auto simp: filter_empty_conv)
  then show ?thesis by (metis is_run_def queued.case(2) queued.exhaust)
qed

text \<open>C34: A request of a started scheduler is not lost, in whatever state it comes and whatever happens next, short
  of a stop: its debounce still waits for it, and puts a run in the line when it fires; or a run waits in the line for it,
  which begins once the operations before it have ended, in whatever way they end; or a run began after it, which
  reads the users anew.\<close>
theorem no_request_is_lost:
  assumes "sched_run past idle s" and "sc_interval s" and "sched_run evs (request trigger s) s'" and "Stop \<notin> set evs"
  shows "(\<exists>u t. sc_debounce s' = Some u \<and> Run t \<in> set (waiting (debounce_fires u s')))
    \<or> (\<exists>t. Run t \<in> set (waiting s')) \<and> (\<forall>e. \<exists>m. sched_run (turns_to e s') s' m \<and> \<not> sc_started m \<and> (\<exists>u later. sc_line m = Run u # later))
    \<or> (\<exists>before after m t. evs = before @ Begins # after \<and> sched_run before (request trigger s) m \<and> hd (sc_line m) = Run t)"
proof -
  have "sched_ok idle" by (simp add: sched_ok_def idle_def waiting_def)
  then have "sched_ok (request trigger s)" using step_ok [OF sched_step.asked] run_ok [OF assms(1)] by blast
  then have ok: "sched_ok s'" by (rule run_ok [OF assms(3)])
  have "owed (request trigger s)" using assms(2) by (simp add: owed_def request_def)
  then consider u where "sc_debounce s' = Some u" | "sc_queued s'"
    | "\<exists>before after m t. evs = before @ Begins # after \<and> sched_run before (request trigger s) m \<and> hd (sc_line m) = Run t"
    using owed_run [OF assms(3) _ assms(4)] unfolding owed_def by blast
  then show ?thesis
  proof cases
    case 1
    have "sched_ok (debounce_fires u s')" by (rule step_ok [OF sched_step.debounced [OF 1] ok])
    moreover have "sc_queued (debounce_fires u s')" by (simp add: debounce_fires_def queueRun_def)
    ultimately show ?thesis using queued_waits 1 by blast
  next
    case 2
    then obtain t where "Run t \<in> set (waiting s')" using queued_waits [OF ok] by blast
    then show ?thesis using waiting_run_comes by blast
  qed blast
qed

definition ex_evs :: "event list" where
  "ex_evs = [DebounceFires, Begins, Request ''user'', Exclusive 1, Ends (Answered (Some 60000)) 9, DebounceFires]"

definition ex_started :: sched where
  "ex_started = idle\<lparr>sc_interval := True\<rparr>"

definition ex_end :: sched where
  "ex_end = \<lparr>sc_line = [Other 1, Run ''user''], sc_started = False, sc_queued = True, sc_debounce = None, sc_interval = True, sc_retry = Some 60000\<rparr>"

definition ex_running :: sched where
  "ex_running = \<lparr>sc_line = [Run ''startup''], sc_started = True, sc_queued = False, sc_debounce = None, sc_interval = True, sc_retry = None\<rparr>"

lemma ex_run: "sched_run ex_evs (request trigger ex_started) ex_end"
  unfolding ex_evs_def ex_started_def idle_def
  apply (rule sched_run.step, rule sched_step.debounced, simp add: sched_defs)
  apply (rule sched_run.step, rule sched_step.begins, simp add: sched_defs, simp add: sched_defs)
  apply (rule sched_run.step, rule sched_step.asked, rule sched_run.step, rule sched_step.other)
  apply (rule sched_run.step, rule sched_step.ends, simp add: sched_defs)
  apply (rule sched_run.step, rule sched_step.debounced [where trigger = "''user''"], simp add: sched_defs)
  apply (simp add: sched_defs ex_end_def, rule sched_run.none)
  done

lemma ex_all: "sched_run (Start # ex_evs) idle ex_end"
proof (rule sched_run.step [OF sched_step.started])
  have "start idle = request ''startup'' ex_started" by (simp add: start_def idle_def ex_started_def)
  then show "sched_run ex_evs (start idle) ex_end" using ex_run by simp
qed

theorem one_run_waits_witness: "length (filter is_run (waiting ex_end)) = 1"
  using one_run_waits [OF ex_all] by (simp add: ex_end_def)

theorem no_request_is_lost_witness:
  "\<exists>m. sched_run [Begins, Ends Threw 0] ex_end m \<and> \<not> sc_started m \<and> (\<exists>u later. sc_line m = Run u # later)"
proof -
  have p: "sched_run [Start, DebounceFires, Begins] idle ex_running" unfolding ex_running_def
    by (rule sched_run.step [OF sched_step.started], rule sched_run.step [OF sched_step.debounced], simp add: sched_defs idle_def,
        rule sched_run.step [OF sched_step.begins]) (simp_all add: sched_defs idle_def sched_run.none)
  have r: "sched_run [Exclusive 1, Ends (Answered (Some 60000)) 9, DebounceFires] (request ''user'' ex_running) ex_end"
    by (rule sched_run.step [OF sched_step.other], rule sched_run.step [OF sched_step.ends], simp add: sched_defs ex_running_def,
        rule sched_run.step [OF sched_step.debounced [where trigger = "''user''"]])
      (simp_all add: sched_defs ex_running_def ex_end_def sched_run.none)
  have no: "\<not> (\<exists>before after m t. [Exclusive 1, Ends (Answered (Some 60000)) 9, DebounceFires] = before @ Begins # after
      \<and> sched_run before (request ''user'' ex_running) m \<and> hd (sc_line m) = Run t)"
    by (auto simp: Cons_eq_append_conv)
  have i: "sc_interval ex_running" and st: "Stop \<notin> set [Exclusive 1, Ends (Answered (Some 60000)) 9, DebounceFires]" by (simp_all add: ex_running_def)
  have d: "\<not> (\<exists>u t. sc_debounce ex_end = Some u \<and> Run t \<in> set (waiting (debounce_fires u ex_end)))" by (simp add: ex_end_def)
  have "\<forall>e. \<exists>m. sched_run (turns_to e ex_end) ex_end m \<and> \<not> sc_started m \<and> (\<exists>u later. sc_line m = Run u # later)"
    using no_request_is_lost [OF p i r st] d no by argo
  then have "\<exists>m. sched_run (turns_to (Threw, 0) ex_end) ex_end m \<and> \<not> sc_started m \<and> (\<exists>u later. sc_line m = Run u # later)" by blast
  then show ?thesis by (simp add: turns_to_def waiting_def ex_end_def)
qed

end
