(* ===== verification/Threading.thy ===== *)
theory Threading
  imports Rex
begin

text \<open>
  Conversations: which thread a letter belongs to (\<open>services/threading/threadId.js\<close>) and the pass
  that derives the keys of a mailbox again after its mode changed (\<open>recompute.js\<close>,
  \<open>recomputeStore.js\<close>). A date is its exact value in microseconds; ids are numbers in the order of
  the uuids. A \<open>Map\<close> from Message-ID to key is a function. What stops a pass is an argument: the
  answers of \<open>shouldContinue\<close>, or the process ending after a batch was written and before the
  cursor was saved. Other writers of the mailbox are not in the functions.
\<close>

record letter =
  th_id :: nat
  th_account :: nat
  th_msg :: "string option"
  th_reply :: "string option"
  th_refs :: "string option"
  th_gmail :: "string option"
  th_key :: "string option"
  th_reason :: "string option"
  th_date :: "int option"
  th_deleted :: bool

type_synonym keys = "string \<Rightarrow> string option"

section \<open>The key of one letter\<close>

text \<open>The matches of \<open>/<[^>]+>/g\<close>.\<close>

function angle_ids :: "string \<Rightarrow> string list" where
  "angle_ids [] = []"
| "angle_ids (c # cs) = (let body = takeWhile (\<lambda>x. x \<noteq> CHR ''>'') cs; rest = dropWhile (\<lambda>x. x \<noteq> CHR ''>'') cs
     in if c = CHR ''<'' \<and> body \<noteq> [] \<and> rest \<noteq> [] then (c # body @ [CHR ''>'']) # angle_ids (tl rest) else angle_ids cs)"
  by pat_completeness auto
termination
proof (relation "measure length")
  fix c :: char and cs body rest :: string
  assume "rest = dropWhile (\<lambda>x. x \<noteq> CHR ''>'') cs"
  then have "length (tl rest) \<le> length cs" using length_dropWhile_le [of "\<lambda>x. x \<noteq> CHR ''>''" cs] by simp
  then show "(tl rest, c # cs) \<in> measure length" by simp
qed simp_all

definition parseReferences :: "string option \<Rightarrow> string list" where
  "parseReferences refs = (if text_given refs then angle_ids (the refs) else [])"

definition GMAIL_KEY_PREFIX :: string where
  "GMAIL_KEY_PREFIX = ''gmail:''"

definition THREAD_MODE_GMAIL :: string where
  "THREAD_MODE_GMAIL = ''gmail''"

definition ancestorCandidates :: "string option \<Rightarrow> string option \<Rightarrow> string option \<Rightarrow> string list" where
  "ancestorCandidates messageId inReplyTo refs =
     (let candidates = filter (\<lambda>i. Some i \<noteq> messageId) (parseReferences refs)
      in if text_given inReplyTo \<and> inReplyTo \<noteq> messageId \<and> the inReplyTo \<notin> set candidates
         then candidates @ [the inReplyTo] else candidates)"

text \<open>The loops from the last candidate to the first.\<close>

definition newest_known :: "keys \<Rightarrow> string list \<Rightarrow> string option" where
  "newest_known m candidates = Option.bind (find (\<lambda>c. m c \<noteq> None) (rev candidates)) m"

definition computeThreading ::
  "letter list \<Rightarrow> nat \<Rightarrow> string option \<Rightarrow> string option \<Rightarrow> string option \<Rightarrow> string \<Rightarrow> string option
     \<Rightarrow> string option \<times> string option" where
  "computeThreading t account messageId inReplyTo refs mode providerThreadId =
     (if mode = THREAD_MODE_GMAIL \<and> text_given providerThreadId
      then (Some (GMAIL_KEY_PREFIX @ the providerThreadId), Some ''gmail-thrid'')
      else if \<not> text_given messageId then (None, None)
      else let candidates = ancestorCandidates messageId inReplyTo refs
           in if candidates = [] then (messageId, Some ''new-root'')
              else let rows = filter (\<lambda>r. th_account r = account \<and> (\<exists>c\<in>set candidates. th_msg r = Some c) \<and> th_key r \<noteq> None) t;
                     found = fold (\<lambda>r m. m(the (th_msg r) := th_key r)) rows (\<lambda>_. None)
                   in (case found (hd candidates) of
                        Some k \<Rightarrow> (Some k, Some ''rfc-root'')
                      | None \<Rightarrow> (case newest_known found candidates of
                          Some k \<Rightarrow> (Some k, Some ''rfc-ancestor'')
                        | None \<Rightarrow> (Some (hd candidates), Some ''rfc-provisional''))))"

section \<open>The pass\<close>

definition threadingForRow :: "letter \<Rightarrow> string \<Rightarrow> keys \<Rightarrow> string option \<times> string option" where
  "threadingForRow r mode m =
     (if mode = THREAD_MODE_GMAIL \<and> text_given (th_gmail r) then (Some (GMAIL_KEY_PREFIX @ the (th_gmail r)), Some ''gmail-thrid'')
      else if \<not> text_given (th_msg r) then (None, None)
      else let candidates = ancestorCandidates (th_msg r) (th_reply r) (th_refs r)
           in if candidates = [] then (th_msg r, Some ''new-root'')
              else (case m (hd candidates) of
                  Some k \<Rightarrow> (Some k, Some ''rfc-root'')
                | None \<Rightarrow> (case newest_known m candidates of
                    Some k \<Rightarrow> (Some k, Some ''rfc-ancestor'')
                  | None \<Rightarrow> (Some (hd candidates), Some ''rfc-provisional''))))"

text \<open>Where a pass is: the date and id of the last letter done; no date is minus infinity.\<close>

type_synonym cursor = "int option \<times> nat"

definition after_cursor :: "cursor \<Rightarrow> letter \<Rightarrow> bool" where
  "after_cursor c r \<longleftrightarrow> (case th_date r of None \<Rightarrow> False
     | Some d \<Rightarrow> (case fst c of None \<Rightarrow> True | Some e \<Rightarrow> (e, snd c) < (d, th_id r)))"

definition up_to_cursor :: "cursor \<Rightarrow> letter \<Rightarrow> bool" where
  "up_to_cursor c r \<longleftrightarrow> (case th_date r of None \<Rightarrow> False
     | Some d \<Rightarrow> (case fst c of None \<Rightarrow> False | Some e \<Rightarrow> (d, th_id r) \<le> (e, snd c)))"

definition live_of :: "nat \<Rightarrow> letter \<Rightarrow> bool" where
  "live_of account r \<longleftrightarrow> th_account r = account \<and> \<not> th_deleted r"

definition selectBatch :: "nat \<Rightarrow> cursor \<Rightarrow> nat \<Rightarrow> letter list \<Rightarrow> letter list" where
  "selectBatch account c batchSize t = take batchSize (sort_key (\<lambda>r. (the (th_date r), th_id r))
     (filter (\<lambda>r. live_of account r \<and> after_cursor c r) t))"

definition resolveAncestors :: "nat \<Rightarrow> string list \<Rightarrow> cursor \<Rightarrow> letter list \<Rightarrow> (string \<times> string option) list" where
  "resolveAncestors account candidateIds c t = (if candidateIds = [] then []
     else map (\<lambda>r. (the (th_msg r), th_key r))
       (filter (\<lambda>r. live_of account r \<and> (\<exists>i\<in>set candidateIds. th_msg r = Some i) \<and> th_key r \<noteq> None \<and> up_to_cursor c r) t))"

definition row_candidates :: "letter \<Rightarrow> string list" where
  "row_candidates r = ancestorCandidates (th_msg r) (th_reply r) (th_refs r)"

definition collectCandidateIds :: "letter list \<Rightarrow> string list" where
  "collectCandidateIds batch = js_set (concat (map row_candidates batch))"

type_synonym rekeyed = "nat \<times> string option \<times> string option"

definition written_row :: "nat \<Rightarrow> rekeyed list \<Rightarrow> letter \<Rightarrow> letter option" where
  "written_row account ups r = (case map_of ups (th_id r) of
     Some (k, why) \<Rightarrow> if th_account r = account \<and> (th_key r \<noteq> k \<or> th_reason r \<noteq> why)
       then Some (r\<lparr>th_key := k, th_reason := why\<rparr>) else None
   | None \<Rightarrow> None)"

definition writeBatch :: "nat \<Rightarrow> rekeyed list \<Rightarrow> letter list \<Rightarrow> nat \<times> letter list" where
  "writeBatch account ups t = (if ups = [] then (0, t)
     else (length (filter (\<lambda>r. written_row account ups r \<noteq> None) t),
           map (\<lambda>r. case written_row account ups r of Some r' \<Rightarrow> r' | None \<Rightarrow> r) t))"

definition selectUndated :: "nat \<Rightarrow> letter list \<Rightarrow> letter list" where
  "selectUndated account t = sort_key th_id (filter (\<lambda>r. live_of account r \<and> th_date r = None) t)"

text \<open>The loop of \<open>rekeyBatch\<close>: every letter's key, later letters seeing the keys of earlier ones.\<close>

fun rekey :: "string \<Rightarrow> keys \<Rightarrow> letter list \<Rightarrow> rekeyed list" where
  "rekey mode m [] = []"
| "rekey mode m (r # rs) = (th_id r, threadingForRow r mode m) #
     rekey mode (if text_given (th_msg r) then m(the (th_msg r) := fst (threadingForRow r mode m)) else m) rs"

definition rekeyBatch :: "nat \<Rightarrow> letter list \<Rightarrow> string \<Rightarrow> cursor \<Rightarrow> letter list \<Rightarrow> nat \<times> letter list" where
  "rekeyBatch account batch mode c t =
     (let resolved = resolveAncestors account (collectCandidateIds batch) c t;
          ancestorKeys = fold (\<lambda>(i, k) m. m(i := k)) resolved (\<lambda>_. None);
          updates = map snd (filter (\<lambda>(r, _, k, why). th_key r \<noteq> k \<or> th_reason r \<noteq> why) (zip batch (rekey mode ancestorKeys batch)))
      in writeBatch account updates t)"

section \<open>The row of a pass\<close>

record pass_row =
  pr_mode :: string
  pr_total :: nat
  pr_processed :: nat
  pr_changed :: nat
  pr_cursor :: cursor
  pr_finished :: bool
  pr_error :: "string option"

record mailbox_db =
  letters :: "letter list"
  passes :: "nat \<Rightarrow> pass_row option"

definition loadRecompute :: "nat \<Rightarrow> mailbox_db \<Rightarrow> pass_row option" where
  "loadRecompute account db = passes db account"

definition START :: cursor where
  "START = (None, 0)"

definition startRecomputeRow :: "nat \<Rightarrow> string \<Rightarrow> nat \<Rightarrow> mailbox_db \<Rightarrow> mailbox_db" where
  "startRecomputeRow account mode rows db = db\<lparr>passes := (passes db)(account \<mapsto>
     \<lparr>pr_mode = mode, pr_total = rows, pr_processed = 0, pr_changed = 0, pr_cursor = START, pr_finished = False, pr_error = None\<rparr>)\<rparr>"

definition on_pass :: "nat \<Rightarrow> (pass_row \<Rightarrow> pass_row) \<Rightarrow> mailbox_db \<Rightarrow> mailbox_db" where
  "on_pass account f db = db\<lparr>passes := (passes db)(account := map_option f (passes db account))\<rparr>"

definition saveRecomputeCursor :: "nat \<Rightarrow> cursor \<Rightarrow> nat \<Rightarrow> nat \<Rightarrow> mailbox_db \<Rightarrow> mailbox_db" where
  "saveRecomputeCursor account c processed changed =
     on_pass account (\<lambda>p. p\<lparr>pr_cursor := c, pr_processed := processed, pr_changed := changed\<rparr>)"

definition finishRecompute :: "nat \<Rightarrow> mailbox_db \<Rightarrow> mailbox_db" where
  "finishRecompute account = on_pass account (\<lambda>p. p\<lparr>pr_finished := True, pr_error := None\<rparr>)"

definition clearRecomputeError :: "nat \<Rightarrow> mailbox_db \<Rightarrow> mailbox_db" where
  "clearRecomputeError account = on_pass account (\<lambda>p. p\<lparr>pr_error := None\<rparr>)"

definition ERROR_MAX_LENGTH :: nat where
  "ERROR_MAX_LENGTH = 500"

definition recordRecomputeError :: "nat \<Rightarrow> string option \<Rightarrow> mailbox_db \<Rightarrow> mailbox_db" where
  "recordRecomputeError account message = on_pass account (\<lambda>p. p\<lparr>pr_error :=
     Some (take ERROR_MAX_LENGTH (if text_given message then the message else ''Unknown error''))\<rparr>)"

section \<open>A pass over a mailbox\<close>

text \<open>The answer at one check: go on, stop, or go on and lose the process after the batch is written.\<close>

datatype fate = Go | Halt | Crash

datatype walk_end = Halted | Crashed | Walked

lemma rekey_rows: "map fst (rekey mode m rs) = map th_id rs"
  by (induction rs arbitrary: m) simp_all

definition rekey_row :: "nat \<Rightarrow> rekeyed list \<Rightarrow> letter \<Rightarrow> letter" where
  "rekey_row account ups r = (case written_row account ups r of Some r' \<Rightarrow> r' | None \<Rightarrow> r)"

lemma rekey_row_same [simp]:
  "th_id (rekey_row a ups r) = th_id r" "th_account (rekey_row a ups r) = th_account r" "th_msg (rekey_row a ups r) = th_msg r"
  "th_reply (rekey_row a ups r) = th_reply r" "th_refs (rekey_row a ups r) = th_refs r" "th_gmail (rekey_row a ups r) = th_gmail r"
  "th_date (rekey_row a ups r) = th_date r" "th_deleted (rekey_row a ups r) = th_deleted r"
  by (simp_all add: rekey_row_def written_row_def split: option.splits)

lemma rekeyBatch_rows: "\<exists>ups. snd (rekeyBatch account batch mode c t) = map (rekey_row account ups) t"
proof -
  have "snd (writeBatch account ups t) = map (rekey_row account ups) t" for ups
    by (auto simp: writeBatch_def rekey_row_def written_row_def map_idI)
  then show ?thesis unfolding rekeyBatch_def Let_def by blast
qed

definition rows_left :: "nat \<Rightarrow> cursor \<Rightarrow> letter list \<Rightarrow> nat" where
  "rows_left account c t = length (filter (\<lambda>r. live_of account r \<and> after_cursor c r) t)"

definition row_cursor :: "letter \<Rightarrow> cursor" where
  "row_cursor r = (th_date r, th_id r)"

lemma after_own: "\<not> after_cursor (row_cursor r) r"
  by (simp add: after_cursor_def row_cursor_def split: option.split)

lemma after_trans: "after_cursor c r \<Longrightarrow> after_cursor (row_cursor r) x \<Longrightarrow> after_cursor c x"
  unfolding after_cursor_def row_cursor_def by (auto split: option.splits)

lemma set_selectBatch: "r \<in> set (selectBatch account c n t) \<Longrightarrow> r \<in> set t \<and> live_of account r \<and> after_cursor c r"
  unfolding selectBatch_def by (drule in_set_takeD) auto

lemma live_rekey_row [simp]: "live_of a (rekey_row b ups r) = live_of a r" "after_cursor c (rekey_row b ups r) = after_cursor c r"
  "up_to_cursor c (rekey_row b ups r) = up_to_cursor c r"
  by (auto simp: live_of_def after_cursor_def up_to_cursor_def split: option.split)

lemma rows_left_map: "rows_left account c (map (rekey_row b ups) t) = rows_left account c t"
  by (simp add: rows_left_def filter_map comp_def)

lemma rows_left_less:
  assumes "r \<in> set t" and "live_of account r" and "after_cursor c r"
  shows "rows_left account (row_cursor r) t < rows_left account c t"
proof -
  have "filter (\<lambda>x. live_of account x \<and> after_cursor (row_cursor r) x) t
      = filter (after_cursor (row_cursor r)) (filter (\<lambda>x. live_of account x \<and> after_cursor c x) t)"
    unfolding filter_filter using after_trans [OF assms(3)] by (intro filter_cong refl) blast
  moreover have "length (filter (after_cursor (row_cursor r)) xs) < length xs" if "r \<in> set xs" for xs
    using length_filter_less [of r xs "after_cursor (row_cursor r)"] that after_own by blast
  moreover have "r \<in> set (filter (\<lambda>x. live_of account x \<and> after_cursor c x) t)" using assms by simp
  ultimately show ?thesis unfolding rows_left_def by (simp only:)
qed

text \<open>
  The loop over the batches; \<open>k\<close>: the checks made so far. It gives how it ended, the checks made,
  the cursor and the counters, and the database.
\<close>

function recompute_loop :: "(nat \<Rightarrow> fate) \<Rightarrow> nat \<Rightarrow> string \<Rightarrow> nat \<Rightarrow> nat \<Rightarrow> cursor \<Rightarrow> nat \<Rightarrow> nat \<Rightarrow> mailbox_db
    \<Rightarrow> walk_end \<times> nat \<times> cursor \<times> nat \<times> nat \<times> mailbox_db" where
  "recompute_loop fate account mode batchSize k c processed changed db =
     (if fate k = Halt then (Halted, k, c, processed, changed, db)
      else let batch = selectBatch account c batchSize (letters db)
      in if batch = [] then (Walked, k, c, processed, changed, db)
      else let (n, ls) = rekeyBatch account batch mode c (letters db); db1 = db\<lparr>letters := ls\<rparr>
      in if fate k = Crash then (Crashed, k, c, processed, changed, db1)
      else let c1 = row_cursor (last batch); processed1 = processed + length batch; changed1 = changed + n
      in recompute_loop fate account mode batchSize (Suc k) c1 processed1 changed1
           (saveRecomputeCursor account c1 processed1 changed1 db1))"
  by pat_completeness auto
termination
proof (relation "measure (\<lambda>(fate, account, mode, batchSize, k, c, processed, changed, db). rows_left account c (letters db))")
  fix fate :: "nat \<Rightarrow> fate" and account batchSize k processed changed n processed1 changed1 :: nat and mode :: string
    and c c1 :: cursor and db db1 :: mailbox_db and batch ls :: "letter list" and p :: "nat \<times> letter list"
  assume batch: "batch = selectBatch account c batchSize (letters db)" "batch \<noteq> []"
    and p: "p = rekeyBatch account batch mode c (letters db)" "(n, ls) = p" and db1: "db1 = db\<lparr>letters := ls\<rparr>"
    and c1: "c1 = row_cursor (last batch)"
  obtain ups where "ls = map (rekey_row account ups) (letters db)"
    using rekeyBatch_rows [of account batch mode c "letters db"] p by (metis snd_conv)
  moreover have "last batch \<in> set (letters db) \<and> live_of account (last batch) \<and> after_cursor c (last batch)"
    using batch by (intro set_selectBatch [of _ account c batchSize]) (metis last_in_set)
  ultimately show "((fate, account, mode, batchSize, Suc k, c1, processed1, changed1, saveRecomputeCursor account c1 processed1 changed1 db1),
      fate, account, mode, batchSize, k, c, processed, changed, db)
      \<in> measure (\<lambda>(fate, account, mode, batchSize, k, c, processed, changed, db). rows_left account c (letters db))"
    using rows_left_less by (simp add: saveRecomputeCursor_def on_pass_def db1 c1 rows_left_map)
qed simp

declare recompute_loop.simps [simp del]

datatype pass_outcome = PassStopped nat nat nat | PassDone nat nat nat | PassCrashed

definition live_count :: "nat \<Rightarrow> letter list \<Rightarrow> nat" where
  "live_count account t = length (filter (live_of account) t)"

definition runRecompute :: "(nat \<Rightarrow> fate) \<Rightarrow> nat \<Rightarrow> string \<Rightarrow> nat \<Rightarrow> mailbox_db \<Rightarrow> pass_outcome \<times> mailbox_db" where
  "runRecompute fate account targetMode batchSize db =
     (let existing = loadRecompute account db;
          (c0, processed0, changed0, count, db1) =
            (case existing of
               Some p \<Rightarrow> if pr_mode p = targetMode \<and> \<not> pr_finished p
                 then (pr_cursor p, pr_processed p, pr_changed p, pr_total p,
                       if text_given (pr_error p) then clearRecomputeError account db else db)
                 else (START, 0, 0, live_count account (letters db),
                       startRecomputeRow account targetMode (live_count account (letters db)) db)
             | None \<Rightarrow> (START, 0, 0, live_count account (letters db),
                       startRecomputeRow account targetMode (live_count account (letters db)) db))
      in case recompute_loop fate account targetMode batchSize 0 c0 processed0 changed0 db1 of
           (Halted, k, c, processed, changed, db2) \<Rightarrow> (PassStopped processed changed count, db2)
         | (Crashed, k, c, processed, changed, db2) \<Rightarrow> (PassCrashed, db2)
         | (Walked, k, c, processed, changed, db2) \<Rightarrow>
             if fate (Suc k) = Halt then (PassStopped processed changed count, db2)
             else let undated = selectUndated account (letters db2)
                  in if undated = [] then (PassDone processed changed count, finishRecompute account db2)
                     else let (n, ls) = rekeyBatch account undated targetMode c (letters db2); db3 = db2\<lparr>letters := ls\<rparr>
                          in if fate (Suc k) = Crash then (PassCrashed, db3)
                             else let processed1 = processed + length undated; changed1 = changed + n
                                  in (PassDone processed1 changed1 count,
                                      finishRecompute account (saveRecomputeCursor account c processed1 changed1 db3)))"


end

