(* ===== verification/ThreadPass.thy ===== *)
theory ThreadPass
  imports Threading
begin

text \<open>
  Why the pass gives the same keys however it is cut into batches and interrupted: a key depends on
  the headers and on the keys of the letter's ancestors only, and a batch sees exactly the keys the
  letters before it were given.
\<close>

section \<open>What a key depends on\<close>

lemma find_cong_set: "(\<And>x. x \<in> set xs \<Longrightarrow> p x = q x) \<Longrightarrow> find p xs = find q xs"
  by (induction xs) auto

lemma newest_cong:
  assumes "\<And>c. c \<in> set cs \<Longrightarrow> m c = m' c"
  shows "newest_known m cs = newest_known m' cs"
proof -
  have "find (\<lambda>c. m c \<noteq> None) (rev cs) = find (\<lambda>c. m' c \<noteq> None) (rev cs)" using assms by (intro find_cong_set) simp
  moreover have "m c = m' c" if "find (\<lambda>c. m' c \<noteq> None) (rev cs) = Some c" for c
    using that assms by (auto simp: find_Some_iff in_set_conv_nth) (metis in_set_conv_nth length_rev nth_mem set_rev)
  ultimately show ?thesis by (cases "find (\<lambda>c. m' c \<noteq> None) (rev cs)") (auto simp: newest_known_def)
qed

lemma threading_cong:
  assumes "\<And>c. c \<in> set (row_candidates r) \<Longrightarrow> m c = m' c"
  shows "threadingForRow r mode m = threadingForRow r mode m'"
proof (cases "row_candidates r")
  case (Cons c cs)
  then have h: "m (hd (row_candidates r)) = m' (hd (row_candidates r))" using assms by simp
  have n: "newest_known m (row_candidates r) = newest_known m' (row_candidates r)" by (rule newest_cong) (rule assms)
  show ?thesis unfolding threadingForRow_def Let_def row_candidates_def [symmetric] h n by (rule refl)
qed (simp add: threadingForRow_def row_candidates_def)

lemma rekey_cong:
  "(\<And>r c. r \<in> set rs \<Longrightarrow> c \<in> set (row_candidates r) \<Longrightarrow> m c = m' c) \<Longrightarrow> rekey mode m rs = rekey mode m' rs"
proof (induction rs arbitrary: m m')
  case (Cons r rs)
  have same: "threadingForRow r mode m = threadingForRow r mode m'"
    by (rule threading_cong) (rule Cons.prems [of r], simp_all)
  show ?case unfolding rekey.simps same by (intro arg_cong2 [of _ _ _ _ Cons] refl Cons.IH) (use Cons.prems in auto)
qed simp

lemma threading_headers:
  assumes "th_msg r = th_msg s" and "th_reply r = th_reply s" and "th_refs r = th_refs s" and "th_gmail r = th_gmail s"
  shows "threadingForRow r mode m = threadingForRow s mode m" and "row_candidates r = row_candidates s"
  unfolding threadingForRow_def row_candidates_def assms by (rule refl)+

fun keys_after :: "string \<Rightarrow> keys \<Rightarrow> letter list \<Rightarrow> keys" where
  "keys_after mode m [] = m"
| "keys_after mode m (r # rs) = keys_after mode
     (if text_given (th_msg r) then m(the (th_msg r) := fst (threadingForRow r mode m)) else m) rs"

lemma rekey_append: "rekey mode m (xs @ ys) = rekey mode m xs @ rekey mode (keys_after mode m xs) ys"
  by (induction xs arbitrary: m) simp_all

lemma keys_after_other: "\<forall>r\<in>set rs. th_msg r \<noteq> Some c \<Longrightarrow> keys_after mode m rs c = m c"
  by (induction rs arbitrary: m) (auto simp: text_given_def split: option.splits)

lemma keys_after_append: "keys_after mode m (xs @ ys) = keys_after mode (keys_after mode m xs) ys"
  by (induction xs arbitrary: m) simp_all

text \<open>The key known for a Message-ID is the one given to the last letter with it, so the one of each of them when they have one key.\<close>

lemma keys_after_of:
  assumes "distinct (map th_id rs)" and "r \<in> set rs" and "th_msg r = Some c" and "c \<noteq> []"
    and agree: "\<And>s. \<lbrakk>s \<in> set rs; th_msg s = Some c\<rbrakk> \<Longrightarrow> map_option fst (map_of (rekey mode m rs) (th_id s)) = map_option fst (map_of (rekey mode m rs) (th_id r))"
  shows "map_option fst (map_of (rekey mode m rs) (th_id r)) = Some (keys_after mode m rs c)"
proof -
  obtain xs s ys where rs: "rs = xs @ s # ys" and s: "th_msg s = Some c" and ys: "\<forall>y\<in>set ys. th_msg y \<noteq> Some c"
    using split_list_last_prop [of rs "\<lambda>s. th_msg s = Some c"] assms(2,3) by blast
  let ?m = "keys_after mode m xs"
  have "th_id s \<notin> set (map fst (rekey mode m xs))" using assms(1) unfolding rekey_rows rs by auto
  then have "map_of (rekey mode m xs) (th_id s) = None" by (simp add: map_of_eq_None_iff)
  then have "map_of (rekey mode m rs) (th_id s) = Some (threadingForRow s mode ?m)"
    unfolding rs rekey_append by (simp add: map_add_def)
  moreover have "keys_after mode m rs c = fst (threadingForRow s mode ?m)"
    unfolding rs keys_after_append using s assms(4) keys_after_other [OF ys] by (simp add: text_given_def)
  ultimately show ?thesis using agree [of s] s by (simp add: rs)
qed

lemma key_given: "text_given (th_msg r) \<Longrightarrow> fst (threadingForRow r mode m) \<noteq> None"
  by (auto simp: threadingForRow_def Let_def text_given_def split: option.splits)

lemma angle_ids_filled: "x \<in> set (angle_ids s) \<Longrightarrow> x \<noteq> []"
  by (induction s rule: angle_ids.induct) (auto simp: Let_def split: if_splits)

lemma candidates_filled: "c \<in> set (row_candidates r) \<Longrightarrow> c \<noteq> []"
  by (auto simp: row_candidates_def ancestorCandidates_def Let_def parseReferences_def text_given_def dest: angle_ids_filled
      split: if_splits option.splits)

section \<open>The order of the walk\<close>

definition dated :: "nat \<Rightarrow> letter list \<Rightarrow> letter list" where
  "dated account t = sort_key (\<lambda>r. (the (th_date r), th_id r)) (filter (\<lambda>r. live_of account r \<and> th_date r \<noteq> None) t)"

abbreviation done_at :: "nat \<Rightarrow> cursor \<Rightarrow> letter list \<Rightarrow> letter list" where
  "done_at account c t \<equiv> filter (up_to_cursor c) (dated account t)"

abbreviation left_at :: "nat \<Rightarrow> cursor \<Rightarrow> letter list \<Rightarrow> letter list" where
  "left_at account c t \<equiv> filter (after_cursor c) (dated account t)"

lemma set_dated: "set (dated account t) = {r \<in> set t. live_of account r \<and> th_date r \<noteq> None}"
  by (auto simp: dated_def)

lemma up_to_iff: "th_date r \<noteq> None \<Longrightarrow> up_to_cursor c r \<longleftrightarrow> \<not> after_cursor c r"
  by (cases "fst c") (auto simp: up_to_cursor_def after_cursor_def)

lemma sorted_filter_split:
  assumes "sorted (map f xs)" and "\<And>x y. \<lbrakk>x \<in> set xs; y \<in> set xs; f x \<le> f y; p x\<rbrakk> \<Longrightarrow> p y"
  shows "filter (\<lambda>x. \<not> p x) xs @ filter p xs = xs"
  using assms
proof (induction xs)
  case (Cons a xs)
  show ?case
  proof (cases "p a")
    case True
    then have "p y" if "y \<in> set xs" for y using Cons.prems that by (intro Cons.prems(2) [of a y]) auto
    then have "filter p xs = xs" "filter (\<lambda>x. \<not> p x) xs = []" by (auto simp: filter_id_conv filter_empty_conv)
    then show ?thesis using True by simp
  next
    case False
    have "filter (\<lambda>x. \<not> p x) xs @ filter p xs = xs" using Cons.prems by (intro Cons.IH) auto
    then show ?thesis using False by simp
  qed
qed simp

lemma up_to_dated: "up_to_cursor c r \<Longrightarrow> \<exists>d. th_date r = Some d"
  by (simp add: up_to_cursor_def split: option.splits)

lemma walk_split: "done_at account c t @ left_at account c t = dated account t"
proof -
  have "filter (up_to_cursor c) (dated account t) = filter (\<lambda>r. \<not> after_cursor c r) (dated account t)"
    by (intro filter_cong refl) (simp add: set_dated up_to_iff)
  moreover have "filter (\<lambda>r. \<not> after_cursor c r) (dated account t) @ filter (after_cursor c) (dated account t) = dated account t"
  proof (rule sorted_filter_split [where f = "\<lambda>r. (the (th_date r), th_id r)"])
    show "sorted (map (\<lambda>r. (the (th_date r), th_id r)) (dated account t))" by (simp add: dated_def)
    fix x y assume "x \<in> set (dated account t)" "y \<in> set (dated account t)"
      "(the (th_date x), th_id x) \<le> (the (th_date y), th_id y)" "after_cursor c x"
    then show "after_cursor c y" by (auto simp: after_cursor_def set_dated split: option.splits)
  qed
  ultimately show ?thesis by simp
qed

lemma select_left: "selectBatch account c n t = take n (left_at account c t)"
proof -
  have "filter (\<lambda>r. live_of account r \<and> after_cursor c r) t
      = filter (after_cursor c) (filter (\<lambda>r. live_of account r \<and> th_date r \<noteq> None) t)"
    unfolding filter_filter by (intro filter_cong refl) (auto simp: after_cursor_def split: option.splits)
  then show ?thesis by (simp add: selectBatch_def dated_def filter_sort)
qed

section \<open>Tables with new keys\<close>

type_synonym assignment = "nat \<Rightarrow> (string option \<times> string option) option"

definition assign_row :: "assignment \<Rightarrow> letter \<Rightarrow> letter" where
  "assign_row A r = (case A (th_id r) of None \<Rightarrow> r | Some (k, why) \<Rightarrow> r\<lparr>th_key := k, th_reason := why\<rparr>)"

definition assigned :: "assignment \<Rightarrow> letter list \<Rightarrow> letter list" where
  "assigned A t = map (assign_row A) t"

lemma assign_row_same [simp]:
  "th_id (assign_row A r) = th_id r" "th_account (assign_row A r) = th_account r" "th_msg (assign_row A r) = th_msg r"
  "th_reply (assign_row A r) = th_reply r" "th_refs (assign_row A r) = th_refs r" "th_gmail (assign_row A r) = th_gmail r"
  "th_date (assign_row A r) = th_date r" "th_deleted (assign_row A r) = th_deleted r"
  by (simp_all add: assign_row_def split: option.splits prod.splits)

lemma assign_row_pred [simp]: "live_of a (assign_row A r) = live_of a r" "after_cursor c (assign_row A r) = after_cursor c r"
  "up_to_cursor c (assign_row A r) = up_to_cursor c r" "row_candidates (assign_row A r) = row_candidates r"
  by (auto simp: live_of_def after_cursor_def up_to_cursor_def row_candidates_def split: option.split)

lemma threading_assigned [simp]: "threadingForRow (assign_row A r) mode m = threadingForRow r mode m"
  by (rule threading_headers) simp_all

lemma rekey_assigned [simp]: "rekey mode m (map (assign_row A) rs) = rekey mode m rs"
  by (induction rs arbitrary: m) simp_all

lemma assign_assign: "assigned B (assigned A t) = assigned (A ++ B) t"
  by (auto simp: assigned_def assign_row_def map_add_def split: option.splits prod.splits)

lemma assigned_ids [simp]: "map th_id (assigned A t) = map th_id t"
  by (simp add: assigned_def)

lemma insort_map: "insort_key f (g x) (map g xs) = map g (insort_key (f \<circ> g) x xs)"
  by (induction xs) simp_all

lemma sort_key_map: "sort_key f (map g xs) = map g (sort_key (f \<circ> g) xs)"
  by (induction xs) (simp_all add: insort_map comp_def)

lemma dated_assigned: "dated account (assigned A t) = map (assign_row A) (dated account t)"
  by (simp add: dated_def assigned_def filter_map sort_key_map comp_def)

lemma undated_assigned: "selectUndated account (assigned A t) = map (assign_row A) (selectUndated account t)"
  by (simp add: selectUndated_def assigned_def filter_map sort_key_map comp_def)

definition walk_order :: "nat \<Rightarrow> letter list \<Rightarrow> letter list" where
  "walk_order account t = dated account t @ selectUndated account t"

definition new_keys :: "nat \<Rightarrow> string \<Rightarrow> letter list \<Rightarrow> assignment" where
  "new_keys account mode t = map_of (rekey mode (\<lambda>_. None) (walk_order account t))"

text \<open>
  Two rows of a mailbox may be one letter, in two folders: the copies share a Message-ID. They must get one key from a walk
  that is not interrupted; a batch resolves a Message-ID by any of its rows. They do in gmail mode, by the number of the
  conversation, and of course when a letter has one row.
\<close>

definition mailbox_ok :: "nat \<Rightarrow> string \<Rightarrow> letter list \<Rightarrow> bool" where
  "mailbox_ok account mode t \<longleftrightarrow> distinct (map th_id t)
     \<and> (\<forall>r\<in>set t. \<forall>s\<in>set t. live_of account r \<and> live_of account s \<and> text_given (th_msg r) \<and> th_msg r = th_msg s
          \<longrightarrow> map_option fst (new_keys account mode t (th_id r)) = map_option fst (new_keys account mode t (th_id s)))"

lemma same_letter: "\<lbrakk>distinct (map th_id t); r \<in> set t; s \<in> set t; th_id r = th_id s\<rbrakk> \<Longrightarrow> r = s"
  unfolding distinct_map by (blast dest: inj_onD)

lemma mailbox_copies:
  assumes "mailbox_ok account mode t" and "r \<in> set t" and "s \<in> set t" and "live_of account r" and "live_of account s"
    and "th_msg r = Some c" and "th_msg s = Some c" and "c \<noteq> []"
  shows "map_option fst (new_keys account mode t (th_id r)) = map_option fst (new_keys account mode t (th_id s))"
proof -
  have "text_given (th_msg r)" "th_msg r = th_msg s" using assms(6-8) by (simp_all add: text_given_def)
  then show ?thesis using assms(1-5) unfolding mailbox_ok_def by blast
qed

lemma gmail_key:
  assumes "distinct (map th_id rs)" and "r \<in> set rs" and "mode = THREAD_MODE_GMAIL" and "text_given (th_gmail r)"
  shows "map_of (rekey mode m rs) (th_id r) = Some (Some (GMAIL_KEY_PREFIX @ the (th_gmail r)), Some ''gmail-thrid'')"
  using assms
proof (induction rs arbitrary: m)
  case (Cons a rs)
  show ?case
  proof (cases "a = r")
    case False
    then have "r \<in> set rs" "th_id a \<noteq> th_id r" using Cons.prems(1,2) by auto
    then show ?thesis using Cons.IH Cons.prems by simp
  qed (use Cons.prems in \<open>simp add: threadingForRow_def\<close>)
qed simp

lemma set_walk: "set (walk_order account t) = {r \<in> set t. live_of account r}"
  by (auto simp: walk_order_def set_dated selectUndated_def)

lemma distinct_sort_ids: "distinct (map th_id t) \<Longrightarrow> distinct (map th_id (sort_key f (filter p t)))"
  unfolding distinct_map by (auto intro: inj_on_subset)

lemma distinct_walk: "distinct (map th_id t) \<Longrightarrow> distinct (map th_id (walk_order account t))"
proof -
  assume d: "distinct (map th_id t)"
  have "th_id ` set (dated account t) \<inter> th_id ` set (selectUndated account t) = {}"
    using same_letter [OF d] by (auto simp: set_dated selectUndated_def) (metis option.distinct(1))
  then show ?thesis
    unfolding walk_order_def map_append distinct_append set_map dated_def selectUndated_def
    by (intro conjI distinct_sort_ids [OF d])
qed

lemma copies_ok:
  assumes "distinct (map th_id t)"
    and copies: "\<And>r s. \<lbrakk>r \<in> set t; s \<in> set t; live_of account r; live_of account s; text_given (th_msg r); th_msg r = th_msg s\<rbrakk>
      \<Longrightarrow> r = s \<or> mode = THREAD_MODE_GMAIL \<and> text_given (th_gmail r) \<and> th_gmail s = th_gmail r"
  shows "mailbox_ok account mode t"
proof -
  have "map_option fst (new_keys account mode t (th_id r)) = map_option fst (new_keys account mode t (th_id s))"
    if "r \<in> set t" "s \<in> set t" "live_of account r" "live_of account s" "text_given (th_msg r)" "th_msg r = th_msg s" for r s
  proof (cases "r = s")
    case False
    then have g: "mode = THREAD_MODE_GMAIL" "text_given (th_gmail r)" "th_gmail s = th_gmail r" using copies [OF that] by simp_all
    have "r \<in> set (walk_order account t)" "s \<in> set (walk_order account t)" using that by (simp_all add: set_walk)
    then have "new_keys account mode t (th_id r) = new_keys account mode t (th_id s)"
      unfolding new_keys_def using gmail_key [OF distinct_walk [OF assms(1)] _ g(1)] g(2,3) by metis
    then show ?thesis by simp
  qed simp
  then show ?thesis using assms(1) unfolding mailbox_ok_def by blast
qed

section \<open>What a batch sees\<close>

lemma rekey_given:
  "\<lbrakk>map_of (rekey mode m rs) (th_id r) = Some (k, why); r \<in> set rs; distinct (map th_id rs); text_given (th_msg r)\<rbrakk> \<Longrightarrow> k \<noteq> None"
proof (induction rs arbitrary: m)
  case (Cons a rs)
  show ?case
  proof (cases "a = r")
    case True
    then show ?thesis using Cons.prems key_given [of r mode m] by auto
  next
    case False
    then have "th_id a \<noteq> th_id r" using Cons.prems(2,3) by auto
    then show ?thesis using Cons False by simp
  qed
qed simp

lemma fold_keys_hit:
  "\<lbrakk>\<forall>k. (x, k) \<in> set ps \<longrightarrow> k = v; m x = v \<or> (\<exists>k. (x, k) \<in> set ps)\<rbrakk> \<Longrightarrow> fold (\<lambda>(i, k) m. m(i := k)) ps m x = v"
proof (induction ps arbitrary: m)
  case (Cons p ps)
  obtain i k where p: "p = (i, k)" by (cases p)
  have "(m(i := k)) x = v \<or> (\<exists>k. (x, k) \<in> set ps)" using Cons.prems by (auto simp: p)
  then show ?case using Cons.IH [of "m(i := k)"] Cons.prems(1) by (simp add: p)
qed auto

lemma new_keys_done:
  assumes "distinct (map th_id t)" and "walk_order account t = xs @ ys" and "r \<in> set xs"
  shows "new_keys account mode t (th_id r) = map_of (rekey mode (\<lambda>_. None) xs) (th_id r)"
proof -
  have "th_id r \<in> set (map fst (rekey mode (\<lambda>_. None) xs))" unfolding rekey_rows using assms(3) by simp
  then obtain v where "map_of (rekey mode (\<lambda>_. None) xs) (th_id r) = Some v"
    by (cases "map_of (rekey mode (\<lambda>_. None) xs) (th_id r)") (auto simp: map_of_eq_None_iff)
  then show ?thesis by (simp add: new_keys_def assms(2) rekey_append)
qed

lemma resolved_keys:
  assumes ok: "mailbox_ok account mode t" and before: "\<forall>r\<in>set (done_at account c t). A (th_id r) = new_keys account mode t (th_id r)"
    and x: "x \<in> set ids" "x \<noteq> []"
  shows "fold (\<lambda>(i, k) m. m(i := k)) (resolveAncestors account ids c (assigned A t)) (\<lambda>_. None) x
    = keys_after mode (\<lambda>_. None) (done_at account c t) x"
proof -
  let ?done = "done_at account c t" and ?ps = "resolveAncestors account ids c (assigned A t)"
  have ids: "distinct (map th_id t)" using ok by (simp add: mailbox_ok_def)
  have member: "(x, k) \<in> set ?ps \<longleftrightarrow> (\<exists>s\<in>set ?done. th_msg s = Some x \<and> th_key (assign_row A s) = k \<and> k \<noteq> None)" for k
  proof -
    have "(x, k) \<in> set ?ps \<longleftrightarrow> (\<exists>s\<in>set t. live_of account s \<and> th_msg s = Some x \<and> th_key (assign_row A s) = k \<and> k \<noteq> None \<and> up_to_cursor c s)"
      using x(1) by (auto simp: resolveAncestors_def assigned_def image_iff)
    moreover have "s \<in> set ?done \<longleftrightarrow> s \<in> set t \<and> live_of account s \<and> up_to_cursor c s" for s
      using up_to_dated [of c s] by (auto simp: set_dated)
    ultimately show ?thesis by blast
  qed
  show ?thesis
  proof (cases "\<exists>r\<in>set ?done. th_msg r = Some x")
    case True
    then obtain r where r: "r \<in> set ?done" "th_msg r = Some x" by blast
    have dist: "distinct (map th_id ?done)"
      unfolding dated_def by (intro distinct_map_filter distinct_sort_ids [OF ids])
    have walk: "walk_order account t = ?done @ left_at account c t @ selectUndated account t"
      using walk_split [of c account t] by (simp add: walk_order_def)
    let ?K = "keys_after mode (\<lambda>_. None) ?done x"
    have key: "map_option fst (new_keys account mode t (th_id s)) = Some ?K" if s: "s \<in> set ?done" "th_msg s = Some x" for s
    proof -
      note here = new_keys_done [OF ids walk]
      have "map_option fst (map_of (rekey mode (\<lambda>_. None) ?done) (th_id s)) = Some ?K"
        by (rule keys_after_of [OF dist s x(2)])
          (use s x(2) mailbox_copies [OF ok] in \<open>auto simp: here [symmetric] set_dated\<close>)
      then show ?thesis by (simp add: here [OF s(1)])
    qed
    have stored: "th_key (assign_row A s) = ?K" if "s \<in> set ?done" "th_msg s = Some x" for s
    proof -
      have "map_option fst (A (th_id s)) = Some ?K" using key [OF that] before that(1) by simp
      then show ?thesis by (auto simp: assign_row_def split: option.splits)
    qed
    have some: "?K \<noteq> None"
    proof -
      obtain v where v: "new_keys account mode t (th_id r) = Some v" "fst v = ?K" using key [OF r] by auto
      then have "map_of (rekey mode (\<lambda>_. None) ?done) (th_id r) = Some (?K, snd v)"
        using new_keys_done [OF ids walk r(1), of mode] by (metis prod.collapse)
      from rekey_given [OF this r(1) dist] r(2) x(2) show ?thesis by (simp add: text_given_def)
    qed
    have hit: "(x, k) \<in> set ?ps \<longleftrightarrow> k = ?K" for k
    proof
      assume "(x, k) \<in> set ?ps"
      then show "k = ?K" unfolding member using stored by blast
    next
      assume "k = ?K"
      then show "(x, k) \<in> set ?ps" unfolding member using r stored [OF r] some by blast
    qed
    show ?thesis by (rule fold_keys_hit) (simp_all add: hit)
  next
    case False
    then have "keys_after mode (\<lambda>_. None) ?done x = None" by (simp add: keys_after_other)
    then show ?thesis using False by (intro fold_keys_hit) (auto simp: member)
  qed
qed

section \<open>What a batch writes\<close>

lemma changed_updates:
  assumes "distinct (map th_id batch)" and "map fst R = map th_id batch" and "r \<in> set batch"
  shows "map_of (map snd (filter (\<lambda>(r, _, k, why). th_key r \<noteq> k \<or> th_reason r \<noteq> why) (zip batch R))) (th_id r)
    = (case map_of R (th_id r) of None \<Rightarrow> None | Some (k, why) \<Rightarrow> if th_key r \<noteq> k \<or> th_reason r \<noteq> why then Some (k, why) else None)"
  using assms
proof (induction batch arbitrary: R)
  case (Cons b batch)
  obtain k why R' where R: "R = (th_id b, k, why) # R'" and R': "map fst R' = map th_id batch"
    using Cons.prems(2) by (cases R) auto
  have out: "map_of (map snd (filter p (zip batch R'))) i = None" if "i \<notin> th_id ` set batch" for p i
  proof -
    have "fst ` set (map snd (filter p (zip batch R'))) \<subseteq> fst ` set R'" by (force dest: set_zip_rightD)
    also have "fst ` set R' = th_id ` set batch" using arg_cong [OF R', of set] by simp
    finally show ?thesis using that by (auto simp: map_of_eq_None_iff)
  qed
  show ?case
  proof (cases "r = b")
    case True
    have "th_id b \<notin> th_id ` set batch" using Cons.prems(1) by simp
    then show ?thesis using True out by (auto simp: R)
  next
    case False
    then have "r \<in> set batch" "th_id b \<noteq> th_id r" using Cons.prems by auto
    then show ?thesis using Cons.IH [OF _ R'] Cons.prems(1) by (auto simp: R)
  qed
qed simp

lemma written_assigned:
  assumes ids: "distinct (map th_id t)" and batch: "set batch \<subseteq> set t" "distinct (map th_id batch)" "\<forall>r\<in>set batch. th_account r = account"
    and R: "map fst R = map th_id batch"
  defines "ups \<equiv> map snd (filter (\<lambda>(r, _, k, why). th_key r \<noteq> k \<or> th_reason r \<noteq> why) (zip batch R))"
  shows "snd (writeBatch account ups t) = assigned (map_of R) t"
proof -
  have "rekey_row account ups r = assign_row (map_of R) r" if r: "r \<in> set t" for r
  proof (cases "th_id r \<in> th_id ` set batch")
    case True
    then have "r \<in> set batch" using same_letter [OF ids r] batch(1) by auto
    then have "map_of ups (th_id r) = (case map_of R (th_id r) of None \<Rightarrow> None
        | Some (k, why) \<Rightarrow> if th_key r \<noteq> k \<or> th_reason r \<noteq> why then Some (k, why) else None)" "th_account r = account"
      using changed_updates [OF batch(2) R] batch(3) by (simp_all add: ups_def)
    then show ?thesis by (auto simp: rekey_row_def written_row_def assign_row_def split: option.splits prod.splits)
  next
    case False
    have sub: "fst ` set ups \<subseteq> fst ` set R" unfolding ups_def by (force dest: set_zip_rightD)
    moreover have "fst ` set R = th_id ` set batch" using arg_cong [OF R, of set] by simp
    ultimately have "map_of ups (th_id r) = None" "map_of R (th_id r) = None" using False by (auto simp: map_of_eq_None_iff)
    then show ?thesis by (simp add: rekey_row_def written_row_def assign_row_def)
  qed
  then have "map (rekey_row account ups) t = assigned (map_of R) t" by (simp add: assigned_def)
  moreover have "snd (writeBatch account ups t) = map (rekey_row account ups) t"
    by (auto simp: writeBatch_def rekey_row_def written_row_def map_idI)
  ultimately show ?thesis by simp
qed

text \<open>A batch: the letters the walk comes to after the cursor are given their new keys.\<close>

lemma batch_step:
  assumes ok: "mailbox_ok account mode t" and sub: "A \<subseteq>\<^sub>m new_keys account mode t"
    and before: "\<forall>r\<in>set (done_at account c t). A (th_id r) = new_keys account mode t (th_id r)"
    and order: "walk_order account t = done_at account c t @ B @ others"
  obtains A' where "snd (rekeyBatch account (map (assign_row A) B) mode c (assigned A t)) = assigned A' t"
    and "A' \<subseteq>\<^sub>m new_keys account mode t"
    and "\<forall>r\<in>set (done_at account c t @ B). A' (th_id r) = new_keys account mode t (th_id r)"
proof -
  let ?D = "done_at account c t" and ?N = "new_keys account mode t"
  define m where "m = keys_after mode (\<lambda>_. None) ?D"
  have ids: "distinct (map th_id t)" using ok by (simp add: mailbox_ok_def)
  have walk: "distinct (map th_id (?D @ B @ others))" using distinct_walk [OF ids, of account] order by simp
  have B: "r \<in> set t \<and> live_of account r" if "r \<in> set B" for r
    using that set_walk [of account t] order by auto
  let ?anc = "fold (\<lambda>(i, k) m. m(i := k)) (resolveAncestors account (collectCandidateIds (map (assign_row A) B)) c (assigned A t)) (\<lambda>_. None)"
  have R: "rekey mode ?anc (map (assign_row A) B) = rekey mode m B"
    unfolding rekey_assigned
  proof (rule rekey_cong)
    fix r x assume "r \<in> set B" "x \<in> set (row_candidates r)"
    then show "?anc x = m x" unfolding m_def
      by (intro resolved_keys [OF ok before]) (auto simp: collectCandidateIds_def dest: candidates_filled)
  qed
  have step: "snd (rekeyBatch account (map (assign_row A) B) mode c (assigned A t)) = assigned (A ++ map_of (rekey mode m B)) t"
    unfolding rekeyBatch_def Let_def R assign_assign [symmetric]
  proof (rule written_assigned)
    show "set (map (assign_row A) B) \<subseteq> set (assigned A t)" using B by (auto simp: assigned_def)
    show "\<forall>r\<in>set (map (assign_row A) B). th_account r = account" using B by (auto simp: live_of_def)
  qed (use ids walk in \<open>simp_all add: comp_def rekey_rows\<close>)
  have new: "?N i = map_of (rekey mode m B) i" if "i \<in> th_id ` set B" for i
  proof -
    have "i \<notin> fst ` set (rekey mode (\<lambda>_. None) ?D)"
      using walk that arg_cong [OF rekey_rows [of mode "\<lambda>_. None" ?D], of set] by auto
    then have D: "map_of (rekey mode (\<lambda>_. None) ?D) i = None" by (simp add: map_of_eq_None_iff)
    have "i \<in> fst ` set (rekey mode m B)"
      using that arg_cong [OF rekey_rows [of mode m B], of set] by auto
    then obtain v where v: "map_of (rekey mode m B) i = Some v"
      by (cases "map_of (rekey mode m B) i") (auto simp: map_of_eq_None_iff)
    have "?N = (map_of (rekey mode (keys_after mode m B) others) ++ map_of (rekey mode m B)) ++ map_of (rekey mode (\<lambda>_. None) ?D)"
      by (simp add: new_keys_def order rekey_append m_def)
    then show ?thesis unfolding map_add_def by (simp add: D v)
  qed
  have outside: "map_of (rekey mode m B) i = None" if "i \<notin> th_id ` set B" for i
    using that arg_cong [OF rekey_rows [of mode m B], of set] by (auto simp: map_of_eq_None_iff)
  have part: "(A ++ map_of (rekey mode m B)) i = (if i \<in> th_id ` set B then ?N i else A i)" for i
  proof (cases "i \<in> th_id ` set B")
    case True
    then have "i \<in> fst ` set (rekey mode m B)" using arg_cong [OF rekey_rows [of mode m B], of set] by auto
    then obtain v where "map_of (rekey mode m B) i = Some v" by (cases "map_of (rekey mode m B) i") (auto simp: map_of_eq_None_iff)
    then show ?thesis using True new by simp
  qed (simp add: outside map_add_def)
  show thesis
  proof (rule that [OF step])
    show "A ++ map_of (rekey mode m B) \<subseteq>\<^sub>m ?N" using sub by (auto simp: map_le_def part dom_def split: if_splits)
    show "\<forall>r\<in>set (?D @ B). (A ++ map_of (rekey mode m B)) (th_id r) = ?N (th_id r)" using before by (auto simp: part)
  qed
qed

section \<open>The walk\<close>

lemma up_to_row: "\<lbrakk>th_date r \<noteq> None; th_date x \<noteq> None\<rbrakk> \<Longrightarrow>
    up_to_cursor (row_cursor x) r \<longleftrightarrow> (the (th_date r), th_id r) \<le> (the (th_date x), th_id x)"
  by (auto simp: up_to_cursor_def row_cursor_def)

lemma done_next:
  assumes ids: "distinct (map th_id t)" and B: "left_at account c t = B @ rest" "B \<noteq> []"
  shows "done_at account (row_cursor (last B)) t = done_at account c t @ B" and "left_at account (row_cursor (last B)) t = rest"
proof -
  let ?f = "\<lambda>r. (the (th_date r), th_id r)" and ?x = "last B"
  obtain X where X: "X = done_at account c t" by simp
  have D: "dated account t = (X @ B) @ rest" using walk_split [of c account t] B(1) by (simp add: X)
  have date: "th_date r \<noteq> None" if "r \<in> set (dated account t)" for r using that by (simp add: set_dated)
  have x: "?x \<in> set B" using B(2) by simp
  have sorted: "sorted (map ?f ((X @ B) @ rest))" unfolding D [symmetric] by (simp add: dated_def)
  have low: "?f r \<le> ?f ?x" if "r \<in> set (X @ B)" for r
  proof (cases "r \<in> set B")
    case True
    have s: "sorted (map ?f B)" using sorted by (simp add: sorted_append)
    obtain ys z where ys: "B = ys @ [z]" using B(2) by (cases B rule: rev_exhaust) auto
    have "sorted (map ?f ys @ [?f z])" using s by (simp add: ys)
    then have "\<forall>y\<in>set (map ?f ys). y \<le> ?f z" unfolding sorted_append by simp
    then show ?thesis using True by (auto simp: ys)
  next
    case False
    then show ?thesis using that sorted x unfolding map_append sorted_append set_append by auto
  qed
  have high: "\<not> ?f r \<le> ?f ?x" if "r \<in> set rest" for r
  proof
    assume le: "?f r \<le> ?f ?x"
    have "\<forall>y\<in>set (map ?f (X @ B)). \<forall>z\<in>set (map ?f rest). y \<le> z"
      using sorted unfolding map_append [of _ _ rest] sorted_append by blast
    moreover have "?f ?x \<in> set (map ?f (X @ B))" "?f r \<in> set (map ?f rest)" using x that by simp_all
    ultimately have "?f ?x \<le> ?f r" by blast
    then have "th_id r = th_id ?x" using le by auto
    moreover have "distinct (map th_id (dated account t))" unfolding dated_def by (rule distinct_sort_ids [OF ids])
    ultimately show False using that x unfolding D by auto
  qed
  have up: "up_to_cursor (row_cursor ?x) r \<longleftrightarrow> ?f r \<le> ?f ?x" if "r \<in> set (dated account t)" for r
    using date [OF that] date [of ?x] x D by (intro up_to_row) auto
  have "filter (up_to_cursor (row_cursor ?x)) (X @ B) = X @ B"
    using low up unfolding D filter_id_conv by auto
  moreover have "filter (up_to_cursor (row_cursor ?x)) rest = []" using high up unfolding D filter_empty_conv by auto
  ultimately have d: "done_at account (row_cursor ?x) t = X @ B" unfolding D by (simp only: filter_append append_Nil2)
  then show "done_at account (row_cursor ?x) t = done_at account c t @ B" by (simp only: X)
  have "(X @ B) @ left_at account (row_cursor ?x) t = dated account t"
    using walk_split [of "row_cursor ?x" account t] by (simp only: d)
  also note D
  finally show "left_at account (row_cursor ?x) t = rest" by (rule same_append_eq [THEN iffD1])
qed

definition pass_inv :: "nat \<Rightarrow> string \<Rightarrow> letter list \<Rightarrow> cursor \<Rightarrow> nat \<Rightarrow> mailbox_db \<Rightarrow> bool" where
  "pass_inv account mode t c processed db \<longleftrightarrow>
     (\<exists>A. letters db = assigned A t \<and> A \<subseteq>\<^sub>m new_keys account mode t
        \<and> (\<forall>r\<in>set (done_at account c t). A (th_id r) = new_keys account mode t (th_id r)))
   \<and> (\<exists>p. passes db account = Some p \<and> pr_mode p = mode \<and> \<not> pr_finished p \<and> pr_cursor p = c
        \<and> pr_processed p = processed \<and> pr_total p = live_count account t)
   \<and> processed = length (done_at account c t)"

lemma left_assigned: "left_at account c (assigned A t) = map (assign_row A) (left_at account c t)"
  by (simp add: dated_assigned filter_map comp_def)

lemma loop_step:
  assumes ok: "mailbox_ok account mode t" and inv: "pass_inv account mode t c processed db"
    and batch: "selectBatch account c n (letters db) = batch" "batch \<noteq> []"
    and rekeyed: "rekeyBatch account batch mode c (letters db) = (m, ls)"
  shows "pass_inv account mode t c processed (db\<lparr>letters := ls\<rparr>)"
    and "pass_inv account mode t (row_cursor (last batch)) (processed + length batch)
      (saveRecomputeCursor account (row_cursor (last batch)) (processed + length batch) changed (db\<lparr>letters := ls\<rparr>))"
proof -
  obtain A p where A: "letters db = assigned A t" "A \<subseteq>\<^sub>m new_keys account mode t"
      "\<forall>r\<in>set (done_at account c t). A (th_id r) = new_keys account mode t (th_id r)"
    and p: "passes db account = Some p" "pr_mode p = mode" "\<not> pr_finished p" "pr_cursor p = c" "pr_processed p = processed"
      "pr_total p = live_count account t" and n: "processed = length (done_at account c t)"
    using inv unfolding pass_inv_def by blast
  let ?B = "take n (left_at account c t)"
  have b: "batch = map (assign_row A) ?B" using batch(1) by (simp only: A(1) select_left left_assigned take_map)
  have order: "walk_order account t = done_at account c t @ ?B @ drop n (left_at account c t) @ selectUndated account t"
    using walk_split [of c account t] by (simp add: walk_order_def)
  obtain A' where A': "ls = assigned A' t" "A' \<subseteq>\<^sub>m new_keys account mode t"
      "\<forall>r\<in>set (done_at account c t @ ?B). A' (th_id r) = new_keys account mode t (th_id r)"
    using batch_step [OF ok A(2,3) order] rekeyed unfolding A(1) b by (metis snd_conv)
  show "pass_inv account mode t c processed (db\<lparr>letters := ls\<rparr>)"
    unfolding pass_inv_def using A' p n by (intro conjI exI [of _ A'] exI [of _ p]) auto
  have "?B \<noteq> []" using batch(2) b by auto
  moreover have "distinct (map th_id t)" using ok by (simp add: mailbox_ok_def)
  ultimately have next_done: "done_at account (row_cursor (last ?B)) t = done_at account c t @ ?B"
    by (intro done_next(1) [where rest = "drop n (left_at account c t)"]) simp_all
  have last_row: "row_cursor (last batch) = row_cursor (last ?B)" using \<open>?B \<noteq> []\<close> by (simp add: b last_map row_cursor_def)
  show "pass_inv account mode t (row_cursor (last batch)) (processed + length batch)
      (saveRecomputeCursor account (row_cursor (last batch)) (processed + length batch) changed (db\<lparr>letters := ls\<rparr>))"
    unfolding pass_inv_def last_row next_done using A' p n by (auto simp: saveRecomputeCursor_def on_pass_def b)
qed

lemma select_nonempty: "\<lbrakk>selectBatch account c n t = []; n > 0\<rbrakk> \<Longrightarrow> left_at account c t = []"
  by (simp add: select_left)

lemma loop_inv:
  assumes "mailbox_ok account mode t" and "pass_inv account mode t c processed db"
    and "recompute_loop fate account mode n k c processed changed db = (e, k', c', processed', changed', db')"
  shows "pass_inv account mode t c' processed' db' \<and> (e = Walked \<longrightarrow> n > 0 \<longrightarrow> left_at account c' t = [])
    \<and> ((\<forall>j. fate j = Go) \<longrightarrow> e = Walked)"
  using assms
proof (induction fate account mode n k c processed changed db rule: recompute_loop.induct)
  case (1 fate account mode n k c processed changed db)
  note ok = 1(2) and inv = 1(3) and run = 1(4)
  let ?batch = "selectBatch account c n (letters db)"
  obtain m ls where ls: "rekeyBatch account ?batch mode c (letters db) = (m, ls)" by (cases "rekeyBatch account ?batch mode c (letters db)")
  have left: "left_at account c t = []" if "?batch = []" "n > 0"
  proof -
    obtain A where "letters db = assigned A t" using inv unfolding pass_inv_def by blast
    then show ?thesis using select_nonempty [OF that] by (simp add: left_assigned)
  qed
  show ?case
  proof (cases "fate k = Halt \<or> ?batch = []")
    case True
    then show ?thesis using run inv left
      by (subst (asm) recompute_loop.simps) (auto simp: Let_def split: if_splits intro: exI [of _ k'])
  next
    case go: False
    note step = loop_step [OF ok inv refl _ ls]
    show ?thesis
    proof (cases "fate k = Crash")
      case True
      then show ?thesis using run go step(1)
        by (subst (asm) recompute_loop.simps) (auto simp: Let_def ls intro: exI [of _ k])
    next
      case False
      let ?c = "row_cursor (last ?batch)" and ?p = "processed + length ?batch"
      have "recompute_loop fate account mode n (Suc k) ?c ?p (changed + m)
          (saveRecomputeCursor account ?c ?p (changed + m) (db\<lparr>letters := ls\<rparr>)) = (e, k', c', processed', changed', db')"
        using run go False by (subst (asm) recompute_loop.simps) (simp add: Let_def ls)
      then show ?thesis
        using 1(1) [OF _ refl _ ls [symmetric] refl refl _ refl refl refl ok] go False step(2) by blast
    qed
  qed
qed

text \<open>A mailbox where no pass is under way for this mode.\<close>

definition no_pass :: "nat \<Rightarrow> string \<Rightarrow> mailbox_db \<Rightarrow> bool" where
  "no_pass account mode db \<longleftrightarrow> (case passes db account of None \<Rightarrow> True | Some p \<Rightarrow> pr_mode p \<noteq> mode \<or> pr_finished p)"

definition under_way :: "nat \<Rightarrow> string \<Rightarrow> letter list \<Rightarrow> mailbox_db \<Rightarrow> bool" where
  "under_way account mode t db \<longleftrightarrow> (no_pass account mode db \<and> letters db = t) \<or> (\<exists>c processed. pass_inv account mode t c processed db)"

lemma assigned_nothing [simp]: "assigned (\<lambda>_. None) t = t"
  by (simp add: assigned_def assign_row_def map_idI)

lemma start_inv:
  assumes "letters db = t"
  shows "pass_inv account mode t START 0 (startRecomputeRow account mode (live_count account t) db)"
proof -
  have none: "done_at account START t = []"
    by (auto simp: filter_empty_conv START_def up_to_cursor_def split: option.split)
  have "letters (startRecomputeRow account mode (live_count account t) db) = assigned (\<lambda>_. None) t"
    using assms by (simp add: startRecomputeRow_def)
  then show ?thesis
    unfolding pass_inv_def none by (intro conjI exI [of _ "\<lambda>_. None"]) (simp_all add: startRecomputeRow_def map_le_def)
qed

lemma live_walk: "length (walk_order account t) = live_count account t"
proof -
  have "length (filter (live_of account) t) = length (filter (\<lambda>r. live_of account r \<and> th_date r \<noteq> None) t)
      + length (filter (\<lambda>r. live_of account r \<and> th_date r = None) t)"
    by (induction t) auto
  then show ?thesis by (simp add: walk_order_def dated_def selectUndated_def live_count_def)
qed

definition pass_finished :: "nat \<Rightarrow> mailbox_db \<Rightarrow> bool" where
  "pass_finished account db \<longleftrightarrow> (\<exists>p. passes db account = Some p \<and> pr_finished p)"

definition pass_result :: "nat \<Rightarrow> string \<Rightarrow> letter list \<Rightarrow> pass_outcome \<Rightarrow> mailbox_db \<Rightarrow> bool" where
  "pass_result account mode t out db \<longleftrightarrow> (case out of
     PassDone processed changed count \<Rightarrow> letters db = assigned (new_keys account mode t) t \<and> processed = count
       \<and> count = live_count account t \<and> pass_finished account db
   | _ \<Rightarrow> under_way account mode t db)"

text \<open>The tail of a pass: the letters without a date.\<close>

lemma all_assigned:
  assumes A: "A \<subseteq>\<^sub>m new_keys account mode t" "\<forall>r\<in>set (walk_order account t). A (th_id r) = new_keys account mode t (th_id r)"
  shows "A = new_keys account mode t"
proof
  fix i
  show "A i = new_keys account mode t i"
  proof (cases "i \<in> th_id ` set (walk_order account t)")
    case False
    then have "new_keys account mode t i = None"
      using arg_cong [OF rekey_rows [of mode "\<lambda>_. None" "walk_order account t"], of set] by (auto simp: new_keys_def map_of_eq_None_iff)
    moreover from this have "A i = None" using A(1) by (metis domIff map_le_def)
    ultimately show ?thesis by simp
  qed (use A(2) in auto)
qed

lemma tail_step:
  assumes ok: "mailbox_ok account mode t" and inv: "pass_inv account mode t c processed db" and left: "left_at account c t = []"
    and tail: "selectUndated account (letters db) = batch" and rekeyed: "rekeyBatch account batch mode c (letters db) = (m, ls)"
  shows "pass_inv account mode t c processed (db\<lparr>letters := ls\<rparr>)" and "ls = assigned (new_keys account mode t) t"
    and "length batch + processed = live_count account t" and "batch = [] \<Longrightarrow> letters db = assigned (new_keys account mode t) t"
proof -
  obtain A p where A: "letters db = assigned A t" "A \<subseteq>\<^sub>m new_keys account mode t"
      "\<forall>r\<in>set (done_at account c t). A (th_id r) = new_keys account mode t (th_id r)"
    and p: "passes db account = Some p" "pr_mode p = mode" "\<not> pr_finished p" "pr_cursor p = c" "pr_processed p = processed"
      "pr_total p = live_count account t" and n: "processed = length (done_at account c t)"
    using inv unfolding pass_inv_def by blast
  have b: "batch = map (assign_row A) (selectUndated account t)" using tail by (simp only: A(1) undated_assigned)
  have all: "done_at account c t = dated account t" using walk_split [of c account t] left by simp
  have order: "walk_order account t = done_at account c t @ selectUndated account t @ []" by (simp add: walk_order_def all)
  obtain A' where A': "ls = assigned A' t" "A' \<subseteq>\<^sub>m new_keys account mode t"
      "\<forall>r\<in>set (done_at account c t @ selectUndated account t). A' (th_id r) = new_keys account mode t (th_id r)"
    using batch_step [OF ok A(2,3) order] rekeyed unfolding A(1) b by (metis snd_conv)
  show "pass_inv account mode t c processed (db\<lparr>letters := ls\<rparr>)"
    unfolding pass_inv_def using A' p n by (intro conjI exI [of _ A'] exI [of _ p]) auto
  have "A' = new_keys account mode t" using A'(2,3) order by (intro all_assigned) auto
  then show "ls = assigned (new_keys account mode t) t" using A'(1) by simp
  show "length batch + processed = live_count account t" using live_walk [of account t] order by (simp add: b n)
  show "letters db = assigned (new_keys account mode t) t" if "batch = []"
  proof -
    have "A = new_keys account mode t" using A(2,3) order b that by (intro all_assigned) auto
    then show ?thesis using A(1) by simp
  qed
qed

section \<open>One pass, and passes one after another\<close>

lemma saved_inv: "passes db account = Some p \<Longrightarrow> \<exists>p'. passes (saveRecomputeCursor account c x y db) account = Some p'"
  by (simp add: saveRecomputeCursor_def on_pass_def)

lemma after_loop:
  assumes ok: "mailbox_ok account mode t" and n: "n > 0" and inv: "pass_inv account mode t c processed db"
    and loop: "recompute_loop fate account mode n 0 c processed changed db = (e, k, c1, processed1, changed1, db1)"
    and run: "(case (e, k, c1, processed1, changed1, db1) of
           (Halted, k, c, processed, changed, db2) \<Rightarrow> (PassStopped processed changed (live_count account t), db2)
         | (Crashed, k, c, processed, changed, db2) \<Rightarrow> (PassCrashed, db2)
         | (Walked, k, c, processed, changed, db2) \<Rightarrow>
             if fate (Suc k) = Halt then (PassStopped processed changed (live_count account t), db2)
             else let undated = selectUndated account (letters db2)
                  in if undated = [] then (PassDone processed changed (live_count account t), finishRecompute account db2)
                     else let (m, ls) = rekeyBatch account undated mode c (letters db2); db3 = db2\<lparr>letters := ls\<rparr>
                          in if fate (Suc k) = Crash then (PassCrashed, db3)
                             else let processed1 = processed + length undated; changed1 = changed + m
                                  in (PassDone processed1 changed1 (live_count account t),
                                      finishRecompute account (saveRecomputeCursor account c processed1 changed1 db3))) = (out, db')"
  shows "pass_result account mode t out db' \<and> ((\<forall>j. fate j = Go) \<longrightarrow> (\<exists>x y z. out = PassDone x y z))"
proof -
  note L = loop_inv [OF ok inv loop]
  then have way: "under_way account mode t db1" unfolding under_way_def by blast
  show ?thesis
  proof (cases e)
    case Walked
    let ?U = "selectUndated account (letters db1)"
    obtain m ls where ls: "rekeyBatch account ?U mode c1 (letters db1) = (m, ls)" by (cases "rekeyBatch account ?U mode c1 (letters db1)")
    have left: "left_at account c1 t = []" and inv1: "pass_inv account mode t c1 processed1 db1" using L Walked n by simp_all
    note T = tail_step [OF ok inv1 left refl ls]
    obtain p where p: "passes db1 account = Some p" using inv1 by (auto simp: pass_inv_def)
    have way3: "under_way account mode t (db1\<lparr>letters := ls\<rparr>)" using T(1) unfolding under_way_def by blast
    consider "fate (Suc k) = Halt" | "fate (Suc k) \<noteq> Halt" "?U = []" | "fate (Suc k) = Crash" "?U \<noteq> []" | "fate (Suc k) = Go" "?U \<noteq> []"
      by (cases "fate (Suc k)") auto
    then show ?thesis
    proof cases
      case 1
      then show ?thesis using run Walked way by (auto simp: pass_result_def intro: exI [of _ "Suc k"])
    next
      case 2
      then have "out = PassDone processed1 changed1 (live_count account t)" "db' = finishRecompute account db1"
        using run Walked by (simp_all add: Let_def)
      then show ?thesis using T(3,4) 2 p by (simp add: pass_result_def pass_finished_def finishRecompute_def on_pass_def)
    next
      case 3
      then have "out = PassCrashed" "db' = db1\<lparr>letters := ls\<rparr>" using run Walked by (simp_all add: Let_def ls)
      then show ?thesis using way3 3 by (auto simp: pass_result_def intro: exI [of _ "Suc k"])
    next
      case 4
      then have "out = PassDone (processed1 + length ?U) (changed1 + m) (live_count account t)"
        "db' = finishRecompute account (saveRecomputeCursor account c1 (processed1 + length ?U) (changed1 + m) (db1\<lparr>letters := ls\<rparr>))"
        using run Walked by (simp_all add: Let_def ls)
      then show ?thesis using T(2,3) p
        by (simp add: pass_result_def pass_finished_def finishRecompute_def saveRecomputeCursor_def on_pass_def add.commute)
    qed
  qed (use run way L in \<open>auto simp: pass_result_def\<close>)
qed

lemma run_result:
  assumes ok: "mailbox_ok account mode t" and n: "n > 0" and way: "under_way account mode t db"
  shows "pass_result account mode t (fst (runRecompute fate account mode n db)) (snd (runRecompute fate account mode n db))
    \<and> ((\<forall>j. fate j = Go) \<longrightarrow> (\<exists>x y z. fst (runRecompute fate account mode n db) = PassDone x y z))"
proof (cases "no_pass account mode db \<and> letters db = t")
  case True
  let ?db = "startRecomputeRow account mode (live_count account t) db"
  obtain e k c1 x y db1 where l: "recompute_loop fate account mode n 0 START 0 0 ?db = (e, k, c1, x, y, db1)" by (metis prod_cases6)
  note A = after_loop [OF ok n start_inv l, of "fst (runRecompute fate account mode n db)" "snd (runRecompute fate account mode n db)"]
  show ?thesis
  proof (cases "passes db account")
    case None
    then show ?thesis using A True l by (simp add: runRecompute_def loadRecompute_def)
  next
    case (Some p)
    then have "pr_mode p \<noteq> mode \<or> pr_finished p" using True by (simp add: no_pass_def)
    then show ?thesis using A True l Some by (elim disjE) (simp_all add: runRecompute_def loadRecompute_def)
  qed
next
  case False
  then obtain c processed where inv: "pass_inv account mode t c processed db" using way unfolding under_way_def by blast
  then obtain p where p: "passes db account = Some p" "pr_mode p = mode" "\<not> pr_finished p" "pr_cursor p = c" "pr_processed p = processed"
      "pr_total p = live_count account t" by (auto simp: pass_inv_def)
  let ?db = "if text_given (pr_error p) then clearRecomputeError account db else db"
  have inv': "pass_inv account mode t c processed ?db"
    using inv p by (auto simp: pass_inv_def clearRecomputeError_def on_pass_def)
  obtain e k c1 x y db1 where l: "recompute_loop fate account mode n 0 c processed (pr_changed p) ?db = (e, k, c1, x, y, db1)"
    by (metis prod_cases6)
  show ?thesis
    using after_loop [OF ok n inv' l, of "fst (runRecompute fate account mode n db)" "snd (runRecompute fate account mode n db)"] p l
    by (simp add: runRecompute_def loadRecompute_def)
qed

text \<open>Passes one after another, each with its checks and batch size, until one is done.\<close>

fun attempts :: "nat \<Rightarrow> string \<Rightarrow> ((nat \<Rightarrow> fate) \<times> nat) list \<Rightarrow> mailbox_db \<Rightarrow> pass_outcome option \<times> mailbox_db" where
  "attempts account mode [] db = (None, db)"
| "attempts account mode ((fate, n) # ps) db = (case runRecompute fate account mode n db of
     (PassDone processed changed count, db') \<Rightarrow> (Some (PassDone processed changed count), db')
   | (_, db') \<Rightarrow> attempts account mode ps db')"

lemma attempts_result:
  assumes "mailbox_ok account mode t" and "under_way account mode t db" and "\<forall>(fate, n)\<in>set ps. n > 0" and "n > 0"
  shows "\<exists>processed changed. fst (attempts account mode (ps @ [(\<lambda>_. Go, n)]) db) = Some (PassDone processed changed (live_count account t))
    \<and> processed = live_count account t
    \<and> letters (snd (attempts account mode (ps @ [(\<lambda>_. Go, n)]) db)) = assigned (new_keys account mode t) t"
  using assms
proof (induction ps arbitrary: db)
  case Nil
  then show ?case using run_result [OF Nil.prems(1,4,2), of "\<lambda>_. Go"]
    by (cases "runRecompute (\<lambda>_. Go) account mode n db") (auto simp: pass_result_def)
next
  case (Cons q ps)
  obtain fate m where q: "q = (fate, m)" by (cases q)
  have m: "m > 0" using Cons.prems(3) by (simp add: q)
  obtain out db' where r: "runRecompute fate account mode m db = (out, db')" by (cases "runRecompute fate account mode m db")
  have res: "pass_result account mode t out db'" using run_result [OF Cons.prems(1) m Cons.prems(2), of fate] by (simp add: r)
  have rest: "under_way account mode t db' \<Longrightarrow> ?case" if "\<forall>x y z. out \<noteq> PassDone x y z"
    using Cons.IH [of db'] Cons.prems that by (cases out) (simp_all add: q r)
  show ?case
  proof (cases out)
    case (PassDone x y z)
    then show ?thesis using res by (simp add: q r pass_result_def)
  qed (use rest res in \<open>auto simp: pass_result_def\<close>)
qed

end
