(* ===== verification/ThreadProperties.thy ===== *)
theory ThreadProperties
  imports ThreadPass
begin

text \<open>
  The properties of conversations: the pass over a mailbox gives the same keys however it is cut and
  interrupted, and the live sync threads the next letter the way a pass would.
\<close>

text \<open>C27: The thread keys a recompute leaves behind depend on the headers alone: whatever the batch
  sizes, and however often the pass is stopped, or dies after a batch was written and before its
  cursor was saved, the pass that ends leaves every live letter of the mailbox with the key and reason
  one uninterrupted walk from scratch gives it (by date and id, the letters without a date last),
  counts every letter exactly once, and touches no other letter. A key that was there before plays
  no part. One letter may have several rows, copies in other folders with the same Message-ID, when one uninterrupted walk gives
  them one key (\<open>mailbox_ok\<close>): as in gmail mode, where the copies carry one number of the conversation (\<open>copies_ok\<close>). Copies
  to which the uninterrupted walk itself gives different keys are left out: there the order of the database's answer decides.\<close>
theorem recompute_ignores_interruptions:
  assumes "mailbox_ok account mode (letters db)" and "no_pass account mode db" and "\<forall>(fate, m)\<in>set ps. m > 0" and "n > 0"
  shows "\<exists>changed. fst (attempts account mode (ps @ [(\<lambda>_. Go, n)]) db)
        = Some (PassDone (live_count account (letters db)) changed (live_count account (letters db)))
    \<and> letters (snd (attempts account mode (ps @ [(\<lambda>_. Go, n)]) db))
        = assigned (map_of (rekey mode (\<lambda>_. None) (walk_order account (letters db)))) (letters db)"
proof -
  have "under_way account mode (letters db) db" using assms(2) by (simp add: under_way_def)
  from attempts_result [OF assms(1) this assms(3,4)] show ?thesis by (auto simp: new_keys_def)
qed

definition sample_letter :: "nat \<Rightarrow> string \<Rightarrow> string option \<Rightarrow> int option \<Rightarrow> letter" where
  "sample_letter i m re d = \<lparr>th_id = i, th_account = 1, th_msg = Some m, th_reply = re, th_refs = None, th_gmail = None,
     th_key = Some ''old'', th_reason = None, th_date = d, th_deleted = False\<rparr>"

text \<open>A letter with two rows of one conversation, an answer, and an answer without a date.\<close>

definition sample_copy :: "nat \<Rightarrow> int option \<Rightarrow> letter" where
  "sample_copy i d = (sample_letter i ''<a>'' None d)\<lparr>th_gmail := Some ''7''\<rparr>"

definition sample_mailbox :: mailbox_db where
  "sample_mailbox = \<lparr>letters = [sample_letter 1 ''<b>'' (Some ''<a>'') (Some 2), sample_copy 2 (Some 1), sample_copy 4 (Some 3),
     sample_letter 3 ''<c>'' (Some ''<b>'') None], passes = (\<lambda>_. None)\<rparr>"

theorem recompute_ignores_interruptions_witness:
  "letters (snd (attempts 1 ''gmail'' ([(\<lambda>k. if k = 1 then Crash else Go, 1)] @ [(\<lambda>_. Go, 2)]) sample_mailbox))
     = assigned (map_of (rekey ''gmail'' (\<lambda>_. None) (walk_order 1 (letters sample_mailbox)))) (letters sample_mailbox)
   \<and> map th_key (letters (snd (attempts 1 ''gmail'' ([(\<lambda>k. if k = 1 then Crash else Go, 1)] @ [(\<lambda>_. Go, 2)]) sample_mailbox)))
     = [Some ''gmail:7'', Some ''gmail:7'', Some ''gmail:7'', Some ''gmail:7'']"
proof -
  have "mailbox_ok 1 ''gmail'' (letters sample_mailbox)" "no_pass 1 ''gmail'' sample_mailbox"
    by (code_simp, simp add: no_pass_def sample_mailbox_def)
  note R = recompute_ignores_interruptions [OF this, of "[(\<lambda>k. if k = 1 then Crash else Go, 1)]" 2]
  have "map th_key (assigned (map_of (rekey ''gmail'' (\<lambda>_. None) (walk_order 1 (letters sample_mailbox)))) (letters sample_mailbox))
     = [Some ''gmail:7'', Some ''gmail:7'', Some ''gmail:7'', Some ''gmail:7'']"
    by code_simp
  then show ?thesis using R by auto
qed

lemma insort_last: "f x \<le> f r \<Longrightarrow> insort_key f x (ys @ [r]) = insort_key f x ys @ [r]"
  by (induction ys) auto

lemma sort_key_last: "\<forall>x\<in>set xs. f x \<le> f r \<Longrightarrow> sort_key f (xs @ [r]) = sort_key f xs @ [r]"
  by (induction xs) (auto simp: insort_last)

lemma live_is_row: "computeThreading t account (th_msg r) (th_reply r) (th_refs r) mode (th_gmail r) = threadingForRow r mode
    (fold (\<lambda>s m. m(the (th_msg s) := th_key s))
      (filter (\<lambda>s. th_account s = account \<and> (\<exists>c\<in>set (row_candidates r). th_msg s = Some c) \<and> th_key s \<noteq> None) t) (\<lambda>_. None))"
  unfolding computeThreading_def threadingForRow_def row_candidates_def Let_def by (rule refl)

lemma stored_is_resolved:
  assumes "\<forall>s\<in>set t. live_of account s \<and> up_to_cursor c s" and "cs \<noteq> []"
  shows "fold (\<lambda>s m. m(the (th_msg s) := th_key s))
      (filter (\<lambda>s. th_account s = account \<and> (\<exists>x\<in>set cs. th_msg s = Some x) \<and> th_key s \<noteq> None) t) (\<lambda>_. None)
    = fold (\<lambda>(i, k) m. m(i := k)) (resolveAncestors account cs c t) (\<lambda>_. None)"
proof -
  have "filter (\<lambda>s. th_account s = account \<and> (\<exists>x\<in>set cs. th_msg s = Some x) \<and> th_key s \<noteq> None) t
      = filter (\<lambda>s. live_of account s \<and> (\<exists>x\<in>set cs. th_msg s = Some x) \<and> th_key s \<noteq> None \<and> up_to_cursor c s) t"
    using assms(1) by (intro filter_cong refl) (auto simp: live_of_def)
  then show ?thesis using assms(2) by (simp add: resolveAncestors_def fold_map comp_def)
qed

lemma newest_last:
  assumes "live_of account r" and "th_date r \<noteq> None" and "\<forall>s\<in>set t. live_of account s \<and> th_date s \<noteq> None"
    and "\<forall>s\<in>set t. up_to_cursor (row_cursor r) s"
  shows "walk_order account (t @ [r]) = dated account t @ [r]"
proof -
  have "\<forall>s\<in>set t. (the (th_date s), th_id s) \<le> (the (th_date r), th_id r)" using up_to_row assms by blast
  moreover have "filter (\<lambda>s. live_of account s \<and> th_date s \<noteq> None) t = t" using assms(3) by (simp add: filter_id_conv)
  moreover have "selectUndated account (t @ [r]) = []" using assms(2,3) by (auto simp: selectUndated_def filter_empty_conv)
  ultimately show ?thesis using assms(1,2) by (simp add: walk_order_def dated_def sort_key_last)
qed

text \<open>C28: The live sync and the pass agree: on a mailbox whose keys a pass has derived, the key and the
  reason the sync gives the next letter (the newest of the mailbox) are those a pass over the mailbox
  with that letter gives it, by Gmail's number in gmail mode and by the same ancestors otherwise.
  No letter of the mailbox is deleted or without a date (the live sync would take the keys of those too), and copies of
  a letter have one key; the new letter may be a further copy.\<close>
theorem live_sync_agrees_with_the_pass:
  assumes okt: "mailbox_ok account mode t" and id: "th_id r \<notin> th_id ` set t" and all: "\<forall>s\<in>set t. live_of account s \<and> th_date s \<noteq> None"
    and r: "live_of account r" "th_date r \<noteq> None" and newest: "\<forall>s\<in>set t. \<not> after_cursor (row_cursor r) s"
  shows "map_of (rekey mode (\<lambda>_. None) (walk_order account (t @ [r]))) (th_id r)
    = Some (computeThreading (assigned (new_keys account mode t) t) account (th_msg r) (th_reply r) (th_refs r) mode (th_gmail r))"
proof -
  let ?T = "assigned (new_keys account mode t) t" and ?c = "row_cursor r" and ?m = "keys_after mode (\<lambda>_. None) (dated account t)"
  have up: "\<forall>s\<in>set t. up_to_cursor ?c s" using all newest up_to_iff by blast
  have done_all: "done_at account ?c t = dated account t" using up by (simp add: filter_id_conv set_dated)
  have walk: "walk_order account (t @ [r]) = dated account t @ [r]" by (rule newest_last [OF r all up])
  have "th_id r \<notin> th_id ` set (dated account t)" using id by (auto simp: set_dated)
  then have "map_of (rekey mode (\<lambda>_. None) (dated account t)) (th_id r) = None"
    using arg_cong [OF rekey_rows [of mode "\<lambda>_. None" "dated account t"], of set] by (auto simp: map_of_eq_None_iff)
  then have "map_of (rekey mode (\<lambda>_. None) (walk_order account (t @ [r]))) (th_id r) = Some (threadingForRow r mode ?m)"
    unfolding walk rekey_append by (simp add: map_add_def)
  also have "threadingForRow r mode ?m = computeThreading ?T account (th_msg r) (th_reply r) (th_refs r) mode (th_gmail r)"
    unfolding live_is_row
  proof (rule threading_cong)
    fix x assume x: "x \<in> set (row_candidates r)"
    have "\<forall>s\<in>set ?T. live_of account s \<and> up_to_cursor ?c s" using all up by (auto simp: assigned_def)
    from stored_is_resolved [OF this, of "row_candidates r"] x
      resolved_keys [OF okt, of ?c "new_keys account mode t" x "row_candidates r"] candidates_filled [OF x]
    show "?m x = fold (\<lambda>s m. m(the (th_msg s) := th_key s))
        (filter (\<lambda>s. th_account s = account \<and> (\<exists>c\<in>set (row_candidates r). th_msg s = Some c) \<and> th_key s \<noteq> None) ?T) (\<lambda>_. None) x"
      unfolding done_all by (cases "row_candidates r") auto
  qed
  finally show ?thesis .
qed

theorem live_sync_agrees_with_the_pass_witness:
  "map_of (rekey ''rfc'' (\<lambda>_. None) (walk_order 1 ([sample_letter 2 ''<a>'' None (Some 1)] @ [sample_letter 1 ''<b>'' (Some ''<a>'') (Some 2)]))) 1
     = Some (computeThreading (assigned (new_keys 1 ''rfc'' [sample_letter 2 ''<a>'' None (Some 1)]) [sample_letter 2 ''<a>'' None (Some 1)])
         1 (Some ''<b>'') (Some ''<a>'') None ''rfc'' None)"
proof -
  have "mailbox_ok 1 ''rfc'' [sample_letter 2 ''<a>'' None (Some 1)]" by code_simp
  from live_sync_agrees_with_the_pass [OF this, where r = "sample_letter 1 ''<b>'' (Some ''<a>'') (Some 2)"] show ?thesis
    by (simp add: sample_letter_def live_of_def after_cursor_def row_cursor_def)
qed

end
