(* ===== verification/Expunge.thy ===== *)
theory Expunge
  imports Claims
begin

text \<open>
  Claims of a permanent delete (\<open>services/expungeClaims.js\<close>): letters deleted for good are claimed
  before the mail server deletes them, and their rows go after it did. A token is the random UUID of
  one delete; the time is the database's \<open>now()\<close>.
\<close>

section \<open>The statements\<close>

record letter_row =
  er_id :: string
  er_uid :: int
  er_folder :: string
  er_read :: bool
  er_claim :: "string option"
  er_at :: "time_ms option"

definition EXPUNGE_CLAIM_LEASE_MS :: int where
  "EXPUNGE_CLAIM_LEASE_MS = 10 * 60 * 1000"

definition named :: "string \<Rightarrow> (string \<times> int) list \<Rightarrow> letter_row \<Rightarrow> bool" where
  "named folder rows r \<longleftrightarrow> (er_id r, er_uid r) \<in> set rows \<and> er_folder r = folder"

definition claimForExpunge :: "string \<Rightarrow> string \<Rightarrow> (string \<times> int) list \<Rightarrow> time_ms \<Rightarrow> letter_row list \<Rightarrow> (string \<times> bool) list \<times> letter_row list" where
  "claimForExpunge token folder rows t db =
     (let p = (\<lambda>r. named folder rows r \<and> er_claim r = None); f = (\<lambda>r. r\<lparr>er_claim := Some token, er_at := Some t\<rparr>)
      in (map (\<lambda>r. (er_id r, er_read r)) (sql_returning p f db), sql_update p f db))"

definition finishExpunge :: "string \<Rightarrow> string \<Rightarrow> (string \<times> int) list \<Rightarrow> letter_row list \<Rightarrow> (string \<times> bool) list \<times> letter_row list" where
  "finishExpunge token folder rows db =
     (if rows = [] then ([], db)
      else let p = (\<lambda>r. named folder rows r \<and> er_claim r = Some token)
           in (map (\<lambda>r. (er_id r, er_read r)) (filter p db), sql_delete p db))"

definition unclaimed :: "letter_row \<Rightarrow> letter_row" where
  "unclaimed r = r\<lparr>er_claim := None, er_at := None\<rparr>"

definition releaseExpungeClaim :: "string \<Rightarrow> string list \<Rightarrow> letter_row list \<Rightarrow> letter_row list" where
  "releaseExpungeClaim token ids db =
     (if ids = [] then db else sql_update (\<lambda>r. er_id r \<in> set ids \<and> er_claim r = Some token) unclaimed db)"

definition stale :: "int \<Rightarrow> time_ms \<Rightarrow> letter_row \<Rightarrow> bool" where
  "stale lease t r \<longleftrightarrow> er_claim r \<noteq> None \<and> (case er_at r of Some a \<Rightarrow> a \<le> t - lease | None \<Rightarrow> False)"

definition releaseStaleExpungeClaims :: "int \<Rightarrow> time_ms \<Rightarrow> letter_row list \<Rightarrow> nat \<times> letter_row list" where
  "releaseStaleExpungeClaims lease t db = (length (filter (stale lease t) db), sql_update (stale lease t) unclaimed db)"

section \<open>Deletes as claims\<close>

datatype expunge_op = Finish string string "(string \<times> int) list" | Release string "string list" | Sweep int time_ms

fun expunge_other :: "expunge_op \<Rightarrow> letter_row list \<Rightarrow> letter_row list" where
  "expunge_other (Finish token folder rows) db = snd (finishExpunge token folder rows db)"
| "expunge_other (Release token ids) db = releaseExpungeClaim token ids db"
| "expunge_other (Sweep lease t) db = snd (releaseStaleExpungeClaims lease t db)"

type_synonym expunge_claim = "string \<times> string \<times> (string \<times> int) list \<times> time_ms"

definition expunge_claim :: "expunge_claim \<Rightarrow> letter_row list \<Rightarrow> string list \<times> letter_row list" where
  "expunge_claim c db = (case c of (token, folder, rows, t) \<Rightarrow>
     (map fst (fst (claimForExpunge token folder rows t db)), snd (claimForExpunge token folder rows t db)))"

definition unclaimed_letter :: "letter_row list \<Rightarrow> string \<Rightarrow> bool" where
  "unclaimed_letter db i \<longleftrightarrow> (\<exists>r\<in>set db. er_id r = i \<and> er_claim r = None)"

definition letters_ok :: "letter_row list \<Rightarrow> bool" where
  "letters_ok db \<longleftrightarrow> distinct (map er_id db)"

lemma letter_eq: "letters_ok db \<Longrightarrow> a \<in> set db \<Longrightarrow> b \<in> set db \<Longrightarrow> er_id a = er_id b \<Longrightarrow> a = b"
  by (auto simp: letters_ok_def distinct_map dest: inj_onD)

lemma claim_handed: "fst (expunge_claim (token, folder, rows, t) db) = map er_id (filter (\<lambda>r. named folder rows r \<and> er_claim r = None) db)"
  by (simp add: expunge_claim_def claimForExpunge_def Let_def sql_returning_def)

lemma claim_rows_after: "snd (expunge_claim (token, folder, rows, t) db)
    = map (\<lambda>r. if named folder rows r \<and> er_claim r = None then r\<lparr>er_claim := Some token, er_at := Some t\<rparr> else r) db"
  by (simp add: expunge_claim_def claimForExpunge_def Let_def sql_update_def)

interpretation deletes: claims letters_ok unclaimed_letter expunge_claim expunge_other
proof
  fix db :: "letter_row list" and c :: expunge_claim and i and r :: expunge_op
  obtain token folder rows t where c: "c = (token, folder, rows, t)" by (cases c)
  assume ok: "letters_ok db"
  show "letters_ok (snd (expunge_claim c db))"
    using ok by (simp add: c letters_ok_def claim_rows_after o_def if_distrib cong: if_cong)
  show "letters_ok (expunge_other r db)"
    using ok by (cases r) (simp_all add: letters_ok_def finishExpunge_def releaseExpungeClaim_def releaseStaleExpungeClaims_def
        unclaimed_def Let_def distinct_update distinct_delete)
  show "distinct (fst (expunge_claim c db))"
    using ok by (simp add: c claim_handed letters_ok_def distinct_map_filter)
  show "i \<in> set (fst (expunge_claim c db)) \<Longrightarrow> unclaimed_letter db i"
    by (auto simp: c claim_handed unclaimed_letter_def)
  show "unclaimed_letter (snd (expunge_claim c db)) i \<Longrightarrow> unclaimed_letter db i"
    by (auto simp: c claim_rows_after unclaimed_letter_def split: if_splits)
  show "i \<in> set (fst (expunge_claim c db)) \<Longrightarrow> \<not> unclaimed_letter (snd (expunge_claim c db)) i"
    using letter_eq [OF ok] by (fastforce simp: c claim_handed claim_rows_after unclaimed_letter_def split: if_splits)
qed

text \<open>What a finished delete removed: the rows it still held, at the place it claimed them.\<close>

lemma finish_removes: "r \<in> set db \<and> r \<notin> set (snd (finishExpunge token folder rows db))
    \<longleftrightarrow> r \<in> set db \<and> named folder rows r \<and> er_claim r = Some token"
  by (cases rows) (auto simp: finishExpunge_def Let_def sql_delete_def named_def)

text \<open>C29: Whatever claims, finished deletes, releases and sweeps come in whatever order, a letter is handed
  to a permanent delete at most once more often than it was released; a delete removes exactly the rows
  its token still holds at the folder and uid it claimed them at, so a row a sweep took back and another
  delete claimed stays.\<close>
theorem letters_deleted_by_their_claim:
  assumes "letters_ok db" and "claim_run unclaimed_letter expunge_claim expunge_other i ops db = (handed, released, db')"
  shows "handed \<le> Suc released \<and> letters_ok db'
    \<and> (\<forall>r. r \<in> set db' \<and> r \<notin> set (snd (finishExpunge token folder rows db'))
         \<longleftrightarrow> r \<in> set db' \<and> named folder rows r \<and> er_claim r = Some token)"
  using deletes.handed_at_most_once_per_release [OF assms] deletes.handed_balance [OF assms] finish_removes by blast

definition ex_letters :: "letter_row list" where
  "ex_letters = [\<lparr>er_id = ''m'', er_uid = 4, er_folder = ''Trash'', er_read = True, er_claim = None, er_at = None\<rparr>]"

theorem letters_deleted_by_their_claim_witness:
  "case claim_run unclaimed_letter expunge_claim expunge_other ''m'' [Inl (''a'', ''Trash'', [(''m'', 4)], 0),
       Inr (Sweep EXPUNGE_CLAIM_LEASE_MS 600000), Inl (''b'', ''Trash'', [(''m'', 4)], 600001), Inl (''c'', ''Trash'', [(''m'', 4)], 600002)] ex_letters
   of (handed, released, db) \<Rightarrow> handed = 2 \<and> handed \<le> Suc released \<and> snd (finishExpunge ''a'' ''Trash'' [(''m'', 4)] db) = db"
proof -
  let ?ops = "[Inl (''a'', ''Trash'', [(''m'', 4)], 0), Inr (Sweep EXPUNGE_CLAIM_LEASE_MS 600000),
    Inl (''b'', ''Trash'', [(''m'', 4)], 600001), Inl (''c'', ''Trash'', [(''m'', 4)], 600002)]"
  let ?r = "claim_run unclaimed_letter expunge_claim expunge_other ''m'' ?ops ex_letters"
  have ok: "letters_ok ex_letters" by (simp add: letters_ok_def ex_letters_def)
  have "?r = (fst ?r, fst (snd ?r), snd (snd ?r))" by simp
  note p = letters_deleted_by_their_claim [OF ok this]
  have "fst ?r = 2 \<and> snd (finishExpunge ''a'' ''Trash'' [(''m'', 4)] (snd (snd ?r))) = snd (snd ?r)" by code_simp
  then show ?thesis using p by (simp add: case_prod_unfold)
qed

end
