(* ===== verification/Networks.thy ===== *)
theory Networks
  imports Rex "HOL-Library.Word" "HOL-Library.List_Lexorder" "HOL-Library.Char_ord"
begin

unbundle bit_operations_syntax

text \<open>
  Networks of mail servers (\<open>services/mailNode/eopRanges.js\<close>). \<open>isIP\<close> is node's; a zone
  (\<open>%eth0\<close>), which no network of a mail server carries, makes an address no address here. A
  BigInt is an \<open>int\<close> with HOL's operations on the bits of an integer of any size.
\<close>

section \<open>Addresses as text\<close>

definition dec_octet :: "string \<Rightarrow> bool" where
  "dec_octet p \<longleftrightarrow> p \<noteq> [] \<and> length p \<le> 3 \<and> list_all js_digit p \<and> (length p = 1 \<or> hd p \<noteq> CHR ''0'') \<and> digits_value 0 p \<le> 255"

definition isIPv4 :: "string \<Rightarrow> bool" where
  "isIPv4 s \<longleftrightarrow> (let parts = split_on (CHR ''.'') s in length parts = 4 \<and> list_all dec_octet parts)"

text \<open>The text before and after the first \<open>::\<close>.\<close>

fun split_gap :: "string \<Rightarrow> string \<times> string option" where
  "split_gap (a # b # cs) = (if a = CHR '':'' \<and> b = CHR '':'' then ([], Some cs) else apfst ((#) a) (split_gap (b # cs)))"
| "split_gap cs = (cs, None)"

definition groups_in :: "string \<Rightarrow> string list" where
  "groups_in s = (if s = [] then [] else split_on (CHR '':'') s)"

definition hex_group :: "string \<Rightarrow> bool" where
  "hex_group g \<longleftrightarrow> g \<noteq> [] \<and> length g \<le> 4 \<and> list_all hex_digit g"

text \<open>Groups of an address, the last of which may be a dotted quad that counts for two; their number.\<close>

fun groups_ok :: "bool \<Rightarrow> string list \<Rightarrow> nat option" where
  "groups_ok final [] = Some 0"
| "groups_ok final [g] = (if hex_group g then Some 1 else if final \<and> isIPv4 g then Some 2 else None)"
| "groups_ok final (g # gs) = (if hex_group g then map_option Suc (groups_ok final gs) else None)"

definition isIPv6 :: "string \<Rightarrow> bool" where
  "isIPv6 s \<longleftrightarrow> (case split_gap (js_lower s) of
     (head, None) \<Rightarrow> groups_ok True (groups_in head) = Some 8
   | (head, Some tail) \<Rightarrow> (case (groups_ok False (groups_in head), groups_ok True (groups_in tail)) of
       (Some m, Some n) \<Rightarrow> m + n \<le> 7 | _ \<Rightarrow> False))"

definition isIP :: "string \<Rightarrow> nat" where
  "isIP s = (if isIPv4 s then 4 else if isIPv6 s then 6 else 0)"

section \<open>Addresses as numbers\<close>

definition hex_char :: "nat \<Rightarrow> char" where
  "hex_char n = (if n < 10 then char_of (48 + n) else char_of (87 + n))"

fun hex_text :: "nat \<Rightarrow> string" where
  "hex_text n = (if n < 16 then [hex_char n] else hex_text (n div 16) @ [hex_char (n mod 16)])"

declare hex_text.simps [simp del]

text \<open>An IPv4 tail as two groups.\<close>

definition quad_as_groups :: "string \<Rightarrow> string" where
  "quad_as_groups text = (if CHR ''.'' \<notin> set text then text
     else let cut = (case last_index (CHR '':'') text of Some i \<Rightarrow> Suc i | None \<Rightarrow> 0);
              v4 = map (digits_value 0) (split_on (CHR ''.'') (drop cut text))
          in take cut text @ hex_text (256 * v4 ! 0 + v4 ! 1) @ '':'' @ hex_text (256 * v4 ! 2 + v4 ! 3))"

definition groups_of :: "string \<Rightarrow> nat list" where
  "groups_of text = (case split_gap (quad_as_groups text) of (head, tail) \<Rightarrow>
     let left = groups_in head; right = groups_in (case tail of Some t \<Rightarrow> t | None \<Rightarrow> []);
         groups = (if tail = None then left else left @ replicate (8 - length left - length right) ''0'' @ right)
     in map (\<lambda>g. hex_number 0 (if g = [] then ''0'' else g)) groups)"

definition addressBits :: "string \<Rightarrow> (nat \<times> int) option" where
  "addressBits address = (let family = isIP address in
     if family = 4 then Some (family, foldl (\<lambda>n p. push_bit 8 n + int (digits_value 0 p)) 0 (split_on (CHR ''.'') address))
     else if family \<noteq> 6 then None
     else Some (family, foldl (\<lambda>n g. push_bit 16 n + int g) 0 (groups_of (js_lower address))))"

section \<open>Networks\<close>

record network =
  nw_family :: nat
  nw_first :: int
  nw_last :: int

definition short_number :: "string \<Rightarrow> bool" where
  "short_number s \<longleftrightarrow> 1 \<le> length s \<and> length s \<le> 3 \<and> list_all js_digit s"

definition networkOf :: "string option \<Rightarrow> network option" where
  "networkOf text = (let parts = split_on (CHR ''/'') (js_trim (case text of Some t \<Rightarrow> t | None \<Rightarrow> [])) in
     if length parts > 2 then None
     else case addressBits (parts ! 0) of
       None \<Rightarrow> None
     | Some (family, v) \<Rightarrow>
         let bits = (if family = 4 then 32 else 128);
             size = (if length parts < 2 then bits else digits_value 0 (parts ! 1))
         in if (length parts = 2 \<and> \<not> short_number (parts ! 1)) \<or> size > bits then None
            else let host = push_bit (bits - size) 1 - 1; first = v AND NOT host
                 in Some \<lparr>nw_family = family, nw_first = first, nw_last = first OR host\<rparr>)"

definition networksOverlap :: "string option \<Rightarrow> string option \<Rightarrow> bool" where
  "networksOverlap a b \<longleftrightarrow> (case (networkOf a, networkOf b) of
     (Some x, Some y) \<Rightarrow> nw_family x = nw_family y \<and> nw_first x \<le> nw_last y \<and> nw_first y \<le> nw_last x
   | _ \<Rightarrow> False)"

section \<open>The ranges of Exchange Online Protection\<close>

record ranges =
  rg_version :: string
  rg_ipv4 :: "string list"
  rg_ipv6 :: "string list"

definition EOP_RANGES :: ranges where
  "EOP_RANGES = \<lparr>rg_version = ''2026081400'', rg_ipv4 = [''40.92.0.0/15'', ''40.107.0.0/16'', ''52.100.0.0/14'', ''104.47.0.0/17''],
     rg_ipv6 = [''2a01:111:f400::/48'', ''2a01:111:f403::/48'']\<rparr>"

definition MIN_PREFIX :: "nat \<Rightarrow> nat" where
  "MIN_PREFIX family = (if family = 4 then 8 else 24)"

definition isCidr :: "string \<Rightarrow> nat \<Rightarrow> bool" where
  "isCidr text family \<longleftrightarrow> (let parts = split_on (CHR ''/'') text in
     length parts = 2 \<and> short_number (parts ! 1) \<and> isIP (parts ! 0) = family
     \<and> digits_value 0 (parts ! 1) \<le> (if family = 4 then 32 else 128) \<and> digits_value 0 (parts ! 1) \<ge> MIN_PREFIX family)"

definition eopRangeList :: "ranges option \<Rightarrow> (string \<times> string list) option" where
  "eopRangeList r = (case r of None \<Rightarrow> None
     | Some rg \<Rightarrow> let version = js_trim (rg_version rg); ipv6 = map js_lower (rg_ipv6 rg) in
         if version = [] \<or> rg_ipv4 rg = [] then None
         else if \<not> list_all (\<lambda>c. isCidr c 4) (rg_ipv4 rg) \<or> \<not> list_all (\<lambda>c. isCidr c 6) ipv6 then None
         else Some (version, js_set (rg_ipv4 rg @ ipv6)))"

record endpoint =
  ep_area :: string
  ep_ports :: string
  ep_ips :: "string list"

definition port_25 :: "endpoint \<Rightarrow> bool" where
  "port_25 e \<longleftrightarrow> ep_area e = ''Exchange'' \<and> ''25'' \<in> set (map js_trim (split_on (CHR '','') (ep_ports e)))"

definition rangesFromEndpoints :: "endpoint list \<Rightarrow> string list \<times> string list" where
  "rangesFromEndpoints es =
     (let cidrs = concat (map ep_ips (filter port_25 es)); family = (\<lambda>c. isIP (split_on (CHR ''/'') c ! 0))
      in (sort (js_set (filter (\<lambda>c. family c = 4) cidrs)), sort (js_set (filter (\<lambda>c. family c = 6) cidrs))))"

section \<open>What a network holds\<close>

text \<open>The address a network text names, and how many of its bits are fixed.\<close>

definition network_bits :: "string option \<Rightarrow> (nat \<times> int \<times> nat) option" where
  "network_bits text = (let parts = split_on (CHR ''/'') (js_trim (case text of Some t \<Rightarrow> t | None \<Rightarrow> [])) in
     if length parts > 2 then None
     else case addressBits (parts ! 0) of
       None \<Rightarrow> None
     | Some (family, v) \<Rightarrow>
         let bits = (if family = 4 then 32 else 128); size = (if length parts < 2 then bits else digits_value 0 (parts ! 1))
         in if (length parts = 2 \<and> \<not> short_number (parts ! 1)) \<or> size > bits then None else Some (family, v, bits - size))"

text \<open>An address \<open>n\<close> is in a network when it agrees with the network's address above its free bits.\<close>

definition network_holds :: "string option \<Rightarrow> nat \<Rightarrow> int \<Rightarrow> bool" where
  "network_holds text family n \<longleftrightarrow> (case network_bits text of None \<Rightarrow> False
     | Some (f, v, k) \<Rightarrow> f = family \<and> n div 2 ^ k = v div 2 ^ k)"

lemma network_low_bits: "push_bit k (1 :: int) - 1 = mask k"
  by (simp add: mask_eq_exp_minus_1 push_bit_eq_mult)

lemma first_address: "(v :: int) AND NOT (mask k) = push_bit k (drop_bit k v)"
  by (rule bit_eqI) (auto simp: bit_simps)

lemma last_address: "push_bit k (w :: int) OR mask k = w * 2 ^ k + (2 ^ k - 1)"
proof -
  have "push_bit k w + mask k = push_bit k w OR mask k"
    by (rule disjunctive_add_eq_or) (auto simp: bit_eq_iff bit_simps)
  then show ?thesis by (simp add: push_bit_eq_mult mask_eq_exp_minus_1)
qed

lemma networkOf_bits: "networkOf text = (case network_bits text of None \<Rightarrow> None
    | Some (f, v, k) \<Rightarrow> Some \<lparr>nw_family = f, nw_first = (v div 2 ^ k) * 2 ^ k, nw_last = (v div 2 ^ k) * 2 ^ k + (2 ^ k - 1)\<rparr>)"
  unfolding networkOf_def network_bits_def Let_def network_low_bits first_address last_address
  by (simp add: push_bit_eq_mult drop_bit_eq_div split: option.split)

lemma in_block: "(q :: int) * 2 ^ k \<le> n \<and> n \<le> q * 2 ^ k + (2 ^ k - 1) \<longleftrightarrow> n div 2 ^ k = q"
proof
  assume h: "q * 2 ^ k \<le> n \<and> n \<le> q * 2 ^ k + (2 ^ k - 1)"
  show "n div 2 ^ k = q" by (rule int_div_pos_eq [where r = "n - q * 2 ^ k"]) (use h in \<open>auto simp: algebra_simps\<close>)
next
  assume h: "n div 2 ^ k = q"
  have "n = q * 2 ^ k + n mod 2 ^ k" using div_mult_mod_eq [of n "2 ^ k"] h by simp
  moreover have "0 \<le> n mod 2 ^ k" "n mod 2 ^ k < 2 ^ k" by simp_all
  ultimately show "q * 2 ^ k \<le> n \<and> n \<le> q * 2 ^ k + (2 ^ k - 1)" by linarith
qed

lemma holds_iff: "network_holds text family n \<longleftrightarrow> (\<exists>x. networkOf text = Some x \<and> nw_family x = family \<and> nw_first x \<le> n \<and> n \<le> nw_last x)"
  by (auto simp: network_holds_def networkOf_bits in_block split: option.splits prod.splits)

text \<open>A text without a zone of an IPv6 address.\<close>

definition zoneless :: "string option \<Rightarrow> bool" where
  "zoneless text \<longleftrightarrow> (case text of Some t \<Rightarrow> CHR ''%'' \<notin> set t | None \<Rightarrow> True)"

text \<open>Of two networks that share an address one holds the other.\<close>

lemma blocks_nested:
  assumes "(n :: int) div 2 ^ k = v div 2 ^ k" and "n div 2 ^ l = w div 2 ^ l" and "k \<le> l" and "m div 2 ^ k = v div 2 ^ k"
  shows "m div 2 ^ l = w div 2 ^ l"
proof -
  have split: "x div 2 ^ l = x div 2 ^ k div 2 ^ (l - k)" for x :: int
    using drop_bit_drop_bit [of "l - k" k x] assms(3) by (simp add: drop_bit_eq_div)
  show ?thesis using assms(1,2,4) by (simp add: split)
qed

lemma networks_nested:
  assumes "network_holds a f n" and "network_holds b f n"
  shows "(\<forall>g m. network_holds a g m \<longrightarrow> network_holds b g m) \<or> (\<forall>g m. network_holds b g m \<longrightarrow> network_holds a g m)"
proof -
  obtain v k where a: "network_bits a = Some (f, v, k)" "n div 2 ^ k = v div 2 ^ k"
    using assms(1) by (auto simp: network_holds_def split: option.splits prod.splits)
  obtain w l where b: "network_bits b = Some (f, w, l)" "n div 2 ^ l = w div 2 ^ l"
    using assms(2) by (auto simp: network_holds_def split: option.splits prod.splits)
  show ?thesis
  proof (cases "k \<le> l")
    case True
    then show ?thesis using a b blocks_nested [OF a(2) b(2) True] by (auto simp: network_holds_def)
  next
    case False
    then have "l \<le> k" by simp
    then show ?thesis using a b blocks_nested [OF b(2) a(2)] by (auto simp: network_holds_def)
  qed
qed

text \<open>C32: Two networks of forwarding hosts are said to overlap exactly when some address lies in both:
  an address agrees with a network above the bits its prefix leaves free. Such networks are always
  nested: one holds every address of the other. A text that is not a network overlaps nothing; a text
  with a zone is out of the model.\<close>
theorem networks_overlap_iff_they_share_an_address:
  assumes "zoneless a" and "zoneless b"
  shows "(networksOverlap a b \<longleftrightarrow> (\<exists>f n. network_holds a f n \<and> network_holds b f n))
   \<and> (networksOverlap a b \<longrightarrow> (\<forall>f n. network_holds a f n \<longrightarrow> network_holds b f n) \<or> (\<forall>f n. network_holds b f n \<longrightarrow> network_holds a f n))"
proof -
  have ordered: "nw_first x \<le> nw_last x" if "networkOf t = Some x" for t x
    using that by (auto simp: networkOf_bits split: option.splits prod.splits)
  have "networksOverlap a b \<longleftrightarrow> (\<exists>f n. network_holds a f n \<and> network_holds b f n)"
  proof
    assume "networksOverlap a b"
    then obtain x y where xy: "networkOf a = Some x" "networkOf b = Some y" "nw_family x = nw_family y"
        "nw_first x \<le> nw_last y" "nw_first y \<le> nw_last x"
      by (auto simp: networksOverlap_def split: option.splits)
    then show "\<exists>f n. network_holds a f n \<and> network_holds b f n"
      using ordered [OF xy(1)] ordered [OF xy(2)]
      by (intro exI [of _ "nw_family x"] exI [of _ "max (nw_first x) (nw_first y)"]) (auto simp: holds_iff)
  next
    assume "\<exists>f n. network_holds a f n \<and> network_holds b f n"
    then show "networksOverlap a b" by (auto simp: holds_iff networksOverlap_def)
  qed
  then show ?thesis using networks_nested by blast
qed

theorem networks_overlap_iff_they_share_an_address_witness:
  "networksOverlap (Some ''40.93.0.0'') (Some ''40.92.0.0/15'')"
proof -
  have "network_holds (Some ''40.93.0.0'') 4 (40 * 2 ^ 24 + 93 * 2 ^ 16)"
    "network_holds (Some ''40.92.0.0/15'') 4 (40 * 2 ^ 24 + 93 * 2 ^ 16)" by code_simp+
  moreover have "zoneless (Some ''40.93.0.0'')" "zoneless (Some ''40.92.0.0/15'')" by code_simp+
  ultimately show ?thesis using networks_overlap_iff_they_share_an_address [of "Some ''40.93.0.0''" "Some ''40.92.0.0/15''"] by blast
qed

end
