(* ===== verification/Hosts.thy ===== *)
theory Hosts
  imports Networks
begin

text \<open>
  Which hosts a connection may go to (\<open>services/hostValidation.js\<close>): a mailbox's server is named by
  its user, so literal addresses, names that resolve to private ones and every spelling of them are
  refused, and the connection is pinned to the addresses that were checked. The resolvers, the URL
  parser's reading of a host, IDNA and the hosts file are arguments, and so is what node takes for a
  zone of an IPv6 address.
\<close>

section \<open>IPv4\<close>

definition ipv4ToLong :: "string \<Rightarrow> 32 word" where
  "ipv4ToLong ip = (let parts = map (\<lambda>p. word_of_nat (digits_value 0 p)) (split_on (CHR ''.'') ip)
     in push_bit 24 (parts ! 0) OR push_bit 16 (parts ! 1) OR push_bit 8 (parts ! 2) OR parts ! 3)"

definition inCidr :: "string \<Rightarrow> string \<Rightarrow> nat \<Rightarrow> bool" where
  "inCidr ip base bits \<longleftrightarrow> (let mask = (if bits = 0 then 0 else push_bit (32 - bits) (NOT 0))
     in (ipv4ToLong ip AND mask) = (ipv4ToLong base AND mask))"

definition isPrivateIPv4 :: "string \<Rightarrow> bool" where
  "isPrivateIPv4 ip \<longleftrightarrow> inCidr ip ''0.0.0.0'' 8 \<or> inCidr ip ''10.0.0.0'' 8 \<or> inCidr ip ''100.64.0.0'' 10 \<or> inCidr ip ''127.0.0.0'' 8
     \<or> inCidr ip ''169.254.0.0'' 16 \<or> inCidr ip ''172.16.0.0'' 12 \<or> inCidr ip ''192.0.0.0'' 24 \<or> inCidr ip ''192.168.0.0'' 16
     \<or> inCidr ip ''198.18.0.0'' 15 \<or> inCidr ip ''240.0.0.0'' 4 \<or> ip = ''255.255.255.255''"

section \<open>IPv6\<close>

definition PRIVATE_IPV6 :: "(string \<times> nat) list" where
  "PRIVATE_IPV6 = [(''::'', 96), (''::ffff:0:0:0'', 96), (''64:ff9b:1::'', 48), (''100::'', 64), (''2001::'', 32), (''fc00::'', 7),
     (''fe80::'', 10), (''fec0::'', 10), (''ff00::'', 8)]"

definition v6_number :: "nat list \<Rightarrow> int" where
  "v6_number g = foldl (\<lambda>n x. push_bit 16 n + int x) 0 g"

definition in_list :: "(string \<times> nat) list \<Rightarrow> nat list \<Rightarrow> bool" where
  "in_list nets g \<longleftrightarrow> list_ex (\<lambda>(base, bits). drop_bit (128 - bits) (v6_number g) = drop_bit (128 - bits) (v6_number (groups_of base))) nets"

definition ipv6Groups :: "string \<Rightarrow> nat list" where
  "ipv6Groups ip = groups_of (takeWhile (\<lambda>c. c \<noteq> CHR ''%'') (js_lower ip))"

definition ipv4FromGroups :: "nat \<Rightarrow> nat \<Rightarrow> string" where
  "ipv4FromGroups hi lo = nat_text (drop_bit 8 hi) @ ''.'' @ nat_text (take_bit 8 hi) @ ''.'' @ nat_text (drop_bit 8 lo) @ ''.'' @ nat_text (take_bit 8 lo)"

definition private_groups :: "nat list \<Rightarrow> bool" where
  "private_groups g = (if list_all (\<lambda>x. x = 0) (take 5 g) \<and> g ! 5 = 0xffff then isPrivateIPv4 (ipv4FromGroups (g ! 6) (g ! 7))
     else if g ! 0 = 0x64 \<and> g ! 1 = 0xff9b \<and> list_all (\<lambda>x. x = 0) (take 4 (drop 2 g)) then isPrivateIPv4 (ipv4FromGroups (g ! 6) (g ! 7))
     else if g ! 0 = 0x2002 \<and> isPrivateIPv4 (ipv4FromGroups (g ! 1) (g ! 2)) then True
     else in_list PRIVATE_IPV6 g)"

definition isPrivateIPv6 :: "string \<Rightarrow> bool" where
  "isPrivateIPv6 ip = private_groups (ipv6Groups ip)"

section \<open>Literal hosts\<close>

record net_env =
  ev_zone :: "string \<Rightarrow> bool"
  ev_url :: "string \<Rightarrow> string option"
  ev_ascii :: "string \<Rightarrow> string"
  ev_resolve4 :: "string \<Rightarrow> string list option"
  ev_resolve6 :: "string \<Rightarrow> string list option"
  ev_lookup :: "string \<Rightarrow> string list option"
  ev_hosts :: "string option"

text \<open>node's \<open>isIPv6\<close>, with a zone.\<close>

definition is_v6 :: "net_env \<Rightarrow> string \<Rightarrow> bool" where
  "is_v6 env s \<longleftrightarrow> isIPv6 (takeWhile (\<lambda>c. c \<noteq> CHR ''%'') s) \<and> (CHR ''%'' \<in> set s \<longrightarrow> ev_zone env (tl (dropWhile (\<lambda>c. c \<noteq> CHR ''%'') s)))"

definition inetAtonIPv4 :: "net_env \<Rightarrow> string \<Rightarrow> string option" where
  "inetAtonIPv4 env host = (if host = [] \<or> \<not> list_all (\<lambda>c. hex_digit c \<or> c = CHR ''x'' \<or> c = CHR ''.'') host then None
     else case ev_url env host of None \<Rightarrow> None | Some h \<Rightarrow> if isIPv4 h then Some h else None)"

definition strip_dots :: "string \<Rightarrow> string" where
  "strip_dots s = rev (dropWhile (\<lambda>c. c = CHR ''.'') (rev s))"

definition non_ascii :: "string \<Rightarrow> bool" where
  "non_ascii s \<longleftrightarrow> list_ex (\<lambda>c. (of_char c :: nat) > 127) s"

definition ends_in :: "string \<Rightarrow> string \<Rightarrow> bool" where
  "ends_in s e \<longleftrightarrow> length e \<le> length s \<and> drop (length s - length e) s = e"

definition local_name :: "string \<Rightarrow> bool" where
  "local_name name \<longleftrightarrow> name = ''localhost'' \<or> ends_in name ''.local'' \<or> ends_in name ''.localhost'' \<or> ends_in name ''.internal''"

text \<open>\<open>h.startsWith('[') && h.endsWith(']') ? h.slice(1, -1)\<close>.\<close>

definition bracketed :: "string \<Rightarrow> string option" where
  "bracketed h = (if h \<noteq> [] \<and> hd h = CHR ''['' \<and> last h = CHR '']'' then Some (butlast (tl h)) else None)"

definition bare_host :: "string \<Rightarrow> string" where
  "bare_host h = (case bracketed h of Some b \<Rightarrow> b | None \<Rightarrow> h)"

definition checked_form :: "net_env \<Rightarrow> string \<Rightarrow> string option" where
  "checked_form env host = (let h = js_trim host in
     if non_ascii h then (let a = ev_ascii env h in if a = [] then None else Some (js_lower a)) else Some (js_lower h))"

definition validateHostLiteral :: "net_env \<Rightarrow> string \<Rightarrow> bool \<Rightarrow> string option" where
  "validateHostLiteral env host allowPrivate =
     (if host = [] \<or> allowPrivate then None
      else case checked_form env host of None \<Rightarrow> Some ''Host is not a valid hostname''
      | Some h \<Rightarrow>
          if local_name (strip_dots h) then Some ''Host cannot be a local address''
          else let bare = bare_host h; v4 = (if isIPv4 bare then Some bare else inetAtonIPv4 env bare)
          in if (case v4 of Some a \<Rightarrow> isPrivateIPv4 a | None \<Rightarrow> False) then Some ''Host cannot be a private or reserved IP address''
             else if is_v6 env bare \<and> isPrivateIPv6 bare then Some ''Host cannot be a private or reserved IP address''
             else None)"

section \<open>Names\<close>

text \<open>\<open>split(/\s+/)\<close> and \<open>split(/\r?\n/)\<close>.\<close>

function split_ws :: "string \<Rightarrow> string list" where
  "split_ws [] = [[]]"
| "split_ws (c # cs) = (if js_space c then [] # split_ws (dropWhile js_space cs)
     else (case split_ws cs of [] \<Rightarrow> [[c]] | w # ws \<Rightarrow> (c # w) # ws))"
  by pat_completeness auto
termination
  by (relation "measure length") (auto simp: less_Suc_eq_le length_dropWhile_le)

definition drop_cr :: "string \<Rightarrow> string" where
  "drop_cr s = (if s \<noteq> [] \<and> last s = CHR 0x0D then butlast s else s)"

definition file_lines :: "string \<Rightarrow> string list" where
  "file_lines text = (let ls = split_on (CHR 0x0A) text in map drop_cr (butlast ls) @ [last ls])"

text \<open>\<open>replace(/#.*/, '')\<close>: up to the end of the line, which a lone carriage return ends.\<close>

definition strip_comment :: "string \<Rightarrow> string" where
  "strip_comment s = takeWhile (\<lambda>c. c \<noteq> CHR ''#'') s @ dropWhile (\<lambda>c. c \<noteq> CHR 0x0D) (dropWhile (\<lambda>c. c \<noteq> CHR ''#'') s)"

definition hostsFileAddresses :: "net_env \<Rightarrow> string \<Rightarrow> string list" where
  "hostsFileAddresses env name =
     (let wanted = js_lower name
      in concat (map (\<lambda>line. case split_ws (js_trim (strip_comment line)) of
           [] \<Rightarrow> []
         | address # names \<Rightarrow>
             if address = [] \<or> \<not> (isIPv4 address \<or> is_v6 env address) then []
             else if list_ex (\<lambda>n. strip_dots (js_lower n) = wanted) names then [address] else [])
         (file_lines (case ev_hosts env of Some t \<Rightarrow> t | None \<Rightarrow> []))))"

definition resolveAddresses :: "net_env \<Rightarrow> string \<Rightarrow> string list" where
  "resolveAddresses env bare =
     (let canonical = (if non_ascii bare then ev_ascii env bare else bare);
          v4 = (case ev_resolve4 env canonical of Some xs \<Rightarrow> xs | None \<Rightarrow> []);
          v6 = (case ev_resolve6 env canonical of Some xs \<Rightarrow> xs | None \<Rightarrow> [])
      in if v4 \<noteq> [] \<or> v6 \<noteq> [] then v4 @ v6
         else let name = strip_dots canonical
              in if CHR ''.'' \<in> set name then hostsFileAddresses env name
                 else filter (\<lambda>a. a \<noteq> []) (case ev_lookup env name of Some xs \<Rightarrow> xs | None \<Rightarrow> []))"

definition private_address :: "net_env \<Rightarrow> string \<Rightarrow> bool" where
  "private_address env a \<longleftrightarrow> (isIPv4 a \<and> isPrivateIPv4 a) \<or> (is_v6 env a \<and> isPrivateIPv6 a)"

definition validateHost :: "net_env \<Rightarrow> string \<Rightarrow> bool \<Rightarrow> string option" where
  "validateHost env host allowPrivate = (case validateHostLiteral env host allowPrivate of
     Some e \<Rightarrow> Some e
   | None \<Rightarrow> let bare = bare_host (js_lower (js_trim host))
       in if isIPv4 bare \<or> is_v6 env bare then None
          else if \<not> allowPrivate \<and> list_ex (private_address env) (resolveAddresses env bare)
          then Some ''Host resolves to a private or reserved IP address'' else None)"

section \<open>The system resolver's slots\<close>

text \<open>Lookups running and lookups waiting, the oldest first.\<close>

record lookups =
  lk_running :: nat
  lk_waiting :: "nat list"

definition SYSTEM_LOOKUPS_AT_ONCE :: nat where
  "SYSTEM_LOOKUPS_AT_ONCE = 2"

text \<open>A lookup begins (and whether it starts at once); one ends (and which waiter starts).\<close>

definition lookup_begin :: "nat \<Rightarrow> lookups \<Rightarrow> bool \<times> lookups" where
  "lookup_begin i s = (if lk_running s \<ge> SYSTEM_LOOKUPS_AT_ONCE then (False, s\<lparr>lk_waiting := lk_waiting s @ [i]\<rparr>)
     else (True, s\<lparr>lk_running := lk_running s + 1\<rparr>))"

definition lookup_end :: "lookups \<Rightarrow> nat option \<times> lookups" where
  "lookup_end s = (case lk_waiting s of n # ns \<Rightarrow> (Some n, s\<lparr>lk_waiting := ns\<rparr>) | [] \<Rightarrow> (None, s\<lparr>lk_running := lk_running s - 1\<rparr>))"

section \<open>Connections\<close>

datatype pinned = NotFound | Every "(string \<times> nat) list" | One "string \<times> nat"

text \<open>The lookup a connection is given: the family asked for (0: any), and whether all are.\<close>

definition createPinnedLookup :: "string list \<Rightarrow> nat \<Rightarrow> bool \<Rightarrow> pinned" where
  "createPinnedLookup addresses family every =
     (let candidates = map (\<lambda>a. (a, if isIPv4 a then 4 else 6)) addresses;
          eligible = (if family \<noteq> 0 then filter (\<lambda>c. snd c = family) candidates else candidates)
      in if eligible = [] then NotFound else if every then Every eligible else One (hd eligible))"

record target =
  tg_host :: string
  tg_servername :: "string option"
  tg_addresses :: "string list"

definition resolveForConnection :: "net_env \<Rightarrow> string \<Rightarrow> bool \<Rightarrow> string + target" where
  "resolveForConnection env hostname allowPrivate = (case validateHostLiteral env hostname allowPrivate of
     Some e \<Rightarrow> Inl e
   | None \<Rightarrow>
       let h = js_trim hostname; bare = (case bracketed h of Some b \<Rightarrow> b | None \<Rightarrow> js_lower h)
       in if isIPv4 bare \<or> is_v6 env bare then Inr \<lparr>tg_host = h, tg_servername = None, tg_addresses = []\<rparr>
          else let resolved = resolveAddresses env bare
          in if \<not> allowPrivate \<and> list_ex (private_address env) resolved then Inl ''Host resolves to a private or reserved IP address''
             else let every = js_set resolved
             in if every = [] then Inr \<lparr>tg_host = h, tg_servername = None, tg_addresses = []\<rparr>
                else Inr \<lparr>tg_host = hd every, tg_servername = Some h, tg_addresses = every\<rparr>)"

end
