(* ===== verification/HostProperties.thy ===== *)
theory HostProperties
  imports Hosts
begin

text \<open>
  The properties of the hosts: which IPv4 addresses count as private, in every spelling, and that a
  connection is never pinned to one.
\<close>

section \<open>The table of private addresses\<close>

text \<open>The private and reserved ranges, by the numbers of a dotted quad.\<close>

definition private_quad :: "nat \<Rightarrow> nat \<Rightarrow> nat \<Rightarrow> bool" where
  "private_quad a b c \<longleftrightarrow> a = 0 \<or> a = 10 \<or> (a = 100 \<and> 64 \<le> b \<and> b \<le> 127) \<or> a = 127 \<or> (a = 169 \<and> b = 254)
     \<or> (a = 172 \<and> 16 \<le> b \<and> b \<le> 31) \<or> (a = 192 \<and> b = 0 \<and> c = 0) \<or> (a = 192 \<and> b = 168) \<or> (a = 198 \<and> 18 \<le> b \<and> b \<le> 19)
     \<or> a \<ge> 240"

lemma push_or_nat: "(y :: nat) < 2 ^ k \<Longrightarrow> push_bit k x OR y = x * 2 ^ k + y"
proof -
  assume y: "y < 2 ^ k"
  have "take_bit k y = y" using y by (simp add: take_bit_nat_eq_self)
  then have "\<not> bit y n" if "k \<le> n" for n using that by (metis bit_take_bit_iff not_less)
  then have "push_bit k x AND y = 0" by (auto simp: bit_eq_iff bit_simps)
  then have "push_bit k x + y = push_bit k x OR y" by (rule disjunctive_add_eq_or)
  then show ?thesis by (simp add: push_bit_eq_mult)
qed

lemma quad_number:
  assumes "a < 256" and "b < 256" and "c < 256" and "d < (256 :: nat)"
  shows "unat (push_bit 24 (word_of_nat a) OR push_bit 16 (word_of_nat b) OR push_bit 8 (word_of_nat c) OR word_of_nat d :: 32 word)
    = a * 2 ^ 24 + b * 2 ^ 16 + c * 2 ^ 8 + d"
proof -
  have "(push_bit 24 (word_of_nat a) OR push_bit 16 (word_of_nat b) OR push_bit 8 (word_of_nat c) OR word_of_nat d :: 32 word)
      = word_of_nat (push_bit 24 a OR (push_bit 16 b OR (push_bit 8 c OR d)))"
    by (simp add: of_nat_or_eq push_bit_of_nat or.assoc)
  also have "push_bit 24 a OR (push_bit 16 b OR (push_bit 8 c OR d)) = a * 2 ^ 24 + (b * 2 ^ 16 + (c * 2 ^ 8 + d))"
    using assms by (simp add: push_or_nat)
  finally have "push_bit 24 (word_of_nat a) OR push_bit 16 (word_of_nat b) OR push_bit 8 (word_of_nat c) OR word_of_nat d
    = (word_of_nat (a * 2 ^ 24 + (b * 2 ^ 16 + (c * 2 ^ 8 + d))) :: 32 word)" .
  moreover have "(a * 2 ^ 24 + (b * 2 ^ 16 + (c * 2 ^ 8 + d))) mod 2 ^ LENGTH(32) = a * 2 ^ 24 + (b * 2 ^ 16 + (c * 2 ^ 8 + d))"
    using assms by simp
  ultimately show ?thesis by (simp only: unat_of_nat add.assoc)
qed

lemma inCidr_iff:
  assumes "bits \<le> 32"
  shows "inCidr ip base bits \<longleftrightarrow> unat (ipv4ToLong ip) div 2 ^ (32 - bits) = unat (ipv4ToLong base) div 2 ^ (32 - bits)"
proof -
  have mask: "(if bits = 0 then 0 else push_bit (32 - bits) (NOT 0)) = (push_bit (32 - bits) (NOT 0) :: 32 word)"
    by (auto intro!: bit_word_eqI simp: bit_simps)
  have masked: "x AND push_bit k (NOT 0) = push_bit k (drop_bit k x)" for x :: "32 word" and k
    by (rule bit_word_eqI) (auto simp: bit_simps)
  have "push_bit k (drop_bit k x) = push_bit k (drop_bit k y) \<longleftrightarrow> drop_bit k x = drop_bit k y" for x y :: "32 word" and k
  proof
    assume "push_bit k (drop_bit k x) = push_bit k (drop_bit k y)"
    then have "drop_bit k (push_bit k (drop_bit k x)) = drop_bit k (push_bit k (drop_bit k y))" by simp
    moreover have "drop_bit k (push_bit k (drop_bit k z)) = drop_bit k z" for z :: "32 word"
      by (rule bit_word_eqI) (auto simp: bit_simps dest: bit_imp_le_length)
    ultimately show "drop_bit k x = drop_bit k y" by simp
  qed simp
  then have "inCidr ip base bits \<longleftrightarrow> drop_bit (32 - bits) (ipv4ToLong ip) = drop_bit (32 - bits) (ipv4ToLong base)"
    by (simp only: inCidr_def Let_def mask masked)
  also have "\<dots> \<longleftrightarrow> unat (drop_bit (32 - bits) (ipv4ToLong ip)) = unat (drop_bit (32 - bits) (ipv4ToLong base))" by (rule word_unat_eq_iff)
  also have "\<dots> \<longleftrightarrow> drop_bit (32 - bits) (unat (ipv4ToLong ip)) = drop_bit (32 - bits) (unat (ipv4ToLong base))"
    by (simp only: unat_drop_bit_eq)
  finally show ?thesis by (simp only: drop_bit_eq_div)
qed

lemma quad_parts:
  assumes "isIPv4 ip"
  obtains a b c d where "map (digits_value 0) (split_on (CHR ''.'') ip) = [a, b, c, d]" "a < 256" "b < 256" "c < 256" "d < 256"
proof -
  have "length (split_on (CHR ''.'') ip) = 4" "\<forall>p\<in>set (split_on (CHR ''.'') ip). digits_value 0 p \<le> 255"
    using assms by (auto simp: isIPv4_def Let_def list_all_iff dec_octet_def)
  then obtain p q r s where "split_on (CHR ''.'') ip = [p, q, r, s]" and "digits_value 0 p \<le> 255" "digits_value 0 q \<le> 255"
    "digits_value 0 r \<le> 255" "digits_value 0 s \<le> 255"
    by (auto simp: length_Suc_conv numeral_eq_Suc)
  then show thesis by (intro that) auto
qed

lemma quad_value:
  assumes "map (digits_value 0) (split_on (CHR ''.'') ip) = [a, b, c, d]" and "a < 256" "b < 256" "c < 256" "d < 256"
  shows "unat (ipv4ToLong ip) = a * 2 ^ 24 + b * 2 ^ 16 + c * 2 ^ 8 + d"
proof -
  have "map (\<lambda>p. word_of_nat (digits_value 0 p)) (split_on (CHR ''.'') ip) = (map word_of_nat [a, b, c, d] :: 32 word list)"
    unfolding assms(1) [symmetric] by simp
  then show ?thesis using quad_number [OF assms(2-5)] by (simp add: ipv4ToLong_def)
qed

lemma base_values:
  "unat (ipv4ToLong ''0.0.0.0'') = 0" "unat (ipv4ToLong ''10.0.0.0'') = 10 * 2 ^ 24" "unat (ipv4ToLong ''100.64.0.0'') = 100 * 2 ^ 24 + 64 * 2 ^ 16"
  "unat (ipv4ToLong ''127.0.0.0'') = 127 * 2 ^ 24" "unat (ipv4ToLong ''169.254.0.0'') = 169 * 2 ^ 24 + 254 * 2 ^ 16"
  "unat (ipv4ToLong ''172.16.0.0'') = 172 * 2 ^ 24 + 16 * 2 ^ 16" "unat (ipv4ToLong ''192.0.0.0'') = 192 * 2 ^ 24"
  "unat (ipv4ToLong ''192.168.0.0'') = 192 * 2 ^ 24 + 168 * 2 ^ 16" "unat (ipv4ToLong ''198.18.0.0'') = 198 * 2 ^ 24 + 18 * 2 ^ 16"
  "unat (ipv4ToLong ''240.0.0.0'') = 240 * 2 ^ 24"
  by (subst quad_value, code_simp, simp_all)+


text \<open>Prefixes of the base-256 number of a quad.\<close>

lemma quad_prefix:
  assumes "b < 256" "c < 256" "d < (256 :: nat)"
  shows "(a * 2 ^ 24 + b * 2 ^ 16 + c * 2 ^ 8 + d) div 2 ^ 24 = a" "(a * 2 ^ 24 + b * 2 ^ 16 + c * 2 ^ 8 + d) div 2 ^ 16 = a * 256 + b"
    "(a * 2 ^ 24 + b * 2 ^ 16 + c * 2 ^ 8 + d) div 2 ^ 8 = (a * 256 + b) * 256 + c"
  using assms by auto

lemma div_iff: "0 < m \<Longrightarrow> (x :: nat) div m = q \<longleftrightarrow> q * m \<le> x \<and> x < Suc q * m"
  by (metis less_eq_div_iff_mult_less_eq div_less_iff_less_mult eq_iff less_Suc_eq_le)

lemma block_iff:
  assumes "b < 256" and "hi \<le> (256 :: nat)"
  shows "A * 256 + lo \<le> a * 256 + b \<and> a * 256 + b < A * 256 + hi \<longleftrightarrow> a = A \<and> lo \<le> b \<and> b < hi"
proof (cases a A rule: linorder_cases)
  case less
  then have "a * 256 + 256 \<le> A * 256" by simp
  then show ?thesis using less assms by auto
next
  case greater
  then have "A * 256 + 256 \<le> a * 256" by simp
  then show ?thesis using greater assms by auto
qed auto

lemma pair_iff:
  assumes "b < 256" and "B < (256 :: nat)"
  shows "a * 256 + b = A * 256 + B \<longleftrightarrow> a = A \<and> b = B"
proof -
  have "a * 256 + b = A * 256 + B \<longleftrightarrow> A * 256 + B \<le> a * 256 + b \<and> a * 256 + b < A * 256 + Suc B" by auto
  then show ?thesis using block_iff [of b "Suc B" A B a] assms by auto
qed

lemma private_table:
  assumes "isIPv4 ip" and "map (digits_value 0) (split_on (CHR ''.'') ip) = [a, b, c, d]"
  shows "isPrivateIPv4 ip \<longleftrightarrow> private_quad a b c"
proof -
  have small: "a < 256" "b < 256" "c < 256" "d < 256"
    using quad_parts [OF assms(1)] assms(2) by (metis list.inject)+
  let ?n = "a * 2 ^ 24 + b * 2 ^ 16 + c * 2 ^ 8 + d"
  note v = quad_value [OF assms(2) small]
  have e8: "inCidr ip base 8 \<longleftrightarrow> a = unat (ipv4ToLong base) div 2 ^ 24" for base
    using inCidr_iff [of 8 ip base] quad_prefix [OF small(2-4), of a] by (simp add: v)
  have e16: "inCidr ip base 16 \<longleftrightarrow> a * 256 + b = unat (ipv4ToLong base) div 2 ^ 16" for base
    using inCidr_iff [of 16 ip base] quad_prefix [OF small(2-4), of a] by (simp add: v)
  have e24: "inCidr ip base 24 \<longleftrightarrow> (a * 256 + b) * 256 + c = unat (ipv4ToLong base) div 2 ^ 8" for base
    using inCidr_iff [of 24 ip base] quad_prefix [OF small(2-4), of a] by (simp add: v)
  have e: "inCidr ip base bits \<longleftrightarrow> (a * 256 + b) div 2 ^ (16 - bits) = unat (ipv4ToLong base) div 2 ^ 16 div 2 ^ (16 - bits)"
    if "bits \<le> 16" for base bits
  proof -
    have "x div 2 ^ (32 - bits) = x div 2 ^ 16 div 2 ^ (16 - bits)" for x :: nat
    proof -
      have "32 - bits = 16 + (16 - bits)" using that by simp
      then show ?thesis by (simp only: power_add div_mult2_eq)
    qed
    then show ?thesis
      using inCidr_iff [of bits ip base] quad_prefix(2) [OF small(2-4), of a] that by (simp only: v)
  qed
  have e10: "inCidr ip ''100.64.0.0'' 10 \<longleftrightarrow> a = 100 \<and> 64 \<le> b \<and> b \<le> 127"
    using block_iff [OF small(2), of 128 100 64 a] by (simp add: e base_values div_iff) auto
  have e12: "inCidr ip ''172.16.0.0'' 12 \<longleftrightarrow> a = 172 \<and> 16 \<le> b \<and> b \<le> 31"
    using block_iff [OF small(2), of 32 172 16 a] by (simp add: e base_values div_iff) auto
  have e15: "inCidr ip ''198.18.0.0'' 15 \<longleftrightarrow> a = 198 \<and> 18 \<le> b \<and> b \<le> 19"
    using block_iff [OF small(2), of 20 198 18 a] by (simp add: e base_values div_iff) auto
  have e4: "inCidr ip ''240.0.0.0'' 4 \<longleftrightarrow> 240 \<le> a"
    using small(1,2) by (simp add: e base_values div_iff) linarith
  have t8: "inCidr ip ''0.0.0.0'' 8 \<longleftrightarrow> a = 0" "inCidr ip ''10.0.0.0'' 8 \<longleftrightarrow> a = 10" "inCidr ip ''127.0.0.0'' 8 \<longleftrightarrow> a = 127"
    by (simp_all add: e8 base_values)
  have t16: "inCidr ip ''169.254.0.0'' 16 \<longleftrightarrow> a = 169 \<and> b = 254" "inCidr ip ''192.168.0.0'' 16 \<longleftrightarrow> a = 192 \<and> b = 168"
    using pair_iff [OF small(2), of 254 a 169] pair_iff [OF small(2), of 168 a 192] by (simp_all add: e16 base_values)
  have t24: "inCidr ip ''192.0.0.0'' 24 \<longleftrightarrow> a = 192 \<and> b = 0 \<and> c = 0"
    using pair_iff [OF small(3), of 0 "a * 256 + b" "192 * 256"] pair_iff [OF small(2), of 0 a 192] by (simp add: e24 base_values)
  have top: "ip = ''255.255.255.255'' \<Longrightarrow> 240 \<le> a" using assms(2) by (auto simp: split_on.simps)
  show ?thesis using top by (simp only: isPrivateIPv4_def t8 t16 t24 e10 e12 e15 e4 private_quad_def) blast
qed


section \<open>Addresses written from their numbers\<close>

lemma digit_char_all: "list_all (\<lambda>n. js_digit (digit_char n) \<and> of_char (digit_char n) = 48 + n
    \<and> (digit_char n = CHR ''0'' \<longleftrightarrow> n = 0) \<and> digit_char n \<noteq> CHR ''.'') [0..<10]"
  by code_simp

lemma digit_char_facts:
  assumes "n < 10"
  shows "js_digit (digit_char n)" "of_char (digit_char n) = 48 + n" "digit_char n = CHR ''0'' \<longleftrightarrow> n = 0" "digit_char n \<noteq> CHR ''.''"
  using digit_char_all assms unfolding list_all_iff by simp_all

lemma digits_value_snoc: "digits_value n (xs @ [c]) = 10 * digits_value n xs + (of_char c - 48)"
  by (induction xs arbitrary: n) auto

lemma digits_value_text: "digits_value 0 (nat_text n) = n"
proof (induction n rule: nat_text.induct)
  case (1 n)
  then show ?case by (subst nat_text.simps) (simp add: digits_value_snoc digit_char_facts)
qed

lemma nat_text_digits: "list_all js_digit (nat_text n) \<and> CHR ''.'' \<notin> set (nat_text n)"
proof (induction n rule: nat_text.induct)
  case (1 n)
  have d: "CHR ''.'' \<noteq> digit_char k" if "k < 10" for k using digit_char_facts(4) [OF that] by metis
  show ?case using 1 by (subst (1 2) nat_text.simps) (simp add: digit_char_facts d)
qed

lemma dec_octet_text:
  assumes "n < 256"
  shows "dec_octet (nat_text n)"
proof -
  have two: "nat_text k = (if k < 10 then [digit_char k] else [digit_char (k div 10), digit_char (k mod 10)])" if "k < 100" for k
    using that by (subst nat_text.simps, subst nat_text.simps) simp
  have "nat_text n = (if n < 10 then [digit_char n] else if n < 100 then [digit_char (n div 10), digit_char (n mod 10)]
      else [digit_char (n div 10 div 10), digit_char (n div 10 mod 10), digit_char (n mod 10)])"
    using assms two [of "n div 10"] two [of n] by (subst nat_text.simps) auto
  then have "length (nat_text n) \<le> 3 \<and> nat_text n \<noteq> [] \<and> (length (nat_text n) = 1 \<or> hd (nat_text n) \<noteq> CHR ''0'')"
    using assms by (auto simp: digit_char_facts)
  then show ?thesis using assms nat_text_digits by (simp add: dec_octet_def digits_value_text)
qed

lemma quad_text_parts: "split_on (CHR ''.'') (ipv4FromGroups hi lo)
    = [nat_text (hi div 256), nat_text (hi mod 256), nat_text (lo div 256), nat_text (lo mod 256)]"
  using nat_text_digits by (simp add: ipv4FromGroups_def split_on_join split_on_last drop_bit_eq_div take_bit_eq_mod)

lemma private_quad_text:
  assumes "hi < 2 ^ 16" and "lo < 2 ^ 16"
  shows "isPrivateIPv4 (ipv4FromGroups hi lo) \<longleftrightarrow> private_quad (hi div 256) (hi mod 256) (lo div 256)"
proof (rule private_table)
  show "isIPv4 (ipv4FromGroups hi lo)" using assms by (simp add: isIPv4_def quad_text_parts dec_octet_text)
  show "map (digits_value 0) (split_on (CHR ''.'') (ipv4FromGroups hi lo)) = [hi div 256, hi mod 256, lo div 256, lo mod 256]"
    by (simp add: quad_text_parts digits_value_text)
qed


section \<open>The properties\<close>

text \<open>The networks of the table lie apart from the 6to4 addresses, whose number begins with 2002.\<close>

lemma six_to_four_number:
  assumes "g < 2 ^ 16" "h < 2 ^ 16" "x < 2 ^ 16" "y < 2 ^ 16" "z < 2 ^ 16" "u < 2 ^ 16" "v < (2 ^ 16 :: nat)"
  shows "0x2002 * 2 ^ 112 \<le> v6_number [0x2002, g, h, x, y, z, u, v]" "v6_number [0x2002, g, h, x, y, z, u, v] < 0x2003 * 2 ^ 112"
  using assms by (simp_all add: v6_number_def push_bit_eq_mult)

lemma table_groups: "map (\<lambda>(base, bits). (groups_of base, bits)) PRIVATE_IPV6
    = [([0, 0, 0, 0, 0, 0, 0, 0], 96), ([0, 0, 0, 0, 0xffff, 0, 0, 0], 96), ([0x64, 0xff9b, 1, 0, 0, 0, 0, 0], 48), ([0x100, 0, 0, 0, 0, 0, 0, 0], 64),
       ([0x2001, 0, 0, 0, 0, 0, 0, 0], 32), ([0xfc00, 0, 0, 0, 0, 0, 0, 0], 7), ([0xfe80, 0, 0, 0, 0, 0, 0, 0], 10),
       ([0xfec0, 0, 0, 0, 0, 0, 0, 0], 10), ([0xff00, 0, 0, 0, 0, 0, 0, 0], 8)]"
proof -
  have r: "replicate 4 x = [x, x, x, x]" "replicate 5 x = [x, x, x, x, x]" "replicate 7 x = [x, x, x, x, x, x, x]"
    "replicate 8 x = [x, x, x, x, x, x, x, x]" for x :: nat
    by (simp_all add: numeral_eq_Suc)
  show ?thesis by (simp add: PRIVATE_IPV6_def groups_of_def quad_as_groups_def groups_in_def r hex_value_def js_digit_def)
qed

lemma in_list_groups: "in_list nets gs \<longleftrightarrow> list_ex (\<lambda>(hs, bits). v6_number gs div 2 ^ (128 - bits) = v6_number hs div 2 ^ (128 - bits))
    (map (\<lambda>(base, bits). (groups_of base, bits)) nets)"
  by (induction nets) (auto simp: in_list_def drop_bit_eq_div)

lemma prefix_differs:
  assumes "lo \<le> n" "n < hi" "0 < k" and "(m div k + 1) * k \<le> lo \<or> hi \<le> m div k * k"
  shows "n div k \<noteq> (m div k :: int)"
proof
  assume "n div k = m div k"
  then have "m div k * k + n mod k = n" by (metis div_mult_mod_eq)
  moreover have "0 \<le> n mod k" "n mod k < k" using assms(3) by simp_all
  ultimately show False using assms(1,2,4) by (simp add: distrib_right)
qed

lemma six_to_four_apart:
  assumes "g < 2 ^ 16" "h < 2 ^ 16" "x < 2 ^ 16" "y < 2 ^ 16" "z < 2 ^ 16" "u < 2 ^ 16" "v < (2 ^ 16 :: nat)"
  shows "\<not> in_list PRIVATE_IPV6 [0x2002, g, h, x, y, z, u, v]"
proof -
  note apart = prefix_differs [OF six_to_four_number [OF assms]]
  show ?thesis
    unfolding in_list_groups table_groups
    by (simp only: list_ex_iff list.set bex_simps case_prod_conv de_Morgan_disj, intro conjI apart)
      (simp_all add: v6_number_def push_bit_eq_mult)
qed

text \<open>C31: An address in a private or reserved range is private in every spelling, and no other is: as a
  dotted quad, carried by an IPv4-mapped or a NAT64 IPv6 address, or by a 6to4 address, whatever the rest of that is.
  The shifts and masks on 32-bit words decide exactly the documented table of ranges.\<close>
theorem private_addresses_in_every_spelling:
  assumes "isIPv4 ip" and "map (digits_value 0) (split_on (CHR ''.'') ip) = [a, b, c, d]"
    and "x < 2 ^ 16" "y < 2 ^ 16" "z < 2 ^ 16" "u < 2 ^ 16" "v < 2 ^ 16"
  shows "(isPrivateIPv4 ip \<longleftrightarrow> private_quad a b c)
    \<and> (private_groups [0, 0, 0, 0, 0, 0xffff, a * 256 + b, c * 256 + d] \<longleftrightarrow> private_quad a b c)
    \<and> (private_groups [0x64, 0xff9b, 0, 0, 0, 0, a * 256 + b, c * 256 + d] \<longleftrightarrow> private_quad a b c)
    \<and> (private_groups [0x2002, a * 256 + b, c * 256 + d, x, y, z, u, v] \<longleftrightarrow> private_quad a b c)"
proof -
  have small: "a < 256" "b < 256" "c < 256" "d < 256" using quad_parts [OF assms(1)] assms(2) by (metis list.inject)+
  have groups: "isPrivateIPv4 (ipv4FromGroups (a * 256 + b) (c * 256 + d)) \<longleftrightarrow> private_quad a b c"
    using private_quad_text [of "a * 256 + b" "c * 256 + d"] small by simp
  have "\<not> in_list PRIVATE_IPV6 [0x2002, a * 256 + b, c * 256 + d, x, y, z, u, v]"
    by (rule six_to_four_apart) (use small assms(3-7) in simp_all)
  then show ?thesis using private_table [OF assms(1,2)] groups by (simp add: private_groups_def)
qed

theorem private_addresses_in_every_spelling_witness:
  "isPrivateIPv4 ''169.254.169.254'' \<and> private_groups [0, 0, 0, 0, 0, 0xffff, 0xa9fe, 0xa9fe]
   \<and> private_groups [0x2002, 0xa9fe, 0xa9fe, 0, 0, 0, 0, 1] \<and> \<not> private_groups [0x2002, 0xcb00, 0x7107, 0, 0, 0, 0, 1]"
proof -
  have "isIPv4 ''169.254.169.254''" "map (digits_value 0) (split_on (CHR ''.'') ''169.254.169.254'') = [169, 254, 169, 254]" by code_simp+
  note p = private_addresses_in_every_spelling [OF this, of 0 0 0 0 1]
  have "isIPv4 ''203.0.113.7''" "map (digits_value 0) (split_on (CHR ''.'') ''203.0.113.7'') = [203, 0, 113, 7]" by code_simp+
  note q = private_addresses_in_every_spelling [OF this, of 0 0 0 0 1]
  from p q show ?thesis by (simp add: private_quad_def)
qed

text \<open>What a literal host that passed is not.\<close>

definition literal_ok :: "net_env \<Rightarrow> string \<Rightarrow> bool" where
  "literal_ok env f \<longleftrightarrow> \<not> local_name (strip_dots f) \<and> \<not> private_address env (bare_host f)
     \<and> (\<not> isIPv4 (bare_host f) \<longrightarrow> (case inetAtonIPv4 env (bare_host f) of Some a \<Rightarrow> \<not> isPrivateIPv4 a | None \<Rightarrow> True))"

lemma literal_checked:
  assumes "validateHostLiteral env host False = None" and "host \<noteq> []"
  shows "\<exists>f. checked_form env host = Some f \<and> literal_ok env f"
  using assms by (auto simp: validateHostLiteral_def literal_ok_def private_address_def Let_def split: option.splits if_splits)

definition within :: "pinned \<Rightarrow> string list \<Rightarrow> bool" where
  "within p xs \<longleftrightarrow> (case p of NotFound \<Rightarrow> True | Every cs \<Rightarrow> fst ` set cs \<subseteq> set xs | One c \<Rightarrow> fst c \<in> set xs)"

lemma pinned_within: "within (createPinnedLookup xs family every) xs"
proof -
  define e where "e = (if family \<noteq> 0 then filter (\<lambda>c. snd c = family) (map (\<lambda>a. (a, if isIPv4 a then 4 else 6)) xs)
      else map (\<lambda>a. (a, if isIPv4 a then 4 else 6)) xs)"
  have sub: "fst ` set e \<subseteq> set xs" by (auto simp: e_def)
  have "fst (hd e) \<in> set xs" if "e \<noteq> []" using hd_in_set [OF that] sub by auto
  moreover have "createPinnedLookup xs family every = (if e = [] then NotFound else if every then Every e else One (hd e))"
    by (simp add: createPinnedLookup_def e_def Let_def)
  ultimately show ?thesis using sub by (simp add: within_def)
qed

lemma connection_literal: "resolveForConnection env host False = Inr tg \<Longrightarrow> validateHostLiteral env host False = None"
  by (auto simp: resolveForConnection_def split: option.splits)

lemma connection_addresses:
  assumes "resolveForConnection env host False = Inr tg"
  shows "(\<forall>a\<in>set (tg_addresses tg). \<not> private_address env a)
    \<and> (if tg_addresses tg = [] then tg_host tg = js_trim host \<and> tg_servername tg = None
       else tg_host tg \<in> set (tg_addresses tg) \<and> tg_servername tg = Some (js_trim host))"
proof -
  have first: "hd (js_set xs) \<in> set xs" if "js_set xs \<noteq> []" for xs :: "string list"
    using that by (metis hd_in_set set_js_set)
  show ?thesis using assms connection_literal [OF assms]
    by (auto simp: resolveForConnection_def Let_def list_ex_iff first split: if_splits)
qed

text \<open>The name a connection asks the resolvers for.\<close>

definition connection_name :: "string \<Rightarrow> string" where
  "connection_name host = (case bracketed (js_trim host) of Some b \<Rightarrow> b | None \<Rightarrow> js_lower (js_trim host))"

lemma connection_answers:
  assumes "resolveForConnection env host False = Inr tg"
  shows "if tg_addresses tg = [] then isIPv4 (connection_name host) \<or> is_v6 env (connection_name host) \<or> resolveAddresses env (connection_name host) = []
    else set (tg_addresses tg) = set (resolveAddresses env (connection_name host))"
proof (cases "isIPv4 (connection_name host) \<or> is_v6 env (connection_name host)")
  case True
  have "resolveForConnection env host False = Inr \<lparr>tg_host = js_trim host, tg_servername = None, tg_addresses = []\<rparr>"
    using True connection_literal [OF assms] by (auto simp: resolveForConnection_def connection_name_def Let_def)
  then have "tg_addresses tg = []" using assms by simp
  then show ?thesis using True by (simp add: disj_assoc [symmetric])
next
  case False
  let ?rs = "resolveAddresses env (connection_name host)"
  have "resolveForConnection env host False = (if list_ex (private_address env) ?rs then Inl ''Host resolves to a private or reserved IP address''
      else if js_set ?rs = [] then Inr \<lparr>tg_host = js_trim host, tg_servername = None, tg_addresses = []\<rparr>
      else Inr \<lparr>tg_host = hd (js_set ?rs), tg_servername = Some (js_trim host), tg_addresses = js_set ?rs\<rparr>)"
    using False connection_literal [OF assms] by (simp add: resolveForConnection_def connection_name_def Let_def)
  moreover have "?rs = []" if "js_set ?rs = []" using that set_js_set [of ?rs] by simp
  ultimately show ?thesis using assms set_js_set [of ?rs] by (auto split: if_splits)
qed


definition mail_env :: net_env where
  "mail_env = \<lparr>ev_zone = (\<lambda>z. z \<noteq> []), ev_url = (\<lambda>_. None), ev_ascii = (\<lambda>s. s),
     ev_resolve4 = (\<lambda>s. if s = ''mail.example.org'' then Some [''203.0.113.7'', ''203.0.113.8'', ''203.0.113.7''] else None),
     ev_resolve6 = (\<lambda>_. None), ev_lookup = (\<lambda>_. None), ev_hosts = None\<rparr>"


end
