(* ===== verification/MailEndpoint.thy ===== *)
theory MailEndpoint
  imports HostProperties
begin

text \<open>
  Where a mailbox connects and with which TLS rules (\<open>services/accounts/mailEndpoint.js\<close>), under the
  administrator's connection policy (\<open>services/connectionPolicy.js\<close>). The endpoint of a managed Proton
  mailbox is an argument. \<open>aborted\<close> says whether the caller gave up: before (0), while the policy was
  read (1), while the host was resolved (2).
\<close>

section \<open>The connection policy\<close>

record policy_rules =
  cp_private :: bool
  cp_insecure_tls :: bool
  cp_ports :: bool

definition POLICY_TTL_MS :: int where
  "POLICY_TTL_MS = 30000"

type_synonym policy_cache = "(policy_rules \<times> time_ms) option"

definition setting_on :: "string \<Rightarrow> (string \<times> string) list \<Rightarrow> bool" where
  "setting_on key rows \<longleftrightarrow> (case map_of (rev rows) key of Some v \<Rightarrow> v = ''true'' | None \<Rightarrow> False)"

text \<open>\<open>rows\<close> are the system settings the query finds.\<close>

definition getConnectionPolicy :: "(string \<times> string) list \<Rightarrow> time_ms \<Rightarrow> policy_cache \<Rightarrow> policy_rules \<times> policy_cache" where
  "getConnectionPolicy rows now cache = (case cache of
     Some (p, at) \<Rightarrow> if now - at < POLICY_TTL_MS then (p, cache) else
       (let q = \<lparr>cp_private = setting_on ''allow_private_hosts'' rows, cp_insecure_tls = setting_on ''allow_insecure_tls'' rows,
          cp_ports = setting_on ''allow_nonstandard_ports'' rows\<rparr> in (q, Some (q, now)))
   | None \<Rightarrow> (let q = \<lparr>cp_private = setting_on ''allow_private_hosts'' rows, cp_insecure_tls = setting_on ''allow_insecure_tls'' rows,
          cp_ports = setting_on ''allow_nonstandard_ports'' rows\<rparr> in (q, Some (q, now))))"

definition invalidateConnectionPolicyCache :: "policy_cache \<Rightarrow> policy_cache" where
  "invalidateConnectionPolicyCache cache = None"

section \<open>Mailboxes and TLS\<close>

record mailbox =
  mb_managed :: bool
  mb_imap_mode :: "string option"
  mb_imap_tls :: bool
  mb_skip_verify :: bool
  mb_imap_host :: string
  mb_imap_port :: nat
  mb_smtp_tls :: string
  mb_smtp_host :: string
  mb_smtp_port :: nat

datatype endpoint_error = ProtocolInvalid | Cancelled | TlsModeInvalid | DnsUnresolved | HostRefused string | ProtonError string

record tls_rules =
  tl_secure :: bool
  tl_require :: bool
  tl_ignore :: bool
  tl_verify :: bool

definition EXPLICIT_IMAP_MODES :: "string list" where
  "EXPLICIT_IMAP_MODES = [''implicit'', ''starttls'']"

definition hasExplicitImapMode :: "mailbox \<Rightarrow> bool" where
  "hasExplicitImapMode m \<longleftrightarrow> mb_imap_mode m \<noteq> None"

definition imapTlsSettings :: "mailbox \<Rightarrow> policy_rules \<Rightarrow> endpoint_error + tls_rules" where
  "imapTlsSettings m po = (case mb_imap_mode m of
     Some mode \<Rightarrow> if mode \<notin> set EXPLICIT_IMAP_MODES then Inl TlsModeInvalid
       else let secure = (mode = ''implicit'') in Inr \<lparr>tl_secure = secure, tl_require = \<not> secure, tl_ignore = False, tl_verify = True\<rparr>
   | None \<Rightarrow> Inr \<lparr>tl_secure = mb_imap_tls m, tl_require = False, tl_ignore = False, tl_verify = \<not> (cp_insecure_tls po \<and> mb_skip_verify m)\<rparr>)"

definition smtpTlsSettings :: "mailbox \<Rightarrow> policy_rules \<Rightarrow> tls_rules" where
  "smtpTlsSettings m po = (let secure = (mb_smtp_tls m = ''SSL'' \<or> (mb_smtp_tls m \<noteq> ''none'' \<and> mb_smtp_port m = 465))
     in \<lparr>tl_secure = secure, tl_require = (mb_smtp_tls m = ''STARTTLS'' \<and> \<not> secure), tl_ignore = (mb_smtp_tls m = ''none''),
         tl_verify = \<not> (cp_insecure_tls po \<and> mb_skip_verify m)\<rparr>)"

section \<open>Endpoints\<close>

record mail_endpoint =
  me_target :: target
  me_port :: nat
  me_tls :: tls_rules
  me_servername :: "string option"
  me_mode :: "string option"

text \<open>\<open>replace(/^\[|\]$/g, '')\<close>.\<close>

definition bareHost :: "string \<Rightarrow> string" where
  "bareHost host = (let h = js_trim host; a = (if h \<noteq> [] \<and> hd h = CHR ''['' then tl h else h)
     in if a \<noteq> [] \<and> last a = CHR '']'' then butlast a else a)"

definition host_of :: "string \<Rightarrow> mailbox \<Rightarrow> string" where
  "host_of protocol m = (if protocol = ''imap'' then mb_imap_host m else mb_smtp_host m)"

definition endpoint_of :: "string \<Rightarrow> mailbox \<Rightarrow> target \<Rightarrow> tls_rules \<Rightarrow> mail_endpoint" where
  "endpoint_of protocol m tg tls = \<lparr>me_target = tg, me_port = (if protocol = ''imap'' then mb_imap_port m else mb_smtp_port m),
     me_tls = tls, me_servername = tg_servername tg, me_mode = mb_imap_mode m\<rparr>"

definition resolveMailEndpoint :: "net_env \<Rightarrow> (string \<Rightarrow> endpoint_error + mail_endpoint) \<Rightarrow> policy_rules \<Rightarrow> (nat \<Rightarrow> bool) \<Rightarrow> mailbox \<Rightarrow> string
    \<Rightarrow> endpoint_error + mail_endpoint" where
  "resolveMailEndpoint env proton po aborted m protocol =
     (if protocol \<noteq> ''imap'' \<and> protocol \<noteq> ''smtp'' then Inl ProtocolInvalid
      else if aborted 0 then Inl Cancelled
      else if mb_managed m then proton protocol
      else if aborted 1 then Inl Cancelled
      else let host = host_of protocol m in
        if aborted 2 then Inl Cancelled
        else case resolveForConnection env host (cp_private po) of Inl e \<Rightarrow> Inl (HostRefused e)
        | Inr tg \<Rightarrow>
            if hasExplicitImapMode m \<and> tg_addresses tg = [] \<and> \<not> (isIPv4 (bareHost host) \<or> is_v6 env (bareHost host)) then Inl DnsUnresolved
            else (case (if protocol = ''imap'' then imapTlsSettings m po else Inr (smtpTlsSettings m po)) of
                Inl e \<Rightarrow> Inl e | Inr tls \<Rightarrow> Inr (endpoint_of protocol m tg tls)))"

section \<open>Verified mailboxes\<close>

lemma policy_fresh: "fst (getConnectionPolicy rows now (invalidateConnectionPolicyCache cache))
    = \<lparr>cp_private = setting_on ''allow_private_hosts'' rows, cp_insecure_tls = setting_on ''allow_insecure_tls'' rows,
       cp_ports = setting_on ''allow_nonstandard_ports'' rows\<rparr>"
  by (simp add: getConnectionPolicy_def invalidateConnectionPolicyCache_def Let_def)

text \<open>While private hosts are not allowed, a mailbox that was verified (it names its IMAP mode) only
  connects to addresses that were checked: a literal address it names, which is not private, or the
  addresses the resolvers gave, none of them private; with no answer it does not connect. Over IMAP
  it always checks the certificate and never logs in without TLS, whatever the policy allows.\<close>
theorem verified_mailboxes_fail_closed:
  assumes "resolveMailEndpoint env proton po aborted m protocol = Inr ep" and "\<not> mb_managed m" and "\<not> cp_private po"
    and "hasExplicitImapMode m" and "host_of protocol m \<noteq> []"
  shows "(if tg_addresses (me_target ep) = [] then isIPv4 (bareHost (host_of protocol m)) \<or> is_v6 env (bareHost (host_of protocol m))
      else tg_host (me_target ep) \<in> set (tg_addresses (me_target ep)))
    \<and> (\<forall>a\<in>set (tg_addresses (me_target ep)). \<not> private_address env a)
    \<and> (\<exists>f. checked_form env (host_of protocol m) = Some f \<and> literal_ok env f)
    \<and> (protocol = ''imap'' \<longrightarrow> tl_verify (me_tls ep) \<and> (tl_secure (me_tls ep) \<or> tl_require (me_tls ep)))"
proof -
  obtain tg tls where tg: "resolveForConnection env (host_of protocol m) False = Inr tg" "ep = endpoint_of protocol m tg tls"
    "(if protocol = ''imap'' then imapTlsSettings m po else Inr (smtpTlsSettings m po)) = Inr tls"
    "tg_addresses tg \<noteq> [] \<or> isIPv4 (bareHost (host_of protocol m)) \<or> is_v6 env (bareHost (host_of protocol m))"
    using assms(1-4) by (auto simp: resolveMailEndpoint_def Let_def split: if_splits sum.splits)
  have pub: "\<exists>f. checked_form env (host_of protocol m) = Some f \<and> literal_ok env f"
    using literal_checked [OF connection_literal [OF tg(1)] assms(5)] .
  have addrs: "\<forall>a\<in>set (tg_addresses tg). \<not> private_address env a" "tg_addresses tg \<noteq> [] \<Longrightarrow> tg_host tg \<in> set (tg_addresses tg)"
    using connection_addresses [OF tg(1)] by (auto split: if_splits)
  have "protocol = ''imap'' \<Longrightarrow> tl_verify tls \<and> (tl_secure tls \<or> tl_require tls)"
    using tg(3) assms(4) by (auto simp: imapTlsSettings_def hasExplicitImapMode_def Let_def split: if_splits)
  then show ?thesis using pub addrs tg(2,4) by (auto simp: endpoint_of_def)
qed

definition ex_mailbox :: mailbox where
  "ex_mailbox = \<lparr>mb_managed = False, mb_imap_mode = Some ''starttls'', mb_imap_tls = False, mb_skip_verify = True, mb_imap_host = ''mail.example.org'',
     mb_imap_port = 143, mb_smtp_tls = ''STARTTLS'', mb_smtp_host = ''mail.example.org'', mb_smtp_port = 587\<rparr>"

theorem verified_mailboxes_fail_closed_witness:
  "\<exists>ep. resolveMailEndpoint mail_env (\<lambda>_. Inl ProtocolInvalid) \<lparr>cp_private = False, cp_insecure_tls = True, cp_ports = False\<rparr> (\<lambda>_. False) ex_mailbox ''imap''
      = Inr ep \<and> tl_verify (me_tls ep) \<and> tl_require (me_tls ep)"
proof -
  let ?po = "\<lparr>cp_private = False, cp_insecure_tls = True, cp_ports = False\<rparr>"
  let ?r = "resolveMailEndpoint mail_env (\<lambda>_. Inl ProtocolInvalid) ?po (\<lambda>_. False) ex_mailbox ''imap''"
  have "case ?r of Inr ep \<Rightarrow> \<not> tl_secure (me_tls ep) | Inl _ \<Rightarrow> False" by code_simp
  then obtain ep where ep: "?r = Inr ep" "\<not> tl_secure (me_tls ep)" by (auto split: sum.splits)
  have "hasExplicitImapMode ex_mailbox" "host_of ''imap'' ex_mailbox \<noteq> []" "\<not> mb_managed ex_mailbox"
    by (simp_all add: hasExplicitImapMode_def host_of_def ex_mailbox_def)
  then show ?thesis using verified_mailboxes_fail_closed [OF ep(1)] ep by auto
qed

end
