(* ===== verification/InboxRules.thy ===== *)
theory InboxRules
  imports Rex
begin

text \<open>
  Inbox rules and the block list (\<open>services/inboxRules.js\<close>): which letters a rule matches, and which
  actions run in which order on each new letter. The engine that runs a user's regular expression,
  the answers of the mail server and of the database, the folders of the mailbox and what is left of
  an HTML body as text are arguments. The values of a condition are texts; a rule that cannot be
  evaluated is treated as one that does not match, as the \<open>catch\<close> does. Log lines are left out.
\<close>

section \<open>Letters, conditions, rules\<close>

text \<open>\<open>rm_body\<close> is \<open>None\<close> while \<open>_bodyUnknown\<close>; \<open>rm_headers\<close> is \<open>None\<close> before headers are fetched.\<close>

record rmsg =
  rm_id :: string
  rm_uid :: int
  rm_folder :: string
  rm_from_email :: string
  rm_from_name :: string
  rm_to :: "(string \<times> string) list"
  rm_subject :: string
  rm_attach :: bool
  rm_read :: bool
  rm_body :: "string option"
  rm_headers :: "(string \<times> string) list option"

record cond =
  cd_field :: string
  cd_operator :: string
  cd_value :: string
  cd_header :: string

datatype raction = Forward string | MarkRead | Star | MoveTo string | Archive | Delete | OtherAction string

record irule =
  ru_conditions :: "cond list"
  ru_or :: bool
  ru_actions :: "raction list"
  ru_stop :: bool

section \<open>Regular expressions of users\<close>

definition quantifier :: "char \<Rightarrow> bool" where
  "quantifier c \<longleftrightarrow> c \<in> set ''*+{?''"

text \<open>Past the end of a character class.\<close>

function skip_class :: "string \<Rightarrow> string" where
  "skip_class [] = []"
| "skip_class (c # cs) = (if c = CHR '']'' then cs else if c = CHR 0x5C then skip_class (drop 1 cs) else skip_class cs)"
  by pat_completeness auto
termination by (relation "measure length") auto

lemma skip_class_length: "length (skip_class cs) \<le> length cs"
  by (induction cs rule: skip_class.induct) auto

text \<open>The scan for nested quantifiers; the list says of each open group whether it holds one.\<close>

function nested_quantifier :: "bool list \<Rightarrow> string \<Rightarrow> bool" where
  "nested_quantifier gs [] = False"
| "nested_quantifier gs (c # cs) =
     (if c = CHR 0x5C then nested_quantifier gs (drop 1 cs)
      else if c = CHR ''['' then nested_quantifier gs (skip_class cs)
      else if c = CHR ''('' then nested_quantifier (False # gs) cs
      else if quantifier c then nested_quantifier (case gs of [] \<Rightarrow> [] | _ # g \<Rightarrow> True # g) cs
      else if c = CHR '')'' then (case gs of [] \<Rightarrow> nested_quantifier [] cs
        | inner # g \<Rightarrow> if inner \<and> cs \<noteq> [] \<and> quantifier (hd cs) then True else nested_quantifier g cs)
      else nested_quantifier gs cs)"
  by pat_completeness auto
termination
  by (relation "measure (\<lambda>(gs, cs). length cs)") (auto simp: less_Suc_eq_le skip_class_length)

text \<open>\<open>/\(.*[+*]\).*[+*]|\(.*\|.*\).*[+*]/\<close>.\<close>

definition quantified_group :: rex where
  "quantified_group = (let any = RStar rdot; q = RSet (\<lambda>c. c \<in> set ''+*'')
     in RAlt (rseqs [rlit ''('', any, q, rlit '')'', any, q]) (rseqs [rlit ''('', any, rlit ''|'', any, rlit '')'', any, q]))"

datatype rx_answer = Tested bool | OutOfTime | BadPattern

record regexes =
  rx_compiles :: "string \<Rightarrow> bool"
  rx_test :: "string \<Rightarrow> string \<Rightarrow> rx_answer"

definition isDangerousRegex :: "regexes \<Rightarrow> string \<Rightarrow> bool" where
  "isDangerousRegex rx src \<longleftrightarrow> src = [] \<or> length src > 200 \<or> rex_found quantified_group src \<or> nested_quantifier [] src
     \<or> \<not> rx_compiles rx src"

definition RULE_TEXT_CHAR_CAP :: nat where
  "RULE_TEXT_CHAR_CAP = 600000"

text \<open>\<open>replace(/^(?:\.\*\??)+/, '')\<close>.\<close>

fun drop_leading_any :: "string \<Rightarrow> string" where
  "drop_leading_any (a # b # cs) = (if a = CHR ''.'' \<and> b = CHR ''*''
     then (case cs of [] \<Rightarrow> [] | c # ds \<Rightarrow> if c = CHR ''?'' then drop_leading_any ds else drop_leading_any cs) else a # b # cs)"
| "drop_leading_any cs = cs"

text \<open>The patterns that ran out of time are the module's state, passed along.\<close>

type_synonym test = "string list \<Rightarrow> bool \<times> string list"

definition matchUserRegex :: "regexes \<Rightarrow> string \<Rightarrow> string \<Rightarrow> test" where
  "matchUserRegex rx pat txt timed =
     (if pat \<in> set timed then (False, timed)
      else case rx_test rx (drop_leading_any pat) (take RULE_TEXT_CHAR_CAP txt) of
        Tested b \<Rightarrow> (b, timed) | OutOfTime \<Rightarrow> (False, timed @ [pat]) | BadPattern \<Rightarrow> (False, timed))"

section \<open>Matching\<close>

definition normalizeStr :: "string \<Rightarrow> string" where
  "normalizeStr v = js_trim (js_lower v)"

definition matchOperator :: "regexes \<Rightarrow> string \<Rightarrow> string \<Rightarrow> string \<Rightarrow> test" where
  "matchOperator rx op fieldVal ruleVal timed =
     (let f = normalizeStr fieldVal; r = normalizeStr ruleVal in
      if r = [] then (False, timed)
      else if op = ''contains'' then (js_includes f r, timed)
      else if op = ''not_contains'' then (\<not> js_includes f r, timed)
      else if op = ''equals'' then (f = r, timed)
      else if op = ''starts_with'' then (prefix r f, timed)
      else if op = ''ends_with'' then (suffix r f, timed)
      else if op = ''regex'' then (if isDangerousRegex rx ruleVal then (False, timed) else matchUserRegex rx ruleVal fieldVal timed)
      else (False, timed))"

text \<open>\<open>||\<close>, \<open>&&\<close>, \<open>some\<close> and \<open>every\<close>, which stop early.\<close>

definition or_st :: "test \<Rightarrow> test \<Rightarrow> test" where
  "or_st a b timed = (case a timed of (True, t) \<Rightarrow> (True, t) | (False, t) \<Rightarrow> b t)"

definition and_st :: "test \<Rightarrow> test \<Rightarrow> test" where
  "and_st a b timed = (case a timed of (True, t) \<Rightarrow> b t | (False, t) \<Rightarrow> (False, t))"

fun some_st :: "('a \<Rightarrow> test) \<Rightarrow> 'a list \<Rightarrow> test" where
  "some_st p [] timed = (False, timed)"
| "some_st p (x # xs) timed = or_st (p x) (some_st p xs) timed"

fun every_st :: "('a \<Rightarrow> test) \<Rightarrow> 'a list \<Rightarrow> test" where
  "every_st p [] timed = (True, timed)"
| "every_st p (x # xs) timed = and_st (p x) (every_st p xs) timed"

text \<open>The email and the name of a sender or recipient.\<close>

definition match_person :: "regexes \<Rightarrow> string \<Rightarrow> string \<Rightarrow> string \<times> string \<Rightarrow> test" where
  "match_person rx op v p = (if op = ''not_contains'' then and_st (matchOperator rx ''not_contains'' (fst p) v) (matchOperator rx ''not_contains'' (snd p) v)
     else or_st (matchOperator rx op (fst p) v) (matchOperator rx op (snd p) v))"

definition known :: "bool \<times> string list \<Rightarrow> bool option \<times> string list" where
  "known r = (Some (fst r), snd r)"

definition header_of :: "rmsg \<Rightarrow> string \<Rightarrow> string" where
  "header_of m name = (case map_of (case rm_headers m of Some hs \<Rightarrow> hs | None \<Rightarrow> []) name of Some v \<Rightarrow> v | None \<Rightarrow> [])"

definition evaluateCondition :: "regexes \<Rightarrow> cond \<Rightarrow> rmsg \<Rightarrow> string list \<Rightarrow> bool option \<times> string list" where
  "evaluateCondition rx c m timed =
     (let op = cd_operator c; v = cd_value c in
      if cd_field c = ''from'' then known (match_person rx op v (rm_from_email m, rm_from_name m) timed)
      else if cd_field c = ''to'' then
        known (if rm_to m = [] then (False, timed)
          else if op = ''not_contains'' then every_st (match_person rx op v) (rm_to m) timed else some_st (match_person rx op v) (rm_to m) timed)
      else if cd_field c = ''subject'' then known (matchOperator rx op (rm_subject m) v timed)
      else if cd_field c = ''has_attachment'' then (Some (rm_attach m), timed)
      else if cd_field c = ''read_status'' then (Some (if v = ''read'' then rm_read m else \<not> rm_read m), timed)
      else if cd_field c = ''body'' then (case rm_body m of None \<Rightarrow> (None, timed) | Some b \<Rightarrow> known (matchOperator rx op b v timed))
      else if cd_field c = ''header'' then
        (let name = js_trim (js_lower (cd_header c)) in
         if name = [] then (Some False, timed) else known (matchOperator rx op (header_of m name) v timed))
      else (Some False, timed))"

fun evaluate_all :: "regexes \<Rightarrow> cond list \<Rightarrow> rmsg \<Rightarrow> string list \<Rightarrow> bool option list \<times> string list" where
  "evaluate_all rx [] m timed = ([], timed)"
| "evaluate_all rx (c # cs) m timed = (case evaluateCondition rx c m timed of (r, t1) \<Rightarrow>
     case evaluate_all rx cs m t1 of (rs, t2) \<Rightarrow> (r # rs, t2))"

definition evaluateRule :: "regexes \<Rightarrow> irule \<Rightarrow> rmsg \<Rightarrow> test" where
  "evaluateRule rx r m timed =
     (if ru_conditions r = [] then (False, timed)
      else case evaluate_all rx (ru_conditions r) m timed of (rs, t) \<Rightarrow>
        (if ru_or r then Some True \<in> set rs else list_all (\<lambda>x. x = Some True) rs, t))"

end
