(* ===== verification/InboxActions.thy ===== *)
theory InboxActions
  imports InboxRules
begin

text \<open>
  What the inbox rules and the block list do to a letter (\<open>services/inboxRules.js\<close>, with
  \<open>getDeleteStrategy\<close> of \<open>utils/mailUtils.js\<close>). One action's answers are an \<open>io\<close>; what it does outside
  the letter in memory is a list of effects, in order. The archive and trash folders are given; a lookup
  of them that throws is left out.
\<close>

section \<open>One action\<close>

datatype move_answer = MoveThrew | MoveFailed | Moved "int option"

text \<open>Whether a forward, the server's move, a flag and the statement that writes the row went through.\<close>

record io =
  io_forward :: bool
  io_move :: move_answer
  io_flag :: bool
  io_row :: bool

datatype reffect = ForwardSent string | ServerMove string int string | ServerFlag string int string | QueueFlag string
  | Guard string int | Unguard string int | UnguardLater string int
  | RowRead | RowStarred | RowMoved string "int option" | RowGone | RowDeleted | Counts string int int

record folders =
  fo_archive :: "string option"
  fo_all_mail :: bool
  fo_trash :: "string option"
  fo_trash_paths :: "string list"

datatype outcome = Acted bool | Threw

datatype strategy = NoTrash | ExpungeIt | MoveIt string

definition getDeleteStrategy :: "string \<Rightarrow> string option \<Rightarrow> string list option \<Rightarrow> strategy" where
  "getDeleteStrategy folder trash paths = (case trash of None \<Rightarrow> NoTrash
     | Some t \<Rightarrow> if t = [] then NoTrash
         else if (case paths of Some ps \<Rightarrow> folder \<in> set ps | None \<Rightarrow> folder = t) then ExpungeIt else MoveIt t)"

definition unread :: "rmsg \<Rightarrow> int" where
  "unread m = of_bool (\<not> rm_read m)"

text \<open>The uid a MOVE reported, when there is one (zero is none).\<close>

definition new_uid :: "int option \<Rightarrow> int option" where
  "new_uid u = (if u = Some 0 then None else u)"

text \<open>The row's write after a MOVE to \<open>dest\<close>, and whether it went through.\<close>

definition write_place :: "string \<Rightarrow> io \<Rightarrow> int option \<Rightarrow> rmsg \<Rightarrow> bool \<times> reffect list" where
  "write_place dest i u m = (case new_uid u of
     Some v \<Rightarrow> (io_row i, if io_row i then [RowMoved dest (Some v)] else [])
   | None \<Rightarrow> (io_row i, Guard dest (rm_uid m) # (if io_row i then [RowMoved dest None, UnguardLater dest (rm_uid m)] else [])))"

definition counts_moved :: "string \<Rightarrow> rmsg \<Rightarrow> reffect list" where
  "counts_moved dest m = [Counts (rm_folder m) (-1) (- unread m), Counts dest 1 (unread m)]"

text \<open>The letter guarded at its source, \<open>act\<close> done after the server's MOVE, and unguarded again.\<close>

definition guarded_move :: "string \<Rightarrow> io \<Rightarrow> rmsg \<Rightarrow> (int option \<Rightarrow> outcome \<times> rmsg \<times> reffect list) \<Rightarrow> outcome \<times> rmsg \<times> reffect list" where
  "guarded_move dest i m act =
     (let src = rm_folder m; uid = rm_uid m; r = (case io_move i of Moved u \<Rightarrow> act u | _ \<Rightarrow> (Threw, m, []))
      in case r of (out, m', effs) \<Rightarrow> (out, m', [Guard src uid, ServerMove src uid dest] @ effs @ [Unguard src uid]))"

definition move_letter :: "string \<Rightarrow> io \<Rightarrow> rmsg \<Rightarrow> outcome \<times> rmsg \<times> reffect list" where
  "move_letter dest i m = guarded_move dest i m (\<lambda>u. case write_place dest i u m of
     (ok, effs) \<Rightarrow> if \<not> ok then (Threw, m, effs)
       else (Acted True, m\<lparr>rm_folder := dest, rm_uid := (case new_uid u of Some v \<Rightarrow> v | None \<Rightarrow> rm_uid m)\<rparr>, effs @ counts_moved dest m))"

definition archive_letter :: "folders \<Rightarrow> io \<Rightarrow> rmsg \<Rightarrow> outcome \<times> rmsg \<times> reffect list" where
  "archive_letter fo i m = (case fo_archive fo of None \<Rightarrow> (Acted False, m, [])
     | Some dest \<Rightarrow> if dest = [] then (Acted False, m, [])
         else guarded_move dest i m (\<lambda>u. case (if fo_all_mail fo then (io_row i, if io_row i then [RowGone] else []) else write_place dest i u m) of
           (ok, effs) \<Rightarrow> if \<not> ok then (Threw, m, effs)
             else (Acted True, m\<lparr>rm_folder := dest, rm_uid := (case new_uid u of Some v \<Rightarrow> v | None \<Rightarrow> rm_uid m)\<rparr>,
               effs @ (if fo_all_mail fo then [Counts (rm_folder m) (-1) (- unread m)] else counts_moved dest m))))"

text \<open>A delete leaves folder and uid of the letter in memory as they were.\<close>

definition delete_letter :: "folders \<Rightarrow> io \<Rightarrow> rmsg \<Rightarrow> outcome \<times> rmsg \<times> reffect list" where
  "delete_letter fo i m = (case getDeleteStrategy (rm_folder m) (fo_trash fo) (Some (fo_trash_paths fo)) of
     NoTrash \<Rightarrow> (Acted False, m, [])
   | MoveIt dest \<Rightarrow> guarded_move dest i m (\<lambda>u. case write_place dest i u m of
       (ok, effs) \<Rightarrow> if \<not> ok then (Threw, m, effs) else (Acted True, m, effs @ counts_moved dest m))
   | ExpungeIt \<Rightarrow> (let flag = [ServerFlag (rm_folder m) (rm_uid m) ''Deleted''] in
       if \<not> io_flag i then (Threw, m, flag)
       else if \<not> io_row i then (Threw, m, flag)
       else (Acted True, m, flag @ [RowDeleted, Counts (rm_folder m) (-1) (- unread m)])))"

text \<open>A flag is stored in the background; when that fails it is queued.\<close>

definition store_flag :: "string \<Rightarrow> io \<Rightarrow> rmsg \<Rightarrow> reffect list" where
  "store_flag flag i m = ServerFlag (rm_folder m) (rm_uid m) flag # (if io_flag i then [] else [QueueFlag flag])"

fun applyAction :: "folders \<Rightarrow> io \<Rightarrow> raction \<Rightarrow> rmsg \<Rightarrow> outcome \<times> rmsg \<times> reffect list" where
  "applyAction fo i (Forward to) m = (if io_forward i then (Acted False, m, [ForwardSent to]) else (Threw, m, []))"
| "applyAction fo i MarkRead m = (if \<not> io_row i then (Threw, m, [])
     else (Acted False, m\<lparr>rm_read := True\<rparr>, RowRead # store_flag ''Seen'' i m @ (if rm_read m then [] else [Counts (rm_folder m) 0 (-1)])))"
| "applyAction fo i Star m = (if \<not> io_row i then (Threw, m, []) else (Acted False, m, RowStarred # store_flag ''Flagged'' i m))"
| "applyAction fo i (MoveTo dest) m = (if dest = [] then (Acted False, m, []) else move_letter dest i m)"
| "applyAction fo i Archive m = archive_letter fo i m"
| "applyAction fo i Delete m = delete_letter fo i m"
| "applyAction fo i (OtherAction t) m = (Acted False, m, [])"

section \<open>The rules on one letter\<close>

definition is_forward :: "raction \<Rightarrow> bool" where
  "is_forward a \<longleftrightarrow> (case a of Forward _ \<Rightarrow> True | _ \<Rightarrow> False)"

definition is_dest :: "raction \<Rightarrow> bool" where
  "is_dest a \<longleftrightarrow> (case a of MoveTo _ \<Rightarrow> True | Archive \<Rightarrow> True | Delete \<Rightarrow> True | _ \<Rightarrow> False)"

text \<open>\<open>lp_log\<close> are the actions that ran, with what became of them.\<close>

record loop =
  lp_msg :: rmsg
  lp_removed :: bool
  lp_blocked :: bool
  lp_muted :: bool
  lp_deferred :: "raction list"
  lp_passed :: bool
  lp_log :: "(raction \<times> outcome) list"
  lp_effects :: "reffect list"

text \<open>What the loop works with: the answers by the number of the action.\<close>

record world =
  wd_rx :: regexes
  wd_folders :: folders
  wd_io :: "nat \<Rightarrow> io"

definition run_action :: "world \<Rightarrow> raction \<Rightarrow> loop \<Rightarrow> outcome \<times> loop" where
  "run_action w a s = (case applyAction (wd_folders w) (wd_io w (length (lp_log s))) a (lp_msg s) of (out, m, effs) \<Rightarrow>
     (out, s\<lparr>lp_msg := m, lp_log := lp_log s @ [(a, out)], lp_effects := lp_effects s @ effs\<rparr>))"

definition run_forward :: "world \<Rightarrow> raction \<Rightarrow> loop \<Rightarrow> loop" where
  "run_forward w a s = (case run_action w a s of (out, s1) \<Rightarrow> if out = Threw then s1\<lparr>lp_blocked := True\<rparr> else s1)"

definition executeNonForwardAction :: "world \<Rightarrow> raction \<Rightarrow> loop \<Rightarrow> loop" where
  "executeNonForwardAction w a s = (case run_action w a s of (out, s1) \<Rightarrow> (case out of Threw \<Rightarrow> s1
     | Acted acted \<Rightarrow> s1\<lparr>lp_removed := (lp_removed s1 \<or> is_dest a \<and> acted), lp_muted := (lp_muted s1 \<or> a = MarkRead)\<rparr>))"

fun flush :: "world \<Rightarrow> raction list \<Rightarrow> loop \<Rightarrow> loop" where
  "flush w [] s = s\<lparr>lp_deferred := []\<rparr>"
| "flush w (a # as) s = flush w as (if lp_removed s \<or> lp_blocked s then s else executeNonForwardAction w a s)"

definition flushDeferredDestinations :: "world \<Rightarrow> loop \<Rightarrow> loop" where
  "flushDeferredDestinations w s = flush w (lp_deferred s) s"

fun ordinary :: "world \<Rightarrow> bool \<Rightarrow> raction list \<Rightarrow> loop \<Rightarrow> loop" where
  "ordinary w seen [] s = s"
| "ordinary w seen (a # as) s =
     (if is_dest a \<and> (seen \<or> lp_removed s \<or> lp_blocked s) then ordinary w seen as s
      else if is_dest a \<and> \<not> lp_passed s then ordinary w True as (s\<lparr>lp_deferred := lp_deferred s @ [a]\<rparr>)
      else ordinary w (seen \<or> is_dest a) as (executeNonForwardAction w a s))"

text \<open>The barrier passed: no later rule can forward.\<close>

definition pass_barrier :: "world \<Rightarrow> loop \<Rightarrow> loop" where
  "pass_barrier w s = flushDeferredDestinations w (s\<lparr>lp_passed := True\<rparr>)"

definition forwards_in :: "irule \<Rightarrow> bool" where
  "forwards_in r \<longleftrightarrow> list_ex is_forward (ru_actions r)"

fun lastForwardRuleIndex :: "nat \<Rightarrow> nat option \<Rightarrow> irule list \<Rightarrow> nat option" where
  "lastForwardRuleIndex i found [] = found"
| "lastForwardRuleIndex i found (r # rs) = lastForwardRuleIndex (Suc i) (if forwards_in r then Some i else found) rs"

definition header_rule :: "irule \<Rightarrow> bool" where
  "header_rule r \<longleftrightarrow> list_ex (\<lambda>c. cd_field c = ''header'') (ru_conditions r)"

text \<open>A rule that matched: its forwards, the barrier, its other actions.\<close>

definition run_rule :: "world \<Rightarrow> nat option \<Rightarrow> nat \<Rightarrow> irule \<Rightarrow> loop \<Rightarrow> loop" where
  "run_rule w final i r s =
     (let s1 = fold (run_forward w) (filter is_forward (ru_actions r)) s;
          s2 = (if \<not> lp_passed s1 \<and> (final = Some i \<or> ru_stop r) then pass_barrier w s1 else s1)
      in ordinary w False (filter (\<lambda>a. \<not> is_forward a) (ru_actions r)) s2)"

fun rules_loop :: "world \<Rightarrow> bool \<Rightarrow> nat option \<Rightarrow> nat \<Rightarrow> irule list \<Rightarrow> loop \<Rightarrow> string list \<Rightarrow> loop \<times> string list" where
  "rules_loop w noheaders final i [] s timed = (flushDeferredDestinations w s, timed)"
| "rules_loop w noheaders final i (r # rs) s timed =
     (case (if noheaders \<and> header_rule r then (False, timed) else evaluateRule (wd_rx w) r (lp_msg s) timed) of (matches, t1) \<Rightarrow>
       if \<not> matches then rules_loop w noheaders final (Suc i) rs (if \<not> lp_passed s \<and> final = Some i then pass_barrier w s else s) t1
       else if ru_stop r then (flushDeferredDestinations w (run_rule w final i r s), t1)
       else rules_loop w noheaders final (Suc i) rs (run_rule w final i r s) t1)"

section \<open>A batch\<close>

text \<open>Headers fetched for a letter without them; none, or an empty answer, leaves them unavailable.\<close>

definition with_headers :: "irule list \<Rightarrow> (string \<times> string) list option \<Rightarrow> rmsg \<Rightarrow> bool \<times> rmsg" where
  "with_headers rules fetched m = (if list_ex header_rule rules \<and> rm_headers m = None
     then (case fetched of None \<Rightarrow> (True, m) | Some hs \<Rightarrow> if hs = [] then (True, m) else (False, m\<lparr>rm_headers := Some hs\<rparr>))
     else (False, m))"

text \<open>\<open>bodies\<close>: the rows of the letters, by id; \<open>None\<close> when the query failed.\<close>

definition body_of :: "(string \<Rightarrow> string) \<Rightarrow> (string option \<times> string option) option \<Rightarrow> string option" where
  "body_of html_text row = (case row of None \<Rightarrow> None | Some (t, h) \<Rightarrow>
     if t = None \<and> h = None then None
     else Some (if text_given t then the t else if text_given h then html_text (the h) else []))"

definition body_rule :: "irule \<Rightarrow> bool" where
  "body_rule r \<longleftrightarrow> list_ex (\<lambda>c. cd_field c = ''body'') (ru_conditions r)"

definition with_body :: "(string \<Rightarrow> string) \<Rightarrow> irule list \<Rightarrow> (string \<Rightarrow> (string option \<times> string option) option) option \<Rightarrow> rmsg \<Rightarrow> rmsg" where
  "with_body html_text rules bodies m = (if \<not> list_ex body_rule rules then m
     else m\<lparr>rm_body := (case bodies of None \<Rightarrow> None | Some rows \<Rightarrow> body_of html_text (rows (rm_id m)))\<rparr>)"

definition start_letter :: "irule list \<Rightarrow> bool \<Rightarrow> bool \<Rightarrow> rmsg \<Rightarrow> loop" where
  "start_letter rules removed blocked m = \<lparr>lp_msg = m, lp_removed = removed, lp_blocked = blocked, lp_muted = False, lp_deferred = [],
     lp_passed = (lastForwardRuleIndex 0 None rules = None), lp_log = [], lp_effects = []\<rparr>"

definition letter_rules :: "world \<Rightarrow> irule list \<Rightarrow> (string \<times> string) list option \<Rightarrow> bool \<Rightarrow> bool \<Rightarrow> rmsg \<Rightarrow> string list \<Rightarrow> loop \<times> string list" where
  "letter_rules w rules fetched removed blocked m timed = (case with_headers rules fetched m of (noheaders, m1) \<Rightarrow>
     rules_loop w noheaders (lastForwardRuleIndex 0 None rules) 0 rules (start_letter rules removed blocked m1) timed)"

text \<open>The ids removed, blocked and muted so far, and what was done; each letter has its own answers.\<close>

record batch =
  bt_removed :: "string list"
  bt_blocked :: "string list"
  bt_muted :: "string list"
  bt_letters :: "loop list"

definition batch_letter :: "(rmsg \<Rightarrow> world) \<Rightarrow> (rmsg \<Rightarrow> (string \<times> string) list option) \<Rightarrow> irule list \<Rightarrow> rmsg \<Rightarrow> batch \<times> string list \<Rightarrow> batch \<times> string list" where
  "batch_letter w fetch rules m s = (case s of (b, timed) \<Rightarrow>
     case letter_rules (w m) rules (fetch m) (rm_id m \<in> set (bt_removed b)) (rm_id m \<in> set (bt_blocked b)) m timed of (l, t1) \<Rightarrow>
       (\<lparr>bt_removed = (if lp_removed l then rm_id m # bt_removed b else bt_removed b),
         bt_blocked = (if lp_blocked l then rm_id m # bt_blocked b else bt_blocked b),
         bt_muted = (if lp_muted l then rm_id m # bt_muted b else bt_muted b), bt_letters = bt_letters b @ [l]\<rparr>, t1))"

definition applyInboxRules :: "(rmsg \<Rightarrow> world) \<Rightarrow> (rmsg \<Rightarrow> (string \<times> string) list option) \<Rightarrow> (string \<Rightarrow> string)
    \<Rightarrow> (string \<Rightarrow> (string option \<times> string option) option) option \<Rightarrow> irule list option \<Rightarrow> rmsg list \<Rightarrow> string list
    \<Rightarrow> rmsg list \<times> batch \<times> string list" where
  "applyInboxRules w fetch html_text bodies rules ms timed =
     (let nothing = \<lparr>bt_removed = [], bt_blocked = [], bt_muted = [], bt_letters = []\<rparr> in
      case rules of None \<Rightarrow> (ms, nothing, timed)
      | Some rs \<Rightarrow> if ms = [] \<or> rs = [] then (ms, nothing, timed)
          else case fold (batch_letter w fetch rs) (map (with_body html_text rs bodies) ms) (nothing, timed) of
            (b, t) \<Rightarrow> (filter (\<lambda>m. rm_id m \<notin> set (bt_removed b)) (map lp_msg (bt_letters b)), b, t))"

section \<open>The block list\<close>

text \<open>One letter of a blocked sender: whether it stays, and what was done.\<close>

definition block_letter :: "folders \<Rightarrow> io \<Rightarrow> rmsg \<Rightarrow> bool \<times> reffect list" where
  "block_letter fo i m = (case delete_letter fo i m of (out, m', effs) \<Rightarrow> (out \<noteq> Acted True, effs))"

definition applyBlockList :: "string list option \<Rightarrow> folders option \<Rightarrow> (rmsg \<Rightarrow> io) \<Rightarrow> rmsg list \<Rightarrow> rmsg list \<times> reffect list" where
  "applyBlockList blocked fo io ms = (case (blocked, fo) of
     (Some bs, Some f) \<Rightarrow> if ms = [] \<or> bs = [] then (ms, [])
       else (let hit = (\<lambda>m. js_lower (rm_from_email m) \<in> set (map js_lower bs))
         in (filter (\<lambda>m. \<not> hit m \<or> fst (block_letter f (io m) m)) ms, concat (map (\<lambda>m. snd (block_letter f (io m) m)) (filter hit ms))))
   | _ \<Rightarrow> (ms, []))"

end
