(* ===== verification/InboxProperties.thy ===== *)
theory InboxProperties
  imports InboxActions
begin

text \<open>
  The properties of the inbox rules: a letter is never moved away from a forward that failed, an unseen
  body decides nothing, and the counters of the folders follow the letter, except after a delete.
\<close>

section \<open>Loops of one letter\<close>

text \<open>
  What every action of a set keeps of a letter's loop, the rules keep, when it does not look at the
  loop's own flags.
\<close>

definition actions_in :: "raction set \<Rightarrow> irule list \<Rightarrow> bool" where
  "actions_in A rs \<longleftrightarrow> (\<forall>r\<in>set rs. set (ru_actions r) \<subseteq> A)"

locale letter_invariant =
  fixes w :: world and A :: "raction set" and Q :: "rmsg \<Rightarrow> (raction \<times> outcome) list \<Rightarrow> reffect list \<Rightarrow> bool"
  assumes action: "a \<in> A \<Longrightarrow> Q (lp_msg (s :: loop)) (lp_log s) (lp_effects s)
    \<Longrightarrow> Q (lp_msg (snd (run_action w a s))) (lp_log (snd (run_action w a s))) (lp_effects (snd (run_action w a s)))"
begin

definition holds :: "loop \<Rightarrow> bool" where
  "holds s \<longleftrightarrow> Q (lp_msg s) (lp_log s) (lp_effects s) \<and> set (lp_deferred s) \<subseteq> A"

lemma run_keeps_deferred: "lp_deferred (snd (run_action w a s)) = lp_deferred s"
  by (simp add: run_action_def split: prod.split)

lemma holds_action: "a \<in> A \<Longrightarrow> holds s \<Longrightarrow> holds (snd (run_action w a s))"
  using action by (simp add: holds_def run_keeps_deferred)

lemma holds_forward: "a \<in> A \<Longrightarrow> holds s \<Longrightarrow> holds (run_forward w a s)"
  using holds_action [of a s] by (auto simp: run_forward_def holds_def split: prod.splits)

lemma holds_execute: "a \<in> A \<Longrightarrow> holds s \<Longrightarrow> holds (executeNonForwardAction w a s)"
  using holds_action [of a s] by (auto simp: executeNonForwardAction_def holds_def split: prod.splits outcome.splits)

lemma holds_flush: "set as \<subseteq> A \<Longrightarrow> holds s \<Longrightarrow> holds (flush w as s)"
  by (induction as arbitrary: s) (simp_all add: holds_execute, simp add: holds_def)

lemma holds_flush_deferred: "holds s \<Longrightarrow> holds (flushDeferredDestinations w s)"
  using holds_flush [of "lp_deferred s" s] by (simp add: flushDeferredDestinations_def holds_def)

lemma holds_barrier: "holds s \<Longrightarrow> holds (pass_barrier w s)"
  unfolding pass_barrier_def by (rule holds_flush_deferred) (simp add: holds_def)

lemma holds_forwards: "set as \<subseteq> A \<Longrightarrow> holds s \<Longrightarrow> holds (fold (run_forward w) as s)"
  by (induction as arbitrary: s) (simp_all add: holds_forward)

lemma holds_ordinary: "set as \<subseteq> A \<Longrightarrow> holds s \<Longrightarrow> holds (ordinary w seen as s)"
proof (induction as arbitrary: s seen)
  case (Cons a as)
  moreover have "holds (s\<lparr>lp_deferred := lp_deferred s @ [a]\<rparr>)" using Cons.prems by (simp add: holds_def)
  ultimately show ?case by (simp add: holds_execute)
qed simp

lemma holds_rule: "set (ru_actions r) \<subseteq> A \<Longrightarrow> holds s \<Longrightarrow> holds (run_rule w final i r s)"
  unfolding run_rule_def Let_def by (intro holds_ordinary) (auto intro!: holds_barrier holds_forwards)

lemma holds_loop: "actions_in A rs \<Longrightarrow> holds s \<Longrightarrow> holds (fst (rules_loop w noheaders final i rs s timed))"
proof (induction rs arbitrary: i s timed)
  case (Cons r rs)
  then show ?case
    by (auto simp: actions_in_def holds_flush_deferred holds_barrier holds_rule split: prod.split)
qed (simp add: holds_flush_deferred)

lemma holds_letter:
  assumes "actions_in A rules" and "Q (snd (with_headers rules fetched m)) [] []"
    and "letter_rules w rules fetched removed blocked m timed = (s, t)"
  shows "Q (lp_msg s) (lp_log s) (lp_effects s)"
proof -
  obtain nh m1 where h: "with_headers rules fetched m = (nh, m1)" by fastforce
  have "holds (start_letter rules removed blocked m1)" using assms(2) by (simp add: holds_def start_letter_def h)
  from holds_loop [OF assms(1) this, of nh "lastForwardRuleIndex 0 None rules" 0 timed]
  show ?thesis using assms(3) by (simp add: letter_rules_def h holds_def)
qed

end

section \<open>Counters\<close>

definition total_delta :: "reffect list \<Rightarrow> string \<Rightarrow> int" where
  "total_delta effs f = sum_list (map (\<lambda>e. case e of Counts g t u \<Rightarrow> if g = f then t else 0 | _ \<Rightarrow> 0) effs)"

definition unread_delta :: "reffect list \<Rightarrow> string \<Rightarrow> int" where
  "unread_delta effs f = sum_list (map (\<lambda>e. case e of Counts g t u \<Rightarrow> if g = f then u else 0 | _ \<Rightarrow> 0) effs)"

text \<open>The letter counted in the folder it is in, and as unread there.\<close>

definition in_folder :: "rmsg \<Rightarrow> string \<Rightarrow> int" where
  "in_folder m f = of_bool (rm_folder m = f)"

definition unread_in :: "rmsg \<Rightarrow> string \<Rightarrow> int" where
  "unread_in m f = of_bool (rm_folder m = f \<and> \<not> rm_read m)"

definition counted :: "string \<Rightarrow> rmsg \<Rightarrow> rmsg \<Rightarrow> reffect list \<Rightarrow> bool" where
  "counted f m m' effs \<longleftrightarrow> total_delta effs f = in_folder m' f - in_folder m f \<and> unread_delta effs f = unread_in m' f - unread_in m f"

lemma delta_append [simp]: "total_delta (a @ b) f = total_delta a f + total_delta b f" "unread_delta (a @ b) f = unread_delta a f + unread_delta b f"
  by (simp_all add: total_delta_def unread_delta_def)

lemma delta_Nil [simp]: "total_delta [] f = 0" "unread_delta [] f = 0"
  by (simp_all add: total_delta_def unread_delta_def)

lemma delta_Cons: "total_delta (e # es) f = (case e of Counts g t u \<Rightarrow> if g = f then t else 0 | _ \<Rightarrow> 0) + total_delta es f"
  "unread_delta (e # es) f = (case e of Counts g t u \<Rightarrow> if g = f then u else 0 | _ \<Rightarrow> 0) + unread_delta es f"
  by (simp_all add: total_delta_def unread_delta_def)

lemma place_uncounted: "write_place dest i u m = (ok, effs) \<Longrightarrow> total_delta effs f = 0 \<and> unread_delta effs f = 0"
  by (auto simp: write_place_def delta_Cons split: option.splits if_splits)

lemma counts_moved_delta: "total_delta (counts_moved dest m) f = of_bool (dest = f) - in_folder m f"
  "unread_delta (counts_moved dest m) f = of_bool (dest = f) * unread m - unread_in m f"
  by (auto simp: counts_moved_def delta_Cons in_folder_def unread_in_def unread_def)

lemma counted_unchanged: "total_delta effs f = 0 \<Longrightarrow> unread_delta effs f = 0 \<Longrightarrow> counted f m m effs"
  by (simp add: counted_def)

lemma counted_guarded:
  assumes "guarded_move dest i m act = (out, m', effs)" and "\<And>u o' m1 e1. act u = (o', m1, e1) \<Longrightarrow> counted f m m1 e1"
  shows "counted f m m' effs"
proof -
  obtain e1 where e: "counted f m m' e1" "effs = [Guard (rm_folder m) (rm_uid m), ServerMove (rm_folder m) (rm_uid m) dest] @ e1 @ [Unguard (rm_folder m) (rm_uid m)]"
    using assms(1) by (cases "io_move i") (auto simp: guarded_move_def Let_def counted_unchanged split: prod.splits dest: assms(2))
  then show ?thesis by (simp add: counted_def delta_Cons)
qed

lemma counted_move:
  assumes "move_letter dest i m = (out, m', effs)"
  shows "counted f m m' effs"
proof (rule counted_guarded [OF assms [unfolded move_letter_def]])
  fix u o' m1 e1
  assume a: "(case write_place dest i u m of (ok, effs) \<Rightarrow> if \<not> ok then (Threw, m, effs)
      else (Acted True, m\<lparr>rm_folder := dest, rm_uid := (case new_uid u of Some v \<Rightarrow> v | None \<Rightarrow> rm_uid m)\<rparr>, effs @ counts_moved dest m)) = (o', m1, e1)"
  obtain ok e where w: "write_place dest i u m = (ok, e)" by fastforce
  show "counted f m m1 e1" using a place_uncounted [OF w, of f]
    by (auto simp: w counted_def counts_moved_delta in_folder_def unread_in_def unread_def split: if_splits)
qed

lemma counted_archive:
  assumes "archive_letter fo i m = (out, m', effs)" and "fo_all_mail fo \<longrightarrow> fo_archive fo \<noteq> Some f"
  shows "counted f m m' effs"
proof (cases "\<exists>dest. fo_archive fo = Some dest \<and> dest \<noteq> []")
  case True
  then obtain dest where d: "fo_archive fo = Some dest" "dest \<noteq> []" by blast
  show ?thesis
  proof (cases "fo_all_mail fo")
    case False
    then have "archive_letter fo i m = move_letter dest i m" using d by (simp add: archive_letter_def move_letter_def)
    then show ?thesis using counted_move [of dest i m out m' effs] assms(1) by simp
  next
    case True
    then have away: "dest \<noteq> f" using d assms(2) by simp
    show ?thesis
      by (rule counted_guarded [OF assms(1) [unfolded archive_letter_def d(1) option.simps if_not_P [OF d(2)]]])
        (use True away in \<open>auto simp: counted_def delta_Cons in_folder_def unread_in_def unread_def split: if_splits\<close>)
  qed
next
  case False
  then show ?thesis using assms(1) by (auto simp: archive_letter_def counted_def split: option.splits)
qed

lemma counted_action:
  assumes "applyAction fo i a m = (out, m', effs)" and "fo_all_mail fo \<longrightarrow> fo_archive fo \<noteq> Some f" and "a \<noteq> Delete"
  shows "counted f m m' effs"
proof (cases a)
  case MarkRead
  have flag: "total_delta (store_flag x i m) f = 0" "unread_delta (store_flag x i m) f = 0" for x
    by (simp_all add: store_flag_def delta_Cons)
  show ?thesis
  proof (cases "io_row i")
    case True
    then have r: "m' = m\<lparr>rm_read := True\<rparr>" "effs = RowRead # store_flag ''Seen'' i m @ (if rm_read m then [] else [Counts (rm_folder m) 0 (- 1)])"
      using assms(1) MarkRead by simp_all
    show ?thesis by (cases "rm_read m") (simp_all add: counted_def r delta_Cons flag in_folder_def unread_in_def)
  next
    case False
    then show ?thesis using assms(1) MarkRead by (simp add: counted_def)
  qed
next
  case Star
  then show ?thesis using assms(1) by (auto simp: counted_def delta_Cons store_flag_def split: if_splits)
next
  case (MoveTo dest)
  then show ?thesis using assms(1) counted_move [of dest i m out m' effs] by (auto simp: counted_def split: if_splits)
next
  case Archive
  then show ?thesis using assms counted_archive [of fo i m out m' effs] by simp
qed (use assms in \<open>auto simp: counted_def delta_Cons split: if_splits\<close>)

interpretation counters: letter_invariant w "{a. a \<noteq> Delete}" "\<lambda>m' log effs. (fo_all_mail (wd_folders w) \<longrightarrow> fo_archive (wd_folders w) \<noteq> Some f) \<longrightarrow> counted f m m' effs" for w f m
proof
  fix a and s :: loop
  assume a: "a \<in> {a. a \<noteq> Delete}" and q: "(fo_all_mail (wd_folders w) \<longrightarrow> fo_archive (wd_folders w) \<noteq> Some f) \<longrightarrow> counted f m (lp_msg s) (lp_effects s)"
  obtain out m' effs where r: "applyAction (wd_folders w) (wd_io w (length (lp_log s))) a (lp_msg s) = (out, m', effs)"
    by (metis prod_cases3)
  show "(fo_all_mail (wd_folders w) \<longrightarrow> fo_archive (wd_folders w) \<noteq> Some f) \<longrightarrow> counted f m (lp_msg (snd (run_action w a s))) (lp_effects (snd (run_action w a s)))"
    using q counted_action [OF r, of f] a by (auto simp: run_action_def r counted_def)
qed

text \<open>C7: Whatever the rules do to a letter short of deleting it, and whatever fails on the way, the changes
  to the counters of a folder add up to where the letter is now and whether it is read there: moved
  and read in any order, it is counted once, in one folder. The archive is left out when it is Gmail's All Mail: a letter
  archived there is counted down at its source, by this theorem, but its row is deleted and All Mail never counts it.\<close>
theorem counters_follow_the_letter:
  assumes "letter_rules w rules fetched removed blocked m timed = (s, t)" and "fo_all_mail (wd_folders w) \<longrightarrow> fo_archive (wd_folders w) \<noteq> Some f"
    and "\<forall>r\<in>set rules. Delete \<notin> set (ru_actions r)"
  shows "total_delta (lp_effects s) f = in_folder (lp_msg s) f - in_folder m f
    \<and> unread_delta (lp_effects s) f = unread_in (lp_msg s) f - unread_in m f"
proof -
  have "actions_in {a. a \<noteq> Delete} rules" using assms(3) by (auto simp: actions_in_def)
  moreover have "in_folder (snd (with_headers rules fetched m)) f = in_folder m f" "unread_in (snd (with_headers rules fetched m)) f = unread_in m f"
    by (auto simp: with_headers_def in_folder_def unread_in_def split: option.split)
  ultimately show ?thesis using counters.holds_letter [OF _ _ assms(1), of f m] assms(2) by (simp add: counted_def)
qed


definition ex_io :: io where
  "ex_io = \<lparr>io_forward = True, io_move = Moved (Some 7), io_flag = True, io_row = True\<rparr>"

definition ex_world :: "(nat \<Rightarrow> io) \<Rightarrow> world" where
  "ex_world ios = \<lparr>wd_rx = \<lparr>rx_compiles = (\<lambda>_. True), rx_test = (\<lambda>_ _. Tested False)\<rparr>,
     wd_folders = \<lparr>fo_archive = Some ''Archive'', fo_all_mail = False, fo_trash = Some ''Trash'', fo_trash_paths = [''Trash'']\<rparr>, wd_io = ios\<rparr>"

definition ex_letter :: rmsg where
  "ex_letter = \<lparr>rm_id = ''m'', rm_uid = 4, rm_folder = ''INBOX'', rm_from_email = ''a@x.org'', rm_from_name = ''A'', rm_to = [], rm_subject = ''News of May'',
     rm_attach = False, rm_read = False, rm_body = None, rm_headers = None\<rparr>"

definition ex_rule :: "raction list \<Rightarrow> irule" where
  "ex_rule as = \<lparr>ru_conditions = [\<lparr>cd_field = ''subject'', cd_operator = ''starts_with'', cd_value = ''news'', cd_header = []\<rparr>], ru_or = False,
     ru_actions = as, ru_stop = False\<rparr>"

theorem counters_follow_the_letter_witness:
  "\<exists>s t. letter_rules (ex_world (\<lambda>_. ex_io)) [ex_rule [MoveTo ''News'', MarkRead, Archive]] None False False ex_letter [] = (s, t)
     \<and> rm_folder (lp_msg s) = ''News'' \<and> total_delta (lp_effects s) ''News'' = 1 \<and> unread_delta (lp_effects s) ''INBOX'' = -1"
proof -
  let ?r = "letter_rules (ex_world (\<lambda>_. ex_io)) [ex_rule [MoveTo ''News'', MarkRead, Archive]] None False False ex_letter []"
  have p: "rm_folder (lp_msg (fst ?r)) = ''News'' \<and> rm_read (lp_msg (fst ?r))" by code_simp
  have r: "?r = (fst ?r, snd ?r)" by simp
  have c: "fo_all_mail (wd_folders (ex_world (\<lambda>_. ex_io))) \<longrightarrow> fo_archive (wd_folders (ex_world (\<lambda>_. ex_io))) \<noteq> Some f"
    "\<forall>x\<in>set [ex_rule [MoveTo ''News'', MarkRead, Archive]]. Delete \<notin> set (ru_actions x)" for f
    by (simp_all add: ex_world_def ex_rule_def)
  from counters_follow_the_letter [OF r c, of "''News''"] counters_follow_the_letter [OF r c, of "''INBOX''"] p show ?thesis
    by (intro exI [of _ "fst ?r"] exI [of _ "snd ?r"]) (simp add: in_folder_def unread_in_def ex_letter_def)
qed

section \<open>After a delete\<close>

text \<open>A deleted letter keeps its old folder and uid in memory, so marking it as read afterwards stores the
  flag at a uid the folder no longer has and takes it off the old folder's unread counter once more:
  the counter falls by two for one unread letter, and the trash keeps counting it as unread.\<close>
theorem deleted_letter_counted_twice:
  assumes "applyAction fo i Delete m = (Acted True, m1, e1)" and "applyAction fo j MarkRead m1 = (Acted False, m2, e2)" and "\<not> rm_read m"
    and "fo_trash fo = Some trash" and "trash \<in> set (fo_trash_paths fo)"
  shows "unread_delta (e1 @ e2) (rm_folder m) = -2 \<and> ServerFlag (rm_folder m) (rm_uid m) ''Seen'' \<in> set e2"
proof -
  have flag: "unread_delta (store_flag x j n) f = 0" for x n f by (simp add: store_flag_def delta_Cons)
  have m1: "m1 = m \<and> unread_delta e1 (rm_folder m) = -1"
  proof (cases "getDeleteStrategy (rm_folder m) (fo_trash fo) (Some (fo_trash_paths fo))")
    case (MoveIt dest)
    have away: "dest \<noteq> rm_folder m" using MoveIt assms(4,5) by (auto simp: getDeleteStrategy_def split: if_splits)
    obtain u where u: "io_move i = Moved u"
      using assms(1) MoveIt by (cases "io_move i") (auto simp: delete_letter_def guarded_move_def Let_def)
    obtain ok e where w: "write_place dest i u m = (ok, e)" by fastforce
    have r: "ok" "m1 = m" "e1 = [Guard (rm_folder m) (rm_uid m), ServerMove (rm_folder m) (rm_uid m) dest] @ (e @ counts_moved dest m) @ [Unguard (rm_folder m) (rm_uid m)]"
      using assms(1) by (auto simp: delete_letter_def MoveIt guarded_move_def Let_def u w split: if_splits)
    show ?thesis using away place_uncounted [OF w, of "rm_folder m"] assms(3)
      by (simp add: r delta_Cons counts_moved_delta unread_in_def)
  qed (use assms in \<open>auto simp: delete_letter_def delta_Cons unread_def Let_def split: if_splits\<close>)
  have e2: "e2 = RowRead # store_flag ''Seen'' j m @ [Counts (rm_folder m) 0 (-1)]"
    using assms(2,3) m1 by (auto split: if_splits)
  show ?thesis using m1 by (simp add: e2 delta_Cons flag) (simp add: store_flag_def)
qed


theorem deleted_letter_counted_twice_witness:
  "unread_delta (lp_effects (fst (letter_rules (ex_world (\<lambda>_. ex_io)) [ex_rule [Delete, MarkRead]] None False False ex_letter []))) ''INBOX'' = -2"
proof -
  let ?fo = "wd_folders (ex_world (\<lambda>_. ex_io))"
  let ?d = "applyAction ?fo ex_io Delete ex_letter"
  let ?e = "applyAction ?fo ex_io MarkRead (fst (snd ?d))"
  have d: "?d = (Acted True, fst (snd ?d), snd (snd ?d))" and e: "?e = (Acted False, fst (snd ?e), snd (snd ?e))" by code_simp+
  have t: "fo_trash ?fo = Some ''Trash''" "''Trash'' \<in> set (fo_trash_paths ?fo)" "\<not> rm_read ex_letter" by (simp_all add: ex_world_def ex_letter_def)
  have "lp_effects (fst (letter_rules (ex_world (\<lambda>_. ex_io)) [ex_rule [Delete, MarkRead]] None False False ex_letter [])) = snd (snd ?d) @ snd (snd ?e)"
    by code_simp
  then show ?thesis using deleted_letter_counted_twice [OF d e t(3,1,2)] by (simp add: ex_letter_def)
qed

section \<open>An unseen body\<close>

text \<open>
  A pattern that runs out of time is never tried again. With the body unseen no pattern is tried on it, so
  the patterns of a rule's body conditions must finish on the body for the two answers to be compared.
\<close>

definition body_in_time :: "regexes \<Rightarrow> cond list \<Rightarrow> string \<Rightarrow> bool" where
  "body_in_time rx cs body \<longleftrightarrow> list_all (\<lambda>c. cd_field c = ''body'' \<and> cd_operator c = ''regex''
     \<longrightarrow> rx_test rx (drop_leading_any (cd_value c)) (take RULE_TEXT_CHAR_CAP body) \<noteq> OutOfTime) cs"

text \<open>With the body unknown a condition says nothing, or what it says with any body.\<close>

lemma condition_other_body: "cd_field c \<noteq> ''body'' \<Longrightarrow> evaluateCondition rx c (m\<lparr>rm_body := a\<rparr>) timed = evaluateCondition rx c (m\<lparr>rm_body := b\<rparr>) timed"
  by (simp add: evaluateCondition_def header_of_def Let_def split del: if_split cong: if_cong)

lemma condition_unseen: "cd_field c = ''body'' \<Longrightarrow> fst (evaluateCondition rx c (m\<lparr>rm_body := None\<rparr>) timed) = None"
  by (simp add: evaluateCondition_def Let_def)

lemma condition_without_body:
  assumes "fst (evaluateCondition rx c (m\<lparr>rm_body := None\<rparr>) timed) = Some x"
  shows "fst (evaluateCondition rx c (m\<lparr>rm_body := b\<rparr>) timed) = Some x"
proof (cases "cd_field c = ''body''")
  case True
  then show ?thesis using assms by (simp add: condition_unseen)
next
  case False
  from condition_other_body [OF this, of rx None m timed b] show ?thesis using assms by (simp only:)
qed

lemma body_condition_same:
  assumes "cd_field c = ''body''" and "body_in_time rx [c] body"
  shows "snd (evaluateCondition rx c (m\<lparr>rm_body := Some body\<rparr>) timed) = timed"
  using assms by (auto simp: evaluateCondition_def known_def Let_def matchOperator_def matchUserRegex_def body_in_time_def split: rx_answer.split)

text \<open>Both runs leave the same patterns behind, and no condition that holds with the body unseen stops holding.\<close>

lemma conditions_agree:
  assumes "body_in_time rx cs body"
  shows "list_all2 (\<lambda>x y. x = Some True \<longrightarrow> y = Some True) (fst (evaluate_all rx cs (m\<lparr>rm_body := None\<rparr>) timed))
      (fst (evaluate_all rx cs (m\<lparr>rm_body := Some body\<rparr>) timed))
    \<and> snd (evaluate_all rx cs (m\<lparr>rm_body := Some body\<rparr>) timed) = snd (evaluate_all rx cs (m\<lparr>rm_body := None\<rparr>) timed)"
  using assms
proof (induction cs arbitrary: timed)
  case (Cons c cs)
  let ?none = "evaluateCondition rx c (m\<lparr>rm_body := None\<rparr>) timed" and ?body = "evaluateCondition rx c (m\<lparr>rm_body := Some body\<rparr>) timed"
  have prems: "body_in_time rx [c] body" "body_in_time rx cs body" using Cons.prems by (simp_all add: body_in_time_def)
  have same: "snd ?body = snd ?none"
  proof (cases "cd_field c = ''body''")
    case True
    then have "snd ?none = timed" by (simp add: evaluateCondition_def Let_def)
    then show ?thesis using body_condition_same [OF True prems(1)] by simp
  next
    case False
    from condition_other_body [OF this, of rx None m timed "Some body"] show ?thesis by (simp only:)
  qed
  have first: "fst ?none = Some True \<longrightarrow> fst ?body = Some True" using condition_without_body by blast
  have unfold: "evaluate_all rx (c # cs) x timed = (fst (evaluateCondition rx c x timed) # fst (evaluate_all rx cs x (snd (evaluateCondition rx c x timed))),
      snd (evaluate_all rx cs x (snd (evaluateCondition rx c x timed))))" for x
    by (simp add: case_prod_unfold)
  show ?case unfolding unfold same using Cons.IH [OF prems(2)] first by simp
qed (simp add: body_in_time_def)

text \<open>C8: A rule that matches a letter whose body nobody has seen matches it with every body it may turn out
  to have, and leaves the same patterns behind: an unseen body decides nothing, also not for conditions on what a body
  does not contain. The one condition: the regular expressions of the rule's conditions on the body finish on that body within
  their time (a pattern that does not is struck off, and a later condition with the same pattern then fails).\<close>
theorem unseen_body_decides_nothing:
  assumes "body_in_time rx (ru_conditions r) body" and "evaluateRule rx r (m\<lparr>rm_body := None\<rparr>) timed = (True, t)"
  shows "evaluateRule rx r (m\<lparr>rm_body := Some body\<rparr>) timed = (True, t)"
proof -
  note agree = conditions_agree [OF assms(1), of m timed]
  from assms(2) show ?thesis
    using conjunct1 [OF agree] conjunct2 [OF agree]
    by (auto simp: evaluateRule_def case_prod_unfold list_all2_conv_all_nth list_all_length in_set_conv_nth split: if_splits)
qed

definition ex_or_rule :: irule where
  "ex_or_rule = \<lparr>ru_conditions = [\<lparr>cd_field = ''body'', cd_operator = ''regex'', cd_value = ''x'', cd_header = []\<rparr>,
     \<lparr>cd_field = ''subject'', cd_operator = ''contains'', cd_value = ''may'', cd_header = []\<rparr>], ru_or = True, ru_actions = [Star], ru_stop = False\<rparr>"

theorem unseen_body_decides_nothing_witness:
  "evaluateRule (wd_rx (ex_world (\<lambda>_. ex_io))) ex_or_rule (ex_letter\<lparr>rm_body := Some ''x''\<rparr>) [] = (True, [])"
proof (rule unseen_body_decides_nothing)
  show "body_in_time (wd_rx (ex_world (\<lambda>_. ex_io))) (ru_conditions ex_or_rule) ''x''" by (simp add: body_in_time_def ex_world_def list_all_iff)
  show "evaluateRule (wd_rx (ex_world (\<lambda>_. ex_io))) ex_or_rule (ex_letter\<lparr>rm_body := None\<rparr>) [] = (True, [])" by code_simp
qed

end
