(* ===== verification/InboxBarrier.thy ===== *)
theory InboxBarrier
  imports InboxProperties
begin

text \<open>
  The barrier of the inbox rules: every forward of a letter runs before the letter is moved, archived or
  deleted, a letter whose forward failed stays where it is, and a letter that went away goes nowhere else.
\<close>

section \<open>The order of the actions\<close>

definition may_follow :: "raction \<times> outcome \<Rightarrow> raction \<times> outcome \<Rightarrow> bool" where
  "may_follow x y \<longleftrightarrow> (is_dest (fst x) \<longrightarrow> \<not> is_forward (fst y) \<and> (snd x = Acted True \<longrightarrow> \<not> is_dest (fst y)))"

definition no_dest :: "(raction \<times> outcome) list \<Rightarrow> bool" where
  "no_dest l \<longleftrightarrow> (\<forall>x\<in>set l. \<not> is_dest (fst x))"

definition forward_failed :: "(raction \<times> outcome) list \<Rightarrow> bool" where
  "forward_failed l \<longleftrightarrow> (\<exists>x\<in>set l. is_forward (fst x) \<and> snd x = Threw)"

definition went_away :: "(raction \<times> outcome) list \<Rightarrow> bool" where
  "went_away l \<longleftrightarrow> (\<exists>x\<in>set l. is_dest (fst x) \<and> snd x = Acted True)"

definition well_ordered :: "loop \<Rightarrow> bool" where
  "well_ordered s \<longleftrightarrow> sorted_wrt may_follow (lp_log s) \<and> (lp_passed s \<or> no_dest (lp_log s))
     \<and> (forward_failed (lp_log s) \<longrightarrow> lp_blocked s) \<and> (lp_blocked s \<longrightarrow> no_dest (lp_log s))
     \<and> (went_away (lp_log s) \<longrightarrow> lp_removed s) \<and> list_all is_dest (lp_deferred s)"

lemmas log_simps = no_dest_def forward_failed_def went_away_def

lemma dest_not_forward: "is_dest a \<Longrightarrow> \<not> is_forward a"
  by (cases a) (simp_all add: is_dest_def is_forward_def)

lemma run_action_log: "run_action w a s = (out, s1) \<Longrightarrow> lp_log s1 = lp_log s @ [(a, out)] \<and> lp_passed s1 = lp_passed s \<and> lp_blocked s1 = lp_blocked s
    \<and> lp_removed s1 = lp_removed s \<and> lp_deferred s1 = lp_deferred s"
  by (auto simp: run_action_def split: prod.splits)

lemma append_non_dest: "sorted_wrt may_follow l \<Longrightarrow> no_dest l \<or> \<not> is_forward a \<Longrightarrow> \<not> is_dest a \<Longrightarrow> sorted_wrt may_follow (l @ [(a, out)])"
  by (auto simp: sorted_wrt_append may_follow_def no_dest_def)

lemma append_dest: "sorted_wrt may_follow l \<Longrightarrow> \<not> went_away l \<Longrightarrow> is_dest a \<Longrightarrow> sorted_wrt may_follow (l @ [(a, out)])"
  by (auto simp: sorted_wrt_append may_follow_def went_away_def dest_not_forward)

section \<open>One action\<close>

lemma forward_ordered:
  assumes "well_ordered s" and "is_forward a" and "\<not> lp_passed s"
  shows "well_ordered (run_forward w a s) \<and> \<not> lp_passed (run_forward w a s)"
proof -
  obtain out s1 where r: "run_action w a s = (out, s1)" by fastforce
  have d: "\<not> is_dest a" using assms(2) dest_not_forward by blast
  have l: "no_dest (lp_log s)" "sorted_wrt may_follow (lp_log s)" using assms(1,3) by (simp_all add: well_ordered_def)
  from append_non_dest [OF l(2) _ d, of out] l(1) have "sorted_wrt may_follow (lp_log s @ [(a, out)])" by simp
  then show ?thesis using run_action_log [OF r] assms d l(1)
    by (auto simp: run_forward_def r well_ordered_def log_simps)
qed

lemma forwards_ordered: "well_ordered s \<Longrightarrow> list_all is_forward as \<Longrightarrow> \<not> lp_passed s
    \<Longrightarrow> well_ordered (fold (run_forward w) as s) \<and> \<not> lp_passed (fold (run_forward w) as s)"
  by (induction as arbitrary: s) (simp_all add: forward_ordered)

lemma execute_keeps: "lp_passed (executeNonForwardAction w a s) = lp_passed s \<and> lp_deferred (executeNonForwardAction w a s) = lp_deferred s"
  using run_action_log by (auto simp: executeNonForwardAction_def split: prod.split outcome.split)

lemma execute_ordered:
  assumes "well_ordered s" and "\<not> is_forward a" and "is_dest a \<longrightarrow> lp_passed s \<and> \<not> lp_removed s \<and> \<not> lp_blocked s"
  shows "well_ordered (executeNonForwardAction w a s)"
proof -
  obtain out s1 where r: "run_action w a s = (out, s1)" by fastforce
  have "sorted_wrt may_follow (lp_log s)" "went_away (lp_log s) \<longrightarrow> lp_removed s" using assms(1) by (simp_all add: well_ordered_def)
  then have "sorted_wrt may_follow (lp_log s @ [(a, out)])" using append_dest append_non_dest assms(2,3) by blast
  then show ?thesis using run_action_log [OF r] assms
    by (cases "is_dest a"; cases out) (auto simp: executeNonForwardAction_def r well_ordered_def log_simps)
qed

section \<open>Lists of actions\<close>

lemma flush_keeps: "lp_passed (flush w as s) = lp_passed s \<and> lp_deferred (flush w as s) = []"
  by (induction as arbitrary: s) (simp_all add: execute_keeps)

lemma flush_ordered: "well_ordered s \<Longrightarrow> list_all is_dest as \<Longrightarrow> lp_passed s \<Longrightarrow> well_ordered (flush w as s)"
proof (induction as arbitrary: s)
  case (Cons a as)
  have "lp_removed s \<or> lp_blocked s \<or> well_ordered (executeNonForwardAction w a s)"
    using Cons.prems execute_ordered [of s a w] by (auto simp: dest_not_forward)
  with Cons show ?case by (auto simp: execute_keeps)
qed (simp add: well_ordered_def)

lemma flush_deferred_ordered: "well_ordered s \<Longrightarrow> lp_passed s \<Longrightarrow> well_ordered (flushDeferredDestinations w s)"
  unfolding flushDeferredDestinations_def by (rule flush_ordered) (simp_all add: well_ordered_def)

lemma barrier_ordered: "well_ordered s \<Longrightarrow> well_ordered (pass_barrier w s) \<and> lp_passed (pass_barrier w s)"
  unfolding pass_barrier_def
  by (intro conjI flush_deferred_ordered) (simp_all add: well_ordered_def flushDeferredDestinations_def flush_keeps)

lemma ordinary_ordered: "well_ordered s \<Longrightarrow> list_all (\<lambda>a. \<not> is_forward a) as
    \<Longrightarrow> well_ordered (ordinary w seen as s) \<and> lp_passed (ordinary w seen as s) = lp_passed s"
proof (induction as arbitrary: s seen)
  case (Cons a as)
  have "well_ordered (s\<lparr>lp_deferred := lp_deferred s @ [a]\<rparr>)" if "is_dest a"
    using Cons.prems(1) that by (simp add: well_ordered_def)
  moreover have "well_ordered (executeNonForwardAction w a s)" if "\<not> (is_dest a \<and> (seen \<or> lp_removed s \<or> lp_blocked s))" "\<not> (is_dest a \<and> \<not> lp_passed s)"
    using Cons.prems that by (intro execute_ordered) auto
  ultimately show ?case using Cons by (simp add: execute_keeps)
qed simp

lemma rule_ordered:
  assumes "well_ordered s" and "lp_passed s \<longrightarrow> \<not> forwards_in r"
  shows "well_ordered (run_rule w final i r s) \<and> lp_passed (run_rule w final i r s) = (lp_passed s \<or> final = Some i \<or> ru_stop r)"
proof -
  define s1 where "s1 = fold (run_forward w) (filter is_forward (ru_actions r)) s"
  have "\<not> forwards_in r \<Longrightarrow> filter is_forward (ru_actions r) = []" by (auto simp: forwards_in_def list_ex_iff filter_empty_conv)
  then have s1: "well_ordered s1 \<and> lp_passed s1 = lp_passed s"
    using assms forwards_ordered [of s "filter is_forward (ru_actions r)" w] by (cases "lp_passed s") (auto simp: s1_def list_all_iff)
  define s2 where "s2 = (if \<not> lp_passed s1 \<and> (final = Some i \<or> ru_stop r) then pass_barrier w s1 else s1)"
  have "well_ordered s2 \<and> lp_passed s2 = (lp_passed s \<or> final = Some i \<or> ru_stop r)"
    using s1 barrier_ordered [of s1 w] by (auto simp: s2_def)
  moreover have "run_rule w final i r s = ordinary w False (filter (\<lambda>a. \<not> is_forward a) (ru_actions r)) s2"
    by (simp add: run_rule_def s1_def s2_def Let_def)
  ultimately show ?thesis using ordinary_ordered [of s2 "filter (\<lambda>a. \<not> is_forward a) (ru_actions r)" w False] by (simp add: list_all_iff)
qed

section \<open>The loop\<close>

text \<open>No rule forwards once the barrier is passed; before, the rule that passes it is still to come.\<close>

definition barrier_ahead :: "nat option \<Rightarrow> nat \<Rightarrow> irule list \<Rightarrow> bool \<Rightarrow> bool" where
  "barrier_ahead final i rs passed \<longleftrightarrow> (if passed then \<forall>r\<in>set rs. \<not> forwards_in r
     else \<exists>k. final = Some k \<and> i \<le> k \<and> k < i + length rs \<and> (\<forall>r\<in>set (drop (Suc k - i) rs). \<not> forwards_in r))"

lemma last_forward: "lastForwardRuleIndex i found rs = r
    \<Longrightarrow> (r = found \<and> (\<forall>x\<in>set rs. \<not> forwards_in x)) \<or> barrier_ahead r i rs False"
proof (induction rs arbitrary: i found)
  case (Cons x rs)
  from Cons.IH [of "Suc i" "if forwards_in x then Some i else found"] Cons.prems
  consider "r = (if forwards_in x then Some i else found)" "\<forall>x\<in>set rs. \<not> forwards_in x" | "barrier_ahead r (Suc i) rs False" by auto
  then show ?case
  proof cases
    case 2
    then obtain k where "r = Some k" "Suc i \<le> k" "k < Suc i + length rs" "\<forall>x\<in>set (drop (Suc k - Suc i) rs). \<not> forwards_in x"
      by (auto simp: barrier_ahead_def)
    moreover from this have "Suc k - i = Suc (Suc k - Suc i)" by simp
    ultimately show ?thesis by (auto simp: barrier_ahead_def)
  qed (auto simp: barrier_ahead_def)
qed simp

lemma ahead_step:
  assumes "barrier_ahead final i (r # rs) passed"
  shows "barrier_ahead final (Suc i) rs (passed \<or> final = Some i)" and "passed \<Longrightarrow> \<not> forwards_in r"
proof -
  show "barrier_ahead final (Suc i) rs (passed \<or> final = Some i)"
  proof (cases "passed \<or> final = Some i")
    case False
    then obtain k where k0: "final = Some k" "i \<le> k" "k < i + length (r # rs)" "\<forall>r\<in>set (drop (Suc k - i) (r # rs)). \<not> forwards_in r"
      using assms unfolding barrier_ahead_def by auto
    then have k: "Suc i \<le> k" using False by (cases "i = k") auto
    moreover note k0(1,3,4)
    moreover from k have "Suc k - i = Suc (Suc k - Suc i)" by simp
    ultimately show ?thesis using False by (auto simp: barrier_ahead_def)
  qed (use assms in \<open>auto simp: barrier_ahead_def split: if_splits\<close>)
qed (use assms in \<open>simp add: barrier_ahead_def\<close>)

lemma loop_ordered: "well_ordered s \<Longrightarrow> barrier_ahead final i rs (lp_passed s) \<Longrightarrow> well_ordered (fst (rules_loop w noheaders final i rs s timed))"
proof (induction rs arbitrary: i s timed)
  case Nil
  then have "lp_passed s" by (auto simp: barrier_ahead_def split: if_splits)
  with Nil show ?case by (simp add: flush_deferred_ordered)
next
  case (Cons r rs)
  obtain matches t1 where m: "(if noheaders \<and> header_rule r then (False, timed) else evaluateRule (wd_rx w) r (lp_msg s) timed) = (matches, t1)"
    by fastforce
  note ahead = ahead_step [OF Cons.prems(2)]
  have rule: "well_ordered (run_rule w final i r s)" "lp_passed (run_rule w final i r s) = (lp_passed s \<or> final = Some i \<or> ru_stop r)"
    using rule_ordered [of s r w final i] Cons.prems(1) ahead(2) by blast+
  define s' where "s' = (if \<not> lp_passed s \<and> final = Some i then pass_barrier w s else s)"
  have s': "well_ordered s'" "lp_passed s' = (lp_passed s \<or> final = Some i)"
    using Cons.prems(1) barrier_ordered [of s w] by (auto simp: s'_def)
  show ?case
  proof (cases "\<not> matches")
    case True
    then show ?thesis using Cons.IH [of s' "Suc i" t1] s' ahead(1) by (simp only: rules_loop.simps m s'_def) simp
  next
    case False
    then show ?thesis using Cons.IH [of "run_rule w final i r s" "Suc i" t1] rule ahead(1) flush_deferred_ordered [OF rule(1)]
      by (cases "ru_stop r") (simp_all only: rules_loop.simps m, simp_all)
  qed
qed

section \<open>The letter\<close>

lemma letter_ordered:
  assumes "letter_rules w rules fetched removed blocked m timed = (s, t)"
  shows "well_ordered s"
proof -
  obtain nh m1 where h: "with_headers rules fetched m = (nh, m1)" by fastforce
  let ?f = "lastForwardRuleIndex 0 None rules"
  have "barrier_ahead ?f 0 rules (?f = None)"
    using last_forward [of 0 None rules ?f] by (auto simp: barrier_ahead_def)
  then have "well_ordered (fst (rules_loop w nh ?f 0 rules (start_letter rules removed blocked m1) timed))"
    by (intro loop_ordered) (simp_all add: well_ordered_def start_letter_def log_simps)
  then show ?thesis using assms by (simp add: letter_rules_def h)
qed

text \<open>C6: Whatever the rules of an account are and whatever fails, no forward of a letter runs after an action that
  moves, archives or deletes it, no such action runs once a forward failed, so that a letter whose
  forward failed is still where it was, and a letter that went away is not moved a second time.\<close>
theorem forwards_run_before_the_letter_moves:
  assumes "letter_rules w rules fetched removed blocked m timed = (s, t)" and "lp_log s = xs @ (a, out) # ys" and "is_dest a"
  shows "(\<forall>x\<in>set ys. \<not> is_forward (fst x) \<and> (out = Acted True \<longrightarrow> \<not> is_dest (fst x)))
    \<and> (\<forall>x\<in>set (xs @ ys). is_forward (fst x) \<longrightarrow> snd x \<noteq> Threw)"
proof -
  have o: "well_ordered s" by (rule letter_ordered [OF assms(1)])
  then have "sorted_wrt may_follow (xs @ (a, out) # ys)" unfolding well_ordered_def assms(2) by blast
  then have "\<forall>y\<in>set ys. may_follow (a, out) y" by (simp add: sorted_wrt_append)
  moreover have "\<not> forward_failed (lp_log s)" using o assms(2,3) by (auto simp: well_ordered_def no_dest_def)
  ultimately show ?thesis using assms(2,3) by (auto simp: may_follow_def forward_failed_def)
qed

theorem forwards_run_before_the_letter_moves_witness:
  "\<exists>s t. letter_rules (ex_world (\<lambda>_. ex_io)) [ex_rule [MoveTo ''News'', Star], ex_rule [Forward ''b'']] None False False ex_letter [] = (s, t)
     \<and> rm_folder (lp_msg s) = ''News'' \<and> lp_log s = [(Star, Acted False), (Forward ''b'', Acted False), (MoveTo ''News'', Acted True)]
     \<and> snd (lp_log s ! 1) \<noteq> Threw"
proof -
  let ?r = "letter_rules (ex_world (\<lambda>_. ex_io)) [ex_rule [MoveTo ''News'', Star], ex_rule [Forward ''b'']] None False False ex_letter []"
  have r: "?r = (fst ?r, snd ?r)" by simp
  have l: "lp_log (fst ?r) = [(Star, Acted False), (Forward ''b'', Acted False)] @ (MoveTo ''News'', Acted True) # []"
    and f: "rm_folder (lp_msg (fst ?r)) = ''News''" by code_simp+
  have "is_dest (MoveTo ''News'')" "is_forward (Forward ''b'')" by (simp_all add: is_dest_def is_forward_def)
  with forwards_run_before_the_letter_moves [OF r l] l f show ?thesis
    by (intro exI [of _ "fst ?r"] exI [of _ "snd ?r"]) simp
qed

end
