(* ===== verification/RateLimits.thy ===== *)
theory RateLimits
  imports Rex
begin

text \<open>
  Limits on attempts: the fixed windows of \<open>services/rateLimiter.js\<close>, kept in Redis or, when Redis
  fails, in this process, and the limits of sign-in and of the other open routes over them
  (\<open>services/authLimiter.js\<close>). The commands of Redis act on a map from keys to counters with the
  moment they expire; times are milliseconds.
\<close>

section \<open>Windows\<close>

record limits =
  rl_redis :: "string \<rightharpoonup> int \<times> int option"
  rl_memory :: "string \<rightharpoonup> int \<times> int"

text \<open>A command goes through, never reaches Redis, or loses its answer after it took effect.\<close>

datatype reply = Answered | Unreached | AnswerLost

definition live :: "limits \<Rightarrow> int \<Rightarrow> string \<Rightarrow> (int \<times> int option) option" where
  "live s now key = (case rl_redis s key of None \<Rightarrow> None
     | Some (n, till) \<Rightarrow> if (case till of None \<Rightarrow> True | Some t \<Rightarrow> now \<le> t) then Some (n, till) else None)"

definition redis_incr :: "int \<Rightarrow> string \<Rightarrow> limits \<Rightarrow> int \<times> limits" where
  "redis_incr now key s = (case live s now key of None \<Rightarrow> (1, s\<lparr>rl_redis := (rl_redis s)(key \<mapsto> (1, None))\<rparr>)
     | Some (n, till) \<Rightarrow> (n + 1, s\<lparr>rl_redis := (rl_redis s)(key \<mapsto> (n + 1, till))\<rparr>))"

definition redis_pExpire :: "int \<Rightarrow> string \<Rightarrow> int \<Rightarrow> limits \<Rightarrow> limits" where
  "redis_pExpire now key ms s = (case live s now key of None \<Rightarrow> s
     | Some (n, till) \<Rightarrow> s\<lparr>rl_redis := (rl_redis s)(key \<mapsto> (n, Some (now + ms)))\<rparr>)"

definition redis_pTTL :: "int \<Rightarrow> string \<Rightarrow> limits \<Rightarrow> int" where
  "redis_pTTL now key s = (case live s now key of None \<Rightarrow> - 2 | Some (n, None) \<Rightarrow> - 1 | Some (n, Some t) \<Rightarrow> t - now)"

definition redis_del :: "string \<Rightarrow> limits \<Rightarrow> limits" where
  "redis_del key s = s\<lparr>rl_redis := (rl_redis s)(key := None)\<rparr>"

text \<open>The key in Redis.\<close>

definition redis_key :: "string \<Rightarrow> string" where
  "redis_key key = ''rl:'' @ key"

definition consume_memory :: "int \<Rightarrow> string \<Rightarrow> int \<Rightarrow> int \<Rightarrow> limits \<Rightarrow> (bool \<times> int) \<times> limits" where
  "consume_memory now key mx window s =
     (let fresh = ((mx < 1, window), s\<lparr>rl_memory := (rl_memory s)(key \<mapsto> (1, now + window))\<rparr>) in
      case rl_memory s key of None \<Rightarrow> fresh
      | Some (n, resetAt) \<Rightarrow> if now > resetAt then fresh
          else ((n + 1 > mx, resetAt - now), s\<lparr>rl_memory := (rl_memory s)(key \<mapsto> (n + 1, resetAt))\<rparr>))"

definition consume :: "(nat \<Rightarrow> reply) \<Rightarrow> int \<Rightarrow> string \<Rightarrow> int \<Rightarrow> int \<Rightarrow> limits \<Rightarrow> (bool \<times> int) \<times> limits" where
  "consume up now key mx window s =
     (let rk = redis_key key; else_memory = consume_memory now key mx window; (count, s1) = redis_incr now rk s in
      case up 0 of Unreached \<Rightarrow> else_memory s | AnswerLost \<Rightarrow> else_memory s1
      | Answered \<Rightarrow>
          if count = 1 then (case up 1 of Unreached \<Rightarrow> else_memory s1 | AnswerLost \<Rightarrow> else_memory (redis_pExpire now rk window s1)
            | Answered \<Rightarrow> ((mx < 1, window), redis_pExpire now rk window s1))
          else if up 1 \<noteq> Answered then else_memory s1
          else (let ttl = redis_pTTL now rk s1 in
            if ttl < 0 then (case up 2 of Unreached \<Rightarrow> else_memory s1 | AnswerLost \<Rightarrow> else_memory (redis_pExpire now rk window s1)
              | Answered \<Rightarrow> ((count > mx, window), redis_pExpire now rk window s1))
            else ((count > mx, ttl), s1)))"

definition peek_memory :: "int \<Rightarrow> string \<Rightarrow> int \<Rightarrow> limits \<Rightarrow> bool \<times> int" where
  "peek_memory now key mx s = (case rl_memory s key of None \<Rightarrow> (False, 0)
     | Some (n, resetAt) \<Rightarrow> if now > resetAt \<or> n < mx then (False, 0) else (True, resetAt - now))"

definition peek :: "(nat \<Rightarrow> reply) \<Rightarrow> int \<Rightarrow> string \<Rightarrow> int \<Rightarrow> int \<Rightarrow> limits \<Rightarrow> bool \<times> int" where
  "peek up now key mx window s =
     (if up 0 \<noteq> Answered then peek_memory now key mx s
      else let count = (case live s now (redis_key key) of None \<Rightarrow> 0 | Some (n, till) \<Rightarrow> n) in
        if count < mx then (False, 0)
        else if up 1 \<noteq> Answered then peek_memory now key mx s
        else let ttl = redis_pTTL now (redis_key key) s in (True, if ttl > 0 then ttl else window))"

definition reset :: "reply \<Rightarrow> string \<Rightarrow> limits \<Rightarrow> limits" where
  "reset up key s = (let s1 = (if up = Unreached then s else redis_del (redis_key key) s) in s1\<lparr>rl_memory := (rl_memory s1)(key := None)\<rparr>)"

definition prune :: "int \<Rightarrow> limits \<Rightarrow> limits" where
  "prune now s = s\<lparr>rl_memory := (\<lambda>k. case rl_memory s k of None \<Rightarrow> None | Some (n, resetAt) \<Rightarrow> if now > resetAt then None else Some (n, resetAt))\<rparr>"

section \<open>Settings\<close>

record limiter_config =
  lc_max :: int
  lc_window :: int

definition authLimiterConfig :: limiter_config where
  "authLimiterConfig = \<lparr>lc_max = 10, lc_window = 15 * 60 * 1000\<rparr>"

text \<open>\<open>parseInt\<close>, with its prefix of a hexadecimal number.\<close>

definition js_parseInt :: "string \<Rightarrow> int option" where
  "js_parseInt v = (let t = js_trim_start v; neg = (t \<noteq> [] \<and> hd t = CHR ''-'');
       u = (if t \<noteq> [] \<and> (hd t = CHR ''-'' \<or> hd t = CHR ''+'') then tl t else t);
       hex = (take 2 (js_lower u) = ''0x'');
       ds = (if hex then takeWhile hex_digit (js_lower (drop 2 u)) else takeWhile js_digit u)
     in if ds = [] then None else Some ((if neg then - 1 else 1) * int (if hex then hex_number 0 ds else digits_value 0 ds)))"

definition setting_row :: "string \<times> string \<Rightarrow> limiter_config \<Rightarrow> limiter_config" where
  "setting_row row c = (case js_parseInt (snd row) of None \<Rightarrow> c
     | Some v \<Rightarrow> if fst row = ''auth_max_attempts'' then (if 1 \<le> v \<and> v \<le> 100 then c\<lparr>lc_max := v\<rparr> else c)
         else if fst row = ''auth_window_minutes'' then (if 1 \<le> v \<and> v \<le> 1440 then c\<lparr>lc_window := v * 60 * 1000\<rparr> else c)
         else c)"

text \<open>\<open>None\<close>: the settings could not be read.\<close>

definition reloadAuthSettings :: "(string \<times> string) list option \<Rightarrow> limiter_config \<Rightarrow> limiter_config" where
  "reloadAuthSettings rows c = (case rows of None \<Rightarrow> c | Some rs \<Rightarrow> fold setting_row rs c)"

section \<open>The limits of the routes\<close>

definition ADDRESS_LIMIT_FACTOR :: int where "ADDRESS_LIMIT_FACTOR = 10"
definition ACCOUNT_LIMIT_FACTOR :: int where "ACCOUNT_LIMIT_FACTOR = 10"

definition limitedIdentity :: "string option \<Rightarrow> string option" where
  "limitedIdentity v = (case v of None \<Rightarrow> None
     | Some s \<Rightarrow> let normalized = js_lower (js_trim s) in if normalized = [] then None else Some (take 320 normalized))"

text \<open>A request that goes on takes along the keys it may clear; one that does not is told when to retry, in seconds.\<close>

datatype 'a limited = TooMany int | Go 'a

definition tooMany :: "int \<Rightarrow> 'a limited" where
  "tooMany ms = TooMany (- ((- ms) div 1000))"

definition ip_key :: "string \<Rightarrow> string \<Rightarrow> string" where
  "ip_key purpose ip = ''auth:'' @ purpose @ ''-ip:'' @ ip"

definition acct_key :: "string \<Rightarrow> string \<Rightarrow> string" where
  "acct_key purpose acct = ''auth:'' @ purpose @ ''-acct:'' @ acct"

definition acct_ip_key :: "string \<Rightarrow> string \<Rightarrow> string \<Rightarrow> string" where
  "acct_ip_key purpose acct ip = ''auth:'' @ purpose @ ''-acct-ip:'' @ acct @ ''|'' @ ip"

definition limit_buckets :: "limiter_config \<Rightarrow> string \<Rightarrow> string option \<Rightarrow> string \<Rightarrow> (string \<times> int) list" where
  "limit_buckets c purpose identity ip = (case identity of
     Some i \<Rightarrow> if i = [] then [(ip_key purpose ip, lc_max c)] else [(acct_key purpose i, lc_max c), (ip_key purpose ip, lc_max c * ADDRESS_LIMIT_FACTOR)]
   | None \<Rightarrow> [(ip_key purpose ip, lc_max c)])"

text \<open>Every bucket is counted; \<open>ups n\<close> are the answers to the commands for the bucket \<open>n\<close>.\<close>

fun consume_all :: "(nat \<Rightarrow> nat \<Rightarrow> reply) \<Rightarrow> int \<Rightarrow> int \<Rightarrow> (string \<times> int) list \<Rightarrow> int \<Rightarrow> limits \<Rightarrow> int \<times> limits" where
  "consume_all ups now window [] retry s = (retry, s)"
| "consume_all ups now window ((key, mx) # bs) retry s = (case consume (ups 0) now key mx window s of
     ((hit, ms), s1) \<Rightarrow> consume_all (\<lambda>n. ups (Suc n)) now window bs (if hit then max retry ms else retry) s1)"

definition createAuthRateLimit :: "limiter_config \<Rightarrow> string \<Rightarrow> string option \<Rightarrow> (nat \<Rightarrow> nat \<Rightarrow> reply) \<Rightarrow> int \<Rightarrow> string \<Rightarrow> limits \<Rightarrow> string limited \<times> limits" where
  "createAuthRateLimit c purpose identity ups now ip s =
     (let buckets = limit_buckets c purpose identity ip in
      case consume_all ups now (lc_window c) buckets 0 s of (retry, s1) \<Rightarrow>
        (if retry \<noteq> 0 then tooMany retry else Go (fst (hd buckets)), s1))"

section \<open>Sign-in\<close>

definition account_buckets :: "limiter_config \<Rightarrow> string \<Rightarrow> string option \<Rightarrow> string \<Rightarrow> (string \<times> int) list" where
  "account_buckets c purpose account ip = (case account of None \<Rightarrow> []
     | Some a \<Rightarrow> if a = [] then [] else [(acct_ip_key purpose a ip, lc_max c), (acct_key purpose a, lc_max c * ACCOUNT_LIMIT_FACTOR)])"

definition ip_bucket :: "limiter_config \<Rightarrow> string \<Rightarrow> string \<Rightarrow> string \<times> int" where
  "ip_bucket c purpose ip = (ip_key purpose ip, lc_max c * ADDRESS_LIMIT_FACTOR)"

fun peek_all :: "(nat \<Rightarrow> nat \<Rightarrow> reply) \<Rightarrow> int \<Rightarrow> int \<Rightarrow> (string \<times> int) list \<Rightarrow> int \<Rightarrow> limits \<Rightarrow> int" where
  "peek_all ups now window [] retry s = retry"
| "peek_all ups now window ((key, mx) # bs) retry s = (case peek (ups 0) now key mx window s of
     (hit, ms) \<Rightarrow> peek_all (\<lambda>n. ups (Suc n)) now window bs (if hit then max retry ms else retry) s)"

text \<open>A sign-in that went on: its buckets and the window of its time.\<close>

record sign_in =
  si_buckets :: "(string \<times> int) list"
  si_window :: int

definition createLoginLimit :: "limiter_config \<Rightarrow> string \<Rightarrow> bool \<Rightarrow> (nat \<Rightarrow> nat \<Rightarrow> reply) \<Rightarrow> int \<Rightarrow> string \<Rightarrow> string option \<Rightarrow> limits \<Rightarrow> sign_in limited" where
  "createLoginLimit c purpose trusted ups now ip account s =
     (let accounts = account_buckets c purpose account ip; ipb = ip_bucket c purpose ip;
          hit_ip = peek (ups 0) now (fst ipb) (snd ipb) (lc_window c) s;
          retry = (if fst hit_ip then snd hit_ip else 0);
          accountRetry = peek_all (\<lambda>n. ups (Suc n)) now (lc_window c) accounts 0 s;
          retry1 = (if accountRetry \<noteq> 0 \<and> \<not> trusted then max retry accountRetry else retry)
      in if retry1 \<noteq> 0 then tooMany retry1 else Go \<lparr>si_buckets = ipb # accounts, si_window = lc_window c\<rparr>)"

definition recordAuthFailure :: "(nat \<Rightarrow> nat \<Rightarrow> reply) \<Rightarrow> int \<Rightarrow> sign_in \<Rightarrow> limits \<Rightarrow> limits" where
  "recordAuthFailure ups now r s = snd (consume_all ups now (si_window r) (si_buckets r) 0 s)"

text \<open>A success clears the counter of the account from this address only.\<close>

definition resetRateLimit :: "reply \<Rightarrow> sign_in \<Rightarrow> limits \<Rightarrow> limits" where
  "resetRateLimit up r s = (case si_buckets r of ipb # (key, mx) # bs \<Rightarrow> reset up key s | _ \<Rightarrow> s)"

end
