(* ===== verification/RateProperties.thy ===== *)
theory RateProperties
  imports RateLimits
begin

text \<open>
  The properties of the limits on attempts: how many requests a window lets through, how many failures
  of sign-in a counter takes with several sign-ins under way, and the millisecond in which a limit
  is not applied. A call counts as one step; its commands do not interleave with another's.
\<close>

section \<open>Fixed windows\<close>

text \<open>
  A counter with a window: a hit after the end of the window opens a new one, a hit within it counts.
\<close>

locale fixed_window =
  fixes hit :: "int \<Rightarrow> 's \<Rightarrow> bool \<times> 's" and counted_so_far :: "'s \<Rightarrow> int" and ends :: "'s \<Rightarrow> int option" and ok :: "'s \<Rightarrow> bool"
    and mx :: int and window :: int
  assumes opens: "ok s \<Longrightarrow> (case ends s of None \<Rightarrow> True | Some t \<Rightarrow> now > t) \<Longrightarrow> 0 < window
      \<Longrightarrow> fst (hit now s) = (mx < 1) \<and> counted_so_far (snd (hit now s)) = 1 \<and> ends (snd (hit now s)) = Some (now + window)"
    and counts: "ok s \<Longrightarrow> ends s = Some t \<Longrightarrow> now \<le> t \<Longrightarrow> 0 < window
      \<Longrightarrow> fst (hit now s) = (counted_so_far s + 1 > mx) \<and> counted_so_far (snd (hit now s)) = counted_so_far s + 1 \<and> ends (snd (hit now s)) = Some t"
    and stays_ok: "ok s \<Longrightarrow> 0 < window \<Longrightarrow> ok (snd (hit now s))"
begin

fun passed :: "int list \<Rightarrow> 's \<Rightarrow> int" where
  "passed [] s = 0"
| "passed (t # ts) s = of_bool (\<not> fst (hit t s)) + passed ts (snd (hit t s))"

lemma within_window: "ok s \<Longrightarrow> ends s = Some e \<Longrightarrow> \<forall>t\<in>set ts. t \<le> e \<Longrightarrow> 0 < window
    \<Longrightarrow> passed ts s \<le> max 0 (mx - counted_so_far s)"
proof (induction ts arbitrary: s)
  case (Cons t ts)
  have c: "fst (hit t s) = (counted_so_far s + 1 > mx)" "counted_so_far (snd (hit t s)) = counted_so_far s + 1" "ends (snd (hit t s)) = Some e"
    using counts [OF Cons.prems(1,2)] Cons.prems(3,4) by auto
  have "passed ts (snd (hit t s)) \<le> max 0 (mx - (counted_so_far s + 1))"
    using Cons.IH [of "snd (hit t s)"] stays_ok [OF Cons.prems(1,4)] Cons.prems(3,4) c by simp
  then show ?case using c by (auto simp: of_bool_def)
qed simp

lemma new_window:
  assumes "ok s" "case ends s of None \<Rightarrow> True | Some e \<Rightarrow> t > e" "0 < window" "0 \<le> mx" "\<forall>u\<in>set ts. u \<le> t + window"
  shows "passed (t # ts) s \<le> mx"
proof -
  note o = opens [OF assms(1,2,3)]
  have "passed ts (snd (hit t s)) \<le> max 0 (mx - 1)"
    using within_window [of "snd (hit t s)" "t + window" ts] stays_ok [OF assms(1,3)] o assms(3,5) by simp
  then show ?thesis using o assms(4) by (auto simp: of_bool_def)
qed

lemma two_windows: "ok s \<Longrightarrow> (ends s \<noteq> None \<Longrightarrow> 0 \<le> counted_so_far s) \<Longrightarrow> sorted_wrt (\<le>) ts \<Longrightarrow> \<forall>t\<in>set ts. a \<le> t \<and> t \<le> a + window
    \<Longrightarrow> 0 < window \<Longrightarrow> 0 \<le> mx \<Longrightarrow> passed ts s \<le> mx + max 0 (mx - (if ends s = None then 0 else counted_so_far s))"
proof (induction ts arbitrary: s)
  case (Cons t ts)
  show ?case
  proof (cases "case ends s of None \<Rightarrow> True | Some e \<Rightarrow> t > e")
    case True
    have "\<forall>u\<in>set ts. u \<le> t + window"
    proof
      fix u assume "u \<in> set ts"
      then have "u \<le> a + window" "a \<le> t" using Cons.prems(4) by auto
      then show "u \<le> t + window" by linarith
    qed
    from new_window [OF Cons.prems(1) True Cons.prems(5,6) this]
    have "passed (t # ts) s \<le> mx" .
    moreover have "0 \<le> max 0 (mx - (if ends s = None then 0 else counted_so_far s))" by simp
    ultimately show ?thesis by linarith
  next
    case False
    then obtain e where e: "ends s = Some e" "t \<le> e" by (auto split: option.splits)
    note c = counts [OF Cons.prems(1) e Cons.prems(5)]
    have "passed ts (snd (hit t s)) \<le> mx + max 0 (mx - (counted_so_far s + 1))"
      using Cons.IH [of "snd (hit t s)"] stays_ok [OF Cons.prems(1,5)] Cons.prems c e by simp
    then show ?thesis using c e Cons.prems(6) by (auto simp: of_bool_def)
  qed
qed (simp add: max_def)

end

definition answering :: "nat \<Rightarrow> reply" where
  "answering n = Answered"

definition unreachable :: "nat \<Rightarrow> reply" where
  "unreachable n = Unreached"

text \<open>Every counter in Redis has an end, or this one has not been opened.\<close>

definition timed_key :: "string \<Rightarrow> limits \<Rightarrow> bool" where
  "timed_key key s \<longleftrightarrow> (case rl_redis s (redis_key key) of None \<Rightarrow> True | Some (n, till) \<Rightarrow> till \<noteq> None \<and> 1 \<le> n)"

definition redis_count :: "string \<Rightarrow> limits \<Rightarrow> int" where
  "redis_count key s = (case rl_redis s (redis_key key) of None \<Rightarrow> 0 | Some (n, till) \<Rightarrow> n)"

definition redis_end :: "string \<Rightarrow> limits \<Rightarrow> int option" where
  "redis_end key s = (case rl_redis s (redis_key key) of None \<Rightarrow> None | Some (n, till) \<Rightarrow> till)"

lemmas key_simps = timed_key_def redis_count_def redis_end_def live_def redis_incr_def redis_pExpire_def redis_pTTL_def

definition window_hit :: "(nat \<Rightarrow> reply) \<Rightarrow> string \<Rightarrow> int \<Rightarrow> int \<Rightarrow> int \<Rightarrow> limits \<Rightarrow> bool \<times> limits" where
  "window_hit up key mx window now s = (case consume up now key mx window s of ((hit, ms), s1) \<Rightarrow> (hit, s1))"

lemma consume_fresh:
  assumes "timed_key key s" and "case redis_end key s of None \<Rightarrow> True | Some t \<Rightarrow> now > t" and "0 \<le> window"
  shows "consume answering now key mx window s = ((mx < 1, window), s\<lparr>rl_redis := (rl_redis s)(redis_key key \<mapsto> (1, Some (now + window)))\<rparr>)"
proof -
  have "live s now (redis_key key) = None" using assms(1,2) by (auto simp: key_simps split: option.splits)
  then show ?thesis using assms(3) by (simp add: consume_def answering_def redis_incr_def redis_pExpire_def live_def)
qed

lemma consume_within:
  assumes "timed_key key s" and "redis_end key s = Some t" and "now \<le> t"
  shows "consume answering now key mx window s = ((redis_count key s + 1 > mx, t - now),
    s\<lparr>rl_redis := (rl_redis s)(redis_key key \<mapsto> (redis_count key s + 1, Some t))\<rparr>)"
proof -
  obtain n where n: "rl_redis s (redis_key key) = Some (n, Some t)" "1 \<le> n" "redis_count key s = n"
    using assms(1,2) by (auto simp: key_simps split: option.splits)
  then show ?thesis using assms(3) by (simp add: consume_def answering_def key_simps)
qed

interpretation redis_windows: fixed_window "window_hit answering key mx window" "redis_count key" "redis_end key" "timed_key key" mx window for key mx window
proof
  fix s now
  assume a: "timed_key key s" "case redis_end key s of None \<Rightarrow> True | Some t \<Rightarrow> now > t" "0 < window"
  show "fst (window_hit answering key mx window now s) = (mx < 1) \<and> redis_count key (snd (window_hit answering key mx window now s)) = 1
      \<and> redis_end key (snd (window_hit answering key mx window now s)) = Some (now + window)"
    using consume_fresh [OF a(1,2), of window mx] a(3) by (simp add: window_hit_def redis_count_def redis_end_def)
next
  fix s t now
  assume a: "timed_key key s" "redis_end key s = Some t" "now \<le> t" "0 < window"
  show "fst (window_hit answering key mx window now s) = (mx < redis_count key s + 1)
      \<and> redis_count key (snd (window_hit answering key mx window now s)) = redis_count key s + 1
      \<and> redis_end key (snd (window_hit answering key mx window now s)) = Some t"
    using consume_within [OF a(1-3), of mx window] by (simp add: window_hit_def) (simp add: redis_count_def redis_end_def)
next
  fix s now
  assume a: "timed_key key s" "0 < window"
  show "timed_key key (snd (window_hit answering key mx window now s))"
  proof (cases "case redis_end key s of None \<Rightarrow> True | Some t \<Rightarrow> now > t")
    case True
    then show ?thesis using consume_fresh [OF a(1) True, of window mx] a(2) by (simp add: window_hit_def timed_key_def)
  next
    case False
    then obtain t where t: "redis_end key s = Some t" "now \<le> t" by (auto split: option.splits)
    have "1 \<le> redis_count key s + 1" using a(1) by (auto simp: key_simps split: option.splits)
    then show ?thesis using consume_within [OF a(1) t, of mx window] by (simp add: window_hit_def timed_key_def)
  qed
qed

text \<open>The same window in this process, while Redis cannot be reached.\<close>

definition memory_count :: "string \<Rightarrow> limits \<Rightarrow> int" where
  "memory_count key s = (case rl_memory s key of None \<Rightarrow> 0 | Some (n, till) \<Rightarrow> n)"

definition memory_end :: "string \<Rightarrow> limits \<Rightarrow> int option" where
  "memory_end key s = (case rl_memory s key of None \<Rightarrow> None | Some (n, till) \<Rightarrow> Some till)"

lemma consume_unreachable: "consume unreachable now key mx window s = consume_memory now key mx window s"
  by (simp add: consume_def unreachable_def split: prod.split)

interpretation memory_windows: fixed_window "window_hit unreachable key mx window" "memory_count key" "memory_end key" "\<lambda>_. True" mx window for key mx window
proof
  fix s now
  assume "case memory_end key s of None \<Rightarrow> True | Some t \<Rightarrow> now > t"
  then show "fst (window_hit unreachable key mx window now s) = (mx < 1) \<and> memory_count key (snd (window_hit unreachable key mx window now s)) = 1
      \<and> memory_end key (snd (window_hit unreachable key mx window now s)) = Some (now + window)"
    by (auto simp: window_hit_def consume_unreachable consume_memory_def memory_count_def memory_end_def split: option.splits)
next
  fix s t now
  assume "memory_end key s = Some t" "now \<le> t"
  then show "fst (window_hit unreachable key mx window now s) = (mx < memory_count key s + 1)
      \<and> memory_count key (snd (window_hit unreachable key mx window now s)) = memory_count key s + 1
      \<and> memory_end key (snd (window_hit unreachable key mx window now s)) = Some t"
    by (auto simp: window_hit_def consume_unreachable consume_memory_def memory_count_def memory_end_def split: option.splits)
qed simp

section \<open>Requests of one window\<close>

fun let_through :: "(nat \<Rightarrow> reply) \<Rightarrow> string \<Rightarrow> int \<Rightarrow> int \<Rightarrow> int list \<Rightarrow> limits \<Rightarrow> int" where
  "let_through up key mx window [] s = 0"
| "let_through up key mx window (t # ts) s = (case consume up t key mx window s of ((hit, ms), s1) \<Rightarrow>
     of_bool (\<not> hit) + let_through up key mx window ts s1)"

lemma passed_redis: "redis_windows.passed key mx window ts s = let_through answering key mx window ts s"
  by (induction ts arbitrary: s) (simp_all add: window_hit_def split: prod.split)

lemma passed_memory: "memory_windows.passed key mx window ts s = let_through unreachable key mx window ts s"
  by (induction ts arbitrary: s) (simp_all add: window_hit_def split: prod.split)

text \<open>C36: In any stretch of time as long as the window, and however the requests fall in it, a limit lets at
  most twice its number of requests through: with the counters in Redis, and with the counters of one
  process while Redis cannot be reached. The windows are fixed, so it can be more than the limit.\<close>
theorem requests_per_window_bounded:
  assumes "sorted_wrt (\<le>) ts" and "\<forall>t\<in>set ts. a \<le> t \<and> t \<le> a + window" and "0 < window" and "0 \<le> mx"
    and "timed_key key s" and "0 \<le> memory_count key s"
  shows "let_through answering key mx window ts s \<le> 2 * mx \<and> let_through unreachable key mx window ts s \<le> 2 * mx"
proof -
  have c: "0 \<le> redis_count key s" using assms(5) by (auto simp: key_simps split: option.splits)
  have "max 0 (mx - (if b then 0 else n)) \<le> mx" if "0 \<le> n" for b and n :: int using that assms(4) by auto
  note m = this [OF c, of "redis_end key s = None"] this [OF assms(6), of "memory_end key s = None"]
  have "let_through answering key mx window ts s \<le> 2 * mx"
    using redis_windows.two_windows [OF assms(5) c assms(1,2,3,4)] m(1) unfolding passed_redis by linarith
  moreover have "let_through unreachable key mx window ts s \<le> 2 * mx"
    using memory_windows.two_windows [OF TrueI assms(6) assms(1,2,3,4)] m(2) unfolding passed_memory by linarith
  ultimately show ?thesis by (rule conjI)
qed

definition no_limits :: limits where
  "no_limits = \<lparr>rl_redis = Map.empty, rl_memory = Map.empty\<rparr>"

theorem requests_per_window_bounded_witness:
  "let_through answering ''k'' 2 100 [10, 20, 30, 110, 110] no_limits = 2 \<and> let_through answering ''k'' 2 100 [10, 90, 110, 110, 110] no_limits \<le> 4
    \<and> let_through unreachable ''k'' 2 100 [10, 90, 110, 110, 110] no_limits \<le> 4"
proof -
  have "let_through answering ''k'' 2 100 [10, 90, 110, 110, 110] no_limits \<le> 2 * 2 \<and> let_through unreachable ''k'' 2 100 [10, 90, 110, 110, 110] no_limits \<le> 2 * 2"
    by (intro conjI requests_per_window_bounded [where a = 10]) (simp_all add: key_simps memory_count_def no_limits_def)
  moreover have "let_through answering ''k'' 2 100 [10, 20, 30, 110, 110] no_limits = 2" by code_simp
  ultimately show ?thesis by simp
qed

section \<open>The last millisecond\<close>

text \<open>In the millisecond in which a window ends the limit is not applied: the time left is 0, which
  the limiter reads as not limited, so any number of requests goes through, whatever was counted.\<close>
theorem limit_lifted_in_the_last_millisecond:
  assumes "rl_redis s (redis_key (ip_key purpose ip)) = Some (n, Some now)" and "1 \<le> n"
  shows "\<exists>s'. createAuthRateLimit c purpose None (\<lambda>_. answering) now ip s = (Go (ip_key purpose ip), s')
    \<and> rl_redis s' (redis_key (ip_key purpose ip)) = Some (n + 1, Some now)"
proof -
  have "timed_key (ip_key purpose ip) s" "redis_end (ip_key purpose ip) s = Some now" "redis_count (ip_key purpose ip) s = n"
    using assms by (simp_all add: key_simps)
  then show ?thesis using consume_within [of "ip_key purpose ip" s now now "lc_max c" "lc_window c"]
    by (simp add: createAuthRateLimit_def limit_buckets_def)
qed

theorem limit_lifted_in_the_last_millisecond_witness:
  "\<exists>s'. createAuthRateLimit authLimiterConfig ''register'' None (\<lambda>_. answering) 900
      ''a'' (no_limits\<lparr>rl_redis := [''rl:auth:register-ip:a'' \<mapsto> (50, Some 900)]\<rparr>) = (Go ''auth:register-ip:a'', s')"
  using limit_lifted_in_the_last_millisecond [of "no_limits\<lparr>rl_redis := [''rl:auth:register-ip:a'' \<mapsto> (50, Some 900)]\<rparr>" "''register''" "''a''" 50 900 authLimiterConfig]
  by (auto simp: redis_key_def ip_key_def)

section \<open>Sign-in\<close>

text \<open>Sign-in as a system: counters, settings, and the sign-ins that went on and are not decided yet.\<close>

record gate =
  gt_now :: int
  gt_limits :: limits
  gt_config :: limiter_config
  gt_flight :: "sign_in list"

definition on_key :: "string \<Rightarrow> sign_in \<Rightarrow> bool" where
  "on_key key r \<longleftrightarrow> key \<in> fst ` set (si_buckets r)"

definition under_way :: "string \<Rightarrow> sign_in list \<Rightarrow> nat" where
  "under_way key rs = length (filter (on_key key) rs)"

definition valid_config :: "limiter_config \<Rightarrow> bool" where
  "valid_config c \<longleftrightarrow> 1 \<le> lc_max c \<and> lc_max c \<le> 100 \<and> 0 < lc_window c"

text \<open>
  Sign-ins of one purpose in any interleaving; \<open>T\<close> says which requests come with a trusted device, and
  no more than \<open>k\<close> requests that touch \<open>key\<close> are under way at once. Whatever else happens leaves the counter \<open>key\<close> alone.
\<close>

inductive sign_ins :: "string \<Rightarrow> (string \<Rightarrow> string option \<Rightarrow> bool) \<Rightarrow> string \<Rightarrow> nat \<Rightarrow> gate \<Rightarrow> bool" for purpose T key k where
  start: "valid_config c \<Longrightarrow> sign_ins purpose T key k \<lparr>gt_now = now, gt_limits = no_limits, gt_config = c, gt_flight = []\<rparr>"
| arrive: "sign_ins purpose T key k g \<Longrightarrow> createLoginLimit (gt_config g) purpose (T ip account) (\<lambda>_. answering) (gt_now g) ip account (gt_limits g) = Go r
    \<Longrightarrow> on_key key r \<longrightarrow> under_way key (gt_flight g) < k \<Longrightarrow> sign_ins purpose T key k (g\<lparr>gt_flight := gt_flight g @ [r]\<rparr>)"
| failed: "sign_ins purpose T key k g \<Longrightarrow> gt_flight g = xs @ r # ys
    \<Longrightarrow> sign_ins purpose T key k (g\<lparr>gt_limits := recordAuthFailure (\<lambda>_. answering) (gt_now g) r (gt_limits g), gt_flight := xs @ ys\<rparr>)"
| succeeded: "sign_ins purpose T key k g \<Longrightarrow> gt_flight g = xs @ r # ys
    \<Longrightarrow> sign_ins purpose T key k (g\<lparr>gt_limits := resetRateLimit Answered r (gt_limits g), gt_flight := xs @ ys\<rparr>)"
| settings: "sign_ins purpose T key k g \<Longrightarrow> sign_ins purpose T key k (g\<lparr>gt_config := reloadAuthSettings rows (gt_config g)\<rparr>)"
| passes: "sign_ins purpose T key k g \<Longrightarrow> gt_now g \<le> now \<Longrightarrow> sign_ins purpose T key k (g\<lparr>gt_now := now\<rparr>)"
| others: "sign_ins purpose T key k g \<Longrightarrow> rl_redis l (redis_key key) = rl_redis (gt_limits g) (redis_key key)
    \<Longrightarrow> sign_ins purpose T key k (g\<lparr>gt_limits := l\<rparr>)"

lemma setting_valid: "valid_config c \<Longrightarrow> valid_config (setting_row row c)"
  by (auto simp: setting_row_def valid_config_def split: option.split)

lemma reload_valid: "valid_config c \<Longrightarrow> valid_config (reloadAuthSettings rows c)"
proof (cases rows)
  case (Some rs)
  assume "valid_config c"
  then have "valid_config (fold setting_row rs c)" by (induction rs arbitrary: c) (simp_all add: setting_valid)
  then show ?thesis using Some by (simp add: reloadAuthSettings_def)
qed (simp add: reloadAuthSettings_def)

lemma incr_other: "redis_incr now rk s = (n, s1) \<Longrightarrow> x \<noteq> rk \<Longrightarrow> rl_redis s1 x = rl_redis s x"
  by (auto simp: redis_incr_def split: option.splits prod.splits)

lemma pExpire_other: "x \<noteq> rk \<Longrightarrow> rl_redis (redis_pExpire now rk ms s) x = rl_redis s x"
  by (auto simp: redis_pExpire_def split: option.splits)

lemma consume_keeps:
  assumes "k' \<noteq> key"
  shows "rl_redis (snd (consume answering now k' mx window s)) (redis_key key) = rl_redis s (redis_key key)"
proof -
  have n: "redis_key key \<noteq> redis_key k'" using assms by (simp add: redis_key_def)
  obtain c s1 where i: "redis_incr now (redis_key k') s = (c, s1)" by fastforce
  show ?thesis using incr_other [OF i n] pExpire_other [OF n, of now window s1]
    by (simp add: consume_def i answering_def Let_def)
qed

section \<open>The counter of a key\<close>

definition live_count :: "string \<Rightarrow> int \<Rightarrow> limits \<Rightarrow> int" where
  "live_count key now s = (case live s now (redis_key key) of None \<Rightarrow> 0 | Some (n, till) \<Rightarrow> n)"

lemma live_count_cases: "timed_key key s \<Longrightarrow> live_count key now s = (case redis_end key s of None \<Rightarrow> 0 | Some t \<Rightarrow> if now \<le> t then redis_count key s else 0)"
  by (auto simp: live_count_def key_simps split: option.splits)

lemma count_not_negative: "timed_key key s \<Longrightarrow> 0 \<le> redis_count key s"
  by (auto simp: key_simps split: option.splits)

lemma live_count_bounds: "timed_key key s \<Longrightarrow> 0 \<le> live_count key now s \<and> live_count key now s \<le> redis_count key s"
  using count_not_negative [of key s] by (auto simp: live_count_cases split: option.split)

lemma live_count_later: "timed_key key s \<Longrightarrow> now \<le> now' \<Longrightarrow> live_count key now' s \<le> live_count key now s"
  using count_not_negative [of key s] by (auto simp: live_count_cases split: option.split)

text \<open>A hit counts on from what is live of the counter, and leaves other keys alone.\<close>

lemma same_counter: "rl_redis s1 (redis_key key) = rl_redis s (redis_key key) \<Longrightarrow> timed_key key s1 = timed_key key s
    \<and> redis_count key s1 = redis_count key s \<and> live_count key now s1 = live_count key now s"
  by (simp add: timed_key_def redis_count_def live_count_def live_def)

lemma consume_counts:
  assumes "timed_key key s" and "0 < window"
  shows "redis_count key (snd (consume answering now key mx window s)) = live_count key now s + 1" and "timed_key key (snd (consume answering now key mx window s))"
proof -
  have w: "snd (consume answering now key mx window s) = snd (window_hit answering key mx window now s)"
    by (simp add: window_hit_def split: prod.split)
  show "timed_key key (snd (consume answering now key mx window s))" unfolding w by (rule redis_windows.stays_ok [OF assms])
  show "redis_count key (snd (consume answering now key mx window s)) = live_count key now s + 1"
  proof (cases "case redis_end key s of None \<Rightarrow> True | Some t \<Rightarrow> now > t")
    case True
    then have "live_count key now s = 0" using live_count_cases [OF assms(1), of now] by (auto split: option.splits)
    then show ?thesis using redis_windows.opens [OF assms(1) True assms(2), of mx] w by simp
  next
    case False
    then obtain t where t: "redis_end key s = Some t" "now \<le> t" by (auto split: option.splits)
    then show ?thesis using redis_windows.counts [OF assms(1) t assms(2)] w live_count_cases [OF assms(1), of now] by simp
  qed
qed

lemma consume_all_counts:
  assumes "timed_key key s" and "0 < window" and "distinct (map fst bs)" and "s' = snd (consume_all (\<lambda>_. answering) now window bs retry s)"
  shows "if key \<in> fst ` set bs then timed_key key s' \<and> redis_count key s' = live_count key now s + 1
    else rl_redis s' (redis_key key) = rl_redis s (redis_key key)"
  using assms
proof (induction bs arbitrary: s retry)
  case (Cons b bs)
  obtain k' mx where b: "b = (k', mx)" by fastforce
  obtain hit ms s1 where c: "consume answering now k' mx window s = ((hit, ms), s1)" by (metis prod.collapse)
  have step: "s' = snd (consume_all (\<lambda>_. answering) now window bs (if hit then max retry ms else retry) s1)"
    using Cons.prems(4) by (simp add: b c)
  have d: "distinct (map fst bs)" "k' \<notin> fst ` set bs" using Cons.prems(3) b by auto
  show ?case
  proof (cases "k' = key")
    case True
    have s1: "timed_key key s1" "redis_count key s1 = live_count key now s + 1"
      using consume_counts [OF Cons.prems(1,2), of now mx] c True by simp_all
    have "rl_redis s' (redis_key key) = rl_redis s1 (redis_key key)" using Cons.IH [OF s1(1) Cons.prems(2) d(1) step] d(2) True by simp
    then show ?thesis using same_counter [of s' key s1] s1 True b by simp
  next
    case False
    have o: "rl_redis s1 (redis_key key) = rl_redis s (redis_key key)" using consume_keeps [OF False, of now mx window s] c by simp
    then have "timed_key key s1" "live_count key now s1 = live_count key now s" using same_counter [OF o] Cons.prems(1) by simp_all
    then show ?thesis using Cons.IH [OF _ Cons.prems(2) d(1) step] o False b by simp
  qed
qed simp

text \<open>A counter a sign-in was let past was below its limit; one that stopped it says for how long.\<close>

lemma peek_below: "peek answering now key mx window s = (False, ms) \<Longrightarrow> live_count key now s < mx"
  by (auto simp: peek_def answering_def Let_def live_count_def split: if_splits)

lemma peek_time: "peek answering now key mx window s = (True, ms) \<Longrightarrow> 0 < window \<Longrightarrow> 0 < ms"
  by (auto simp: peek_def answering_def Let_def split: if_splits)

lemma peek_all_mono: "retry \<le> peek_all (\<lambda>n. ups n) now window bs retry s"
proof (induction bs arbitrary: retry ups)
  case (Cons b bs)
  obtain k' mx hit ms where b: "b = (k', mx)" "peek (ups 0) now k' mx window s = (hit, ms)" by (metis prod.collapse)
  have "retry \<le> (if hit then max retry ms else retry)" by simp
  also have "\<dots> \<le> peek_all (\<lambda>n. ups (Suc n)) now window bs (if hit then max retry ms else retry) s" by (rule Cons.IH)
  finally show ?case by (simp add: b)
qed simp

lemma peek_all_retry: "0 < window \<Longrightarrow> 0 \<le> retry \<Longrightarrow> peek_all (\<lambda>_. answering) now window bs retry s = 0
    \<Longrightarrow> retry = 0 \<and> (\<forall>b\<in>set bs. live_count (fst b) now s < snd b)"
proof (induction bs arbitrary: retry)
  case (Cons b bs)
  obtain k' mx where b: "b = (k', mx)" by fastforce
  obtain hit ms where p: "peek answering now k' mx window s = (hit, ms)" by fastforce
  have r: "peek_all (\<lambda>_. answering) now window bs (if hit then max retry ms else retry) s = 0" using Cons.prems(3) by (simp add: b p)
  have "(if hit then max retry ms else retry) = 0 \<and> (\<forall>b\<in>set bs. live_count (fst b) now s < snd b)"
    using Cons.IH [OF Cons.prems(1) _ r] Cons.prems(2) by (auto simp: max_def)
  then show ?case using p peek_time [of now k' mx window s ms] peek_below [of now k' mx window s ms] Cons.prems(1,2)
    by (cases hit) (auto simp: b max_def split: if_splits)
qed simp

lemma login_let_through:
  assumes "createLoginLimit c purpose trusted (\<lambda>_. answering) now ip account s = Go r" and "0 < lc_window c"
  shows "si_buckets r = ip_bucket c purpose ip # account_buckets c purpose account ip" and "si_window r = lc_window c"
    and "live_count (ip_key purpose ip) now s < lc_max c * ADDRESS_LIMIT_FACTOR"
    and "\<not> trusted \<Longrightarrow> \<forall>b\<in>set (account_buckets c purpose account ip). live_count (fst b) now s < snd b"
proof -
  obtain hit ms where p: "peek answering now (ip_key purpose ip) (lc_max c * ADDRESS_LIMIT_FACTOR) (lc_window c) s = (hit, ms)" by fastforce
  define ar where "ar = peek_all (\<lambda>_. answering) now (lc_window c) (account_buckets c purpose account ip) 0 s"
  have z: "(if ar \<noteq> 0 \<and> \<not> trusted then max (if hit then ms else 0) ar else if hit then ms else 0) = 0"
    and r: "r = \<lparr>si_buckets = ip_bucket c purpose ip # account_buckets c purpose account ip, si_window = lc_window c\<rparr>"
    using assms(1) by (auto simp: createLoginLimit_def Let_def ip_bucket_def p ar_def [symmetric] tooMany_def split: if_splits)
  show "si_buckets r = ip_bucket c purpose ip # account_buckets c purpose account ip" "si_window r = lc_window c" by (simp_all add: r)
  have h: "\<not> hit" using z peek_time [of now "ip_key purpose ip" _ "lc_window c" s ms] p assms(2) by (auto simp: max_def split: if_splits)
  then show "live_count (ip_key purpose ip) now s < lc_max c * ADDRESS_LIMIT_FACTOR" using p peek_below by simp
  assume "\<not> trusted"
  then have "ar = 0 \<or> max 0 ar = 0" using z h by (auto split: if_splits)
  moreover have "0 \<le> ar" unfolding ar_def by (rule peek_all_mono)
  ultimately show "\<forall>b\<in>set (account_buckets c purpose account ip). live_count (fst b) now s < snd b"
    using peek_all_retry [OF assms(2), of 0] by (auto simp: ar_def)
qed

text \<open>A counter and the sign-ins under way on it together stay below the limit and one more than fit.\<close>

definition gate_inv :: "string \<Rightarrow> nat \<Rightarrow> int \<Rightarrow> gate \<Rightarrow> bool" where
  "gate_inv key k l g \<longleftrightarrow> timed_key key (gt_limits g) \<and> redis_count key (gt_limits g) \<le> l - 1 + int k
     \<and> live_count key (gt_now g) (gt_limits g) + int (under_way key (gt_flight g)) \<le> l - 1 + int k \<and> under_way key (gt_flight g) \<le> k
     \<and> valid_config (gt_config g) \<and> (\<forall>r\<in>set (gt_flight g). 0 < si_window r \<and> distinct (map fst (si_buckets r)))"

lemma under_way_append [simp]: "under_way key (xs @ ys) = under_way key xs + under_way key ys"
  by (simp add: under_way_def)

lemma under_way_Cons [simp]: "under_way key (r # rs) = of_bool (on_key key r) + under_way key rs"
  by (simp add: under_way_def)

lemma under_way_Nil [simp]: "under_way key [] = 0"
  by (simp add: under_way_def)

lemma keys_differ: "ip_key p x \<noteq> acct_key p y" "ip_key p x \<noteq> acct_ip_key p y z" "acct_key p y \<noteq> acct_ip_key p y' z"
  by (simp_all add: ip_key_def acct_key_def acct_ip_key_def)

lemma buckets_distinct: "distinct (map fst (ip_bucket c purpose ip # account_buckets c purpose account ip))"
proof (cases account)
  case (Some a)
  then show ?thesis by (cases "a = []") (simp_all add: ip_bucket_def account_buckets_def keys_differ keys_differ(3) [symmetric])
qed (simp add: account_buckets_def)

lemma failure_counted:
  assumes "timed_key key s" and "0 < si_window r" and "distinct (map fst (si_buckets r))" and "s' = recordAuthFailure (\<lambda>_. answering) now r s"
  shows "timed_key key s'" and "if on_key key r then redis_count key s' = live_count key now s + 1 else rl_redis s' (redis_key key) = rl_redis s (redis_key key)"
proof -
  have c: "if on_key key r then timed_key key s' \<and> redis_count key s' = live_count key now s + 1 else rl_redis s' (redis_key key) = rl_redis s (redis_key key)"
    using consume_all_counts [OF assms(1-3), of s' now 0] assms(4) by (simp add: recordAuthFailure_def on_key_def)
  then show "if on_key key r then redis_count key s' = live_count key now s + 1 else rl_redis s' (redis_key key) = rl_redis s (redis_key key)"
    by (auto split: if_splits)
  from c show "timed_key key s'" using same_counter [of s' key s] assms(1) by (auto split: if_splits)
qed

lemma inv_failed:
  assumes "gate_inv key k l g" and "gt_flight g = xs @ r # ys"
  shows "gate_inv key k l (g\<lparr>gt_limits := recordAuthFailure (\<lambda>_. answering) (gt_now g) r (gt_limits g), gt_flight := xs @ ys\<rparr>)"
proof -
  define s' where "s' = recordAuthFailure (\<lambda>_. answering) (gt_now g) r (gt_limits g)"
  have r: "0 < si_window r" "distinct (map fst (si_buckets r))" and t: "timed_key key (gt_limits g)" using assms by (auto simp: gate_inv_def)
  note f = failure_counted [OF t r s'_def]
  have b: "live_count key (gt_now g) s' \<le> redis_count key s'" using live_count_bounds [OF f(1)] by simp
  have "redis_count key s' \<le> l - 1 + int k \<and> live_count key (gt_now g) s' + int (under_way key (xs @ ys)) \<le> l - 1 + int k"
  proof (cases "on_key key r")
    case True
    then show ?thesis using assms f(2) b by (simp add: gate_inv_def)
  next
    case False
    then have "rl_redis s' (redis_key key) = rl_redis (gt_limits g) (redis_key key)" using f(2) by simp
    then show ?thesis using same_counter [of s' key "gt_limits g" "gt_now g"] assms False by (simp add: gate_inv_def)
  qed
  then show ?thesis using assms f(1) by (auto simp: gate_inv_def s'_def)
qed

lemma inv_shrinks:
  assumes "gate_inv key k l g" and "gt_flight g = xs @ r # ys"
    and "rl_redis s' (redis_key key) = None \<or> rl_redis s' (redis_key key) = rl_redis (gt_limits g) (redis_key key)"
  shows "gate_inv key k l (g\<lparr>gt_limits := s', gt_flight := xs @ ys\<rparr>)"
  using assms(3)
proof
  assume n: "rl_redis s' (redis_key key) = None"
  have "0 \<le> redis_count key (gt_limits g) \<and> 0 \<le> live_count key (gt_now g) (gt_limits g)"
    using assms(1) count_not_negative live_count_bounds by (auto simp: gate_inv_def)
  then have "0 \<le> l - 1 + int k \<and> int (under_way key (xs @ ys)) \<le> l - 1 + int k"
    using assms(1,2) by (cases "on_key key r") (auto simp: gate_inv_def)
  moreover have "timed_key key s'" "redis_count key s' = 0" "live_count key (gt_now g) s' = 0"
    using n by (simp_all add: timed_key_def redis_count_def live_count_def live_def)
  ultimately show ?thesis using assms(1,2) by (auto simp: gate_inv_def)
next
  assume "rl_redis s' (redis_key key) = rl_redis (gt_limits g) (redis_key key)"
  from same_counter [OF this] show ?thesis using assms(1,2) by (cases "on_key key r") (auto simp: gate_inv_def)
qed

lemma reset_counter: "rl_redis (resetRateLimit Answered r s) (redis_key key) = None \<or> rl_redis (resetRateLimit Answered r s) (redis_key key) = rl_redis s (redis_key key)"
  by (auto simp: resetRateLimit_def reset_def redis_del_def Let_def split: list.split prod.split)

lemma gate_inv_reachable:
  assumes "sign_ins purpose T key k g" and "1 \<le> l"
    and checked: "\<And>c ip account now s r. valid_config c \<Longrightarrow> timed_key key s \<Longrightarrow> on_key key r
      \<Longrightarrow> createLoginLimit c purpose (T ip account) (\<lambda>_. answering) now ip account s = Go r \<Longrightarrow> live_count key now s < l"
  shows "gate_inv key k l g"
  using assms(1)
proof (induction rule: sign_ins.induct)
  case (start c now)
  then show ?case using assms(2) by (simp add: gate_inv_def no_limits_def timed_key_def redis_count_def live_count_def live_def)
next
  case (arrive g ip account r)
  have v: "valid_config (gt_config g)" "timed_key key (gt_limits g)" "0 < lc_window (gt_config g)" using arrive.IH by (simp_all add: gate_inv_def valid_config_def)
  have d: "0 < si_window r \<and> distinct (map fst (si_buckets r))"
    using login_let_through(1,2) [OF arrive.hyps(2) v(3)] v(3) buckets_distinct by simp
  show ?case using arrive.IH arrive.hyps(3) d checked [OF v(1,2) _ arrive.hyps(2)] by (cases "on_key key r") (auto simp: gate_inv_def)
next
  case (failed g xs r ys)
  then show ?case by (intro inv_failed)
next
  case (succeeded g xs r ys)
  then show ?case by (intro inv_shrinks reset_counter)
next
  case (settings g rows)
  then show ?case by (simp add: gate_inv_def reload_valid)
next
  case (passes g now)
  then show ?case using live_count_later [of key "gt_limits g" "gt_now g" now] by (auto simp: gate_inv_def)
next
  case (others g s)
  then show ?case using same_counter [OF others.hyps(2)] by (simp add: gate_inv_def)
qed

text \<open>While Redis answers, one address never has more than ten times the highest limit of failed sign-ins
  counted in a window, and one fewer than the sign-ins of that address it has under way at once,
  whatever accounts it names and whatever trusted devices it shows; settings may change meanwhile.\<close>
theorem failures_per_address_bounded:
  assumes "sign_ins purpose T (ip_key purpose ip) k g"
  shows "redis_count (ip_key purpose ip) (gt_limits g) \<le> 100 * ADDRESS_LIMIT_FACTOR - 1 + int k"
proof -
  have "gate_inv (ip_key purpose ip) k (100 * ADDRESS_LIMIT_FACTOR) g"
  proof (rule gate_inv_reachable [OF assms])
    fix c ip' account now s r
    assume c: "valid_config c" and o: "on_key (ip_key purpose ip) r"
      and g: "createLoginLimit c purpose (T ip' account) (\<lambda>_. answering) now ip' account s = Go r"
    have w: "0 < lc_window c" "lc_max c \<le> 100" using c by (simp_all add: valid_config_def)
    have "ip_key purpose ip = ip_key purpose ip'"
      using o login_let_through(1) [OF g w(1)] keys_differ(1,2) [of purpose ip]
      by (auto simp: on_key_def ip_bucket_def account_buckets_def split: option.splits if_splits)
    then show "live_count (ip_key purpose ip) now s < 100 * ADDRESS_LIMIT_FACTOR"
      using login_let_through(3) [OF g w(1)] w(2) by (simp add: ADDRESS_LIMIT_FACTOR_def)
  qed (simp add: ADDRESS_LIMIT_FACTOR_def)
  then show ?thesis by (simp add: gate_inv_def)
qed

text \<open>While Redis answers, an account has no more failed sign-ins from one address counted in a window than
  the highest limit and one fewer than the sign-ins on it from there under way at once, unless the
  request shows a trusted device of the account.\<close>
theorem failures_per_account_bounded:
  assumes "sign_ins purpose T (acct_ip_key purpose account ip) k g"
    and "\<And>ip' account'. T ip' (Some account') \<Longrightarrow> acct_ip_key purpose account' ip' \<noteq> acct_ip_key purpose account ip"
  shows "redis_count (acct_ip_key purpose account ip) (gt_limits g) \<le> 100 - 1 + int k"
proof -
  have "gate_inv (acct_ip_key purpose account ip) k 100 g"
  proof (rule gate_inv_reachable [OF assms(1)])
    fix c ip' a now s r
    assume c: "valid_config c" and o: "on_key (acct_ip_key purpose account ip) r"
      and g: "createLoginLimit c purpose (T ip' a) (\<lambda>_. answering) now ip' a s = Go r"
    have w: "0 < lc_window c" "lc_max c \<le> 100" using c by (simp_all add: valid_config_def)
    obtain a' where a: "a = Some a'" "a' \<noteq> []" and e: "acct_ip_key purpose account ip = acct_ip_key purpose a' ip'"
      using o login_let_through(1) [OF g w(1)] keys_differ(2) [of purpose ip' account ip] keys_differ(3) [of purpose _ account ip, symmetric]
      by (auto simp: on_key_def ip_bucket_def account_buckets_def split: option.splits if_splits)
    have "\<not> T ip' a" using assms(2) [of ip' a'] a(1) e by auto
    from login_let_through(4) [OF g w(1) this] show "live_count (acct_ip_key purpose account ip) now s < 100"
      using a e w(2) by (simp add: account_buckets_def)
  qed simp
  then show ?thesis by (simp add: gate_inv_def)
qed

text \<open>A sign-in that failed once, of an account and without one.\<close>

definition ex_limit_config :: limiter_config where
  "ex_limit_config = \<lparr>lc_max = 3, lc_window = 60000\<rparr>"

definition ex_request :: sign_in where
  "ex_request = \<lparr>si_buckets = [(''auth:login-ip:1'', 30), (''auth:login-acct-ip:a|1'', 3), (''auth:login-acct:a'', 30)], si_window = 60000\<rparr>"

definition ex_gate :: gate where
  "ex_gate = \<lparr>gt_now = 5, gt_limits = recordAuthFailure (\<lambda>_. answering) 5 ex_request no_limits, gt_config = ex_limit_config, gt_flight = []\<rparr>"

lemma ex_gate_reached:
  assumes "on_key key ex_request"
  shows "sign_ins ''login'' (\<lambda>_ _. False) key 1 ex_gate"
proof -
  let ?g = "\<lparr>gt_now = 5, gt_limits = no_limits, gt_config = ex_limit_config, gt_flight = []\<rparr>"
  have s: "sign_ins ''login'' (\<lambda>_ _. False) key 1 ?g" by (rule sign_ins.start) (simp add: valid_config_def ex_limit_config_def)
  have g: "createLoginLimit (gt_config ?g) ''login'' False (\<lambda>_. answering) (gt_now ?g) ''1'' (Some ''a'') (gt_limits ?g) = Go ex_request" by code_simp
  have "sign_ins ''login'' (\<lambda>_ _. False) key 1 (?g\<lparr>gt_flight := gt_flight ?g @ [ex_request]\<rparr>)"
    by (rule sign_ins.arrive [OF s g]) simp
  from sign_ins.failed [OF this, of "[]" ex_request "[]"] show ?thesis by (simp add: ex_gate_def)
qed

theorem failures_per_address_bounded_witness:
  "redis_count (ip_key ''login'' ''1'') (gt_limits ex_gate) = 1 \<and> redis_count (ip_key ''login'' ''1'') (gt_limits ex_gate) \<le> 1000"
proof
  have "on_key (ip_key ''login'' ''1'') ex_request" by (simp add: on_key_def ex_request_def ip_key_def)
  from failures_per_address_bounded [OF ex_gate_reached [OF this]]
  show "redis_count (ip_key ''login'' ''1'') (gt_limits ex_gate) \<le> 1000" by (simp add: ADDRESS_LIMIT_FACTOR_def)
qed code_simp

theorem failures_per_account_bounded_witness:
  "redis_count (acct_ip_key ''login'' ''a'' ''1'') (gt_limits ex_gate) = 1 \<and> redis_count (acct_ip_key ''login'' ''a'' ''1'') (gt_limits ex_gate) \<le> 100"
proof
  have "on_key (acct_ip_key ''login'' ''a'' ''1'') ex_request" by (simp add: on_key_def ex_request_def acct_ip_key_def)
  from failures_per_account_bounded [OF ex_gate_reached [OF this]]
  show "redis_count (acct_ip_key ''login'' ''a'' ''1'') (gt_limits ex_gate) \<le> 100" by simp
qed code_simp

end
