(* ===== verification/VCard.thy ===== *)
theory VCard
  imports Rex
begin

text \<open>
  Contacts as vCards (\<open>utils/vcard.js\<close>): the lines a contact is written as, folded at 75 octets, and
  the contact read from such a text. Texts are code units up to 255; of these two have an upper case
  that is none, and keep theirs. Folding is by fuel, since the source's loop ends only where it
  finds the beginning of a character; \<open>VCardProperties\<close> shows that it always does.
\<close>

section \<open>Contacts\<close>

text \<open>An absent field of an entry is the empty text, which the source treats alike.\<close>

record mail_entry =
  em_value :: string
  em_type :: string
  em_primary :: bool

record vcard =
  vc_uid :: "string option"
  vc_display :: "string option"
  vc_first :: "string option"
  vc_last :: "string option"
  vc_emails :: "mail_entry list"
  vc_phones :: "(string \<times> string) list"
  vc_urls :: "(string \<times> string) list"
  vc_org :: "string option"
  vc_notes :: "string option"
  vc_photo :: "string option"

section \<open>Characters\<close>

definition CR :: char where "CR = CHR 0x0D"
definition LF :: char where "LF = CHR 0x0A"
definition backslash :: char where "backslash = CHR 0x5C"

definition crlf :: string where
  "crlf = [CR, LF]"

text \<open>\<open>toUpperCase\<close>.\<close>

definition upper_code :: "nat \<Rightarrow> nat" where
  "upper_code n = (if (97 \<le> n \<and> n \<le> 122) \<or> (224 \<le> n \<and> n \<le> 254 \<and> n \<noteq> 247) then n - 32 else n)"

definition js_upper :: "string \<Rightarrow> string" where
  "js_upper s = concat (map (\<lambda>c. if c = CHR 0xDF then ''SS'' else [char_of (upper_code (of_char c))]) s)"

definition escapeParam :: "string \<Rightarrow> string" where
  "escapeParam s = filter (\<lambda>c. c \<notin> {CR, LF, CHR '';'', CHR '':'', CHR '',''}) s"

text \<open>\<open>replace(/c/g, w)\<close>.\<close>

definition replace_char :: "char \<Rightarrow> string \<Rightarrow> string \<Rightarrow> string" where
  "replace_char c w s = concat (map (\<lambda>x. if x = c then w else [x]) s)"

definition escapeValue :: "string \<Rightarrow> string" where
  "escapeValue s = replace_char CR [] (replace_char LF [backslash, CHR ''n''] (replace_char (CHR '','') [backslash, CHR '','']
     (replace_char (CHR '';'') [backslash, CHR '';''] (replace_char backslash [backslash, backslash] s))))"

text \<open>A backslash and a character \<open>p\<close> become \<open>r\<close>, from left to right.\<close>

fun replace_pair :: "(char \<Rightarrow> bool) \<Rightarrow> char \<Rightarrow> string \<Rightarrow> string" where
  "replace_pair p r (a # b # cs) = (if a = backslash \<and> p b then r # replace_pair p r cs else a # replace_pair p r (b # cs))"
| "replace_pair p r cs = cs"

definition unescapeValue :: "string \<Rightarrow> string" where
  "unescapeValue s = replace_pair (\<lambda>c. c = backslash) backslash (replace_pair (\<lambda>c. c = CHR '';'') (CHR '';'')
     (replace_pair (\<lambda>c. c = CHR '','') (CHR '','') (replace_pair (\<lambda>c. c = CHR ''n'' \<or> c = CHR ''N'') LF s)))"

section \<open>Folding\<close>

definition utf8_char :: "char \<Rightarrow> nat list" where
  "utf8_char c = (let n = of_char c in if n < 128 then [n] else [192 + n div 64, 128 + n mod 64])"

definition utf8 :: "string \<Rightarrow> nat list" where
  "utf8 s = concat (map utf8_char s)"

text \<open>\<open>toString('utf8')\<close>; a byte that begins no character is left out.\<close>

fun utf8_text :: "nat list \<Rightarrow> string" where
  "utf8_text [] = []"
| "utf8_text (b # bs) = (if b < 128 then char_of b # utf8_text bs
     else case bs of c # cs \<Rightarrow> if 192 \<le> b \<and> b < 196 \<and> 128 \<le> c \<and> c < 192 then char_of ((b - 192) * 64 + (c - 128)) # utf8_text cs else utf8_text bs
       | [] \<Rightarrow> [])"

text \<open>\<open>(byte & 0xC0) === 0x80\<close>.\<close>

definition continuation :: "nat \<Rightarrow> bool" where
  "continuation b \<longleftrightarrow> 128 \<le> b \<and> b < 192"

fun back_off :: "nat list \<Rightarrow> nat \<Rightarrow> nat" where
  "back_off bs 0 = 0"
| "back_off bs (Suc e) = (if continuation (bs ! Suc e) then back_off bs e else Suc e)"

fun fold_parts :: "nat \<Rightarrow> bool \<Rightarrow> nat list \<Rightarrow> string list option" where
  "fold_parts 0 first bs = (if bs = [] then Some [] else None)"
| "fold_parts (Suc fuel) first bs = (if bs = [] then Some []
     else let mx = (if first then 75 else 74); e = (if mx \<ge> length bs then length bs else back_off bs mx) in
       map_option (\<lambda>ps. ((if first then [] else '' '') @ utf8_text (take e bs)) # ps) (fold_parts fuel False (drop e bs)))"

definition foldLine :: "string \<Rightarrow> string option" where
  "foldLine line = (let bs = utf8 line in if length bs \<le> 75 then Some (line @ crlf)
     else map_option (\<lambda>ps. js_join crlf ps @ crlf) (fold_parts (length bs) True bs))"

section \<open>Writing\<close>

definition truthy :: "string option \<Rightarrow> string" where
  "truthy v = (case v of None \<Rightarrow> [] | Some s \<Rightarrow> s)"

definition typed_line :: "string \<Rightarrow> string \<Rightarrow> string \<Rightarrow> string \<Rightarrow> string" where
  "typed_line name dflt ty v = name @ '';TYPE='' @ escapeParam (js_upper (or_else ty dflt)) @ '':'' @ escapeValue v"

text \<open>\<open>fn\<close>.\<close>

definition written_name :: "vcard \<Rightarrow> string" where
  "written_name c = (if truthy (vc_display c) \<noteq> [] then truthy (vc_display c)
     else let names = js_join '' '' (filter (\<lambda>s. s \<noteq> []) [truthy (vc_first c), truthy (vc_last c)]) in
       if names \<noteq> [] then names else (case vc_emails c of [] \<Rightarrow> [] | e # es \<Rightarrow> em_value e))"

definition vcard_lines :: "vcard \<Rightarrow> string list" where
  "vcard_lines c = [''BEGIN:VCARD'', ''VERSION:3.0'', ''UID:'' @ escapeValue (truthy (vc_uid c)), ''FN:'' @ escapeValue (written_name c)]
     @ (if truthy (vc_first c) \<noteq> [] \<or> truthy (vc_last c) \<noteq> []
        then [''N:'' @ escapeValue (truthy (vc_last c)) @ '';'' @ escapeValue (truthy (vc_first c)) @ '';;;''] else [])
     @ map (\<lambda>e. typed_line ''EMAIL'' ''other'' (em_type e) (em_value e)) (vc_emails c)
     @ map (\<lambda>(v, t). typed_line ''TEL'' ''voice'' t v) (vc_phones c)
     @ map (\<lambda>(v, t). typed_line ''URL'' ''work'' t v) (vc_urls c)
     @ (if truthy (vc_org c) \<noteq> [] then [''ORG:'' @ escapeValue (truthy (vc_org c))] else [])
     @ (if truthy (vc_notes c) \<noteq> [] then [''NOTE:'' @ escapeValue (truthy (vc_notes c))] else [])
     @ [''END:VCARD'']"

fun fold_lines :: "string list \<Rightarrow> string option" where
  "fold_lines [] = Some []"
| "fold_lines (l # ls) = (case (foldLine l, fold_lines ls) of (Some a, Some b) \<Rightarrow> Some (a @ b) | _ \<Rightarrow> None)"

definition generateVCard :: "vcard \<Rightarrow> string option" where
  "generateVCard c = fold_lines (vcard_lines c)"

section \<open>Reading\<close>

definition blank :: "char \<Rightarrow> bool" where
  "blank c \<longleftrightarrow> c = CHR '' '' \<or> c = CHR 0x09"

text \<open>\<open>replace(/\r\n[ \t]/g, '')\<close> and \<open>replace(/\n[ \t]/g, '')\<close>.\<close>

fun unfold_crlf :: "string \<Rightarrow> string" where
  "unfold_crlf (a # b # c # cs) = (if a = CR \<and> b = LF \<and> blank c then unfold_crlf cs else a # unfold_crlf (b # c # cs))"
| "unfold_crlf cs = cs"

fun unfold_lf :: "string \<Rightarrow> string" where
  "unfold_lf (a # b # cs) = (if a = LF \<and> blank b then unfold_lf cs else a # unfold_lf (b # cs))"
| "unfold_lf cs = cs"

definition unfold_text :: "string \<Rightarrow> string" where
  "unfold_text s = unfold_lf (unfold_crlf s)"

text \<open>\<open>split(/\r?\n/)\<close>.\<close>

definition drop_cr :: "string \<Rightarrow> string" where
  "drop_cr l = (if l \<noteq> [] \<and> last l = CR then butlast l else l)"

definition split_lines :: "string \<Rightarrow> string list" where
  "split_lines s = (let ws = split_on LF s in map drop_cr (butlast ws) @ [last ws])"

text \<open>\<open>/TYPE=([^;]+)/i\<close>.\<close>

fun type_param :: "string \<Rightarrow> string option" where
  "type_param [] = None"
| "type_param (c # cs) = (let ty = takeWhile (\<lambda>x. x \<noteq> CHR '';'') (drop 4 cs) in
     if js_lower (take 5 (c # cs)) = ''type='' \<and> ty \<noteq> [] then Some ty else type_param cs)"

definition unquote :: "string \<Rightarrow> string" where
  "unquote s = filter (\<lambda>c. c \<noteq> CHR 0x22 \<and> c \<noteq> CHR 0x27) s"

definition type_or :: "string \<Rightarrow> string \<Rightarrow> string" where
  "type_or dflt params = (case type_param params of None \<Rightarrow> dflt | Some t \<Rightarrow> unquote (js_lower t))"

definition or_null :: "string \<Rightarrow> string option" where
  "or_null s = (if s = [] then None else Some s)"

definition property_name :: "string \<Rightarrow> string" where
  "property_name rawName = (let name = hd (split_on (CHR '';'') rawName) in
     case last_index (CHR ''.'') name of None \<Rightarrow> name | Some i \<Rightarrow> drop (Suc i) name)"

definition property_params :: "string \<Rightarrow> string" where
  "property_params rawName = (case index_from 0 (CHR '';'') rawName of None \<Rightarrow> [] | Some i \<Rightarrow> drop (Suc i) rawName)"

definition mime_of :: "string \<Rightarrow> string" where
  "mime_of t = (if t = ''PNG'' then ''image/png'' else if t = ''GIF'' then ''image/gif'' else if t = ''WEBP'' then ''image/webp'' else ''image/jpeg'')"

text \<open>A photo with a URL is not fetched; one with base64 becomes a data URI.\<close>

definition photo_of :: "string \<Rightarrow> string \<Rightarrow> string option" where
  "photo_of params v = (if take 5 v = ''data:'' then Some v
     else if js_lower (take 7 v) = ''http://'' \<or> js_lower (take 8 v) = ''https://'' then None
     else Some (''data:'' @ mime_of (js_upper (case type_param params of None \<Rightarrow> ''JPEG'' | Some t \<Rightarrow> unquote t)) @ '';base64,'' @ v))"

definition parse_property :: "string \<Rightarrow> string \<Rightarrow> string \<Rightarrow> vcard \<Rightarrow> vcard" where
  "parse_property name params v c =
     (let plain = js_trim (unescapeValue v) in
      if name = ''UID'' then c\<lparr>vc_uid := Some plain\<rparr>
      else if name = ''FN'' then c\<lparr>vc_display := or_null plain\<rparr>
      else if name = ''N'' then (let parts = map (\<lambda>p. js_trim (unescapeValue p)) (split_on (CHR '';'') v)
        in c\<lparr>vc_last := or_null (hd parts), vc_first := (case tl parts of [] \<Rightarrow> None | p # ps \<Rightarrow> or_null p)\<rparr>)
      else if name = ''EMAIL'' then (if js_lower plain = [] then c
        else c\<lparr>vc_emails := vc_emails c @ [\<lparr>em_value = js_lower plain, em_type = type_or ''other'' params, em_primary = (vc_emails c = [])\<rparr>]\<rparr>)
      else if name = ''TEL'' then (if plain = [] then c else c\<lparr>vc_phones := vc_phones c @ [(plain, type_or ''other'' params)]\<rparr>)
      else if name = ''URL'' then (if plain = [] then c else c\<lparr>vc_urls := vc_urls c @ [(plain, type_or ''work'' params)]\<rparr>)
      else if name = ''ORG'' then c\<lparr>vc_org := or_null (js_trim (unescapeValue (hd (split_on (CHR '';'') v))))\<rparr>
      else if name = ''NOTE'' then c\<lparr>vc_notes := or_null plain\<rparr>
      else if name = ''PHOTO'' then (if js_trim v = [] then c else c\<lparr>vc_photo := photo_of params (js_trim v)\<rparr>)
      else c)"

definition parse_line :: "string \<Rightarrow> vcard \<Rightarrow> vcard" where
  "parse_line line c = (let trimmed = js_trim line in
     if trimmed = [] \<or> trimmed = ''BEGIN:VCARD'' \<or> trimmed = ''END:VCARD'' then c
     else case index_from 0 (CHR '':'') trimmed of None \<Rightarrow> c
       | Some i \<Rightarrow> let rawName = js_upper (take i trimmed) in parse_property (property_name rawName) (property_params rawName) (drop (Suc i) trimmed) c)"

definition empty_vcard :: vcard where
  "empty_vcard = \<lparr>vc_uid = None, vc_display = None, vc_first = None, vc_last = None, vc_emails = [], vc_phones = [], vc_urls = [],
     vc_org = None, vc_notes = None, vc_photo = None\<rparr>"

definition parseVCard :: "string \<Rightarrow> vcard" where
  "parseVCard raw = fold parse_line (split_lines (unfold_text raw)) empty_vcard"

end
