(* ===== verification/VCardProperties.thy ===== *)
theory VCardProperties
  imports VCard
begin

text \<open>
  The properties of vCards: what comes back of a value that was escaped, that folding ends and that
  unfolding undoes it, and that a contact comes back from the text it was written as.
\<close>

section \<open>Escaping\<close>

lemmas chars = CR_def LF_def backslash_def

definition esc :: "char \<Rightarrow> string" where
  "esc c = (if c = CR then [] else if c = LF then [backslash, CHR ''n''] else if c \<in> {CHR '','', CHR '';'', backslash} then [backslash, c] else [c])"

lemma replace_char_append [simp]: "replace_char c w (a @ b) = replace_char c w a @ replace_char c w b"
  by (simp add: replace_char_def)

lemma replace_char_Nil [simp]: "replace_char c w [] = []"
  by (simp add: replace_char_def)

lemma replace_char_Cons: "replace_char c w (x # xs) = (if x = c then w else [x]) @ replace_char c w xs"
  by (simp add: replace_char_def)

lemma escapeValue_esc: "escapeValue s = concat (map esc s)"
proof (induction s)
  case (Cons c s)
  have "escapeValue (c # s) = escapeValue [c] @ escapeValue s" by (simp add: escapeValue_def replace_char_Cons)
  moreover have "escapeValue [c] = esc c" by (auto simp: escapeValue_def replace_char_Cons esc_def chars)
  ultimately show ?case using Cons by simp
qed (simp add: escapeValue_def)

text \<open>What becomes of a value without carriage returns: \<open>n\<close> after a backslash is taken for a line break.\<close>

fun mangle :: "string \<Rightarrow> string" where
  "mangle (a # b # cs) = (if a = backslash \<and> (b = CHR ''n'' \<or> b = CHR ''N'') then backslash # LF # mangle cs else a # mangle (b # cs))"
| "mangle cs = cs"

text \<open>The text after each of the four replacements; \<open>done\<close> are the characters already put back.\<close>

definition part :: "char set \<Rightarrow> char \<Rightarrow> string" where
  "part ds c = (if c \<in> ds then [c] else esc c)"

fun between :: "char set \<Rightarrow> string \<Rightarrow> string" where
  "between ds (a # b # cs) = (if a = backslash \<and> (b = CHR ''n'' \<or> b = CHR ''N'') then backslash # LF # between ds cs
     else part ds a @ between ds (b # cs))"
| "between ds [a] = part ds a"
| "between ds [] = []"

lemma pair_keep: "a \<noteq> backslash \<Longrightarrow> replace_pair p r (a # cs) = a # replace_pair p r cs"
  by (cases cs) simp_all

lemma pair_hit: "p b \<Longrightarrow> replace_pair p r (backslash # b # cs) = r # replace_pair p r cs"
  by simp

lemma pair_miss: "cs = [] \<or> \<not> p (hd cs) \<Longrightarrow> replace_pair p r (backslash # cs) = backslash # replace_pair p r cs"
  by (cases cs) simp_all

lemma distinct_chars [simp]: "LF \<noteq> backslash" "backslash \<noteq> LF" "CR \<noteq> LF" "LF \<noteq> CR" "CR \<noteq> backslash" "backslash \<noteq> CR"
  "CHR '','' \<noteq> backslash" "CHR '';'' \<noteq> backslash" "CHR '','' \<noteq> LF" "CHR '';'' \<noteq> LF" "CHR ''n'' \<noteq> backslash" "CHR ''N'' \<noteq> backslash"
  "backslash \<noteq> CHR '',''" "backslash \<noteq> CHR '';''" "LF \<noteq> CHR '',''" "LF \<noteq> CHR '';''" "backslash \<noteq> CHR ''n''" "backslash \<noteq> CHR ''N''"
  "LF \<noteq> CHR ''n''" "LF \<noteq> CHR ''N''" "CHR ''n'' \<noteq> LF" "CHR ''N'' \<noteq> LF" "CR \<noteq> CHR ''n''" "CR \<noteq> CHR ''N''" "CHR ''n'' \<noteq> CR" "CHR ''N'' \<noteq> CR"
  "CR \<noteq> CHR '',''" "CR \<noteq> CHR '';''" "CHR '','' \<noteq> CR" "CHR '';'' \<noteq> CR"
  by (simp_all add: chars)

definition is_n :: "char \<Rightarrow> bool" where
  "is_n c \<longleftrightarrow> c = CHR ''n'' \<or> c = CHR ''N''"

lemma part_n: "a \<noteq> CR \<Longrightarrow> (a = backslash \<Longrightarrow> ys = [] \<or> \<not> is_n (hd ys))
    \<Longrightarrow> replace_pair is_n LF (esc a @ ys) = part {LF} a @ replace_pair is_n LF ys"
  by (auto simp: esc_def part_def pair_keep pair_hit pair_miss is_n_def)

lemma part_pass: "a \<noteq> CR \<Longrightarrow> d \<in> {CHR '','', CHR '';''} \<Longrightarrow> d \<notin> ds \<Longrightarrow> LF \<in> ds \<Longrightarrow> backslash \<notin> ds \<Longrightarrow> (a = backslash \<Longrightarrow> ys = [] \<or> hd ys \<noteq> d)
    \<Longrightarrow> replace_pair (\<lambda>c. c = d) d (part ds a @ ys) = part (insert d ds) a @ replace_pair (\<lambda>c. c = d) d ys"
  by (auto simp: esc_def part_def pair_keep pair_hit pair_miss)

lemma part_last: "a \<noteq> CR \<Longrightarrow> replace_pair (\<lambda>c. c = backslash) backslash (part {LF, CHR '','', CHR '';''} a @ ys) = a # replace_pair (\<lambda>c. c = backslash) backslash ys"
  by (auto simp: esc_def part_def pair_keep pair_hit pair_miss)

lemma esc_hd: "c \<noteq> CR \<Longrightarrow> \<not> is_n c \<Longrightarrow> \<not> is_n (hd (esc c @ ys)) \<and> esc c \<noteq> []"
  by (auto simp: esc_def is_n_def)

lemma pass_n: "CR \<notin> set s \<Longrightarrow> replace_pair is_n LF (concat (map esc s)) = between {LF} s"
proof (induction "{LF}" s rule: between.induct)
  case (1 a b cs)
  show ?case
  proof (cases "a = backslash \<and> is_n b")
    case True
    then have "replace_pair is_n LF (esc a @ esc b @ concat (map esc cs)) = backslash # LF # replace_pair is_n LF (concat (map esc cs))"
      by (auto simp: esc_def is_n_def pair_keep pair_hit pair_miss)
    then show ?thesis using 1 True by (simp add: is_n_def)
  next
    case False
    then have "replace_pair is_n LF (esc a @ concat (map esc (b # cs))) = part {LF} a @ replace_pair is_n LF (concat (map esc (b # cs)))"
      using 1(3) esc_hd [of b "concat (map esc cs)"] by (intro part_n) auto
    then show ?thesis using 1 False by (auto simp: is_n_def)
  qed
next
  case (2 a)
  then show ?case using part_n [of a "[]"] by simp
qed simp

lemma between_hd: "c \<noteq> CR \<Longrightarrow> d \<in> {CHR '','', CHR '';''} \<Longrightarrow> d \<notin> ds \<Longrightarrow> hd (between ds (c # cs)) \<noteq> d"
  by (cases cs) (auto simp: part_def esc_def)

lemma pass_one: "CR \<notin> set s \<Longrightarrow> d \<in> {CHR '','', CHR '';''} \<Longrightarrow> d \<notin> ds \<Longrightarrow> LF \<in> ds \<Longrightarrow> backslash \<notin> ds
    \<Longrightarrow> replace_pair (\<lambda>c. c = d) d (between ds s) = between (insert d ds) s"
proof (induction ds s rule: between.induct)
  case (1 ds a b cs)
  show ?case
  proof (cases "a = backslash \<and> is_n b")
    case True
    then have "replace_pair (\<lambda>c. c = d) d (backslash # LF # between ds cs) = backslash # LF # replace_pair (\<lambda>c. c = d) d (between ds cs)"
      using 1(4) by (auto simp: pair_keep pair_miss)
    then show ?thesis using 1 True by (auto simp: is_n_def)
  next
    case False
    then have "replace_pair (\<lambda>c. c = d) d (part ds a @ between ds (b # cs)) = part (insert d ds) a @ replace_pair (\<lambda>c. c = d) d (between ds (b # cs))"
      using 1(3-7) between_hd [of b d ds cs] by (intro part_pass) auto
    then show ?thesis using 1 False by (auto simp: is_n_def)
  qed
next
  case (2 ds a)
  then show ?case using part_pass [of a d ds "[]"] by simp
qed simp

lemma pass_last: "CR \<notin> set s \<Longrightarrow> replace_pair (\<lambda>c. c = backslash) backslash (between {LF, CHR '','', CHR '';''} s) = mangle s"
proof (induction s rule: mangle.induct [case_names pair nothing single])
  case (pair a b cs)
  then show ?case using part_last [of a "between {LF, CHR '','', CHR '';''} (b # cs)"] by (auto simp: pair_keep pair_miss)
next
  case (single a)
  then show ?case using part_last [of a "[]"] by simp
qed simp

lemma unescape_escape: "unescapeValue (escapeValue s) = mangle (filter (\<lambda>c. c \<noteq> CR) s)"
proof -
  let ?s = "filter (\<lambda>c. c \<noteq> CR) s"
  have "concat (map esc s) = concat (map esc ?s)" by (induction s) (simp_all add: esc_def)
  moreover have "replace_pair is_n LF (concat (map esc ?s)) = between {LF} ?s" by (rule pass_n) simp
  moreover have "replace_pair (\<lambda>c. c = CHR '','') (CHR '','') (between {LF} ?s) = between {CHR '','', LF} ?s" by (rule pass_one) simp_all
  moreover have "replace_pair (\<lambda>c. c = CHR '';'') (CHR '';'') (between {CHR '','', LF} ?s) = between {CHR '';'', CHR '','', LF} ?s"
    by (rule pass_one) (simp_all add: chars)
  moreover have "{CHR '';'', CHR '','', LF} = {LF, CHR '','', CHR '';''}" by auto
  ultimately show ?thesis using pass_last [of ?s] by (simp add: unescapeValue_def escapeValue_esc is_n_def [abs_def])
qed

lemma length_mangle [simp]: "length (mangle s) = length s"
  by (induction s rule: mangle.induct) simp_all

definition backslash_n :: "string \<Rightarrow> bool" where
  "backslash_n s \<longleftrightarrow> sublist [backslash, CHR ''n''] s \<or> sublist [backslash, CHR ''N''] s"

lemma backslash_n_Cons: "backslash_n (a # b # cs) \<longleftrightarrow> a = backslash \<and> is_n b \<or> backslash_n (b # cs)"
  by (auto simp: backslash_n_def sublist_Cons_right is_n_def)

lemma mangle_id: "mangle s = s \<longleftrightarrow> \<not> backslash_n s"
proof (induction s rule: mangle.induct)
  case (1 a b cs)
  show ?case
  proof (cases "a = backslash \<and> is_n b")
    case True
    then have "LF \<noteq> b" "mangle (a # b # cs) = a # LF # mangle cs" by (auto simp: is_n_def)
    then show ?thesis using True by (simp add: backslash_n_Cons)
  next
    case False
    then show ?thesis using 1(2) by (auto simp: backslash_n_Cons is_n_def)
  qed
qed (simp_all add: backslash_n_def sublist_Cons_right)

text \<open>C37: A value comes back from escaping and unescaping exactly when it has no carriage return and no \<open>n\<close> right
  after a backslash: the source puts line breaks back before it halves the doubled backslashes, so
  that a path such as \<open>C:\new\<close> comes back with a line break in it.\<close>
theorem value_comes_back_iff:
  "unescapeValue (escapeValue s) = s \<longleftrightarrow> CR \<notin> set s \<and> \<not> sublist [backslash, CHR ''n''] s \<and> \<not> sublist [backslash, CHR ''N''] s"
proof (cases "CR \<in> set s")
  case True
  then have "length (filter (\<lambda>c. c \<noteq> CR) s) < length s" by (auto intro: length_filter_less)
  then have "length (unescapeValue (escapeValue s)) < length s" by (simp add: unescape_escape)
  then show ?thesis using True by auto
next
  case False
  then have "filter (\<lambda>c. c \<noteq> CR) s = s" by (auto simp: filter_id_conv)
  then show ?thesis using False mangle_id [of s] by (simp add: unescape_escape backslash_n_def)
qed

section \<open>Octets\<close>

lemma utf8_Nil [simp]: "utf8 [] = []"
  by (simp add: utf8_def)

lemma utf8_Cons: "utf8 (c # s) = utf8_char c @ utf8 s"
  by (simp add: utf8_def)

lemma utf8_append [simp]: "utf8 (s @ t) = utf8 s @ utf8 t"
  by (simp add: utf8_def)

lemma utf8_char_cases:
  obtains n where "utf8_char c = [n]" "n < 128" "char_of n = c"
  | a b where "utf8_char c = [a, b]" "194 \<le> a" "a < 196" "128 \<le> b" "b < 192" "char_of ((a - 192) * 64 + (b - 128)) = c"
proof (cases "(of_char c :: nat) < 128")
  case True
  then show ?thesis using that(1) [of "of_char c"] by (simp add: utf8_char_def Let_def)
next
  case False
  let ?n = "of_char c :: nat"
  have "?n div 64 < 4" by (rule less_mult_imp_div_less) (use of_char_less [of c] in linarith)
  moreover have "2 \<le> ?n div 64" using False by auto
  ultimately
  show ?thesis using that(2) [of "192 + ?n div 64" "128 + ?n mod 64"] False by (simp add: utf8_char_def Let_def)
qed

lemma utf8_char_nonempty [simp]: "utf8_char c \<noteq> []"
  by (simp add: utf8_char_def Let_def)

lemma utf8_text_utf8 [simp]: "utf8_text (utf8 s) = s"
proof (induction s)
  case (Cons c s)
  then show ?case by (cases c rule: utf8_char_cases) (simp_all add: utf8_Cons)
qed simp

lemma utf8_eq_Nil [simp]: "utf8 s = [] \<longleftrightarrow> s = []"
  by (metis utf8_Nil utf8_text_utf8)

lemma continuation_at: "n < length (utf8_char c) \<Longrightarrow> continuation (utf8_char c ! n) \<longleftrightarrow> 0 < n"
  by (cases c rule: utf8_char_cases) (auto simp: less_Suc_eq continuation_def)

text \<open>A byte that continues nothing begins a character, and no two continue the same one.\<close>

lemma character_begins: "n < length (utf8 s) \<Longrightarrow> \<not> continuation (utf8 s ! n) \<Longrightarrow> \<exists>s1 s2. s = s1 @ s2 \<and> length (utf8 s1) = n"
proof (induction s arbitrary: n)
  case (Cons c s)
  show ?case
  proof (cases "n < length (utf8_char c)")
    case True
    then have "n = 0" using Cons.prems(2) continuation_at [of n c] by (simp add: utf8_Cons nth_append)
    then show ?thesis by (intro exI [of _ "[]"] exI [of _ "c # s"]) simp
  next
    case False
    have "n - length (utf8_char c) < length (utf8 s)" "\<not> continuation (utf8 s ! (n - length (utf8_char c)))"
      using False Cons.prems by (simp_all add: utf8_Cons nth_append)
    from Cons.IH [OF this] obtain s1 s2 where "s = s1 @ s2" "length (utf8 s1) = n - length (utf8_char c)" by blast
    then show ?thesis using False by (intro exI [of _ "c # s1"] exI [of _ s2]) (simp add: utf8_Cons)
  qed
qed simp

lemma one_continuation: "n < length (utf8 s) \<Longrightarrow> continuation (utf8 s ! n) \<Longrightarrow> 0 < n \<and> \<not> continuation (utf8 s ! (n - 1))"
proof (induction s arbitrary: n)
  case (Cons c s)
  show ?case
  proof (cases "n < length (utf8_char c)")
    case True
    then have "0 < n" using Cons.prems(2) continuation_at [of n c] by (simp add: utf8_Cons nth_append)
    moreover from this True have "n = 1" by (cases c rule: utf8_char_cases) simp_all
    ultimately show ?thesis using continuation_at [of 0 c] True by (simp add: utf8_Cons nth_append)
  next
    case False
    define m where "m = n - length (utf8_char c)"
    have n: "n = m + length (utf8_char c)" using False by (simp add: m_def)
    then have "0 < m \<and> \<not> continuation (utf8 s ! (m - 1))" using Cons.IH [of m] Cons.prems by (simp add: utf8_Cons nth_append)
    then obtain d where "m = Suc d" "\<not> continuation (utf8 s ! d)" by (cases m) simp_all
    then show ?thesis by (simp add: n utf8_Cons nth_append)
  qed
qed simp

lemma back_off_begins:
  assumes "2 \<le> e" and "e < length (utf8 s)"
  shows "\<exists>s1 s2. s = s1 @ s2 \<and> s1 \<noteq> [] \<and> length (utf8 s1) = back_off (utf8 s) e \<and> back_off (utf8 s) e \<le> e"
proof -
  obtain d where e: "e = Suc (Suc d)" using assms(1) by (metis add_2_eq_Suc le_Suc_ex)
  have "back_off (utf8 s) e = (if continuation (utf8 s ! e) then Suc d else e)"
    using one_continuation [OF assms(2)] by (simp add: e)
  moreover have "\<not> continuation (utf8 s ! (if continuation (utf8 s ! e) then Suc d else e))"
    using one_continuation [OF assms(2)] by (simp add: e)
  ultimately obtain n where n: "back_off (utf8 s) e = n" "\<not> continuation (utf8 s ! n)" "0 < n" "n \<le> e" by (metis e le_SucI nat_le_linear zero_less_Suc)
  have "n < length (utf8 s)" using n(4) assms(2) by simp
  from character_begins [OF this n(2)] obtain s1 s2 where "s = s1 @ s2" "length (utf8 s1) = n" by blast
  then show ?thesis using n(1,3,4) by (intro exI [of _ s1] exI [of _ s2]) auto
qed

section \<open>Folding\<close>

fun pieces :: "bool \<Rightarrow> string list \<Rightarrow> string list" where
  "pieces first [] = []"
| "pieces first (x # xs) = ((if first then [] else '' '') @ x) # pieces False xs"

lemma fold_parts_pieces: "length (utf8 s) \<le> fuel \<Longrightarrow> \<exists>ss. fold_parts fuel first (utf8 s) = Some (pieces first ss) \<and> concat ss = s
    \<and> [] \<notin> set ss \<and> (\<forall>l\<in>set (pieces first ss). length (utf8 l) \<le> 75)"
proof (induction fuel arbitrary: first s)
  case 0
  then show ?case by (intro exI [of _ "[]"]) simp
next
  case (Suc fuel)
  show ?case
  proof (cases "s = []")
    case True
    then show ?thesis by (intro exI [of _ "[]"]) simp
  next
    case False
    define mx where "mx = (if first then 75 else 74 :: nat)"
    define e where "e = (if mx \<ge> length (utf8 s) then length (utf8 s) else back_off (utf8 s) mx)"
    obtain s1 s2 where s: "s = s1 @ s2" "s1 \<noteq> []" "length (utf8 s1) = e" "e \<le> mx"
    proof (cases "mx \<ge> length (utf8 s)")
      case True
      then show ?thesis using that [of s "[]"] False by (simp add: e_def)
    next
      case long: False
      then show ?thesis using back_off_begins [of mx s] that by (auto simp: e_def mx_def split: if_splits)
    qed
    have "length (utf8 s2) \<le> fuel" using Suc.prems s(1,2) by (cases "utf8 s1") auto
    from Suc.IH [OF this, of False] obtain ss where ss: "fold_parts fuel False (utf8 s2) = Some (pieces False ss)" "concat ss = s2" "[] \<notin> set ss"
      "\<forall>l\<in>set (pieces False ss). length (utf8 l) \<le> 75" by blast
    have "take e (utf8 s) = utf8 s1" "drop e (utf8 s) = utf8 s2" using s(1,3) by simp_all
    then have "fold_parts (Suc fuel) first (utf8 s) = Some (pieces first (s1 # ss))"
      using ss(1) False by (simp add: mx_def [symmetric] e_def [symmetric] Let_def)
    moreover have "length (utf8 ((if first then [] else '' '') @ s1)) \<le> 75" using s(3,4) by (auto simp: mx_def utf8_Cons utf8_char_def)
    ultimately show ?thesis using ss s(1,2) by (intro exI [of _ "s1 # ss"]) simp
  qed
qed

lemma pieces_False: "pieces False ss = map (\<lambda>x. '' '' @ x) ss"
  by (induction ss) simp_all

text \<open>Folding ends for every line: the line is cut between characters into pieces of at most 75 octets with
  the blank before each further piece, and the pieces put together are the line.\<close>
theorem folding_ends:
  "\<exists>ss. foldLine line = Some (js_join crlf (pieces True ss) @ crlf) \<and> concat ss = line
    \<and> (\<forall>l\<in>set (pieces True ss). length (utf8 l) \<le> 75)"
proof (cases "length (utf8 line) \<le> 75")
  case True
  then show ?thesis by (intro exI [of _ "[line]"]) (simp add: foldLine_def Let_def js_join_def)
next
  case False
  then show ?thesis using fold_parts_pieces [of line "length (utf8 line)" True] by (auto simp: foldLine_def Let_def)
qed

section \<open>Unfolding\<close>

definition clean_line :: "string \<Rightarrow> bool" where
  "clean_line l \<longleftrightarrow> CR \<notin> set l \<and> LF \<notin> set l \<and> l \<noteq> [] \<and> \<not> js_space (hd l)"

lemma folded_line:
  assumes "line \<noteq> []"
  shows "\<exists>x xs. foldLine line = Some (x @ concat (map (\<lambda>p. crlf @ CHR '' '' # p) xs) @ crlf) \<and> line = x @ concat xs \<and> x \<noteq> []"
proof (cases "length (utf8 line) \<le> 75")
  case True
  then show ?thesis using assms by (intro exI [of _ line] exI [of _ "[]"]) (simp add: foldLine_def Let_def)
next
  case False
  obtain ss where ss: "fold_parts (length (utf8 line)) True (utf8 line) = Some (pieces True ss)" "concat ss = line" "[] \<notin> set ss"
    using fold_parts_pieces [of line "length (utf8 line)" True] by blast
  obtain x xs where x: "ss = x # xs" using ss(2) assms by (cases ss) auto
  have "foldLine line = Some (x @ concat (map (\<lambda>p. crlf @ CHR '' '' # p) xs) @ crlf)"
    using False ss(1) by (simp add: foldLine_def Let_def x pieces_False js_join_def comp_def)
  then show ?thesis using ss(2,3) x by auto
qed

lemma crlf_pass: "a \<noteq> CR \<Longrightarrow> unfold_crlf (a # ys) = a # unfold_crlf ys"
  by (cases ys; cases "tl ys") simp_all

lemma crlf_text: "CR \<notin> set x \<Longrightarrow> unfold_crlf (x @ ys) = x @ unfold_crlf ys"
  by (induction x) (auto simp: crlf_pass)

lemma crlf_blank: "unfold_crlf (crlf @ CHR '' '' # ys) = unfold_crlf ys"
  by (simp add: crlf_def blank_def)

lemma crlf_end: "ys = [] \<or> \<not> blank (hd ys) \<Longrightarrow> unfold_crlf (crlf @ ys) = crlf @ unfold_crlf ys"
  by (cases ys) (simp_all add: crlf_def crlf_pass)

lemma crlf_pieces: "CR \<notin> set (concat xs) \<Longrightarrow> unfold_crlf (concat (map (\<lambda>p. crlf @ CHR '' '' # p) xs) @ ys) = concat xs @ unfold_crlf ys"
proof (induction xs)
  case (Cons p xs)
  have "unfold_crlf (crlf @ CHR '' '' # (p @ (concat (map (\<lambda>p. crlf @ CHR '' '' # p) xs) @ ys))) = p @ unfold_crlf (concat (map (\<lambda>p. crlf @ CHR '' '' # p) xs) @ ys)"
    unfolding crlf_blank using Cons.prems by (intro crlf_text) simp
  then show ?case using Cons by simp
qed simp

lemma lf_text: "LF \<notin> set x \<Longrightarrow> unfold_lf (x @ ys) = x @ unfold_lf ys"
proof (induction x)
  case (Cons a x)
  then have "unfold_lf (a # (x @ ys)) = a # unfold_lf (x @ ys)" by (cases "x @ ys") auto
  then show ?case using Cons by simp
qed simp

lemma lf_end: "ys = [] \<or> \<not> blank (hd ys) \<Longrightarrow> unfold_lf (crlf @ ys) = crlf @ unfold_lf ys"
  by (cases ys) (simp_all add: crlf_def)

lemma space_not_blank: "\<not> js_space c \<Longrightarrow> \<not> blank c"
  by (auto simp: js_space_def blank_def)

lemma folded_lines: "\<forall>l\<in>set ls. clean_line l \<Longrightarrow> \<exists>t. fold_lines ls = Some t \<and> (t = [] \<or> \<not> blank (hd t))
    \<and> unfold_crlf t = concat (map (\<lambda>l. l @ crlf) ls)"
proof (induction ls)
  case (Cons l ls)
  then obtain t where t: "fold_lines ls = Some t" "t = [] \<or> \<not> blank (hd t)" "unfold_crlf t = concat (map (\<lambda>l. l @ crlf) ls)" by auto
  have l: "l \<noteq> []" "CR \<notin> set l" "\<not> blank (hd l)" using Cons.prems space_not_blank by (auto simp: clean_line_def)
  obtain x xs where x: "foldLine l = Some (x @ concat (map (\<lambda>p. crlf @ CHR '' '' # p) xs) @ crlf)" "l = x @ concat xs" "x \<noteq> []"
    using folded_line [OF l(1)] by blast
  have "unfold_crlf (x @ (concat (map (\<lambda>p. crlf @ CHR '' '' # p) xs) @ (crlf @ t))) = x @ (concat xs @ (crlf @ unfold_crlf t))"
    using l(2) x(2) crlf_end [OF t(2)] by (simp only: crlf_text crlf_pieces set_append Un_iff de_Morgan_disj) (simp add: crlf_text crlf_pieces)
  then show ?case using t x l by (intro exI [of _ "(x @ concat (map (\<lambda>p. crlf @ CHR '' '' # p) xs) @ crlf) @ t"]) simp
qed simp

lemma unfolded_lines: "\<forall>l\<in>set ls. clean_line l \<Longrightarrow> unfold_lf (concat (map (\<lambda>l. l @ crlf) ls)) = concat (map (\<lambda>l. l @ crlf) ls)"
proof (induction ls)
  case (Cons l ls)
  let ?t = "concat (map (\<lambda>l. l @ crlf) ls)"
  have "?t = [] \<or> \<not> blank (hd ?t)" using Cons.prems space_not_blank by (cases ls) (auto simp: clean_line_def)
  then show ?case using Cons lf_text [of l "crlf @ ?t"] lf_end [of ?t] by (simp add: clean_line_def)
qed simp

lemma lines_split: "\<forall>l\<in>set ls. LF \<notin> set l \<Longrightarrow> split_on LF (concat (map (\<lambda>l. l @ crlf) ls)) = map (\<lambda>l. l @ [CR]) ls @ [[]]"
proof (induction ls)
  case (Cons l ls)
  then show ?case using split_on_join [of LF "l @ [CR]" "concat (map (\<lambda>l. l @ crlf) ls)"] by (simp add: crlf_def)
qed simp

text \<open>Reading what was folded: line by line.\<close>

lemma lines_read:
  assumes "\<forall>l\<in>set ls. clean_line l"
  obtains t where "fold_lines ls = Some t" "parseVCard t = fold parse_line ls empty_vcard"
proof -
  obtain t where t: "fold_lines ls = Some t" "unfold_crlf t = concat (map (\<lambda>l. l @ crlf) ls)" using folded_lines [OF assms] by blast
  have "split_lines (unfold_text t) = ls @ [[]]"
    using assms by (simp add: unfold_text_def t(2) unfolded_lines split_lines_def lines_split clean_line_def drop_cr_def butlast_append comp_def)
  then have "parseVCard t = parse_line [] (fold parse_line ls empty_vcard)" by (simp add: parseVCard_def)
  also have "\<dots> = fold parse_line ls empty_vcard" by (simp add: parse_line_def)
  finally show ?thesis using that t(1) by blast
qed

section \<open>Contacts that come back\<close>

text \<open>A value that is not changed by trimming, escaping and unescaping.\<close>

definition kept :: "string \<Rightarrow> bool" where
  "kept v \<longleftrightarrow> v \<noteq> [] \<and> js_trim v = v \<and> CR \<notin> set v \<and> \<not> backslash_n v"

definition kept_option :: "string option \<Rightarrow> bool" where
  "kept_option v \<longleftrightarrow> truthy v = [] \<or> kept (truthy v)"

definition no_semicolon :: "string option \<Rightarrow> bool" where
  "no_semicolon v \<longleftrightarrow> CHR '';'' \<notin> set (truthy v)"

text \<open>A type of small letters, digits and hyphens.\<close>

definition type_char :: "char \<Rightarrow> bool" where
  "type_char c \<longleftrightarrow> (let n = of_char c :: nat in 97 \<le> n \<and> n \<le> 122 \<or> 48 \<le> n \<and> n \<le> 57 \<or> n = 45)"

definition type_word :: "string \<Rightarrow> bool" where
  "type_word t \<longleftrightarrow> t \<noteq> [] \<and> list_all type_char t"

text \<open>What a contact must be like for its texts to come back, and what comes back.\<close>

definition kept_vcard :: "vcard \<Rightarrow> bool" where
  "kept_vcard c \<longleftrightarrow> kept_option (vc_uid c) \<and> kept_option (Some (written_name c)) \<and> kept_option (vc_first c) \<and> kept_option (vc_last c)
     \<and> no_semicolon (vc_first c) \<and> no_semicolon (vc_last c)
     \<and> list_all (\<lambda>e. kept (em_value e) \<and> type_word (or_else (em_type e) ''other'')) (vc_emails c)
     \<and> list_all (\<lambda>p. kept (fst p) \<and> type_word (or_else (snd p) ''voice'')) (vc_phones c)
     \<and> list_all (\<lambda>p. kept (fst p) \<and> type_word (or_else (snd p) ''work'')) (vc_urls c)
     \<and> kept_option (vc_org c) \<and> no_semicolon (vc_org c) \<and> kept_option (vc_notes c)"

definition read_mail :: "bool \<Rightarrow> mail_entry \<Rightarrow> mail_entry" where
  "read_mail first e = \<lparr>em_value = js_lower (em_value e), em_type = or_else (em_type e) ''other'', em_primary = first\<rparr>"

definition read_back :: "vcard \<Rightarrow> vcard" where
  "read_back c = \<lparr>vc_uid = Some (truthy (vc_uid c)), vc_display = or_null (written_name c),
     vc_first = or_null (truthy (vc_first c)), vc_last = or_null (truthy (vc_last c)),
     vc_emails = (case vc_emails c of [] \<Rightarrow> [] | e # es \<Rightarrow> read_mail True e # map (read_mail False) es),
     vc_phones = map (\<lambda>(v, t). (v, or_else t ''voice'')) (vc_phones c), vc_urls = map (\<lambda>(v, t). (v, or_else t ''work'')) (vc_urls c),
     vc_org = or_null (truthy (vc_org c)), vc_notes = or_null (truthy (vc_notes c)), vc_photo = None\<rparr>"

lemma kept_ends: "kept v \<Longrightarrow> v \<noteq> [] \<and> \<not> js_space (hd v) \<and> \<not> js_space (last v)"
  using js_trim_ends [of v] by (simp add: kept_def)

lemma unescape_kept: "kept v \<Longrightarrow> unescapeValue (escapeValue v) = v"
proof -
  assume k: "kept v"
  then have "filter (\<lambda>c. c \<noteq> CR) v = v" by (auto simp: kept_def filter_id_conv)
  then show ?thesis using k mangle_id [of v] by (simp add: unescape_escape kept_def)
qed

lemma read_kept: "kept v \<Longrightarrow> js_trim (unescapeValue (escapeValue v)) = v"
  by (simp add: unescape_kept) (simp add: kept_def)

lemma trim_line: "l \<noteq> [] \<Longrightarrow> \<not> js_space (hd l) \<Longrightarrow> \<not> js_space (last l) \<Longrightarrow> js_trim l = l"
proof -
  assume a: "l \<noteq> []" "\<not> js_space (hd l)" "\<not> js_space (last l)"
  then have "dropWhile js_space l = l" "dropWhile js_space (rev l) = rev l" by (simp_all add: dropWhile_eq_self_iff hd_rev)
  then show ?thesis by (simp add: js_trim_def)
qed

lemma escaped_clean: "CR \<notin> set (escapeValue v) \<and> LF \<notin> set (escapeValue v)"
  by (induction v) (auto simp: escapeValue_esc esc_def)

lemma spaces [simp]: "js_space CR" "js_space LF" "\<not> js_space (CHR '':'')" "\<not> js_space (CHR '';'')"
  by (simp_all add: js_space_def chars)

lemma escaped_last: "kept v \<Longrightarrow> escapeValue v \<noteq> [] \<and> \<not> js_space (last (escapeValue v))"
proof -
  assume k: "kept v"
  obtain xs x where v: "v = xs @ [x]" using kept_ends [OF k] by (cases v rule: rev_cases) auto
  have "\<not> js_space x" using kept_ends [OF k] v by simp
  then have "x \<noteq> CR" "x \<noteq> LF" by auto
  then have "esc x \<noteq> [] \<and> last (esc x) = x" by (auto simp: esc_def)
  then show ?thesis using \<open>\<not> js_space x\<close> by (simp add: v escapeValue_esc)
qed

section \<open>One line\<close>

lemma index_of: "d \<notin> set w \<Longrightarrow> index_from n d (w @ d # r) = Some (n + length w)"
  by (induction w arbitrary: n) auto

lemma line_read:
  assumes "js_trim line = line" and "line = raw @ CHR '':'' # v" and "CHR '':'' \<notin> set raw" and "hd raw \<notin> {CHR ''B''}" and "raw \<noteq> ''END''" and "raw \<noteq> []"
  shows "parse_line line c = parse_property (property_name (js_upper raw)) (property_params (js_upper raw)) v c"
proof -
  have "line \<noteq> ''BEGIN:VCARD''" using assms(2,4,6) by (cases raw) auto
  moreover have "line \<noteq> ''END:VCARD''"
  proof
    assume "line = ''END:VCARD''"
    then have "takeWhile (\<lambda>c. c \<noteq> CHR '':'') (raw @ CHR '':'' # v) = ''END''" using assms(2) by simp
    moreover have "takeWhile (\<lambda>c. c \<noteq> CHR '':'') (raw @ CHR '':'' # v) = raw" using assms(3) by (subst takeWhile_append2) auto
    ultimately show False using assms(5) by simp
  qed
  moreover have "js_trim (raw @ CHR '':'' # v) = raw @ CHR '':'' # v" using assms(1,2) by simp
  ultimately show ?thesis using assms(2) index_of [OF assms(3), of 0 v] by (simp add: parse_line_def Let_def)
qed

lemma plain_names: "property_name (js_upper ''UID'') = ''UID''" "property_name (js_upper ''FN'') = ''FN''" "property_name (js_upper ''N'') = ''N''"
  "property_name (js_upper ''ORG'') = ''ORG''" "property_name (js_upper ''NOTE'') = ''NOTE''" "property_name (js_upper ''VERSION'') = ''VERSION''"
  by code_simp+

lemma code_of [simp]: "of_char (char_of m :: char) = (m mod 256 :: nat)"
  by simp

lemma codes_differ: "(of_char c :: nat) \<noteq> of_char d \<Longrightarrow> c \<noteq> d"
  by auto

text \<open>A letter or digit of a type, in upper case and back.\<close>

lemma type_char_upper:
  assumes "type_char c"
  shows "js_upper [c] = [char_of (upper_code (of_char c))]" and "js_upper (js_upper [c]) = js_upper [c]" and "js_lower (js_upper [c]) = [c]"
    and "\<forall>d\<in>{CR, LF, CHR '';'', CHR '':'', CHR '','', CHR ''.''}. char_of (upper_code (of_char c)) \<noteq> d" and "c \<noteq> CHR 0x22" and "c \<noteq> CHR 0x27"
proof -
  let ?n = "of_char c :: nat" and ?u = "char_of (upper_code (of_char c)) :: char"
  have n: "97 \<le> ?n \<and> ?n \<le> 122 \<or> 48 \<le> ?n \<and> ?n \<le> 57 \<or> ?n = 45" using assms by (simp add: type_char_def Let_def)
  then have m: "of_char ?u = upper_code ?n" "upper_code ?n \<in> {65..90} \<union> {48..57} \<union> {45}" by (auto simp: upper_code_def)
  have k: "of_char (CHR 0xDF) = (223 :: nat)" "of_char CR = (13 :: nat)" "of_char LF = (10 :: nat)" "of_char (CHR '';'') = (59 :: nat)"
    "of_char (CHR '':'') = (58 :: nat)" "of_char (CHR '','') = (44 :: nat)" "of_char (CHR ''.'') = (46 :: nat)" "of_char (CHR 0x22) = (34 :: nat)" "of_char (CHR 0x27) = (39 :: nat)"
    by (simp_all add: chars)
  have "(of_char c :: nat) \<noteq> of_char (CHR 0xDF)" "(of_char ?u :: nat) \<noteq> of_char (CHR 0xDF)" unfolding m(1) k(1) using n m(2) by auto
  then have d: "c \<noteq> CHR 0xDF" "?u \<noteq> CHR 0xDF" by (blast dest: codes_differ)+
  show "\<forall>d\<in>{CR, LF, CHR '';'', CHR '':'', CHR '','', CHR ''.''}. ?u \<noteq> d"
    by (intro ballI codes_differ) (use m k in auto)
  show "c \<noteq> CHR 0x22" by (rule codes_differ) (use n k in auto)
  show "c \<noteq> CHR 0x27" by (rule codes_differ) (use n k in auto)
  show u: "js_upper [c] = [?u]" using d(1) by (simp add: js_upper_def)
  have "upper_code (upper_code ?n) = upper_code ?n" using n by (auto simp: upper_code_def)
  then show "js_upper (js_upper [c]) = js_upper [c]" unfolding u using d(2) m(1) by (simp add: js_upper_def)
  have "lower_code (upper_code ?n) = ?n" using n by (auto simp: upper_code_def lower_code_def)
  then show "js_lower (js_upper [c]) = [c]" unfolding u using m(1) by (simp add: js_lower_def js_lower_char_def)
qed

lemma upper_append [simp]: "js_upper (a @ b) = js_upper a @ js_upper b" "js_lower (a @ b) = js_lower a @ js_lower b"
  by (simp_all add: js_upper_def js_lower_def)

lemma type_word_written:
  assumes "list_all type_char t"
  shows "js_upper (js_upper t) = js_upper t \<and> js_lower (js_upper t) = t \<and> unquote t = t
    \<and> (\<forall>c\<in>set (js_upper t). c \<notin> {CR, LF, CHR '';'', CHR '':'', CHR '','', CHR ''.''})"
  using assms
proof (induction t)
  case Nil
  then show ?case by (simp add: js_upper_def js_lower_def unquote_def)
next
  case (Cons c t)
  then have "type_char c" by simp
  note c = type_char_upper [OF this]
  have u: "js_upper (c # t) = js_upper [c] @ js_upper t" using upper_append(1) [of "[c]" t] by simp
  have s: "set (js_upper [c]) = {char_of (upper_code (of_char c))}" unfolding c(1) by simp
  show ?case unfolding u using c(2-6) Cons s by (simp add: unquote_def)
qed

section \<open>The lines of a contact\<close>

lemma parse_END: "parse_line ''END:VCARD'' c = c" "parse_line ''BEGIN:VCARD'' c = c"
  by (simp_all add: parse_line_def js_trim_def js_space_def)

text \<open>A line whose name takes no parameters.\<close>

lemma plain_line:
  assumes "v = [] \<or> \<not> js_space (last v)" and "name \<in> {''UID'', ''FN'', ''N'', ''ORG'', ''NOTE'', ''VERSION''}"
  shows "parse_line (name @ CHR '':'' # v) c = parse_property name [] v c"
proof -
  have n: "property_name (js_upper name) = name" using assms(2) plain_names by auto
  have p: "property_params (js_upper name) = []" using assms(2) by (elim insertE emptyE; simp) (code_simp)+
  have h: "name \<noteq> []" "\<not> js_space (hd name)" "CHR '':'' \<notin> set name" "hd name \<notin> {CHR ''B''}" "name \<noteq> ''END''"
    using assms(2) by (auto simp: js_space_def)
  have "js_trim (name @ CHR '':'' # v) = name @ CHR '':'' # v" using h(1,2) assms(1) by (intro trim_line) (auto simp: hd_append)
  from line_read [OF this refl h(3,4,5,1)] show ?thesis by (simp add: n p)
qed

lemma type_param_hit: "t \<noteq> [] \<Longrightarrow> CHR '';'' \<notin> set t \<Longrightarrow> type_param (''TYPE='' @ t) = Some t"
proof -
  assume t: "t \<noteq> []" "CHR '';'' \<notin> set t"
  have l: "js_lower ''TYPE='' = ''type=''" by code_simp
  have tw: "takeWhile (\<lambda>x. x \<noteq> CHR '';'') t = t" using t(2) by (auto simp: takeWhile_eq_all_conv)
  show ?thesis by (simp add: Let_def l t(1) tw)
qed

lemma typed_line_read:
  assumes "type_word t" and "kept v" and "name \<in> {''EMAIL'', ''TEL'', ''URL''}"
  shows "parse_line (typed_line name dflt t v) c = parse_property name (''TYPE='' @ js_upper t) (escapeValue v) c"
    and "type_or d (''TYPE='' @ js_upper t) = t" and "clean_line (typed_line name dflt t v)"
proof -
  note w = type_word_written [of t]
  have t: "list_all type_char t" "t \<noteq> []" using assms(1) by (simp_all add: type_word_def)
  have chars: "\<forall>c\<in>set (js_upper t). c \<notin> {CR, LF, CHR '';'', CHR '':'', CHR '','', CHR ''.''}" and uu: "js_upper (js_upper t) = js_upper t"
    and low: "js_lower (js_upper t) = t" "unquote t = t" using w t(1) by auto
  have ep: "escapeParam (js_upper t) = js_upper t" using chars by (auto simp: escapeParam_def filter_id_conv)
  have ne: "js_upper t \<noteq> []" using low(1) t(2) by (auto simp: js_lower_def)
  let ?raw = "name @ '';TYPE='' @ js_upper t"
  have line: "typed_line name dflt t v = ?raw @ CHR '':'' # escapeValue v" using t(2) by (simp add: typed_line_def ep)
  have n: "name \<noteq> [] \<and> \<not> js_space (hd name) \<and> CHR '':'' \<notin> set name \<and> hd name \<noteq> CHR ''B'' \<and> CHR '';'' \<notin> set name \<and> CR \<notin> set name \<and> LF \<notin> set name"
    using assms(3) by (elim insertE emptyE; simp add: js_space_def CR_def LF_def)
  have h: "name \<noteq> []" "\<not> js_space (hd name)" "CHR '':'' \<notin> set ?raw" "hd ?raw \<notin> {CHR ''B''}" "?raw \<noteq> ''END''" "CHR '';'' \<notin> set name"
    using n chars by (simp_all add: hd_append) auto
  have u: "js_upper ?raw = name @ CHR '';'' # ''TYPE='' @ js_upper t"
  proof -
    have "js_upper name = name" "js_upper '';TYPE='' = '';TYPE=''" using assms(3) by (elim insertE emptyE; simp) (code_simp)+
    then have "js_upper ?raw = name @ '';TYPE='' @ js_upper t" by (simp only: upper_append uu)
    then show ?thesis by simp
  qed
  have "property_name (js_upper ?raw) = name"
  proof -
    have "last_index (CHR ''.'') name = None" using assms(3) by (elim insertE emptyE; simp) (code_simp)+
    then show ?thesis unfolding u property_name_def using split_on_join [OF h(6)] by (simp add: Let_def)
  qed
  moreover have "property_params (js_upper ?raw) = ''TYPE='' @ js_upper t"
    unfolding u property_params_def index_of [OF h(6)] by simp
  moreover have "js_trim (typed_line name dflt t v) = typed_line name dflt t v"
    unfolding line using h(1,2) escaped_last [OF assms(2)] by (intro trim_line) (auto simp: hd_append)
  ultimately show "parse_line (typed_line name dflt t v) c = parse_property name (''TYPE='' @ js_upper t) (escapeValue v) c"
    using line_read [OF _ line h(3,4,5), of c] by simp
  show "type_or d (''TYPE='' @ js_upper t) = t"
  proof -
    have "CHR '';'' \<notin> set (js_upper t)" using chars by blast
    from type_param_hit [OF ne this] show ?thesis unfolding type_or_def using low by (simp only: option.case)
  qed
  show "clean_line (typed_line name dflt t v)"
  proof -
    have "CR \<notin> set (js_upper t) \<and> LF \<notin> set (js_upper t)" using chars by blast
    moreover have "CR \<notin> set '';TYPE='' \<and> LF \<notin> set '';TYPE='' \<and> CR \<noteq> CHR '':'' \<and> LF \<noteq> CHR '':''" by (simp add: CR_def LF_def)
    ultimately show ?thesis unfolding clean_line_def line set_append list.set using n escaped_clean [of v] by (simp only: Un_iff insert_iff hd_append) simp
  qed
qed

section \<open>The contact\<close>

lemma typed_line_default: "typed_line name dflt t v = typed_line name dflt (or_else t dflt) v"
  by (simp add: typed_line_def)

lemma lower_ne: "v \<noteq> [] \<Longrightarrow> js_lower v \<noteq> []"
  by (simp add: js_lower_def)

lemma email_read:
  assumes "kept (em_value e)" and "type_word (or_else (em_type e) ''other'')"
  shows "parse_line (typed_line ''EMAIL'' ''other'' (em_type e) (em_value e)) c = c\<lparr>vc_emails := vc_emails c @ [read_mail (vc_emails c = []) e]\<rparr>"
proof -
  have "em_value e \<noteq> []" using assms(1) by (simp add: kept_def)
  then show ?thesis
    unfolding typed_line_default [of _ _ "em_type e"]
    using typed_line_read(1,2) [OF assms(2,1), of "''EMAIL''"] read_kept [OF assms(1)] lower_ne
    by (simp add: parse_property_def read_mail_def)
qed

lemma more_emails_read: "list_all (\<lambda>e. kept (em_value e) \<and> type_word (or_else (em_type e) ''other'')) es \<Longrightarrow> vc_emails c \<noteq> []
    \<Longrightarrow> fold parse_line (map (\<lambda>e. typed_line ''EMAIL'' ''other'' (em_type e) (em_value e)) es) c = c\<lparr>vc_emails := vc_emails c @ map (read_mail False) es\<rparr>"
  by (induction es arbitrary: c) (simp_all add: email_read)

lemma emails_read: "list_all (\<lambda>e. kept (em_value e) \<and> type_word (or_else (em_type e) ''other'')) es \<Longrightarrow> vc_emails c = []
    \<Longrightarrow> fold parse_line (map (\<lambda>e. typed_line ''EMAIL'' ''other'' (em_type e) (em_value e)) es) c
      = c\<lparr>vc_emails := (case es of [] \<Rightarrow> [] | e # es \<Rightarrow> read_mail True e # map (read_mail False) es)\<rparr>"
  by (cases es) (simp_all add: email_read more_emails_read)

lemma phones_read: "list_all (\<lambda>p. kept (fst p) \<and> type_word (or_else (snd p) ''voice'')) ps
    \<Longrightarrow> fold parse_line (map (\<lambda>(v, t). typed_line ''TEL'' ''voice'' t v) ps) c
      = c\<lparr>vc_phones := vc_phones c @ map (\<lambda>(v, t). (v, or_else t ''voice'')) ps\<rparr>"
proof (induction ps arbitrary: c)
  case (Cons p ps)
  obtain v t where p: "p = (v, t)" by fastforce
  have k: "kept v" "type_word (or_else t ''voice'')" "v \<noteq> []" using Cons.prems by (auto simp: p kept_def)
  then have "parse_line (typed_line ''TEL'' ''voice'' t v) c = c\<lparr>vc_phones := vc_phones c @ [(v, or_else t ''voice'')]\<rparr>"
    unfolding typed_line_default [of _ _ t] using typed_line_read(1,2) [OF k(2,1), of "''TEL''"] read_kept [OF k(1)] by (simp add: parse_property_def)
  then show ?case using Cons by (simp add: p)
qed simp

lemma urls_read: "list_all (\<lambda>p. kept (fst p) \<and> type_word (or_else (snd p) ''work'')) ps
    \<Longrightarrow> fold parse_line (map (\<lambda>(v, t). typed_line ''URL'' ''work'' t v) ps) c
      = c\<lparr>vc_urls := vc_urls c @ map (\<lambda>(v, t). (v, or_else t ''work'')) ps\<rparr>"
proof (induction ps arbitrary: c)
  case (Cons p ps)
  obtain v t where p: "p = (v, t)" by fastforce
  have k: "kept v" "type_word (or_else t ''work'')" "v \<noteq> []" using Cons.prems by (auto simp: p kept_def)
  then have "parse_line (typed_line ''URL'' ''work'' t v) c = c\<lparr>vc_urls := vc_urls c @ [(v, or_else t ''work'')]\<rparr>"
    unfolding typed_line_default [of _ _ t] using typed_line_read(1,2) [OF k(2,1), of "''URL''"] read_kept [OF k(1)] by (simp add: parse_property_def)
  then show ?case using Cons by (simp add: p)
qed simp

text \<open>Escaping adds no semicolon to a value without one, so the parts of a name stay apart.\<close>

lemma escape_no_semicolon: "CHR '';'' \<notin> set v \<Longrightarrow> CHR '';'' \<notin> set (escapeValue v)"
  by (induction v) (auto simp: escapeValue_esc esc_def chars)

lemma kept_or_empty: "kept_option v \<Longrightarrow> js_trim (unescapeValue (escapeValue (truthy v))) = truthy v"
  by (auto simp: kept_option_def read_kept) (simp add: escapeValue_def unescapeValue_def js_trim_def)

lemma kept_end: "kept_option v \<Longrightarrow> escapeValue (truthy v) = [] \<or> \<not> js_space (last (escapeValue (truthy v)))"
  using escaped_last by (auto simp: kept_option_def escapeValue_def)

lemma names_read:
  assumes "kept_option f" and "kept_option l" and "no_semicolon f" and "no_semicolon l"
  shows "parse_line (''N:'' @ escapeValue (truthy l) @ '';'' @ escapeValue (truthy f) @ '';;;'') c
    = c\<lparr>vc_last := or_null (truthy l), vc_first := or_null (truthy f)\<rparr>"
proof -
  let ?v = "escapeValue (truthy l) @ '';'' @ escapeValue (truthy f) @ '';;;''"
  have n: "CHR '';'' \<notin> set (escapeValue (truthy l))" "CHR '';'' \<notin> set (escapeValue (truthy f))"
    using assms(3,4) by (simp_all add: no_semicolon_def escape_no_semicolon)
  have s: "split_on (CHR '';'') ?v = [escapeValue (truthy l), escapeValue (truthy f), [], [], []]"
    using split_on_join [OF n(1)] split_on_join [OF n(2)] by simp
  have "parse_line (''N'' @ CHR '':'' # ?v) c = parse_property ''N'' [] ?v c" by (rule plain_line) simp_all
  also have "\<dots> = c\<lparr>vc_last := or_null (truthy l), vc_first := or_null (truthy f)\<rparr>"
    unfolding parse_property_def s using kept_or_empty [OF assms(1)] kept_or_empty [OF assms(2)] by (simp add: Let_def)
  finally show ?thesis by simp
qed

lemma optional_read:
  assumes "kept_option v" and "name = ''ORG'' \<and> no_semicolon v \<or> name = ''NOTE''" and "truthy v \<noteq> []"
  shows "parse_line (name @ CHR '':'' # escapeValue (truthy v)) c
    = (if name = ''ORG'' then c\<lparr>vc_org := or_null (truthy v)\<rparr> else c\<lparr>vc_notes := or_null (truthy v)\<rparr>)"
proof -
  have "name \<in> {''UID'', ''FN'', ''N'', ''ORG'', ''NOTE'', ''VERSION''}" using assms(2) by blast
  from plain_line [OF kept_end [OF assms(1)] this]
  have p: "parse_line (name @ CHR '':'' # escapeValue (truthy v)) c = parse_property name [] (escapeValue (truthy v)) c" .
  show ?thesis
  proof (cases "name = ''ORG''")
    case True
    then have "CHR '';'' \<notin> set (escapeValue (truthy v))" using assms(2) by (auto simp: no_semicolon_def intro!: escape_no_semicolon)
    then have "hd (split_on (CHR '';'') (escapeValue (truthy v))) = escapeValue (truthy v)" by (simp add: split_on_last)
    then show ?thesis using p True kept_or_empty [OF assms(1)] by (simp add: parse_property_def)
  next
    case False
    then show ?thesis using p assms(2) kept_or_empty [OF assms(1)] by (simp add: parse_property_def)
  qed
qed

lemma org_read: "kept_option v \<Longrightarrow> no_semicolon v \<Longrightarrow> vc_org c = None
    \<Longrightarrow> fold parse_line (if truthy v \<noteq> [] then [''ORG:'' @ escapeValue (truthy v)] else []) c = c\<lparr>vc_org := or_null (truthy v)\<rparr>"
  using optional_read [of v "''ORG''" c] by (cases "truthy v = []") (simp_all add: or_null_def)

lemma notes_read: "kept_option v \<Longrightarrow> vc_notes c = None
    \<Longrightarrow> fold parse_line (if truthy v \<noteq> [] then [''NOTE:'' @ escapeValue (truthy v)] else []) c = c\<lparr>vc_notes := or_null (truthy v)\<rparr>"
  using optional_read [of v "''NOTE''" c] by (cases "truthy v = []") (simp_all add: or_null_def)

lemma plain_clean: "name \<in> {''UID'', ''FN'', ''N'', ''ORG'', ''NOTE'', ''VERSION''} \<Longrightarrow> CR \<notin> set w \<Longrightarrow> LF \<notin> set w \<Longrightarrow> clean_line (name @ CHR '':'' # w)"
  by (elim insertE emptyE; simp add: clean_line_def js_space_def CR_def LF_def)

lemma lines_clean:
  assumes "kept_vcard c"
  shows "\<forall>l\<in>set (vcard_lines c). clean_line l"
proof -
  have e: "CR \<notin> set (escapeValue v)" "LF \<notin> set (escapeValue v)" for v using escaped_clean by blast+
  have f: "clean_line ''BEGIN:VCARD''" "clean_line ''END:VCARD''" by (simp_all add: clean_line_def js_space_def CR_def LF_def)
  have p: "clean_line (''VERSION:3.0'')" "clean_line (''UID:'' @ escapeValue u)" "clean_line (''FN:'' @ escapeValue u)"
    "clean_line (''N:'' @ escapeValue u @ '';'' @ escapeValue v @ '';;;'')" "clean_line (''ORG:'' @ escapeValue u)" "clean_line (''NOTE:'' @ escapeValue u)" for u v
    using plain_clean [of "''VERSION''" "''3.0''"] plain_clean [of "''UID''" "escapeValue u"] plain_clean [of "''FN''" "escapeValue u"]
      plain_clean [of "''N''" "escapeValue u @ '';'' @ escapeValue v @ '';;;''"] plain_clean [of "''ORG''" "escapeValue u"] plain_clean [of "''NOTE''" "escapeValue u"] e
    by (simp_all add: CR_def LF_def)
  have typed: "clean_line (typed_line name dflt ty v)" if "type_word (or_else ty dflt)" "kept v" "name \<in> {''EMAIL'', ''TEL'', ''URL''}" for name dflt ty v
    unfolding typed_line_default [of name dflt ty] by (rule typed_line_read(3) [OF that])
  have t: "clean_line (typed_line ''EMAIL'' ''other'' (em_type x) (em_value x))" if "x \<in> set (vc_emails c)" for x
    using assms that by (intro typed) (auto simp: kept_vcard_def list_all_iff)
  have q: "clean_line (typed_line ''TEL'' ''voice'' (snd x) (fst x))" if "x \<in> set (vc_phones c)" for x
    using assms that by (intro typed) (auto simp: kept_vcard_def list_all_iff)
  have r: "clean_line (typed_line ''URL'' ''work'' (snd x) (fst x))" if "x \<in> set (vc_urls c)" for x
    using assms that by (intro typed) (auto simp: kept_vcard_def list_all_iff)
  show ?thesis unfolding vcard_lines_def using f p t q r by (auto simp del: append.simps)
qed

lemma names_or_none:
  assumes "kept_option f" and "kept_option l" and "no_semicolon f" and "no_semicolon l" and "vc_first c = None" and "vc_last c = None"
  shows "fold parse_line (if truthy f \<noteq> [] \<or> truthy l \<noteq> [] then [''N:'' @ escapeValue (truthy l) @ '';'' @ escapeValue (truthy f) @ '';;;''] else []) c
    = c\<lparr>vc_last := or_null (truthy l), vc_first := or_null (truthy f)\<rparr>"
  using names_read [OF assms(1-4), of c] assms(5,6) by (auto simp: or_null_def)

lemma head_read:
  assumes "kept_option (vc_uid c)" and "kept_option (Some (written_name c))"
  shows "fold parse_line [''BEGIN:VCARD'', ''VERSION:3.0'', ''UID:'' @ escapeValue (truthy (vc_uid c)), ''FN:'' @ escapeValue (written_name c)] empty_vcard
      = empty_vcard\<lparr>vc_uid := Some (truthy (vc_uid c)), vc_display := or_null (written_name c)\<rparr>"
proof -
  have v: "parse_line ''VERSION:3.0'' x = x" for x
    using plain_line [of "''3.0''" "''VERSION''" x] by (simp add: parse_property_def js_space_def)
  have w: "truthy (Some (written_name c)) = written_name c" by (simp add: truthy_def)
  note n = kept_end [OF assms(2), unfolded w] kept_or_empty [OF assms(2), unfolded w]
  show ?thesis
    using plain_line [OF kept_end [OF assms(1)], of "''UID''"] plain_line [OF n(1), of "''FN''"]
    by (simp add: parse_END v parse_property_def kept_or_empty [OF assms(1)] n(2))
qed

text \<open>C35: A contact written as a vCard and read again is \<open>read_back\<close> of the contact, however long its values are and wherever its
  lines are folded: every text of it is back, but the addresses are in small letters and the first of them is the primary one, a display name
  that was missing is the name or the address it was written with, a missing uid and missing types are filled in, and the photo
  is gone. This takes values that are trimmed and have no carriage return and no \<open>n\<close> after a
  backslash, entries of addresses, numbers and pages that are not empty, types that are words of small letters, digits and hyphens, and
  no semicolon in the first or last name or the organisation.\<close>
theorem contact_comes_back:
  assumes "kept_vcard c"
  shows "\<exists>t. generateVCard c = Some t \<and> parseVCard t = read_back c"
proof -
  obtain t where t: "fold_lines (vcard_lines c) = Some t" "parseVCard t = fold parse_line (vcard_lines c) empty_vcard"
    using lines_read [OF lines_clean [OF assms]] by blast
  note k = assms [unfolded kept_vcard_def]
  let ?c1 = "empty_vcard\<lparr>vc_uid := Some (truthy (vc_uid c)), vc_display := or_null (written_name c)\<rparr>"
  let ?c2 = "?c1\<lparr>vc_last := or_null (truthy (vc_last c)), vc_first := or_null (truthy (vc_first c))\<rparr>"
  let ?c3 = "?c2\<lparr>vc_emails := vc_emails (read_back c)\<rparr>"
  let ?c4 = "?c3\<lparr>vc_phones := vc_phones (read_back c)\<rparr>"
  let ?c5 = "?c4\<lparr>vc_urls := vc_urls (read_back c)\<rparr>"
  let ?c6 = "?c5\<lparr>vc_org := or_null (truthy (vc_org c))\<rparr>"
  have b: "fold parse_line [''BEGIN:VCARD'', ''VERSION:3.0'', ''UID:'' @ escapeValue (truthy (vc_uid c)), ''FN:'' @ escapeValue (written_name c)] empty_vcard = ?c1"
    by (rule head_read) (use k in simp_all)
  have s1: "fold parse_line (if truthy (vc_first c) \<noteq> [] \<or> truthy (vc_last c) \<noteq> []
      then [''N:'' @ escapeValue (truthy (vc_last c)) @ '';'' @ escapeValue (truthy (vc_first c)) @ '';;;''] else []) ?c1 = ?c2"
    by (rule names_or_none) (use k in \<open>simp_all add: empty_vcard_def\<close>)
  have s2: "fold parse_line (map (\<lambda>e. typed_line ''EMAIL'' ''other'' (em_type e) (em_value e)) (vc_emails c)) ?c2 = ?c3"
    using k emails_read [of "vc_emails c" ?c2] by (simp add: empty_vcard_def read_back_def)
  have s3: "fold parse_line (map (\<lambda>(v, t). typed_line ''TEL'' ''voice'' t v) (vc_phones c)) ?c3 = ?c4"
    using k phones_read [of "vc_phones c" ?c3] by (simp add: empty_vcard_def read_back_def)
  have s4: "fold parse_line (map (\<lambda>(v, t). typed_line ''URL'' ''work'' t v) (vc_urls c)) ?c4 = ?c5"
    using k urls_read [of "vc_urls c" ?c4] by (simp add: empty_vcard_def read_back_def)
  have s5: "fold parse_line (if truthy (vc_org c) \<noteq> [] then [''ORG:'' @ escapeValue (truthy (vc_org c))] else []) ?c5 = ?c6"
    by (rule org_read) (use k in \<open>simp_all add: empty_vcard_def\<close>)
  have s6: "fold parse_line (if truthy (vc_notes c) \<noteq> [] then [''NOTE:'' @ escapeValue (truthy (vc_notes c))] else []) ?c6 = read_back c"
  proof -
    have "?c6\<lparr>vc_notes := or_null (truthy (vc_notes c))\<rparr> = read_back c" by (simp add: empty_vcard_def read_back_def)
    then show ?thesis using notes_read [of "vc_notes c" ?c6] k by (simp add: empty_vcard_def)
  qed
  have "fold parse_line (vcard_lines c) empty_vcard = parse_line ''END:VCARD'' (read_back c)"
    unfolding vcard_lines_def fold_append comp_apply b s1 s2 s3 s4 s5 s6 by simp
  then have "fold parse_line (vcard_lines c) empty_vcard = read_back c" by (simp only: parse_END)
  then show ?thesis using t by (auto simp: generateVCard_def)
qed

text \<open>A contact without uid and display name, with an address in capitals and a photo.\<close>

definition ex_contact :: vcard where
  "ex_contact = \<lparr>vc_uid = None, vc_display = None, vc_first = Some ''J'', vc_last = None,
     vc_emails = [\<lparr>em_value = ''J@x.org'', em_type = [], em_primary = False\<rparr>], vc_phones = [(''1 2'', ''cell'')], vc_urls = [],
     vc_org = None, vc_notes = Some [CHR ''a'', LF, CHR '';'', CHR ''b''], vc_photo = Some ''data:''\<rparr>"

theorem contact_comes_back_witness:
  "\<exists>t. generateVCard ex_contact = Some t \<and> parseVCard t = \<lparr>vc_uid = Some [], vc_display = Some ''J'', vc_first = Some ''J'', vc_last = None,
     vc_emails = [\<lparr>em_value = ''j@x.org'', em_type = ''other'', em_primary = True\<rparr>], vc_phones = [(''1 2'', ''cell'')], vc_urls = [],
     vc_org = None, vc_notes = Some [CHR ''a'', LF, CHR '';'', CHR ''b''], vc_photo = None\<rparr>"
proof -
  have k: "kept v" if "v \<noteq> []" "js_trim v = v" "CR \<notin> set v" "backslash \<notin> set v" for v
    using that by (auto simp: kept_def backslash_n_def dest: set_mono_sublist)
  have v: "kept ''J''" "kept ''J@x.org''" "kept ''1 2''" "kept [CHR ''a'', LF, CHR '';'', CHR ''b'']" "written_name ex_contact = ''J''"
    "type_word ''other''" "type_word ''cell''"
    by (rule k; code_simp) (rule k; code_simp | code_simp)+
  have "kept_vcard ex_contact"
    using v unfolding kept_vcard_def by (simp add: ex_contact_def kept_option_def no_semicolon_def truthy_def)
  moreover have "read_back ex_contact = \<lparr>vc_uid = Some [], vc_display = Some ''J'', vc_first = Some ''J'', vc_last = None,
     vc_emails = [\<lparr>em_value = ''j@x.org'', em_type = ''other'', em_primary = True\<rparr>], vc_phones = [(''1 2'', ''cell'')], vc_urls = [],
     vc_org = None, vc_notes = Some [CHR ''a'', LF, CHR '';'', CHR ''b''], vc_photo = None\<rparr>" by code_simp
  ultimately show ?thesis using contact_comes_back [of ex_contact] by simp
qed

end
