(* ===== verification/GoogleApps.thy ===== *)
theory GoogleApps
  imports Rex
begin

text \<open>
  Google OAuth apps: the registry of apps and the journal of the accounts they issued tokens to
  (\<open>services/oauth/googleApps.js\<close>), and which app a consent goes through
  (\<open>services/oauth/googleAppSelection.js\<close>), with the reservations of seats Redis holds while a consent
  is under way. A statement is a function on the tables, a transaction runs alone under its
  advisory lock. The hash of an address, the random ids and the encryption of a secret are arguments.
\<close>

section \<open>Tables\<close>

record gapp =
  ga_id :: string
  ga_label :: string
  ga_client :: string
  ga_secret :: string
  ga_project :: string
  ga_limit :: nat
  ga_status :: string

record grant =
  gr_project :: string
  gr_email :: string
  gr_sub :: "string option"

record gmailbox =
  gm_id :: string
  gm_email :: string
  gm_google :: bool
  gm_app :: "string option"
  gm_reconnect :: bool

text \<open>The apps are in the order of their creation; reservations are members of a sorted set with the moment they expire.\<close>

record gtables =
  gt_apps :: "gapp list"
  gt_grants :: "grant list"
  gt_mailboxes :: "gmailbox list"
  gt_reserved :: "string \<Rightarrow> (string \<times> int) list"

datatype app_error = AppExists | AppSameProject | AppNotFound | AppInUse | AppStatusInvalid | LabelInvalid | UserLimitInvalid
  | ClientIdInvalid | ClientSecretRequired

section \<open>The registry\<close>

text \<open>\<open>/^(\d+)-[a-z0-9]+\.apps\.googleusercontent\.com$/\<close>: the project is the number it begins with.\<close>

definition client_id_pattern :: rex where
  "client_id_pattern = rseqs [rplus (RSet js_digit), rlit ''-'', rplus (RSet (\<lambda>c. js_digit c \<or> c \<in> set ''abcdefghijklmnopqrstuvwxyz'')),
     rlit ''.apps.googleusercontent.com'']"

definition parseGoogleClientId :: "string \<Rightarrow> string option" where
  "parseGoogleClientId cid = (let t = js_trim cid in if rex_match client_id_pattern t then Some (takeWhile js_digit t) else None)"

definition GOOGLE_APP_STATUSES :: "string list" where
  "GOOGLE_APP_STATUSES = [''active'', ''closed'', ''disabled'']"

definition LABEL_MAX :: nat where "LABEL_MAX = 100"
definition USER_LIMIT_MAX :: int where "USER_LIMIT_MAX = 2147483647"

definition normalizeLabel :: "string \<Rightarrow> app_error + string" where
  "normalizeLabel l = (let v = js_trim l in if v = [] \<or> length v > LABEL_MAX then Inl LabelInvalid else Inr v)"

definition normalizeUserLimit :: "int \<Rightarrow> app_error + nat" where
  "normalizeUserLimit n = (if n \<le> 0 \<or> n > USER_LIMIT_MAX then Inl UserLimitInvalid else Inr (nat n))"

definition getGoogleAppById :: "string option \<Rightarrow> gtables \<Rightarrow> gapp option" where
  "getGoogleAppById i t = (case i of None \<Rightarrow> None | Some k \<Rightarrow> if k = [] then None else List.find (\<lambda>a. ga_id a = k) (gt_apps t))"

definition getDefaultGoogleApp :: "gtables \<Rightarrow> gapp option" where
  "getDefaultGoogleApp t = List.find (\<lambda>a. ga_status a \<noteq> ''disabled'') (gt_apps t)"

text \<open>The grants of a project, and whether one is of an address.\<close>

definition grants_of :: "string \<Rightarrow> gtables \<Rightarrow> nat" where
  "grants_of p t = length (filter (\<lambda>g. gr_project g = p) (gt_grants t))"

definition is_granted :: "string \<Rightarrow> string \<Rightarrow> gtables \<Rightarrow> bool" where
  "is_granted p email t = list_ex (\<lambda>g. gr_project g = p \<and> gr_email g = js_lower email) (gt_grants t)"

definition recordGoogleGrant :: "string \<Rightarrow> string \<Rightarrow> string option \<Rightarrow> gtables \<Rightarrow> gtables" where
  "recordGoogleGrant p email sub t = (if is_granted p email t
     then t\<lparr>gt_grants := map (\<lambda>g. if gr_project g = p \<and> gr_email g = js_lower email
         then g\<lparr>gr_sub := (case gr_sub g of None \<Rightarrow> sub | Some s \<Rightarrow> Some s)\<rparr> else g) (gt_grants t)\<rparr>
     else t\<lparr>gt_grants := gt_grants t @ [\<lparr>gr_project = p, gr_email = js_lower email, gr_sub = sub\<rparr>]\<rparr>)"

text \<open>Disabling an app flags its mailboxes and returns their ids.\<close>

definition setGoogleAppStatus :: "string \<Rightarrow> string \<Rightarrow> gtables \<Rightarrow> (app_error + string list) \<times> gtables" where
  "setGoogleAppStatus i status t =
     (if status \<notin> set GOOGLE_APP_STATUSES then (Inl AppStatusInvalid, t)
      else if \<not> list_ex (\<lambda>a. ga_id a = i) (gt_apps t) then (Inl AppNotFound, t)
      else let t1 = t\<lparr>gt_apps := map (\<lambda>a. if ga_id a = i then a\<lparr>ga_status := status\<rparr> else a) (gt_apps t)\<rparr> in
        if status \<noteq> ''disabled'' then (Inr [], t1)
        else (Inr (map gm_id (filter (\<lambda>m. gm_app m = Some i) (gt_mailboxes t))),
          t1\<lparr>gt_mailboxes := map (\<lambda>m. if gm_app m = Some i then m\<lparr>gm_reconnect := True\<rparr> else m) (gt_mailboxes t)\<rparr>))"

definition createGoogleApp :: "(string \<Rightarrow> string) \<Rightarrow> string \<Rightarrow> string \<Rightarrow> string \<Rightarrow> string \<Rightarrow> int \<Rightarrow> gtables \<Rightarrow> (app_error + gapp) \<times> gtables" where
  "createGoogleApp seal new label client secret limit t = (case normalizeLabel label of Inl e \<Rightarrow> (Inl e, t)
     | Inr l \<Rightarrow> (case parseGoogleClientId client of None \<Rightarrow> (Inl ClientIdInvalid, t)
       | Some p \<Rightarrow> if js_trim secret = [] then (Inl ClientSecretRequired, t)
         else case normalizeUserLimit limit of Inl e \<Rightarrow> (Inl e, t)
         | Inr n \<Rightarrow>
             if list_ex (\<lambda>a. ga_client a = js_trim client) (gt_apps t) then (Inl AppExists, t)
             else if list_ex (\<lambda>a. ga_project a = p) (gt_apps t) then (Inl AppSameProject, t)
             else let a = \<lparr>ga_id = new, ga_label = l, ga_client = js_trim client, ga_secret = seal (js_trim secret), ga_project = p, ga_limit = n, ga_status = ''active''\<rparr>
               in (Inr a, t\<lparr>gt_apps := gt_apps t @ [a]\<rparr>)))"

text \<open>A field that is not given keeps its value.\<close>

definition updateGoogleApp :: "(string \<Rightarrow> string) \<Rightarrow> string \<Rightarrow> string option \<Rightarrow> string option \<Rightarrow> int option \<Rightarrow> gtables \<Rightarrow> (app_error + gapp) \<times> gtables" where
  "updateGoogleApp seal i label secret limit t =
     (case (case label of None \<Rightarrow> Inr None | Some l \<Rightarrow> map_sum id Some (normalizeLabel l)) of Inl e \<Rightarrow> (Inl e, t)
      | Inr l \<Rightarrow> (case (case limit of None \<Rightarrow> Inr None | Some n \<Rightarrow> map_sum id Some (normalizeUserLimit n)) of Inl e \<Rightarrow> (Inl e, t)
        | Inr n \<Rightarrow>
            let given = (case secret of Some s \<Rightarrow> js_trim s | None \<Rightarrow> []);
                upd = (\<lambda>a. a\<lparr>ga_label := (case l of Some x \<Rightarrow> x | None \<Rightarrow> ga_label a),
                  ga_secret := (if given = [] then ga_secret a else seal given), ga_limit := (case n of Some x \<Rightarrow> x | None \<Rightarrow> ga_limit a)\<rparr>)
            in case List.find (\<lambda>a. ga_id a = i) (gt_apps t) of None \<Rightarrow> (Inl AppNotFound, t)
              | Some a \<Rightarrow> (Inr (upd a), t\<lparr>gt_apps := map (\<lambda>a. if ga_id a = i then upd a else a) (gt_apps t)\<rparr>)))"

text \<open>The journal of grants stays.\<close>

definition deleteGoogleApp :: "string \<Rightarrow> gtables \<Rightarrow> (app_error + unit) \<times> gtables" where
  "deleteGoogleApp i t = (if list_ex (\<lambda>m. gm_app m = Some i) (gt_mailboxes t) then (Inl AppInUse, t)
     else if \<not> list_ex (\<lambda>a. ga_id a = i) (gt_apps t) then (Inl AppNotFound, t)
     else (Inr (), t\<lparr>gt_apps := filter (\<lambda>a. ga_id a \<noteq> i) (gt_apps t)\<rparr>))"

definition KNOWN_EMAILS_LIMIT :: nat where "KNOWN_EMAILS_LIMIT = 8"

text \<open>\<open>LIKE '%' || q || '%'\<close> with the wildcards of \<open>q\<close> escaped: the address has \<open>q\<close> in it.\<close>

definition findKnownGoogleEmails :: "(string list \<Rightarrow> string list) \<Rightarrow> string \<Rightarrow> gtables \<Rightarrow> string list" where
  "findKnownGoogleEmails order q t = take KNOWN_EMAILS_LIMIT (order (js_set (map gr_email (filter (\<lambda>g. js_includes (gr_email g) (js_lower (js_trim q))
     \<and> list_ex (\<lambda>a. ga_project a = gr_project g) (gt_apps t) \<and> \<not> list_ex (\<lambda>m. js_lower (gm_email m) = gr_email g) (gt_mailboxes t)) (gt_grants t)))))"

text \<open>
  The client of the older settings becomes the first app, once: \<open>imported\<close> is the recorded setting,
  \<open>stored\<close> the client id and the secret, which is \<open>None\<close> when it does not decrypt.
\<close>

record legacy =
  lg_done :: bool
  lg_stored :: "(string \<times> string option) option"

definition importLegacyGoogleConfig :: "(string \<Rightarrow> string) \<Rightarrow> string \<Rightarrow> legacy \<Rightarrow> gtables \<Rightarrow> string option \<times> legacy \<times> gtables" where
  "importLegacyGoogleConfig seal new l t =
     (if lg_done l then (None, l, t)
      else if gt_apps t \<noteq> [] then (None, l\<lparr>lg_done := True\<rparr>, t)
      else case lg_stored l of None \<Rightarrow> (None, l, t)
        | Some (client, secret) \<Rightarrow> (case parseGoogleClientId client of None \<Rightarrow> (None, l, t)
          | Some p \<Rightarrow> (case secret of None \<Rightarrow> (None, l, t)
            | Some sec \<Rightarrow> if sec = [] then (None, l, t)
              else let a = \<lparr>ga_id = new, ga_label = ''Google 1'', ga_client = js_trim client, ga_secret = seal sec, ga_project = p, ga_limit = 100, ga_status = ''active''\<rparr>;
                  ms = map (\<lambda>m. if gm_google m \<and> gm_app m = None then m\<lparr>gm_app := Some new\<rparr> else m) (gt_mailboxes t);
                  t1 = t\<lparr>gt_apps := [a], gt_mailboxes := ms\<rparr>
                in (Some new, \<lparr>lg_done = True, lg_stored = None\<rparr>,
                  fold (\<lambda>m t. if gm_app m = Some new \<and> \<not> is_granted p (gm_email m) t then recordGoogleGrant p (gm_email m) None t else t) ms t1))))"

section \<open>Reservations\<close>

definition googleEmailDigest :: "(string \<Rightarrow> string) \<Rightarrow> string \<Rightarrow> string" where
  "googleEmailDigest hash email = hash (js_lower (js_trim email))"

text \<open>A member is a digest and the id of its consent; members of older versions are a digest.\<close>

definition reservationMember :: "(string \<Rightarrow> string) \<Rightarrow> string \<Rightarrow> string option \<Rightarrow> string" where
  "reservationMember hash email rid = (case rid of Some r \<Rightarrow> if r = [] then googleEmailDigest hash email else googleEmailDigest hash email @ '':'' @ r
     | None \<Rightarrow> googleEmailDigest hash email)"

definition memberDigest :: "string \<Rightarrow> string" where
  "memberDigest m = hd (split_on (CHR '':'') m)"

text \<open>The digests with a live reservation; the expired ones are dropped first.\<close>

definition drop_expired :: "string \<Rightarrow> int \<Rightarrow> gtables \<Rightarrow> gtables" where
  "drop_expired i now t = t\<lparr>gt_reserved := (gt_reserved t)(i := filter (\<lambda>m. snd m > now) (gt_reserved t i))\<rparr>"

definition reservedDigests :: "string \<Rightarrow> int \<Rightarrow> gtables \<Rightarrow> string list \<times> gtables" where
  "reservedDigests i now t = (let t1 = drop_expired i now t in (js_set (map (memberDigest \<circ> fst) (gt_reserved t1 i)), t1))"

definition countGoogleReservations :: "string \<Rightarrow> int \<Rightarrow> gtables \<Rightarrow> nat \<times> gtables" where
  "countGoogleReservations i now t = (case reservedDigests i now t of (ds, t1) \<Rightarrow> (length ds, t1))"

definition hasLiveReservation :: "(string \<Rightarrow> string) \<Rightarrow> string \<Rightarrow> int \<Rightarrow> gapp \<Rightarrow> gtables \<Rightarrow> bool \<times> gtables" where
  "hasLiveReservation hash email now a t = (case reservedDigests (ga_id a) now t of (ds, t1) \<Rightarrow> (googleEmailDigest hash email \<in> set ds, t1))"

definition OAUTH_STATE_TTL_SECONDS :: int where
  "OAUTH_STATE_TTL_SECONDS = 600"

text \<open>The set of an app never outlives its newest reservation, so its own expiry drops nothing that is live.\<close>

definition reserveSeat :: "(string \<Rightarrow> string) \<Rightarrow> string \<Rightarrow> string \<Rightarrow> string \<Rightarrow> int \<Rightarrow> gtables \<Rightarrow> gtables" where
  "reserveSeat hash i email rid now t = (let m = reservationMember hash email (Some rid) in
     t\<lparr>gt_reserved := (gt_reserved t)(i := filter (\<lambda>x. fst x \<noteq> m) (gt_reserved t i) @ [(m, now + OAUTH_STATE_TTL_SECONDS * 1000)])\<rparr>)"

definition releaseGoogleSeat :: "(string \<Rightarrow> string) \<Rightarrow> bool \<Rightarrow> string \<Rightarrow> string \<Rightarrow> string option \<Rightarrow> gtables \<Rightarrow> gtables" where
  "releaseGoogleSeat hash up i email rid t = (if i = [] \<or> email = [] \<or> \<not> up then t
     else t\<lparr>gt_reserved := (gt_reserved t)(i := filter (\<lambda>x. fst x \<noteq> reservationMember hash email rid) (gt_reserved t i))\<rparr>)"

section \<open>Selection\<close>

definition hasFreeSeat :: "int \<Rightarrow> gapp \<Rightarrow> gtables \<Rightarrow> bool \<times> gtables" where
  "hasFreeSeat now a t = (case countGoogleReservations (ga_id a) now t of (n, t1) \<Rightarrow> (grants_of (ga_project a) t + n < ga_limit a, t1))"

fun first_app :: "(gapp \<Rightarrow> gtables \<Rightarrow> bool \<times> gtables) \<Rightarrow> gapp list \<Rightarrow> gtables \<Rightarrow> gapp option \<times> gtables" where
  "first_app p [] t = (None, t)"
| "first_app p (a # as) t = (case p a t of (yes, t1) \<Rightarrow> if yes then (Some a, t1) else first_app p as t1)"

datatype selection = NotConfigured | NoAppCapacity | Chosen string "string option"

text \<open>\<open>own\<close> is the app of the mailbox that reconnects; \<open>rid\<close> the random id of the reservation.\<close>

definition selectGoogleApp :: "(string \<Rightarrow> string) \<Rightarrow> string \<Rightarrow> int \<Rightarrow> string \<Rightarrow> string option \<Rightarrow> gtables \<Rightarrow> selection \<times> gtables" where
  "selectGoogleApp hash rid now email own t =
     (let usable = filter (\<lambda>a. ga_status a \<noteq> ''disabled'') (gt_apps t) in
      if usable = [] then (NotConfigured, t)
      else case (case own of None \<Rightarrow> None | Some k \<Rightarrow> if k = [] then None else List.find (\<lambda>a. ga_id a = k) usable) of Some a \<Rightarrow> (Chosen (ga_id a) None, t)
      | None \<Rightarrow> (case List.find (\<lambda>a. is_granted (ga_project a) email t) usable of Some a \<Rightarrow> (Chosen (ga_id a) None, t)
        | None \<Rightarrow> (let active = filter (\<lambda>a. ga_status a = ''active'') usable in
            case first_app (hasLiveReservation hash email now) active t of
              (Some a, t1) \<Rightarrow> (Chosen (ga_id a) (Some rid), reserveSeat hash (ga_id a) email rid now t1)
            | (None, t1) \<Rightarrow> (case first_app (hasFreeSeat now) active t1 of
                (Some a, t2) \<Rightarrow> (Chosen (ga_id a) (Some rid), reserveSeat hash (ga_id a) email rid now t2)
              | (None, t2) \<Rightarrow> (NoAppCapacity, t2)))))"

definition googleHasCapacity :: "int \<Rightarrow> gtables \<Rightarrow> bool \<times> gtables" where
  "googleHasCapacity now t = (case first_app (hasFreeSeat now) (filter (\<lambda>a. ga_status a = ''active'') (gt_apps t)) t of (a, t1) \<Rightarrow> (a \<noteq> None, t1))"

end
