(* ===== verification/OAuthTokens.thy ===== *)
theory OAuthTokens
  imports GoogleApps
begin

text \<open>
  Access tokens of connected mailboxes: when one is refreshed and by whom
  (\<open>services/oauth/tokenManager.js\<close>), and the refresh with Google and Microsoft
  (\<open>services/oauth/googleOAuth.js\<close>, \<open>services/oauth/microsoftOAuth.js\<close>). What the provider answers,
  the encryption of stored tokens and the clock are arguments; a statement that the database refuses
  is left out. A refresh reads the row, calls the provider, and writes to the table as it is by then.
\<close>

section \<open>Mailboxes and errors\<close>

record token_row =
  tr_id :: string
  tr_provider :: "string option"
  tr_access :: "string option"
  tr_refresh :: "string option"
  tr_expiry :: "int option"
  tr_public :: bool
  tr_app :: "string option"
  tr_reconnect :: bool

text \<open>An error of a provider module: its code and the error of the provider.\<close>

record refresh_error =
  re_code :: "string option"
  re_oauth :: "string option"

datatype token_error = ReconnectRequired | RefreshFailed | UnsupportedProvider | AccountNotFound

definition OAUTH_PROVIDERS :: "string list" where
  "OAUTH_PROVIDERS = [''microsoft'', ''google'']"

definition isOAuthAccount :: "token_row \<Rightarrow> bool" where
  "isOAuthAccount a \<longleftrightarrow> (case tr_provider a of None \<Rightarrow> False | Some p \<Rightarrow> p \<in> set OAUTH_PROVIDERS)"

definition TOKEN_REFRESH_SKEW_MS :: int where "TOKEN_REFRESH_SKEW_MS = 5 * 60 * 1000"
definition LOCK_TTL_SECONDS :: int where "LOCK_TTL_SECONDS = 60"

definition RECONNECT_OAUTH_ERRORS :: "string list" where
  "RECONNECT_OAUTH_ERRORS = [''invalid_grant'', ''missing_refresh_token'', ''app_unavailable'']"

definition needsTokenRefresh :: "int \<Rightarrow> token_row \<Rightarrow> bool" where
  "needsTokenRefresh now a \<longleftrightarrow> \<not> text_given (tr_access a) \<or> (case tr_expiry a of None \<Rightarrow> True | Some e \<Rightarrow> e - now < TOKEN_REFRESH_SKEW_MS)"

text \<open>Whether one token expires later than another; a row without an expiry has the oldest.\<close>

definition newer_token :: "token_row \<Rightarrow> token_row \<Rightarrow> bool" where
  "newer_token a b \<longleftrightarrow> (case (tr_expiry a, tr_expiry b) of (Some x, Some y) \<Rightarrow> x > y | (Some x, None) \<Rightarrow> True | (None, _) \<Rightarrow> False)"

definition row_of :: "string \<Rightarrow> token_row list \<Rightarrow> token_row option" where
  "row_of i rows = List.find (\<lambda>r. tr_id r = i) rows"

section \<open>Providers\<close>

text \<open>The token endpoint: no answer, a refusal with its error and description, or tokens.\<close>

datatype token_reply = NoReply | Refused "string option" "string option" | Granted "string option" "string option" "int option"

definition expiryFrom :: "int \<Rightarrow> int option \<Rightarrow> int" where
  "expiryFrom now secs = now + (case secs of Some n \<Rightarrow> if n > 0 then n else 3600 | None \<Rightarrow> 3600) * 1000"

definition google_error :: "string option \<Rightarrow> refresh_error" where
  "google_error o1 = \<lparr>re_code = Some ''authentication_failed'', re_oauth = (if text_given o1 then o1 else None)\<rparr>"

text \<open>\<open>postToken\<close>; only the token and its new grant are read.\<close>

definition postToken :: "token_reply \<Rightarrow> refresh_error + (string option \<times> string option \<times> int option)" where
  "postToken r = (case r of NoReply \<Rightarrow> Inl (google_error None) | Refused e d \<Rightarrow> Inl (google_error e) | Granted a n s \<Rightarrow> Inr (a, n, s))"

text \<open>
  The write of a refresh: only while the grant it started from is the one that is stored (\<open>same\<close>).
  The caller gets the plain token, or the stored row when a reconnect wrote another grant meanwhile.
\<close>

definition save_tokens :: "(token_row \<Rightarrow> bool) \<Rightarrow> (token_row \<Rightarrow> token_row) \<Rightarrow> token_row \<Rightarrow> refresh_error \<Rightarrow> token_row \<Rightarrow> token_row list
    \<Rightarrow> (refresh_error + token_row) \<times> token_row list" where
  "save_tokens same upd returned gone a rows =
     (if list_ex (\<lambda>r. tr_id r = tr_id a \<and> same r) rows
      then (Inr returned, map (\<lambda>r. if tr_id r = tr_id a \<and> same r then upd r else r) rows)
      else (case row_of (tr_id a) rows of None \<Rightarrow> (Inl gone, rows) | Some r \<Rightarrow> (Inr r, rows)))"

text \<open>
  A new grant as it is stored (\<open>storedNewRefreshToken\<close>), and what a row keeps when there is none. Each
  encryption draws an initialisation vector of its own: \<open>seal n\<close> is the n-th of a refresh.
\<close>

definition stored_grant :: "(nat \<Rightarrow> string \<Rightarrow> string) \<Rightarrow> string option \<Rightarrow> string option" where
  "stored_grant seal new = (if text_given new then Some (seal 0 (the new)) else None)"

definition keep_grant :: "string option \<Rightarrow> token_row \<Rightarrow> string option" where
  "keep_grant stored a = (case stored of None \<Rightarrow> tr_refresh a | Some g \<Rightarrow> Some g)"

definition refreshGoogleToken :: "(string \<Rightarrow> string option) \<Rightarrow> (nat \<Rightarrow> string \<Rightarrow> string) \<Rightarrow> gtables \<Rightarrow> token_reply \<Rightarrow> int \<Rightarrow> token_row \<Rightarrow> token_row list
    \<Rightarrow> (refresh_error + token_row) \<times> token_row list" where
  "refreshGoogleToken opn seal apps reply now a rows = (case getGoogleAppById (tr_app a) apps of None \<Rightarrow> (Inl (google_error (Some ''app_unavailable'')), rows)
     | Some app \<Rightarrow>
        if ga_status app = ''disabled'' then (Inl (google_error (Some ''app_unavailable'')), rows)
        else if \<not> text_given (opn (ga_secret app)) then (Inl \<lparr>re_code = Some ''not_configured'', re_oauth = None\<rparr>, rows)
        else if \<not> text_given (Option.bind (tr_refresh a) opn) then (Inl (google_error (Some ''missing_refresh_token'')), rows)
        else (case postToken reply of Inl e \<Rightarrow> (Inl e, rows)
          | Inr (access, new, secs) \<Rightarrow>
              if \<not> text_given access then (Inl (google_error None), rows)
              else let stored = stored_grant seal new in save_tokens (\<lambda>r. tr_refresh r = tr_refresh a \<and> tr_app r = tr_app a)
                (\<lambda>r. r\<lparr>tr_access := Some (seal 1 (the access)), tr_refresh := keep_grant stored r, tr_expiry := Some (expiryFrom now secs)\<rparr>)
                (a\<lparr>tr_access := access, tr_refresh := keep_grant stored a, tr_expiry := Some (expiryFrom now secs)\<rparr>)
                (google_error None) a rows))"

text \<open>The first answer and, when Microsoft takes the client for a public one, the answer without the secret.\<close>

definition public_client_error :: "token_reply \<Rightarrow> bool" where
  "public_client_error r = (case r of Refused e d \<Rightarrow>
     js_includes (js_lower (if text_given d then the d else if text_given e then the e else [])) ''aadsts90023'' | _ \<Rightarrow> False)"

definition microsoft_reply :: "bool \<Rightarrow> token_row \<Rightarrow> token_reply \<Rightarrow> token_reply \<Rightarrow> token_reply \<times> bool" where
  "microsoft_reply secret a first second = (let sendSecret = (secret \<and> \<not> tr_public a) in
     if sendSecret \<and> public_client_error first then (second, case second of Granted _ _ _ \<Rightarrow> True | _ \<Rightarrow> False) else (first, False))"

definition refreshMicrosoftToken :: "(string \<Rightarrow> string option) \<Rightarrow> (nat \<Rightarrow> string \<Rightarrow> string) \<Rightarrow> bool \<Rightarrow> token_reply \<Rightarrow> token_reply \<Rightarrow> int \<Rightarrow> token_row \<Rightarrow> token_row list
    \<Rightarrow> (refresh_error + token_row) \<times> token_row list" where
  "refreshMicrosoftToken opn seal secret first second now a rows =
     (if \<not> text_given (Option.bind (tr_refresh a) opn) then (Inl \<lparr>re_code = None, re_oauth = Some ''missing_refresh_token''\<rparr>, rows)
      else case microsoft_reply secret a first second of (reply, becamePublic) \<Rightarrow> (case reply of
          NoReply \<Rightarrow> (Inl \<lparr>re_code = None, re_oauth = None\<rparr>, rows)
        | Refused e d \<Rightarrow> (Inl \<lparr>re_code = None, re_oauth = e\<rparr>, rows)
        | Granted access new secs \<Rightarrow> let stored = stored_grant seal new in
            save_tokens (\<lambda>r. tr_refresh r = tr_refresh a \<and> tr_public r = tr_public a)
              (\<lambda>r. r\<lparr>tr_access := (if text_given access then Some (seal 1 (the access)) else access), tr_refresh := keep_grant stored r,
                tr_expiry := Some (expiryFrom now secs), tr_public := tr_public a \<or> becamePublic\<rparr>)
              (a\<lparr>tr_access := access, tr_refresh := keep_grant stored a, tr_expiry := Some (expiryFrom now secs), tr_public := tr_public a \<or> becamePublic\<rparr>)
              \<lparr>re_code = Some ''account_not_found'', re_oauth = None\<rparr> a rows))"

section \<open>The token manager\<close>

definition markReconnectRequired :: "string \<Rightarrow> string option \<Rightarrow> token_row list \<Rightarrow> bool \<times> token_row list" where
  "markReconnectRequired i rejected rows = (let hit = (\<lambda>r. tr_id r = i \<and> tr_refresh r = rejected) in
     (list_ex hit rows, map (\<lambda>r. if hit r then r\<lparr>tr_reconnect := True\<rparr> else r) rows))"

text \<open>What a provider module did, by the provider of the row.\<close>

record providers =
  pv_google :: "token_row \<Rightarrow> token_row list \<Rightarrow> (refresh_error + token_row) \<times> token_row list"
  pv_microsoft :: "token_row \<Rightarrow> token_row list \<Rightarrow> (refresh_error + token_row) \<times> token_row list"

definition refreshOAuthToken :: "providers \<Rightarrow> token_row \<Rightarrow> token_row list \<Rightarrow> (token_error + token_row) \<times> token_row list" where
  "refreshOAuthToken pv a rows =
     (if tr_provider a \<noteq> Some ''microsoft'' \<and> tr_provider a \<noteq> Some ''google'' then (Inl UnsupportedProvider, rows)
      else case (if tr_provider a = Some ''microsoft'' then pv_microsoft pv else pv_google pv) a rows of
        (Inr r, rows1) \<Rightarrow> (Inr r, rows1)
      | (Inl e, rows1) \<Rightarrow>
          if (case re_oauth e of None \<Rightarrow> False | Some o1 \<Rightarrow> o1 \<in> set RECONNECT_OAUTH_ERRORS)
          then (case markReconnectRequired (tr_id a) (tr_refresh a) rows1 of (marked, rows2) \<Rightarrow>
            (Inl (if marked then ReconnectRequired else RefreshFailed), rows2))
          else (Inl RefreshFailed, rows1))"

text \<open>What a holder of the lock does with the row it reads: an error, the row as it is, or a refresh of it.\<close>

datatype decision = Fail token_error | Take token_row | Refresh token_row

definition decide_under_lock :: "bool \<Rightarrow> int \<Rightarrow> token_row \<Rightarrow> token_row list \<Rightarrow> decision" where
  "decide_under_lock force now a rows = (case row_of (tr_id a) rows of None \<Rightarrow> Fail AccountNotFound
     | Some r \<Rightarrow> if tr_reconnect r then Fail ReconnectRequired
         else if \<not> needsTokenRefresh now r \<and> (\<not> force \<or> newer_token r a) then Take r else Refresh r)"

definition refreshUnderLock :: "bool \<Rightarrow> bool \<Rightarrow> int \<Rightarrow> providers \<Rightarrow> token_row \<Rightarrow> token_row list \<Rightarrow> (token_error + token_row) \<times> token_row list" where
  "refreshUnderLock acquired force now pv a rows =
     (if \<not> acquired then (Inl RefreshFailed, rows)
      else case decide_under_lock force now a rows of Fail e \<Rightarrow> (Inl e, rows) | Take r \<Rightarrow> (Inr r, rows) | Refresh r \<Rightarrow> refreshOAuthToken pv r rows)"

section \<open>The lock\<close>

text \<open>The key of an account in Redis: the token of its holder and when it expires. Times are milliseconds.\<close>

type_synonym refresh_lock = "(string \<times> int) option"

definition lock_live :: "int \<Rightarrow> refresh_lock \<Rightarrow> bool" where
  "lock_live now l \<longleftrightarrow> (case l of None \<Rightarrow> False | Some (t, till) \<Rightarrow> now < till)"

text \<open>\<open>SET key token NX EX\<close>, tried until the deadline: the moments of the tries are given.\<close>

fun acquireLock :: "string \<Rightarrow> int \<Rightarrow> (int \<times> refresh_lock) list \<Rightarrow> refresh_lock option" where
  "acquireLock token deadline [] = None"
| "acquireLock token deadline ((now, l) # tries) = (if \<not> lock_live now l then Some (Some (token, now + LOCK_TTL_SECONDS * 1000))
     else if now \<ge> deadline then None else acquireLock token deadline tries)"

definition try_lock :: "string \<Rightarrow> int \<Rightarrow> refresh_lock \<Rightarrow> bool \<times> refresh_lock" where
  "try_lock token now l = (if lock_live now l then (False, l) else (True, Some (token, now + LOCK_TTL_SECONDS * 1000)))"

definition releaseLock :: "string \<Rightarrow> refresh_lock \<Rightarrow> refresh_lock" where
  "releaseLock token l = (case l of None \<Rightarrow> None | Some (t, till) \<Rightarrow> if t = token then None else l)"

section \<open>Callers of one process\<close>

text \<open>Whether a refresh of each account is under way, and whether it is forced.\<close>

datatype entry = Unchanged token_row | Share | ShareIfNewer | Start

definition ensureFreshOAuthAccount :: "(string \<rightharpoonup> bool) \<Rightarrow> bool \<Rightarrow> int \<Rightarrow> token_row \<Rightarrow> entry" where
  "ensureFreshOAuthAccount inFlight force now a =
     (if \<not> isOAuthAccount a then Unchanged a
      else if \<not> force \<and> \<not> needsTokenRefresh now a then Unchanged a
      else case inFlight (tr_id a) of Some f \<Rightarrow> if \<not> force \<or> f then Share else ShareIfNewer | None \<Rightarrow> Start)"

text \<open>A forced caller behind an unforced refresh takes its row when that is newer than the rejected token.\<close>

definition after_shared :: "token_row \<Rightarrow> token_row \<Rightarrow> token_row option" where
  "after_shared a r = (if newer_token r a then Some r else None)"

end
