(* ===== verification/GoogleSeats.thy ===== *)
theory GoogleSeats
  imports GoogleApps
begin

text \<open>
  The properties of Google apps: one app per Google project, and no app is chosen for more accounts
  than its limit, whatever consents are under way at once.
\<close>

section \<open>One app per project\<close>

definition one_per_project :: "gtables \<Rightarrow> bool" where
  "one_per_project t \<longleftrightarrow> distinct (map ga_project (gt_apps t)) \<and> distinct (map ga_client (gt_apps t))
     \<and> map parseGoogleClientId (map ga_client (gt_apps t)) = map Some (map ga_project (gt_apps t))"

datatype registry_step = Create string string string string int | Update string "string option" "string option" "int option"
  | Status string string | DeleteApp string | Import string | Journal string string "string option"

fun registry :: "(string \<Rightarrow> string) \<Rightarrow> registry_step \<Rightarrow> legacy \<times> gtables \<Rightarrow> legacy \<times> gtables" where
  "registry seal (Create new label client secret limit) (l, t) = (l, snd (createGoogleApp seal new label client secret limit t))"
| "registry seal (Update i label secret limit) (l, t) = (l, snd (updateGoogleApp seal i label secret limit t))"
| "registry seal (Status i s) (l, t) = (l, snd (setGoogleAppStatus i s t))"
| "registry seal (DeleteApp i) (l, t) = (l, snd (deleteGoogleApp i t))"
| "registry seal (Import new) (l, t) = snd (importLegacyGoogleConfig seal new l t)"
| "registry seal (Journal p e sub) (l, t) = (l, recordGoogleGrant p e sub t)"

text \<open>A trimmed client id is trimmed again to itself.\<close>

lemma trim_trim [simp]: "js_trim (js_trim s) = js_trim s"
proof (cases "js_trim s = []")
  case False
  then have e: "\<not> js_space (hd (js_trim s))" "\<not> js_space (last (js_trim s))" using js_trim_ends [of s] by auto
  then have "dropWhile js_space (js_trim s) = js_trim s" "dropWhile js_space (rev (js_trim s)) = rev (js_trim s)"
    using False by (simp_all add: dropWhile_eq_self_iff hd_rev)
  then show ?thesis by (simp add: js_trim_def [of "js_trim s"])
qed simp

lemma parse_trim [simp]: "parseGoogleClientId (js_trim c) = parseGoogleClientId c"
  by (simp add: parseGoogleClientId_def)

lemma record_apps [simp]: "gt_apps (recordGoogleGrant p e sub t) = gt_apps t"
  by (simp add: recordGoogleGrant_def)

lemma create_one:
  assumes "one_per_project t"
  shows "one_per_project (snd (createGoogleApp seal new label client secret limit t))"
proof (cases "snd (createGoogleApp seal new label client secret limit t) = t")
  case False
  then obtain a where "gt_apps (snd (createGoogleApp seal new label client secret limit t)) = gt_apps t @ [a]"
    "parseGoogleClientId (ga_client a) = Some (ga_project a)" "\<forall>b\<in>set (gt_apps t). ga_project b \<noteq> ga_project a \<and> ga_client b \<noteq> ga_client a"
    by (auto simp: createGoogleApp_def list_ex_iff Let_def split: sum.splits option.splits if_splits)
  then show ?thesis using assms by (auto simp: one_per_project_def)
qed (use assms in simp)

text \<open>A step that changes neither clients nor projects.\<close>

lemma one_same:
  assumes "one_per_project t" and "map ga_project (gt_apps t1) = map ga_project (gt_apps t)" and "map ga_client (gt_apps t1) = map ga_client (gt_apps t)"
  shows "one_per_project t1"
  using assms by (simp only: one_per_project_def)

lemma update_app_one: "one_per_project t \<Longrightarrow> one_per_project (snd (updateGoogleApp seal i label secret limit t))"
  by (erule one_same) (auto simp: updateGoogleApp_def Let_def comp_def split: sum.split option.split)

lemma status_one: "one_per_project t \<Longrightarrow> one_per_project (snd (setGoogleAppStatus i s t))"
  by (erule one_same) (auto simp: setGoogleAppStatus_def Let_def comp_def)

lemma filtered_maps: "map f xs = map g xs \<Longrightarrow> map f (filter p xs) = map g (filter p xs)"
  by (induction xs) auto

lemma delete_one: "one_per_project t \<Longrightarrow> one_per_project (snd (deleteGoogleApp i t))"
  using filtered_maps [of "parseGoogleClientId \<circ> ga_client" "gt_apps t" "Some \<circ> ga_project" "\<lambda>a. ga_id a \<noteq> i"]
  by (auto simp: deleteGoogleApp_def one_per_project_def distinct_map_filter)

lemma import_one: "one_per_project t \<Longrightarrow> one_per_project (snd (snd (importLegacyGoogleConfig seal new l t)))"
proof -
  assume t: "one_per_project t"
  have f: "gt_apps (fold (\<lambda>m t. if gm_app m = Some new \<and> \<not> is_granted p (gm_email m) t then recordGoogleGrant p (gm_email m) None t else t) ms u) = gt_apps u" for p ms u
    by (induction ms arbitrary: u) simp_all
  show ?thesis using t by (auto simp: importLegacyGoogleConfig_def one_per_project_def f Let_def split: option.split prod.split)
qed

text \<open>Whatever administrators do and however often the older settings are imported, no two apps belong to one
  Google project or have one client, and the project of an app is the one its client names.\<close>
theorem apps_share_no_project:
  assumes "one_per_project t" and "(l', t') = fold (registry seal) steps (l, t)" and "a \<in> set (gt_apps t')" and "b \<in> set (gt_apps t')"
    and "ga_project a = ga_project b \<or> ga_client a = ga_client b"
  shows "a = b \<and> parseGoogleClientId (ga_client a) = Some (ga_project a)"
proof -
  have step: "one_per_project (snd (registry seal x s))" if "one_per_project (snd s)" for x s
    using that create_one update_app_one status_one delete_one import_one
    by (cases s; cases x) (auto intro: one_same)
  have "one_per_project (snd (fold (registry seal) steps s))" if "one_per_project (snd s)" for s
    using that by (induction steps arbitrary: s) (simp_all add: step)
  from this [of "(l, t)"] have "one_per_project t'" using assms(1,2) by (metis snd_conv)
  then show ?thesis using assms(3-5) by (auto simp: one_per_project_def distinct_map inj_on_def dest: map_eq_conv [THEN iffD1])
qed

definition no_tables :: gtables where
  "no_tables = \<lparr>gt_apps = [], gt_grants = [], gt_mailboxes = [], gt_reserved = (\<lambda>_. [])\<rparr>"

definition ex_client :: string where
  "ex_client = ''12-ab.apps.googleusercontent.com''"

definition ex_steps :: "registry_step list" where
  "ex_steps = [Create ''a'' ''One'' ex_client ''s'' 2, Create ''b'' ''Two'' ''12-c.apps.googleusercontent.com'' ''s'' 2, Status ''a'' ''closed'']"

theorem apps_share_no_project_witness:
  "\<exists>a. gt_apps (snd (fold (registry id) ex_steps (\<lparr>lg_done = False, lg_stored = None\<rparr>, no_tables))) = [a] \<and> ga_status a = ''closed''
    \<and> parseGoogleClientId (ga_client a) = Some (ga_project a)"
proof -
  let ?r = "fold (registry id) ex_steps (\<lparr>lg_done = False, lg_stored = None\<rparr>, no_tables)"
  let ?a = "\<lparr>ga_id = ''a'', ga_label = ''One'', ga_client = ex_client, ga_secret = ''s'', ga_project = ''12'', ga_limit = 2, ga_status = ''closed''\<rparr>"
  have r: "gt_apps (snd ?r) = [?a]" by code_simp
  have s: "(fst ?r, snd ?r) = ?r" by simp
  have o: "one_per_project no_tables" by (simp add: one_per_project_def no_tables_def)
  from apps_share_no_project [OF o s, of ?a ?a] have "parseGoogleClientId (ga_client ?a) = Some (ga_project ?a)" by (simp add: r)
  then show ?thesis using r by (intro exI [of _ ?a]) simp
qed

section \<open>Seats\<close>

definition live_digests :: "string \<Rightarrow> int \<Rightarrow> gtables \<Rightarrow> string set" where
  "live_digests i now t = set (map (memberDigest \<circ> fst) (filter (\<lambda>m. snd m > now) (gt_reserved t i)))"

definition granted_emails :: "string \<Rightarrow> gtables \<Rightarrow> string set" where
  "granted_emails p t = gr_email ` {g \<in> set (gt_grants t). gr_project g = p}"

definition taken :: "(string \<Rightarrow> string) \<Rightarrow> int \<Rightarrow> gapp \<Rightarrow> gtables \<Rightarrow> string set" where
  "taken hash now a t = hash ` granted_emails (ga_project a) t \<union> live_digests (ga_id a) now t"

definition hash_ok :: "(string \<Rightarrow> string) \<Rightarrow> bool" where
  "hash_ok hash \<longleftrightarrow> inj hash \<and> (\<forall>s. CHR '':'' \<notin> set (hash s))"

text \<open>Consents under way: the tables, the time, and the accounts of a project that took a seat without one.\<close>

record gsystem =
  gs_now :: int
  gs_tables :: gtables
  gs_strays :: "string \<Rightarrow> nat"

text \<open>An account that Google gives tokens to has its seat when it was counted before or its consent still holds one.\<close>

definition has_seat :: "(string \<Rightarrow> string) \<Rightarrow> int \<Rightarrow> string \<Rightarrow> string \<Rightarrow> gtables \<Rightarrow> bool" where
  "has_seat hash now p email t \<longleftrightarrow> js_lower email \<in> granted_emails p t
     \<or> (\<exists>a\<in>set (gt_apps t). ga_project a = p \<and> hash (js_lower email) \<in> live_digests (ga_id a) now t)"

inductive consents :: "(string \<Rightarrow> string) \<Rightarrow> gsystem \<Rightarrow> bool" for hash where
  start: "distinct (map ga_id (gt_apps t)) \<Longrightarrow> distinct (map ga_project (gt_apps t)) \<Longrightarrow> distinct (map (\<lambda>g. (gr_project g, gr_email g)) (gt_grants t))
    \<Longrightarrow> \<forall>a\<in>set (gt_apps t). grants_of (ga_project a) t \<le> ga_limit a \<Longrightarrow> gt_reserved t = (\<lambda>_. [])
    \<Longrightarrow> consents hash \<lparr>gs_now = now, gs_tables = t, gs_strays = (\<lambda>_. 0)\<rparr>"
| select: "consents hash s \<Longrightarrow> selectGoogleApp hash rid (gs_now s) email own (gs_tables s) = (r, t) \<Longrightarrow> consents hash (s\<lparr>gs_tables := t\<rparr>)"
| journal: "consents hash s \<Longrightarrow> consents hash (s\<lparr>gs_tables := recordGoogleGrant p email sub (gs_tables s),
    gs_strays := (if has_seat hash (gs_now s) p email (gs_tables s) then gs_strays s else (gs_strays s)(p := gs_strays s p + 1))\<rparr>)"
| release: "consents hash s \<Longrightarrow> consents hash (s\<lparr>gs_tables := releaseGoogleSeat hash up i email rid (gs_tables s)\<rparr>)"
| status: "consents hash s \<Longrightarrow> consents hash (s\<lparr>gs_tables := snd (setGoogleAppStatus i st (gs_tables s))\<rparr>)"
| capacity: "consents hash s \<Longrightarrow> consents hash (s\<lparr>gs_tables := snd (googleHasCapacity (gs_now s) (gs_tables s))\<rparr>)"
| passes: "consents hash s \<Longrightarrow> gs_now s \<le> now \<Longrightarrow> consents hash (s\<lparr>gs_now := now\<rparr>)"

text \<open>Looking at reservations drops only those that are over.\<close>

definition seats_same :: "int \<Rightarrow> gtables \<Rightarrow> gtables \<Rightarrow> bool" where
  "seats_same now t t1 \<longleftrightarrow> gt_apps t1 = gt_apps t \<and> gt_grants t1 = gt_grants t \<and> (\<forall>i. live_digests i now t1 = live_digests i now t)"

lemma seats_same_trans: "seats_same now t t1 \<Longrightarrow> seats_same now t1 t2 \<Longrightarrow> seats_same now t t2"
  by (simp add: seats_same_def)

lemma seats_same_refl: "seats_same now t t"
  by (simp add: seats_same_def)

lemma reserved_same: "reservedDigests i now t = (ds, t1) \<Longrightarrow> seats_same now t t1 \<and> set ds = live_digests i now t \<and> distinct ds"
proof -
  assume r: "reservedDigests i now t = (ds, t1)"
  have d: "live_digests k now (drop_expired i now t) = live_digests k now t" for k by (simp add: live_digests_def drop_expired_def)
  have f: "filter (\<lambda>m. now < snd m) (gt_reserved (drop_expired i now t) i) = gt_reserved (drop_expired i now t) i" by (simp add: drop_expired_def)
  have ds: "ds = js_set (map (memberDigest \<circ> fst) (gt_reserved (drop_expired i now t) i))" "t1 = drop_expired i now t"
    using r by (auto simp: reservedDigests_def Let_def)
  have "set ds = live_digests i now (drop_expired i now t)" unfolding live_digests_def f ds(1) by (simp only: set_js_set)
  moreover have "t1 = drop_expired i now t" "distinct ds" using ds by simp_all
  ultimately show ?thesis using d by (simp add: seats_same_def) (simp add: drop_expired_def)
qed

lemma free_same: "hasFreeSeat now a t = (yes, t1) \<Longrightarrow> seats_same now t t1
    \<and> (yes \<longrightarrow> grants_of (ga_project a) t + card (live_digests (ga_id a) now t) < ga_limit a)"
proof -
  assume h: "hasFreeSeat now a t = (yes, t1)"
  obtain ds u where d: "reservedDigests (ga_id a) now t = (ds, u)" by fastforce
  from reserved_same [OF d] have "card (live_digests (ga_id a) now t) = length ds" "seats_same now t u" using distinct_card by metis+
  then show ?thesis using h by (auto simp: hasFreeSeat_def countGoogleReservations_def d)
qed

lemma live_same: "hasLiveReservation hash email now a t = (yes, t1) \<Longrightarrow> seats_same now t t1
    \<and> (yes \<longleftrightarrow> googleEmailDigest hash email \<in> live_digests (ga_id a) now t)"
  using reserved_same [of "ga_id a" now t] by (auto simp: hasLiveReservation_def split: prod.splits)

lemma first_app_same:
  assumes "\<And>a t yes t1. p a t = (yes, t1) \<Longrightarrow> seats_same now t t1" and "first_app p as t = (r, t1)"
  shows "seats_same now t t1 \<and> (\<forall>a. r = Some a \<longrightarrow> a \<in> set as \<and> (\<exists>u. p a u = (True, t1) \<and> seats_same now t u))"
  using assms(2)
proof (induction as arbitrary: t)
  case (Cons a as)
  obtain yes u where p: "p a t = (yes, u)" by fastforce
  have s: "seats_same now t u" by (rule assms(1) [OF p])
  show ?case
  proof (cases yes)
    case True
    then have "r = Some a" "t1 = u" using Cons.prems p by simp_all
    then show ?thesis using p s True seats_same_refl by auto
  next
    case False
    then have "first_app p as u = (r, t1)" using Cons.prems p by simp
    note ih = Cons.IH [OF this]
    show ?thesis
    proof (intro conjI allI impI)
      show "seats_same now t t1" using ih s seats_same_trans by blast
      fix b
      assume "r = Some b"
      with ih obtain v where "b \<in> set as" "p b v = (True, t1)" "seats_same now u v" by blast
      then show "b \<in> set (a # as)" "\<exists>v. p b v = (True, t1) \<and> seats_same now t v" using seats_same_trans [OF s] by auto
    qed
  qed
qed (simp add: seats_same_refl)

section \<open>The limit\<close>

lemma member_digest: "hash_ok hash \<Longrightarrow> memberDigest (reservationMember hash email rid) = googleEmailDigest hash email"
proof -
  assume "hash_ok hash"
  then have "CHR '':'' \<notin> set (googleEmailDigest hash email)" by (simp add: hash_ok_def googleEmailDigest_def)
  then show ?thesis using split_on_join [of "CHR '':''" "googleEmailDigest hash email"] split_on_last [of "CHR '':''" "googleEmailDigest hash email"]
    by (auto simp: memberDigest_def reservationMember_def split: option.split)
qed

lemma live_digest_iff: "d \<in> live_digests k now t \<longleftrightarrow> (\<exists>x\<in>set (gt_reserved t k). now < snd x \<and> memberDigest (fst x) = d)"
  by (auto simp: live_digests_def)

lemma live_reserved:
  assumes "hash_ok hash"
  shows "live_digests k now (reserveSeat hash i email rid now t) = live_digests k now t \<union> (if k = i then {googleEmailDigest hash email} else {})"
proof -
  let ?m = "reservationMember hash email (Some rid)"
  have m: "memberDigest ?m = googleEmailDigest hash email" by (rule member_digest [OF assms])
  have "d \<in> live_digests k now (reserveSeat hash i email rid now t) \<longleftrightarrow> d \<in> live_digests k now t \<or> k = i \<and> d = googleEmailDigest hash email" for d
  proof (cases "k = i")
    case True
    have "d \<in> live_digests i now (reserveSeat hash i email rid now t)
        \<longleftrightarrow> (\<exists>x\<in>set (gt_reserved t i). fst x \<noteq> ?m \<and> now < snd x \<and> memberDigest (fst x) = d) \<or> d = memberDigest ?m"
    proof -
      have r: "set (gt_reserved (reserveSeat hash i email rid now t) i) = {x \<in> set (gt_reserved t i). fst x \<noteq> ?m} \<union> {(?m, now + 600000)}"
        by (auto simp: reserveSeat_def Let_def OAUTH_STATE_TTL_SECONDS_def)
      show ?thesis unfolding live_digest_iff r by (simp only: bex_Un) (simp add: Bex_def conj_ac eq_commute)
    qed
    also have "\<dots> \<longleftrightarrow> d \<in> live_digests i now t \<or> d = memberDigest ?m" unfolding live_digest_iff by metis
    finally show ?thesis using True m by simp
  qed (simp add: live_digest_iff reserveSeat_def Let_def)
  then show ?thesis by auto
qed

text \<open>The limit as the system keeps it.\<close>

definition seats_inv :: "(string \<Rightarrow> string) \<Rightarrow> gsystem \<Rightarrow> bool" where
  "seats_inv hash s \<longleftrightarrow> distinct (map ga_id (gt_apps (gs_tables s))) \<and> distinct (map ga_project (gt_apps (gs_tables s)))
     \<and> distinct (map (\<lambda>g. (gr_project g, gr_email g)) (gt_grants (gs_tables s)))
     \<and> (\<forall>a\<in>set (gt_apps (gs_tables s)). card (taken hash (gs_now s) a (gs_tables s)) \<le> ga_limit a + gs_strays s (ga_project a))"

lemma finite_taken [simp]: "finite (taken hash now a t)"
  by (simp add: taken_def live_digests_def granted_emails_def)

lemma granted_count: "distinct (map (\<lambda>g. (gr_project g, gr_email g)) (gt_grants t)) \<Longrightarrow> card (granted_emails p t) = grants_of p t"
proof -
  assume d: "distinct (map (\<lambda>g. (gr_project g, gr_email g)) (gt_grants t))"
  have "granted_emails p t = set (map gr_email (filter (\<lambda>g. gr_project g = p) (gt_grants t)))" by (auto simp: granted_emails_def)
  moreover have "distinct (map gr_email (filter (\<lambda>g. gr_project g = p) (gt_grants t)))"
    using d by (induction "gt_grants t" arbitrary: t rule: list.induct) (auto simp: distinct_map inj_on_def)
  ultimately show ?thesis using distinct_card by (fastforce simp: grants_of_def)
qed

text \<open>What selection does to the tables: nothing that counts, or one reservation in an app that has a seat for it.\<close>

lemma select_seats:
  assumes "selectGoogleApp hash rid now email own t = (r, t')"
  shows "seats_same now t t' \<or> (\<exists>a u. a \<in> set (gt_apps t) \<and> seats_same now t u \<and> t' = reserveSeat hash (ga_id a) email rid now u
    \<and> (googleEmailDigest hash email \<in> live_digests (ga_id a) now t \<or> grants_of (ga_project a) t + card (live_digests (ga_id a) now t) < ga_limit a))"
proof -
  define active where "active = filter (\<lambda>a. ga_status a = ''active'') (filter (\<lambda>a. ga_status a \<noteq> ''disabled'') (gt_apps t))"
  obtain x t1 where f1: "first_app (hasLiveReservation hash email now) active t = (x, t1)" by fastforce
  obtain y t2 where f2: "first_app (hasFreeSeat now) active t1 = (y, t2)" by fastforce
  have s1: "seats_same now t t1 \<and> (\<forall>a. x = Some a \<longrightarrow> a \<in> set active \<and> (\<exists>u. hasLiveReservation hash email now a u = (True, t1) \<and> seats_same now t u))"
    by (rule first_app_same [OF _ f1]) (blast dest: live_same)
  have s2: "seats_same now t1 t2 \<and> (\<forall>a. y = Some a \<longrightarrow> a \<in> set active \<and> (\<exists>u. hasFreeSeat now a u = (True, t2) \<and> seats_same now t1 u))"
    by (rule first_app_same [OF _ f2]) (blast dest: free_same)
  have active: "set active \<subseteq> set (gt_apps t)" by (auto simp: active_def)
  have t': "t' = t \<or> (\<exists>a. x = Some a \<and> t' = reserveSeat hash (ga_id a) email rid now t1) \<or> (x = None \<and> (\<exists>a. y = Some a \<and> t' = reserveSeat hash (ga_id a) email rid now t2)) \<or> t' = t2"
    using assms f2 by (auto simp: selectGoogleApp_def Let_def active_def [symmetric] f1 simp del: filter_filter split: if_splits option.splits)
  have "googleEmailDigest hash email \<in> live_digests (ga_id a) now t" if "x = Some a" for a
  proof -
    obtain u where "hasLiveReservation hash email now a u = (True, t1)" "seats_same now t u" using s1 \<open>x = Some a\<close> by blast
    then show ?thesis using live_same [of hash email now a u True t1] by (simp add: seats_same_def)
  qed
  moreover have "grants_of (ga_project a) t + card (live_digests (ga_id a) now t) < ga_limit a" if y: "y = Some a" for a
  proof -
    obtain u where "hasFreeSeat now a u = (True, t2)" "seats_same now t1 u" using s2 y by blast
    then show ?thesis using free_same [of now a u True t2] s1 by (auto simp: seats_same_def grants_of_def)
  qed
  ultimately have d: "x = Some a \<or> y = Some a \<Longrightarrow> a \<in> set (gt_apps t) \<and> (googleEmailDigest hash email \<in> live_digests (ga_id a) now t
      \<or> grants_of (ga_project a) t + card (live_digests (ga_id a) now t) < ga_limit a)" for a using s1 s2 active by blast
  have same: "seats_same now t t1" "seats_same now t t2" using s1 s2 seats_same_trans by blast+
  from t' show ?thesis
  proof (elim disjE exE conjE)
    fix a assume "x = Some a" "t' = reserveSeat hash (ga_id a) email rid now t1"
    then show ?thesis using d [of a] same(1) by blast
  next
    fix a assume "y = Some a" "t' = reserveSeat hash (ga_id a) email rid now t2"
    then show ?thesis using d [of a] same(2) by blast
  qed (simp_all add: same seats_same_refl)
qed

lemma taken_same: "seats_same now t t1 \<Longrightarrow> taken hash now a t1 = taken hash now a t"
  by (simp add: taken_def seats_same_def granted_emails_def)

lemma inv_same: "seats_inv hash s \<Longrightarrow> seats_same (gs_now s) (gs_tables s) t1 \<Longrightarrow> seats_inv hash (s\<lparr>gs_tables := t1\<rparr>)"
  using taken_same [of "gs_now s" "gs_tables s" t1 hash] by (simp add: seats_inv_def seats_same_def)

lemma inv_select:
  assumes "seats_inv hash s" and "hash_ok hash" and "selectGoogleApp hash rid (gs_now s) email own (gs_tables s) = (r, t)"
  shows "seats_inv hash (s\<lparr>gs_tables := t\<rparr>)"
proof (cases "seats_same (gs_now s) (gs_tables s) t")
  case False
  with select_seats [OF assms(3)] obtain a u where a: "a \<in> set (gt_apps (gs_tables s))" and u: "seats_same (gs_now s) (gs_tables s) u"
    and t: "t = reserveSeat hash (ga_id a) email rid (gs_now s) u"
    and free: "googleEmailDigest hash email \<in> live_digests (ga_id a) (gs_now s) (gs_tables s)
      \<or> grants_of (ga_project a) (gs_tables s) + card (live_digests (ga_id a) (gs_now s) (gs_tables s)) < ga_limit a" by blast
  let ?T = "gs_tables s" and ?now = "gs_now s" and ?d = "googleEmailDigest hash email"
  have same: "gt_apps t = gt_apps ?T" "gt_grants t = gt_grants ?T" using u by (simp_all add: t reserveSeat_def Let_def seats_same_def)
  have ids: "b = a" if "b \<in> set (gt_apps ?T)" "ga_id b = ga_id a" for b
    using assms(1) a that by (auto simp: seats_inv_def distinct_map inj_on_def)
  have tk: "taken hash ?now b t = taken hash ?now b ?T \<union> (if ga_id b = ga_id a then {?d} else {})" for b
  proof -
    have g: "granted_emails p t = granted_emails p ?T" for p by (simp add: granted_emails_def same)
    show ?thesis unfolding taken_def g unfolding t live_reserved [OF assms(2)] using u by (auto simp: seats_same_def)
  qed
  have "card (taken hash ?now a ?T \<union> {?d}) \<le> ga_limit a + gs_strays s (ga_project a)"
  proof (cases "?d \<in> live_digests (ga_id a) ?now ?T")
    case True
    then have "taken hash ?now a ?T \<union> {?d} = taken hash ?now a ?T" by (auto simp: taken_def)
    then show ?thesis using assms(1) a by (simp add: seats_inv_def)
  next
    case False
    have "card (taken hash ?now a ?T \<union> {?d}) \<le> card (granted_emails (ga_project a) ?T) + card (live_digests (ga_id a) ?now ?T) + 1"
    proof -
      have "card (hash ` granted_emails (ga_project a) ?T) \<le> card (granted_emails (ga_project a) ?T)"
        by (rule card_image_le) (simp add: granted_emails_def)
      then show ?thesis unfolding taken_def using card_Un_le [of "hash ` granted_emails (ga_project a) ?T" "live_digests (ga_id a) ?now ?T"]
          card_Un_le [of "hash ` granted_emails (ga_project a) ?T \<union> live_digests (ga_id a) ?now ?T" "{?d}"] by simp
    qed
    then show ?thesis using False free granted_count [of ?T "ga_project a"] assms(1) by (simp add: seats_inv_def)
  qed
  then show ?thesis using assms(1) ids by (auto simp: seats_inv_def same tk)
qed (rule inv_same [OF assms(1)])

lemma seats_inv_shrinks:
  assumes "seats_inv hash s" and "gt_grants t = gt_grants (gs_tables s)" and "\<And>i. live_digests i now t \<subseteq> live_digests i (gs_now s) (gs_tables s)"
    and "map (\<lambda>a. (ga_id a, ga_project a, ga_limit a)) (gt_apps t) = map (\<lambda>a. (ga_id a, ga_project a, ga_limit a)) (gt_apps (gs_tables s))"
  shows "seats_inv hash (s\<lparr>gs_tables := t, gs_now := now\<rparr>)"
proof -
  have m: "map ga_id (gt_apps t) = map ga_id (gt_apps (gs_tables s))" "map ga_project (gt_apps t) = map ga_project (gt_apps (gs_tables s))"
    using arg_cong [OF assms(4), of "map fst"] arg_cong [OF assms(4), of "map (fst \<circ> snd)"] by (simp_all add: comp_def)
  have "card (taken hash now a t) \<le> ga_limit a + gs_strays s (ga_project a)" if a: "a \<in> set (gt_apps t)" for a
  proof -
    have "(ga_id a, ga_project a, ga_limit a) \<in> set (map (\<lambda>a. (ga_id a, ga_project a, ga_limit a)) (gt_apps t))" using a by simp
    then obtain b where b: "b \<in> set (gt_apps (gs_tables s))" "ga_id b = ga_id a" "ga_project b = ga_project a" "ga_limit b = ga_limit a"
      unfolding assms(4) by auto
    have "taken hash now a t \<subseteq> taken hash (gs_now s) b (gs_tables s)" using assms(2,3) b by (auto simp: taken_def granted_emails_def)
    then have c: "card (taken hash now a t) \<le> card (taken hash (gs_now s) b (gs_tables s))" by (rule card_mono [rotated]) simp
    have "card (taken hash (gs_now s) b (gs_tables s)) \<le> ga_limit b + gs_strays s (ga_project b)" using assms(1) b(1) by (simp add: seats_inv_def)
    then show ?thesis using c b by simp
  qed
  then show ?thesis using assms(1,2) m by (simp add: seats_inv_def)
qed

lemma record_grants:
  "granted_emails q (recordGoogleGrant p e sub t) = granted_emails q t \<union> (if q = p then {js_lower e} else {})"
  "distinct (map (\<lambda>g. (gr_project g, gr_email g)) (gt_grants t)) \<Longrightarrow> distinct (map (\<lambda>g. (gr_project g, gr_email g)) (gt_grants (recordGoogleGrant p e sub t)))"
  "live_digests i now (recordGoogleGrant p e sub t) = live_digests i now t"
proof -
  let ?f = "\<lambda>g. if gr_project g = p \<and> gr_email g = js_lower e then g\<lparr>gr_sub := (case gr_sub g of None \<Rightarrow> sub | Some s \<Rightarrow> Some s)\<rparr> else g"
  have keys: "(\<lambda>g. (gr_project g, gr_email g)) \<circ> ?f = (\<lambda>g. (gr_project g, gr_email g))" by (auto simp: fun_eq_iff)
  have k: "map (\<lambda>g. (gr_project g, gr_email g)) (gt_grants (recordGoogleGrant p e sub t))
      = map (\<lambda>g. (gr_project g, gr_email g)) (gt_grants t) @ (if is_granted p e t then [] else [(p, js_lower e)])"
    by (simp add: recordGoogleGrant_def keys)
  have iff: "is_granted p e t \<longleftrightarrow> (p, js_lower e) \<in> set (map (\<lambda>g. (gr_project g, gr_email g)) (gt_grants t))"
    by (auto simp: is_granted_def list_ex_iff)
  show "distinct (map (\<lambda>g. (gr_project g, gr_email g)) (gt_grants (recordGoogleGrant p e sub t)))" if "distinct (map (\<lambda>g. (gr_project g, gr_email g)) (gt_grants t))"
    unfolding k using that iff by auto
  have ge: "granted_emails q u = {x. (q, x) \<in> set (map (\<lambda>g. (gr_project g, gr_email g)) (gt_grants u))}" for u
    by (auto simp: granted_emails_def)
  show "granted_emails q (recordGoogleGrant p e sub t) = granted_emails q t \<union> (if q = p then {js_lower e} else {})"
    unfolding ge k using iff by auto
qed (simp add: recordGoogleGrant_def live_digests_def)

lemma inv_journal:
  assumes "seats_inv hash s" and "hash_ok hash"
  shows "seats_inv hash (s\<lparr>gs_tables := recordGoogleGrant p e sub (gs_tables s),
    gs_strays := (if has_seat hash (gs_now s) p e (gs_tables s) then gs_strays s else (gs_strays s)(p := gs_strays s p + 1))\<rparr>)"
proof -
  let ?T = "gs_tables s" and ?t = "recordGoogleGrant p e sub (gs_tables s)" and ?now = "gs_now s"
  let ?strays = "if has_seat hash ?now p e ?T then gs_strays s else (gs_strays s)(p := gs_strays s p + 1)"
  have tk: "taken hash ?now a ?t = taken hash ?now a ?T \<union> (if ga_project a = p then {hash (js_lower e)} else {})" for a
    by (auto simp: taken_def record_grants)
  have "card (taken hash ?now a ?t) \<le> ga_limit a + ?strays (ga_project a)" if a: "a \<in> set (gt_apps ?T)" for a
  proof (cases "ga_project a = p")
    case True
    have c: "card (taken hash ?now a ?T) \<le> ga_limit a + gs_strays s p" using assms(1) a True by (auto simp: seats_inv_def)
    show ?thesis
    proof (cases "has_seat hash ?now p e ?T")
      case seat: True
      have "b = a" if "b \<in> set (gt_apps ?T)" "ga_project b = p" for b
        using assms(1) a that True by (auto simp: seats_inv_def distinct_map inj_on_def)
      then have "hash (js_lower e) \<in> taken hash ?now a ?T" using seat True by (auto simp: has_seat_def taken_def)
      then show ?thesis using c seat True tk [of a] by (simp add: insert_absorb)
    next
      case False
      have "card (taken hash ?now a ?T \<union> {hash (js_lower e)}) \<le> card (taken hash ?now a ?T) + 1" using card_Un_le [of "taken hash ?now a ?T" "{hash (js_lower e)}"] by simp
      then show ?thesis using c False True tk [of a] by simp
    qed
  next
    case False
    then show ?thesis using assms(1) a tk [of a] by (auto simp: seats_inv_def)
  qed
  then show ?thesis using assms(1) by (simp add: seats_inv_def record_grants(2))
qed

lemma inv_reachable: "consents hash s \<Longrightarrow> hash_ok hash \<Longrightarrow> seats_inv hash s"
proof (induction rule: consents.induct)
  case (start t now)
  have "card (taken hash now a t) \<le> ga_limit a" if "a \<in> set (gt_apps t)" for a
  proof -
    have "taken hash now a t = hash ` granted_emails (ga_project a) t" using start.hyps(5) by (simp add: taken_def live_digests_def)
    moreover have "card (hash ` granted_emails (ga_project a) t) \<le> card (granted_emails (ga_project a) t)"
      by (rule card_image_le) (simp add: granted_emails_def)
    ultimately show ?thesis using granted_count [OF start.hyps(3)] start.hyps(4) that by fastforce
  qed
  then show ?case using start.hyps by (simp add: seats_inv_def)
next
  case (select s rid email own r t)
  then show ?case using inv_select by blast
next
  case (journal s p email sub)
  then show ?case using inv_journal by blast
next
  case (release s up i email rid)
  have "seats_inv hash (s\<lparr>gs_tables := releaseGoogleSeat hash up i email rid (gs_tables s), gs_now := gs_now s\<rparr>)"
    by (rule seats_inv_shrinks) (use release in \<open>auto simp: releaseGoogleSeat_def live_digests_def\<close>)
  then show ?case by simp
next
  case (status s i st)
  have "seats_inv hash (s\<lparr>gs_tables := snd (setGoogleAppStatus i st (gs_tables s)), gs_now := gs_now s\<rparr>)"
    by (rule seats_inv_shrinks) (use status in \<open>auto simp: setGoogleAppStatus_def Let_def live_digests_def\<close>)
  then show ?case by simp
next
  case (capacity s)
  obtain a t where f: "first_app (hasFreeSeat (gs_now s)) (filter (\<lambda>a. ga_status a = ''active'') (gt_apps (gs_tables s))) (gs_tables s) = (a, t)" by fastforce
  have "seats_same (gs_now s) (gs_tables s) t" using first_app_same [OF _ f] free_same by blast
  then show ?case using inv_same capacity by (simp add: googleHasCapacity_def f)
next
  case (passes s now)
  have "seats_inv hash (s\<lparr>gs_tables := gs_tables s, gs_now := now\<rparr>)"
    by (rule seats_inv_shrinks) (use passes in \<open>auto simp: live_digests_def\<close>)
  then show ?case by simp
qed

text \<open>C11: However many consents are under way at once, and whatever their order, the accounts Google counted for
  an app are at most its limit and those that took a seat without one: a consent finished after its
  reservation ran out, or with another Google account than the one it was started for.\<close>
theorem seats_never_oversold:
  assumes "consents hash s" and "hash_ok hash" and "a \<in> set (gt_apps (gs_tables s))"
  shows "grants_of (ga_project a) (gs_tables s) \<le> ga_limit a + gs_strays s (ga_project a)"
proof -
  note i = inv_reachable [OF assms(1,2)]
  have "card (granted_emails (ga_project a) (gs_tables s)) = card (hash ` granted_emails (ga_project a) (gs_tables s))"
    using assms(2) card_image [OF inj_on_subset [of hash UNIV]] by (simp add: hash_ok_def)
  also have "\<dots> \<le> card (taken hash (gs_now s) a (gs_tables s))" by (rule card_mono [OF finite_taken]) (auto simp: taken_def)
  finally show ?thesis using i assms(3) granted_count [of "gs_tables s" "ga_project a"] by (fastforce simp: seats_inv_def)
qed

text \<open>A hash for examples: injective, without colons.\<close>

definition ex_code :: "char \<Rightarrow> string" where
  "ex_code c = (if c = CHR '':'' then ''ac'' else if c = CHR ''a'' then ''aa'' else [c])"

definition ex_hash :: "string \<Rightarrow> string" where
  "ex_hash s = concat (map ex_code s)"

lemma ex_code_inj: "ex_code c @ xs = ex_code d @ ys \<Longrightarrow> c = d \<and> xs = ys"
  by (auto simp: ex_code_def split: if_splits)

lemma ex_code_nonempty: "ex_code c \<noteq> []" "CHR '':'' \<notin> set (ex_code c)"
  by (simp_all add: ex_code_def)

lemma ex_hash_inj: "ex_hash s = ex_hash t \<Longrightarrow> s = t"
proof (induction s arbitrary: t)
  case Nil
  then show ?case using ex_code_nonempty by (cases t) (simp_all add: ex_hash_def)
next
  case (Cons c s)
  then obtain d t' where t: "t = d # t'" using ex_code_nonempty by (cases t) (simp_all add: ex_hash_def)
  then have "ex_code c @ ex_hash s = ex_code d @ ex_hash t'" using Cons.prems by (simp add: ex_hash_def)
  then show ?case using Cons.IH t ex_code_inj by blast
qed

lemma ex_hash_ok: "hash_ok ex_hash"
  unfolding hash_ok_def using ex_hash_inj ex_code_nonempty(2) by (simp add: inj_on_def) (auto simp: ex_hash_def)

definition ex_one_app :: gtables where
  "ex_one_app = no_tables\<lparr>gt_apps := [\<lparr>ga_id = ''a'', ga_label = ''One'', ga_client = ex_client, ga_secret = ''s'', ga_project = ''12'', ga_limit = 1, ga_status = ''active''\<rparr>]\<rparr>"

definition ex_after :: gtables where
  "ex_after = recordGoogleGrant ''12'' ''X@x'' None (snd (selectGoogleApp ex_hash ''r'' 0 ''x@x'' None ex_one_app))"

theorem seats_never_oversold_witness:
  "grants_of ''12'' ex_after = 1 \<and> fst (selectGoogleApp ex_hash ''q'' 0 ''y@y'' None ex_after) = NoAppCapacity \<and> grants_of ''12'' ex_after \<le> 1"
proof -
  let ?s = "\<lparr>gs_now = 0, gs_tables = ex_one_app, gs_strays = (\<lambda>_. 0)\<rparr>"
  let ?r = "selectGoogleApp ex_hash ''r'' 0 ''x@x'' None ex_one_app"
  have s: "consents ex_hash ?s"
    by (rule consents.start) (simp_all add: ex_one_app_def no_tables_def grants_of_def)
  have c: "consents ex_hash (?s\<lparr>gs_tables := snd ?r\<rparr>)" by (rule consents.select [OF s, of "''r''" "''x@x''" None "fst ?r" "snd ?r"]) simp
  have h: "\<exists>a\<in>set (gt_apps (snd ?r)). ga_project a = ''12'' \<and> ex_hash (js_lower ''X@x'') \<in> live_digests (ga_id a) 0 (snd ?r)" by code_simp
  then have "has_seat ex_hash 0 ''12'' ''X@x'' (snd ?r)" by (simp add: has_seat_def)
  then have "consents ex_hash \<lparr>gs_now = 0, gs_tables = ex_after, gs_strays = (\<lambda>_. 0)\<rparr>"
    using consents.journal [OF c, of "''12''" "''X@x''" None] by (simp add: ex_after_def)
  from seats_never_oversold [OF this ex_hash_ok, of "hd (gt_apps ex_one_app)"]
  have "hd (gt_apps ex_one_app) \<in> set (gt_apps ex_after) \<longrightarrow> grants_of ''12'' ex_after \<le> 1" by (simp add: ex_one_app_def)
  moreover have "gt_apps ex_after = gt_apps ex_one_app" by code_simp
  ultimately have "grants_of ''12'' ex_after \<le> 1" by (simp add: ex_one_app_def)
  moreover have "grants_of ''12'' ex_after = 1 \<and> fst (selectGoogleApp ex_hash ''q'' 0 ''y@y'' None ex_after) = NoAppCapacity" by code_simp
  ultimately show ?thesis by simp
qed

end
