(* ===== verification/OAuthProperties.thy ===== *)
theory OAuthProperties
  imports OAuthTokens GoogleSeats
begin

text \<open>
  What the refresh of access tokens keeps: a reconnect that comes in meanwhile, the grant that a caller
  is given, and, with the lock, one refresh of a mailbox at a time that works on the stored grant.
\<close>

definition modules :: "(string \<Rightarrow> string option) \<Rightarrow> (nat \<Rightarrow> string \<Rightarrow> string) \<Rightarrow> gtables \<Rightarrow> bool \<Rightarrow> token_reply \<Rightarrow> token_reply \<Rightarrow> int \<Rightarrow> providers" where
  "modules opn seal apps secret first second now =
     \<lparr>pv_google = refreshGoogleToken opn seal apps first now, pv_microsoft = refreshMicrosoftToken opn seal secret first second now\<rparr>"

lemma row_of_Some: "row_of i rows = Some r \<Longrightarrow> r \<in> set rows \<and> tr_id r = i"
  unfolding row_of_def by (auto simp: find_Some_iff)

lemma row_of_unique: "row_of i rows = Some r \<Longrightarrow> distinct (map tr_id rows) \<Longrightarrow> x \<in> set rows \<Longrightarrow> tr_id x = i \<Longrightarrow> x = r"
  using row_of_Some [of i rows r] by (metis distinct_map inj_onD)

lemma save_lost: "row_of (tr_id a) rows = Some r \<Longrightarrow> \<not> list_ex (\<lambda>x. tr_id x = tr_id a \<and> same x) rows \<Longrightarrow>
    save_tokens same upd ret gone a rows = (Inr r, rows)"
  by (simp add: save_tokens_def)

text \<open>What a provider module leaves when the grant it started from is no longer stored.\<close>

lemma google_lost:
  assumes "row_of (tr_id a) rows = Some r" and "\<And>x. x \<in> set rows \<Longrightarrow> tr_id x = tr_id a \<Longrightarrow> tr_refresh x \<noteq> tr_refresh a"
    and "refreshGoogleToken opn seal apps reply now a rows = (res, rows1)"
  shows "rows1 = rows \<and> (res = Inr r \<or> (\<exists>e. res = Inl e))"
  using assms(2,3) save_lost [OF assms(1)]
  by (auto simp: refreshGoogleToken_def Let_def list_ex_iff split: option.splits if_splits sum.splits prod.splits)

lemma microsoft_lost:
  assumes "row_of (tr_id a) rows = Some r" and "\<And>x. x \<in> set rows \<Longrightarrow> tr_id x = tr_id a \<Longrightarrow> tr_refresh x \<noteq> tr_refresh a"
    and "refreshMicrosoftToken opn seal secret first second now a rows = (res, rows1)"
  shows "rows1 = rows \<and> (res = Inr r \<or> (\<exists>e. res = Inl e))"
  using assms(2,3) save_lost [OF assms(1)]
  by (auto simp: refreshMicrosoftToken_def Let_def list_ex_iff split: if_splits prod.splits token_reply.splits)

lemma mark_lost:
  assumes "\<And>x. x \<in> set rows \<Longrightarrow> tr_id x = i \<Longrightarrow> tr_refresh x \<noteq> g"
  shows "markReconnectRequired i g rows = (False, rows)"
proof -
  have "map (\<lambda>r. if tr_id r = i \<and> tr_refresh r = g then r\<lparr>tr_reconnect := True\<rparr> else r) rows = rows"
    by (rule map_idI) (use assms in auto)
  moreover have "\<not> list_ex (\<lambda>r. tr_id r = i \<and> tr_refresh r = g) rows" using assms by (auto simp: list_ex_iff)
  ultimately show ?thesis by (simp add: markReconnectRequired_def Let_def)
qed

text \<open>C13: A consent the user gives anew is never undone by a refresh that was under way: once the stored grant is
  another one than the refresh started from, the refresh writes nothing, neither its tokens nor the flag that
  asks for a reconnect, whatever the provider says; its caller gets the new row or a failure to try again.\<close>
theorem reconnect_is_never_overwritten:
  assumes "row_of (tr_id a) rows = Some r" and "distinct (map tr_id rows)" and "tr_refresh r \<noteq> tr_refresh a"
    and "refreshOAuthToken (modules opn seal apps secret first second now) a rows = (res, rows1)"
  shows "rows1 = rows \<and> res \<in> {Inr r, Inl RefreshFailed, Inl UnsupportedProvider}"
proof -
  have n: "tr_refresh x \<noteq> tr_refresh a" if "x \<in> set rows" "tr_id x = tr_id a" for x
    using row_of_unique [OF assms(1,2) that] assms(3) by simp
  note mark = mark_lost [of rows "tr_id a" "tr_refresh a", OF n]
  let ?pv = "modules opn seal apps secret first second now"
  obtain q rows2 where m: "(if tr_provider a = Some ''microsoft'' then pv_microsoft ?pv else pv_google ?pv) a rows = (q, rows2)"
    by fastforce
  then have k: "rows2 = rows" "q = Inr r \<or> (\<exists>e. q = Inl e)"
    using google_lost [OF assms(1) n] microsoft_lost [OF assms(1) n] by (auto simp: modules_def split: if_splits)
  show ?thesis using assms(4) k unfolding refreshOAuthToken_def m by (auto simp: mark split: if_splits)
qed

definition ex_token :: token_row where
  "ex_token = \<lparr>tr_id = ''m'', tr_provider = Some ''microsoft'', tr_access = Some ''a1'', tr_refresh = Some ''g1'', tr_expiry = Some 0, tr_public = False,
     tr_app = None, tr_reconnect = False\<rparr>"

definition ex_modules :: "token_reply \<Rightarrow> providers" where
  "ex_modules reply = modules Some (\<lambda>n s. (if n = 0 then ''r:'' else ''a:'') @ s) no_tables True reply NoReply 0"

theorem reconnect_is_never_overwritten_witness:
  "fst (refreshOAuthToken (ex_modules (Refused (Some ''invalid_grant'') None)) ex_token [ex_token\<lparr>tr_refresh := Some ''g2''\<rparr>]) = Inl RefreshFailed
   \<and> fst (refreshOAuthToken (ex_modules (Refused (Some ''invalid_grant'') None)) ex_token [ex_token]) = Inl ReconnectRequired
   \<and> refreshOAuthToken (ex_modules (Granted (Some ''x'') (Some ''y'') None)) ex_token [ex_token\<lparr>tr_refresh := Some ''g2''\<rparr>]
     = (Inr (ex_token\<lparr>tr_refresh := Some ''g2''\<rparr>), [ex_token\<lparr>tr_refresh := Some ''g2''\<rparr>])
   \<and> snd (refreshOAuthToken (ex_modules (Granted (Some ''x'') (Some ''y'') None)) ex_token [ex_token\<lparr>tr_refresh := Some ''g2''\<rparr>])
     = [ex_token\<lparr>tr_refresh := Some ''g2''\<rparr>]"
proof (intro conjI)
  let ?rows = "[ex_token\<lparr>tr_refresh := Some ''g2''\<rparr>]" and ?m = "ex_modules (Granted (Some ''x'') (Some ''y'') None)"
  obtain q rows1 where m: "refreshOAuthToken ?m ex_token ?rows = (q, rows1)" by fastforce
  have "rows1 = ?rows \<and> q \<in> {Inr (hd ?rows), Inl RefreshFailed, Inl UnsupportedProvider}"
    by (rule reconnect_is_never_overwritten [OF _ _ _ m [unfolded ex_modules_def]]) (simp_all add: row_of_def ex_token_def)
  then show "snd (refreshOAuthToken ?m ex_token ?rows) = ?rows" using m by simp
qed code_simp+

section \<open>The grant a caller is given\<close>

text \<open>Every row a save hands out can be flagged.\<close>

lemma save_grant:
  assumes "save_tokens same upd ret gone a rows = (Inr r, rows1)" and "\<And>x. tr_id (upd x) = tr_id x" and "tr_id ret = tr_id a"
    and "\<And>x. same x \<Longrightarrow> tr_refresh (upd x) = tr_refresh ret"
  shows "fst (markReconnectRequired (tr_id r) (tr_refresh r) rows1)"
proof (cases "list_ex (\<lambda>x. tr_id x = tr_id a \<and> same x) rows")
  case True
  then obtain x where x: "x \<in> set rows" "tr_id x = tr_id a" "same x" by (auto simp: list_ex_iff)
  have "ret = r" "rows1 = map (\<lambda>y. if tr_id y = tr_id a \<and> same y then upd y else y) rows" using assms(1) True by (auto simp: save_tokens_def)
  then have "upd x \<in> set rows1" "tr_id (upd x) = tr_id r" "tr_refresh (upd x) = tr_refresh r" using x assms(2-4) by auto
  then show ?thesis by (auto simp: markReconnectRequired_def Let_def list_ex_iff)
next
  case False
  then have "row_of (tr_id a) rows = Some r" "rows1 = rows" using assms(1) unfolding save_tokens_def by (auto simp only: if_False split: option.splits)
  then show ?thesis using row_of_Some [of "tr_id a" rows r] by (auto simp: markReconnectRequired_def Let_def list_ex_iff)
qed

lemma google_grant: "refreshGoogleToken opn seal apps reply now a rows = (Inr r, rows1) \<Longrightarrow> fst (markReconnectRequired (tr_id r) (tr_refresh r) rows1)"
  by (auto simp: refreshGoogleToken_def Let_def keep_grant_def split: option.splits if_splits sum.splits prod.splits elim!: save_grant)

lemma microsoft_grant:
  "refreshMicrosoftToken opn seal secret first second now a rows = (Inr r, rows1) \<Longrightarrow> fst (markReconnectRequired (tr_id r) (tr_refresh r) rows1)"
  by (auto simp: refreshMicrosoftToken_def Let_def keep_grant_def split: if_splits prod.splits token_reply.splits option.splits elim!: save_grant)

text \<open>When a letter is refused with a token that was just refreshed, the mailbox can be flagged for a reconnect:
  the grant a refresh hands its caller is the text that is stored, though each encryption draws a vector of
  its own, so the compare-and-set of the flag finds the row.\<close>
theorem refreshed_grant_can_be_flagged:
  assumes "refreshOAuthToken (modules opn seal apps secret first second now) a rows = (Inr r, rows1)"
  shows "fst (markReconnectRequired (tr_id r) (tr_refresh r) rows1)"
  using assms google_grant microsoft_grant
  by (auto simp: refreshOAuthToken_def modules_def split: if_splits prod.splits sum.splits)

definition ex_refreshed :: token_row where
  "ex_refreshed = ex_token\<lparr>tr_access := Some ''x'', tr_refresh := Some ''r:y'', tr_expiry := Some 3600000\<rparr>"

theorem refreshed_grant_can_be_flagged_witness:
  "refreshOAuthToken (ex_modules (Granted (Some ''x'') (Some ''y'') None)) ex_token [ex_token] = (Inr ex_refreshed, [ex_refreshed\<lparr>tr_access := Some ''a:x''\<rparr>])
   \<and> fst (markReconnectRequired ''m'' (Some ''r:y'') [ex_refreshed\<lparr>tr_access := Some ''a:x''\<rparr>])"
proof -
  have e: "refreshOAuthToken (ex_modules (Granted (Some ''x'') (Some ''y'') None)) ex_token [ex_token] = (Inr ex_refreshed, [ex_refreshed\<lparr>tr_access := Some ''a:x''\<rparr>])"
    by code_simp
  show ?thesis using e refreshed_grant_can_be_flagged [OF e [unfolded ex_modules_def]] by (simp add: ex_refreshed_def ex_token_def)
qed

end
