(* ===== verification/OAuthRuns.thy ===== *)
theory OAuthRuns
  imports OAuthProperties
begin

text \<open>
  Several processes refresh the tokens of one mailbox: each takes the lock in Redis, reads the row,
  lets its provider module work and write, and gives the lock back, unless Redis does not answer; a process may
  crash, a consent may replace the row, a send may flag it. Time passes freely: a process may outlive its lock,
  so another takes the lock over while the first is still under way.
\<close>

record refresh_world =
  rw_now :: int
  rw_lock :: refresh_lock
  rw_rows :: "token_row list"
  rw_runs :: "string \<rightharpoonup> int \<times> token_row option"
  rw_overtaken :: "string set"

text \<open>
  The runs by the token of their lock: when they took it, and the row they refresh once they have read it.
  \<open>rw_overtaken\<close> only observes: the runs under way when a consent replaced the row, or when a process that
  had outlived its lock changed it. \<open>freed\<close> is whether Redis answered the release.
\<close>

definition lock_end :: "int \<Rightarrow> int" where
  "lock_end since = since + LOCK_TTL_SECONDS * 1000"

definition leave :: "bool \<Rightarrow> string \<Rightarrow> token_row list \<Rightarrow> refresh_world \<Rightarrow> refresh_world" where
  "leave freed t rows s = s\<lparr>rw_rows := rows, rw_runs := (rw_runs s)(t := None),
     rw_lock := (if freed then releaseLock t (rw_lock s) else rw_lock s)\<rparr>"

definition overtake :: "token_row list \<Rightarrow> refresh_world \<Rightarrow> refresh_world" where
  "overtake rows s = (if rows = rw_rows s then s else s\<lparr>rw_overtaken := rw_overtaken s \<union> dom (rw_runs s)\<rparr>)"

inductive refreshing :: "string \<Rightarrow> refresh_world \<Rightarrow> bool" for i where
  start: "rw_lock s = None \<Longrightarrow> rw_runs s = Map.empty \<Longrightarrow> rw_overtaken s = {} \<Longrightarrow> refreshing i s"
| time: "refreshing i s \<Longrightarrow> 0 \<le> d \<Longrightarrow> refreshing i (s\<lparr>rw_now := rw_now s + d\<rparr>)"
| acquire: "refreshing i s \<Longrightarrow> rw_runs s t = None \<Longrightarrow> try_lock t (rw_now s) (rw_lock s) = (True, l)
    \<Longrightarrow> refreshing i (s\<lparr>rw_lock := l, rw_runs := (rw_runs s)(t \<mapsto> (rw_now s, None)), rw_overtaken := rw_overtaken s - {t}\<rparr>)"
| read: "refreshing i s \<Longrightarrow> rw_runs s t = Some (since, None) \<Longrightarrow> tr_id a = i \<Longrightarrow> decide_under_lock force (rw_now s) a (rw_rows s) = Refresh r
    \<Longrightarrow> refreshing i (s\<lparr>rw_runs := (rw_runs s)(t \<mapsto> (since, Some r)), rw_overtaken := rw_overtaken s - {t}\<rparr>)"
| pass: "refreshing i s \<Longrightarrow> rw_runs s t = Some (since, None) \<Longrightarrow> refreshing i (leave freed t (rw_rows s) s)"
| finish: "refreshing i s \<Longrightarrow> rw_runs s t = Some (since, Some r) \<Longrightarrow> rw_now s < lock_end since
    \<Longrightarrow> refreshOAuthToken pv r (rw_rows s) = (res, rows) \<Longrightarrow> refreshing i (leave freed t rows s)"
| finish_late: "refreshing i s \<Longrightarrow> rw_runs s t = Some (since, Some r) \<Longrightarrow> lock_end since \<le> rw_now s
    \<Longrightarrow> refreshOAuthToken pv r (rw_rows s) = (res, rows) \<Longrightarrow> refreshing i (leave freed t rows (overtake rows s))"
| crash: "refreshing i s \<Longrightarrow> refreshing i (s\<lparr>rw_runs := (rw_runs s)(t := None)\<rparr>)"
| flag: "refreshing i s \<Longrightarrow> refreshing i (s\<lparr>rw_rows := snd (markReconnectRequired j g (rw_rows s))\<rparr>)"
| reconsent: "refreshing i s \<Longrightarrow> refreshing i (s\<lparr>rw_rows := rows, rw_overtaken := rw_overtaken s \<union> dom (rw_runs s)\<rparr>)"

text \<open>A process that is under way within the time of its lock holds it.\<close>

definition holds_lock :: "refresh_world \<Rightarrow> bool" where
  "holds_lock s \<longleftrightarrow> (\<forall>t since w. rw_runs s t = Some (since, w) \<longrightarrow> rw_now s < lock_end since \<longrightarrow> rw_lock s = Some (t, lock_end since))"

lemma holds_lockD: "holds_lock s \<Longrightarrow> rw_runs s t = Some (since, w) \<Longrightarrow> rw_now s < lock_end since \<Longrightarrow> rw_lock s = Some (t, lock_end since)"
  unfolding holds_lock_def by blast

lemma holds_lock_one:
  assumes "holds_lock s" and "rw_runs s t = Some (since, w)" "rw_now s < lock_end since"
    and "rw_runs s u = Some (since', w')" "rw_now s < lock_end since'"
  shows "u = t"
proof -
  have "rw_lock s = Some (t, lock_end since)" "rw_lock s = Some (u, lock_end since')"
    by (rule holds_lockD [OF assms(1-3)], rule holds_lockD [OF assms(1,4,5)])
  then show ?thesis by simp
qed

lemma overtake_simps [simp]: "rw_now (overtake rows s) = rw_now s" "rw_lock (overtake rows s) = rw_lock s" "rw_runs (overtake rows s) = rw_runs s"
    "rw_rows (overtake rows s) = rw_rows s"
  by (simp_all add: overtake_def)

text \<open>A release takes away no lock but its own.\<close>

lemma leave_holds: "holds_lock s \<Longrightarrow> holds_lock (leave freed t rows s)"
proof -
  assume h: "holds_lock s"
  show "holds_lock (leave freed t rows s)"
    unfolding holds_lock_def
  proof (intro allI impI)
    fix u since w assume u: "rw_runs (leave freed t rows s) u = Some (since, w)" "rw_now (leave freed t rows s) < lock_end since"
    then have "u \<noteq> t" "rw_runs s u = Some (since, w)" "rw_now s < lock_end since" by (auto simp: leave_def split: if_splits)
    then show "rw_lock (leave freed t rows s) = Some (u, lock_end since)" using holds_lockD [OF h] by (simp add: leave_def releaseLock_def)
  qed
qed

lemma lock_is_held: "refreshing i s \<Longrightarrow> holds_lock s"
proof (induction rule: refreshing.induct)
  case (start s)
  then show ?case by (simp add: holds_lock_def)
next
  case (acquire s t l)
  then have n: "\<not> lock_live (rw_now s) (rw_lock s)" "l = Some (t, lock_end (rw_now s))" by (auto simp: try_lock_def lock_end_def split: if_splits)
  have "\<not> rw_now s < lock_end since" if "rw_runs s u = Some (since, w)" for u since w
    using holds_lockD [OF acquire.IH that] n(1) by (auto simp: lock_live_def)
  then show ?case using n(2) unfolding holds_lock_def by auto
next
  case (finish_late s t since r pv res rows freed)
  then have "holds_lock (overtake rows s)" by (simp add: holds_lock_def)
  then show ?case by (rule leave_holds)
qed (auto simp: holds_lock_def [of "_\<lparr>rw_runs := _, rw_overtaken := _\<rparr>"] holds_lock_def [of "_\<lparr>rw_runs := _\<rparr>"] holds_lock_def [of "_\<lparr>rw_rows := _\<rparr>"]
   holds_lock_def [of "_\<lparr>rw_rows := _, rw_overtaken := _\<rparr>"] holds_lock_def [of "_\<lparr>rw_now := _\<rparr>"] leave_holds split: if_splits dest: holds_lockD)

section \<open>The grant a run works with\<close>

text \<open>The mailbox as far as a provider and the compare-and-set see it.\<close>

definition same_grant :: "token_row \<Rightarrow> token_row \<Rightarrow> bool" where
  "same_grant r x \<longleftrightarrow> tr_id x = tr_id r \<and> tr_refresh x = tr_refresh r \<and> tr_app x = tr_app r \<and> tr_public x = tr_public r"

definition stored_as_read :: "string \<Rightarrow> refresh_world \<Rightarrow> bool" where
  "stored_as_read i s \<longleftrightarrow> (\<forall>t since r. rw_runs s t = Some (since, Some r) \<longrightarrow> rw_now s < lock_end since \<longrightarrow> t \<notin> rw_overtaken s \<longrightarrow>
     tr_id r = i \<and> (\<exists>x\<in>set (rw_rows s). same_grant r x))"

lemma decide_row: "decide_under_lock force now a rows = Refresh r \<Longrightarrow> r \<in> set rows \<and> tr_id r = tr_id a"
  by (auto simp: decide_under_lock_def dest!: row_of_Some split: option.splits if_splits)

lemma flag_grant: "x \<in> set rows \<Longrightarrow> same_grant r x \<Longrightarrow> \<exists>y\<in>set (snd (markReconnectRequired j g rows)). same_grant r y"
  by (rule bexI [of _ "if tr_id x = j \<and> tr_refresh x = g then x\<lparr>tr_reconnect := True\<rparr> else x"])
    (auto simp: markReconnectRequired_def Let_def same_grant_def)

lemma grant_is_stored: "refreshing i s \<Longrightarrow> stored_as_read i s"
proof (induction rule: refreshing.induct)
  case (time s d)
  then show ?case unfolding stored_as_read_def by simp
next
  case (finish s t since r pv res rows freed)
  then have "rw_runs s u = Some (since', w') \<Longrightarrow> rw_now s < lock_end since' \<Longrightarrow> u = t" for u since' w'
    using holds_lock_one [OF lock_is_held finish.hyps(2,3)] by blast
  then show ?case unfolding stored_as_read_def leave_def by auto
next
  case (finish_late s t since r pv res rows freed)
  then show ?case unfolding stored_as_read_def leave_def overtake_def by auto
next
  case (read s t since a force r)
  have "tr_id r = i \<and> (\<exists>x\<in>set (rw_rows s). same_grant r x)" using decide_row [OF read.hyps(4)] read.hyps(3) by (auto simp: same_grant_def)
  then show ?case using read.IH unfolding stored_as_read_def by auto
next
  case (flag s j g)
  then show ?case unfolding stored_as_read_def by simp (meson flag_grant)
qed (auto simp: stored_as_read_def leave_def split: if_splits)

text \<open>C12: Of the processes that refresh a mailbox, however many they are, wherever some crash, however long some take
  and whether their releases get through, at most one is under way within the 60 seconds of its lock, the lock is
  then its own, and the grant it sends to the provider is the one that is stored until it writes, so that a provider
  that replaces the grant at each refresh sees no replaced one from it; only a new consent or the write of a
  process that outlived its lock comes between.\<close>
theorem one_refresh_with_the_stored_grant:
  assumes "refreshing i s" and "rw_runs s t = Some (since, Some r)" and "rw_now s < since + LOCK_TTL_SECONDS * 1000"
  shows "rw_lock s = Some (t, since + LOCK_TTL_SECONDS * 1000)
    \<and> \<not> (\<exists>u since' w. u \<noteq> t \<and> rw_runs s u = Some (since', w) \<and> rw_now s < since' + LOCK_TTL_SECONDS * 1000)
    \<and> (t \<in> rw_overtaken s \<or> (\<exists>x\<in>set (rw_rows s). tr_id x = i \<and> tr_refresh x = tr_refresh r \<and> tr_app x = tr_app r \<and> tr_public x = tr_public r))"
proof -
  note held = lock_is_held [OF assms(1)] and inside = assms(3) [folded lock_end_def]
  have "rw_lock s = Some (t, lock_end since)" by (rule holds_lockD [OF held assms(2) inside])
  moreover have "u = t" if "rw_runs s u = Some (since', w)" "rw_now s < lock_end since'" for u since' w
    by (rule holds_lock_one [OF held assms(2) inside that])
  ultimately show ?thesis
    using grant_is_stored [OF assms(1)] assms(2) inside
    unfolding stored_as_read_def same_grant_def lock_end_def by blast
qed

text \<open>A process \<open>p\<close> outlives its lock, \<open>q\<close> takes over and reads the row, and \<open>p\<close> gives back: the lock stays with \<open>q\<close>.\<close>

definition ex_world :: refresh_world where
  "ex_world = \<lparr>rw_now = 0, rw_lock = None, rw_rows = [ex_token], rw_runs = Map.empty, rw_overtaken = {}\<rparr>"

definition ex_taken_over :: refresh_world where
  "ex_taken_over = \<lparr>rw_now = 60000, rw_lock = Some (''q'', 120000), rw_rows = [ex_token],
     rw_runs = [''p'' \<mapsto> (0, None), ''q'' \<mapsto> (60000, Some ex_token)], rw_overtaken = {}\<rparr>"

lemma ex_taken_over_reached: "refreshing ''m'' ex_taken_over"
proof -
  let ?p = "ex_world\<lparr>rw_lock := Some (''p'', 60000), rw_runs := (rw_runs ex_world)(''p'' \<mapsto> (rw_now ex_world, None)), rw_overtaken := rw_overtaken ex_world - {''p''}\<rparr>"
  let ?t = "?p\<lparr>rw_now := rw_now ?p + 60000\<rparr>"
  let ?q = "?t\<lparr>rw_lock := Some (''q'', 120000), rw_runs := (rw_runs ?t)(''q'' \<mapsto> (rw_now ?t, None)), rw_overtaken := rw_overtaken ?t - {''q''}\<rparr>"
  have "refreshing ''m'' ex_world" by (rule refreshing.start) (simp_all add: ex_world_def)
  then have "refreshing ''m'' ?p" by (rule refreshing.acquire) (simp_all add: ex_world_def try_lock_def lock_live_def LOCK_TTL_SECONDS_def)
  then have "refreshing ''m'' ?t" by (rule refreshing.time) simp
  then have q: "refreshing ''m'' ?q"
    by (rule refreshing.acquire) (simp_all add: ex_world_def try_lock_def lock_live_def LOCK_TTL_SECONDS_def)
  have d: "decide_under_lock False (rw_now ?q) ex_token (rw_rows ?q) = Refresh ex_token"
    by (simp add: decide_under_lock_def row_of_def ex_world_def ex_token_def needsTokenRefresh_def TOKEN_REFRESH_SKEW_MS_def text_given_def)
  show ?thesis
    using refreshing.read [OF q _ _ d, of "''q''" 60000] by (simp add: ex_world_def ex_taken_over_def ex_token_def)
qed

theorem one_refresh_with_the_stored_grant_witness:
  "rw_lock (leave True ''p'' [ex_token] ex_taken_over) = Some (''q'', 120000)
   \<and> (\<exists>x\<in>set (rw_rows (leave True ''p'' [ex_token] ex_taken_over)). tr_id x = ''m'' \<and> tr_refresh x = Some ''g1'')"
proof -
  let ?l = "leave True ''p'' (rw_rows ex_taken_over) ex_taken_over"
  have "refreshing ''m'' ?l" by (rule refreshing.pass [OF ex_taken_over_reached, of _ 0]) (simp add: ex_taken_over_def)
  moreover have "rw_runs ?l ''q'' = Some (60000, Some ex_token)" "rw_now ?l < 60000 + LOCK_TTL_SECONDS * 1000"
    by (simp_all add: leave_def ex_taken_over_def LOCK_TTL_SECONDS_def)
  ultimately show ?thesis
    using one_refresh_with_the_stored_grant [of "''m''" ?l "''q''" 60000 ex_token]
    by (auto simp: ex_taken_over_def leave_def ex_token_def LOCK_TTL_SECONDS_def)
qed

end
