(* ===== verification/OAuthState.thy ===== *)
theory OAuthState
  imports GoogleSeats
begin

text \<open>
  Consents under way (\<open>services/oauth/oauthState.js\<close>) and the one-time path of the Gmail form
  (\<open>services/oauth/googleLaunch.js\<close>): what waits in Redis, created once and handed out once. The hash
  and the random texts are arguments; a stored flow is the record that was stored.
\<close>

record flow =
  fl_user :: "string option"
  fl_verifier :: string
  fl_hint :: "string option"
  fl_app :: "string option"
  fl_mode :: "string option"
  fl_email :: "string option"
  fl_account :: "string option"
  fl_sender :: "string option"
  fl_sender_alt :: "string option"
  fl_reservation :: "string option"
  fl_attempt :: "string option"

text \<open>The keys with their values and the moment they expire, in milliseconds.\<close>

type_synonym 'v waiting = "string \<rightharpoonup> 'v \<times> int"

definition get_live :: "int \<Rightarrow> string \<Rightarrow> 'v waiting \<Rightarrow> 'v option" where
  "get_live now k w = (case w k of None \<Rightarrow> None | Some (v, till) \<Rightarrow> if now < till then Some v else None)"

text \<open>\<open>SET NX EX\<close> and \<open>GETDEL\<close>.\<close>

definition set_nx :: "int \<Rightarrow> int \<Rightarrow> string \<Rightarrow> 'v \<Rightarrow> 'v waiting \<Rightarrow> 'v waiting" where
  "set_nx now secs k v w = (if get_live now k w = None then w(k \<mapsto> (v, now + secs * 1000)) else w)"

definition get_del :: "int \<Rightarrow> string \<Rightarrow> 'v waiting \<Rightarrow> 'v option \<times> 'v waiting" where
  "get_del now k w = (get_live now k w, w(k := None))"

definition token_char :: "char \<Rightarrow> bool" where
  "token_char c \<longleftrightarrow> c \<in> set ''ABCDEFGHIJKLMNOPQRSTUVWXYZabcdefghijklmnopqrstuvwxyz0123456789_-''"

text \<open>\<open>/^[A-Za-z0-9_-]{43}$/\<close> and \<open>/^[A-Za-z0-9_-]{16,64}$/\<close>.\<close>

definition STATE_PATTERN :: "string \<Rightarrow> bool" where
  "STATE_PATTERN s \<longleftrightarrow> length s = 43 \<and> list_all token_char s"

definition parseAttemptId :: "string option \<Rightarrow> string option" where
  "parseAttemptId v = (case v of None \<Rightarrow> None | Some s \<Rightarrow> if 16 \<le> length s \<and> length s \<le> 64 \<and> list_all token_char s then Some s else None)"

definition stateKey :: "(string \<Rightarrow> string) \<Rightarrow> string \<Rightarrow> string \<Rightarrow> string" where
  "stateKey hash provider s = ''oauth:state:'' @ provider @ '':'' @ hash s"

definition nonempty :: "string option \<Rightarrow> string option" where
  "nonempty v = (if text_given v then v else None)"

definition createOAuthState :: "(string \<Rightarrow> string) \<Rightarrow> int \<Rightarrow> string \<Rightarrow> string \<Rightarrow> flow \<Rightarrow> flow waiting \<Rightarrow> flow waiting" where
  "createOAuthState hash now provider s f w = set_nx now OAUTH_STATE_TTL_SECONDS (stateKey hash provider s)
     (f\<lparr>fl_user := nonempty (fl_user f), fl_hint := nonempty (fl_hint f), fl_app := nonempty (fl_app f), fl_mode := nonempty (fl_mode f),
       fl_email := map_option js_lower (nonempty (fl_email f)), fl_account := nonempty (fl_account f), fl_sender := nonempty (fl_sender f),
       fl_sender_alt := nonempty (fl_sender_alt f), fl_reservation := nonempty (fl_reservation f), fl_attempt := parseAttemptId (fl_attempt f)\<rparr>) w"

definition consumeOAuthState :: "(string \<Rightarrow> string) \<Rightarrow> int \<Rightarrow> string \<Rightarrow> string option \<Rightarrow> bool \<Rightarrow> flow waiting \<Rightarrow> flow option \<times> flow waiting" where
  "consumeOAuthState hash now provider s anonymous w = (case s of None \<Rightarrow> (None, w)
     | Some st \<Rightarrow> if \<not> STATE_PATTERN st then (None, w)
         else (case get_del now (stateKey hash provider st) w of
             (None, w1) \<Rightarrow> (None, w1)
           | (Some f, w1) \<Rightarrow> if \<not> text_given (fl_user f) \<and> \<not> anonymous then (None, w1) else (Some (f\<lparr>fl_attempt := parseAttemptId (fl_attempt f)\<rparr>), w1)))"

section \<open>The one-time path\<close>

definition GOOGLE_LAUNCH_TTL_SECONDS :: int where "GOOGLE_LAUNCH_TTL_SECONDS = 60"

definition GOOGLE_AUTH_URL :: string where "GOOGLE_AUTH_URL = ''https://accounts.google.com/o/oauth2/v2/auth''"

definition launchKey :: "(string \<Rightarrow> string) \<Rightarrow> string \<Rightarrow> string" where
  "launchKey hash f = ''oauth:google:launch:'' @ hash f"

definition createGoogleLaunch :: "(string \<Rightarrow> string) \<Rightarrow> int \<Rightarrow> string \<Rightarrow> string \<Rightarrow> string \<Rightarrow> (string \<times> string) waiting \<Rightarrow> (string \<times> string) waiting" where
  "createGoogleLaunch hash now f user url w = set_nx now GOOGLE_LAUNCH_TTL_SECONDS (launchKey hash f) (user, url) w"

definition consumeGoogleLaunch :: "(string \<Rightarrow> string) \<Rightarrow> int \<Rightarrow> string \<Rightarrow> string \<Rightarrow> (string \<times> string) waiting \<Rightarrow> string option \<times> (string \<times> string) waiting" where
  "consumeGoogleLaunch hash now f user w =
     (if \<not> STATE_PATTERN f then (None, w)
      else case get_del now (launchKey hash f) w of (None, w1) \<Rightarrow> (None, w1)
        | (Some (u, url), w1) \<Rightarrow> if u \<noteq> user then (None, w1)
            else if take (Suc (length GOOGLE_AUTH_URL)) url \<noteq> GOOGLE_AUTH_URL @ ''?'' then (None, w1) else (Some url, w1))"

section \<open>Single use\<close>

datatype flow_step = CreateFlow string string flow | ConsumeFlow string string bool | Later int

text \<open>The steps of all processes in order, with the time; the log says which states were handed out to whom.\<close>

fun flow_run :: "(string \<Rightarrow> string) \<Rightarrow> flow_step list \<Rightarrow> int \<Rightarrow> flow waiting \<Rightarrow> (string \<times> string) list" where
  "flow_run hash [] now w = []"
| "flow_run hash (CreateFlow p s f # xs) now w = flow_run hash xs now (createOAuthState hash now p s f w)"
| "flow_run hash (ConsumeFlow p s anon # xs) now w = (case consumeOAuthState hash now p (Some s) anon w of (r, w1) \<Rightarrow>
     (case r of None \<Rightarrow> [] | Some f \<Rightarrow> [(p, s)]) @ flow_run hash xs now w1)"
| "flow_run hash (Later ms # xs) now w = flow_run hash xs (now + max 0 ms) w"

definition created :: "string \<Rightarrow> string \<Rightarrow> flow_step \<Rightarrow> bool" where
  "created p s x \<longleftrightarrow> (case x of CreateFlow q t f \<Rightarrow> q = p \<and> t = s | _ \<Rightarrow> False)"

definition key_ok :: "(string \<Rightarrow> string) \<Rightarrow> bool" where
  "key_ok hash \<longleftrightarrow> (\<forall>p s q t. stateKey hash p s = stateKey hash q t \<longrightarrow> p = q \<and> s = t)"

lemma create_key: "w' = createOAuthState hash now p s f w \<Longrightarrow> k \<noteq> stateKey hash p s \<Longrightarrow> w' k = w k"
  by (simp add: createOAuthState_def set_nx_def)

lemma consume_key: "consumeOAuthState hash now p s anon w = (r, w1) \<Longrightarrow> (\<forall>k. w1 k = w k \<or> w1 k = None)
    \<and> (r \<noteq> None \<longrightarrow> (\<exists>st. s = Some st \<and> w1 (stateKey hash p st) = None \<and> w (stateKey hash p st) \<noteq> None))"
  by (auto simp: consumeOAuthState_def get_del_def get_live_def split: option.splits if_splits prod.splits)

lemma handed_out: "key_ok hash \<Longrightarrow> length (filter (\<lambda>x. x = (p, s)) (flow_run hash xs now w))
    \<le> length (filter (created p s) xs) + (if w (stateKey hash p s) = None then 0 else 1)"
proof (induction hash xs now w rule: flow_run.induct)
  case (2 hash q t f xs now w)
  let ?w = "createOAuthState hash now q t f w"
  note ih = "2.IH" [OF "2.prems"]
  have cr: "filter (created p s) (CreateFlow q t f # xs) = (if q = p \<and> t = s then [CreateFlow q t f] else []) @ filter (created p s) xs"
    by (simp add: created_def)
  have step: "flow_run hash (CreateFlow q t f # xs) now w = flow_run hash xs now ?w" by simp
  show ?case
  proof (cases "q = p \<and> t = s")
    case True
    have "(if ?w (stateKey hash p s) = None then 0 else 1) \<le> (1 :: nat)" by simp
    then have "length (filter (\<lambda>x. x = (p, s)) (flow_run hash xs now ?w)) \<le> length (filter (created p s) xs) + 1" using ih by linarith
    then show ?thesis unfolding cr step using True by simp
  next
    case False
    then have "stateKey hash p s \<noteq> stateKey hash q t" using "2.prems" unfolding key_ok_def by blast
    then have "?w (stateKey hash p s) = w (stateKey hash p s)" by (rule create_key [OF refl])
    then show ?thesis using ih False unfolding cr step by simp
  qed
next
  case (3 hash q t anon xs now w)
  obtain r w1 where c: "consumeOAuthState hash now q (Some t) anon w = (r, w1)" by fastforce
  note ih = "3.IH" [OF c [symmetric] "3.prems"] and k = consume_key [OF c]
  let ?k = "stateKey hash p s"
  have k1: "w1 ?k = w ?k \<or> w1 ?k = None" by (rule spec [OF conjunct1 [OF k]])
  have step: "flow_run hash (ConsumeFlow q t anon # xs) now w = (case r of None \<Rightarrow> [] | Some f \<Rightarrow> [(q, t)]) @ flow_run hash xs now w1"
    by (simp add: c)
  have le: "(if w1 ?k = None then 0 else 1) \<le> (if w ?k = None then 0 else (1 :: nat))" using k1 by auto
  have cr: "filter (created p s) (ConsumeFlow q t anon # xs) = filter (created p s) xs" by (simp add: created_def)
  show ?case
  proof (cases "r \<noteq> None \<and> (q, t) = (p, s)")
    case True
    then have "w1 ?k = None" "w ?k \<noteq> None" using k by auto
    then show ?thesis using ih True unfolding step cr by auto
  next
    case False
    then have "filter (\<lambda>x. x = (p, s)) (case r of None \<Rightarrow> [] | Some f \<Rightarrow> [(q, t)]) = []" by (cases r) simp_all
    then show ?thesis using ih le unfolding step cr filter_append by (simp only: append_Nil)
  qed
next
  case (4 hash ms xs now w)
  have "filter (created p s) (Later ms # xs) = filter (created p s) xs" by (simp add: created_def)
  then show ?case using "4.IH" [OF "4.prems"] by simp
qed simp

text \<open>With an injective hash whose texts have no colon (as hexadecimal digests have none) the keys are apart.\<close>

lemma after_last_colon:
  assumes "p @ CHR '':'' # a = q @ CHR '':'' # b" and "CHR '':'' \<notin> set a" and "CHR '':'' \<notin> set b"
  shows "p = q \<and> a = b"
proof -
  have tw: "takeWhile (\<lambda>c. c \<noteq> CHR '':'') (rev x @ CHR '':'' # y) = rev x" if "CHR '':'' \<notin> set x" for x y
    using that by (intro takeWhile_tail [THEN trans]) (auto simp: takeWhile_eq_all_conv takeWhile_append2)
  have "rev a @ CHR '':'' # rev p = rev b @ CHR '':'' # rev q" using arg_cong [OF assms(1), of rev] by simp
  then have "rev a = rev b" using tw [OF assms(2), of "rev p"] tw [OF assms(3), of "rev q"] by simp
  then show ?thesis using assms(1) by simp
qed

lemma keys_apart: "hash_ok hash \<Longrightarrow> key_ok hash"
proof (unfold key_ok_def, intro allI impI)
  fix p s q t
  assume h: "hash_ok hash" and "stateKey hash p s = stateKey hash q t"
  then have "p = q \<and> hash s = hash t" by (intro after_last_colon) (simp_all add: stateKey_def hash_ok_def)
  then show "p = q \<and> s = t" using h by (simp add: hash_ok_def inj_eq)
qed

text \<open>C14: A consent is finished at most once: however often and from wherever its state comes back, a state is
  handed out no more often than it was created, for the provider it was created for.\<close>
theorem consents_are_single_use:
  assumes "hash_ok hash"
  shows "length (filter (\<lambda>x. x = (p, s)) (flow_run hash xs now Map.empty)) \<le> length (filter (created p s) xs)"
  using handed_out [OF keys_apart [OF assms], of p s xs now Map.empty] by simp

definition ex_state :: string where
  "ex_state = replicate 43 CHR ''s''"

definition ex_flow :: flow where
  "ex_flow = \<lparr>fl_user = Some ''u'', fl_verifier = ''v'', fl_hint = None, fl_app = None, fl_mode = Some ''add'', fl_email = Some ''A@x'', fl_account = None,
     fl_sender = None, fl_sender_alt = None, fl_reservation = None, fl_attempt = None\<rparr>"

definition ex_steps :: "flow_step list" where
  "ex_steps = [CreateFlow ''google'' ex_state ex_flow, ConsumeFlow ''microsoft'' ex_state False, ConsumeFlow ''google'' ex_state False,
     ConsumeFlow ''google'' ex_state False]"

theorem consents_are_single_use_witness:
  "flow_run ex_hash ex_steps 0 Map.empty = [(''google'', ex_state)] \<and> length (filter (created ''google'' ex_state) ex_steps) = 1
   \<and> length (filter (\<lambda>x. x = (''google'', ex_state)) (flow_run ex_hash ex_steps 0 Map.empty)) \<le> length (filter (created ''google'' ex_state) ex_steps)"
proof (intro conjI)
  show "flow_run ex_hash ex_steps 0 Map.empty = [(''google'', ex_state)]" by code_simp
  show "length (filter (created ''google'' ex_state) ex_steps) = 1" by code_simp
qed (rule consents_are_single_use [OF ex_hash_ok])

end
