(* ===== verification/EopSeats.thy ===== *)
theory EopSeats
  imports VCard
begin

text \<open>
  The EOP seats of the mail node (\<open>services/mailNode/eopSeats.js\<close>, \<open>seatProvider.js\<close>): the ledger of who held
  which seat when, the taking, releasing and returning of seats, the purchased number, and the
  requests for more. A transaction is one function; \<open>now\<close> is its \<open>NOW()\<close>, the time it began, which may lie
  before the moment it got the lock. A date the code reads is its milliseconds, \<open>None\<close> when it does not parse.
\<close>

definition EOP_SKU_PART_NUMBER :: string where "EOP_SKU_PART_NUMBER = ''EOP_ENTERPRISE''"
definition SEATS_STALE_MS :: int where "SEATS_STALE_MS = 3 * 24 * 60 * 60 * 1000"
definition PENDING_MINUTES :: int where "PENDING_MINUTES = 10"
definition MAX_SEAT_REQUEST :: int where "MAX_SEAT_REQUEST = 1000"
definition DEFAULT_HOLD_DAYS :: int where "DEFAULT_HOLD_DAYS = 90"
definition MAX_HOLD_DAYS :: int where "MAX_HOLD_DAYS = 3650"

text \<open>\<open>make_interval(days => n)\<close> in milliseconds.\<close>

definition days_ms :: "int \<Rightarrow> int" where
  "days_ms n = n * 24 * 60 * 60 * 1000"

section \<open>The purchased number\<close>

text \<open>\<open>Number.isInteger(value) && value >= 0\<close>; a value that is no whole number is \<open>None\<close>.\<close>

definition whole :: "int option \<Rightarrow> int" where
  "whole v = (case v of Some n \<Rightarrow> if n \<ge> 0 then n else 0 | None \<Rightarrow> 0)"

record sku_row =
  kr_part :: "string option"
  kr_id :: "string option"
  kr_applies :: "string option"
  kr_status :: "string option"
  kr_enabled :: "int option"
  kr_suspended :: "int option"
  kr_warning :: "int option"
  kr_consumed :: "int option"

record sku =
  sk_id :: "string option"
  sk_applies :: "string option"
  sk_status :: "string option"
  sk_enabled :: int
  sk_suspended :: int
  sk_warning :: int
  sk_consumed :: int

record subscribed =
  sb_found :: bool
  sb_purchased :: int
  sb_warning :: int
  sb_skus :: "sku list"

text \<open>The answer of Graph: the rows of its array \<open>value\<close>, when it has one.\<close>

definition parseSubscribedSkus :: "sku_row list option \<Rightarrow> subscribed" where
  "parseSubscribedSkus answer =
     (let rows = (case answer of Some rs \<Rightarrow> rs | None \<Rightarrow> []);
          eop = filter (\<lambda>r. js_upper (case kr_part r of Some p \<Rightarrow> p | None \<Rightarrow> []) = EOP_SKU_PART_NUMBER) rows in
      if eop = [] then \<lparr>sb_found = False, sb_purchased = 0, sb_warning = 0, sb_skus = []\<rparr>
      else let skus = map (\<lambda>r. \<lparr>sk_id = kr_id r, sk_applies = kr_applies r, sk_status = kr_status r, sk_enabled = whole (kr_enabled r),
              sk_suspended = whole (kr_suspended r), sk_warning = whole (kr_warning r), sk_consumed = whole (kr_consumed r)\<rparr>) eop in
        \<lparr>sb_found = True, sb_purchased = sum_list (map (\<lambda>k. sk_enabled k + sk_warning k) skus),
         sb_warning = sum_list (map sk_warning skus), sb_skus = skus\<rparr>)"

datatype seat_mode = Graph | Manual

text \<open>Whether a real driver runs and the four tenant fields are set.\<close>

record eop_settings =
  es_tenant_id :: "string option"
  es_tenant_domain :: "string option"
  es_app_id :: "string option"
  es_thumbprint :: "string option"
  es_licenses :: "int option"

definition filled :: "string option \<Rightarrow> bool" where
  "filled v \<longleftrightarrow> (case v of Some t \<Rightarrow> t \<noteq> [] | None \<Rightarrow> False)"

definition tenantConfigured :: "eop_settings \<Rightarrow> bool" where
  "tenantConfigured s \<longleftrightarrow> filled (es_tenant_id s) \<and> filled (es_tenant_domain s) \<and> filled (es_app_id s) \<and> filled (es_thumbprint s)"

definition seatSource :: "eop_settings \<Rightarrow> string option \<Rightarrow> seat_mode" where
  "seatSource eop driver_kind = (case driver_kind of None \<Rightarrow> Manual
     | Some k \<Rightarrow> if k \<noteq> ''fake'' \<and> tenantConfigured eop then Graph else Manual)"

text \<open>The stored read of the seats; \<open>rd_ok\<close> is false only after a failed read.\<close>

record seat_read =
  rd_at :: "int option"
  rd_ok :: bool
  rd_purchased :: "int option"
  rd_warning :: "int option"
  rd_found :: "bool option"
  rd_error :: "string option"
  rd_first_error :: "int option"

record seat_supply =
  su_purchased :: "int option"
  su_warning :: int
  su_mode :: seat_mode
  su_source :: seat_mode
  su_at :: "int option"
  su_stale :: bool
  su_not_reconciled :: bool
  su_error :: "string option"
  su_missing :: bool

definition purchasedSeats :: "eop_settings \<Rightarrow> seat_read option \<Rightarrow> seat_mode \<Rightarrow> int \<Rightarrow> seat_supply" where
  "purchasedSeats eop read1 source now =
     (if source \<noteq> Graph then \<lparr>su_purchased = es_licenses eop, su_warning = 0, su_mode = Manual, su_source = Manual, su_at = None, su_stale = False,
        su_not_reconciled = False, su_error = None, su_missing = False\<rparr>
      else let err = (case read1 of Some r \<Rightarrow> if \<not> rd_ok r then rd_error r else None | None \<Rightarrow> None) in
        case (Option.bind read1 rd_purchased, Option.bind read1 rd_at) of
          (Some n, Some at1) \<Rightarrow> \<lparr>su_purchased = Some n, su_warning = whole (Option.bind read1 rd_warning), su_mode = Graph, su_source = Graph, su_at = Some at1,
              su_stale = (now - at1 > SEATS_STALE_MS), su_not_reconciled = False, su_error = err, su_missing = (Option.bind read1 rd_found = Some False)\<rparr>
        | _ \<Rightarrow> \<lparr>su_purchased = es_licenses eop, su_warning = 0, su_mode = Graph, su_source = Manual, su_at = None,
              su_stale = (case Option.bind read1 rd_first_error of Some f \<Rightarrow> now - f > SEATS_STALE_MS | None \<Rightarrow> False),
              su_not_reconciled = True, su_error = err, su_missing = False\<rparr>)"

section \<open>The ledger\<close>

record seat_row =
  sr_id :: nat
  sr_seat :: nat
  sr_account :: "string option"
  sr_email :: string
  sr_assigned :: int
  sr_released :: "int option"
  sr_reason :: "string option"
  sr_free_from :: "int option"
  sr_pending :: "int option"

text \<open>The tables: the ledger in the order of its ids, the next id, and the stored hold period.\<close>

record seat_db =
  sd_rows :: "seat_row list"
  sd_next :: nat
  sd_hold :: "int option"

text \<open>\<open>LATEST\<close>: the row of every seat with the highest id.\<close>

definition is_latest :: "seat_row list \<Rightarrow> seat_row \<Rightarrow> bool" where
  "is_latest rows r \<longleftrightarrow> list_all (\<lambda>x. sr_seat x = sr_seat r \<longrightarrow> sr_id x \<le> sr_id r) rows"

definition latest :: "seat_row list \<Rightarrow> seat_row list" where
  "latest rows = sort_key sr_seat (filter (is_latest rows) rows)"

definition after_now :: "int \<Rightarrow> int option \<Rightarrow> bool" where
  "after_now now t \<longleftrightarrow> (case t of Some x \<Rightarrow> x > now | None \<Rightarrow> False)"

definition counts_used :: "int \<Rightarrow> seat_row \<Rightarrow> bool" where
  "counts_used now r \<longleftrightarrow> sr_released r = None \<and> (sr_pending r = None \<or> after_now now (sr_pending r))"

definition on_hold :: "int \<Rightarrow> seat_row \<Rightarrow> bool" where
  "on_hold now r \<longleftrightarrow> sr_released r \<noteq> None \<and> after_now now (sr_free_from r)"

definition seatCounts :: "int \<Rightarrow> seat_row list \<Rightarrow> nat \<times> nat" where
  "seatCounts now rows = (length (filter (counts_used now) (latest rows)), length (filter (on_hold now) (latest rows)))"

definition heldSeats :: "int \<Rightarrow> seat_row list \<Rightarrow> seat_row list" where
  "heldSeats now rows = sort_key (\<lambda>r. (case sr_free_from r of Some t \<Rightarrow> t | None \<Rightarrow> 0, sr_seat r)) (filter (on_hold now) (latest rows))"

text \<open>The lowest number that is neither live nor on hold.\<close>

definition occupied :: "int \<Rightarrow> seat_row \<Rightarrow> bool" where
  "occupied now r \<longleftrightarrow> sr_released r = None \<or> after_now now (sr_free_from r)"

definition freeSeatNumber :: "int \<Rightarrow> seat_row list \<Rightarrow> nat" where
  "freeSeatNumber now rows = (let taken = map sr_seat (filter (occupied now) (latest rows)) in
     hd (filter (\<lambda>n. n \<notin> set taken) [1..<Max (insert 0 (sr_seat ` set rows)) + 2]))"

datatype seat_error = SeatsUnknown | NoFreeSeats

definition lapsed :: "int \<Rightarrow> seat_row \<Rightarrow> bool" where
  "lapsed now r \<longleftrightarrow> (case sr_pending r of Some t \<Rightarrow> t < now | None \<Rightarrow> False)"

definition takeFree :: "int \<Rightarrow> int option \<Rightarrow> seat_db \<Rightarrow> (seat_error + nat) \<times> seat_db" where
  "takeFree now purchased db = (case purchased of None \<Rightarrow> (Inl SeatsUnknown, db)
     | Some p \<Rightarrow> (let db1 = db\<lparr>sd_rows := sql_delete (lapsed now) (sd_rows db)\<rparr>; (used, held) = seatCounts now (sd_rows db1) in
         if p - int used - int held < 1 then (Inl NoFreeSeats, db1) else (Inr (freeSeatNumber now (sd_rows db1)), db1)))"

definition insert_row :: "nat \<Rightarrow> string option \<Rightarrow> string \<Rightarrow> int \<Rightarrow> int option \<Rightarrow> seat_db \<Rightarrow> seat_db" where
  "insert_row seat account email now pending db =
     db\<lparr>sd_rows := sd_rows db @ [\<lparr>sr_id = sd_next db, sr_seat = seat, sr_account = account, sr_email = email, sr_assigned = now, sr_released = None,
       sr_reason = None, sr_free_from = None, sr_pending = pending\<rparr>], sd_next := Suc (sd_next db)\<rparr>"

definition reserveSeat :: "int \<Rightarrow> int option \<Rightarrow> string \<Rightarrow> seat_db \<Rightarrow> (seat_error + nat \<times> nat) \<times> seat_db" where
  "reserveSeat now purchased email db = (case takeFree now purchased db of
     (Inl e, db1) \<Rightarrow> (Inl e, db1)
   | (Inr seat, db1) \<Rightarrow> (Inr (sd_next db1, seat), insert_row seat None (js_lower email) now (Some (now + PENDING_MINUTES * 60000)) db1))"

definition confirmSeat :: "nat \<Rightarrow> string \<Rightarrow> seat_db \<Rightarrow> bool \<times> seat_db" where
  "confirmSeat aid account db = (let p = (\<lambda>r. sr_id r = aid \<and> sr_pending r \<noteq> None); f = (\<lambda>r. r\<lparr>sr_account := Some account, sr_pending := None\<rparr>) in
     (length (sql_returning p f (sd_rows db)) = 1, db\<lparr>sd_rows := sql_update p f (sd_rows db)\<rparr>))"

definition dropPendingSeat :: "nat option \<Rightarrow> seat_db \<Rightarrow> seat_db" where
  "dropPendingSeat aid db = (case aid of None \<Rightarrow> db
     | Some i \<Rightarrow> db\<lparr>sd_rows := sql_delete (\<lambda>r. sr_id r = i \<and> sr_pending r \<noteq> None) (sd_rows db)\<rparr>)"

definition releaseSeat :: "int \<Rightarrow> string \<Rightarrow> string \<Rightarrow> int \<Rightarrow> seat_db \<Rightarrow> (nat \<times> int) option \<times> seat_db" where
  "releaseSeat now account reason holdDays db = (let p = (\<lambda>r. sr_account r = Some account \<and> sr_released r = None);
       f = (\<lambda>r. r\<lparr>sr_released := Some now, sr_reason := Some reason, sr_free_from := Some (now + days_ms holdDays)\<rparr>) in
     (map_option (\<lambda>r. (sr_seat r, now + days_ms holdDays)) (first_row (sql_returning p f (sd_rows db))), db\<lparr>sd_rows := sql_update p f (sd_rows db)\<rparr>))"

definition own_held :: "int \<Rightarrow> string \<Rightarrow> seat_row list \<Rightarrow> seat_row option" where
  "own_held now account rows = first_row (filter (\<lambda>r. sr_account r = Some account \<and> on_hold now r) (latest rows))"

definition returnSeat :: "int \<Rightarrow> string \<Rightarrow> string \<Rightarrow> int option \<Rightarrow> seat_db \<Rightarrow> (seat_error + nat \<times> bool) \<times> seat_db" where
  "returnSeat now account email purchased db = (case own_held now account (sd_rows db) of
     Some own \<Rightarrow> (Inr (sr_seat own, True), db\<lparr>sd_rows := sql_update (\<lambda>r. sr_id r = sr_id own)
         (\<lambda>r. r\<lparr>sr_released := None, sr_reason := None, sr_free_from := None\<rparr>) (sd_rows db)\<rparr>)
   | None \<Rightarrow> (case takeFree now purchased db of
         (Inl e, db1) \<Rightarrow> (Inl e, db1)
       | (Inr seat, db1) \<Rightarrow> (Inr (seat, False), insert_row seat (Some account) (js_lower email) now None db1)))"

definition seatAvailableFor :: "int \<Rightarrow> string \<Rightarrow> int option \<Rightarrow> seat_db \<Rightarrow> seat_error option" where
  "seatAvailableFor now account purchased db = (if own_held now account (sd_rows db) \<noteq> None then None
     else case purchased of None \<Rightarrow> Some SeatsUnknown
       | Some p \<Rightarrow> (case seatCounts now (sd_rows db) of (used, held) \<Rightarrow> if p - int used - int held < 1 then Some NoFreeSeats else None))"

section \<open>The hold period\<close>

text \<open>\<open>parseWholeNumber(value, 0, MAX_HOLD_DAYS)\<close> of a value that is a number.\<close>

definition parseHoldDays :: "int option \<Rightarrow> int option" where
  "parseHoldDays v = (case v of Some n \<Rightarrow> if 0 \<le> n \<and> n \<le> MAX_HOLD_DAYS then Some n else None | None \<Rightarrow> None)"

definition getHoldDays :: "seat_db \<Rightarrow> int" where
  "getHoldDays db = (case parseHoldDays (sd_hold db) of Some n \<Rightarrow> n | None \<Rightarrow> DEFAULT_HOLD_DAYS)"

definition redate :: "int \<Rightarrow> seat_row \<Rightarrow> seat_row" where
  "redate days r = r\<lparr>sr_free_from := map_option (\<lambda>t. t + days_ms days) (sr_released r)\<rparr>"

definition setHoldDays :: "int \<Rightarrow> seat_db \<Rightarrow> (int \<times> int) \<times> seat_db" where
  "setHoldDays days db = ((getHoldDays db, days), db\<lparr>sd_hold := Some days,
     sd_rows := sql_update (\<lambda>r. is_latest (sd_rows db) r \<and> sr_released r \<noteq> None) (redate days) (sd_rows db)\<rparr>)"

section \<open>Requests for more seats\<close>

record seat_request =
  rq_id :: nat
  rq_seats :: int
  rq_purchased :: "int option"
  rq_requested :: int
  rq_closed :: "int option"

text \<open>\<open>requestThresholds\<close>: the requests in the order they were made, with those before and their numbers.\<close>

definition threshold_base :: "seat_request \<Rightarrow> (int \<times> int option) list \<Rightarrow> int" where
  "threshold_base q earlier = fold (\<lambda>(th, closed) mx. if closed = None \<or> the closed > rq_requested q then max mx th else mx) earlier
     (case rq_purchased q of Some n \<Rightarrow> n | None \<Rightarrow> 0)"

fun thresholds :: "(int \<times> int option) list \<Rightarrow> seat_request list \<Rightarrow> (nat \<times> int) list" where
  "thresholds earlier [] = []"
| "thresholds earlier (q # qs) = (let th = threshold_base q earlier + rq_seats q in (rq_id q, th) # thresholds (earlier @ [(th, rq_closed q)]) qs)"

definition requestThresholds :: "seat_request list \<Rightarrow> nat \<rightharpoonup> int" where
  "requestThresholds qs = map_of (rev (thresholds [] qs))"

definition in_order :: "seat_request list \<Rightarrow> seat_request list" where
  "in_order qs = sort_key (\<lambda>q. (rq_requested q, rq_id q)) qs"

definition due_requests :: "int \<Rightarrow> seat_request list \<Rightarrow> nat list" where
  "due_requests p qs = map rq_id (filter (\<lambda>q. rq_closed q = None \<and> (case requestThresholds qs (rq_id q) of Some th \<Rightarrow> p \<ge> th | None \<Rightarrow> False)) qs)"

definition closeFulfilledRequests :: "int \<Rightarrow> int option \<Rightarrow> seat_request list \<Rightarrow> nat list \<times> seat_request list" where
  "closeFulfilledRequests now purchased table = (case purchased of None \<Rightarrow> ([], table)
     | Some p \<Rightarrow> (let due = due_requests p (in_order table) in
         (due, sql_update (\<lambda>q. rq_id q \<in> set due \<and> rq_closed q = None) (\<lambda>q. q\<lparr>rq_closed := Some now\<rparr>) table)))"

text \<open>A request is kept with the purchased number of the moment; \<open>seats\<close> is a number from 1 to the most.\<close>

definition requestSeats :: "nat \<Rightarrow> int \<Rightarrow> int option \<Rightarrow> int option \<Rightarrow> seat_request list \<Rightarrow> nat option \<times> seat_request list" where
  "requestSeats rid now seats purchased table = (case seats of None \<Rightarrow> (None, table)
     | Some n \<Rightarrow> if n < 1 \<or> n > MAX_SEAT_REQUEST then (None, table)
         else (Some rid, table @ [\<lparr>rq_id = rid, rq_seats = n, rq_purchased = purchased, rq_requested = now, rq_closed = None\<rparr>]))"

definition openSeatRequests :: "seat_request list \<Rightarrow> seat_request list" where
  "openSeatRequests table = filter (\<lambda>q. rq_closed q = None) (in_order table)"

text \<open>What the screens and the alerts get: the free seats, unknown while the purchased number is, and whether more are used than bought.\<close>

record seats_view =
  vw_supply :: seat_supply
  vw_used :: nat
  vw_held :: nat
  vw_free :: "int option"
  vw_over :: bool
  vw_held_seats :: "seat_row list"
  vw_requests :: "seat_request list"
  vw_hold_days :: int

definition getSeats :: "int \<Rightarrow> seat_supply \<Rightarrow> seat_request list \<Rightarrow> seat_db \<Rightarrow> seats_view" where
  "getSeats now supply requests db = (case seatCounts now (sd_rows db) of (used, held) \<Rightarrow>
     \<lparr>vw_supply = supply, vw_used = used, vw_held = held,
      vw_free = map_option (\<lambda>p. max 0 (p - int used - int held)) (su_purchased supply),
      vw_over = (case su_purchased supply of Some p \<Rightarrow> p < int used | None \<Rightarrow> False),
      vw_held_seats = heldSeats now (sd_rows db), vw_requests = openSeatRequests requests, vw_hold_days = getHoldDays db\<rparr>)"

end
