(* ===== verification/EopProperties.thy ===== *)
theory EopProperties
  imports EopSeats
begin

text \<open>
  What the ledger of EOP seats keeps in every order of its transactions: a seat passes to another mailbox only
  after its hold, the seats in use and on hold stay within the purchased number they were taken under, and
  one purchase closes no more requests than it covers.
\<close>

section \<open>The latest rows\<close>

definition rows_wf :: "seat_db \<Rightarrow> bool" where
  "rows_wf db \<longleftrightarrow> distinct (map sr_id (sd_rows db)) \<and> (\<forall>r\<in>set (sd_rows db). sr_id r < sd_next db)"

lemma is_latest_iff: "is_latest rows r \<longleftrightarrow> (\<forall>x\<in>set rows. sr_seat x = sr_seat r \<longrightarrow> sr_id x \<le> sr_id r)"
  by (simp add: is_latest_def list_all_iff)

lemma set_latest: "r \<in> set (latest rows) \<longleftrightarrow> r \<in> set rows \<and> is_latest rows r"
  by (auto simp: latest_def)

lemma same_row_id: "distinct (map sr_id rows) \<Longrightarrow> r \<in> set rows \<Longrightarrow> x \<in> set rows \<Longrightarrow> sr_id r = sr_id x \<Longrightarrow> r = x"
  by (meson distinct_map inj_onD)

lemma latest_unique: "distinct (map sr_id rows) \<Longrightarrow> r \<in> set (latest rows) \<Longrightarrow> x \<in> set (latest rows) \<Longrightarrow> sr_seat r = sr_seat x \<Longrightarrow> r = x"
  by (rule same_row_id [of rows]) (auto simp: set_latest is_latest_iff intro: antisym)

lemma distinct_latest: "distinct (map sr_id rows) \<Longrightarrow> distinct (map sr_seat (latest rows))"
  using latest_unique [of rows] distinct_map [of sr_id rows] by (auto simp: distinct_map latest_def inj_on_def)

text \<open>The seats that are not free, as a set.\<close>

definition taken :: "int \<Rightarrow> seat_row list \<Rightarrow> nat set" where
  "taken now rows = sr_seat ` {r \<in> set (latest rows). occupied now r}"

lemma finite_taken_seats: "finite (taken now rows)"
  by (simp add: taken_def)

lemma card_taken: "distinct (map sr_id rows) \<Longrightarrow> card (taken now rows) = length (filter (occupied now) (latest rows))"
proof -
  assume d: "distinct (map sr_id rows)"
  have "taken now rows = set (map sr_seat (filter (occupied now) (latest rows)))" by (auto simp: taken_def)
  moreover have "distinct (map sr_seat (filter (occupied now) (latest rows)))" using distinct_latest [OF d] by (rule distinct_map_filter)
  ultimately show ?thesis using distinct_card by fastforce
qed

lemma filter_fewer: "(\<And>x. P x \<Longrightarrow> Q x) \<Longrightarrow> length (filter P xs) \<le> length (filter Q xs)"
  by (induction xs) (auto simp: le_Suc_eq)

text \<open>
  The reservations that end at \<open>t\<close> to the millisecond: their rows are no longer counted and not yet deleted, so a take at
  that moment does not see them.
\<close>

definition ends_at :: "int \<Rightarrow> seat_db \<Rightarrow> nat" where
  "ends_at t db = length (filter (\<lambda>r. sr_pending r = Some t) (sd_rows db))"

lemma counted_taken:
  assumes "distinct (map sr_id rows)" and "\<And>r. r \<in> set rows \<Longrightarrow> \<not> lapsed now r"
    and "seatCounts now rows = (u, h)"
  shows "card (taken now rows) \<le> u + h + length (filter (\<lambda>r. sr_pending r = Some now) rows)"
proof -
  let ?edge = "\<lambda>r. sr_pending r = Some now"
  have "length (filter (occupied now) xs) \<le> length (filter (counts_used now) xs) + length (filter (on_hold now) xs) + length (filter ?edge xs)"
    if "\<forall>x\<in>set xs. \<not> lapsed now x" for xs
    using that by (induction xs) (auto simp: occupied_def counts_used_def on_hold_def lapsed_def after_now_def split: option.splits)
  moreover have "\<forall>x\<in>set (latest rows). \<not> lapsed now x" using assms(2) by (simp add: set_latest)
  moreover have "length (filter ?edge (latest rows)) \<le> length (filter ?edge rows)"
    unfolding latest_def filter_sort length_sort filter_filter by (rule filter_fewer) simp
  ultimately show ?thesis using assms(3) unfolding card_taken [OF assms(1)] seatCounts_def by fastforce
qed

lemma ends_at_delete: "length (filter (\<lambda>r. sr_pending r = Some t) (sql_delete p (sd_rows db))) \<le> ends_at t db"
  unfolding ends_at_def sql_delete_def filter_filter by (rule filter_fewer) simp

section \<open>A well-formed ledger\<close>

text \<open>\<open>x\<close> is the row of a seat that follows \<open>r\<close>.\<close>

definition follows :: "seat_row list \<Rightarrow> seat_row \<Rightarrow> seat_row \<Rightarrow> bool" where
  "follows rows r x \<longleftrightarrow> r \<in> set rows \<and> x \<in> set rows \<and> sr_seat x = sr_seat r \<and> sr_id r < sr_id x
     \<and> (\<forall>y\<in>set rows. sr_seat y = sr_seat r \<longrightarrow> sr_id r < sr_id y \<longrightarrow> sr_id x \<le> sr_id y)"

definition row_ok :: "int \<Rightarrow> seat_row \<Rightarrow> bool" where
  "row_ok now r \<longleftrightarrow> sr_assigned r \<le> now \<and> (sr_pending r \<noteq> None \<longrightarrow> sr_released r = None \<and> sr_account r = None) \<and> (sr_released r \<noteq> None \<longrightarrow> sr_free_from r \<noteq> None)
     \<and> (sr_released r = None \<longrightarrow> sr_free_from r = None)"

definition let_go :: "seat_row \<Rightarrow> seat_row \<Rightarrow> bool" where
  "let_go r x \<longleftrightarrow> sr_released r \<noteq> None \<and> (case sr_free_from r of Some f \<Rightarrow> f \<le> sr_assigned x | None \<Rightarrow> False)"

definition ledger_ok :: "int \<Rightarrow> seat_db \<Rightarrow> bool" where
  "ledger_ok now db \<longleftrightarrow> rows_wf db \<and> (\<forall>r\<in>set (sd_rows db). row_ok now r \<and> (sr_released r = None \<longrightarrow> is_latest (sd_rows db) r))
     \<and> (\<forall>r x. follows (sd_rows db) r x \<longrightarrow> let_go r x)"

lemma ledger_okD:
  assumes "ledger_ok now db"
  shows "distinct (map sr_id (sd_rows db))" "r \<in> set (sd_rows db) \<Longrightarrow> row_ok now r" "r \<in> set (sd_rows db) \<Longrightarrow> sr_released r = None \<Longrightarrow> is_latest (sd_rows db) r"
    "follows (sd_rows db) r x \<Longrightarrow> let_go r x" "r \<in> set (sd_rows db) \<Longrightarrow> sr_id r < sd_next db"
  using assms by (auto simp: ledger_ok_def rows_wf_def)

lemma follows_latest: "follows rows r x \<Longrightarrow> \<not> is_latest rows r"
  by (auto simp: follows_def is_latest_iff)

lemma follows_exists:
  assumes "r \<in> set rows" and "\<not> is_latest rows r"
  shows "\<exists>x. follows rows r x"
proof -
  let ?P = "\<lambda>x. x \<in> set rows \<and> sr_seat x = sr_seat r \<and> sr_id r < sr_id x"
  have "\<exists>x. ?P x" using assms by (auto simp: is_latest_iff not_le)
  then obtain x where "?P x \<and> (\<forall>y. ?P y \<longrightarrow> sr_id x \<le> sr_id y)" using ex_has_least_nat [of ?P _ sr_id] by blast
  then show ?thesis using assms(1) unfolding follows_def by blast
qed

text \<open>The rows a mailbox has now may change, as long as they keep their seat, their id and when they began.\<close>

lemma ledger_update:
  assumes "ledger_ok now db" and f: "\<And>r. sr_id (f r) = sr_id r" "\<And>r. sr_seat (f r) = sr_seat r" "\<And>r. sr_assigned (f r) = sr_assigned r"
    and p: "\<And>r. r \<in> set (sd_rows db) \<Longrightarrow> p r \<Longrightarrow> is_latest (sd_rows db) r \<and> row_ok now (f r)"
  shows "ledger_ok now (db\<lparr>sd_rows := sql_update p f (sd_rows db)\<rparr>)"
proof -
  let ?g = "\<lambda>r. if p r then f r else r"
  have g: "sr_id (?g r) = sr_id r" "sr_seat (?g r) = sr_seat r" "sr_assigned (?g r) = sr_assigned r" for r by (simp_all add: f)
  have s: "set (sql_update p f (sd_rows db)) = ?g ` set (sd_rows db)" by (simp add: sql_update_def)
  have l: "is_latest (sql_update p f (sd_rows db)) (?g r) = is_latest (sd_rows db) r" for r unfolding is_latest_iff s by (simp only: ball_simps g)
  have "let_go r' x'" if fo: "follows (sql_update p f (sd_rows db)) r' x'" for r' x'
  proof -
    from fo obtain r x where r: "r \<in> set (sd_rows db)" "r' = ?g r" and x: "x \<in> set (sd_rows db)" "x' = ?g x" unfolding follows_def s by blast
    have "follows (sd_rows db) r x" using fo r x unfolding follows_def s by (simp only: ball_simps g) blast
    moreover from this have "r' = r" using follows_latest p r by auto
    ultimately show ?thesis using ledger_okD(4) [OF assms(1)] x(2) g(3) [of x] unfolding let_go_def by metis
  qed
  moreover have "row_ok now (?g r) \<and> (sr_released (?g r) = None \<longrightarrow> is_latest (sd_rows db) r)" if "r \<in> set (sd_rows db)" for r
    using ledger_okD(2,3) [OF assms(1) that] p [OF that] by simp
  moreover have "rows_wf (db\<lparr>sd_rows := sql_update p f (sd_rows db)\<rparr>)"
    using assms(1) distinct_update [of sr_id f p "sd_rows db", OF f(1)] f(1) by (auto simp: ledger_ok_def rows_wf_def sql_update_def)
  ultimately have "\<forall>r\<in>set (sd_rows db). row_ok now (?g r) \<and> (sr_released (?g r) = None \<longrightarrow> is_latest (sql_update p f (sd_rows db)) (?g r))"
    and "rows_wf (db\<lparr>sd_rows := sql_update p f (sd_rows db)\<rparr>)" and "\<forall>r x. follows (sql_update p f (sd_rows db)) r x \<longrightarrow> let_go r x"
    using l by blast+
  moreover have "sd_rows (db\<lparr>sd_rows := q\<rparr>) = q" for q by simp
  ultimately show ?thesis unfolding ledger_ok_def by (simp only: s ball_simps)
qed

text \<open>Rows that are not released may go: they are the latest of their seat.\<close>

lemma ledger_delete:
  assumes "ledger_ok now db" and p: "\<And>r. r \<in> set (sd_rows db) \<Longrightarrow> p r \<Longrightarrow> sr_released r = None"
  shows "ledger_ok now (db\<lparr>sd_rows := sql_delete p (sd_rows db)\<rparr>)" "taken now (sql_delete p (sd_rows db)) \<subseteq> taken now (sd_rows db)"
proof -
  let ?rows = "sd_rows db"
  have s: "set (sql_delete p ?rows) = {r \<in> set ?rows. \<not> p r}" by (simp add: sql_delete_def)
  have gone: "is_latest ?rows y" if "y \<in> set ?rows" "p y" for y using ledger_okD(3) [OF assms(1) that(1) p [OF that]] .
  have "follows ?rows r x" if "follows (sql_delete p ?rows) r x" for r x
    using that gone unfolding follows_def s is_latest_iff by (metis (mono_tags, lifting) mem_Collect_eq not_le)
  then have "let_go r x" if "follows (sql_delete p ?rows) r x" for r x using that ledger_okD(4) [OF assms(1)] by blast
  moreover have "rows_wf (db\<lparr>sd_rows := sql_delete p ?rows\<rparr>)" using assms(1) distinct_delete [of sr_id ?rows p] by (auto simp: ledger_ok_def rows_wf_def s)
  moreover have "is_latest ?rows r \<Longrightarrow> is_latest (sql_delete p ?rows) r" for r by (auto simp: is_latest_iff s)
  ultimately show "ledger_ok now (db\<lparr>sd_rows := sql_delete p ?rows\<rparr>)" using assms(1) by (auto simp: ledger_ok_def s)
  show "taken now (sql_delete p ?rows) \<subseteq> taken now ?rows"
  proof
    fix n
    assume "n \<in> taken now (sql_delete p ?rows)"
    then obtain r where r: "r \<in> set ?rows" "occupied now r" "n = sr_seat r" by (auto simp: taken_def set_latest s)
    have "is_latest ?rows r"
    proof (rule ccontr)
      assume "\<not> is_latest ?rows r"
      then obtain x where x: "follows ?rows r x" using follows_exists r(1) by blast
      then have "sr_assigned x \<le> now" using ledger_okD(2) [OF assms(1)] by (auto simp: follows_def row_ok_def)
      then show False using ledger_okD(4) [OF assms(1) x] r(2) by (auto simp: let_go_def occupied_def after_now_def split: option.splits)
    qed
    then show "n \<in> taken now ?rows" using r by (auto simp: taken_def set_latest)
  qed
qed

text \<open>A new row of a seat that is free.\<close>

lemma ledger_insert:
  assumes "ledger_ok now db" and "t \<le> now" and "n \<notin> taken t (sd_rows db)" and "pending \<noteq> None \<Longrightarrow> account = None"
  shows "ledger_ok now (insert_row n account email t pending db)"
    "taken now (sd_rows (insert_row n account email t pending db)) \<subseteq> insert n (taken now (sd_rows db))"
proof -
  let ?x = "\<lparr>sr_id = sd_next db, sr_seat = n, sr_account = account, sr_email = email, sr_assigned = t, sr_released = None, sr_reason = None,
     sr_free_from = None, sr_pending = pending\<rparr>" and ?rows = "sd_rows db"
  let ?new = "?rows @ [?x]"
  have id: "sr_id r < sd_next db" if "r \<in> set ?rows" for r using ledger_okD(5) [OF assms(1) that] .
  have old: "is_latest ?new r \<longleftrightarrow> is_latest ?rows r \<and> sr_seat r \<noteq> n" if "r \<in> set ?rows" for r
    using id [OF that] by (auto simp: is_latest_iff)
  have new: "is_latest ?new ?x" using id by (auto simp: is_latest_iff intro: less_imp_le)
  have "let_go r x" if f: "follows ?new r x" for r x
  proof (cases "x = ?x")
    case True
    then have r: "r \<in> set ?rows" "sr_seat r = n" using f by (cases "r = ?x"; simp add: follows_def)+
    have "sr_id y \<le> sr_id r" if "y \<in> set ?rows" "sr_seat y = n" for y
      using f r that True id [OF that(1)] unfolding follows_def by (auto simp: not_less [symmetric])
    then have "is_latest ?rows r" using r by (simp add: is_latest_iff)
    then have "\<not> occupied t r" using assms(3) r by (auto simp: taken_def set_latest)
    moreover have "row_ok now r" using ledger_okD(2) [OF assms(1) r(1)] .
    ultimately show ?thesis using True by (auto simp: occupied_def after_now_def let_go_def row_ok_def split: option.splits)
  next
    case False
    then have "follows ?rows r x" using f id unfolding follows_def by fastforce
    then show ?thesis using ledger_okD(4) [OF assms(1)] by blast
  qed
  moreover have "is_latest ?new r" if "r \<in> set ?rows" "sr_released r = None" for r
  proof -
    have l: "is_latest ?rows r" using ledger_okD(3) [OF assms(1) that] .
    then have "sr_seat r \<in> taken t ?rows" using that by (auto simp: taken_def set_latest occupied_def)
    then show ?thesis using l old that(1) assms(3) by auto
  qed
  moreover have "rows_wf (db\<lparr>sd_rows := ?new, sd_next := Suc (sd_next db)\<rparr>)"
    using assms(1) id by (fastforce simp: ledger_ok_def rows_wf_def less_Suc_eq)
  ultimately show "ledger_ok now (insert_row n account email t pending db)"
    using ledger_okD(2) [OF assms(1)] new assms(2,4) unfolding ledger_ok_def insert_row_def by (auto simp: row_ok_def)
  show "taken now (sd_rows (insert_row n account email t pending db)) \<subseteq> insert n (taken now ?rows)"
    using old by (auto simp: insert_row_def taken_def set_latest)
qed

lemma free_number: "freeSeatNumber now rows \<notin> taken now rows \<and> 1 \<le> freeSeatNumber now rows"
proof -
  let ?taken = "map sr_seat (filter (occupied now) (latest rows))" and ?m = "Max (insert 0 (sr_seat ` set rows))"
  have t: "set ?taken = taken now rows" by (auto simp: taken_def)
  have "taken now rows \<subseteq> sr_seat ` set rows" by (auto simp: taken_def set_latest)
  then have "Suc ?m \<notin> taken now rows" using Max_ge [of "insert 0 (sr_seat ` set rows)" "Suc ?m"] by (meson List.finite_set finite_imageI finite_insert insertI2 not_less_eq_eq order_refl subsetD)
  then have "Suc ?m \<in> set (filter (\<lambda>n. n \<notin> set ?taken) [1..<?m + 2])" unfolding t by simp
  then have "hd (filter (\<lambda>n. n \<notin> set ?taken) [1..<?m + 2]) \<in> set (filter (\<lambda>n. n \<notin> set ?taken) [1..<?m + 2])"
    by (intro hd_in_set) auto
  then have "freeSeatNumber now rows \<in> set (filter (\<lambda>n. n \<notin> set ?taken) [1..<?m + 2])" by (simp only: freeSeatNumber_def Let_def)
  then show ?thesis unfolding t by (simp only: set_filter mem_Collect_eq set_upt atLeastLessThan_iff simp_thms not_False_eq_True)
qed

lemma taken_later: "t \<le> now \<Longrightarrow> taken now rows \<subseteq> taken t rows"
  by (auto simp: taken_def occupied_def after_now_def split: option.splits)

text \<open>A take: a seat is handed out only when the seats in use and on hold leave room, and then one more is taken.\<close>

lemma take_free:
  assumes "ledger_ok now db" and "t \<le> now" and "takeFree t p db = (res, db1)"
  shows "ledger_ok now db1 \<and> taken now (sd_rows db1) \<subseteq> taken now (sd_rows db)"
    "res = Inr n \<Longrightarrow> n \<notin> taken t (sd_rows db1) \<and> int (card (taken t (sd_rows db1))) < the p + int (ends_at t db)"
proof -
  have gone: "sr_released r = None" if "r \<in> set (sd_rows db)" "lapsed t r" for r
    using ledger_okD(2) [OF assms(1) that(1)] that(2) by (auto simp: row_ok_def lapsed_def split: option.splits)
  let ?db1 = "db\<lparr>sd_rows := sql_delete (lapsed t) (sd_rows db)\<rparr>"
  have k: "ledger_ok now ?db1" "taken now (sd_rows ?db1) \<subseteq> taken now (sd_rows db)"
    using ledger_delete [OF assms(1), of "lapsed t"] gone by auto
  have "db1 = ?db1 \<or> db1 = db" using assms(3) by (auto simp: takeFree_def Let_def split: option.splits prod.splits if_splits)
  then show "ledger_ok now db1 \<and> taken now (sd_rows db1) \<subseteq> taken now (sd_rows db)" using k assms(1) by auto
  assume r: "res = Inr n"
  obtain u h where c: "seatCounts t (sd_rows ?db1) = (u, h)" by fastforce
  have "card (taken t (sd_rows ?db1)) \<le> u + h + ends_at t db"
    using counted_taken [OF ledger_okD(1) [OF k(1)] _ c] ends_at_delete [of t "lapsed t" db] by (fastforce simp: sql_delete_def)
  moreover have "db1 = ?db1" "n = freeSeatNumber t (sd_rows ?db1)" "int u + int h < the p"
    using assms(3) r c by (auto simp: takeFree_def Let_def split: option.splits if_splits)
  ultimately show "n \<notin> taken t (sd_rows db1) \<and> int (card (taken t (sd_rows db1))) < the p + int (ends_at t db)" using free_number [of t "sd_rows ?db1"] by simp
qed

lemma take_insert:
  assumes "ledger_ok now db" and "t \<le> now" and "takeFree t p db = (Inr n, db1)"
    and "pending \<noteq> None \<Longrightarrow> account = None"
  shows "ledger_ok now (insert_row n account email t pending db1) \<and> int (card (taken now (sd_rows (insert_row n account email t pending db1)))) \<le> the p + int (ends_at t db)"
proof -
  note f = take_free [OF assms(1-3)]
  have l: "ledger_ok now db1" and n: "n \<notin> taken t (sd_rows db1)" and c: "int (card (taken t (sd_rows db1))) < the p + int (ends_at t db)" using f(1) f(2) [OF refl] by auto
  note i = ledger_insert [OF l assms(2) n assms(4), where email = email]
  have "card (taken now (sd_rows (insert_row n account email t pending db1))) \<le> card (insert n (taken t (sd_rows db1)))"
    by (rule card_mono) (use i(2) taken_later [OF assms(2), of "sd_rows db1"] finite_taken_seats in auto)
  also have "\<dots> \<le> Suc (card (taken t (sd_rows db1)))" by (simp add: finite_taken_seats card_insert_if)
  finally show ?thesis using i(1) c by simp
qed

section \<open>Transactions in any order\<close>

text \<open>
  The ledger and the time. \<open>ew_high\<close> is the largest purchased number under which a seat was handed out (at first no
  fewer than the seats taken), \<open>ew_revived\<close> counts the seats that count again: because the hold period was made longer, or because a
  mailbox took its own seat back whose hold ran out while the transaction waited for the lock. \<open>ew_edge\<close> counts the reservations that
  ended at the very moment for which a seat was handed out.
\<close>

record seat_world =
  ew_db :: seat_db
  ew_now :: int
  ew_high :: int
  ew_revived :: nat
  ew_edge :: nat

definition revived :: "seat_world \<Rightarrow> seat_db \<Rightarrow> nat" where
  "revived s db = card (taken (ew_now s) (sd_rows db) - taken (ew_now s) (sd_rows (ew_db s)))"

definition taken_under :: "int option \<Rightarrow> int \<Rightarrow> seat_world \<Rightarrow> seat_world" where
  "taken_under p t s = s\<lparr>ew_high := max (ew_high s) (the p), ew_edge := ew_edge s + ends_at t (ew_db s)\<rparr>"

text \<open>A transaction began at \<open>t\<close>, not after now, and has the lock now: a take that fails and one that gives a seat, and a return
  of the mailbox's own seat or of another.\<close>

inductive seat_steps :: "seat_world \<Rightarrow> bool" where
  start: "ledger_ok (ew_now s) (ew_db s) \<Longrightarrow> int (card (taken (ew_now s) (sd_rows (ew_db s)))) \<le> ew_high s \<Longrightarrow> seat_steps s"
| later: "seat_steps s \<Longrightarrow> 0 \<le> d \<Longrightarrow> seat_steps (s\<lparr>ew_now := ew_now s + d\<rparr>)"
| refused: "seat_steps s \<Longrightarrow> t \<le> ew_now s \<Longrightarrow> reserveSeat t p email (ew_db s) = (Inl e, db) \<Longrightarrow> seat_steps (s\<lparr>ew_db := db\<rparr>)"
| reserve: "seat_steps s \<Longrightarrow> t \<le> ew_now s \<Longrightarrow> reserveSeat t p email (ew_db s) = (Inr res, db) \<Longrightarrow> seat_steps ((taken_under p t s)\<lparr>ew_db := db\<rparr>)"
| confirm: "seat_steps s \<Longrightarrow> seat_steps (s\<lparr>ew_db := snd (confirmSeat aid account (ew_db s))\<rparr>)"
| drop: "seat_steps s \<Longrightarrow> seat_steps (s\<lparr>ew_db := dropPendingSeat i (ew_db s)\<rparr>)"
| release: "seat_steps s \<Longrightarrow> t \<le> ew_now s \<Longrightarrow> seat_steps (s\<lparr>ew_db := snd (releaseSeat t account reason days (ew_db s))\<rparr>)"
| not_returned: "seat_steps s \<Longrightarrow> t \<le> ew_now s \<Longrightarrow> returnSeat t account email p (ew_db s) = (Inl e, db) \<Longrightarrow> seat_steps (s\<lparr>ew_db := db\<rparr>)"
| ret: "seat_steps s \<Longrightarrow> t \<le> ew_now s \<Longrightarrow> returnSeat t account email p (ew_db s) = (Inr (n, False), db) \<Longrightarrow> seat_steps ((taken_under p t s)\<lparr>ew_db := db\<rparr>)"
| own: "seat_steps s \<Longrightarrow> t \<le> ew_now s \<Longrightarrow> returnSeat t account email p (ew_db s) = (Inr (n, True), db)
    \<Longrightarrow> seat_steps (s\<lparr>ew_db := db, ew_revived := ew_revived s + revived s db\<rparr>)"
| hold: "seat_steps s \<Longrightarrow> setHoldDays days (ew_db s) = (res, db) \<Longrightarrow> seat_steps (s\<lparr>ew_db := db, ew_revived := ew_revived s + revived s db\<rparr>)"

definition seats_ok :: "seat_world \<Rightarrow> bool" where
  "seats_ok s \<longleftrightarrow> ledger_ok (ew_now s) (ew_db s)
     \<and> int (card (taken (ew_now s) (sd_rows (ew_db s)))) \<le> ew_high s + int (ew_revived s) + int (ew_edge s)"

lemma card_revived: "card (taken (ew_now s) (sd_rows db)) \<le> card (taken (ew_now s) (sd_rows (ew_db s))) + revived s db"
proof -
  let ?a = "taken (ew_now s) (sd_rows db)" and ?b = "taken (ew_now s) (sd_rows (ew_db s))"
  have "card ?a \<le> card (?b \<union> (?a - ?b))" by (rule card_mono) (auto simp: finite_taken_seats)
  also have "\<dots> \<le> card ?b + card (?a - ?b)" by (rule card_Un_le)
  finally show ?thesis by (simp add: revived_def)
qed

lemma fewer_seats: "ledger_ok now db1 \<Longrightarrow> taken now (sd_rows db1) \<subseteq> taken now (sd_rows db) \<Longrightarrow> ledger_ok now db1
    \<and> card (taken now (sd_rows db1)) \<le> card (taken now (sd_rows db))"
  by (simp add: card_mono finite_taken_seats)

lemma taken_update:
  assumes "\<And>r. sr_id (f r) = sr_id r" "\<And>r. sr_seat (f r) = sr_seat r" and "\<And>r. r \<in> set rows \<Longrightarrow> p r \<Longrightarrow> occupied now (f r) \<Longrightarrow> occupied now r"
  shows "taken now (sql_update p f rows) \<subseteq> taken now rows"
proof -
  let ?g = "\<lambda>r. if p r then f r else r"
  have g: "sr_id (?g r) = sr_id r" "sr_seat (?g r) = sr_seat r" for r by (simp_all add: assms(1,2))
  have s: "set (sql_update p f rows) = ?g ` set rows" by (simp add: sql_update_def)
  have l: "is_latest (sql_update p f rows) (?g r) = is_latest rows r" for r unfolding is_latest_iff s by (simp only: ball_simps g)
  show ?thesis
  proof
    fix n
    assume "n \<in> taken now (sql_update p f rows)"
    then obtain x where x: "x \<in> set (sql_update p f rows)" "is_latest (sql_update p f rows) x" "occupied now x" "n = sr_seat x"
      unfolding taken_def set_latest by blast
    then obtain r where r: "r \<in> set rows" "x = ?g r" unfolding s by blast
    then have "is_latest rows r" "n = sr_seat r" using x l g(2) by simp_all
    moreover have "occupied now r" using x(3) r assms(3) by (simp split: if_splits)
    ultimately show "n \<in> taken now rows" using r(1) unfolding taken_def set_latest by blast
  qed
qed

lemma live_update:
  assumes "ledger_ok now db" and "\<And>r. sr_id (f r) = sr_id r" "\<And>r. sr_seat (f r) = sr_seat r" "\<And>r. sr_assigned (f r) = sr_assigned r"
    and "\<And>r. r \<in> set (sd_rows db) \<Longrightarrow> p r \<Longrightarrow> sr_released r = None \<and> row_ok now (f r)"
  shows "ledger_ok now (db\<lparr>sd_rows := sql_update p f (sd_rows db)\<rparr>) \<and> taken now (sql_update p f (sd_rows db)) \<subseteq> taken now (sd_rows db)"
  using ledger_update [OF assms(1-4), of p] taken_update [OF assms(2,3), of "sd_rows db" p now] assms(5) ledger_okD(3) [OF assms(1)]
  by (simp add: occupied_def)

lemma confirm_ok: "ledger_ok now db \<Longrightarrow> ledger_ok now (snd (confirmSeat aid account db)) \<and> taken now (sd_rows (snd (confirmSeat aid account db))) \<subseteq> taken now (sd_rows db)"
  using live_update [of now db "\<lambda>r. r\<lparr>sr_account := Some account, sr_pending := None\<rparr>" "\<lambda>r. sr_id r = aid \<and> sr_pending r \<noteq> None"]
    ledger_okD(2) [of now db] by (simp add: confirmSeat_def Let_def row_ok_def)

lemma release_ok:
  assumes "ledger_ok now db"
  shows "ledger_ok now (snd (releaseSeat t account reason days db)) \<and> taken now (sd_rows (snd (releaseSeat t account reason days db))) \<subseteq> taken now (sd_rows db)"
proof -
  let ?f = "\<lambda>r. r\<lparr>sr_released := Some t, sr_reason := Some reason, sr_free_from := Some (t + days_ms days)\<rparr>"
  have "sr_released r = None \<and> row_ok now (?f r)" if "r \<in> set (sd_rows db)" "sr_account r = Some account \<and> sr_released r = None" for r
    using ledger_okD(2) [OF assms that(1)] that(2) by (cases "sr_pending r") (simp_all add: row_ok_def)
  from live_update [OF assms, of ?f, OF _ _ _ this] show ?thesis by (simp add: releaseSeat_def Let_def)
qed

lemma drop_ok: "ledger_ok now db \<Longrightarrow> ledger_ok now (dropPendingSeat i db) \<and> taken now (sd_rows (dropPendingSeat i db)) \<subseteq> taken now (sd_rows db)"
  using ledger_delete [of now db "\<lambda>r. sr_id r = the i \<and> sr_pending r \<noteq> None"] ledger_okD(2) [of now db]
  by (cases i) (simp_all add: dropPendingSeat_def row_ok_def)

lemma reclaim_ok:
  assumes "ledger_ok now db" and "own_held t account (sd_rows db) = Some own"
  shows "ledger_ok now (db\<lparr>sd_rows := sql_update (\<lambda>r. sr_id r = sr_id own) (\<lambda>r. r\<lparr>sr_released := None, sr_reason := None, sr_free_from := None\<rparr>) (sd_rows db)\<rparr>)"
proof (rule ledger_update [OF assms(1)])
  fix r
  assume r: "r \<in> set (sd_rows db)" "sr_id r = sr_id own"
  have o: "own \<in> set (latest (sd_rows db))" using assms(2) by (auto simp: own_held_def first_row_def dest!: filter_eq_ConsD split: list.splits)
  then have "r = own" using same_row_id [OF ledger_okD(1) [OF assms(1)] r(1)] r(2) set_latest by blast
  then show "is_latest (sd_rows db) r \<and> row_ok now (r\<lparr>sr_released := None, sr_reason := None, sr_free_from := None\<rparr>)"
    using o ledger_okD(2) [OF assms(1) r(1)] by (simp add: set_latest row_ok_def)
qed simp_all

lemma hold_ok: "ledger_ok now db \<Longrightarrow> setHoldDays days db = (res, db1) \<Longrightarrow> ledger_ok now db1"
  using ledger_update [of now "db\<lparr>sd_hold := Some days\<rparr>" "redate days" "\<lambda>r. is_latest (sd_rows db) r \<and> sr_released r \<noteq> None"] ledger_okD(2) [of now db]
  by (auto simp: setHoldDays_def redate_def row_ok_def ledger_ok_def rows_wf_def)

lemma reserve_cases:
  assumes "reserveSeat t p email db = (res, db1)"
  obtains e where "res = Inl e" "takeFree t p db = (Inl e, db1)"
  | n db2 where "res = Inr (sd_next db2, n)" "takeFree t p db = (Inr n, db2)"
      "db1 = insert_row n None (js_lower email) t (Some (t + PENDING_MINUTES * 60000)) db2"
  using assms by (auto simp: reserveSeat_def split: prod.splits sum.splits)

lemma return_cases:
  assumes "returnSeat t account email p db = (res, db1)"
  obtains e where "res = Inl e" "takeFree t p db = (Inl e, db1)"
  | n db2 where "res = Inr (n, False)" "takeFree t p db = (Inr n, db2)" "db1 = insert_row n (Some account) (js_lower email) t None db2"
  | own where "res = Inr (sr_seat own, True)" "own_held t account (sd_rows db) = Some own"
      "db1 = db\<lparr>sd_rows := sql_update (\<lambda>r. sr_id r = sr_id own) (\<lambda>r. r\<lparr>sr_released := None, sr_reason := None, sr_free_from := None\<rparr>) (sd_rows db)\<rparr>"
  using assms by (auto simp: returnSeat_def split: prod.splits sum.splits option.splits)

lemma ledger_later: "ledger_ok now db \<Longrightarrow> now \<le> now' \<Longrightarrow> ledger_ok now' db"
  by (fastforce simp: ledger_ok_def row_ok_def)

lemma seats_keep: "seats_ok s \<Longrightarrow> ledger_ok (ew_now s) db \<Longrightarrow> taken (ew_now s) (sd_rows db) \<subseteq> taken (ew_now s) (sd_rows (ew_db s)) \<Longrightarrow> seats_ok (s\<lparr>ew_db := db\<rparr>)"
  using fewer_seats [of "ew_now s" db "ew_db s"] by (auto simp: seats_ok_def)

lemma seats_taken:
  assumes "seats_ok s" and "t \<le> ew_now s" and "takeFree t p (ew_db s) = (Inr n, db1)" and "pending \<noteq> None \<Longrightarrow> account = None"
  shows "seats_ok ((taken_under p t s)\<lparr>ew_db := insert_row n account email t pending db1\<rparr>)"
proof -
  have "ledger_ok (ew_now s) (ew_db s)" using assms(1) by (simp add: seats_ok_def)
  from take_insert [OF this assms(2,3), of pending account email] assms(4)
  have k: "ledger_ok (ew_now s) (insert_row n account email t pending db1)"
    and c: "int (card (taken (ew_now s) (sd_rows (insert_row n account email t pending db1)))) \<le> the p + int (ends_at t (ew_db s))" by simp_all
  have "the p \<le> max (ew_high s) (the p)" by simp
  with c have "int (card (taken (ew_now s) (sd_rows (insert_row n account email t pending db1))))
      \<le> max (ew_high s) (the p) + int (ew_revived s) + (int (ew_edge s) + int (ends_at t (ew_db s)))" by linarith
  with k show ?thesis by (simp add: seats_ok_def taken_under_def)
qed

lemma seats_refused: "seats_ok s \<Longrightarrow> t \<le> ew_now s \<Longrightarrow> takeFree t p (ew_db s) = (Inl e, db) \<Longrightarrow> seats_ok (s\<lparr>ew_db := db\<rparr>)"
  using take_free(1) [of "ew_now s" "ew_db s" t p "Inl e" db] by (intro seats_keep) (simp_all add: seats_ok_def)

lemma seats_reachable: "seat_steps s \<Longrightarrow> seats_ok s"
proof (induction rule: seat_steps.induct)
  case (start s)
  then show ?case by (simp add: seats_ok_def)
next
  case (later s d)
  have "card (taken (ew_now s + d) (sd_rows (ew_db s))) \<le> card (taken (ew_now s) (sd_rows (ew_db s)))"
    by (rule card_mono) (use taken_later [of "ew_now s" "ew_now s + d"] later finite_taken_seats in auto)
  then show ?case using later ledger_later [of "ew_now s" "ew_db s" "ew_now s + d"] by (auto simp: seats_ok_def)
next
  case (refused s t p email e db)
  then show ?case by (auto elim!: reserve_cases intro: seats_refused)
next
  case (reserve s t p email res db)
  then show ?case by (auto elim!: reserve_cases intro!: seats_taken)
next
  case (confirm s aid account)
  then show ?case using confirm_ok [of "ew_now s" "ew_db s" aid account] by (intro seats_keep) (simp_all add: seats_ok_def)
next
  case (drop s i)
  then show ?case using drop_ok [of "ew_now s" "ew_db s" i] by (intro seats_keep) (simp_all add: seats_ok_def)
next
  case (release s t account reason days)
  then show ?case using release_ok [of "ew_now s" "ew_db s" t account reason days] by (intro seats_keep) (simp_all add: seats_ok_def)
next
  case (not_returned s t account email p e db)
  then show ?case by (auto elim!: return_cases intro: seats_refused)
next
  case (ret s t account email p n db)
  then show ?case by (auto elim!: return_cases intro!: seats_taken)
next
  case (own s t account email p n db)
  from own.hyps(3) obtain r where o: "own_held t account (sd_rows (ew_db s)) = Some r"
    "db = ew_db s\<lparr>sd_rows := sql_update (\<lambda>x. sr_id x = sr_id r) (\<lambda>r. r\<lparr>sr_released := None, sr_reason := None, sr_free_from := None\<rparr>) (sd_rows (ew_db s))\<rparr>"
    by (rule return_cases) simp_all
  then have "ledger_ok (ew_now s) db" using reclaim_ok [of "ew_now s" "ew_db s"] own.IH by (simp add: seats_ok_def)
  then show ?case using card_revived [of s db] own.IH by (auto simp: seats_ok_def)
next
  case (hold s days res db)
  then show ?case using hold_ok [of "ew_now s" "ew_db s" days res db] card_revived [of s db] by (auto simp: seats_ok_def)
qed

text \<open>C10: A seat passes on only after its hold: in every order of reservations, confirmations, releases, returns,
  clean-ups and changes of the hold period, the row that follows another of the same seat began when that one
  was released and its hold was over, and a seat has one holder at most.\<close>
theorem seats_pass_on_after_their_hold:
  assumes "seat_steps s" and "r \<in> set (sd_rows (ew_db s))" and "x \<in> set (sd_rows (ew_db s))" and "sr_seat x = sr_seat r" and "sr_id r < sr_id x"
  shows "sr_released r \<noteq> None \<and> (follows (sd_rows (ew_db s)) r x \<longrightarrow> (\<exists>f. sr_free_from r = Some f \<and> f \<le> sr_assigned x))"
proof -
  have l: "ledger_ok (ew_now s) (ew_db s)" using seats_reachable [OF assms(1)] by (simp add: seats_ok_def)
  have "sr_released r \<noteq> None" using ledger_okD(3) [OF l assms(2)] assms(3-5) unfolding is_latest_iff by (meson not_le)
  then show ?thesis using ledger_okD(4) [OF l, of r x] by (auto simp: let_go_def split: option.splits)
qed

text \<open>C9: No more seats are in use and on hold than were bought: in every order of the transactions, whenever they began, their
  number is at most the largest purchased number under which a seat was handed out, plus the seats that count again since the hold period was
  made longer or because a hold ran out while its mailbox waited to take the seat back, plus the
  reservations that ended at the very moment for which a seat was handed out: such a take does not see them.\<close>
theorem seats_within_purchase:
  assumes "seat_steps s" and "seatCounts (ew_now s) (sd_rows (ew_db s)) = (used, held)"
  shows "int used + int held \<le> ew_high s + int (ew_revived s) + int (ew_edge s)"
proof -
  let ?rows = "sd_rows (ew_db s)" and ?now = "ew_now s"
  have k: "distinct (map sr_id ?rows)" "int (card (taken ?now ?rows)) \<le> ew_high s + int (ew_revived s) + int (ew_edge s)"
    using seats_reachable [OF assms(1)] ledger_okD(1) by (auto simp: seats_ok_def)
  have "length (filter (counts_used ?now) xs) + length (filter (on_hold ?now) xs) \<le> length (filter (occupied ?now) xs)" for xs
    by (induction xs) (auto simp: counts_used_def on_hold_def occupied_def)
  from this [of "latest ?rows"] have "used + held \<le> card (taken ?now ?rows)" using assms(2) card_taken [OF k(1)] by (simp add: seatCounts_def)
  then show ?thesis using k(2) by linarith
qed

definition no_seats :: seat_db where
  "no_seats = \<lparr>sd_rows = [], sd_next = 1, sd_hold = None\<rparr>"

definition ex_seats :: seat_world where
  "ex_seats = \<lparr>ew_db = no_seats, ew_now = 0, ew_high = 0, ew_revived = 0, ew_edge = 0\<rparr>"

text \<open>A seat taken and confirmed, released without a hold, and taken by another mailbox.\<close>

definition ex_db1 :: seat_db where
  "ex_db1 = snd (reserveSeat 0 (Some 1) ''A@x'' no_seats)"

definition ex_db2 :: seat_db where
  "ex_db2 = snd (releaseSeat 0 ''a'' ''deactivated'' 0 (snd (confirmSeat 1 ''a'' ex_db1)))"

definition ex_db3 :: seat_db where
  "ex_db3 = snd (reserveSeat 0 (Some 1) ''b@x'' ex_db2)"

definition ex_seats3 :: seat_world where
  "ex_seats3 = \<lparr>ew_db = ex_db3, ew_now = 0, ew_high = 1, ew_revived = 0, ew_edge = 0\<rparr>"

lemma ex_seats_reached: "seat_steps ex_seats3"
proof -
  have s0: "seat_steps ex_seats" by (rule seat_steps.start) (simp_all add: ex_seats_def no_seats_def ledger_ok_def rows_wf_def follows_def taken_def latest_def)
  have r1: "reserveSeat 0 (Some 1) ''A@x'' no_seats = (Inr (1, 1), ex_db1)" "ends_at 0 no_seats = 0" by code_simp+
  have s1: "seat_steps (ex_seats\<lparr>ew_db := ex_db1, ew_high := 1\<rparr>)"
    using seat_steps.reserve [OF s0, of 0 "Some 1" "''A@x''" "(1, 1)" ex_db1] r1 by (simp add: ex_seats_def taken_under_def)
  have s2: "seat_steps (ex_seats\<lparr>ew_db := ex_db2, ew_high := 1\<rparr>)"
    using seat_steps.release [OF seat_steps.confirm [OF s1, of 1 "''a''"], of 0 "''a''" "''deactivated''" 0] by (simp add: ex_seats_def ex_db2_def)
  have r3: "reserveSeat 0 (Some 1) ''b@x'' ex_db2 = (Inr (2, 1), ex_db3)" "ends_at 0 ex_db2 = 0" by code_simp+
  show ?thesis
    using seat_steps.reserve [OF s2, of 0 "Some 1" "''b@x''" "(2, 1)" ex_db3] r3 by (simp add: ex_seats_def ex_seats3_def taken_under_def)
qed

definition ex_first :: seat_row where "ex_first = hd (sd_rows ex_db3)"
definition ex_second :: seat_row where "ex_second = last (sd_rows ex_db3)"

theorem seats_pass_on_after_their_hold_witness:
  "sr_account ex_first = Some ''a'' \<and> sr_email ex_second = ''b@x'' \<and> sr_seat ex_second = sr_seat ex_first \<and> sr_released ex_first \<noteq> None"
proof -
  have h: "ex_first \<in> set (sd_rows ex_db3)" "ex_second \<in> set (sd_rows ex_db3)" "sr_seat ex_second = sr_seat ex_first" "sr_id ex_first < sr_id ex_second" by code_simp+
  have "sr_released ex_first \<noteq> None"
    using seats_pass_on_after_their_hold [OF ex_seats_reached, of ex_first ex_second] h by (simp add: ex_seats3_def)
  moreover have "sr_account ex_first = Some ''a'' \<and> sr_email ex_second = ''b@x''" by code_simp
  ultimately show ?thesis using h(3) by simp
qed

text \<open>
  The bound is reached: a second seat is handed out under a purchase of one at the very moment at which the first reservation ends, and
  both are confirmed.
\<close>

definition ex_edge1 :: seat_db where
  "ex_edge1 = snd (reserveSeat 600000 (Some 1) ''b@x'' ex_db1)"

definition ex_edge :: seat_world where
  "ex_edge = \<lparr>ew_db = snd (confirmSeat 2 ''b'' (snd (confirmSeat 1 ''a'' ex_edge1))), ew_now = 600000, ew_high = 1, ew_revived = 0, ew_edge = 1\<rparr>"

lemma ex_edge_reached: "seat_steps ex_edge"
proof -
  have s0: "seat_steps ex_seats" by (rule seat_steps.start) (simp_all add: ex_seats_def no_seats_def ledger_ok_def rows_wf_def follows_def taken_def latest_def)
  have r1: "reserveSeat 0 (Some 1) ''A@x'' no_seats = (Inr (1, 1), ex_db1)" "ends_at 0 no_seats = 0" by code_simp+
  have s1: "seat_steps (ex_seats\<lparr>ew_db := ex_db1, ew_high := 1, ew_now := 600000\<rparr>)"
    using seat_steps.later [OF seat_steps.reserve [OF s0, of 0 "Some 1" "''A@x''" "(1, 1)" ex_db1], of 600000] r1 by (simp add: ex_seats_def taken_under_def)
  have r2: "reserveSeat 600000 (Some 1) ''b@x'' ex_db1 = (Inr (2, 2), ex_edge1)" "ends_at 600000 ex_db1 = 1" by code_simp+
  have s2: "seat_steps (ex_seats\<lparr>ew_db := ex_edge1, ew_high := 1, ew_now := 600000, ew_edge := 1\<rparr>)"
    using seat_steps.reserve [OF s1, of 600000 "Some 1" "''b@x''" "(2, 2)" ex_edge1] r2 by (simp add: ex_seats_def taken_under_def)
  show ?thesis using seat_steps.confirm [OF seat_steps.confirm [OF s2, of 1 "''a''"], of 2 "''b''"] by (simp add: ex_seats_def ex_edge_def)
qed

theorem seats_within_purchase_witness:
  "seatCounts 600000 (sd_rows (ew_db ex_edge)) = (2, 0) \<and> int 2 + int 0 \<le> ew_high ex_edge + 0 + int (ew_edge ex_edge) \<and> ew_high ex_edge = 1"
proof -
  have c: "seatCounts 600000 (sd_rows (ew_db ex_edge)) = (2, 0)" by code_simp
  have n: "ew_now ex_edge = 600000" by (simp add: ex_edge_def)
  have "int 2 + int 0 \<le> ew_high ex_edge + int (ew_revived ex_edge) + int (ew_edge ex_edge)"
    by (rule seats_within_purchase [OF ex_edge_reached]) (unfold n, rule c)
  then show ?thesis using c by (simp add: ex_edge_def)
qed

section \<open>Requests\<close>

text \<open>The requests that are due, with the thresholds computed on the way.\<close>

fun open_due :: "int \<Rightarrow> (int \<times> int option) list \<Rightarrow> seat_request list \<Rightarrow> seat_request list" where
  "open_due p earlier [] = []"
| "open_due p earlier (q # qs) = (let th = threshold_base q earlier + rq_seats q in
     (if rq_closed q = None \<and> th \<le> p then [q] else []) @ open_due p (earlier @ [(th, rq_closed q)]) qs)"

definition covered :: "int \<Rightarrow> (nat \<rightharpoonup> int) \<Rightarrow> seat_request \<Rightarrow> bool" where
  "covered p m q \<longleftrightarrow> rq_closed q = None \<and> (case m (rq_id q) of Some th \<Rightarrow> p \<ge> th | None \<Rightarrow> False)"

lemma threshold_ids: "map fst (thresholds earlier qs) = map rq_id qs"
  by (induction earlier qs rule: thresholds.induct) (simp_all add: Let_def)

lemma open_due_filter: "distinct (map rq_id qs) \<Longrightarrow> filter (covered p (map_of (thresholds earlier qs))) qs = open_due p earlier qs"
proof (induction earlier qs rule: thresholds.induct)
  case (2 earlier q qs)
  let ?th = "threshold_base q earlier + rq_seats q"
  have "filter (covered p (map_of (thresholds earlier (q # qs)))) qs = filter (covered p (map_of (thresholds (earlier @ [(?th, rq_closed q)]) qs))) qs"
  proof (rule filter_cong [OF refl])
    fix x
    assume "x \<in> set qs"
    then have "rq_id x \<noteq> rq_id q" using "2.prems" by (metis distinct.simps(2) image_eqI list.set_map list.simps(9))
    then show "covered p (map_of (thresholds earlier (q # qs))) x = covered p (map_of (thresholds (earlier @ [(?th, rq_closed q)]) qs)) x"
      by (simp add: covered_def Let_def)
  qed
  also have "\<dots> = open_due p (earlier @ [(?th, rq_closed q)]) qs" using 2 by simp
  finally have e: "filter (covered p (map_of (thresholds earlier (q # qs)))) qs = open_due p (earlier @ [(?th, rq_closed q)]) qs" .
  have m: "covered p (map_of (thresholds earlier (q # qs))) q = (rq_closed q = None \<and> ?th \<le> p)" by (simp add: covered_def Let_def)
  show ?case unfolding filter.simps(2) e m by (simp add: Let_def)
qed simp

lemma due_open: "distinct (map rq_id qs) \<Longrightarrow> due_requests p qs = map rq_id (open_due p [] qs)"
proof -
  assume d: "distinct (map rq_id qs)"
  then have "distinct (map fst (thresholds [] qs))" by (simp add: threshold_ids)
  then have "requestThresholds qs = map_of (thresholds [] qs)" 
    unfolding requestThresholds_def by (intro map_of_eqI ballI) (auto simp: map_of_eq_Some_iff rev_map [symmetric])
  then show ?thesis using open_due_filter [OF d, of p "[]"] unfolding due_requests_def covered_def by simp
qed

lemma base_at_least:
  "(case rq_purchased q of Some n \<Rightarrow> n | None \<Rightarrow> 0) \<le> threshold_base q earlier" "(v, None) \<in> set earlier \<Longrightarrow> v \<le> threshold_base q earlier"
proof -
  have keep: "m \<le> fold (\<lambda>(th, closed) mx. if closed = None \<or> the closed > rq_requested q then max mx th else mx) es m" for es and m :: int
  proof (induction es arbitrary: m)
    case (Cons e es)
    have "m \<le> max m (fst e)" by simp
    also note Cons.IH [of "max m (fst e)"]
    finally show ?case using Cons.IH [of m] by (cases e) simp
  qed simp
  then show "(case rq_purchased q of Some n \<Rightarrow> n | None \<Rightarrow> 0) \<le> threshold_base q earlier" unfolding threshold_base_def by blast
  have "(v, None) \<in> set es \<Longrightarrow> v \<le> fold (\<lambda>(th, closed) mx. if closed = None \<or> the closed > rq_requested q then max mx th else mx) es m" for es and m :: int
  proof (induction es arbitrary: m)
    case (Cons e es)
    then show ?case using keep [of "max m v" es] by (cases e) auto
  qed simp
  then show "(v, None) \<in> set earlier \<Longrightarrow> v \<le> threshold_base q earlier" unfolding threshold_base_def by blast
qed

lemma due_after_open:
  "(v, None) \<in> set earlier \<Longrightarrow> \<forall>q\<in>set qs. 0 < rq_seats q \<Longrightarrow> open_due p earlier qs \<noteq> [] \<Longrightarrow> sum_list (map rq_seats (open_due p earlier qs)) \<le> p - v"
proof (induction p earlier qs arbitrary: v rule: open_due.induct)
  case (2 p earlier q qs)
  let ?th = "threshold_base q earlier + rq_seats q"
  let ?rest = "open_due p (earlier @ [(?th, rq_closed q)]) qs"
  have rest: "0 \<le> sum_list (map rq_seats ?rest)" if "?rest = []" using that by simp
  have th: "v + rq_seats q \<le> ?th" using base_at_least(2) [OF "2.prems"(1)] by simp
  show ?case
  proof (cases "rq_closed q = None")
    case True
    have ih: "?rest \<noteq> [] \<Longrightarrow> sum_list (map rq_seats ?rest) \<le> p - ?th" using "2.IH" [OF refl, of ?th] "2.prems"(2) True by simp
    then show ?thesis using "2.prems" th True by (cases "?rest = []") (auto simp: Let_def)
  next
    case False
    then obtain c where "rq_closed q = Some c" by blast
    then show ?thesis using "2.IH" [OF refl, of v] "2.prems" by (simp add: Let_def)
  qed
qed simp

lemma due_first:
  "\<forall>q\<in>set qs. 0 < rq_seats q \<Longrightarrow> open_due p earlier qs = q # D \<Longrightarrow>
     sum_list (map rq_seats (q # D)) \<le> p - (case rq_purchased q of Some n \<Rightarrow> n | None \<Rightarrow> 0)"
proof (induction p earlier qs rule: open_due.induct)
  case (2 p earlier r qs)
  let ?th = "threshold_base r earlier + rq_seats r"
  let ?rest = "open_due p (earlier @ [(?th, rq_closed r)]) qs"
  have after: "rq_closed r = None \<Longrightarrow> ?rest \<noteq> [] \<Longrightarrow> sum_list (map rq_seats ?rest) \<le> p - ?th"
    using due_after_open [of ?th "earlier @ [(?th, rq_closed r)]" qs p] "2.prems"(1) by simp
  show ?case
  proof (cases "rq_closed r = None \<and> ?th \<le> p")
    case True
    then have "q = r \<and> D = ?rest" using "2.prems"(2) by (auto simp: Let_def)
    then have "q = r" "D = ?rest" by blast+
    then show ?thesis using True after base_at_least(1) [of r earlier] by (cases "?rest = []") auto
  next
    case False
    then have "?rest = q # D" using "2.prems"(2) by (auto simp: Let_def split: if_splits)
    then show ?thesis using "2.IH" [OF refl] "2.prems"(1) by simp
  qed
qed simp

lemma in_order_props: "set (in_order qs) = set qs" "distinct (map rq_id (in_order qs)) = distinct (map rq_id qs)"
  by (simp_all add: in_order_def distinct_map card_distinct distinct_card flip: set_map)

text \<open>C38: One purchase closes no more than it covers: the open requests a purchased number closes ask together for at most
  the seats bought since the first of them was made, however many stand open one behind the other and
  whatever was closed between them.\<close>
theorem one_purchase_closes_what_it_covers:
  assumes "distinct (map rq_id table)" and "\<forall>q\<in>set table. 0 < rq_seats q"
    and "closeFulfilledRequests now (Some p) table = (ids, table')" and "ids \<noteq> []"
  shows "\<exists>q D. map rq_id (q # D) = ids \<and> subseq (q # D) (in_order table)
    \<and> sum_list (map rq_seats (q # D)) \<le> p - (case rq_purchased q of Some n \<Rightarrow> n | None \<Rightarrow> 0)"
proof -
  have d: "distinct (map rq_id (in_order table))" using assms(1) in_order_props(2) by simp
  have i: "ids = map rq_id (open_due p [] (in_order table))" using assms(3) due_open [OF d, of p] by (auto simp: closeFulfilledRequests_def Let_def)
  then obtain q D where q: "open_due p [] (in_order table) = q # D" using assms(4) by (cases "open_due p [] (in_order table)") auto
  have "subseq (q # D) (in_order table)" using open_due_filter [OF d, of p "[]"] subseq_filter_left q by metis
  then show ?thesis using i q due_first [OF _ q] assms(2) in_order_props(1) by auto
qed

definition ex_requests :: "seat_request list" where
  "ex_requests = [\<lparr>rq_id = 1, rq_seats = 5, rq_purchased = Some 10, rq_requested = 1, rq_closed = None\<rparr>,
     \<lparr>rq_id = 2, rq_seats = 3, rq_purchased = Some 10, rq_requested = 2, rq_closed = None\<rparr>]"

theorem one_purchase_closes_what_it_covers_witness:
  "fst (closeFulfilledRequests 9 (Some 15) ex_requests) = [1] \<and> fst (closeFulfilledRequests 9 (Some 18) ex_requests) = [1, 2]
   \<and> (\<exists>q D. map rq_id (q # D) = [1, 2] \<and> subseq (q # D) (in_order ex_requests)
       \<and> sum_list (map rq_seats (q # D)) \<le> 18 - (case rq_purchased q of Some n \<Rightarrow> n | None \<Rightarrow> 0))"
proof (intro conjI)
  show "fst (closeFulfilledRequests 9 (Some 15) ex_requests) = [1]" by code_simp
  show c: "fst (closeFulfilledRequests 9 (Some 18) ex_requests) = [1, 2]" by code_simp
  have "closeFulfilledRequests 9 (Some 18) ex_requests = ([1, 2], snd (closeFulfilledRequests 9 (Some 18) ex_requests))" using c by (metis prod.collapse)
  then show "\<exists>q D. map rq_id (q # D) = [1, 2] \<and> subseq (q # D) (in_order ex_requests)
       \<and> sum_list (map rq_seats (q # D)) \<le> 18 - (case rq_purchased q of Some n \<Rightarrow> n | None \<Rightarrow> 0)"
    by (rule one_purchase_closes_what_it_covers [rotated 2]) (simp_all add: ex_requests_def)
qed

end
