(* ===== verification/Outages.thy ===== *)
theory Outages
  imports VCard
begin

text \<open>
  Windows in which the mail node could not take mail (\<open>services/mailNode/outages.js\<close>): the result of a check, the
  windows the alert job opens, extends, closes and opens again, the ones an administrator adds, changes
  and deletes, and what the node's log shows around a window. A moment is its milliseconds; those of the log lie
  after 1970. A check of the job is one step, as one job makes them in turn. The ids of new rows are
  arguments, and the index that allows one open detected window is part of the insert.
\<close>

definition MAX_RETENTION_DAYS :: int where "MAX_RETENTION_DAYS = 90"
definition DEFAULT_RETENTION_DAYS :: int where "DEFAULT_RETENTION_DAYS = 30"
definition MAX_REASON_LENGTH :: nat where "MAX_REASON_LENGTH = 500"
definition RECEIVING_CONTAINER :: string where "RECEIVING_CONTAINER = ''postfix-mailcow''"
definition MINUTE_MS :: int where "MINUTE_MS = 60 * 1000"
definition CHECK_GAP_MS :: int where "CHECK_GAP_MS = 15 * MINUTE_MS"
definition REOPEN_MS :: int where "REOPEN_MS = 15 * MINUTE_MS"
definition STALE_MS :: int where "STALE_MS = 30 * MINUTE_MS"
definition FOLLOW_MS :: int where "FOLLOW_MS = 25 * 60 * MINUTE_MS"
definition TRACE_MARGIN_MS :: int where "TRACE_MARGIN_MS = 60 * MINUTE_MS"
definition MAX_AHEAD_MS :: int where "MAX_AHEAD_MS = 31 * 24 * 60 * MINUTE_MS"

section \<open>Checks\<close>

datatype check_result = Good | Failed | Unknown

text \<open>The containers with their states, as far as the node names them.\<close>

record container =
  ct_name :: "string option"
  ct_state :: "string option"

record check =
  ck_result :: check_result
  ck_signals :: "string list"
  ck_down :: "(string option \<times> string) list"

definition matches :: "string option \<Rightarrow> string \<Rightarrow> bool" where
  "matches name part \<longleftrightarrow> js_includes (js_lower (case name of Some n \<Rightarrow> n | None \<Rightarrow> [])) part"

definition or_text :: "string option \<Rightarrow> string \<Rightarrow> string" where
  "or_text v d = (case v of Some t \<Rightarrow> if t = [] then d else t | None \<Rightarrow> d)"

definition classifyCheck :: "container list option \<Rightarrow> string option \<Rightarrow> check" where
  "classifyCheck containers errorCode = (case containers of
     None \<Rightarrow> if errorCode = Some ''mail_node_unreachable'' then \<lparr>ck_result = Failed, ck_signals = [''api_unreachable''], ck_down = []\<rparr>
       else \<lparr>ck_result = Unknown, ck_signals = [or_text errorCode ''containers_unread''], ck_down = []\<rparr>
   | Some cs \<Rightarrow> (case List.find (\<lambda>c. matches (ct_name c) RECEIVING_CONTAINER) cs of
       None \<Rightarrow> \<lparr>ck_result = Unknown, ck_signals = [''container_missing''], ck_down = [(Some RECEIVING_CONTAINER, ''missing'')]\<rparr>
     | Some c \<Rightarrow> if ct_state c \<noteq> Some ''running'' then \<lparr>ck_result = Failed, ck_signals = [''containers''], ck_down = [(ct_name c, or_text (ct_state c) ''unknown'')]\<rparr>
         else \<lparr>ck_result = Good, ck_signals = [], ck_down = []\<rparr>))"

section \<open>Windows and the state\<close>

datatype source = Detected | ByHand

record cause =
  cs_signals :: "string list"
  cs_down :: "(string option \<times> string) list"
  cs_first_failed :: "int option"
  cs_uncertain :: "bool option"
  cs_reopened :: nat

record evidence =
  ev_before :: "int option"
  ev_after :: "int option"
  ev_during :: nat
  ev_from :: "int option"

record outage =
  og_id :: nat
  og_started :: int
  og_ended :: "int option"
  og_source :: source
  og_planned :: bool
  og_reason :: "string option"
  og_cause :: cause
  og_evidence :: "evidence option"
  og_trace :: "string option"
  og_last_failed :: "int option"
  og_created_by :: "string option"
  og_closed_by :: "string option"

definition no_cause :: cause where
  "no_cause = \<lparr>cs_signals = [], cs_down = [], cs_first_failed = None, cs_uncertain = None, cs_reopened = 0\<rparr>"

record outage_state =
  st_last_check :: "int option"
  st_last_result :: "check_result option"
  st_signals :: "string list"
  st_last_good :: "int option"
  st_pending :: "(int \<times> string list) option"

definition no_state :: outage_state where
  "no_state = \<lparr>st_last_check = None, st_last_result = None, st_signals = [], st_last_good = None, st_pending = None\<rparr>"

definition isStalled :: "outage option \<Rightarrow> int \<Rightarrow> bool" where
  "isStalled row now = (case row of None \<Rightarrow> False
     | Some r \<Rightarrow> if og_ended r \<noteq> None \<or> og_source r \<noteq> Detected then False
         else now - (case og_last_failed r of Some t \<Rightarrow> t | None \<Rightarrow> og_started r) > STALE_MS)"

section \<open>The alert job\<close>

definition is_open :: "outage \<Rightarrow> bool" where
  "is_open r \<longleftrightarrow> og_source r = Detected \<and> og_ended r = None"

definition openDetected :: "outage list \<Rightarrow> outage option" where
  "openDetected rows = first_row (filter is_open rows)"

text \<open>\<open>ORDER BY ended_at DESC LIMIT 1\<close>; of two with one end the younger.\<close>

definition is_closed :: "outage \<Rightarrow> bool" where
  "is_closed r \<longleftrightarrow> og_source r = Detected \<and> og_ended r \<noteq> None"

fun latest_end :: "outage list \<Rightarrow> outage option" where
  "latest_end [] = None"
| "latest_end (r # rs) = (case latest_end rs of None \<Rightarrow> Some r | Some b \<Rightarrow> if the (og_ended b) < the (og_ended r) then Some r else Some b)"

definition lastClosedDetected :: "outage list \<Rightarrow> outage option" where
  "lastClosedDetected rows = latest_end (filter is_closed rows)"

text \<open>\<open>[...new Set(xs)]\<close>.\<close>

definition js_distinct :: "string list \<Rightarrow> string list" where
  "js_distinct xs = rev (remdups (rev xs))"

definition reopen_row :: "check \<Rightarrow> int \<Rightarrow> outage \<Rightarrow> outage" where
  "reopen_row check at r = r\<lparr>og_ended := None, og_last_failed := Some at, og_trace := None,
     og_cause := (og_cause r)\<lparr>cs_reopened := cs_reopened (og_cause r) + 1, cs_down := (if ck_down check \<noteq> [] then ck_down check else cs_down (og_cause r))\<rparr>\<rparr>"

definition window_start :: "outage option \<Rightarrow> outage_state \<Rightarrow> int \<Rightarrow> int" where
  "window_start previous st firstFailed = (let start = (case st_last_good st of Some g \<Rightarrow> g | None \<Rightarrow> firstFailed) in
     case Option.bind previous og_ended of Some fl \<Rightarrow> if fl > start then min fl firstFailed else start | None \<Rightarrow> start)"

definition new_window :: "nat \<Rightarrow> outage option \<Rightarrow> check \<Rightarrow> outage_state \<Rightarrow> int \<Rightarrow> outage" where
  "new_window i previous check st now = (let firstFailed = (case st_pending st of Some (t, _) \<Rightarrow> t | None \<Rightarrow> now) in
     \<lparr>og_id = i, og_started = window_start previous st firstFailed, og_ended = None, og_source = Detected, og_planned = False, og_reason = None,
      og_cause = \<lparr>cs_signals = js_distinct ((case st_pending st of Some (_, ss) \<Rightarrow> ss | None \<Rightarrow> []) @ ck_signals check), cs_down = ck_down check,
        cs_first_failed = Some firstFailed,
        cs_uncertain = Some (case st_last_good st of None \<Rightarrow> True | Some g \<Rightarrow> firstFailed - g > CHECK_GAP_MS), cs_reopened = 0\<rparr>,
      og_evidence = None, og_trace = None, og_last_failed = Some now, og_created_by = None, og_closed_by = None\<rparr>)"

definition openWindow :: "nat \<Rightarrow> check \<Rightarrow> outage_state \<Rightarrow> int \<Rightarrow> outage list \<Rightarrow> (outage option \<times> bool) \<times> outage list" where
  "openWindow i check st now rows =
     (let previous = lastClosedDetected rows;
          fresh = (if filter is_open rows \<noteq> [] then ((None, False), rows)
            else ((Some (new_window i previous check st now), False), rows @ [new_window i previous check st now])) in
      case previous of None \<Rightarrow> fresh
      | Some p \<Rightarrow> if og_closed_by p = None \<and> now - the (og_ended p) < REOPEN_MS
          then (let q = (\<lambda>r. og_id r = og_id p \<and> og_ended r \<noteq> None) in
            case first_row (sql_returning q (reopen_row check now) rows) of Some r \<Rightarrow> ((Some r, True), sql_update q (reopen_row check now) rows) | None \<Rightarrow> fresh)
          else fresh)"

definition close_row :: "int \<Rightarrow> outage \<Rightarrow> outage" where
  "close_row at r = r\<lparr>og_ended := Some (max at (og_started r))\<rparr>"

definition extend_row :: "check \<Rightarrow> int \<Rightarrow> outage \<Rightarrow> outage" where
  "extend_row check at r = r\<lparr>og_last_failed := Some at, og_cause := (og_cause r)\<lparr>cs_signals := js_distinct (cs_signals (og_cause r) @ ck_signals check),
     cs_down := (if ck_down check \<noteq> [] then ck_down check else cs_down (og_cause r))\<rparr>\<rparr>"

text \<open>The first unanswered call alone does not count.\<close>

definition first_unanswered :: "check \<Rightarrow> outage_state \<Rightarrow> bool" where
  "first_unanswered check st \<longleftrightarrow> ''api_unreachable'' \<in> set (ck_signals check) \<and> ck_down check = [] \<and> st_pending st = None"

record job_report =
  jr_opened :: "outage option"
  jr_reopened :: bool
  jr_closed :: "outage option"

definition no_report :: job_report where
  "no_report = \<lparr>jr_opened = None, jr_reopened = False, jr_closed = None\<rparr>"

text \<open>\<open>recordCheck\<close>, before the state is written with the time and the result of the check.\<close>

definition check_effect :: "nat \<Rightarrow> check \<Rightarrow> int \<Rightarrow> outage list \<Rightarrow> outage_state \<Rightarrow> job_report \<times> outage list \<times> outage_state" where
  "check_effect i check now rows st = (case ck_result check of
     Good \<Rightarrow> (let st1 = st\<lparr>st_last_good := Some now, st_pending := None\<rparr> in case openDetected rows of
         None \<Rightarrow> (no_report, rows, st1)
       | Some r \<Rightarrow> (let q = (\<lambda>x. og_id x = og_id r \<and> og_ended x = None) in
           (no_report\<lparr>jr_closed := first_row (sql_returning q (close_row now) rows)\<rparr>, sql_update q (close_row now) rows, st1)))
   | Failed \<Rightarrow> (case openDetected rows of
         Some r \<Rightarrow> (no_report, sql_update (\<lambda>x. og_id x = og_id r) (extend_row check now) rows, st\<lparr>st_pending := None\<rparr>)
       | None \<Rightarrow> if first_unanswered check st then (no_report, rows, st\<lparr>st_pending := Some (now, ck_signals check)\<rparr>)
           else (case openWindow i check st now rows of ((opened, again), rows1) \<Rightarrow>
             (no_report\<lparr>jr_opened := opened, jr_reopened := again\<rparr>, rows1, st\<lparr>st_pending := None\<rparr>)))
   | Unknown \<Rightarrow> (no_report, rows, st\<lparr>st_pending := None\<rparr>))"

definition recordCheck :: "nat \<Rightarrow> check \<Rightarrow> int \<Rightarrow> outage list \<times> outage_state \<Rightarrow> job_report \<times> outage list \<times> outage_state" where
  "recordCheck i check now s = (case check_effect i check now (fst s) (snd s) of (rep, rows, st) \<Rightarrow>
     (rep, rows, st\<lparr>st_last_check := Some now, st_last_result := Some (ck_result check), st_signals := ck_signals check\<rparr>))"

section \<open>Windows by hand\<close>

text \<open>A field of a request: left out, null or empty, or a value with the moment it names, if it names one.\<close>

datatype time_field = Absent | Blank | Given "int option"

record outage_body =
  ob_started :: time_field
  ob_ended :: time_field
  ob_reason :: "string option option"
  ob_planned :: bool

datatype input_error = StartInvalid | EndInvalid | EndBeforeStart | ReasonRequired | ReasonTooLong

record outage_values =
  vl_started :: "int option"
  vl_ended :: "int option"
  vl_reason :: "string option"
  vl_planned :: "bool option"

definition started_value :: "bool \<Rightarrow> int \<Rightarrow> time_field \<Rightarrow> input_error + int option" where
  "started_value partial now f = (if partial \<and> f = Absent then Inr None
     else case f of Given (Some t) \<Rightarrow> if t > now + MAX_AHEAD_MS then Inl StartInvalid else Inr (Some t) | _ \<Rightarrow> Inl StartInvalid)"

definition ended_value :: "bool \<Rightarrow> int \<Rightarrow> time_field \<Rightarrow> input_error + int option" where
  "ended_value partial now f = (case f of
     Given (Some t) \<Rightarrow> if t > now + MAX_AHEAD_MS then Inl EndInvalid else Inr (Some t)
   | Given None \<Rightarrow> Inl EndInvalid
   | Blank \<Rightarrow> if partial then Inl EndInvalid else Inr None
   | Absent \<Rightarrow> Inr None)"

definition reason_value :: "bool \<Rightarrow> string option option \<Rightarrow> input_error + string option" where
  "reason_value partial f = (if partial \<and> f = None then Inr None
     else (let reason = (case f of Some (Some t) \<Rightarrow> js_trim t | _ \<Rightarrow> []) in
       if reason = [] then Inl ReasonRequired else if length reason > MAX_REASON_LENGTH then Inl ReasonTooLong else Inr (Some reason)))"

definition parseOutageInput :: "bool \<Rightarrow> int \<Rightarrow> outage_body \<Rightarrow> input_error + outage_values" where
  "parseOutageInput partial now b = (case started_value partial now (ob_started b) of Inl e \<Rightarrow> Inl e
     | Inr s \<Rightarrow> (case ended_value partial now (ob_ended b) of Inl e \<Rightarrow> Inl e
       | Inr e \<Rightarrow> if s \<noteq> None \<and> e \<noteq> None \<and> the e < the s then Inl EndBeforeStart
           else (case reason_value partial (ob_reason b) of Inl x \<Rightarrow> Inl x
             | Inr r \<Rightarrow> Inr \<lparr>vl_started = s, vl_ended = e, vl_reason = r, vl_planned = (if partial then None else Some (ob_planned b))\<rparr>)))"

definition addOutage :: "nat \<Rightarrow> outage_values \<Rightarrow> string option \<Rightarrow> outage list \<Rightarrow> outage list" where
  "addOutage i v user rows = rows @ [\<lparr>og_id = i, og_started = the (vl_started v), og_ended = vl_ended v, og_source = ByHand, og_planned = (vl_planned v = Some True),
     og_reason = vl_reason v, og_cause = no_cause, og_evidence = None, og_trace = None, og_last_failed = None, og_created_by = user,
     og_closed_by = (if vl_ended v = None then None else user)\<rparr>]"

record traced_letter =
  lt_outage :: nat
  lt_received :: int

datatype update_error = OutageNotFound | EndsBeforeStart

definition update_row :: "int \<Rightarrow> int option \<Rightarrow> string option \<Rightarrow> string option \<Rightarrow> outage \<Rightarrow> outage" where
  "update_row start end1 reason user r = r\<lparr>og_started := start, og_ended := end1, og_reason := reason,
     og_closed_by := (if og_ended r = None \<and> end1 \<noteq> None then user else og_closed_by r),
     og_trace := (if og_started r \<noteq> start \<or> og_ended r \<noteq> end1 then None else og_trace r)\<rparr>"

definition updateOutage :: "nat \<Rightarrow> outage_values \<Rightarrow> string option \<Rightarrow> outage list \<Rightarrow> traced_letter list \<Rightarrow> (update_error + outage) \<times> outage list \<times> traced_letter list" where
  "updateOutage i v user rows letters = (case row_by og_id i rows of None \<Rightarrow> (Inl OutageNotFound, rows, letters)
     | Some r \<Rightarrow> (let start = (case vl_started v of Some t \<Rightarrow> t | None \<Rightarrow> og_started r);
           end1 = (case vl_ended v of Some t \<Rightarrow> Some t | None \<Rightarrow> og_ended r);
           reason = (case vl_reason v of Some t \<Rightarrow> Some t | None \<Rightarrow> og_reason r);
           f = update_row start end1 reason user in
         if (case end1 of Some e \<Rightarrow> e < start | None \<Rightarrow> False) then (Inl EndsBeforeStart, rows, letters)
         else (Inr (f r), sql_update (\<lambda>x. og_id x = i) f rows,
           if og_started r \<noteq> start \<or> og_ended r \<noteq> end1
           then sql_delete (\<lambda>l. lt_outage l = i \<and> (lt_received l < start - TRACE_MARGIN_MS \<or> (case end1 of Some e \<Rightarrow> lt_received l > e + TRACE_MARGIN_MS | None \<Rightarrow> False))) letters
           else letters)))"

definition deleteOutage :: "nat \<Rightarrow> outage list \<Rightarrow> traced_letter list \<Rightarrow> outage option \<times> outage list \<times> traced_letter list" where
  "deleteOutage i rows letters = (case row_by og_id i rows of None \<Rightarrow> (None, rows, letters)
     | Some r \<Rightarrow> (Some r, sql_delete (\<lambda>x. og_id x = i) rows, sql_delete (\<lambda>l. lt_outage l = i) letters))"

section \<open>The node's log as evidence\<close>

record log_line =
  ll_event :: string
  ll_program :: string
  ll_epoch :: "int option"

definition inbound :: "log_line \<Rightarrow> bool" where
  "inbound l \<longleftrightarrow> ll_event l = ''received'' \<and> ll_program l = ''postfix/smtpd'' \<and> ll_epoch l \<noteq> None"

definition earlier_of :: "int option \<Rightarrow> int option \<Rightarrow> int option" where
  "earlier_of a b = (case (a, b) of (Some x, Some y) \<Rightarrow> Some (if x \<le> y then x else y) | (Some x, None) \<Rightarrow> Some x | (None, y) \<Rightarrow> y)"

definition later_of :: "int option \<Rightarrow> int option \<Rightarrow> int option" where
  "later_of a b = (case (a, b) of (Some x, Some y) \<Rightarrow> Some (if x \<ge> y then x else y) | (Some x, None) \<Rightarrow> Some x | (None, y) \<Rightarrow> y)"

definition see_line :: "int \<Rightarrow> int option \<Rightarrow> log_line \<Rightarrow> evidence \<Rightarrow> evidence" where
  "see_line start end1 l e = (let e1 = (case ll_epoch l of Some t \<Rightarrow> e\<lparr>ev_from := earlier_of (ev_from e) (Some t)\<rparr> | None \<Rightarrow> e) in
     if \<not> inbound l then e1
     else let t = the (ll_epoch l) in
       if t < start then e1\<lparr>ev_before := later_of (ev_before e1) (Some t)\<rparr>
       else if (case end1 of None \<Rightarrow> True | Some x \<Rightarrow> t \<le> x) then e1\<lparr>ev_during := ev_during e1 + 1\<rparr>
       else e1\<lparr>ev_after := earlier_of (ev_after e1) (Some t)\<rparr>)"

definition inboundEvidence :: "log_line list \<Rightarrow> int \<Rightarrow> int option \<Rightarrow> evidence" where
  "inboundEvidence ls start end1 = fold (see_line start end1) ls \<lparr>ev_before = None, ev_after = None, ev_during = 0, ev_from = None\<rparr>"

definition mergeEvidence :: "evidence option \<Rightarrow> evidence \<Rightarrow> evidence" where
  "mergeEvidence stored fresh = (case (Option.bind stored ev_from, ev_from fresh) of
     (Some a, Some b) \<Rightarrow> if b \<le> a then fresh
       else (let s = the stored in \<lparr>ev_before = later_of (ev_before fresh) (ev_before s), ev_after = earlier_of (ev_after fresh) (ev_after s),
         ev_during = max (ev_during fresh) (ev_during s), ev_from = Some a\<rparr>)
   | _ \<Rightarrow> fresh)"

definition is_followed :: "int \<Rightarrow> outage \<Rightarrow> bool" where
  "is_followed now r \<longleftrightarrow> og_started r \<le> now \<and> (case og_ended r of None \<Rightarrow> True | Some e \<Rightarrow> e > now - FOLLOW_MS)"

definition updateEvidence :: "log_line list \<Rightarrow> int \<Rightarrow> outage list \<Rightarrow> outage list" where
  "updateEvidence ls now rows = sql_update (is_followed now)
     (\<lambda>r. r\<lparr>og_evidence := Some (mergeEvidence (og_evidence r) (inboundEvidence ls (og_started r) (og_ended r)))\<rparr>) rows"

text \<open>A stored retention that is no whole number from 1 to the most days counts as the default.\<close>

definition getOutageSettings :: "int option \<Rightarrow> int" where
  "getOutageSettings stored = (case stored of Some n \<Rightarrow> if 1 \<le> n \<and> n \<le> MAX_RETENTION_DAYS then n else DEFAULT_RETENTION_DAYS | None \<Rightarrow> DEFAULT_RETENTION_DAYS)"

end
