(* ===== verification/OutageProperties.thy ===== *)
theory OutageProperties
  imports Outages
begin

text \<open>
  What the windows of the alert job keep: they never overlap, also when an administrator closes one or adds
  others, and each covers the time from the last good check before a failure that counts to the first
  good check after it.
\<close>

definition detected :: "outage list \<Rightarrow> outage list" where
  "detected rows = filter (\<lambda>r. og_source r = Detected) rows"

definition before :: "outage \<Rightarrow> outage \<Rightarrow> bool" where
  "before r x \<longleftrightarrow> (case og_ended r of Some e \<Rightarrow> e \<le> og_started x | None \<Rightarrow> False)"

definition in_time :: "int \<Rightarrow> outage \<Rightarrow> bool" where
  "in_time now r \<longleftrightarrow> og_started r \<le> now \<and> (case og_ended r of Some e \<Rightarrow> og_started r \<le> e \<and> e \<le> now | None \<Rightarrow> True)"

definition state_ok :: "int \<Rightarrow> outage list \<Rightarrow> outage_state \<Rightarrow> bool" where
  "state_ok now rows st \<longleftrightarrow> (case st_last_good st of Some g \<Rightarrow> g \<le> now | None \<Rightarrow> True)
     \<and> (case st_pending st of Some (p, ss) \<Rightarrow> p \<le> now \<and> (\<forall>r\<in>set (detected rows). case og_ended r of Some e \<Rightarrow> e \<le> p | None \<Rightarrow> False) | None \<Rightarrow> True)"

definition windows_ok :: "int \<Rightarrow> outage list \<times> outage_state \<Rightarrow> bool" where
  "windows_ok now s \<longleftrightarrow> distinct (map og_id (fst s)) \<and> sorted_wrt before (detected (fst s)) \<and> (\<forall>r\<in>set (detected (fst s)). in_time now r)
     \<and> state_ok now (fst s) (snd s)"

lemma windows_okD:
  assumes "windows_ok now (rows, st)"
  shows "distinct (map og_id rows)" "sorted_wrt before (detected rows)" "r \<in> set (detected rows) \<Longrightarrow> in_time now r" "state_ok now rows st"
  using assms by (simp_all add: windows_ok_def)

section \<open>The open window is the last\<close>

lemma open_filter: "filter is_open rows = filter (\<lambda>r. og_ended r = None) (detected rows)"
  unfolding detected_def filter_filter by (rule filter_cong) (auto simp: is_open_def)

lemma closed_filter: "filter is_closed rows = filter (\<lambda>r. og_ended r \<noteq> None) (detected rows)"
  unfolding detected_def filter_filter by (rule filter_cong) (auto simp: is_closed_def)

lemma only_last_open: "sorted_wrt before xs \<Longrightarrow> r \<in> set xs \<Longrightarrow> og_ended r = None \<Longrightarrow> \<exists>ys. xs = ys @ [r] \<and> (\<forall>y\<in>set ys. og_ended y \<noteq> None)"
proof (induction xs)
  case (Cons a xs)
  show ?case
  proof (cases "xs = []")
    case True
    then show ?thesis using Cons.prems by auto
  next
    case False
    then have a: "og_ended a \<noteq> None" using Cons.prems(1) by (cases xs) (auto simp: before_def split: option.splits)
    then obtain ys where "xs = ys @ [r] \<and> (\<forall>y\<in>set ys. og_ended y \<noteq> None)" using Cons by auto
    then show ?thesis using a by (intro exI [of _ "a # ys"]) simp
  qed
qed simp

lemma open_is_last: "sorted_wrt before (detected rows) \<Longrightarrow> openDetected rows = Some r \<Longrightarrow> \<exists>ys. detected rows = ys @ [r] \<and> og_ended r = None \<and> (\<forall>y\<in>set ys. og_ended y \<noteq> None)"
proof -
  assume s: "sorted_wrt before (detected rows)" and o: "openDetected rows = Some r"
  then have "r \<in> set (detected rows)" "og_ended r = None"
    unfolding openDetected_def open_filter first_row_def by (auto split: list.splits dest!: filter_eq_ConsD)
  then show ?thesis using only_last_open [OF s] by blast
qed

lemma none_open: "openDetected rows = None \<longleftrightarrow> (\<forall>r\<in>set (detected rows). og_ended r \<noteq> None)"
proof -
  have "openDetected rows = None \<longleftrightarrow> filter (\<lambda>r. og_ended r = None) (detected rows) = []"
    unfolding openDetected_def open_filter first_row_def by (simp split: list.splits)
  then show ?thesis by (simp add: filter_empty_conv)
qed

text \<open>With no window open, the one with the latest end is the last of the list.\<close>

lemma latest_end_last:
  "sorted_wrt before xs \<Longrightarrow> xs \<noteq> [] \<Longrightarrow> (\<forall>r\<in>set xs. og_ended r \<noteq> None \<and> in_time now r) \<Longrightarrow>
     latest_end xs = Some (last xs) \<and> (\<forall>r\<in>set xs. the (og_ended r) \<le> the (og_ended (last xs)))"
proof (induction xs)
  case (Cons a xs)
  show ?case
  proof (cases "xs = []")
    case False
    then have ih: "latest_end xs = Some (last xs)" "\<forall>r\<in>set xs. the (og_ended r) \<le> the (og_ended (last xs))" using Cons by auto
    have "before a (last xs)" "in_time now (last xs)" "og_ended a \<noteq> None" "og_ended (last xs) \<noteq> None" using Cons.prems False by auto
    then have "the (og_ended a) \<le> the (og_ended (last xs))" by (auto simp: before_def in_time_def)
    then show ?thesis using ih False by simp
  qed simp
qed simp

lemma last_closed:
  assumes "windows_ok now (rows, st)" and "openDetected rows = None"
  shows "lastClosedDetected rows = (if detected rows = [] then None else Some (last (detected rows)))"
    "r \<in> set (detected rows) \<Longrightarrow> the (og_ended r) \<le> the (og_ended (last (detected rows)))"
proof -
  have c: "\<forall>r\<in>set (detected rows). og_ended r \<noteq> None \<and> in_time now r" using assms none_open windows_okD(3) by blast
  then have f: "filter is_closed rows = detected rows" unfolding closed_filter by (simp add: filter_id_conv)
  note l = latest_end_last [OF windows_okD(2) [OF assms(1)] _ c]
  show "lastClosedDetected rows = (if detected rows = [] then None else Some (last (detected rows)))"
    using l by (simp add: lastClosedDetected_def f)
  show "r \<in> set (detected rows) \<Longrightarrow> the (og_ended r) \<le> the (og_ended (last (detected rows)))" using l by force
qed

section \<open>Changing the last window\<close>

lemma update_last:
  assumes "distinct (map og_id rows)" and "detected rows = ys @ [r]" and "q r" and "\<And>x. q x \<Longrightarrow> og_id x = og_id r"
    and "og_source (f r) = Detected" and "og_id (f r) = og_id r"
  shows "detected (sql_update q f rows) = ys @ [f r]" "distinct (map og_id (sql_update q f rows))" "sql_returning q f rows = [f r]"
proof -
  have "r \<in> set (detected rows)" using assms(2) by simp
  then have r: "r \<in> set rows" "og_source r = Detected" by (simp_all add: detected_def)
  have one: "q x \<longleftrightarrow> x = r" if "x \<in> set rows" for x
    using that r(1) assms(1,3,4) by (meson distinct_map inj_onD)
  then have u: "sql_update q f rows = map (\<lambda>x. if x = r then f r else x) rows" unfolding sql_update_def by (auto intro: map_cong)
  have "filter (\<lambda>x. og_source x = Detected) (map (\<lambda>x. if x = r then f r else x) xs) = map (\<lambda>x. if x = r then f r else x) (filter (\<lambda>x. og_source x = Detected) xs)" for xs
    using r(2) assms(5) by (induction xs) auto
  then have "detected (sql_update q f rows) = map (\<lambda>x. if x = r then f r else x) (ys @ [r])" using u assms(2) by (simp add: detected_def)
  moreover have "r \<notin> set ys"
  proof -
    have "distinct (detected rows)" using assms(1) distinct_map unfolding detected_def by (metis distinct_filter)
    then show ?thesis using assms(2) by simp
  qed
  then have "map (\<lambda>x. if x = r then f r else x) ys = ys" by (intro map_idI) auto
  ultimately show "detected (sql_update q f rows) = ys @ [f r]" by simp
  have "map og_id (sql_update q f rows) = map og_id rows" unfolding u using assms(6) by simp
  then show "distinct (map og_id (sql_update q f rows))" using assms(1) by simp
  have "filter q rows = filter (\<lambda>x. x = r) rows" using one by (intro filter_cong) auto
  moreover have "filter (\<lambda>x. x = r) xs = [r]" if "r \<in> set xs" "distinct xs" for xs using that by (induction xs) (auto simp: filter_empty_conv)
  ultimately show "sql_returning q f rows = [f r]" using r(1) assms(1) by (simp add: sql_returning_def distinct_map)
qed

lemma sorted_replace:
  "sorted_wrt before (ys @ [r]) \<Longrightarrow> og_started x = og_started r \<Longrightarrow> sorted_wrt before (ys @ [x])"
  by (auto simp: sorted_wrt_append before_def split: option.splits)

lemma sorted_add:
  assumes "sorted_wrt before ys" and "\<And>y. y \<in> set ys \<Longrightarrow> \<exists>e. og_ended y = Some e \<and> e \<le> og_started x"
  shows "sorted_wrt before (ys @ [x])"
  using assms by (fastforce simp: sorted_wrt_append before_def)

lemma in_time_later: "in_time t r \<Longrightarrow> t \<le> now \<Longrightarrow> in_time now r"
  by (auto simp: in_time_def split: option.splits)

section \<open>A check\<close>

lemma windows_later:
  assumes "windows_ok t (rows, st)" and "t \<le> now"
  shows "windows_ok now (rows, st)"
  using assms in_time_later [OF _ assms(2)] by (auto simp: windows_ok_def state_ok_def split: option.splits)

lemma replaced_ok:
  assumes "windows_ok t (rows, st)" and "t \<le> now" and "detected rows = ys @ [r]" and "q r" and "\<And>x. q x \<Longrightarrow> og_id x = og_id r"
    and "og_source (f r) = Detected" and "og_id (f r) = og_id r" and "og_started (f r) = og_started r" and "in_time now (f r)"
    and "st_pending st1 = None" and "case st_last_good st1 of Some g \<Rightarrow> g \<le> now | None \<Rightarrow> True"
  shows "windows_ok now (sql_update q f rows, st1)"
proof -
  note l = update_last [of rows ys r q f, OF windows_okD(1) [OF assms(1)] assms(3-7)]
  have u: "detected (sql_update q f rows) = ys @ [f r]" by (rule l(1))
  have v: "distinct (map og_id (sql_update q f rows))" by (rule l(2))
  have "sorted_wrt before (detected (sql_update q f rows))"
    using sorted_replace [of ys r "f r"] windows_okD(2) [OF assms(1)] assms(3,8) unfolding u(1) by simp
  moreover have "in_time now x" if "x \<in> set (ys @ [f r])" for x
    using that assms(9) in_time_later [OF windows_okD(3) [OF assms(1)] assms(2)] assms(3) by auto
  ultimately show ?thesis using u v assms(10,11) by (simp add: windows_ok_def state_ok_def)
qed

lemma start_after:
  assumes "windows_ok t (rows, st)" and "t \<le> now" and "openDetected rows = None" and "r \<in> set (detected rows)"
  shows "\<exists>e. og_ended r = Some e \<and> e \<le> window_start (lastClosedDetected rows) st (case st_pending st of Some (p, ss) \<Rightarrow> p | None \<Rightarrow> now)"
proof -
  let ?l = "last (detected rows)"
  have d: "detected rows \<noteq> []" using assms(4) by auto
  have n: "og_ended r \<noteq> None" "og_ended ?l \<noteq> None" using assms(3,4) d none_open by auto
  then obtain e f where e: "og_ended r = Some e" and f: "og_ended ?l = Some f" by auto
  have le: "e \<le> f" using last_closed(2) [OF assms(1,3,4)] e f by simp
  have "in_time t ?l" using windows_okD(3) [OF assms(1)] d by simp
  then have "f \<le> now" using f assms(2) by (auto simp: in_time_def)
  moreover have "st_pending st = Some (p, ss) \<Longrightarrow> f \<le> p" for p ss
    using windows_okD(4) [OF assms(1)] d f by (auto simp: state_ok_def split: option.splits dest!: bspec [of _ _ ?l])
  ultimately have "f \<le> (case st_pending st of Some (p, ss) \<Rightarrow> p | None \<Rightarrow> now)" by (auto split: option.splits)
  then have "f \<le> window_start (Some ?l) st (case st_pending st of Some (p, ss) \<Rightarrow> p | None \<Rightarrow> now)"
    using f by (auto simp: window_start_def Let_def split: option.splits)
  then show ?thesis using e le d last_closed(1) [OF assms(1,3)] by auto
qed

lemma start_before:
  assumes "windows_ok t (rows, st)" and "t \<le> now"
  shows "window_start previous st (case st_pending st of Some (p, ss) \<Rightarrow> p | None \<Rightarrow> now) \<le> now"
  using windows_okD(4) [OF assms(1)] assms(2) by (auto simp: window_start_def Let_def state_ok_def split: option.splits)

lemma fresh_ok:
  assumes "windows_ok t (rows, st)" and "t \<le> now" and "openDetected rows = None" and "i \<notin> og_id ` set rows"
    and "st_pending st1 = None" and "st_last_good st1 = st_last_good st"
  shows "windows_ok now (rows @ [new_window i (lastClosedDetected rows) check st now], st1)"
proof -
  let ?n = "new_window i (lastClosedDetected rows) check st now"
  have n: "og_id ?n = i" "og_source ?n = Detected" "og_ended ?n = None" "og_started ?n = window_start (lastClosedDetected rows) st (case st_pending st of Some (p, ss) \<Rightarrow> p | None \<Rightarrow> now)"
    by (simp_all add: new_window_def Let_def)
  have d: "detected (rows @ [?n]) = detected rows @ [?n]" using n by (simp add: detected_def)
  have s: "sorted_wrt before (detected rows @ [?n])"
    by (rule sorted_add [OF windows_okD(2) [OF assms(1)]]) (use start_after [OF assms(1-3)] n(4) in simp)
  have "in_time now ?n" using start_before [OF assms(1,2)] n by (simp add: in_time_def)
  then have "in_time now x" if "x \<in> set (detected rows @ [?n])" for x
    using that in_time_later [OF windows_okD(3) [OF assms(1)] assms(2)] by auto
  moreover have "state_ok now (rows @ [?n]) st1" using windows_okD(4) [OF assms(1)] assms(2,5,6) by (auto simp: state_ok_def split: option.splits)
  ultimately show ?thesis using s d assms(4) n(1) windows_okD(1) [OF assms(1)] by (simp add: windows_ok_def)
qed

lemma reopen_fields: "og_source (reopen_row check at r) = og_source r" "og_id (reopen_row check at r) = og_id r" "og_started (reopen_row check at r) = og_started r"
  "og_ended (reopen_row check at r) = None"
  by (simp_all add: reopen_row_def)

lemma last_split: "xs \<noteq> [] \<Longrightarrow> xs = butlast xs @ [last xs]"
  by simp

text \<open>Opening: a new window behind the last one, or the last one again.\<close>

lemma opened_ok:
  assumes "windows_ok t (rows, st)" and "t \<le> now" and "openDetected rows = None" and "i \<notin> og_id ` set rows"
    and "openWindow i check st now rows = (rep, rows1)" and "st_pending st1 = None" and "st_last_good st1 = st_last_good st"
  shows "windows_ok now (rows1, st1)
    \<and> (rows1 = rows @ [new_window i (lastClosedDetected rows) check st now]
       \<or> (\<exists>ys r q. detected rows = ys @ [r] \<and> rows1 = sql_update q (reopen_row check now) rows \<and> detected rows1 = ys @ [reopen_row check now r]))"
proof -
  let ?new = "new_window i (lastClosedDetected rows) check st now" and ?l = "last (detected rows)"
  let ?q = "\<lambda>r. og_id r = og_id ?l \<and> og_ended r \<noteq> None"
  have noopen: "filter is_open rows = []" using assms(3) by (auto simp: openDetected_def first_row_def split: list.splits)
  have g: "case st_last_good st1 of Some g \<Rightarrow> g \<le> now | None \<Rightarrow> True"
    using windows_okD(4) [OF assms(1)] assms(2,7) by (auto simp: state_ok_def split: option.splits)
  show ?thesis
  proof (cases "detected rows = []")
    case True
    then have "rows1 = rows @ [?new]" using assms(5) last_closed(1) [OF assms(1,3)] noopen by (simp add: openWindow_def Let_def)
    then show ?thesis using fresh_ok [OF assms(1-4,6,7)] by simp
  next
    case False
    note d = last_split [OF this]
    have e: "og_ended ?l \<noteq> None" "og_source ?l = Detected" "in_time t ?l"
      using False assms(3) none_open windows_okD(3) [OF assms(1)] last_in_set [OF False] by (auto simp: detected_def)
    note u = update_last [where q = ?q and f = "reopen_row check now", OF windows_okD(1) [OF assms(1)] d]
    have r: "sql_returning ?q (reopen_row check now) rows = [reopen_row check now ?l]"
      by (rule u(3)) (use e in \<open>simp_all add: reopen_fields\<close>)
    have "windows_ok now (sql_update ?q (reopen_row check now) rows, st1)"
      by (rule replaced_ok [OF assms(1,2) d]) (use e assms(2,6) g in \<open>auto simp: reopen_fields in_time_def split: option.splits\<close>)
    moreover have "detected (sql_update ?q (reopen_row check now) rows) = butlast (detected rows) @ [reopen_row check now ?l]"
      by (rule u(1)) (use e in \<open>simp_all add: reopen_fields\<close>)
    moreover have "rows1 = rows @ [?new] \<or> rows1 = sql_update ?q (reopen_row check now) rows"
      using assms(5) last_closed(1) [OF assms(1,3)] False noopen r by (auto simp: openWindow_def Let_def first_row_def split: if_splits)
    ultimately show ?thesis using fresh_ok [OF assms(1-4,6,7), of check] d by blast
  qed
qed

lemma close_ok:
  assumes "windows_ok t (rows, st)" and "t \<le> now" and "openDetected rows = Some r" and "q r" and "\<And>x. q x \<Longrightarrow> og_id x = og_id r"
    and "og_source (f r) = og_source r" and "og_id (f r) = og_id r" and "og_started (f r) = og_started r"
    and "case og_ended (f r) of Some e \<Rightarrow> og_started r \<le> e \<and> e \<le> now | None \<Rightarrow> True"
    and "st_pending st1 = None" and "case st_last_good st1 of Some g \<Rightarrow> g \<le> now | None \<Rightarrow> True"
  shows "windows_ok now (sql_update q f rows, st1)"
proof -
  obtain ys where d: "detected rows = ys @ [r]" using open_is_last [OF windows_okD(2) [OF assms(1)] assms(3)] by blast
  then have r: "r \<in> set (detected rows)" by simp
  then have "og_source r = Detected" "og_started r \<le> now" using windows_okD(3) [OF assms(1) r] assms(2) by (auto simp: detected_def in_time_def)
  then have "og_source (f r) = Detected" "in_time now (f r)" using assms(6,8,9) by (auto simp: in_time_def split: option.splits)
  from replaced_ok [of t rows st now ys r q f st1, OF assms(1,2) d assms(4,5) this(1) assms(7,8) this(2) assms(10,11)] show ?thesis .
qed

lemma touch_state: "windows_ok now (rows, st\<lparr>st_last_check := a, st_last_result := b, st_signals := c\<rparr>) = windows_ok now (rows, st)"
  by (simp add: windows_ok_def state_ok_def)

lemma check_ok:
  assumes "windows_ok t (rows, st)" and "t \<le> now" and "i \<notin> og_id ` set rows" and "check_effect i check now rows st = (rep, rows1, st1)"
  shows "windows_ok now (rows1, st1)"
proof (cases "ck_result check")
  case Good
  show ?thesis
  proof (cases "openDetected rows")
    case None
    then show ?thesis using assms(4) Good windows_later [OF assms(1,2)] by (auto simp: check_effect_def Let_def windows_ok_def state_ok_def)
  next
    case (Some r)
    have "og_started r \<le> now" "og_ended r = None"
      using open_is_last [OF windows_okD(2) [OF assms(1)] Some] windows_okD(3) [OF assms(1), of r] assms(2) by (auto simp: in_time_def)
    then have "windows_ok now (sql_update (\<lambda>x. og_id x = og_id r \<and> og_ended x = None) (close_row now) rows, st\<lparr>st_last_good := Some now, st_pending := None\<rparr>)"
      by (intro close_ok [OF assms(1,2) Some]) (auto simp: close_row_def)
    then show ?thesis using assms(4) Good Some by (auto simp: check_effect_def Let_def)
  qed
next
  case Failed
  note later = windows_later [OF assms(1,2)]
  have g: "case st_last_good st of Some g \<Rightarrow> g \<le> now | None \<Rightarrow> True" using later by (simp add: windows_ok_def state_ok_def)
  show ?thesis
  proof (cases "openDetected rows")
    case (Some r)
    then have "og_ended r = None" using open_is_last [OF windows_okD(2) [OF assms(1)]] by blast
    then have "windows_ok now (sql_update (\<lambda>x. og_id x = og_id r) (extend_row check now) rows, st\<lparr>st_pending := None\<rparr>)"
      using g by (intro close_ok [OF assms(1,2) Some]) (auto simp: extend_row_def)
    then show ?thesis using assms(4) Failed Some by (auto simp: check_effect_def)
  next
    case None
    show ?thesis
    proof (cases "first_unanswered check st")
      case True
      have "case og_ended r of Some e \<Rightarrow> e \<le> now | None \<Rightarrow> False" if "r \<in> set (detected rows)" for r
        using that None none_open windows_okD(3) [OF later that] by (auto simp: in_time_def split: option.splits)
      then show ?thesis using assms(4) Failed None True later by (auto simp: check_effect_def windows_ok_def state_ok_def)
    next
      case False
      obtain rep' rows' where o: "openWindow i check st now rows = (rep', rows')" by fastforce
      have "windows_ok now (rows', st\<lparr>st_pending := None\<rparr>)" using opened_ok [OF assms(1,2) None assms(3) o] by simp
      then show ?thesis using assms(4) Failed None False o by (auto simp: check_effect_def split: prod.splits)
    qed
  qed
next
  case Unknown
  then show ?thesis using assms(4) windows_later [OF assms(1,2)] by (auto simp: check_effect_def windows_ok_def state_ok_def)
qed

section \<open>Checks and administrators in any order\<close>

record outage_world =
  ow_rows :: "outage list"
  ow_state :: outage_state
  ow_now :: int

text \<open>
  An administrator may close the open window with an end that has passed, mark windows by hand, and delete any; the
  evidence is read again. Later ends and other starts of detected windows are left out: with an end ahead of now the next
  window begins before it.
\<close>

inductive outage_steps :: "outage_world \<Rightarrow> bool" where
  start: "ow_rows s = [] \<Longrightarrow> ow_state s = no_state \<Longrightarrow> outage_steps s"
| check: "outage_steps s \<Longrightarrow> ow_now s \<le> now \<Longrightarrow> i \<notin> og_id ` set (ow_rows s) \<Longrightarrow> recordCheck i c now (ow_rows s, ow_state s) = (rep, rows, st)
    \<Longrightarrow> outage_steps (s\<lparr>ow_rows := rows, ow_state := st, ow_now := now\<rparr>)"
| close: "outage_steps s \<Longrightarrow> ow_now s \<le> now \<Longrightarrow> openDetected (ow_rows s) = Some r \<Longrightarrow> e \<le> now
    \<Longrightarrow> updateOutage (og_id r) \<lparr>vl_started = None, vl_ended = Some e, vl_reason = reason, vl_planned = None\<rparr> user (ow_rows s) letters = (res, rows, letters1)
    \<Longrightarrow> outage_steps (s\<lparr>ow_rows := rows, ow_now := now\<rparr>)"
| mark: "outage_steps s \<Longrightarrow> i \<notin> og_id ` set (ow_rows s) \<Longrightarrow> outage_steps (s\<lparr>ow_rows := addOutage i v user (ow_rows s)\<rparr>)"
| remove: "outage_steps s \<Longrightarrow> deleteOutage i (ow_rows s) letters = (res, rows, letters1) \<Longrightarrow> outage_steps (s\<lparr>ow_rows := rows\<rparr>)"
| evidence: "outage_steps s \<Longrightarrow> outage_steps (s\<lparr>ow_rows := updateEvidence ls now (ow_rows s)\<rparr>)"

lemma detected_map: "(\<And>r. og_source (f r) = og_source r) \<Longrightarrow> detected (map f rows) = map f (detected rows)"
  by (induction rows) (simp_all add: detected_def)

lemma evidence_ok: "windows_ok t (rows, st) \<Longrightarrow> windows_ok t (updateEvidence ls now rows, st)"
proof -
  assume w: "windows_ok t (rows, st)"
  let ?f = "\<lambda>r. if is_followed now r then r\<lparr>og_evidence := Some (mergeEvidence (og_evidence r) (inboundEvidence ls (og_started r) (og_ended r)))\<rparr> else r"
  have f: "og_source (?f r) = og_source r" "og_id (?f r) = og_id r" "og_started (?f r) = og_started r" "og_ended (?f r) = og_ended r" for r by simp_all
  have u: "updateEvidence ls now rows = map ?f rows" by (simp add: updateEvidence_def sql_update_def)
  have d: "detected (map ?f rows) = map ?f (detected rows)" by (rule detected_map) (rule f(1))
  have b: "before (?f r) (?f x) = before r x" for r x unfolding before_def f ..
  have i: "in_time t (?f r) = in_time t r" for r unfolding in_time_def f ..
  have m: "map og_id (map ?f rows) = map og_id rows" by simp
  show ?thesis using w unfolding u windows_ok_def state_ok_def fst_conv snd_conv d m sorted_wrt_map b set_map ball_simps i f .
qed

lemma removed_ok: "windows_ok t (rows, st) \<Longrightarrow> windows_ok t (sql_delete q rows, st)"
proof -
  assume w: "windows_ok t (rows, st)"
  have d: "detected (sql_delete q rows) = filter (\<lambda>r. \<not> q r) (detected rows)" by (simp add: detected_def sql_delete_def conj_commute)
  have "sorted_wrt before (filter (\<lambda>r. \<not> q r) (detected rows))" using windows_okD(2) [OF w] by (rule sorted_wrt_filter)
  moreover have "distinct (map og_id (sql_delete q rows))" using windows_okD(1) [OF w] by (rule distinct_delete)
  ultimately show ?thesis using w unfolding windows_ok_def state_ok_def fst_conv snd_conv d by (auto split: option.splits)
qed

lemma closed_by_hand:
  assumes "windows_ok t (rows, st)" and "t \<le> now" and "openDetected rows = Some r" and "e \<le> now"
    and "updateOutage (og_id r) \<lparr>vl_started = None, vl_ended = Some e, vl_reason = reason, vl_planned = None\<rparr> user rows letters = (res, rows1, letters1)"
  shows "windows_ok now (rows1, st)"
proof -
  obtain ys where d: "detected rows = ys @ [r]" "og_ended r = None" using open_is_last [OF windows_okD(2) [OF assms(1)] assms(3)] by blast
  then have "r \<in> set (detected rows)" by simp
  then have r: "r \<in> set (detected rows)" "r \<in> set rows" by (simp_all add: detected_def)
  have rb: "row_by og_id (og_id r) rows = Some r" by (rule row_by_in [OF windows_okD(1) [OF assms(1)] r(2)])
  have p: "st_pending st = None" using windows_okD(4) [OF assms(1)] r(1) d(2) by (auto simp: state_ok_def split: option.splits)
  have g: "case st_last_good st of Some g \<Rightarrow> g \<le> now | None \<Rightarrow> True"
    using windows_okD(4) [OF assms(1)] assms(2) by (auto simp: state_ok_def split: option.splits)
  let ?f = "update_row (og_started r) (Some e) (case reason of Some x \<Rightarrow> Some x | None \<Rightarrow> og_reason r) user"
  show ?thesis
  proof (cases "e < og_started r")
    case True
    then show ?thesis using assms(5) windows_later [OF assms(1,2)] by (simp add: updateOutage_def rb)
  next
    case False
    then have "rows1 = sql_update (\<lambda>x. og_id x = og_id r) ?f rows" using assms(5) by (simp add: updateOutage_def rb Let_def)
    moreover have "windows_ok now (sql_update (\<lambda>x. og_id x = og_id r) ?f rows, st)"
      by (rule close_ok [OF assms(1,2,3)]) (use False assms(4) p g in \<open>simp_all add: update_row_def\<close>)
    ultimately show ?thesis by simp
  qed
qed

lemma outages_reachable: "outage_steps s \<Longrightarrow> windows_ok (ow_now s) (ow_rows s, ow_state s)"
proof (induction rule: outage_steps.induct)
  case (start s)
  then show ?case by (simp add: windows_ok_def detected_def state_ok_def no_state_def)
next
  case (check s now i c rep rows st)
  obtain rep' rows' st' where e: "check_effect i c now (ow_rows s) (ow_state s) = (rep', rows', st')" by (metis prod_cases3)
  then have "rows = rows'" "st = st'\<lparr>st_last_check := Some now, st_last_result := Some (ck_result c), st_signals := ck_signals c\<rparr>"
    using check.hyps(4) by (simp_all add: recordCheck_def)
  then show ?case using check_ok [OF check.IH check.hyps(2,3) e] touch_state by simp
next
  case (close s now r e reason user letters res rows letters1)
  then show ?case using closed_by_hand [OF close.IH close.hyps(2,3,4,5)] by simp
next
  case (mark s i v user)
  have "detected (addOutage i v user (ow_rows s)) = detected (ow_rows s)" by (simp add: addOutage_def detected_def)
  moreover have "distinct (map og_id (addOutage i v user (ow_rows s)))" using mark windows_okD(1) by (auto simp: addOutage_def)
  ultimately show ?case using mark.IH by (simp add: windows_ok_def state_ok_def split: option.splits prod.splits)
next
  case (remove s i letters res rows letters1)
  then show ?case using removed_ok [OF remove.IH] by (auto simp: deleteOutage_def split: option.splits)
next
  case (evidence s ls now)
  then show ?case using evidence_ok by simp
qed

text \<open>C40: The windows the job detects never overlap and at most one is open, in every order of checks, closings by hand
  with an end that has passed, windows marked by hand and deletions: of any two one ends before the other
  begins, so no time of an outage is counted twice.\<close>
theorem detected_windows_never_overlap:
  assumes "outage_steps s" and "r \<in> set (ow_rows s)" and "x \<in> set (ow_rows s)" and "og_source r = Detected" and "og_source x = Detected" and "r \<noteq> x"
  shows "(\<exists>e. og_ended r = Some e \<and> e \<le> og_started x) \<or> (\<exists>e. og_ended x = Some e \<and> e \<le> og_started r)"
proof -
  have "sorted_wrt before (detected (ow_rows s))" using outages_reachable [OF assms(1)] windows_okD(2) by blast
  moreover have "r \<in> set (detected (ow_rows s))" "x \<in> set (detected (ow_rows s))" using assms(2-5) by (simp_all add: detected_def)
  moreover have "before r x \<or> before x r" if "sorted_wrt before xs" "r \<in> set xs" "x \<in> set xs" for xs
    using that assms(6) by (induction xs) auto
  ultimately have "before r x \<or> before x r" by blast
  then show ?thesis by (auto simp: before_def split: option.splits)
qed

section \<open>What the job covers\<close>

text \<open>The checks of the job alone: the id of a new window, the moment and the check.\<close>

fun job_run :: "(nat \<times> int \<times> check) list \<Rightarrow> outage list \<times> outage_state \<Rightarrow> outage list \<times> outage_state" where
  "job_run [] s = s"
| "job_run ((i, now, c) # cs) s = job_run cs (snd (recordCheck i c now s))"

lemma job_run_append: "job_run (xs @ ys) s = job_run ys (job_run xs s)"
  by (induction xs s rule: job_run.induct) simp_all

text \<open>A window that lasts from \<open>a\<close> to \<open>b\<close> at least.\<close>

definition covers :: "int \<Rightarrow> int \<Rightarrow> outage \<Rightarrow> bool" where
  "covers a b w \<longleftrightarrow> og_source w = Detected \<and> og_started w \<le> a \<and> (case og_ended w of None \<Rightarrow> True | Some e \<Rightarrow> b \<le> e)"

text \<open>
  Without administrators every closed window ended at a good check, and an open one began at the last good check
  at the latest; \<open>good\<close> is the moment of that check.
\<close>

definition job_row :: "int option \<Rightarrow> outage \<Rightarrow> bool" where
  "job_row good r \<longleftrightarrow> (case og_ended r of Some e \<Rightarrow> (case good of Some g \<Rightarrow> e \<le> g | None \<Rightarrow> False)
   | None \<Rightarrow> (case good of Some g \<Rightarrow> og_started r \<le> g | None \<Rightarrow> True))"

definition job_ok :: "int \<Rightarrow> outage list \<times> outage_state \<Rightarrow> bool" where
  "job_ok now s \<longleftrightarrow> windows_ok now s \<and> (\<forall>r\<in>set (detected (fst s)). job_row (st_last_good (snd s)) r)"

lemma effect_cases:
  assumes "windows_ok t (rows, st)" and "t \<le> now" and "i \<notin> og_id ` set rows" and "check_effect i check now rows st = (rep, rows1, st1)"
  obtains (same) "rows1 = rows" "ck_result check = Good \<Longrightarrow> openDetected rows = None" "ck_result check = Failed \<Longrightarrow> openDetected rows = None \<and> first_unanswered check st"
  | (new) "rows1 = rows @ [new_window i (lastClosedDetected rows) check st now]" "openDetected rows = None" "ck_result check = Failed"
  | (change) ys r x where "detected rows = ys @ [r]" "detected rows1 = ys @ [x]" "og_started x = og_started r" "og_source x = Detected"
      "case og_ended x of None \<Rightarrow> ck_result check = Failed | Some e \<Rightarrow> e = now \<and> ck_result check = Good"
      "og_ended r \<noteq> None \<Longrightarrow> og_ended x = None"
proof (cases "openDetected rows")
  case None
  show ?thesis
  proof (cases "ck_result check = Failed \<and> \<not> first_unanswered check st")
    case True
    obtain rep' rows' where o: "openWindow i check st now rows = (rep', rows')" by fastforce
    have "rows1 = rows'" using assms(4) True None o by (auto simp: check_effect_def split: prod.splits)
    then consider "rows1 = rows @ [new_window i (lastClosedDetected rows) check st now]"
      | ys r where "detected rows = ys @ [r]" "detected rows1 = ys @ [reopen_row check now r]"
      using opened_ok [OF assms(1,2) None assms(3) o, of "st\<lparr>st_pending := None\<rparr>"] by auto
    then show ?thesis
    proof cases
      case 1
      then show ?thesis using new None True by blast
    next
      case (2 ys r)
      then have "r \<in> set (detected rows)" by simp
      then have "og_source r = Detected" by (simp add: detected_def)
      then show ?thesis using change [OF 2] True by (simp add: reopen_fields)
    qed
  next
    case False
    then have "rows1 = rows" using assms(4) None by (auto simp: check_effect_def Let_def split: check_result.splits if_splits)
    then show ?thesis using same None False by blast
  qed
next
  case (Some r)
  obtain ys where d: "detected rows = ys @ [r]" "og_ended r = None" using open_is_last [OF windows_okD(2) [OF assms(1)] Some] by blast
  then have "r \<in> set (detected rows)" by simp
  then have r: "og_source r = Detected" "og_started r \<le> now" using windows_okD(3) [OF assms(1), of r] assms(2) by (simp_all add: detected_def in_time_def)
  show ?thesis
  proof (cases "ck_result check")
    case Good
    then have "rows1 = sql_update (\<lambda>x. og_id x = og_id r \<and> og_ended x = None) (close_row now) rows" using assms(4) Some by (simp add: check_effect_def Let_def)
    moreover have "detected \<dots> = ys @ [close_row now r]"
      by (rule update_last(1) [OF windows_okD(1) [OF assms(1)] d(1)]) (use d r in \<open>simp_all add: close_row_def\<close>)
    ultimately show ?thesis using change [of ys r "close_row now r"] d r Good by (simp add: close_row_def)
  next
    case Failed
    then have "rows1 = sql_update (\<lambda>x. og_id x = og_id r) (extend_row check now) rows" using assms(4) Some by (simp add: check_effect_def)
    moreover have "detected \<dots> = ys @ [extend_row check now r]"
      by (rule update_last(1) [OF windows_okD(1) [OF assms(1)] d(1)]) (use d r in \<open>simp_all add: extend_row_def\<close>)
    ultimately show ?thesis using change [of ys r "extend_row check now r"] d r Failed by (simp add: extend_row_def)
  next
    case Unknown
    then have "rows1 = rows" using assms(4) by (simp add: check_effect_def)
    then show ?thesis using same Unknown by simp
  qed
qed

lemma effect_good: "check_effect i check now rows st = (rep, rows1, st1) \<Longrightarrow> st_last_good st1 = (if ck_result check = Good then Some now else st_last_good st)"
  by (auto simp: check_effect_def Let_def split: check_result.splits option.splits if_splits prod.splits)

lemma updated_ids: "og_id ` set (sql_update q (close_row a) rows) = og_id ` set rows" "og_id ` set (sql_update q (extend_row c a) rows) = og_id ` set rows"
  "og_id ` set (sql_update q (reopen_row c a) rows) = og_id ` set rows"
  by (rule keys_update, simp add: close_row_def extend_row_def reopen_row_def)+

lemma updated_in: "x \<in> set (sql_update q (close_row a) rows) \<Longrightarrow> og_id x \<in> og_id ` set rows"
  "x \<in> set (sql_update q (extend_row c a) rows) \<Longrightarrow> og_id x \<in> og_id ` set rows" "x \<in> set (sql_update q (reopen_row c a) rows) \<Longrightarrow> og_id x \<in> og_id ` set rows"
  using updated_ids by blast+

lemma detected_new: "detected (rows @ [new_window i p check st now]) = detected rows @ [new_window i p check st now]"
  by (simp add: detected_def new_window_def Let_def)

lemma effect_ids: "check_effect i check now rows st = (rep, rows1, st1) \<Longrightarrow> og_id ` set rows1 \<subseteq> insert i (og_id ` set rows)"
  by (auto simp: check_effect_def openWindow_def Let_def new_window_def dest!: updated_in split: check_result.splits option.splits if_splits prod.splits)

lemma fresh_start:
  assumes "job_ok t (rows, st)" and "openDetected rows = None" and "st_last_good st = Some g"
  shows "og_started (new_window i (lastClosedDetected rows) check st now) \<le> g"
proof -
  have le: "the (og_ended r) \<le> g" if "r \<in> set (detected rows)" for r
    using assms that none_open [of rows] by (auto simp: job_ok_def job_row_def split: option.splits dest!: bspec)
  have w: "windows_ok t (rows, st)" using assms(1) by (simp add: job_ok_def)
  have "fl \<le> g" if f: "Option.bind (lastClosedDetected rows) og_ended = Some fl" for fl
  proof (cases "detected rows = []")
    case True
    then show ?thesis using f last_closed(1) [OF w assms(2)] by simp
  next
    case False
    then have "og_ended (last (detected rows)) = Some fl" using f last_closed(1) [OF w assms(2)] by simp
    then show ?thesis using le [OF last_in_set [OF False]] by (simp only: option.sel)
  qed
  then show ?thesis using assms(3) by (auto simp: new_window_def window_start_def Let_def split: option.splits)
qed

lemma job_ok_rows: "job_ok now (rows, st) \<longleftrightarrow> windows_ok now (rows, st) \<and> (\<forall>r\<in>set (detected rows). job_row (st_last_good st) r)"
  by (simp add: job_ok_def)

lemma job_step:
  assumes "job_ok t (rows, st)" and "t \<le> now" and "i \<notin> og_id ` set rows" and "check_effect i check now rows st = (rep, rows1, st1)"
  shows "job_ok now (rows1, st1)"
proof -
  have w: "windows_ok t (rows, st)" and j: "\<And>r. r \<in> set (detected rows) \<Longrightarrow> job_row (st_last_good st) r" using assms(1) by (simp_all add: job_ok_rows)
  have w1: "windows_ok now (rows1, st1)" by (rule check_ok [OF w assms(2-4)])
  note g = effect_good [OF assms(4)]
  have gt: "st_last_good st = Some x \<Longrightarrow> x \<le> now" for x using w assms(2) by (auto simp: windows_ok_def state_ok_def)
  have later: "job_row (Some now) r" if "job_row (st_last_good st) r" "og_ended r \<noteq> None" for r
    using that gt by (fastforce simp: job_row_def split: option.splits)
  have "job_row (st_last_good st1) r" if r1: "r \<in> set (detected rows1)" for r
    using w assms(2-4)
  proof (cases rule: effect_cases)
    case same
    then show ?thesis using j [of r] r1 g later [of r] none_open by (cases "ck_result check = Good") auto
  next
    case new
    have "job_row (st_last_good st) (new_window i (lastClosedDetected rows) check st now)"
      using fresh_start [OF assms(1) new(2)] by (auto simp: job_row_def new_window_def Let_def split: option.splits)
    then show ?thesis using j [of r] r1 new(1,3) g detected_new by auto
  next
    case (change ys q x)
    have q: "q \<in> set (detected rows)" using change by simp
    have y: "og_ended y \<noteq> None" if "y \<in> set ys" for y using windows_okD(2) [OF w] that change(1) by (auto simp: sorted_wrt_append before_def split: option.splits)
    show ?thesis
    proof (cases "r = x")
      case True
      have "in_time t q" using windows_okD(3) [OF w q] .
      then show ?thesis using True change(3,5) j [OF q] g gt by (auto simp: job_row_def in_time_def split: option.splits)
    next
      case False
      then have "r \<in> set ys" using r1 change(2) by simp
      then show ?thesis using j [of r] change(1) g later [of r] y by auto
    qed
  qed
  then show ?thesis using w1 by (simp add: job_ok_rows)
qed

section \<open>From the last good check to the next\<close>

lemma covers_step:
  assumes "windows_ok t (rows, st)" and "t \<le> now" and "i \<notin> og_id ` set rows" and "check_effect i check now rows st = (rep, rows1, st1)"
    and "w \<in> set rows" and "covers a b w" and "b \<le> now"
  shows "\<exists>w\<in>set rows1. covers a b w"
proof -
  have w: "w \<in> set (detected rows)" using assms(5,6) by (simp add: detected_def covers_def)
  have up: "x \<in> set (detected rows1) \<Longrightarrow> x \<in> set rows1" for x by (simp add: detected_def)
  show ?thesis using assms(1-4)
  proof (cases rule: effect_cases)
    case same
    then show ?thesis using assms(5,6) by blast
  next
    case new
    then show ?thesis using assms(5,6) by auto
  next
    case (change ys r x)
    show ?thesis
    proof (cases "w = r")
      case True
      then have "covers a b x" using assms(6,7) change(3,4,5) by (auto simp: covers_def split: option.splits)
      then show ?thesis using up change(2) by auto
    next
      case False
      then show ?thesis using w up change(1,2) assms(6) by auto
    qed
  qed
qed

lemma failed_opens:
  assumes "job_ok t (rows, st)" and "t \<le> now" and "i \<notin> og_id ` set rows" and "check_effect i check now rows st = (rep, rows1, st1)"
    and "ck_result check = Failed" and "\<not> (openDetected rows = None \<and> first_unanswered check st)"
  shows "\<exists>w\<in>set rows1. covers (case st_last_good st of Some g \<Rightarrow> g | None \<Rightarrow> now) now w \<and> og_ended w = None"
proof -
  have w: "windows_ok t (rows, st)" using assms(1) by (simp add: job_ok_rows)
  have ok: "job_ok now (rows1, st1)" by (rule job_step [OF assms(1-4)])
  have "\<exists>w\<in>set (detected rows1). og_ended w = None" using w assms(2-4)
  proof (cases rule: effect_cases)
    case same
    then show ?thesis using assms(5,6) by blast
  next
    case new
    have "og_ended (new_window i (lastClosedDetected rows) check st now) = None" by (simp add: new_window_def Let_def)
    then show ?thesis using new(1) detected_new by simp
  next
    case (change ys r x)
    then show ?thesis using assms(5) by (auto split: option.splits)
  qed
  then obtain x where x: "x \<in> set (detected rows1)" "og_ended x = None" by blast
  have "job_row (st_last_good st) x" "in_time now x"
    using ok x(1) effect_good [OF assms(4)] assms(5) by (auto simp: job_ok_rows windows_ok_def)
  then show ?thesis using x by (auto simp: job_row_def in_time_def covers_def detected_def split: option.splits intro!: bexI [of _ x])
qed

lemma open_stays:
  assumes "windows_ok t (rows, st)" and "t \<le> now" and "i \<notin> og_id ` set rows" and "check_effect i check now rows st = (rep, rows1, st1)"
    and "w \<in> set rows" and "covers a b w" and "og_ended w = None"
  shows "\<exists>w\<in>set rows1. covers a now w \<and> (ck_result check = Good \<or> og_ended w = None)"
proof -
  have w: "w \<in> set (detected rows)" using assms(5,6) by (simp add: detected_def covers_def)
  have up: "x \<in> set (detected rows1) \<Longrightarrow> x \<in> set rows1" for x by (simp add: detected_def)
  have o: "openDetected rows \<noteq> None" using none_open w assms(7) by blast
  show ?thesis using assms(1-4)
  proof (cases rule: effect_cases)
    case same
    then show ?thesis using assms(5-7) by (auto simp: covers_def)
  next
    case new
    then show ?thesis using o by simp
  next
    case (change ys r x)
    have "w = r" using only_last_open [OF windows_okD(2) [OF assms(1)] w assms(7)] change(1) by auto
    then have "covers a now x \<and> (ck_result check = Good \<or> og_ended x = None)" using assms(6) change(3,4,5) by (auto simp: covers_def split: option.splits)
    then show ?thesis using up change(2) by auto
  qed
qed

text \<open>Checks in the order of time with ids of their own.\<close>

fun in_sequence :: "int \<Rightarrow> nat set \<Rightarrow> (nat \<times> int \<times> check) list \<Rightarrow> bool" where
  "in_sequence t used [] \<longleftrightarrow> True"
| "in_sequence t used ((i, now, c) # cs) \<longleftrightarrow> t \<le> now \<and> i \<notin> used \<and> in_sequence now (insert i used) cs"

definition job_inv :: "int \<Rightarrow> nat set \<Rightarrow> outage list \<times> outage_state \<Rightarrow> bool" where
  "job_inv t used s \<longleftrightarrow> job_ok t s \<and> og_id ` set (fst s) \<subseteq> used"

lemma record_effect:
  assumes "job_inv t used (rows, st)" and "t \<le> now" and "i \<notin> used"
  obtains rep rows1 st1 st2 where "check_effect i c now rows st = (rep, rows1, st1)" "snd (recordCheck i c now (rows, st)) = (rows1, st2)"
    "st_last_good st2 = st_last_good st1" "job_inv now (insert i used) (rows1, st2)" "i \<notin> og_id ` set rows"
proof -
  obtain rep rows1 st1 where e: "check_effect i c now rows st = (rep, rows1, st1)" by (metis prod_cases3)
  let ?st2 = "st1\<lparr>st_last_check := Some now, st_last_result := Some (ck_result c), st_signals := ck_signals c\<rparr>"
  have i: "i \<notin> og_id ` set rows" "og_id ` set rows \<subseteq> used" using assms(1,3) by (auto simp: job_inv_def)
  have "job_ok now (rows1, st1)" using job_step [OF _ assms(2) i(1) e] assms(1) by (simp add: job_inv_def)
  then have "job_inv now (insert i used) (rows1, ?st2)" using effect_ids [OF e] i(2) touch_state by (auto simp: job_inv_def job_ok_rows)
  then show ?thesis using that [of rep rows1 st1 ?st2] e i(1) by (simp add: recordCheck_def)
qed

lemma job_run_inv: "job_inv t used s \<Longrightarrow> in_sequence t used (cs @ rest) \<Longrightarrow> \<exists>t' used'. job_inv t' used' (job_run cs s) \<and> in_sequence t' used' rest"
proof (induction cs s arbitrary: t used rule: job_run.induct)
  case (2 i now c cs s)
  obtain rows st where s: "s = (rows, st)" by fastforce
  have n: "t \<le> now" "i \<notin> used" "in_sequence now (insert i used) (cs @ rest)" using "2.prems"(2) by simp_all
  obtain rep rows1 st1 st2 where "snd (recordCheck i c now (rows, st)) = (rows1, st2)" "job_inv now (insert i used) (rows1, st2)"
    by (rule record_effect [OF "2.prems"(1) [unfolded s] n(1,2)])
  then show ?case using "2.IH" [of now "insert i used"] n(3) s by simp
qed auto

lemma run_covers: "job_inv t used s \<Longrightarrow> in_sequence t used cs \<Longrightarrow> w \<in> set (fst s) \<Longrightarrow> covers a b w \<Longrightarrow> b \<le> t \<Longrightarrow> \<exists>w\<in>set (fst (job_run cs s)). covers a b w"
proof (induction cs s arbitrary: t used w rule: job_run.induct)
  case (2 i now c cs s)
  obtain rows st where s: "s = (rows, st)" by fastforce
  have n: "t \<le> now" "i \<notin> used" "in_sequence now (insert i used) cs" using "2.prems"(2) by simp_all
  obtain rep rows1 st1 st2 where e: "check_effect i c now rows st = (rep, rows1, st1)" "snd (recordCheck i c now (rows, st)) = (rows1, st2)"
      "job_inv now (insert i used) (rows1, st2)" "i \<notin> og_id ` set rows"
    by (rule record_effect [OF "2.prems"(1) [unfolded s] n(1,2)])
  have w: "windows_ok t (rows, st)" using "2.prems"(1) s by (simp add: job_inv_def job_ok_rows)
  obtain w' where "w' \<in> set rows1" "covers a b w'" using covers_step [OF w n(1) e(4,1), of _ a b] "2.prems"(3-5) s n(1) by auto
  then show ?case using "2.IH" [of now "insert i used" w'] e(2,3) n(1,3) "2.prems"(5) s by simp
qed auto

lemma run_open:
  assumes "job_inv t used s" and "in_sequence t used (mid @ (j, u, c) # post)" and "\<forall>x\<in>set mid. ck_result (snd (snd x)) \<noteq> Good"
    and "w \<in> set (fst s)" and "covers a b w" and "og_ended w = None"
  shows "\<exists>w\<in>set (fst (job_run (mid @ (j, u, c) # post) s)). covers a u w"
  using assms
proof (induction mid arbitrary: t used s w b)
  case Nil
  obtain rows st where s: "s = (rows, st)" by fastforce
  have n: "t \<le> u" "j \<notin> used" "in_sequence u (insert j used) post" using Nil.prems(2) by simp_all
  obtain rep rows1 st1 st2 where e: "check_effect j c u rows st = (rep, rows1, st1)" "snd (recordCheck j c u (rows, st)) = (rows1, st2)"
      "job_inv u (insert j used) (rows1, st2)" "j \<notin> og_id ` set rows"
    by (rule record_effect [OF Nil.prems(1) [unfolded s] n(1,2)])
  have ok: "windows_ok t (rows, st)" using Nil.prems(1) s by (simp add: job_inv_def job_ok_rows)
  obtain w' where "w' \<in> set rows1" "covers a u w'" using open_stays [OF ok n(1) e(4,1) _ Nil.prems(5,6)] Nil.prems(4) s by auto
  then show ?case using run_covers [OF e(3) n(3), of w' a u] s e(2) by simp
next
  case (Cons x mid)
  obtain rows st i now d where s: "s = (rows, st)" "x = (i, now, d)" by (metis prod_cases3 surj_pair)
  have n: "t \<le> now" "i \<notin> used" "in_sequence now (insert i used) (mid @ (j, u, c) # post)" "ck_result d \<noteq> Good" using Cons.prems(2,3) s by simp_all
  obtain rep rows1 st1 st2 where e: "check_effect i d now rows st = (rep, rows1, st1)" "snd (recordCheck i d now (rows, st)) = (rows1, st2)"
      "job_inv now (insert i used) (rows1, st2)" "i \<notin> og_id ` set rows"
    by (rule record_effect [OF Cons.prems(1) [unfolded s] n(1,2)])
  have ok: "windows_ok t (rows, st)" using Cons.prems(1) s by (simp add: job_inv_def job_ok_rows)
  obtain w' where "w' \<in> set rows1" "covers a now w'" "og_ended w' = None" using open_stays [OF ok n(1) e(4,1) _ Cons.prems(5,6)] Cons.prems(4) s n(4) by auto
  then show ?case using Cons.IH [OF e(3) n(3), of w' now] Cons.prems(3) s e(2) by simp
qed

text \<open>C39: No time without mail goes unseen: when the alert job runs alone, a failed check that counts (any but the first
  unanswered call) lies in a detected window that began at the last good check before it at the latest and
  lasts to every check up to the first good one after it, whatever checks came before and
  come later.\<close>
theorem outages_are_covered:
  assumes "in_sequence start {} (pre @ (i, now, f) # mid @ (j, u, c) # post)" and "job_run pre ([], no_state) = (rows, st)"
    and "ck_result f = Failed" and "\<not> (openDetected rows = None \<and> first_unanswered f st)" and "\<forall>x\<in>set mid. ck_result (snd (snd x)) \<noteq> Good"
  shows "\<exists>w\<in>set (fst (job_run (pre @ (i, now, f) # mid @ (j, u, c) # post) ([], no_state))).
    og_source w = Detected \<and> og_started w \<le> (case st_last_good st of Some g \<Rightarrow> g | None \<Rightarrow> now) \<and> (case og_ended w of None \<Rightarrow> True | Some e \<Rightarrow> u \<le> e)"
proof -
  have "job_inv start {} ([], no_state)" by (simp add: job_inv_def job_ok_rows windows_ok_def detected_def state_ok_def no_state_def)
  then obtain t used where t: "job_inv t used (rows, st)" "in_sequence t used ((i, now, f) # mid @ (j, u, c) # post)"
    using job_run_inv [OF _ assms(1)] assms(2) by force
  have n: "t \<le> now" "i \<notin> used" "in_sequence now (insert i used) (mid @ (j, u, c) # post)" using t(2) by simp_all
  obtain rep rows1 st1 st2 where e: "check_effect i f now rows st = (rep, rows1, st1)" "snd (recordCheck i f now (rows, st)) = (rows1, st2)"
      "job_inv now (insert i used) (rows1, st2)" "i \<notin> og_id ` set rows"
    by (rule record_effect [OF t(1) n(1,2)])
  let ?a = "case st_last_good st of Some g \<Rightarrow> g | None \<Rightarrow> now"
  obtain w where w: "w \<in> set rows1" "covers ?a now w" "og_ended w = None"
    using failed_opens [OF _ n(1) e(4,1) assms(3,4)] t(1) by (auto simp: job_inv_def)
  then obtain w' where "w' \<in> set (fst (job_run (mid @ (j, u, c) # post) (rows1, st2)))" "covers ?a u w'"
    using run_open [OF e(3) n(3) assms(5) _ w(2,3)] w(1) by auto
  then show ?thesis using e(2) assms(2) by (auto simp: job_run_append covers_def)
qed

definition ex_good :: check where "ex_good = \<lparr>ck_result = Good, ck_signals = [], ck_down = []\<rparr>"
definition ex_silent :: check where "ex_silent = classifyCheck None (Some ''mail_node_unreachable'')"
definition ex_down :: check where "ex_down = classifyCheck (Some [\<lparr>ct_name = Some ''postfix-mailcow'', ct_state = Some ''exited''\<rparr>]) None"

definition ex_checks :: "(nat \<times> int \<times> check) list" where
  "ex_checks = [(1, 0, ex_good), (2, 300000, ex_silent), (3, 600000, ex_silent), (4, 900000, ex_silent), (5, 1200000, ex_good), (6, 9000000, ex_down)]"

theorem outages_are_covered_witness:
  "map (\<lambda>w. (og_started w, og_ended w)) (fst (job_run ex_checks ([], no_state))) = [(0, Some 1200000), (1200000, None)]
   \<and> (\<exists>w\<in>set (fst (job_run ex_checks ([], no_state))). og_source w = Detected \<and> og_started w \<le> 0 \<and> (case og_ended w of None \<Rightarrow> True | Some e \<Rightarrow> 1200000 \<le> e))"
proof
  show "map (\<lambda>w. (og_started w, og_ended w)) (fst (job_run ex_checks ([], no_state))) = [(0, Some 1200000), (1200000, None)]" by code_simp
  let ?pre = "[(1, 0, ex_good), (2, 300000, ex_silent)]" and ?mid = "[(4, 900000, ex_silent)]" and ?post = "[(6, 9000000, ex_down)]"
  obtain rows st where r: "job_run ?pre ([], no_state) = (rows, st)" by fastforce
  have "st_last_good (snd (job_run ?pre ([], no_state))) = Some 0" "first_unanswered ex_silent (snd (job_run ?pre ([], no_state))) = False" by code_simp+
  then have st: "st_last_good st = Some 0" "\<not> first_unanswered ex_silent st" using r by simp_all
  have f: "ck_result ex_silent = Failed" by code_simp
  have x: "ex_checks = ?pre @ (3, 600000, ex_silent) # ?mid @ (5, 1200000, ex_good) # ?post" by (simp add: ex_checks_def)
  have "\<exists>w\<in>set (fst (job_run (?pre @ (3, 600000, ex_silent) # ?mid @ (5, 1200000, ex_good) # ?post) ([], no_state))).
      og_source w = Detected \<and> og_started w \<le> (case st_last_good st of Some g \<Rightarrow> g | None \<Rightarrow> 600000) \<and> (case og_ended w of None \<Rightarrow> True | Some e \<Rightarrow> 1200000 \<le> e)"
    by (rule outages_are_covered [OF _ r, of 0]) (simp_all add: f st(2))
  then show "\<exists>w\<in>set (fst (job_run ex_checks ([], no_state))). og_source w = Detected \<and> og_started w \<le> 0 \<and> (case og_ended w of None \<Rightarrow> True | Some e \<Rightarrow> 1200000 \<le> e)"
    unfolding x st(1) by simp
qed

definition ex_world0 :: outage_world where "ex_world0 = \<lparr>ow_rows = [], ow_state = no_state, ow_now = 0\<rparr>"

definition ex_one :: "outage list \<times> outage_state" where "ex_one = snd (recordCheck 1 ex_down 0 ([], no_state))"
definition ex_two :: "outage list \<times> outage_state" where "ex_two = snd (recordCheck 2 ex_good 1 ex_one)"
definition ex_three :: "outage list \<times> outage_state" where "ex_three = snd (recordCheck 3 ex_down 9000000 ex_two)"

lemma ex_world_reached: "outage_steps \<lparr>ow_rows = fst ex_three, ow_state = snd ex_three, ow_now = 9000000\<rparr>"
proof -
  have step: "outage_steps \<lparr>ow_rows = fst (snd (recordCheck i c t s)), ow_state = snd (snd (recordCheck i c t s)), ow_now = t\<rparr>"
    if "outage_steps \<lparr>ow_rows = fst s, ow_state = snd s, ow_now = t0\<rparr>" "t0 \<le> t" "i \<notin> og_id ` set (fst s)" for i c t t0 s
    using outage_steps.check [OF that(1), of t i c "fst (recordCheck i c t s)"] that(2,3) by simp
  have "outage_steps \<lparr>ow_rows = fst ([], no_state), ow_state = snd ([], no_state), ow_now = 0\<rparr>" by (rule outage_steps.start) simp_all
  then have "outage_steps \<lparr>ow_rows = fst ex_one, ow_state = snd ex_one, ow_now = 0\<rparr>" unfolding ex_one_def by (rule step) simp_all
  then have "outage_steps \<lparr>ow_rows = fst ex_two, ow_state = snd ex_two, ow_now = 1\<rparr>" unfolding ex_two_def
  proof (rule step)
    show "2 \<notin> og_id ` set (fst ex_one)" by code_simp
  qed simp
  then show ?thesis unfolding ex_three_def
  proof (rule step)
    show "3 \<notin> og_id ` set (fst ex_two)" by code_simp
  qed simp
qed

definition ex_closed :: outage where "ex_closed = hd (fst ex_three)"
definition ex_open :: outage where "ex_open = last (fst ex_three)"

theorem detected_windows_never_overlap_witness:
  "og_ended ex_closed = Some 1 \<and> og_ended ex_open = None \<and> 1 \<le> og_started ex_open"
proof -
  have h: "ex_closed \<in> set (fst ex_three)" "ex_open \<in> set (fst ex_three)" "og_source ex_closed = Detected" "og_source ex_open = Detected" "og_ended ex_closed = Some 1" "og_ended ex_open = None"
    by code_simp+
  then have "ex_closed \<noteq> ex_open" by auto
  then have "\<exists>e. og_ended ex_closed = Some e \<and> e \<le> og_started ex_open"
    using detected_windows_never_overlap [OF ex_world_reached, of ex_closed ex_open] h by auto
  then show ?thesis using h by auto
qed

text \<open>
  An end by hand may lie ahead: then the next window the job opens begins before that end, as its start is the first
  failed check at the latest.
\<close>

definition ex_ahead :: "(update_error + outage) \<times> outage list \<times> traced_letter list" where
  "ex_ahead = updateOutage 1 \<lparr>vl_started = None, vl_ended = Some 100000000, vl_reason = None, vl_planned = None\<rparr> (Some ''admin'') (fst ex_one) []"

lemma window_begins_before_an_end_ahead:
  "parseOutageInput True 0 \<lparr>ob_started = Absent, ob_ended = Given (Some 100000000), ob_reason = None, ob_planned = False\<rparr>
     = Inr \<lparr>vl_started = None, vl_ended = Some 100000000, vl_reason = None, vl_planned = None\<rparr>"
  "map (\<lambda>w. (og_started w, og_ended w)) (fst (job_run [(2, 9000000, ex_good), (3, 9300000, ex_down)] (fst (snd ex_ahead), snd ex_one)))
     = [(0, Some 100000000), (9300000, None)]"
  by code_simp+

end
