(* ===== verification/Spec2Isabelle.thy ===== *)
theory Spec2Isabelle
  imports SendProperties MoveProperties MoveLookups QueueProperties AccessProperties AccessVerify AccessScheduler
    ThreadProperties Expunge MailEndpoint InboxBarrier RateProperties VCardProperties OAuthRuns OAuthState EopProperties
    OutageProperties
begin

text \<open>
  MailExpert is a webmail panel: a Node backend over PostgreSQL and the mail servers of its
  mailboxes, and a React client. This development models the parts of the backend that must not lose,
  duplicate or leak mail, or let the wrong person in. All paths are under \<open>backend/src/\<close>.

  Parts and how they interact.

  \<^item> The durable job queue (\<open>services/jobQueue.js\<close>): a table of jobs that workers claim, run and settle,
    and that users cancel, move and retry. \<open>JobQueue\<close> has one function per SQL statement over
    \<open>jobdb\<close> (the tables \<open>jobs\<close> and \<open>outgoing_messages\<close>), \<open>JobWorker\<close> the runs of handlers with crashes, lost
    answers of the database and lease sweeps, as an inductive relation of events. \<open>QueueProperties\<close> has
    what single operations promise.
  \<^item> Undo send and send later (\<open>services/sendQueue.js\<close>, \<open>sendDelivery.js\<close>, \<open>smtpErrors.js\<close>): one kind of
    job. \<open>SendLetter\<close> is the stored letter and its serialisation, \<open>SendQueue\<close> the operations of a user,
    \<open>SendHandler\<close> the handler step by step, \<open>SendDelivery\<close> the classification of a failed hand-over,
    \<open>SendLease\<close> the lease of the Proton worker (\<open>services/proton/maintenance.js\<close>), \<open>DeliveryCodes\<close> the codes a
    refusal is explained by (\<open>services/mailNode/deliveryCodes.js\<close>). The locale \<open>at_most_once_kind\<close> of
    \<open>AtMostOnce\<close> is what the queue asks of a handler and what it gives for it; \<open>SendProperties\<close> interprets it
    on the send handler.
  \<^item> DB-first moves (\<open>services/moveQueue.js\<close>): a letter moves in the database at once, under a negative
    placeholder uid, and the MOVE on the server follows. \<open>MoveQueue\<close> has every statement and transaction
    over \<open>movedb\<close>, \<open>MoveInvariant\<close> and \<open>MoveSteps\<close> the invariant and the relation of the steps: every statement of the
    queue, arriving letters, deletes, writes of flags, the rename of a folder (\<open>routes/mail.js\<close>) as one step, and the moves
    past the queue (rules, snoozes, archives) that find the row on no placeholder; \<open>MoveProperties\<close> is what holds in every state so
    reached. \<open>MoveWorker\<close> is one run of a
    mailbox against any answers of its server, with the guards, holds and deferred flags kept in memory;
    \<open>MoveRuns\<close>, \<open>MoveEnds\<close> and \<open>MoveRefinement\<close> show that it is a path of the steps, \<open>MoveWorkerProperties\<close> what a
    run promises beyond that, \<open>MoveLookups\<close> that a MOVE that went out is looked up before it is sent again.
  \<^item> Permanent deletes (\<open>services/expungeClaims.js\<close>): \<open>Expunge\<close>. Rows a delete has claimed are the rows the move
    queue leaves alone (\<open>ms_claimed\<close> of \<open>MoveQueue\<close>).
  \<^item> \<open>Claims\<close> is the contract the three queues share (a locale): what a claim hands out was free and no longer
    is. It is interpreted on the jobs (\<open>QueueProperties\<close>), the moves (\<open>MoveClaims\<close>) and the deletes (\<open>Expunge\<close>),
    each beside every other operation that writes the same state.
  \<^item> Conversations (\<open>services/threading\<close>): \<open>Threading\<close> is the thread key of a letter and the pass that
    recomputes a mailbox in batches behind a stored cursor; \<open>ThreadPass\<close> and \<open>ThreadProperties\<close> show that the pass
    may be cut and interrupted anywhere, and that it agrees with the live sync.
  \<^item> Panel users (\<open>services/auth/userIdentity.js\<close>, \<open>userStatus.js\<close>, \<open>services/accessSync/tombstones.js\<close>):
    \<open>PanelUsers\<close>, who an address signs in as and the last administrator.
  \<^item> The Cloudflare Access sync (\<open>services/accessSync\<close>): \<open>AccessReconcile\<close> is the three-way comparison of
    policy, baseline and users, \<open>AccessSync\<close> the settings, the stored state and one whole run, in which others
    may change the panel meanwhile; \<open>AccessUsers\<close>, \<open>AccessRuns\<close> and \<open>AccessProperties\<close> show its limits, what it
    may do to a user and that it comes to rest. \<open>AccessVerify\<close> is what an administrator does with the
    settings, \<open>AccessScheduler\<close> when runs happen (a state machine of timers and a line of operations).
  \<^item> Stored credentials (\<open>services/encryption.js\<close>): \<open>Encryption\<close>, used by the settings of the sync.
  \<^item> Hosts (\<open>services/hostValidation.js\<close>, \<open>services/accounts/mailEndpoint.js\<close>, \<open>services/connectionPolicy.js\<close>):
    \<open>Hosts\<close>, \<open>HostProperties\<close> and \<open>MailEndpoint\<close>, on the addresses of \<open>Networks\<close>
    (\<open>services/mailNode/eopRanges.js\<close>).
  \<^item> Inbox rules (\<open>services/inboxRules.js\<close>): \<open>InboxRules\<close> is the guard against slow expressions and the
    conditions, which may be undecided while the body of a letter is not fetched; \<open>InboxActions\<close> is the actions,
    the order in which the rules of a letter run them, batches and the block list. \<open>InboxProperties\<close> and
    \<open>InboxBarrier\<close> show what an unseen body decides, that the counters of the folders follow the letter (but for Gmail's All Mail), and
    that forwards run before a letter moves.
  \<^item> Limits (\<open>services/rateLimiter.js\<close>, \<open>authLimiter.js\<close>): \<open>RateLimits\<close> has the counters in Redis, the ones in
    memory that stand in when an answer does not come, and the limits of a route and of sign-ins. The locale
    \<open>fixed_window\<close> of \<open>RateProperties\<close> is what bounds the requests of both kinds of counters.
  \<^item> Contacts (\<open>utils/vcard.js\<close>): \<open>VCard\<close> writes and reads cards, \<open>VCardProperties\<close> shows what comes back of them.
  \<^item> Google apps (\<open>services/oauth/googleApps.js\<close>, \<open>googleAppSelection.js\<close>): \<open>GoogleApps\<close> is the registry with its
    grants in the database and its reservations in Redis, \<open>GoogleSeats\<close> the interleavings of consents.
  \<^item> Tokens (\<open>services/oauth/tokenManager.js\<close>, \<open>googleOAuth.js\<close>, \<open>microsoftOAuth.js\<close>): \<open>OAuthTokens\<close>, with what a
    refresh keeps in \<open>OAuthProperties\<close> and the processes behind the lock, whose time may run out under them, in \<open>OAuthRuns\<close>; \<open>OAuthState\<close> is the
    consents and paths that wait in Redis to be used once (\<open>oauthState.js\<close>, \<open>googleLaunch.js\<close>).

  \<^item> EOP seats (\<open>services/mailNode/eopSeats.js\<close>, \<open>seatProvider.js\<close>): \<open>EopSeats\<close> is the ledger of licences with the
    operations of creating, deactivating, deleting and activating a mailbox on it, and the requests for more;
    \<open>EopProperties\<close> shows what its transactions keep in any order.
  \<^item> Outages (\<open>services/mailNode/outages.js\<close>): \<open>Outages\<close> is the result of a check, the windows the alert job opens,
    extends, closes and opens again, the ones an administrator adds, changes and deletes, and the evidence of the
    log. \<open>OutageProperties\<close> shows that the detected windows never overlap and that no failure that counts is left
    out of them.

  \<open>Prelude\<close> has tables, JSON and text, \<open>Rex\<close> JavaScript's string operations and regular expressions with their
  meaning.

  Conventions. A table is a list of rows, a statement a function on it, a transaction one function. Time
  is an integer of milliseconds and an argument; random identifiers are arguments. A raised error is the
  left of a sum, JavaScript's null and undefined are \<open>None\<close>. A \<open>char\<close> is one UTF-16 code unit, so texts
  are those whose units are below 256. IPv4 arithmetic and bytes are words; a JavaScript number that is
  a count or an id is a natural number, and a BigInt an integer.

  What stands for code that is not under \<open>src\<close>: the answers of IMAP and SMTP servers, Cloudflare, the
  Proton worker and the resolvers are arguments; AES-GCM, HKDF, UTF-8, IDNA and the URL parser too. The
  hypotheses on them are \<open>crypto_ok\<close> (what was sealed opens), \<open>imap_uids\<close> (uids are positive), \<open>hash_ok\<close> (the
  digests of different texts differ and have no colon) and the ones the statements name. The VM that runs an
  expression of a rule, the answers of Google and Microsoft and whether Redis answers are arguments.

  Bounds and fuel. \<open>MoveWorker.enqueue\<close> and its handling of pending rows call each other; two rounds give
  the result of any deeper recursion (\<open>enqueue_takes_two_rounds\<close>). \<open>SendLease.acquire\<close> ends after at most 61
  requests (\<open>send_lease_acquired\<close>). \<open>Threading.runRecompute\<close> takes the batches of one call as an argument; the
  property holds for every cut. Every other function is total by structural recursion or a measure.

  Not modelled: the IMAP synchronisation (\<open>services/imapManager.js\<close>), which talks to live servers; the
  HTTP routes, the command line and the client, which call what is modelled here; message parsing and
  rendering, categories, the mail node, the tenant, the exchange of codes and the identity tokens of
  OAuth, Proton's mailboxes, accounts and their probes, administration, plugins, notifications and
  diagnostics. Of modelled files: how folders of an archive are found, timers that only
  decide when an operation runs (apart from the scheduler of the sync), the Sent copy after a
  delivery, the preview of a recompute, IPv6 zones in networks, and node's BlockList of
  \<open>isEopAddress\<close>.
\<close>

end
